(* ===== verification/Prelude.thy ===== *)
theory Prelude
  imports Complex_Main "HOL-Library.AList" "HOL-Library.Sublist"
begin

text \<open>
  Shared vocabulary of the development.

  \<^item> Python exceptions are values of the type \<open>exn\<close>; a function that may raise returns
    \<open>'a res\<close>, with \<open>Inl\<close> for the exception and \<open>Inr\<close> for the returned value.
  \<^item> Python data (the JSON-like values that flow between workflow nodes) is the datatype
    \<open>val\<close>. Floats are rationals: rounding, infinities and NaN are not modelled.
  \<^item> A \<open>dict\<close> is an association list in insertion order, updated as Python does: the
    position of an existing key is kept, a new key goes to the end.
  \<^item> String helpers with the semantics of \<open>in\<close>, \<open>str.split\<close>, \<open>str.join\<close> and
    of decimal formatting.
  \<^item> Two locales that several components share: a deterministic machine whose operations keep
    an invariant, and a step relation that does.
\<close>

named_theorems dict_simps "rewrite rules on insertion-ordered dictionaries"
named_theorems res_simps "rewrite rules on results that may be exceptions"

section \<open>Exceptions and results\<close>

datatype exn_kind = ValueError | KeyError | TypeError | IndexError | ZeroDivisionError
  | RuntimeError | AttributeError | CycleDetectionError | ChainError | ValidationError
  | SyntaxError | OtherError string

datatype exn = Exn (exn_kind: exn_kind) (exn_msg: string)

type_synonym 'a res = "exn + 'a"

text \<open>The class name that \<open>type(exc).__name__\<close> shows.\<close>

fun exn_name :: "exn_kind \<Rightarrow> string" where
  "exn_name ValueError = ''ValueError''"
| "exn_name KeyError = ''KeyError''"
| "exn_name TypeError = ''TypeError''"
| "exn_name IndexError = ''IndexError''"
| "exn_name ZeroDivisionError = ''ZeroDivisionError''"
| "exn_name RuntimeError = ''RuntimeError''"
| "exn_name AttributeError = ''AttributeError''"
| "exn_name CycleDetectionError = ''CycleDetectionError''"
| "exn_name ChainError = ''ChainError''"
| "exn_name ValidationError = ''ValidationError''"
| "exn_name SyntaxError = ''SyntaxError''"
| "exn_name (OtherError s) = s"

definition res_bind :: "'a res \<Rightarrow> ('a \<Rightarrow> 'b res) \<Rightarrow> 'b res" where
  "res_bind r f = (case r of Inl e \<Rightarrow> Inl e | Inr x \<Rightarrow> f x)"

lemma res_bind_simps [simp, res_simps]:
  "res_bind (Inl e) f = Inl e"
  "res_bind (Inr x) f = f x"
  by (simp_all add: res_bind_def)

lemma res_bind_Inr_iff [res_simps]:
  "res_bind r f = Inr y \<longleftrightarrow> (\<exists>x. r = Inr x \<and> f x = Inr y)"
  by (cases r) auto

lemma res_bind_cong [fundef_cong]:
  "r = r' \<Longrightarrow> (\<And>x. r' = Inr x \<Longrightarrow> f x = g x) \<Longrightarrow> res_bind r f = res_bind r' g"
  by (cases r') auto

text \<open>Evaluate a list of computations in order, stopping at the first exception.\<close>

fun res_map :: "('a \<Rightarrow> 'b res) \<Rightarrow> 'a list \<Rightarrow> 'b list res" where
  "res_map f [] = Inr []"
| "res_map f (x # xs) =
     res_bind (f x) (\<lambda>y. res_bind (res_map f xs) (\<lambda>ys. Inr (y # ys)))"

lemma res_map_cong [fundef_cong]:
  "xs = ys \<Longrightarrow> (\<And>x. x \<in> set ys \<Longrightarrow> f x = g x) \<Longrightarrow> res_map f xs = res_map g ys"
  by (induction ys arbitrary: xs) auto

lemma res_map_Inr_iff:
  "res_map f xs = Inr ys \<longleftrightarrow> list_all2 (\<lambda>x y. f x = Inr y) xs ys"
  by (induction xs arbitrary: ys) (auto simp: res_bind_Inr_iff list_all2_Cons1)

lemma res_map_length: "res_map f xs = Inr ys \<Longrightarrow> length ys = length xs"
  by (auto simp: res_map_Inr_iff dest: list_all2_lengthD)

text \<open>The exception of a Python operator or builtin on values of the wrong type.\<close>

definition type_error :: "'a res" where
  "type_error = Inl (Exn TypeError ''unsupported operand type(s)'')"

section \<open>Insertion-ordered dictionaries\<close>

type_synonym 'v dict = "(string \<times> 'v) list"

abbreviation dict_get :: "('k \<times> 'v) list \<Rightarrow> 'k \<Rightarrow> 'v option" where
  "dict_get \<equiv> map_of"

abbreviation dict_keys :: "('k \<times> 'v) list \<Rightarrow> 'k list" where
  "dict_keys d \<equiv> map fst d"

abbreviation dict_wf :: "('k \<times> 'v) list \<Rightarrow> bool" where
  "dict_wf d \<equiv> distinct (map fst d)"

definition dict_set :: "'k \<Rightarrow> 'v \<Rightarrow> ('k \<times> 'v) list \<Rightarrow> ('k \<times> 'v) list" where
  "dict_set k v d = AList.update k v d"

text \<open>\<open>d.update(e)\<close>, which is also \<open>{**d, **e}\<close>: the entries of \<open>e\<close> are stored in turn.\<close>

definition dict_union :: "('k \<times> 'v) list \<Rightarrow> ('k \<times> 'v) list \<Rightarrow> ('k \<times> 'v) list" where
  "dict_union d e = fold (\<lambda>(k, v). dict_set k v) e d"

definition dict_setdefault :: "'k \<Rightarrow> 'v \<Rightarrow> ('k \<times> 'v) list \<Rightarrow> ('k \<times> 'v) list" where
  "dict_setdefault k v d = (case dict_get d k of None \<Rightarrow> dict_set k v d | Some _ \<Rightarrow> d)"

definition dict_pop :: "'k \<Rightarrow> ('k \<times> 'v) list \<Rightarrow> ('k \<times> 'v) list" where
  "dict_pop k d = filter (\<lambda>p. fst p \<noteq> k) d"

definition dict_get_or :: "('k \<times> 'v) list \<Rightarrow> 'k \<Rightarrow> 'v \<Rightarrow> 'v" where
  "dict_get_or d k dflt = (case dict_get d k of None \<Rightarrow> dflt | Some v \<Rightarrow> v)"

lemma dict_get_set [simp, dict_simps]:
  "dict_get (dict_set k v d) k' = (if k' = k then Some v else dict_get d k')"
  by (simp add: dict_set_def update_conv')

lemma dict_set_simps [simp]:
  "dict_set k v [] = [(k, v)]"
  "dict_set k v ((k', v') # d) = (if k' = k then (k, v) # d else (k', v') # dict_set k v d)"
  by (simp_all add: dict_set_def)

lemma dict_wf_set [simp, intro]: "dict_wf d \<Longrightarrow> dict_wf (dict_set k v d)"
  by (simp add: dict_set_def distinct_update)

lemma dict_keys_set_list:
  "dict_keys (dict_set k v d) = (if k \<in> set (dict_keys d) then dict_keys d else dict_keys d @ [k])"
  by (simp add: dict_set_def update_keys)

lemma dict_keys_set [simp, dict_simps]:
  "set (dict_keys (dict_set k v d)) = insert k (set (dict_keys d))"
  unfolding dict_keys_set_list by (simp add: insert_absorb del: list.set_map)

lemma dict_set_new: "k \<notin> set (dict_keys d) \<Longrightarrow> dict_set k v d = d @ [(k, v)]"
  by (induction d) auto

lemma dict_set_append:
  "dict_set k v (d @ e) = (if k \<in> set (dict_keys d) then dict_set k v d @ e else d @ dict_set k v e)"
  by (induction d) (auto simp: rev_image_eqI)

lemma dict_get_union [dict_simps]:
  "dict_wf e \<Longrightarrow>
   dict_get (dict_union d e) k = (case dict_get e k of None \<Rightarrow> dict_get d k | Some v \<Rightarrow> Some v)"
proof (induction e arbitrary: d)
  case Nil
  then show ?case by (simp add: dict_union_def)
next
  case (Cons p e)
  obtain k1 v1 where p: "p = (k1, v1)" by force
  have "dict_get (dict_union d (p # e)) k = dict_get (dict_union (dict_set k1 v1 d) e) k"
    by (simp add: dict_union_def p)
  also have "\<dots> = (case dict_get e k of None \<Rightarrow> dict_get (dict_set k1 v1 d) k | Some v \<Rightarrow> Some v)"
    using Cons by simp
  finally have step: "dict_get (dict_union d (p # e)) k = \<dots>" .
  have "dict_get e k1 = None" using Cons.prems by (simp add: p map_of_eq_None_iff)
  then show ?case unfolding step by (cases "k = k1") (auto simp: p split: option.splits)
qed

lemma dict_wf_union [simp, intro]: "dict_wf d \<Longrightarrow> dict_wf (dict_union d e)"
  unfolding dict_union_def by (induction e arbitrary: d) (auto simp: case_prod_beta)

lemma dict_keys_union [dict_simps]:
  "set (dict_keys (dict_union d e)) = set (dict_keys d) \<union> set (dict_keys e)"
proof (induction e arbitrary: d)
  case Nil
  then show ?case by (simp add: dict_union_def)
next
  case (Cons p e)
  then have "set (dict_keys (dict_union (dict_set (fst p) (snd p) d) e)) =
    set (dict_keys (dict_set (fst p) (snd p) d)) \<union> set (dict_keys e)" by blast
  then show ?case by (simp add: dict_union_def case_prod_beta del: set_map)
qed

lemma dict_get_setdefault [dict_simps]:
  "dict_get (dict_setdefault k v d) k' =
     (if k' = k then Some (dict_get_or d k v) else dict_get d k')"
  by (auto simp: dict_setdefault_def dict_get_or_def split: option.splits)

lemma dict_wf_setdefault [simp, intro]: "dict_wf d \<Longrightarrow> dict_wf (dict_setdefault k v d)"
  by (auto simp: dict_setdefault_def split: option.splits)

lemma dict_get_pop [simp, dict_simps]:
  "dict_get (dict_pop k d) k' = (if k' = k then None else dict_get d k')"
  unfolding dict_pop_def by (induction d) auto

lemma dict_wf_pop [simp, intro]: "dict_wf d \<Longrightarrow> dict_wf (dict_pop k d)"
  unfolding dict_pop_def by (simp add: distinct_map_filter)

lemma dict_get_keys: "dict_get d k = Some v \<Longrightarrow> k \<in> set (dict_keys d)"
  by (force dest: map_of_SomeD)

lemma dict_get_eq_None: "dict_get d k = None \<longleftrightarrow> k \<notin> set (dict_keys d)"
  by (simp add: map_of_eq_None_iff)

section \<open>Strings\<close>

text \<open>A string between single quotation marks, as the f-strings of the messages write it.\<close>

definition sq :: "string \<Rightarrow> string" where
  "sq s = CHR 0x27 # s @ [CHR 0x27]"

text \<open>\<open>sub in s\<close>\<close>

fun str_contains :: "string \<Rightarrow> string \<Rightarrow> bool" where
  "str_contains sub [] = (sub = [])"
| "str_contains sub (c # s) = (prefix sub (c # s) \<or> str_contains sub s)"

lemma str_contains_iff: "str_contains sub s \<longleftrightarrow> sublist sub s"
  by (induction s) (auto simp: sublist_Cons_right)

text \<open>\<open>s.split(sep)\<close> for a non-empty separator; \<open>acc\<close> is the current piece, reversed.\<close>

function split_aux :: "string \<Rightarrow> string \<Rightarrow> string \<Rightarrow> string list" where
  "split_aux sep acc [] = [rev acc]"
| "split_aux sep acc (c # s) =
     (if sep \<noteq> [] \<and> prefix sep (c # s)
      then rev acc # split_aux sep [] (drop (length sep) (c # s))
      else split_aux sep (c # acc) s)"
  by pat_completeness auto
termination
  by (relation "measure (\<lambda>(sep, acc, s). length s)") (auto simp: length_greater_0_conv Suc_le_eq diff_less_Suc)

definition str_split :: "string \<Rightarrow> string \<Rightarrow> string list" where
  "str_split sep s = split_aux sep [] s"

fun str_join :: "string \<Rightarrow> string list \<Rightarrow> string" where
  "str_join sep [] = []"
| "str_join sep [x] = x"
| "str_join sep (x # y # xs) = x @ sep @ str_join sep (y # xs)"

lemma split_aux_nonempty [simp]: "split_aux sep acc s \<noteq> []"
  by (induction sep acc s rule: split_aux.induct) auto

lemma join_split_aux: "str_join sep (split_aux sep acc s) = rev acc @ s"
proof (induction sep acc s rule: split_aux.induct)
  case (1 sep acc)
  then show ?case by simp
next
  case (2 sep acc c s)
  show ?case
  proof (cases "sep \<noteq> [] \<and> prefix sep (c # s)")
    case True
    then obtain r where r: "c # s = sep @ r" by (auto elim: prefixE)
    have d: "drop (length sep) (c # s) = r" unfolding r by simp
    obtain y ys where ys: "split_aux sep [] r = y # ys"
      by (cases "split_aux sep [] r") simp_all
    have IH: "str_join sep (y # ys) = r"
      using "2.IH"(1)[OF True] unfolding d ys by simp
    have "split_aux sep acc (c # s) = rev acc # y # ys"
      using True by (simp only: split_aux.simps d ys if_True simp_thms)
    then show ?thesis unfolding r by (simp add: IH)
  next
    case False
    then show ?thesis using "2.IH"(2)[OF False] by auto
  qed
qed

lemma str_join_split: "str_join sep (str_split sep s) = s"
  by (simp add: str_split_def join_split_aux)

text \<open>A first piece that holds no earlier occurrence of the separator is what \<open>split\<close> returns
  first.\<close>

lemma split_aux_first:
  assumes "sep \<noteq> []" "\<And>p q. a @ sep = p @ q \<Longrightarrow> p \<noteq> a \<Longrightarrow> length p < length a \<Longrightarrow> \<not> prefix sep (q @ b)"
  shows "split_aux sep acc (a @ sep @ b) = (rev acc @ a) # split_aux sep [] b"
  using assms
proof (induction a arbitrary: acc)
  case Nil
  then obtain c s where "sep = c # s" by (cases sep) auto
  then show ?case by auto
next
  case (Cons c a)
  have np: "\<not> prefix sep (c # a @ sep @ b)"
    using Cons.prems(2)[of "[]" "(c # a) @ sep"] by simp
  have "split_aux sep (c # acc) (a @ sep @ b) = (rev (c # acc) @ a) # split_aux sep [] b"
  proof (rule Cons.IH)
    show "sep \<noteq> []" by fact
    fix p q assume "a @ sep = p @ q" "p \<noteq> a" "length p < length a"
    then show "\<not> prefix sep (q @ b)" using Cons.prems(2)[of "c # p" q] by auto
  qed
  then show ?case using np by simp
qed

text \<open>\<open>str.lower\<close>, \<open>str.strip\<close> on ASCII text.\<close>

definition lower_char :: "char \<Rightarrow> char" where
  "lower_char c =
     (if 65 \<le> (of_char c :: nat) \<and> (of_char c :: nat) \<le> 90 then char_of (of_char c + 32 :: nat) else c)"

definition str_lower :: "string \<Rightarrow> string" where
  "str_lower s = map lower_char s"

definition is_space :: "char \<Rightarrow> bool" where
  "is_space c \<longleftrightarrow> (of_char c :: nat) = 32 \<or> (9 \<le> (of_char c :: nat) \<and> (of_char c :: nat) \<le> 13)"

definition str_strip :: "string \<Rightarrow> string" where
  "str_strip s = rev (dropWhile is_space (rev (dropWhile is_space s)))"

text \<open>Decimal formatting of integers, as in f-strings.\<close>

definition digit_char :: "nat \<Rightarrow> char" where
  "digit_char d = ''0123456789'' ! d"

fun nat_str :: "nat \<Rightarrow> string" where
  "nat_str n = (if n < 10 then [digit_char n] else nat_str (n div 10) @ [digit_char (n mod 10)])"

declare nat_str.simps [simp del]

definition int_str :: "int \<Rightarrow> string" where
  "int_str i = (if i < 0 then CHR ''-'' # nat_str (nat (- i)) else nat_str (nat i))"

text \<open>\<open>int(s)\<close> on a decimal literal: surrounding blanks and a sign are accepted.\<close>

definition is_digit :: "char \<Rightarrow> bool" where
  "is_digit c \<longleftrightarrow> 48 \<le> (of_char c :: nat) \<and> (of_char c :: nat) \<le> 57"

definition digits_val :: "string \<Rightarrow> int" where
  "digits_val s = foldl (\<lambda>n c. 10 * n + (int (of_char c) - 48)) 0 s"

definition parse_int :: "string \<Rightarrow> int res" where
  "parse_int s =
     (let t = str_strip s;
          (neg, u) = (case t of [] \<Rightarrow> (False, t)
            | c # r \<Rightarrow> if c = CHR ''-'' then (True, r) else if c = CHR ''+'' then (False, r) else (False, t))
      in if u \<noteq> [] \<and> list_all is_digit u
         then Inr (if neg then - digits_val u else digits_val u)
         else Inl (Exn ValueError (''invalid literal for int() with base 10: '' @ sq s)))"

text \<open>\<open>f"{x:.2f}"\<close>\<close>

definition round_half_even :: "rat \<Rightarrow> int" where
  "round_half_even x =
     (let f = \<lfloor>x\<rfloor>; d = x - of_int f
      in if d < 1/2 then f else if d > 1/2 then f + 1 else if even f then f else f + 1)"

definition fixed2_str :: "rat \<Rightarrow> string" where
  "fixed2_str r =
     (let n = nat \<bar>round_half_even (r * 100)\<bar>
      in (if r < 0 then ''-'' else '''') @ nat_str (n div 100) @ ''.''
         @ [digit_char (n div 10 mod 10), digit_char (n mod 10)])"

text \<open>An operation on a mutable object that may raise: the object afterwards and the exception, if
  any. What was written before the exception stays written.\<close>

type_synonym 's effect = "'s \<times> exn option"

definition raised :: "'s effect \<Rightarrow> bool" where
  "raised e \<longleftrightarrow> snd e \<noteq> None"

section \<open>Python values\<close>

datatype val = VNone | VBool bool | VInt int | VFloat rat | VStr string
  | VList "val list" | VDict "(string \<times> val) list"

fun is_dict :: "val \<Rightarrow> bool" where
  "is_dict (VDict d) = True"
| "is_dict _ = False"

text \<open>\<open>bool(v)\<close>\<close>

fun truth :: "val \<Rightarrow> bool" where
  "truth VNone = False"
| "truth (VBool b) = b"
| "truth (VInt i) = (i \<noteq> 0)"
| "truth (VFloat r) = (r \<noteq> 0)"
| "truth (VStr s) = (s \<noteq> [])"
| "truth (VList vs) = (vs \<noteq> [])"
| "truth (VDict d) = (d \<noteq> [])"

fun type_name :: "val \<Rightarrow> string" where
  "type_name VNone = ''NoneType''"
| "type_name (VBool b) = ''bool''"
| "type_name (VInt i) = ''int''"
| "type_name (VFloat r) = ''float''"
| "type_name (VStr s) = ''str''"
| "type_name (VList vs) = ''list''"
| "type_name (VDict d) = ''dict''"

section \<open>Shared machine interfaces\<close>

text \<open>
  A component whose operations are a function of its state: every operation keeps the invariant,
  hence so does every sequence of operations.
\<close>

locale machine =
  fixes step :: "'s \<Rightarrow> 'op \<Rightarrow> 's"
    and inv :: "'s \<Rightarrow> bool"
  assumes step_inv: "inv s \<Longrightarrow> inv (step s a)"
begin

lemma run_inv: "inv s \<Longrightarrow> inv (foldl step s as)"
  by (induction as arbitrary: s) (auto intro: step_inv)

end

text \<open>A machine with a quantity that no operation lowers.\<close>

locale growing_machine = machine step inv for step :: "'s \<Rightarrow> 'op \<Rightarrow> 's" and inv +
  fixes meas :: "'s \<Rightarrow> 'm :: preorder"
  assumes step_grows: "inv s \<Longrightarrow> meas s \<le> meas (step s a)"
begin

lemma run_grows: "inv s \<Longrightarrow> meas s \<le> meas (foldl step s as)"
proof (induction as arbitrary: s)
  case Nil
  then show ?case by simp
next
  case (Cons a as)
  have "meas s \<le> meas (step s a)" using Cons.prems by (rule step_grows)
  also have "\<dots> \<le> meas (foldl step (step s a) as)"
    using Cons.prems by (intro Cons.IH step_inv)
  finally show ?case by simp
qed

end

text \<open>A nondeterministic machine: a step relation that keeps an invariant.\<close>

locale transition_system =
  fixes trans :: "'s \<Rightarrow> 's \<Rightarrow> bool"
    and tinv :: "'s \<Rightarrow> bool"
  assumes trans_inv: "trans s t \<Longrightarrow> tinv s \<Longrightarrow> tinv t"
begin

lemma reach_inv: "trans\<^sup>*\<^sup>* s t \<Longrightarrow> tinv s \<Longrightarrow> tinv t"
  by (induction rule: rtranclp_induct) (auto intro: trans_inv)

end

end
