(* ===== verification/Nodes.thy ===== *)
theory Nodes
  imports Prelude
begin

text \<open>
  The data model of the engine: node types (\<open>src/ice_core/models/enums.py\<close>), node
  configurations with their validators, and execution results
  (\<open>src/ice_core/models/node_models.py\<close>, \<open>node_metadata.py\<close>), and the
  normalisation of schemas (\<open>src/ice_core/utils/json_schema.py\<close>).

  A configuration is the record of the fields every node has and a \<open>kind\<close> with those of its
  class; nodes nest (branches, loop bodies), so \<open>node\<close> and \<open>kind\<close> are mutually
  recursive. Field ranges that Pydantic declares (\<open>ge=1\<close>, literals) are in the validity
  predicates. Timestamps, owners, free-text descriptions and user-interface hints are left out.
\<close>

section \<open>Node types\<close>

datatype node_type = TTool | TLlm | TCondition | TAgent | TWorkflow | TLoop | TParallel
  | TRecursive | TCode | THuman | TMonitor | TSwarm

fun type_value :: "node_type \<Rightarrow> string" where
  "type_value TTool = ''tool''"
| "type_value TLlm = ''llm''"
| "type_value TCondition = ''condition''"
| "type_value TAgent = ''agent''"
| "type_value TWorkflow = ''workflow''"
| "type_value TLoop = ''loop''"
| "type_value TParallel = ''parallel''"
| "type_value TRecursive = ''recursive''"
| "type_value TCode = ''code''"
| "type_value THuman = ''human''"
| "type_value TMonitor = ''monitor''"
| "type_value TSwarm = ''swarm''"

definition all_types :: "node_type list" where
  "all_types = [TTool, TLlm, TCondition, TAgent, TWorkflow, TLoop, TParallel, TRecursive, TCode,
     THuman, TMonitor, TSwarm]"

text \<open>\<open>NodeType(str)\<close>: \<open>None\<close> is the \<open>ValueError\<close>.\<close>

definition type_of_value :: "string \<Rightarrow> node_type option" where
  "type_of_value s = map_of (map (\<lambda>t. (type_value t, t)) all_types) s"

lemma type_of_value_inverse [simp]: "type_of_value (type_value t) = Some t"
  by (cases t) (simp_all add: type_of_value_def all_types_def)

section \<open>Schemas\<close>

text \<open>An entry of a dict schema is a JSON value or a Python class such as \<open>int\<close>; a schema is
  missing, a dict, or a Pydantic class with its field names.\<close>

datatype schema_entry = Lit val | PyType string

datatype schema = SNone | SDict "(string \<times> schema_entry) list" | SModel "string list"

fun schema_missing :: "schema \<Rightarrow> bool" where
  "schema_missing SNone = True"
| "schema_missing (SDict d) = (d = [])"
| "schema_missing (SModel fs) = False"

definition json_schema_keywords :: "string list" where
  "json_schema_keywords = [''type'', ''$ref'', ''$schema'', ''properties'', ''items'', ''required'',
     ''additionalProperties'', ''allOf'', ''anyOf'', ''oneOf'']"

definition is_json_schema :: "(string \<times> schema_entry) list \<Rightarrow> bool" where
  "is_json_schema d \<longleftrightarrow> list_ex (\<lambda>k. k \<in> set json_schema_keywords) (dict_keys d)"

definition json_type :: "string \<Rightarrow> val" where
  "json_type t = VDict [(''type'', VStr t)]"

definition json_array_of :: "string \<Rightarrow> val" where
  "json_array_of t = VDict [(''type'', VStr ''array''), (''items'', json_type t)]"

definition type_mapping :: "val dict" where
  "type_mapping =
     [(''str'', json_type ''string''), (''int'', json_type ''integer''),
      (''float'', json_type ''number''), (''bool'', json_type ''boolean''),
      (''dict'', json_type ''object''), (''list'', json_type ''array''),
      (''list[str]'', json_array_of ''string''), (''list[int]'', json_array_of ''integer''),
      (''list[float]'', json_array_of ''number''), (''list[bool]'', json_array_of ''boolean''),
      (''list[dict]'', json_array_of ''object'')]"

text \<open>\<open>type_literal in type_mapping\<close> needs a hashable value: a list or a dict is a
  \<open>TypeError\<close>; anything else that is not a known literal becomes a string.\<close>

fun simple_property :: "schema_entry \<Rightarrow> val res" where
  "simple_property (Lit (VList vs)) = type_error"
| "simple_property (Lit (VDict d)) = type_error"
| "simple_property (Lit (VStr s)) =
     (case dict_get type_mapping s of Some j \<Rightarrow> Inr j | None \<Rightarrow> Inr (json_type ''string''))"
| "simple_property e = Inr (json_type ''string'')"

definition convert_simple_to_json_schema :: "(string \<times> schema_entry) list \<Rightarrow> val dict res" where
  "convert_simple_to_json_schema d =
     res_bind (res_map (\<lambda>(k, e). res_bind (simple_property e) (\<lambda>j. Inr (k, j))) d) (\<lambda>props. Inr
       [(''type'', VStr ''object''), (''properties'', VDict props),
        (''required'', VList (map VStr (dict_keys d))), (''additionalProperties'', VBool False)])"

text \<open>The JSON view of a dict schema; a Python class in it is not JSON.\<close>

fun entry_json :: "schema_entry \<Rightarrow> val" where
  "entry_json (Lit v) = v"
| "entry_json (PyType s) = VStr (''<class '' @ sq s @ ''>'')"

definition schema_json :: "(string \<times> schema_entry) list \<Rightarrow> val dict" where
  "schema_json d = map (\<lambda>(k, e). (k, entry_json e)) d"

text \<open>\<open>model_schema\<close> is Pydantic's \<open>model_json_schema()\<close> of a class with these fields.\<close>

definition normalize_schema :: "(string list \<Rightarrow> val dict) \<Rightarrow> schema \<Rightarrow> val dict option res" where
  "normalize_schema model_schema s =
     (case s of
        SNone \<Rightarrow> Inr None
      | SModel fs \<Rightarrow> Inr (Some (model_schema fs))
      | SDict d \<Rightarrow> if is_json_schema d then Inr (Some (schema_json d))
                   else res_bind (convert_simple_to_json_schema d) (\<lambda>j. Inr (Some j)))"

text \<open>\<open>is_valid_schema_dict\<close>: the errors, none when valid. \<open>check_schema\<close> is
  \<open>Draft7Validator.check_schema\<close>, with the message of its \<open>SchemaError\<close>.\<close>

definition schema_dict_errors ::
  "(val dict \<Rightarrow> string option) \<Rightarrow> (string \<times> schema_entry) list \<Rightarrow> string list" where
  "schema_dict_errors check_schema d =
     (if is_json_schema d then
        (case check_schema (schema_json d) of None \<Rightarrow> [] | Some e \<Rightarrow> [''Invalid schema: '' @ e])
      else
        (case convert_simple_to_json_schema d of
           Inl e \<Rightarrow> [''Invalid schema: '' @ exn_msg e]
         | Inr j \<Rightarrow> (case check_schema j of None \<Rightarrow> [] | Some e \<Rightarrow> [''Invalid schema: '' @ e])))"

section \<open>Node configurations\<close>

datatype backoff_strategy = Fixed | Linear | Exponential

record retry_policy =
  max_attempts :: int
  strategy :: backoff_strategy
  policy_backoff :: rat

definition retry_policy_valid :: "retry_policy \<Rightarrow> bool" where
  "retry_policy_valid p \<longleftrightarrow> 1 \<le> max_attempts p \<and> 0 \<le> policy_backoff p"

text \<open>An input mapping is an \<open>InputMapping\<close> object, a plain dict or a literal.\<close>

datatype imapping = MInput string string | MDict "val dict" | MLit val

record base_config =
  cid :: string
  cname :: "string option"
  dependencies :: "string list"
  level :: int
  meta_tags :: "string list"
  timeout_seconds :: "int option"
  retries :: int
  backoff_seconds :: rat
  retry_policy_of :: "retry_policy option"
  input_schema :: schema
  output_schema :: schema
  input_mappings :: "(string \<times> imapping) list"
  output_mappings :: "string dict"
  use_cache :: bool
  input_selection :: "string list option"

record llm_config =
  lc_model :: "string option"
  lc_temperature :: "rat option"
  lc_max_tokens :: "int option"

record llm_fields =
  lm_model :: string
  lm_prompt :: string
  lm_config :: llm_config
  lm_temperature :: rat
  lm_max_tokens :: "int option"

record agent_fields =
  ag_package :: string
  ag_attr :: "string option"
  ag_model :: "string option"
  ag_config :: "llm_config option"
  ag_max_iterations :: int

record recursive_fields =
  rc_sources :: "string list"
  rc_condition :: "string option"
  rc_max_iterations :: int
  rc_agent_package :: "string option"
  rc_workflow_ref :: "string option"
  rc_preserve :: bool
  rc_context_key :: string

datatype approval = ApproveReject | InputRequired | Choice

record human_fields =
  hu_prompt :: string
  hu_approval :: approval
  hu_timeout :: "int option"
  hu_auto_approve :: "int option"
  hu_choices :: "string list option"

record agent_spec =
  sp_package :: string
  sp_role :: string

datatype node = Node (base: base_config) (kind: kind)
and kind =
    KTool string "val dict"
  | KLlm llm_fields
  | KAgent agent_fields
  | KCondition string "node list" "node list option"
  | KWorkflow string "string dict" "val dict"
  | KLoop string string "node list" "int option"
  | KParallel "node list list" bool
  | KRecursive recursive_fields
  | KCode "string option"
  | KHuman human_fields
  | KMonitor string string "string list"
  | KSwarm "agent_spec list"

fun kind_type :: "kind \<Rightarrow> node_type" where
  "kind_type (KTool _ _) = TTool"
| "kind_type (KLlm _) = TLlm"
| "kind_type (KAgent _) = TAgent"
| "kind_type (KCondition _ _ _) = TCondition"
| "kind_type (KWorkflow _ _ _) = TWorkflow"
| "kind_type (KLoop _ _ _ _) = TLoop"
| "kind_type (KParallel _ _) = TParallel"
| "kind_type (KRecursive _) = TRecursive"
| "kind_type (KCode _) = TCode"
| "kind_type (KHuman _) = THuman"
| "kind_type (KMonitor _ _ _) = TMonitor"
| "kind_type (KSwarm _) = TSwarm"

definition node_id :: "node \<Rightarrow> string" where
  "node_id n = cid (base n)"

definition node_type_of :: "node \<Rightarrow> node_type" where
  "node_type_of n = kind_type (kind n)"

definition node_type_str :: "node \<Rightarrow> string" where
  "node_type_str n = type_value (node_type_of n)"

definition node_deps :: "node \<Rightarrow> string list" where
  "node_deps n = dependencies (base n)"

text \<open>A configuration with the defaults of \<open>BaseNodeConfig\<close>.\<close>

definition default_base :: "string \<Rightarrow> string list \<Rightarrow> base_config" where
  "default_base i deps = \<lparr>cid = i, cname = None, dependencies = deps, level = 0, meta_tags = [],
     timeout_seconds = None, retries = 0, backoff_seconds = 0, retry_policy_of = None,
     input_schema = SDict [], output_schema = SDict [], input_mappings = [], output_mappings = [],
     use_cache = True, input_selection = None\<rparr>"

section \<open>Construction-time validators\<close>

definition no_self_dependency :: "base_config \<Rightarrow> base_config res" where
  "no_self_dependency c =
     (if cid c \<noteq> '''' \<and> cid c \<in> set (dependencies c)
      then Inl (Exn ValueError (''Node '' @ sq (cid c) @ '' cannot depend on itself'')) else Inr c)"

text \<open>\<open>LLMNodeConfig._synchronize_llm_config\<close>: top-level fields fill the gaps of
  \<open>llm_config\<close>.\<close>

definition or_else :: "'a option \<Rightarrow> 'a option \<Rightarrow> 'a option" where
  "or_else a b = (case a of None \<Rightarrow> b | Some x \<Rightarrow> Some x)"

definition sync_llm :: "llm_fields \<Rightarrow> llm_fields" where
  "sync_llm l = l\<lparr>lm_config := (lm_config l)
     \<lparr>lc_model := or_else (lc_model (lm_config l)) (Some (lm_model l)),
      lc_temperature := or_else (lc_temperature (lm_config l)) (Some (lm_temperature l)),
      lc_max_tokens := or_else (lc_max_tokens (lm_config l)) (lm_max_tokens l)\<rparr>\<rparr>"

definition empty_llm_config :: llm_config where
  "empty_llm_config = \<lparr>lc_model = None, lc_temperature = None, lc_max_tokens = None\<rparr>"

definition validate_agent_attr :: "agent_fields \<Rightarrow> agent_fields" where
  "validate_agent_attr a =
     (if ag_attr a \<in> {None, Some ''''}
      then a\<lparr>ag_attr := Some (last (str_split ''.'' (ag_package a)))\<rparr> else a)"

definition nonempty_opt :: "string option \<Rightarrow> bool" where
  "nonempty_opt s \<longleftrightarrow> s \<noteq> None \<and> s \<noteq> Some ''''"

definition sync_agent :: "agent_fields \<Rightarrow> agent_fields res" where
  "sync_agent a =
     (let cfg = (case ag_config a of None \<Rightarrow> empty_llm_config | Some c \<Rightarrow> c);
          cfg' = (if \<not> nonempty_opt (lc_model cfg) \<and> nonempty_opt (ag_model a)
                  then cfg\<lparr>lc_model := ag_model a\<rparr> else cfg)
      in if nonempty_opt (lc_model cfg') then Inr (a\<lparr>ag_config := Some cfg'\<rparr>)
         else Inl (Exn ValueError ''AgentNodeConfig requires llm_config.model to be set''))"

definition validate_recursive :: "recursive_fields \<Rightarrow> recursive_fields res" where
  "validate_recursive r =
     (if \<not> nonempty_opt (rc_agent_package r) \<and> \<not> nonempty_opt (rc_workflow_ref r)
      then Inl (Exn ValueError ''RecursiveNodeConfig must specify either agent_package or workflow_ref'')
      else if nonempty_opt (rc_agent_package r) \<and> nonempty_opt (rc_workflow_ref r)
      then Inl (Exn ValueError ''RecursiveNodeConfig cannot specify both agent_package and workflow_ref'')
      else if rc_sources r = []
      then Inl (Exn ValueError ''RecursiveNodeConfig must specify at least one recursive_source'')
      else Inr r)"

text \<open>\<open>CodeNodeConfig\<close>: \<open>inline_allowed\<close> is \<open>ICE_ENABLE_INLINE_CODE == "1"\<close>.\<close>

definition blank_opt :: "string option \<Rightarrow> bool" where
  "blank_opt s = (case s of None \<Rightarrow> True | Some t \<Rightarrow> str_strip t = '''')"

definition validate_code_source :: "bool \<Rightarrow> base_config \<Rightarrow> string option \<Rightarrow> unit res" where
  "validate_code_source inline_allowed c code =
     (let has_inline = \<not> blank_opt code; has_name = \<not> blank_opt (cname c)
      in if \<not> inline_allowed then
           (if \<not> has_name then Inl (Exn ValueError
              ''Inline code disabled (ICE_ENABLE_INLINE_CODE=0). Provide a registered code factory.'')
            else Inr ())
         else if \<not> (has_inline \<or> has_name) then Inl (Exn ValueError
              ''CodeNodeConfig requires either code or a non-empty name'')
         else Inr ())"

fun schema_ok :: "(val dict \<Rightarrow> string option) \<Rightarrow> schema \<Rightarrow> string list" where
  "schema_ok check_schema (SDict d) = schema_dict_errors check_schema d"
| "schema_ok check_schema _ = []"

definition require_code_schemas :: "(val dict \<Rightarrow> string option) \<Rightarrow> base_config \<Rightarrow> unit res" where
  "require_code_schemas check_schema c =
     (if schema_missing (input_schema c) \<or> schema_missing (output_schema c)
      then Inl (Exn ValueError ''CodeNodeConfig must declare non-empty input_schema and output_schema'')
      else if schema_ok check_schema (input_schema c) \<noteq> []
      then Inl (Exn ValueError (''CodeNodeConfig has invalid input_schema: ''
                  @ str_join ''; '' (schema_ok check_schema (input_schema c))))
      else if schema_ok check_schema (output_schema c) \<noteq> []
      then Inl (Exn ValueError (''CodeNodeConfig has invalid output_schema: ''
                  @ str_join ''; '' (schema_ok check_schema (output_schema c))))
      else Inr ())"

section \<open>Validation before a run\<close>

text \<open>\<open>runtime_validate\<close>: an LLM node without output schema gets one, the other deterministic
  kinds must declare both. \<open>compiles\<close> is \<open>compile(expr, ..., 'eval')\<close>, with the message of its
  \<open>SyntaxError\<close>.\<close>

definition llm_fallback_schema :: schema where
  "llm_fallback_schema = SDict [(''text'', Lit (VStr ''string''))]"

definition schema_optional :: "node_type \<Rightarrow> bool" where
  "schema_optional t \<longleftrightarrow> t \<in> {TWorkflow, TLoop, TParallel, THuman, TMonitor, TSwarm}"

definition set_output_schema :: "schema \<Rightarrow> node \<Rightarrow> node" where
  "set_output_schema s n = Node ((base n)\<lparr>output_schema := s\<rparr>) (kind n)"

definition value_error_of :: "string \<Rightarrow> 'a res" where
  "value_error_of m = Inl (Exn ValueError m)"

definition invalid_schema_error :: "node \<Rightarrow> string \<Rightarrow> string list \<Rightarrow> 'a res" where
  "invalid_schema_error n field errs =
     value_error_of (''Node '' @ sq (node_id n) @ '' has invalid '' @ field @ '': '' @ str_join ''; '' errs)"

definition base_runtime_validate :: "(val dict \<Rightarrow> string option) \<Rightarrow> node \<Rightarrow> node res" where
  "base_runtime_validate check n =
     (let b = base n
      in if node_type_of n = TLlm
         then Inr (if schema_missing (output_schema b) then set_output_schema llm_fallback_schema n else n)
         else if schema_optional (node_type_of n) then Inr n
         else if schema_missing (input_schema b) \<or> schema_missing (output_schema b)
         then value_error_of (''Node '' @ sq (node_id n) @ '' of type '' @ sq (node_type_str n)
                @ '' must declare non-empty input_schema and output_schema.'')
         else if schema_ok check (input_schema b) \<noteq> []
         then invalid_schema_error n ''input_schema'' (schema_ok check (input_schema b))
         else if schema_ok check (output_schema b) \<noteq> []
         then invalid_schema_error n ''output_schema'' (schema_ok check (output_schema b))
         else Inr n)"

definition swarm_problem :: "agent_spec list \<Rightarrow> string option" where
  "swarm_problem agents =
     (if length agents < 2 then Some ''Swarm requires at least 2 agents''
      else (case find (\<lambda>a. str_strip (sp_package a) = '''' \<or> str_strip (sp_role a) = '''') agents of
              Some a \<Rightarrow> Some (if str_strip (sp_package a) = '''' then ''Agent package cannot be empty''
                              else ''Agent role cannot be empty'')
            | None \<Rightarrow> if distinct (map sp_role agents) then None
                      else Some ''Swarm agents must have unique roles''))"

definition human_problem :: "human_fields \<Rightarrow> string option" where
  "human_problem h =
     (if str_strip (hu_prompt h) = '''' then Some ''Human node requires non-empty prompt_message''
      else if hu_approval h = Choice \<and> (case hu_choices h of None \<Rightarrow> True | Some cs \<Rightarrow> length cs < 2)
      then Some ''Choice approval type requires at least 2 choices''
      else (case (hu_auto_approve h, hu_timeout h) of
              (None, _) \<Rightarrow> None
            | (Some a, None) \<Rightarrow> if a = 0 then None else Some ''auto_approve_after requires timeout_seconds''
            | (Some a, Some t) \<Rightarrow>
                if a = 0 then None
                else if t = 0 then Some ''auto_approve_after requires timeout_seconds''
                else if t \<le> a then Some ''auto_approve_after must be less than timeout_seconds'' else None))"

definition valid_channels :: "string list" where
  "valid_channels = [''email'', ''slack'', ''webhook'', ''sms'', ''dashboard'']"

definition monitor_problem :: "(string \<Rightarrow> string option) \<Rightarrow> string \<Rightarrow> string list \<Rightarrow> string option" where
  "monitor_problem compiles expr channels =
     (if str_strip expr = '''' then Some ''Monitor node requires non-empty metric_expression''
      else (case compiles expr of
              Some e \<Rightarrow> Some (''Invalid metric expression syntax: '' @ e)
            | None \<Rightarrow> if set channels \<subseteq> set valid_channels then None else Some ''Invalid alert channels''))"

definition kind_problem :: "(string \<Rightarrow> string option) \<Rightarrow> kind \<Rightarrow> string option" where
  "kind_problem compiles k = (case k of
       KSwarm agents \<Rightarrow> swarm_problem agents
     | KHuman h \<Rightarrow> human_problem h
     | KMonitor expr action channels \<Rightarrow> monitor_problem compiles expr channels
     | _ \<Rightarrow> None)"

definition runtime_validate ::
  "(val dict \<Rightarrow> string option) \<Rightarrow> (string \<Rightarrow> string option) \<Rightarrow> node \<Rightarrow> node res" where
  "runtime_validate check compiles n = res_bind (base_runtime_validate check n) (\<lambda>m.
     case kind_problem compiles (kind m) of Some e \<Rightarrow> value_error_of e | None \<Rightarrow> Inr m)"

section \<open>Results\<close>

record usage =
  us_prompt :: int
  us_completion :: int
  us_total :: int
  us_cost :: rat
  us_model :: string

definition autofill_totals :: "usage \<Rightarrow> usage" where
  "autofill_totals u =
     (if us_total u = 0 \<and> (us_prompt u \<noteq> 0 \<or> us_completion u \<noteq> 0)
      then u\<lparr>us_total := us_prompt u + us_completion u\<rparr> else u)"

record node_meta =
  md_node :: string
  md_type :: string
  md_error_type :: "string option"
  md_retry_count :: int

text \<open>The output \<open>None\<close> is \<open>VNone\<close>. \<open>nr_budget\<close> is the budget status, \<open>nr_roots\<close> the
  keys of \<open>context_used\<close>.\<close>

record node_result =
  nr_success :: bool
  nr_error :: "string option"
  nr_output :: val
  nr_meta :: node_meta
  nr_usage :: "usage option"
  nr_budget :: "val dict option"
  nr_roots :: "string list option"

definition meta :: "string \<Rightarrow> string \<Rightarrow> string option \<Rightarrow> int \<Rightarrow> node_meta" where
  "meta i t e k = \<lparr>md_node = i, md_type = t, md_error_type = e, md_retry_count = k\<rparr>"

definition success_result :: "val \<Rightarrow> node_meta \<Rightarrow> node_result" where
  "success_result v m = \<lparr>nr_success = True, nr_error = None, nr_output = v, nr_meta = m, nr_usage = None,
     nr_budget = None, nr_roots = None\<rparr>"

definition failure_result :: "string \<Rightarrow> node_meta \<Rightarrow> node_result" where
  "failure_result e m = \<lparr>nr_success = False, nr_error = Some e, nr_output = VNone, nr_meta = m, nr_usage = None,
     nr_budget = None, nr_roots = None\<rparr>"

section \<open>Properties\<close>

lemma base_runtime_validate_type:
  "base_runtime_validate check n = Inr m \<Longrightarrow> kind m = kind n \<and> (m = n \<or> node_type_of n = TLlm)"
  by (auto simp: base_runtime_validate_def set_output_schema_def value_error_of_def invalid_schema_error_def
      Let_def split: if_splits)

text \<open>Validation may run any number of times: a node that \<open>runtime_validate\<close> has accepted
  (and, for an LLM node, completed) is accepted again unchanged, and unless its kind makes schemas
  optional it declares an output schema that the schema checker accepts.\<close>

theorem runtime_validate_idempotent:
  assumes "runtime_validate check compiles n = Inr m"
  shows "runtime_validate check compiles m = Inr m \<and> kind m = kind n \<and>
    (schema_optional (node_type_of m) \<or> \<not> schema_missing (output_schema (base m))) \<and>
    (schema_optional (node_type_of m) \<or> node_type_of m = TLlm \<or> schema_ok check (output_schema (base m)) = [])"
proof -
  have b: "base_runtime_validate check n = Inr m" "kind_problem compiles (kind m) = None"
    using assms by (auto simp: runtime_validate_def res_bind_Inr_iff value_error_of_def split: option.splits)
  have k: "kind m = kind n" using base_runtime_validate_type[OF b(1)] by simp
  then have t: "node_type_of m = node_type_of n" by (simp add: node_type_of_def)
  have "base_runtime_validate check m = Inr m \<and>
    (schema_optional (node_type_of m) \<or> \<not> schema_missing (output_schema (base m))) \<and>
    (schema_optional (node_type_of m) \<or> node_type_of m = TLlm \<or> schema_ok check (output_schema (base m)) = [])"
    using b(1) t
    by (auto simp: base_runtime_validate_def set_output_schema_def value_error_of_def invalid_schema_error_def
        llm_fallback_schema_def Let_def split: if_splits)
  then show ?thesis using b(2) k by (simp add: runtime_validate_def)
qed

theorem runtime_validate_idempotent_witness:
  "let n = Node (default_base ''n'' []) (KLlm \<lparr>lm_model = ''gpt-4o'', lm_prompt = ''hi'',
             lm_config = empty_llm_config, lm_temperature = 0, lm_max_tokens = None\<rparr>);
       m = set_output_schema llm_fallback_schema n
   in runtime_validate (\<lambda>_. None) (\<lambda>_. None) n = Inr m \<and> runtime_validate (\<lambda>_. None) (\<lambda>_. None) m = Inr m"
proof -
  let ?n = "Node (default_base ''n'' []) (KLlm \<lparr>lm_model = ''gpt-4o'', lm_prompt = ''hi'',
             lm_config = empty_llm_config, lm_temperature = 0, lm_max_tokens = None\<rparr>)"
  have "runtime_validate (\<lambda>_. None) (\<lambda>_. None) ?n = Inr (set_output_schema llm_fallback_schema ?n)"
    by (simp add: runtime_validate_def base_runtime_validate_def node_type_of_def default_base_def
        kind_problem_def set_output_schema_def)
  then show ?thesis using runtime_validate_idempotent by (simp add: Let_def)
qed

section \<open>Validation of outputs\<close>

text \<open>The JSON libraries: \<open>json.loads\<close>, the Draft 7 validator (\<open>check_schema\<close> with the
  message of its \<open>SchemaError\<close>, \<open>iter_errors\<close> as formatted messages), and Pydantic's
  \<open>model_json_schema\<close> and \<open>model_validate\<close> of a class with given fields.\<close>

record json_lib =
  js_loads :: "string \<Rightarrow> val res"
  js_check :: "val dict \<Rightarrow> string option"
  js_errors :: "val dict \<Rightarrow> val \<Rightarrow> string list res"
  js_model_schema :: "string list \<Rightarrow> val dict"
  js_model_ok :: "string list \<Rightarrow> val \<Rightarrow> bool"

definition check_data :: "json_lib \<Rightarrow> val dict \<Rightarrow> val \<Rightarrow> val \<Rightarrow> bool \<times> string list \<times> val" where
  "check_data lib js data0 data =
     (case js_errors lib js data of
        Inl e \<Rightarrow> (False, [''Schema validation error: '' @ exn_msg e], data)
      | Inr [] \<Rightarrow> (True, [], data)
      | Inr errs \<Rightarrow> (False, errs, data))"

definition validate_with_schema :: "json_lib \<Rightarrow> val \<Rightarrow> schema \<Rightarrow> bool \<Rightarrow> (bool \<times> string list \<times> val) res" where
  "validate_with_schema lib data schema coerce =
     (if schema = SNone then Inr (True, [], data)
      else res_bind (normalize_schema (js_model_schema lib) schema) (\<lambda>njs. case njs of
          None \<Rightarrow> Inr (False, [''Invalid schema format''], data)
        | Some js \<Rightarrow>
            (case data of
               VStr s \<Rightarrow>
                 if coerce \<and> dict_get js ''type'' = Some (VStr ''object'')
                 then (case js_loads lib s of
                         Inl e \<Rightarrow> Inr (False, [''Failed to parse JSON string: '' @ exn_msg e], data)
                       | Inr v \<Rightarrow> Inr (check_data lib js data v))
                 else Inr (check_data lib js data data)
             | _ \<Rightarrow> Inr (check_data lib js data data))))"

definition decode_text :: "json_lib \<Rightarrow> val \<Rightarrow> val option" where
  "decode_text lib v = (case v of
       VStr s \<Rightarrow> (case js_loads lib s of Inl e \<Rightarrow> None | Inr w \<Rightarrow> Some w) | _ \<Rightarrow> Some v)"

text \<open>\<open>SchemaValidator.is_output_valid\<close>\<close>

definition is_output_valid :: "json_lib \<Rightarrow> node \<Rightarrow> val \<Rightarrow> bool res" where
  "is_output_valid lib n output =
     (let schema = output_schema (base n); errs = schema_ok (js_check lib) schema
      in if schema_missing schema
         then (if node_type_of n = TLlm then Inr True
               else Inl (Exn ValidationError (''Node '' @ sq (node_id n)
                      @ '' lacks output_schema despite mandatory policy.'')))
         else if errs \<noteq> []
         then Inl (Exn ValidationError (''Invalid output_schema for node '' @ sq (node_id n) @ '' - ''
                @ str_join ''; '' errs))
         else (case decode_text lib output of
             None \<Rightarrow> Inr False
           | Some v \<Rightarrow> (case schema of
                 SModel fs \<Rightarrow> Inr (js_model_ok lib fs v)
               | SDict d \<Rightarrow> res_bind (validate_with_schema lib v schema True) (\<lambda>r. Inr (fst r))
               | SNone \<Rightarrow> Inr True)))"

lemma validated_schema_converts:
  assumes "schema_dict_errors check d = []" "\<not> is_json_schema d"
  shows "\<exists>js. convert_simple_to_json_schema d = Inr js"
  using assms by (cases "convert_simple_to_json_schema d") (auto simp: schema_dict_errors_def)

text \<open>Output validation never raises on a node that passed \<open>runtime_validate\<close> with the same
  schema checker, unless its kind makes schemas optional: what the check before the run accepted
  cannot fail the check after it by an exception, only by a verdict.\<close>

theorem output_check_total:
  assumes "runtime_validate (js_check lib) compiles n = Inr m" "\<not> schema_optional (node_type_of m)"
    and "node_type_of m = TLlm \<Longrightarrow> schema_ok (js_check lib) (output_schema (base m)) = []"
  shows "\<exists>verdict. is_output_valid lib m v = Inr verdict"
proof -
  have b: "base_runtime_validate (js_check lib) n = Inr m"
    using assms(1) by (auto simp: runtime_validate_def res_bind_Inr_iff value_error_of_def split: option.splits)
  have t: "node_type_of m = node_type_of n" using base_runtime_validate_type[OF b] by (simp add: node_type_of_def)
  have "\<not> schema_missing (output_schema (base m)) \<and>
      (node_type_of m = TLlm \<or> schema_ok (js_check lib) (output_schema (base m)) = [])"
  proof (cases "node_type_of n = TLlm")
    case True
    then have "m = (if schema_missing (output_schema (base n)) then set_output_schema llm_fallback_schema n else n)"
      using b by (simp add: base_runtime_validate_def Let_def)
    then show ?thesis using True t by (simp add: set_output_schema_def llm_fallback_schema_def split: if_splits)
  next
    case False
    have "m = n" using base_runtime_validate_type[OF b] False by simp
    then show ?thesis using b False assms(2)
      by (simp add: base_runtime_validate_def Let_def value_error_of_def invalid_schema_error_def split: if_splits)
  qed
  then have ok: "\<not> schema_missing (output_schema (base m))" "schema_ok (js_check lib) (output_schema (base m)) = []"
    using assms(3) by auto
  show ?thesis
  proof (cases "output_schema (base m)")
    case SNone
    then show ?thesis using ok by simp
  next
    case (SModel fs)
    then show ?thesis using ok by (auto simp: is_output_valid_def Let_def split: option.splits)
  next
    case (SDict d)
    have "\<exists>js. normalize_schema (js_model_schema lib) (SDict d) = Inr js"
      using validated_schema_converts[of "js_check lib" d] ok SDict
      by (auto simp: normalize_schema_def)
    then have total: "\<not> isl (validate_with_schema lib w (SDict d) True)" for w
      by (auto simp: validate_with_schema_def split: option.splits val.splits sum.splits if_splits)
    show ?thesis
    proof (cases "decode_text lib v")
      case None
      then show ?thesis using ok SDict by (simp add: is_output_valid_def exI[of _ False])
    next
      case (Some w)
      then show ?thesis using ok SDict total[of w]
        by (cases "validate_with_schema lib w (SDict d) True") (simp_all add: is_output_valid_def)
    qed
  qed
qed

definition demo_lib :: json_lib where
  "demo_lib = \<lparr>js_loads = (\<lambda>s. Inl (Exn ValueError s)), js_check = (\<lambda>_. None), js_errors = (\<lambda>_ _. Inr []),
     js_model_schema = (\<lambda>_. []), js_model_ok = (\<lambda>_ _. True)\<rparr>"

theorem output_check_total_witness:
  "\<exists>verdict. is_output_valid demo_lib
     (Node ((default_base ''n'' [])\<lparr>input_schema := SDict [(''a'', Lit (VStr ''int''))],
               output_schema := SDict [(''b'', Lit (VStr ''str''))]\<rparr>) (KTool ''t'' [])) (VInt 1) = Inr verdict"
proof -
  let ?n = "Node ((default_base ''n'' [])\<lparr>input_schema := SDict [(''a'', Lit (VStr ''int''))],
               output_schema := SDict [(''b'', Lit (VStr ''str''))]\<rparr>) (KTool ''t'' [])"
  have "runtime_validate (js_check demo_lib) (\<lambda>_. None) ?n = Inr ?n"
    by (simp add: runtime_validate_def base_runtime_validate_def node_type_of_def schema_optional_def
        default_base_def kind_problem_def demo_lib_def schema_dict_errors_def is_json_schema_def
        json_schema_keywords_def convert_simple_to_json_schema_def type_mapping_def)
  from output_check_total [OF this] show ?thesis by (simp add: node_type_of_def schema_optional_def)
qed

end
