(* ===== verification/DepGraph.thy ===== *)
theory DepGraph
  imports Nodes
begin

text \<open>
  The dependency graph of a workflow (\<open>DependencyGraph\<close> in
  \<open>src/ice_orchestrator/graph/dependency_graph.py\<close>): construction with its cycle check, the
  levels the engine runs one after the other, schema alignment of input mappings, statistics.

  The graph library is a parameter: an \<open>nx\<close> record holds the five NetworkX algorithms the code
  calls. What a theorem needs of them is a named hypothesis that states their documentation.
  Layout hints, analysis export and clock readings are left out.
\<close>

section \<open>Graphs\<close>

text \<open>A directed graph with its nodes and edges in insertion order; there are no parallel edges.\<close>

record digraph =
  gnodes :: "string list"
  gedges :: "(string \<times> string) list"

record nx =
  simple_cycles :: "digraph \<Rightarrow> string list list"
  has_path :: "digraph \<Rightarrow> string \<Rightarrow> string \<Rightarrow> bool"
  topological_sort :: "digraph \<Rightarrow> string list \<times> bool"
  betweenness :: "digraph \<Rightarrow> rat dict res"
  longest_path :: "digraph \<Rightarrow> (string \<times> string \<Rightarrow> rat option) \<Rightarrow> string list res"

definition insert_new :: "'a \<Rightarrow> 'a list \<Rightarrow> 'a list" where
  "insert_new x xs = (if x \<in> set xs then xs else xs @ [x])"

lemma set_insert_new [simp]: "set (insert_new x xs) = insert x (set xs)"
  by (auto simp: insert_new_def)

lemma distinct_insert_new [simp]: "distinct (insert_new x xs) = distinct xs"
  by (auto simp: insert_new_def)

definition add_node :: "string \<Rightarrow> digraph \<Rightarrow> digraph" where
  "add_node n g = g\<lparr>gnodes := insert_new n (gnodes g)\<rparr>"

definition add_edge :: "string \<Rightarrow> string \<Rightarrow> digraph \<Rightarrow> digraph" where
  "add_edge u v g = g\<lparr>gnodes := insert_new v (insert_new u (gnodes g)),
                      gedges := insert_new (u, v) (gedges g)\<rparr>"

definition remove_edge :: "string \<Rightarrow> string \<Rightarrow> digraph \<Rightarrow> digraph" where
  "remove_edge u v g = g\<lparr>gedges := filter (\<lambda>e. e \<noteq> (u, v)) (gedges g)\<rparr>"

text \<open>\<open>g.edges()\<close> goes through the nodes and lists the edges that leave each.\<close>

definition edges_of :: "digraph \<Rightarrow> (string \<times> string) list" where
  "edges_of g = concat (map (\<lambda>u. filter (\<lambda>e. fst e = u) (gedges g)) (gnodes g))"

definition predecessors :: "digraph \<Rightarrow> string \<Rightarrow> string list" where
  "predecessors g v = map fst (filter (\<lambda>e. snd e = v) (gedges g))"

definition successors :: "digraph \<Rightarrow> string \<Rightarrow> string list" where
  "successors g u = map snd (filter (\<lambda>e. fst e = u) (gedges g))"

section \<open>Attributes\<close>

record nattr =
  at_type :: string
  at_state :: string
  at_count :: int
  at_last_time :: "rat option"
  at_avg_time :: rat
  at_success_rate :: rat
  at_last_error :: "string option"
  at_estimated_cost :: rat
  at_cacheable :: bool
  at_parallel_safe :: bool
  at_memory_intensive :: bool
  at_io_bound :: bool
  at_cluster :: string
  at_color :: string
  at_complexity :: rat
  at_tags :: "string list"
  at_centrality :: rat
  at_bottleneck :: bool
  at_critical :: bool
  at_group :: "int option"

record eattr =
  ea_schema :: string
  ea_size :: string
  ea_latency_sensitive :: bool
  ea_critical :: bool
  ea_avg_time :: rat
  ea_total :: int
  ea_count :: int

definition tool_name_of :: "node \<Rightarrow> string" where
  "tool_name_of n = (case kind n of KTool t _ \<Rightarrow> t | _ \<Rightarrow> '''')"

definition lower_tool :: "node \<Rightarrow> string" where
  "lower_tool n = str_lower (tool_name_of n)"

definition is_parallel_safe :: "node \<Rightarrow> bool" where
  "is_parallel_safe n \<longleftrightarrow> node_type_of n \<notin> {TAgent, TLoop}"

definition is_memory_intensive :: "node \<Rightarrow> bool" where
  "is_memory_intensive n \<longleftrightarrow> str_contains ''embedding'' (lower_tool n) \<or> str_contains ''vector'' (lower_tool n)
     \<or> str_contains ''csv'' (lower_tool n) \<or> node_type_of n = TAgent"

definition is_io_bound :: "node \<Rightarrow> bool" where
  "is_io_bound n \<longleftrightarrow> str_contains ''http'' (lower_tool n) \<or> str_contains ''api'' (lower_tool n)
     \<or> str_contains ''file'' (lower_tool n) \<or> node_type_of n = TLlm"

definition infer_canvas_cluster :: "node \<Rightarrow> string" where
  "infer_canvas_cluster n =
     (if node_type_of n = TAgent then ''agents''
      else if node_type_of n = TLlm then ''ai_processing''
      else if str_contains ''csv'' (lower_tool n) \<or> str_contains ''data'' (lower_tool n) then ''data_processing''
      else if str_contains ''http'' (lower_tool n) \<or> str_contains ''api'' (lower_tool n) then ''external_apis''
      else ''utilities'')"

fun node_color :: "node_type \<Rightarrow> string" where
  "node_color TTool = ''#4CAF50''"
| "node_color TLlm = ''#2196F3''"
| "node_color TAgent = ''#FF9800''"
| "node_color TCondition = ''#9C27B0''"
| "node_color TLoop = ''#F44336''"
| "node_color TWorkflow = ''#795548''"
| "node_color _ = ''#607D8B''"

fun complexity_score :: "node_type \<Rightarrow> rat" where
  "complexity_score TTool = 1"
| "complexity_score TLlm = 2"
| "complexity_score TAgent = 3"
| "complexity_score TLoop = 5 / 2"
| "complexity_score TCondition = 3 / 2"
| "complexity_score TWorkflow = 4"
| "complexity_score _ = 1"

definition extract_tags :: "node \<Rightarrow> string list" where
  "extract_tags n = node_type_str n # (if tool_name_of n \<noteq> '''' then [''tool:'' @ tool_name_of n] else [])
     @ meta_tags (base n)"

text \<open>\<open>NodeMetadata\<close> has no \<open>estimated_cost\<close>, so the default of \<open>getattr\<close> is used.\<close>

definition node_attrs :: "node \<Rightarrow> nattr" where
  "node_attrs n = \<lparr>at_type = node_type_str n, at_state = ''pending'', at_count = 0, at_last_time = None,
     at_avg_time = 0, at_success_rate = 1, at_last_error = None, at_estimated_cost = 0,
     at_cacheable = use_cache (base n), at_parallel_safe = is_parallel_safe n,
     at_memory_intensive = is_memory_intensive n, at_io_bound = is_io_bound n,
     at_cluster = infer_canvas_cluster n, at_color = node_color (node_type_of n),
     at_complexity = complexity_score (node_type_of n), at_tags = extract_tags n,
     at_centrality = 0, at_bottleneck = False, at_critical = False, at_group = None\<rparr>"

definition node_map :: "node list \<Rightarrow> node dict" where
  "node_map nodes = foldl (\<lambda>m n. dict_set (node_id n) n m) [] nodes"

fun schema_type_name :: "schema \<Rightarrow> string" where
  "schema_type_name SNone = ''NoneType''"
| "schema_type_name (SDict d) = ''dict''"
| "schema_type_name (SModel fs) = ''ModelMetaclass''"

definition infer_data_schema :: "node dict \<Rightarrow> string \<Rightarrow> string" where
  "infer_data_schema m src = (case dict_get m src of
       Some n \<Rightarrow> schema_type_name (output_schema (base n)) | None \<Rightarrow> ''unknown'')"

definition estimate_data_size :: "node dict \<Rightarrow> string \<Rightarrow> string" where
  "estimate_data_size m src = (case dict_get m src of
       Some n \<Rightarrow> if str_contains ''csv'' (lower_tool n) then ''large''
                 else if str_contains ''llm'' (node_type_str n) then ''medium'' else ''small''
     | None \<Rightarrow> ''small'')"

definition is_latency_sensitive :: "node dict \<Rightarrow> string \<Rightarrow> bool" where
  "is_latency_sensitive m tgt = (case dict_get m tgt of Some n \<Rightarrow> node_type_of n = TAgent | None \<Rightarrow> False)"

definition edge_attrs :: "node dict \<Rightarrow> string \<Rightarrow> string \<Rightarrow> eattr" where
  "edge_attrs m u v = \<lparr>ea_schema = infer_data_schema m u, ea_size = estimate_data_size m u,
     ea_latency_sensitive = is_latency_sensitive m v, ea_critical = False, ea_avg_time = 0,
     ea_total = 0, ea_count = 0\<rparr>"

section \<open>Construction\<close>

record dep_graph =
  graph :: digraph
  nattrs :: "nattr dict"
  eattrs :: "((string \<times> string) \<times> eattr) list"
  node_levels :: "int dict"

definition empty_graph :: dep_graph where
  "empty_graph = \<lparr>graph = \<lparr>gnodes = [], gedges = []\<rparr>, nattrs = [], eattrs = [], node_levels = []\<rparr>"

fun add_deps :: "node dict \<Rightarrow> string list \<Rightarrow> string \<Rightarrow> string list \<Rightarrow> dep_graph \<Rightarrow> dep_graph res" where
  "add_deps m ids n [] g = Inr g"
| "add_deps m ids n (d # ds) g =
     (if d \<notin> set ids then Inl (Exn ValueError (''Dependency '' @ d @ '' not found for node '' @ n))
      else add_deps m ids n ds (g\<lparr>graph := add_edge d n (graph g),
             eattrs := dict_set (d, n) (edge_attrs m d n) (eattrs g)\<rparr>))"

fun add_nodes :: "node dict \<Rightarrow> string list \<Rightarrow> node list \<Rightarrow> dep_graph \<Rightarrow> dep_graph res" where
  "add_nodes m ids [] g = Inr g"
| "add_nodes m ids (n # ns) g =
     res_bind (add_deps m ids (node_id n) (node_deps n)
        (g\<lparr>graph := add_node (node_id n) (graph g),
           nattrs := dict_set (node_id n) (node_attrs n) (nattrs g)\<rparr>))
       (add_nodes m ids ns)"

definition recursive_sources :: "node \<Rightarrow> string list" where
  "recursive_sources n = (case kind n of KRecursive r \<Rightarrow> rc_sources r | _ \<Rightarrow> [])"

definition recursive_nodes :: "node list \<Rightarrow> node dict" where
  "recursive_nodes nodes = node_map (filter (\<lambda>n. node_type_of n = TRecursive) nodes)"

text \<open>\<open>_is_valid_recursive_cycle\<close>\<close>

definition valid_recursive_cycle :: "node dict \<Rightarrow> string list \<Rightarrow> bool" where
  "valid_recursive_cycle rec cycle =
     (let rs = filter (\<lambda>n. dict_get rec n \<noteq> None) cycle
      in rs \<noteq> [] \<and> list_all (\<lambda>r. list_ex (\<lambda>s. s \<in> set (recursive_sources (the (dict_get rec r))))
            (filter (\<lambda>n. n \<noteq> r) cycle)) rs)"

definition invalid_cycle_error :: "string list \<Rightarrow> exn" where
  "invalid_cycle_error cycle = Exn CycleDetectionError (''Cyclic agent-tool invocation detected: ''
     @ ''Invalid cycle detected: '' @ str_join '' -> '' cycle
     @ ''. Only recursive nodes with properly declared recursive_sources may form cycles.'')"

definition check_cycles :: "nx \<Rightarrow> node list \<Rightarrow> digraph \<Rightarrow> unit res" where
  "check_cycles nx nodes g =
     (case find (\<lambda>c. \<not> valid_recursive_cycle (recursive_nodes nodes) c) (simple_cycles nx g) of
        Some c \<Rightarrow> Inl (invalid_cycle_error c) | None \<Rightarrow> Inr ())"

text \<open>\<open>get_level_nodes\<close>: the levels in the order in which they first occur.\<close>

definition level_nodes :: "int dict \<Rightarrow> (int \<times> string list) list" where
  "level_nodes lv = foldl (\<lambda>m (n, l). dict_set l (dict_get_or m l [] @ [n]) m) [] lv"

definition update_attr :: "(nattr \<Rightarrow> nattr) \<Rightarrow> string \<Rightarrow> dep_graph \<Rightarrow> dep_graph" where
  "update_attr f n g = (case dict_get (nattrs g) n of
       Some a \<Rightarrow> g\<lparr>nattrs := dict_set n (f a) (nattrs g)\<rparr> | None \<Rightarrow> g)"

definition update_eattr :: "(eattr \<Rightarrow> eattr) \<Rightarrow> string \<times> string \<Rightarrow> dep_graph \<Rightarrow> dep_graph" where
  "update_eattr f e g = (case dict_get (eattrs g) e of
       Some a \<Rightarrow> g\<lparr>eattrs := dict_set e (f a) (eattrs g)\<rparr> | None \<Rightarrow> g)"

definition attr_or :: "dep_graph \<Rightarrow> (nattr \<Rightarrow> 'a) \<Rightarrow> 'a \<Rightarrow> string \<Rightarrow> 'a" where
  "attr_or g f dflt n = (case dict_get (nattrs g) n of Some a \<Rightarrow> f a | None \<Rightarrow> dflt)"

text \<open>The \<open>weight\<close> argument of \<open>dag_longest_path\<close> names an attribute of edges; an edge
  without it counts 1. The names the code passes are those of node attributes.\<close>

definition edge_datum :: "dep_graph \<Rightarrow> string \<Rightarrow> string \<times> string \<Rightarrow> rat option" where
  "edge_datum g key e = (case dict_get (eattrs g) e of
       None \<Rightarrow> None
     | Some a \<Rightarrow> if key = ''edge_weight'' then Some 1
                 else if key = ''avg_transfer_time'' then Some (ea_avg_time a)
                 else if key = ''total_data_transferred'' then Some (of_int (ea_total a))
                 else if key = ''transfer_count'' then Some (of_int (ea_count a)) else None)"

definition path_edges :: "string list \<Rightarrow> (string \<times> string) list" where
  "path_edges p = zip p (tl p)"

definition mark_critical :: "nx \<Rightarrow> dep_graph \<Rightarrow> dep_graph" where
  "mark_critical nx g =
     (case longest_path nx (graph g) (edge_datum g ''complexity_score'') of
        Inl e \<Rightarrow> g
      | Inr p \<Rightarrow> fold (update_eattr (\<lambda>a. a\<lparr>ea_critical := True\<rparr>)) (path_edges p)
                  (fold (update_attr (\<lambda>a. a\<lparr>at_critical := True\<rparr>)) p g))"

definition mark_central :: "nx \<Rightarrow> dep_graph \<Rightarrow> dep_graph" where
  "mark_central nx g = (case betweenness nx (graph g) of
       Inl e \<Rightarrow> g
     | Inr cs \<Rightarrow> fold (\<lambda>(n, s). update_attr (\<lambda>a. a\<lparr>at_centrality := s, at_bottleneck := (s > 3 / 10)\<rparr>) n) cs g)"

definition mark_groups :: "dep_graph \<Rightarrow> dep_graph" where
  "mark_groups g = fold (\<lambda>(l, ns) g. fold (update_attr (\<lambda>a. a\<lparr>at_group := Some l\<rparr>)) ns g)
     (level_nodes (node_levels g)) g"

definition compute_advanced_metrics :: "nx \<Rightarrow> dep_graph \<Rightarrow> dep_graph" where
  "compute_advanced_metrics nx g =
     (if gnodes (graph g) = [] then g else mark_groups (mark_critical nx (mark_central nx g)))"

text \<open>The two security checks read optional attributes of a node; \<open>sens\<close>, \<open>ext\<close> and
  \<open>airgap\<close> are \<open>getattr(node, name, False)\<close>.\<close>

definition validate_no_sensitive_data_flows ::
  "(node \<Rightarrow> bool) \<Rightarrow> (node \<Rightarrow> bool) \<Rightarrow> digraph \<Rightarrow> node list \<Rightarrow> unit res" where
  "validate_no_sensitive_data_flows sens ext g nodes =
     (case find (\<lambda>(n, s). sens n \<and> (case find (\<lambda>m. node_id m = s) nodes of Some m \<Rightarrow> ext m | None \<Rightarrow> False))
             (concat (map (\<lambda>n. map (Pair n) (successors g (node_id n))) nodes)) of
        None \<Rightarrow> Inr ()
      | Some (n, s) \<Rightarrow> Inl (Exn ValueError (''Sensitive data from node '' @ sq (node_id n)
            @ '' flows into external I/O node '' @ sq s @ ''.'')))"

definition enforce_airgap ::
  "(node \<Rightarrow> bool) \<Rightarrow> (node \<Rightarrow> bool) \<Rightarrow> node list \<Rightarrow> unit res" where
  "enforce_airgap airgap ext nodes =
     (if \<not> list_ex airgap nodes then Inr ()
      else (case find ext nodes of
              None \<Rightarrow> Inr ()
            | Some n \<Rightarrow> Inl (Exn ValueError (''Air-gap compliance violation: node '' @ sq (node_id n)
                @ '' requires external I/O.''))))"

text \<open>No node configuration has these attributes (extra fields are forbidden), so on a workflow
  they are all \<open>False\<close>.\<close>

definition build_graph :: "nx \<Rightarrow> node list \<Rightarrow> dep_graph res" where
  "build_graph nx nodes =
     res_bind (add_nodes (node_map nodes) (map node_id nodes) nodes empty_graph) (\<lambda>g.
     res_bind (check_cycles nx nodes (graph g)) (\<lambda>_.
     let g' = compute_advanced_metrics nx g in
     res_bind (validate_no_sensitive_data_flows (\<lambda>_. False) (\<lambda>_. False) (graph g') nodes) (\<lambda>_.
     res_bind (enforce_airgap (\<lambda>_. False) (\<lambda>_. False) nodes) (\<lambda>_. Inr g'))))"

section \<open>Levels\<close>

text \<open>Edges at a recursive node that lie on a cycle are taken out of a copy of the graph.\<close>

fun cut_recursive ::
  "nx \<Rightarrow> string set \<Rightarrow> (string \<times> string) list \<Rightarrow> digraph \<times> (string \<times> string) list
     \<Rightarrow> digraph \<times> (string \<times> string) list" where
  "cut_recursive nx R [] st = st"
| "cut_recursive nx R ((u, v) # es) (g, cuts) =
     cut_recursive nx R es
       (if u \<in> R \<or> v \<in> R then
          (let g' = remove_edge u v g
           in if has_path nx g' v u then (g', cuts @ [(u, v)]) else (add_edge u v g', cuts))
        else (g, cuts))"

definition recursive_ids :: "node list \<Rightarrow> string set" where
  "recursive_ids nodes = set (map node_id (filter (\<lambda>n. node_type_of n = TRecursive) nodes))"

text \<open>The level of a node is one more than the greatest level of the dependencies whose edge was
  not cut. A node's \<open>level\<close> field has a value before the pass, so the fallback for nodes without
  one never finds any.\<close>

definition level_after :: "node dict \<Rightarrow> (string \<times> string) list \<Rightarrow> string \<Rightarrow> int dict \<Rightarrow> int dict" where
  "level_after m cuts n lv =
     (let ls = map (\<lambda>d. dict_get_or lv d 0)
                 (filter (\<lambda>d. (d, n) \<notin> set cuts) (node_deps (the (dict_get m n))))
      in dict_set n ((if ls = [] then -1 else Max (set ls)) + 1) lv)"

definition initial_levels :: "node list \<Rightarrow> int dict" where
  "initial_levels nodes = foldl (\<lambda>lv n. dict_set (node_id n) (level (base n)) lv) [] nodes"

definition assign_levels :: "nx \<Rightarrow> node list \<Rightarrow> digraph \<Rightarrow> int dict" where
  "assign_levels nx nodes g =
     (let (g', cuts) = cut_recursive nx (recursive_ids nodes) (edges_of g) (g, []);
          order = fst (topological_sort nx g')
      in foldl (\<lambda>lv n. level_after (node_map nodes) cuts n lv) (initial_levels nodes) order)"

definition dep_graph_new :: "nx \<Rightarrow> node list \<Rightarrow> dep_graph res" where
  "dep_graph_new nx nodes = res_bind (build_graph nx nodes) (\<lambda>g.
     Inr (g\<lparr>node_levels := assign_levels nx nodes (graph g)\<rparr>))"

section \<open>Queries and statistics\<close>

definition get_level_nodes :: "dep_graph \<Rightarrow> (int \<times> string list) list" where
  "get_level_nodes g = level_nodes (node_levels g)"

definition get_node_level :: "dep_graph \<Rightarrow> string \<Rightarrow> int res" where
  "get_node_level g n =
     (case dict_get (node_levels g) n of Some l \<Rightarrow> Inr l | None \<Rightarrow> Inl (Exn KeyError (sq n)))"

definition get_leaf_nodes :: "dep_graph \<Rightarrow> string list" where
  "get_leaf_nodes g = filter (\<lambda>n. successors (graph g) n = []) (gnodes (graph g))"

definition get_critical_path :: "nx \<Rightarrow> dep_graph \<Rightarrow> string list" where
  "get_critical_path nx g =
     (case longest_path nx (graph g) (edge_datum g ''avg_execution_time'') of
        Inr p \<Rightarrow> p
      | Inl _ \<Rightarrow> (case longest_path nx (graph g) (edge_datum g ''complexity_score'') of Inr p \<Rightarrow> p | Inl _ \<Rightarrow> []))"

definition get_bottleneck_nodes :: "nx \<Rightarrow> dep_graph \<Rightarrow> string list" where
  "get_bottleneck_nodes nx g = (case betweenness nx (graph g) of
       Inr cs \<Rightarrow> map fst (filter (\<lambda>(n, s). s > 3 / 10) cs) | Inl _ \<Rightarrow> [])"

record level_group =
  lg_parallel_safe :: "string list"
  lg_sequential_only :: "string list"
  lg_total :: nat

definition node_safe :: "dep_graph \<Rightarrow> string \<Rightarrow> bool" where
  "node_safe g n = (case dict_get (nattrs g) n of Some a \<Rightarrow> at_parallel_safe a | None \<Rightarrow> True)"

definition get_parallel_execution_groups :: "dep_graph \<Rightarrow> (int \<times> level_group) list" where
  "get_parallel_execution_groups g = map (\<lambda>(l, ns).
     (l, \<lparr>lg_parallel_safe = filter (node_safe g) ns,
          lg_sequential_only = filter (\<lambda>n. \<not> node_safe g n) ns, lg_total = length ns\<rparr>))
     (get_level_nodes g)"

definition get_complexity_distribution :: "dep_graph \<Rightarrow> nat \<times> nat \<times> nat" where
  "get_complexity_distribution g =
     (let score = attr_or g at_complexity 1;
          ns = gnodes (graph g)
      in (length (filter (\<lambda>n. score n \<le> 3 / 2) ns),
          length (filter (\<lambda>n. \<not> score n \<le> 3 / 2 \<and> score n \<le> 3) ns),
          length (filter (\<lambda>n. \<not> score n \<le> 3) ns)))"

record execution_insights =
  ei_total_cost :: rat
  ei_avg_time :: rat
  ei_cacheable :: nat
  ei_io_bound :: nat

definition get_execution_insights :: "dep_graph \<Rightarrow> execution_insights" where
  "get_execution_insights g =
     (let ns = gnodes (graph g)
      in \<lparr>ei_total_cost = sum_list (map (attr_or g at_estimated_cost 0) ns),
          ei_avg_time = sum_list (map (attr_or g at_avg_time 0) ns) / of_nat (max (length ns) 1),
          ei_cacheable = length (filter (attr_or g at_cacheable True) ns),
          ei_io_bound = length (filter (attr_or g at_io_bound False) ns)\<rparr>)"

record insights =
  in_total_nodes :: nat
  in_total_edges :: nat
  in_max_depth :: int
  in_critical_path :: "string list"
  in_bottlenecks :: "string list"
  in_parallel_opportunities :: nat
  in_complexity :: "nat \<times> nat \<times> nat"
  in_execution :: execution_insights

text \<open>\<open>len(nodes)\<close> of a group is the number of keys of its dict, which is three.\<close>

definition get_optimization_insights :: "nx \<Rightarrow> dep_graph \<Rightarrow> insights" where
  "get_optimization_insights nx g =
     \<lparr>in_total_nodes = length (gnodes (graph g)), in_total_edges = length (gedges (graph g)),
      in_max_depth = (if node_levels g = [] then 0 else Max (set (map snd (node_levels g)))),
      in_critical_path = get_critical_path nx g, in_bottlenecks = get_bottleneck_nodes nx g,
      in_parallel_opportunities = sum_list (map (\<lambda>grp. 3) (get_parallel_execution_groups g)),
      in_complexity = get_complexity_distribution g, in_execution = get_execution_insights g\<rparr>"

definition rolling_average :: "rat \<Rightarrow> int \<Rightarrow> rat \<Rightarrow> rat" where
  "rolling_average avg count x = (avg * of_int (count - 1) + x) / of_int count"

definition record_execution :: "rat \<Rightarrow> bool \<Rightarrow> string option \<Rightarrow> nattr \<Rightarrow> nattr" where
  "record_execution time success err a =
     a\<lparr>at_count := at_count a + 1, at_last_time := Some time,
       at_last_error := (if nonempty_opt err then err else at_last_error a),
       at_avg_time := rolling_average (at_avg_time a) (at_count a + 1) time,
       at_success_rate := rolling_average (at_success_rate a) (at_count a + 1) (if success then 1 else 0),
       at_state := (if success then ''completed'' else ''failed'')\<rparr>"

definition update_execution_stats :: "string \<Rightarrow> rat \<Rightarrow> bool \<Rightarrow> string option \<Rightarrow> dep_graph \<Rightarrow> dep_graph" where
  "update_execution_stats n time success err g = update_attr (record_execution time success err) n g"

definition record_transfer :: "rat \<Rightarrow> int \<Rightarrow> eattr \<Rightarrow> eattr" where
  "record_transfer time bytes a =
     a\<lparr>ea_count := ea_count a + 1, ea_total := ea_total a + bytes,
       ea_avg_time := rolling_average (ea_avg_time a) (ea_count a + 1) time\<rparr>"

definition update_data_transfer_stats :: "string \<Rightarrow> string \<Rightarrow> rat \<Rightarrow> int \<Rightarrow> dep_graph \<Rightarrow> dep_graph" where
  "update_data_transfer_stats u v time bytes g = update_eattr (record_transfer time bytes) (u, v) g"

section \<open>Schema alignment\<close>

text \<open>The source of a mapping: \<open>None\<close> when it is a constant.\<close>

fun mapping_source :: "imapping \<Rightarrow> (val \<times> val) option res" where
  "mapping_source (MInput s k) = Inr (Some (VStr s, VStr k))"
| "mapping_source (MDict d) = (case dict_get d ''source_node_id'' of
       None \<Rightarrow> Inr None
     | Some s \<Rightarrow> (case dict_get d ''source_output_key'' of
           None \<Rightarrow> Inl (Exn KeyError (sq ''source_output_key'')) | Some k \<Rightarrow> Inr (Some (s, k))))"
| "mapping_source (MLit v) = Inr None"

fun schema_keys :: "schema \<Rightarrow> string list res" where
  "schema_keys SNone = Inl (Exn AttributeError ''NoneType object has no attribute keys'')"
| "schema_keys (SDict d) = Inr (dict_keys d)"
| "schema_keys (SModel fs) = Inr fs"

definition list_repr :: "string list \<Rightarrow> string" where
  "list_repr xs = ''['' @ str_join '', '' (map sq xs) @ '']''"

fun val_str :: "val \<Rightarrow> string" where
  "val_str (VStr s) = s"
| "val_str v = type_name v"

definition check_mapping :: "node dict \<Rightarrow> digraph \<Rightarrow> string \<Rightarrow> string \<times> imapping \<Rightarrow> unit res" where
  "check_mapping m g n pm = res_bind (mapping_source (snd pm)) (\<lambda>src. case src of
       None \<Rightarrow> Inr ()
     | Some (dep, key) \<Rightarrow>
         if dep \<notin> VStr ` set (predecessors g n)
         then Inl (Exn ValueError (''Node '' @ sq n @ '' has an input mapping for '' @ sq (fst pm)
                @ '' from '' @ sq (val_str dep) @ '', which is not a direct dependency.''))
         else (case dict_get m (val_str dep) of
             None \<Rightarrow> Inl (Exn ValueError (''Dependency node '' @ sq (val_str dep)
                      @ '' not found in the chain configuration.''))
           | Some d \<Rightarrow> res_bind (schema_keys (output_schema (base d))) (\<lambda>keys. case key of
               VStr k \<Rightarrow>
                 if hd (str_split ''.'' k) \<notin> set keys \<and> k \<noteq> ''.''
                 then Inl (Exn ValueError (''Node '' @ sq n @ '' expects input for '' @ sq (fst pm)
                        @ '' from key '' @ sq k @ '' of node '' @ sq (val_str dep) @ '', but ''
                        @ sq (hd (str_split ''.'' k)) @ '' is not in its output schema. Available keys: ''
                        @ list_repr keys))
                 else Inr ()
             | _ \<Rightarrow> Inl (Exn AttributeError ''object has no attribute split''))))"

definition validate_schema_alignment :: "node list \<Rightarrow> digraph \<Rightarrow> unit res" where
  "validate_schema_alignment nodes g =
     res_bind (res_map (\<lambda>n. res_map (check_mapping (node_map nodes) g (node_id n)) (input_mappings (base n)))
        nodes) (\<lambda>_. Inr ())"

section \<open>Elementary cycles\<close>

definition is_cycle :: "('a \<times> 'a) set \<Rightarrow> 'a list \<Rightarrow> bool" where
  "is_cycle E c \<longleftrightarrow> c \<noteq> [] \<and> distinct c \<and> successively (\<lambda>u v. (u, v) \<in> E) c \<and> (last c, hd c) \<in> E"

lemma successively_path:
  "successively (\<lambda>u v. (u, v) \<in> E) c \<Longrightarrow> c \<noteq> [] \<Longrightarrow> (hd c, last c) \<in> E\<^sup>*"
proof (induction c)
  case (Cons x c)
  show ?case
  proof (cases c)
    case (Cons y ys)
    then have "(x, y) \<in> E" "(y, last c) \<in> E\<^sup>*" using Cons.IH Cons.prems by auto
    then show ?thesis using Cons by (auto intro: converse_rtrancl_into_rtrancl)
  qed simp
qed simp

text \<open>A path without repeated nodes between any two connected nodes.\<close>

lemma simple_path:
  assumes "(u, v) \<in> E\<^sup>*"
  shows "\<exists>p. p \<noteq> [] \<and> hd p = u \<and> last p = v \<and> distinct p \<and> successively (\<lambda>u v. (u, v) \<in> E) p"
  using assms
proof (induction rule: converse_rtrancl_induct)
  case base
  show ?case by (rule exI[of _ "[v]"]) simp
next
  case (step y z)
  then obtain p where p: "p \<noteq> []" "hd p = z" "last p = v" "distinct p" "successively (\<lambda>u v. (u, v) \<in> E) p"
    by blast
  show ?case
  proof (cases "y \<in> set p")
    case True
    then obtain a b where ab: "p = a @ y # b" by (meson split_list)
    show ?thesis using p unfolding ab
      by (intro exI[of _ "y # b"]) (auto simp: successively_append_iff)
  next
    case False
    show ?thesis using p False step.hyps(1)
      by (intro exI[of _ "y # p"]) (auto simp: successively_Cons)
  qed
qed

lemma cycle_exists:
  assumes "\<not> acyclic E"
  shows "\<exists>c. is_cycle E c"
proof -
  obtain x where "(x, x) \<in> E\<^sup>+" using assms by (auto simp: acyclic_def)
  then obtain y where "(x, y) \<in> E\<^sup>*" "(y, x) \<in> E" by (meson tranclD2)
  then show ?thesis using simple_path[of x y E] by (auto simp: is_cycle_def)
qed

lemma cycle_acyclic: "is_cycle E c \<Longrightarrow> \<not> acyclic E"
  using successively_path[of E c]
  by (auto simp: is_cycle_def acyclic_def intro: rtrancl_into_trancl1)

text \<open>The edge by which a cycle leaves one of its nodes, and the way back without that edge.\<close>

lemma cycle_edge:
  assumes c: "is_cycle E c" and r: "r \<in> set c"
  shows "\<exists>v. (r, v) \<in> E \<and> (v, r) \<in> (E - {(r, v)})\<^sup>*"
proof -
  obtain a b where ab: "c = a @ r # b" using r by (meson split_list)
  let ?p = "b @ a @ [r]"
  let ?v = "hd ?p"
  have dist: "distinct ?p" using c by (auto simp: is_cycle_def ab)
  have parts: "successively (\<lambda>u v. (u, v) \<in> E) a" "successively (\<lambda>u v. (u, v) \<in> E) (r # b)"
    "a = [] \<or> (last a, r) \<in> E" "(last (r # b), hd (a @ [r])) \<in> E"
    using c unfolding is_cycle_def ab by (auto simp: successively_append_iff hd_append split: if_splits)
  then have "successively (\<lambda>u v. (u, v) \<in> E) ((r # b) @ (a @ [r]))"
    by (subst successively_append_iff) (auto simp: successively_append_iff)
  then have succ: "successively (\<lambda>u v. (u, v) \<in> E) (r # ?p)" by simp
  then have edge: "(r, ?v) \<in> E" by (simp add: successively_Cons)
  have "successively (\<lambda>u v. (u, v) \<in> E - {(r, ?v)}) ?p"
  proof (rule successively_mono[of "\<lambda>u v. (u, v) \<in> E \<and> u \<noteq> r"])
    have gen: "successively (\<lambda>u v. (u, v) \<in> E \<and> u \<noteq> r) (q @ [r])" if "r \<notin> set q"
      "successively (\<lambda>u v. (u, v) \<in> E) (q @ [r])" for q
      using that by (induction q) (auto simp: successively_Cons)
    have "successively (\<lambda>u v. (u, v) \<in> E) ((b @ a) @ [r])"
      using succ by (simp add: successively_Cons)
    then show "successively (\<lambda>u v. (u, v) \<in> E \<and> u \<noteq> r) ?p"
      using gen[of "b @ a"] dist by simp
  qed auto
  then have "(?v, last ?p) \<in> (E - {(r, ?v)})\<^sup>*" by (rule successively_path) simp
  then show ?thesis using edge by auto
qed

section \<open>Construction accepts exactly the well-formed graphs\<close>

definition dep_edges :: "node list \<Rightarrow> (string \<times> string) set" where
  "dep_edges nodes = {(d, node_id n) | n d. n \<in> set nodes \<and> d \<in> set (node_deps n)}"

definition deps_known :: "string list \<Rightarrow> node list \<Rightarrow> bool" where
  "deps_known ids nodes \<longleftrightarrow> (\<forall>n \<in> set nodes. set (node_deps n) \<subseteq> set ids)"

lemma dep_edges_simps [simp]:
  "dep_edges [] = {}"
  "dep_edges (n # ns) = (\<lambda>d. (d, node_id n)) ` set (node_deps n) \<union> dep_edges ns"
  by (auto simp: dep_edges_def)

definition graph_wf :: "digraph \<Rightarrow> bool" where
  "graph_wf g \<longleftrightarrow> distinct (gnodes g) \<and> distinct (gedges g) \<and>
     fst ` set (gedges g) \<subseteq> set (gnodes g) \<and> snd ` set (gedges g) \<subseteq> set (gnodes g)"

lemma add_node_wf [simp]: "graph_wf g \<Longrightarrow> graph_wf (add_node n g)"
  by (auto simp: graph_wf_def add_node_def)

lemma add_edge_wf [simp]: "graph_wf g \<Longrightarrow> graph_wf (add_edge u v g)"
  by (auto simp: graph_wf_def add_edge_def)

lemma graph_sets [simp]:
  "set (gnodes (add_node n g)) = insert n (set (gnodes g))"
  "gedges (add_node n g) = gedges g"
  "set (gnodes (add_edge u v g)) = insert u (insert v (set (gnodes g)))"
  "set (gedges (add_edge u v g)) = insert (u, v) (set (gedges g))"
  "gnodes (remove_edge u v g) = gnodes g"
  "set (gedges (remove_edge u v g)) = set (gedges g) - {(u, v)}"
  by (auto simp: add_node_def add_edge_def remove_edge_def)

text \<open>What a completed loop has built, and when the loops complete.\<close>

lemma add_deps_graph:
  "add_deps m ids n ds g = Inr g' \<Longrightarrow> graph_wf (graph g) \<Longrightarrow> n \<in> set (gnodes (graph g)) \<Longrightarrow>
   graph_wf (graph g') \<and> set (gnodes (graph g')) = set (gnodes (graph g)) \<union> set ds \<and>
   set (gedges (graph g')) = set (gedges (graph g)) \<union> (\<lambda>d. (d, n)) ` set ds \<and>
   nattrs g' = nattrs g \<and> node_levels g' = node_levels g \<and> set ds \<subseteq> set ids"
  by (induction ds arbitrary: g) (auto split: if_splits)

lemma add_deps_ok: "(\<exists>g'. add_deps m ids n ds g = Inr g') \<longleftrightarrow> set ds \<subseteq> set ids"
  by (induction ds arbitrary: g) auto

lemma add_nodes_graph:
  "add_nodes m ids ns g = Inr g' \<Longrightarrow> graph_wf (graph g) \<Longrightarrow>
   graph_wf (graph g') \<and>
   set (gnodes (graph g')) = set (gnodes (graph g)) \<union> node_id ` set ns \<union> fst ` dep_edges ns \<and>
   set (gedges (graph g')) = set (gedges (graph g)) \<union> dep_edges ns \<and>
   node_levels g' = node_levels g \<and> deps_known ids ns"
proof (induction ns arbitrary: g)
  case (Cons n ns)
  obtain g1 where g1: "add_deps m ids (node_id n) (node_deps n)
      (g\<lparr>graph := add_node (node_id n) (graph g), nattrs := dict_set (node_id n) (node_attrs n) (nattrs g)\<rparr>)
      = Inr g1" and rest: "add_nodes m ids ns g1 = Inr g'"
    using Cons.prems(1) by (auto simp: res_bind_Inr_iff)
  from add_deps_graph[OF g1] Cons.prems(2) have
    "graph_wf (graph g1) \<and> set (gnodes (graph g1)) = insert (node_id n) (set (gnodes (graph g))) \<union> set (node_deps n) \<and>
     set (gedges (graph g1)) = set (gedges (graph g)) \<union> (\<lambda>d. (d, node_id n)) ` set (node_deps n) \<and>
     node_levels g1 = node_levels g \<and> set (node_deps n) \<subseteq> set ids" by simp
  then show ?case using Cons.IH[OF rest] by (auto simp: deps_known_def image_Un image_image)
qed (simp add: deps_known_def)

lemma add_nodes_ok: "(\<exists>g'. add_nodes m ids ns g = Inr g') \<longleftrightarrow> deps_known ids ns"
proof (induction ns arbitrary: g)
  case (Cons n ns)
  then show ?case using add_deps_ok[of m ids "node_id n" "node_deps n"]
    by (auto simp: res_bind_Inr_iff deps_known_def) (metis Cons)
qed (simp add: deps_known_def)

lemma update_attr_graph [simp]:
  "graph (update_attr f n g) = graph g" "graph (update_eattr f' e g) = graph g"
  "node_levels (update_attr f n g) = node_levels g" "node_levels (update_eattr f' e g) = node_levels g"
  by (auto simp: update_attr_def update_eattr_def split: option.splits)

lemma metrics_graph [simp]:
  "graph (compute_advanced_metrics nx g) = graph g"
  "node_levels (compute_advanced_metrics nx g) = node_levels g"
proof -
  have attr: "graph (fold (update_attr f) ns g) = graph g \<and>
      node_levels (fold (update_attr f) ns g) = node_levels g" for f ns g
    by (induction ns arbitrary: g) simp_all
  have eattr: "graph (fold (update_eattr f) es g) = graph g \<and>
      node_levels (fold (update_eattr f) es g) = node_levels g" for f es g
    by (induction es arbitrary: g) simp_all
  have central: "graph (mark_central nx g) = graph g \<and> node_levels (mark_central nx g) = node_levels g" for g
  proof -
    have "graph (fold (\<lambda>(n, s). update_attr (f s) n) cs g) = graph g \<and>
        node_levels (fold (\<lambda>(n, s). update_attr (f s) n) cs g) = node_levels g" for f :: "rat \<Rightarrow> _" and cs
      by (induction cs arbitrary: g) auto
    then show ?thesis by (simp add: mark_central_def split: sum.splits)
  qed
  have critical: "graph (mark_critical nx g) = graph g \<and> node_levels (mark_critical nx g) = node_levels g" for g
    by (simp add: mark_critical_def attr eattr split: sum.splits)
  have groups: "graph (mark_groups g) = graph g \<and> node_levels (mark_groups g) = node_levels g" for g
  proof -
    have "graph (fold (\<lambda>(l, ns) g. fold (update_attr (f l)) ns g) ls g) = graph g \<and>
        node_levels (fold (\<lambda>(l, ns) g. fold (update_attr (f l)) ns g) ls g) = node_levels g" for f :: "int \<Rightarrow> _" and ls
      by (induction ls arbitrary: g) (auto simp: attr)
    then show ?thesis by (simp add: mark_groups_def)
  qed
  show "graph (compute_advanced_metrics nx g) = graph g"
    "node_levels (compute_advanced_metrics nx g) = node_levels g"
    by (simp_all add: compute_advanced_metrics_def central critical groups)
qed

lemma security_checks_idle:
  "validate_no_sensitive_data_flows (\<lambda>_. False) ext g nodes = Inr ()"
  "enforce_airgap (\<lambda>_. False) ext nodes = Inr ()"
proof -
  have "find (\<lambda>(n, s). False) xs = None" for xs :: "(node \<times> string) list" by (induction xs) simp_all
  then show "validate_no_sensitive_data_flows (\<lambda>_. False) ext g nodes = Inr ()"
    "enforce_airgap (\<lambda>_. False) ext nodes = Inr ()"
    by (simp_all add: validate_no_sensitive_data_flows_def enforce_airgap_def list_ex_iff)
qed

definition base_graph :: "nx \<Rightarrow> node list \<Rightarrow> digraph \<Rightarrow> bool" where
  "base_graph nx nodes g \<longleftrightarrow> (\<exists>b. add_nodes (node_map nodes) (map node_id nodes) nodes empty_graph = Inr b
     \<and> graph b = g)"

lemma base_graph_facts:
  assumes "base_graph nx nodes g"
  shows "graph_wf g" "set (gnodes g) = node_id ` set nodes" "set (gedges g) = dep_edges nodes"
    "deps_known (map node_id nodes) nodes"
proof -
  obtain b where b: "add_nodes (node_map nodes) (map node_id nodes) nodes empty_graph = Inr b" "graph b = g"
    using assms by (auto simp: base_graph_def)
  have "graph_wf (graph empty_graph)" by (simp add: empty_graph_def graph_wf_def)
  from add_nodes_graph[OF b(1) this] b(2) have *: "graph_wf g"
    "set (gnodes g) = node_id ` set nodes \<union> fst ` dep_edges nodes" "set (gedges g) = dep_edges nodes"
    "deps_known (map node_id nodes) nodes" by (simp_all add: empty_graph_def)
  then show "graph_wf g" "set (gedges g) = dep_edges nodes" "deps_known (map node_id nodes) nodes"
    by blast+
  have "fst ` dep_edges nodes \<subseteq> node_id ` set nodes"
    using *(4) by (fastforce simp: deps_known_def dep_edges_def)
  then show "set (gnodes g) = node_id ` set nodes" using *(2) by blast
qed

lemma build_graph_cases:
  "(\<exists>g. build_graph nx nodes = Inr g \<and> graph g = dg) \<longleftrightarrow>
     base_graph nx nodes dg \<and> check_cycles nx nodes dg = Inr ()"
  by (auto simp: build_graph_def res_bind_Inr_iff Let_def security_checks_idle base_graph_def)

lemma dep_graph_new_cases:
  "dep_graph_new nx nodes = Inr g \<Longrightarrow>
     base_graph nx nodes (graph g) \<and> check_cycles nx nodes (graph g) = Inr ()
     \<and> node_levels g = assign_levels nx nodes (graph g)"
  using build_graph_cases[of nx nodes "graph g"]
  by (auto simp: dep_graph_new_def res_bind_Inr_iff)

lemma dep_graph_new_ok:
  "(\<exists>g. dep_graph_new nx nodes = Inr g) \<longleftrightarrow>
     (\<exists>dg. base_graph nx nodes dg \<and> check_cycles nx nodes dg = Inr ())"
  using build_graph_cases[of nx nodes] by (auto simp: dep_graph_new_def res_bind_Inr_iff)

text \<open>\<open>simple_cycles\<close> as its documentation has it: elementary cycles, each up to rotation.\<close>

definition cycles_ok :: "nx \<Rightarrow> digraph \<Rightarrow> bool" where
  "cycles_ok nx g \<longleftrightarrow> (\<forall>c \<in> set (simple_cycles nx g). is_cycle (set (gedges g)) c) \<and>
     (\<forall>c. is_cycle (set (gedges g)) c \<longrightarrow> (\<exists>k. rotate k c \<in> set (simple_cycles nx g)))"

lemma valid_cycle_set:
  "valid_recursive_cycle rec c \<longleftrightarrow> (\<exists>n \<in> set c. dict_get rec n \<noteq> None) \<and>
     (\<forall>r \<in> set c. dict_get rec r \<noteq> None \<longrightarrow>
        (\<exists>s \<in> set c. s \<noteq> r \<and> s \<in> set (recursive_sources (the (dict_get rec r)))))"
  by (auto simp: valid_recursive_cycle_def Let_def filter_empty_conv list_all_iff list_ex_iff)

lemma check_cycles_iff:
  assumes "cycles_ok nx g"
  shows "check_cycles nx nodes g = Inr () \<longleftrightarrow>
    (\<forall>c. is_cycle (set (gedges g)) c \<longrightarrow> valid_recursive_cycle (recursive_nodes nodes) c)"
proof -
  have "check_cycles nx nodes g = Inr () \<longleftrightarrow>
      (\<forall>c \<in> set (simple_cycles nx g). valid_recursive_cycle (recursive_nodes nodes) c)"
    using find_None_iff[of "\<lambda>c. \<not> valid_recursive_cycle (recursive_nodes nodes) c" "simple_cycles nx g"]
    by (cases "find (\<lambda>c. \<not> valid_recursive_cycle (recursive_nodes nodes) c) (simple_cycles nx g)")
       (auto simp: check_cycles_def)
  moreover have "valid_recursive_cycle rec (rotate k c) = valid_recursive_cycle rec c" for rec k c
    by (simp add: valid_cycle_set)
  ultimately show ?thesis using assms unfolding cycles_ok_def by metis
qed

lemma node_map_dom: "dict_get (node_map ns) x \<noteq> None \<longleftrightarrow> x \<in> node_id ` set ns"
  unfolding node_map_def by (induction ns rule: rev_induct) auto

lemma node_map_id: "dict_get (node_map ns) x = Some n \<Longrightarrow> n \<in> set ns \<and> node_id n = x"
  unfolding node_map_def by (induction ns rule: rev_induct) (auto split: if_splits)

lemma node_map_get: "distinct (map node_id ns) \<Longrightarrow> n \<in> set ns \<Longrightarrow> dict_get (node_map ns) (node_id n) = Some n"
  unfolding node_map_def by (induction ns rule: rev_induct) (auto simp: image_iff)

lemma recursive_nodes_dom: "dict_get (recursive_nodes nodes) x \<noteq> None \<longleftrightarrow> x \<in> recursive_ids nodes"
  unfolding recursive_nodes_def node_map_dom recursive_ids_def by simp

section \<open>Cutting the cycles of recursive nodes\<close>

text \<open>\<open>has_path\<close> as documented: whether there is a (possibly empty) path.\<close>

definition paths_ok :: "nx \<Rightarrow> bool" where
  "paths_ok nx \<longleftrightarrow> (\<forall>g u v. has_path nx g u v \<longleftrightarrow> (u, v) \<in> (set (gedges g))\<^sup>*)"

lemma cut_step_edges:
  assumes "(u, v) \<in> set (gedges g)"
  shows "set (gedges (add_edge u v (remove_edge u v g))) = set (gedges g)"
  using assms by auto

lemma cut_recursive_spec:
  assumes "paths_ok nx" "cut_recursive nx R es (g, cuts) = (g', cuts')"
    "set es \<subseteq> set (gedges g)" "distinct es"
  shows "set (gedges g') \<subseteq> set (gedges g) \<and> set (gedges g) \<subseteq> set (gedges g') \<union> set cuts' \<and>
    set cuts \<subseteq> set cuts' \<and>
    (\<forall>(u, v) \<in> set cuts' - set cuts. (u \<in> R \<or> v \<in> R) \<and> (u, v) \<in> set (gedges g)
        \<and> (v, u) \<in> (set (gedges g))\<^sup>*) \<and>
    (\<forall>(u, v) \<in> set es \<inter> set (gedges g'). (u \<in> R \<or> v \<in> R) \<longrightarrow>
        (v, u) \<notin> (set (gedges g') - {(u, v)})\<^sup>*)"
  using assms(2-4)
proof (induction es arbitrary: g cuts)
  case Nil
  then show ?case by simp
next
  case (Cons e es)
  obtain u v where e: "e = (u, v)" by force
  let ?touch = "u \<in> R \<or> v \<in> R"
  let ?less = "remove_edge u v g"
  have path: "has_path nx ?less v u \<longleftrightarrow> (v, u) \<in> (set (gedges g) - {(u, v)})\<^sup>*"
    using assms(1) by (simp add: paths_ok_def)
  have mem: "(u, v) \<in> set (gedges g)" "(u, v) \<notin> set es" "distinct es" "set es \<subseteq> set (gedges g)"
    using Cons.prems e by auto
  show ?case
  proof (cases "?touch \<and> has_path nx ?less v u")
    case True
    then have run: "cut_recursive nx R es (?less, cuts @ [(u, v)]) = (g', cuts')"
      using Cons.prems(1) by (simp add: e Let_def)
    have sub: "set es \<subseteq> set (gedges ?less)" using mem by auto
    note IH = Cons.IH[OF run sub mem(3)]
    have rev: "(v, u) \<in> (set (gedges g))\<^sup>*"
      using True path rtrancl_mono[of "set (gedges g) - {(u, v)}" "set (gedges g)"] by blast
    have mono: "p \<in> (set (gedges ?less))\<^sup>* \<Longrightarrow> p \<in> (set (gedges g))\<^sup>*" for p
      using rtrancl_mono[of "set (gedges ?less)" "set (gedges g)"] by auto
    have uv: "(u, v) \<notin> set (gedges g')" using IH by auto
    show ?thesis
    proof (intro conjI ballI)
      show "set (gedges g') \<subseteq> set (gedges g)" "set (gedges g) \<subseteq> set (gedges g') \<union> set cuts'"
        "set cuts \<subseteq> set cuts'" using IH by auto
      fix p assume p: "p \<in> set cuts' - set cuts"
      show "case p of (u, v) \<Rightarrow> (u \<in> R \<or> v \<in> R) \<and> (u, v) \<in> set (gedges g) \<and> (v, u) \<in> (set (gedges g))\<^sup>*"
      proof (cases "p = (u, v)")
        case True
        then show ?thesis using \<open>?touch \<and> _\<close> mem(1) rev by simp
      next
        case False
        then have pc: "p \<in> set cuts' - set (cuts @ [(u, v)])" using p by simp
        obtain a b where ab: "p = (a, b)" by force
        have "case p of (a, b) \<Rightarrow> (a \<in> R \<or> b \<in> R) \<and> (a, b) \<in> set (gedges ?less) \<and> (b, a) \<in> (set (gedges ?less))\<^sup>*"
          using IH pc by blast
        then show ?thesis using mono unfolding ab by simp
      qed
    next
      fix p assume "p \<in> set (e # es) \<inter> set (gedges g')"
      then have "p \<in> set es \<inter> set (gedges g')" using uv e by auto
      then show "case p of (u, v) \<Rightarrow> (u \<in> R \<or> v \<in> R) \<longrightarrow> (v, u) \<notin> (set (gedges g') - {(u, v)})\<^sup>*"
        using IH by blast
    qed
  next
    case False
    obtain h where h: "cut_recursive nx R es (h, cuts) = (g', cuts')" "set (gedges h) = set (gedges g)"
    proof (cases ?touch)
      case True
      then show ?thesis using that[of "add_edge u v ?less"] False Cons.prems(1) mem(1)
        by (simp add: e Let_def insert_absorb)
    next
      case False
      then show ?thesis using that[of g] Cons.prems(1) by (simp add: e)
    qed
    have sub: "set es \<subseteq> set (gedges h)" using mem h by auto
    note IH = Cons.IH[OF h(1) sub mem(3), unfolded h(2)]
    have "(v, u) \<notin> (set (gedges g') - {(u, v)})\<^sup>*" if ?touch
    proof -
      have sub: "set (gedges g') - {(u, v)} \<subseteq> set (gedges g) - {(u, v)}" using IH by auto
      have "(v, u) \<notin> (set (gedges g) - {(u, v)})\<^sup>*" using that False path by simp
      then show ?thesis using rtrancl_mono[OF sub] by (rule contra_subsetD[rotated])
    qed
    then have "case p of (u, v) \<Rightarrow> (u \<in> R \<or> v \<in> R) \<longrightarrow> (v, u) \<notin> (set (gedges g') - {(u, v)})\<^sup>*"
      if "p \<in> set (e # es) \<inter> set (gedges g')" for p
      using that IH unfolding e by (cases "p = (u, v)") (simp, auto)
    then show ?thesis using IH by blast
  qed
qed

lemma set_edges_of: "graph_wf g \<Longrightarrow> set (edges_of g) = set (gedges g)"
  by (force simp: edges_of_def graph_wf_def)

lemma distinct_edges_of: "graph_wf g \<Longrightarrow> distinct (edges_of g)"
proof -
  assume wf: "graph_wf g"
  have "distinct us \<Longrightarrow> distinct (concat (map (\<lambda>u. filter (\<lambda>e. fst e = u) (gedges g)) us))" for us
    using wf by (induction us) (auto simp: graph_wf_def)
  then show ?thesis using wf by (simp add: edges_of_def graph_wf_def)
qed

definition cut_graph :: "nx \<Rightarrow> node list \<Rightarrow> digraph \<Rightarrow> digraph" where
  "cut_graph nx nodes g = fst (cut_recursive nx (recursive_ids nodes) (edges_of g) (g, []))"

definition cut_edges :: "nx \<Rightarrow> node list \<Rightarrow> digraph \<Rightarrow> (string \<times> string) list" where
  "cut_edges nx nodes g = snd (cut_recursive nx (recursive_ids nodes) (edges_of g) (g, []))"

lemma cut_nodes: "graph_wf g \<Longrightarrow> set es \<subseteq> set (gedges g) \<Longrightarrow>
   set (gnodes (fst (cut_recursive nx R es (h, cuts)))) = set (gnodes h) \<or>
   \<not> set (gnodes g) \<subseteq> set (gnodes h)"
proof (induction es arbitrary: h cuts)
  case (Cons e es)
  obtain u v where e: "e = (u, v)" by force
  have uv: "u \<in> set (gnodes g)" "v \<in> set (gnodes g)" using Cons.prems e by (force simp: graph_wf_def)+
  show ?case
  proof (cases "set (gnodes g) \<subseteq> set (gnodes h)")
    case True
    then have "set (gnodes (add_edge u v (remove_edge u v h))) = set (gnodes h)" using uv by auto
    then show ?thesis using Cons.IH[of "add_edge u v (remove_edge u v h)" cuts]
        Cons.IH[of "remove_edge u v h" "cuts @ [(u, v)]"] Cons.IH[of h cuts] Cons.prems True
      by (simp add: e Let_def)
  qed simp
qed simp

lemma cut_graph_facts:
  assumes "paths_ok nx" "graph_wf g"
  shows "set (gnodes (cut_graph nx nodes g)) = set (gnodes g)"
    and "set (gedges (cut_graph nx nodes g)) \<subseteq> set (gedges g)"
    and "set (gedges g) \<subseteq> set (gedges (cut_graph nx nodes g)) \<union> set (cut_edges nx nodes g)"
    and "(u, v) \<in> set (cut_edges nx nodes g) \<Longrightarrow>
      (u \<in> recursive_ids nodes \<or> v \<in> recursive_ids nodes) \<and> (u, v) \<in> set (gedges g) \<and> (v, u) \<in> (set (gedges g))\<^sup>*"
    and "(u, v) \<in> set (gedges (cut_graph nx nodes g)) \<Longrightarrow> u \<in> recursive_ids nodes \<or> v \<in> recursive_ids nodes \<Longrightarrow>
      (v, u) \<notin> (set (gedges (cut_graph nx nodes g)) - {(u, v)})\<^sup>*"
proof -
  have run: "cut_recursive nx (recursive_ids nodes) (edges_of g) (g, []) =
      (cut_graph nx nodes g, cut_edges nx nodes g)" by (simp add: cut_graph_def cut_edges_def)
  note spec = cut_recursive_spec[OF assms(1) run _ distinct_edges_of[OF assms(2)], unfolded set_edges_of[OF assms(2)], OF subset_refl]
  show "set (gedges (cut_graph nx nodes g)) \<subseteq> set (gedges g)"
    "set (gedges g) \<subseteq> set (gedges (cut_graph nx nodes g)) \<union> set (cut_edges nx nodes g)"
    using spec by blast+
  show "(u, v) \<in> set (cut_edges nx nodes g) \<Longrightarrow>
      (u \<in> recursive_ids nodes \<or> v \<in> recursive_ids nodes) \<and> (u, v) \<in> set (gedges g) \<and> (v, u) \<in> (set (gedges g))\<^sup>*"
    using spec by fastforce
  show "(u, v) \<in> set (gedges (cut_graph nx nodes g)) \<Longrightarrow> u \<in> recursive_ids nodes \<or> v \<in> recursive_ids nodes \<Longrightarrow>
      (v, u) \<notin> (set (gedges (cut_graph nx nodes g)) - {(u, v)})\<^sup>*"
    using spec by blast
  show "set (gnodes (cut_graph nx nodes g)) = set (gnodes g)"
    using cut_nodes[OF assms(2), of "edges_of g" nx "recursive_ids nodes" g "[]"]
    by (simp add: cut_graph_def set_edges_of[OF assms(2)])
qed

text \<open>When the cycle check has passed, what is left has no cycle at all.\<close>

lemma cut_graph_acyclic:
  assumes "paths_ok nx" "graph_wf g" "cycles_ok nx g" "check_cycles nx nodes g = Inr ()"
  shows "acyclic (set (gedges (cut_graph nx nodes g)))"
proof (rule ccontr)
  let ?E = "set (gedges (cut_graph nx nodes g))"
  assume "\<not> acyclic ?E"
  then obtain c where c: "is_cycle ?E c" using cycle_exists by blast
  have "is_cycle (set (gedges g)) c"
    using c cut_graph_facts(2)[OF assms(1,2)] unfolding is_cycle_def
    by (auto elim!: successively_mono)
  then have "valid_recursive_cycle (recursive_nodes nodes) c"
    using check_cycles_iff[OF assms(3)] assms(4) by blast
  then obtain r where r: "r \<in> set c" "r \<in> recursive_ids nodes"
    by (auto simp: valid_cycle_set simp flip: recursive_nodes_dom)
  obtain v where "(r, v) \<in> ?E" "(v, r) \<in> (?E - {(r, v)})\<^sup>*" using cycle_edge[OF c r(1)] by blast
  then show False using cut_graph_facts(5)[OF assms(1,2)] r(2) by blast
qed

section \<open>Levels order the dependencies\<close>

text \<open>\<open>topological_sort\<close> as documented: on an acyclic graph it yields every node once, after its
  predecessors.\<close>

definition topo_order :: "(string \<times> string) set \<Rightarrow> string list \<Rightarrow> bool" where
  "topo_order E order \<longleftrightarrow> distinct order \<and>
     (\<forall>i < length order. \<forall>u. (u, order ! i) \<in> E \<longrightarrow> u \<in> set (take i order))"

definition topo_ok :: "nx \<Rightarrow> digraph \<Rightarrow> bool" where
  "topo_ok nx g \<longleftrightarrow> (acyclic (set (gedges g)) \<longrightarrow>
     set (fst (topological_sort nx g)) = set (gnodes g) \<and> topo_order (set (gedges g)) (fst (topological_sort nx g))
     \<and> \<not> snd (topological_sort nx g))"

definition kept_deps :: "node dict \<Rightarrow> (string \<times> string) list \<Rightarrow> string \<Rightarrow> string list" where
  "kept_deps m cuts n = filter (\<lambda>d. (d, n) \<notin> set cuts) (node_deps (the (dict_get m n)))"

definition level_eq :: "int dict \<Rightarrow> string \<Rightarrow> string list \<Rightarrow> bool" where
  "level_eq lv n ds \<longleftrightarrow> dict_get lv n =
     Some ((if ds = [] then -1 else Max ((\<lambda>d. dict_get_or lv d 0) ` set ds)) + 1)"

lemma level_after_eq: "n \<notin> set (kept_deps m cuts n) \<Longrightarrow> level_eq (level_after m cuts n lv) n (kept_deps m cuts n)"
  by (auto simp: level_eq_def level_after_def kept_deps_def Let_def dict_get_or_def
      intro!: arg_cong[where f = Max] image_cong)

lemma level_eq_cong:
  "dict_get lv n = dict_get lv' n \<Longrightarrow> (\<And>d. d \<in> set ds \<Longrightarrow> dict_get lv d = dict_get lv' d) \<Longrightarrow>
   level_eq lv n ds = level_eq lv' n ds"
  by (simp add: level_eq_def dict_get_or_def cong: image_cong)

lemma level_after_other: "k \<noteq> n \<Longrightarrow> dict_get (level_after m cuts n lv) k = dict_get lv k"
  by (simp add: level_after_def Let_def)

lemma fold_levels:
  assumes "topo_order E order" "\<And>n d. n \<in> set order \<Longrightarrow> d \<in> set (kept_deps m cuts n) \<Longrightarrow> (d, n) \<in> E"
  shows "\<forall>n \<in> set order. level_eq (foldl (\<lambda>lv n. level_after m cuts n lv) lv0 order) n (kept_deps m cuts n)"
  using assms
proof (induction order rule: rev_induct)
  case (snoc x xs)
  have to: "topo_order E xs"
    using snoc.prems(1) unfolding topo_order_def
    by (auto simp: nth_append)
  define lv where "lv = foldl (\<lambda>lv n. level_after m cuts n lv) lv0 xs"
  have IH: "\<forall>n \<in> set xs. level_eq lv n (kept_deps m cuts n)"
    unfolding lv_def using snoc.IH[OF to] snoc.prems(2) by simp
  have x: "x \<notin> set xs" using snoc.prems(1) by (simp add: topo_order_def)
  have before: "set (kept_deps m cuts (( xs @ [x]) ! i)) \<subseteq> set (take i (xs @ [x]))" if "i < length (xs @ [x])" for i
    using that snoc.prems unfolding topo_order_def by (metis nth_mem subsetI)
  have deps_x: "set (kept_deps m cuts x) \<subseteq> set xs" using before[of "length xs"] by simp
  have "level_eq (level_after m cuts x lv) n (kept_deps m cuts n)" if n: "n \<in> set (xs @ [x])" for n
  proof (cases "n = x")
    case True
    then show ?thesis using level_after_eq[of x m cuts lv] deps_x x by auto
  next
    case False
    then obtain i where i: "i < length xs" "xs ! i = n" using n by (auto simp: in_set_conv_nth)
    then have "set (kept_deps m cuts n) \<subseteq> set xs"
      using before[of i] set_take_subset[of i xs] by (auto simp: nth_append)
    then have "level_eq (level_after m cuts x lv) n (kept_deps m cuts n) = level_eq lv n (kept_deps m cuts n)"
      using x False by (intro level_eq_cong level_after_other) auto
    then show ?thesis using IH i by auto
  qed
  then show ?case by (simp add: lv_def)
qed simp

lemma assign_levels_eq:
  assumes "paths_ok nx" "cycles_ok nx g" "topo_ok nx (cut_graph nx nodes g)"
    and "base_graph nx nodes g" "check_cycles nx nodes g = Inr ()" "n \<in> set nodes" "distinct (map node_id nodes)"
  shows "level_eq (assign_levels nx nodes g) (node_id n)
    (filter (\<lambda>d. (d, node_id n) \<notin> set (cut_edges nx nodes g)) (node_deps n))"
proof -
  note bg = base_graph_facts[OF assms(4)]
  let ?h = "cut_graph nx nodes g" let ?m = "node_map nodes" let ?cuts = "cut_edges nx nodes g"
  let ?order = "fst (topological_sort nx ?h)"
  have "acyclic (set (gedges ?h))" using cut_graph_acyclic[OF assms(1) bg(1) assms(2,5)] .
  then have order: "set ?order = node_id ` set nodes" "topo_order (set (gedges ?h)) ?order"
    using assms(3) cut_graph_facts(1)[OF assms(1) bg(1)] bg(2) by (auto simp: topo_ok_def)
  have edge: "(d, k) \<in> set (gedges ?h)" if "k \<in> set ?order" "d \<in> set (kept_deps ?m ?cuts k)" for k d
  proof -
    obtain j where j: "j \<in> set nodes" "k = node_id j" using \<open>k \<in> _\<close> order(1) by auto
    then have "d \<in> set (node_deps j)" "(d, k) \<notin> set ?cuts"
      using that(2) node_map_get[OF assms(7) j(1)] by (auto simp: kept_deps_def)
    moreover have "(d, k) \<in> set (gedges g)" using calculation(1) j bg(3) by (auto simp: dep_edges_def)
    ultimately show ?thesis using cut_graph_facts(3)[OF assms(1) bg(1)] by blast
  qed
  have "\<forall>k \<in> set ?order. level_eq (foldl (\<lambda>lv n. level_after ?m ?cuts n lv) (initial_levels nodes) ?order) k (kept_deps ?m ?cuts k)"
    by (rule fold_levels[OF order(2)]) (use edge in blast)
  moreover have "assign_levels nx nodes g = foldl (\<lambda>lv n. level_after ?m ?cuts n lv) (initial_levels nodes) ?order"
    by (simp add: assign_levels_def cut_graph_def cut_edges_def case_prod_beta Let_def)
  moreover have "kept_deps ?m ?cuts (node_id n) = filter (\<lambda>d. (d, node_id n) \<notin> set ?cuts) (node_deps n)"
    using node_map_get[OF assms(7,6)] by (simp add: kept_deps_def)
  ultimately show ?thesis using order(1) assms(6) by auto
qed

lemma level_eq_less: "level_eq lv n ds \<Longrightarrow> d \<in> set ds \<Longrightarrow> dict_get_or lv d 0 < dict_get_or lv n 0"
  using Max_ge[of "(\<lambda>d. dict_get_or lv d 0) ` set ds" "dict_get_or lv d 0"]
  by (auto simp: level_eq_def dict_get_or_def[of lv n])

lemma level_eq_tight:
  assumes "level_eq lv n ds" "ds \<noteq> []"
  shows "\<exists>d \<in> set ds. dict_get_or lv n 0 = dict_get_or lv d 0 + 1"
proof -
  have "Max ((\<lambda>d. dict_get_or lv d 0) ` set ds) \<in> (\<lambda>d. dict_get_or lv d 0) ` set ds"
    using assms(2) by (intro Max_in) auto
  then obtain d where "d \<in> set ds" "Max ((\<lambda>d. dict_get_or lv d 0) ` set ds) = dict_get_or lv d 0" by auto
  then show ?thesis using assms by (intro bexI[of _ d]) (auto simp: level_eq_def dict_get_or_def[of lv n])
qed

section \<open>Level lists\<close>

lemma level_nodes_get:
  "dict_wf lv \<Longrightarrow> dict_get_or (level_nodes lv) l [] = map fst (filter (\<lambda>p. snd p = l) lv)"
  unfolding level_nodes_def
proof (induction lv rule: rev_induct)
  case (snoc p lv)
  then show ?case by (cases p) (auto simp: dict_get_or_def)
qed (simp add: dict_get_or_def)

lemma level_nodes_keys: "dict_get (level_nodes lv) l \<noteq> None \<longleftrightarrow> l \<in> snd ` set lv"
  unfolding level_nodes_def by (induction lv rule: rev_induct) auto

lemma level_nodes_wf: "dict_wf (level_nodes lv)"
  unfolding level_nodes_def by (induction lv rule: rev_induct) auto

section \<open>Running averages\<close>

definition mean :: "rat list \<Rightarrow> rat" where
  "mean xs = sum_list xs / of_nat (length xs)"

lemma rolling_average_mean:
  "rolling_average (mean xs) (int (length xs) + 1) x = mean (xs @ [x])"
  by (cases "xs = []") (simp_all add: rolling_average_def mean_def)

lemma update_stats_get:
  "dict_get (nattrs (update_execution_stats n t ok err g)) m =
     (if m = n then map_option (record_execution t ok err) (dict_get (nattrs g) n) else dict_get (nattrs g) m)"
  by (auto simp: update_execution_stats_def update_attr_def split: option.splits)

section \<open>Parallel groups\<close>

definition ungrouped :: "nattr dict \<Rightarrow> bool" where
  "ungrouped d \<longleftrightarrow> list_all (\<lambda>(n, a). at_group a = None) d"

lemma ungrouped_set: "ungrouped d \<Longrightarrow> at_group a = None \<Longrightarrow> ungrouped (dict_set n a d)"
  unfolding ungrouped_def by (induction d) auto

lemma ungrouped_get: "ungrouped d \<Longrightarrow> dict_get d n = Some a \<Longrightarrow> at_group a = None"
  unfolding ungrouped_def list_all_iff by (auto dest: map_of_SomeD)

lemma add_deps_nattrs: "add_deps m ids n ds g = Inr g' \<Longrightarrow> nattrs g' = nattrs g"
  by (induction ds arbitrary: g) (auto split: if_splits)

lemma add_nodes_ungrouped:
  "add_nodes m ids ns g = Inr g' \<Longrightarrow> ungrouped (nattrs g) \<Longrightarrow> ungrouped (nattrs g')"
proof (induction ns arbitrary: g)
  case (Cons n ns)
  then obtain g1 where "add_deps m ids (node_id n) (node_deps n)
      (g\<lparr>graph := add_node (node_id n) (graph g), nattrs := dict_set (node_id n) (node_attrs n) (nattrs g)\<rparr>)
      = Inr g1" "add_nodes m ids ns g1 = Inr g'" by (auto simp: res_bind_Inr_iff)
  then show ?case using Cons add_deps_nattrs by (auto simp: ungrouped_set node_attrs_def)
qed simp

lemma update_attr_ungrouped:
  "ungrouped (nattrs g) \<Longrightarrow> (\<And>a. at_group (f a) = at_group a) \<Longrightarrow> ungrouped (nattrs (update_attr f n g))"
  by (auto simp: update_attr_def ungrouped_set ungrouped_get split: option.splits)

lemma update_eattr_nattrs [simp]: "nattrs (update_eattr f e g) = nattrs g"
  by (auto simp: update_eattr_def split: option.splits)

lemma metrics_ungrouped:
  assumes "node_levels g = []" "ungrouped (nattrs g)"
  shows "ungrouped (nattrs (compute_advanced_metrics nx g))"
proof -
  have eattr: "nattrs (fold (update_eattr f) es g) = nattrs g" for f es and g :: dep_graph
    by (induction es arbitrary: g) simp_all
  have attr: "ungrouped (nattrs g) \<Longrightarrow> (\<And>a. at_group (f a) = at_group a) \<Longrightarrow>
      ungrouped (nattrs (fold (update_attr f) ns g))" for f ns g
    by (induction ns arbitrary: g) (simp_all add: update_attr_ungrouped)
  have central: "ungrouped (nattrs (mark_central nx g)) \<and> node_levels (mark_central nx g) = []"
  proof -
    have "ungrouped (nattrs g) \<Longrightarrow> node_levels g = [] \<Longrightarrow>
       ungrouped (nattrs (fold (\<lambda>(n, s). update_attr (\<lambda>a. a\<lparr>at_centrality := s, at_bottleneck := b s\<rparr>) n) cs g)) \<and>
       node_levels (fold (\<lambda>(n, s). update_attr (\<lambda>a. a\<lparr>at_centrality := s, at_bottleneck := b s\<rparr>) n) cs g) = []"
      for b :: "rat \<Rightarrow> bool" and cs and g :: dep_graph
      by (induction cs arbitrary: g) (auto simp: update_attr_ungrouped)
    then show ?thesis using assms by (simp add: mark_central_def split: sum.splits)
  qed
  have lv: "node_levels (fold (update_attr f) ns g) = node_levels g"
    "node_levels (fold (update_eattr h) es g) = node_levels g" for f ns h es and g :: dep_graph
    by (induction ns arbitrary: g; simp) (induction es arbitrary: g; simp)
  have "ungrouped (nattrs (mark_critical nx (mark_central nx g))) \<and>
      node_levels (mark_critical nx (mark_central nx g)) = []"
    using central by (auto simp: mark_critical_def eattr attr lv split: sum.splits)
  then show ?thesis using assms
    by (simp add: compute_advanced_metrics_def mark_groups_def level_nodes_def)
qed

section \<open>Properties\<close>

text \<open>(C12) What the constructor accepts. A graph is built exactly when every dependency names a
  node and every elementary cycle is an intended one: it passes through a recursive node, and each
  recursive node on it declares another node of the cycle among its sources. One declared source is
  enough for a recursive node; a comment beside the test says that all other nodes of the cycle
  should be declared.\<close>

theorem dep_graph_accepts:
  assumes "\<And>g. base_graph nx nodes g \<Longrightarrow> cycles_ok nx g"
  shows "(\<exists>g. dep_graph_new nx nodes = Inr g) \<longleftrightarrow>
    (\<forall>n \<in> set nodes. set (node_deps n) \<subseteq> node_id ` set nodes) \<and>
    (\<forall>c. is_cycle (dep_edges nodes) c \<longrightarrow> valid_recursive_cycle (recursive_nodes nodes) c)"
proof -
  have "(\<exists>g. base_graph nx nodes g) \<longleftrightarrow> deps_known (map node_id nodes) nodes"
    using add_nodes_ok[of "node_map nodes" "map node_id nodes" nodes empty_graph]
    by (auto simp: base_graph_def)
  moreover have "check_cycles nx nodes g = Inr () \<longleftrightarrow>
      (\<forall>c. is_cycle (dep_edges nodes) c \<longrightarrow> valid_recursive_cycle (recursive_nodes nodes) c)"
    if "base_graph nx nodes g" for g
    using check_cycles_iff[OF assms[OF that]] base_graph_facts(3)[OF that] by simp
  ultimately show ?thesis unfolding dep_graph_new_ok by (auto simp: deps_known_def)
qed

definition demo_nodes :: "node list" where
  "demo_nodes =
     [Node (default_base ''a'' [''r'']) (KTool ''csv_reader'' []),
      Node (default_base ''r'' [''a'']) (KRecursive \<lparr>rc_sources = [''a''], rc_condition = None,
        rc_max_iterations = 5, rc_agent_package = Some ''pkg'', rc_workflow_ref = None,
        rc_preserve = True, rc_context_key = ''ctx''\<rparr>)]"

definition demo_nx :: nx where
  "demo_nx = \<lparr>simple_cycles = (\<lambda>g. [[''a'', ''r'']]),
     has_path = (\<lambda>g u v. (u, v) \<in> (set (gedges g))\<^sup>*), topological_sort = (\<lambda>g. ([''r'', ''a''], False)),
     betweenness = (\<lambda>g. Inr []), longest_path = (\<lambda>g w. Inl (Exn (OtherError ''NetworkXUnfeasible'') []))\<rparr>"

lemma demo_edges: "dep_edges demo_nodes = {(''r'', ''a''), (''a'', ''r'')}"
  by (auto simp: demo_nodes_def node_id_def node_deps_def default_base_def)

lemma two_cycle:
  assumes "u \<noteq> v" "is_cycle {(v, u), (u, v)} c"
  shows "c = [u, v] \<or> c = [v, u]"
proof -
  have cons: "c \<noteq> []" "distinct c" "successively (\<lambda>x y. (x, y) \<in> {(v, u), (u, v)}) c"
    "(last c, hd c) \<in> {(v, u), (u, v)}" using assms(2) by (auto simp: is_cycle_def)
  then obtain x ys where c: "c = x # ys" by (cases c) auto
  show ?thesis
  proof (cases ys)
    case Nil
    then show ?thesis using cons assms(1) c by auto
  next
    case (Cons y zs)
    then show ?thesis using cons assms(1) c by (cases zs) (auto simp: successively_Cons)
  qed
qed

lemma demo_cycles_ok: "set (gedges g) = {(''r'', ''a''), (''a'', ''r'')} \<Longrightarrow> cycles_ok demo_nx g"
proof -
  assume g: "set (gedges g) = {(''r'', ''a''), (''a'', ''r'')}"
  have "\<exists>k. rotate k c = [''a'', ''r'']" if "is_cycle {(''r'', ''a''), (''a'', ''r'')} c" for c
    using two_cycle[OF _ that] by (auto intro: exI[of _ 0] exI[of _ 1])
  then show ?thesis by (auto simp: cycles_ok_def g demo_nx_def is_cycle_def)
qed

lemma demo_valid: "check_cycles demo_nx demo_nodes g = Inr ()"
  by (simp add: check_cycles_def demo_nx_def valid_recursive_cycle_def Let_def recursive_nodes_def node_map_def
      demo_nodes_def node_id_def node_type_of_def default_base_def recursive_sources_def)

lemma dep_graph_demo: "\<exists>g. dep_graph_new demo_nx demo_nodes = Inr g"
proof -
  have "\<exists>dg. base_graph demo_nx demo_nodes dg"
    using add_nodes_ok[of "node_map demo_nodes" "map node_id demo_nodes" demo_nodes empty_graph]
    by (auto simp: base_graph_def deps_known_def demo_nodes_def node_deps_def node_id_def default_base_def)
  then show ?thesis unfolding dep_graph_new_ok by (simp add: demo_valid)
qed

theorem dep_graph_accepts_witness:
  "\<exists>g. dep_graph_new demo_nx demo_nodes = Inr g"
proof -
  have ok: "cycles_ok demo_nx g" if "base_graph demo_nx demo_nodes g" for g
    using base_graph_facts(3)[OF that] demo_edges by (intro demo_cycles_ok) simp
  have rec: "recursive_ids demo_nodes = {''r''}"
    by (auto simp: recursive_ids_def demo_nodes_def node_type_of_def node_id_def default_base_def)
  have "valid_recursive_cycle (recursive_nodes demo_nodes) c" if "is_cycle {(''r'', ''a''), (''a'', ''r'')} c" for c
    using two_cycle[OF _ that]
    by (auto simp: valid_cycle_set recursive_nodes_def node_map_def demo_nodes_def node_id_def node_type_of_def
        default_base_def recursive_sources_def)
  moreover have "\<forall>n \<in> set demo_nodes. set (node_deps n) \<subseteq> node_id ` set demo_nodes"
    by (simp add: demo_nodes_def node_deps_def node_id_def default_base_def)
  ultimately show ?thesis using dep_graph_accepts [of demo_nx demo_nodes, OF ok] by (simp add: demo_edges)
qed

lemma built_levels:
  assumes "dep_graph_new nx nodes = Inr g" "distinct (map node_id nodes)" "n \<in> set nodes"
    and "paths_ok nx" "cycles_ok nx (graph g)" "topo_ok nx (cut_graph nx nodes (graph g))"
  shows "level_eq (node_levels g) (node_id n)
      (filter (\<lambda>d. (d, node_id n) \<notin> set (cut_edges nx nodes (graph g))) (node_deps n))"
    and "(d, node_id n) \<in> set (cut_edges nx nodes (graph g)) \<Longrightarrow>
      (d \<in> recursive_ids nodes \<or> node_id n \<in> recursive_ids nodes) \<and> (node_id n, d) \<in> (dep_edges nodes)\<^sup>*"
proof -
  have b: "base_graph nx nodes (graph g)" "check_cycles nx nodes (graph g) = Inr ()"
    "node_levels g = assign_levels nx nodes (graph g)"
    using dep_graph_new_cases[OF assms(1)] by auto
  note bg = base_graph_facts[OF b(1)]
  show "level_eq (node_levels g) (node_id n)
      (filter (\<lambda>d. (d, node_id n) \<notin> set (cut_edges nx nodes (graph g))) (node_deps n))"
    unfolding b(3) using assign_levels_eq[OF assms(4,5,6) b(1,2) assms(3,2)] .
  show "(d, node_id n) \<in> set (cut_edges nx nodes (graph g)) \<Longrightarrow>
      (d \<in> recursive_ids nodes \<or> node_id n \<in> recursive_ids nodes) \<and> (node_id n, d) \<in> (dep_edges nodes)\<^sup>*"
    using cut_graph_facts(4)[OF assms(4) bg(1), of d "node_id n" nodes] bg(3) by simp
qed

text \<open>(C11) Levels respect dependencies: in a graph that was built, a node lies strictly above each
  of its dependencies, but for an edge at a recursive node that closes a cycle.\<close>

theorem levels_respect_dependencies:
  assumes "dep_graph_new nx nodes = Inr g" "distinct (map node_id nodes)"
    and "n \<in> set nodes" "d \<in> set (node_deps n)"
    and "paths_ok nx" "cycles_ok nx (graph g)" "topo_ok nx (cut_graph nx nodes (graph g))"
  shows "dict_get_or (node_levels g) d 0 < dict_get_or (node_levels g) (node_id n) 0 \<or>
    (d \<in> recursive_ids nodes \<or> node_id n \<in> recursive_ids nodes) \<and> (node_id n, d) \<in> (dep_edges nodes)\<^sup>*"
  using built_levels[OF assms(1,2,3,5,6,7)] assms(4)
    level_eq_less[OF built_levels(1)[OF assms(1,2,3,5,6,7)], of d] by auto

theorem levels_respect_dependencies_witness:
  "\<exists>g. dep_graph_new demo_nx demo_nodes = Inr g \<and> distinct (map node_id demo_nodes) \<and>
     (dict_get_or (node_levels g) ''r'' 0 < dict_get_or (node_levels g) ''a'' 0 \<or>
     (''r'' \<in> recursive_ids demo_nodes \<or> ''a'' \<in> recursive_ids demo_nodes) \<and> (''a'', ''r'') \<in> (dep_edges demo_nodes)\<^sup>*)"
proof -
  let ?a = "hd demo_nodes"
  obtain g where g: "dep_graph_new demo_nx demo_nodes = Inr g" using dep_graph_demo by blast
  have b: "base_graph demo_nx demo_nodes (graph g)" using dep_graph_new_cases[OF g] by blast
  have paths: "paths_ok demo_nx" by (simp add: paths_ok_def demo_nx_def)
  have cyc: "cycles_ok demo_nx (graph g)"
    using base_graph_facts(3)[OF b] demo_edges by (intro demo_cycles_ok) simp
  have eq: "graph g = \<lparr>gnodes = [''a'', ''r''], gedges = [(''r'', ''a''), (''a'', ''r'')]\<rparr>"
    using b by (auto simp: base_graph_def demo_nodes_def node_id_def node_deps_def default_base_def
        empty_graph_def add_node_def add_edge_def insert_new_def)
  have "cut_graph demo_nx demo_nodes (graph g) = \<lparr>gnodes = [''a'', ''r''], gedges = [(''r'', ''a'')]\<rparr>"
    by (simp add: cut_graph_def eq edges_of_def recursive_ids_def demo_nodes_def node_type_of_def node_id_def
        default_base_def remove_edge_def add_edge_def insert_new_def demo_nx_def Let_def r_into_rtrancl)
  then have topo: "topo_ok demo_nx (cut_graph demo_nx demo_nodes (graph g))"
    by (auto simp: topo_ok_def topo_order_def demo_nx_def less_Suc_eq)
  have ids: "distinct (map node_id demo_nodes)" "?a \<in> set demo_nodes" "''r'' \<in> set (node_deps ?a)" "node_id ?a = ''a''"
    by (simp_all add: demo_nodes_def node_id_def node_deps_def default_base_def)
  show ?thesis using levels_respect_dependencies [OF g ids(1,2,3) paths cyc topo] g ids by auto
qed

text \<open>Without recursive nodes the levels are the least possible: a node without dependencies
  is at level 0 and any other one immediately above one of its dependencies, so a level starts as
  soon as the longest chain of dependencies before it allows.\<close>

theorem levels_minimal:
  assumes "dep_graph_new nx nodes = Inr g" "distinct (map node_id nodes)" "n \<in> set nodes"
    and "recursive_ids nodes = {}"
    and "paths_ok nx" "cycles_ok nx (graph g)" "topo_ok nx (cut_graph nx nodes (graph g))"
  shows "if node_deps n = [] then dict_get (node_levels g) (node_id n) = Some 0
    else \<exists>d \<in> set (node_deps n).
      dict_get (node_levels g) (node_id n) = Some (dict_get_or (node_levels g) d 0 + 1)"
proof -
  note lv = built_levels[OF assms(1,2,3,5,6,7)]
  have ds: "filter (\<lambda>d. (d, node_id n) \<notin> set (cut_edges nx nodes (graph g))) (node_deps n) = node_deps n"
    using lv(2) assms(4) by (auto simp: filter_id_conv)
  show ?thesis
    using lv(1) level_eq_tight[OF lv(1)] unfolding ds
    by (cases "dict_get (node_levels g) (node_id n)") (auto simp: level_eq_def dict_get_or_def)
qed

definition demo_chain :: "node list" where
  "demo_chain = [Node (default_base ''a'' []) (KTool ''t'' []), Node (default_base ''b'' [''a'']) (KTool ''t'' [])]"

definition chain_nx :: nx where
  "chain_nx = \<lparr>simple_cycles = (\<lambda>g. []), has_path = (\<lambda>g u v. (u, v) \<in> (set (gedges g))\<^sup>*),
     topological_sort = (\<lambda>g. ([''a'', ''b''], False)), betweenness = (\<lambda>g. Inr []),
     longest_path = (\<lambda>g w. Inr [''a'', ''b''])\<rparr>"

theorem levels_minimal_witness:
  "\<exists>g. dep_graph_new chain_nx demo_chain = Inr g \<and> dict_get (node_levels g) ''b'' =
     Some (dict_get_or (node_levels g) ''a'' 0 + 1)"
proof -
  note defs = demo_chain_def chain_nx_def node_id_def node_deps_def default_base_def
  have "\<exists>dg. base_graph chain_nx demo_chain dg"
    using add_nodes_ok[of "node_map demo_chain" "map node_id demo_chain" demo_chain empty_graph]
    by (auto simp: base_graph_def deps_known_def defs)
  then obtain g where g: "dep_graph_new chain_nx demo_chain = Inr g"
    using dep_graph_new_ok[of chain_nx demo_chain] by (auto simp: check_cycles_def chain_nx_def)
  have b: "base_graph chain_nx demo_chain (graph g)" using dep_graph_new_cases[OF g] by blast
  have eq: "graph g = \<lparr>gnodes = [''a'', ''b''], gedges = [(''a'', ''b'')]\<rparr>"
    using b by (auto simp: base_graph_def defs empty_graph_def add_node_def add_edge_def insert_new_def)
  have norec: "recursive_ids demo_chain = {}" by (simp add: recursive_ids_def defs node_type_of_def)
  have same: "cut_graph chain_nx demo_chain (graph g) = graph g"
    by (simp add: cut_graph_def eq edges_of_def norec)
  have "acyclic {(''a'', ''b'')}" by (simp add: wf_acyclic)
  then have cyc: "cycles_ok chain_nx (graph g)"
    using cycle_acyclic[of "{(''a'', ''b'')}"] by (auto simp: cycles_ok_def eq chain_nx_def)
  have topo: "topo_ok chain_nx (cut_graph chain_nx demo_chain (graph g))"
    unfolding same by (auto simp: topo_ok_def topo_order_def chain_nx_def eq less_Suc_eq)
  have paths: "paths_ok chain_nx" by (simp add: paths_ok_def chain_nx_def)
  have ids: "distinct (map node_id demo_chain)" "last demo_chain \<in> set demo_chain"
    by (simp_all add: defs)
  from levels_minimal [OF g ids norec paths cyc topo] g show ?thesis by (simp add: defs)
qed

text \<open>Statistics are exact: after any executions of a node are recorded, its attributes hold
  their number, the mean of the times and the share of successes.\<close>

theorem execution_stats_exact:
  assumes "dict_get (nattrs g) n = Some a" "at_count a = 0" "runs \<noteq> []"
  shows "\<exists>b. dict_get (nattrs (foldl (\<lambda>g (t, ok, err). update_execution_stats n t ok err g) g runs)) n = Some b \<and>
     at_count b = int (length runs) \<and>
     at_avg_time b = mean (map fst runs) \<and>
     at_success_rate b = mean (map (\<lambda>r. if fst (snd r) then 1 else 0) runs) \<and>
     at_state b = (if fst (snd (last runs)) then ''completed'' else ''failed'')"
  using assms(3)
proof (induction runs rule: rev_nonempty_induct)
  case (single r)
  then show ?case using assms(1,2)
    by (cases r) (simp add: update_stats_get record_execution_def rolling_average_def mean_def)
next
  case (snoc r runs)
  obtain t ok err where r: "r = (t, ok, err)" by (cases r)
  from snoc.IH obtain b where b: "dict_get (nattrs (foldl (\<lambda>g (t, ok, err). update_execution_stats n t ok err g) g runs)) n = Some b"
    "at_count b = int (length runs)" "at_avg_time b = mean (map fst runs)"
    "at_success_rate b = mean (map (\<lambda>r. if fst (snd r) then 1 else 0) runs)" by blast
  show ?case
    using b(1) rolling_average_mean[of "map fst runs" t]
      rolling_average_mean[of "map (\<lambda>r. if fst (snd r) then 1 else 0) runs" "if ok then 1 else 0"]
    by (simp add: r update_stats_get record_execution_def b(2-4))
qed

theorem execution_stats_exact_witness:
  "\<exists>b. dict_get (nattrs (foldl (\<lambda>g (t, ok, err). update_execution_stats ''a'' t ok err g)
        (empty_graph\<lparr>nattrs := [(''a'', node_attrs (hd demo_nodes))]\<rparr>) [(2, True, None), (4, False, Some ''x'')])) ''a'' = Some b
     \<and> at_count b = 2 \<and> at_avg_time b = 3 \<and> at_success_rate b = 1 / 2 \<and> at_state b = ''failed''"
  using execution_stats_exact [of "empty_graph\<lparr>nattrs := [(''a'', node_attrs (hd demo_nodes))]\<rparr>" "''a''"
      "node_attrs (hd demo_nodes)" "[(2, True, None), (4, False, Some ''x'')]"]
  by (simp add: mean_def node_attrs_def)

text \<open>Nothing is ever in a parallel group: the constructor assigns the groups from the levels
  before it assigns the levels, so \<open>parallel_group\<close> of every node keeps its initial \<open>None\<close>; and
  the number of \<open>parallel_opportunities\<close> is three for each level, whatever the levels hold.\<close>

theorem parallel_groups_never_assigned:
  "(case dep_graph_new nx nodes of Inl _ \<Rightarrow> True | Inr g \<Rightarrow>
     list_all (\<lambda>(n, a). at_group a = None) (nattrs g) \<and>
     in_parallel_opportunities (get_optimization_insights nx g) = 3 * length (get_level_nodes g))"
proof (cases "dep_graph_new nx nodes")
  case (Inr g)
  obtain b where b: "add_nodes (node_map nodes) (map node_id nodes) nodes empty_graph = Inr b"
    "nattrs g = nattrs (compute_advanced_metrics nx b)"
    using Inr by (auto simp: dep_graph_new_def build_graph_def res_bind_Inr_iff Let_def)
  have lv: "node_levels b = []"
    using add_nodes_graph[OF b(1)] by (simp add: empty_graph_def graph_wf_def)
  have "ungrouped (nattrs b)"
    using add_nodes_ungrouped[OF b(1)] by (simp add: empty_graph_def ungrouped_def)
  then have "ungrouped (nattrs g)" using metrics_ungrouped[OF lv] b(2) by simp
  then show ?thesis using Inr
    by (simp add: ungrouped_def get_optimization_insights_def get_parallel_execution_groups_def sum_list_triv
        case_prod_beta o_def)
qed simp

end
