(* ===== verification/Analyzer.thy ===== *)
theory Analyzer
  imports DepGraph
begin

text \<open>
  \<open>GraphAnalyzer\<close> (\<open>src/ice_orchestrator/context/graph_analyzer.py\<close>): metrics, impact of a change, suggestions,
  layout hints, execution paths and patterns of the dependency graph, and the methods of \<open>Workflow\<close> that
  hand them out. The record \<open>algos\<close> holds the NetworkX algorithms it calls besides those of \<open>nx\<close>.
\<close>

section \<open>The analyzer\<close>

text \<open>\<open>an_configs\<close> is the node attribute \<open>config\<close>. \<open>from_nodes\<close> sets it; the nodes of a \<open>DependencyGraph\<close>,
  the graph that a workflow hands to its analyzer, do not have it.\<close>

record analyzer =
  an_graph :: digraph
  an_configs :: "node dict"

record algos =
  path_lengths :: "digraph \<Rightarrow> string \<Rightarrow> nat dict"
  descendants :: "digraph \<Rightarrow> string \<Rightarrow> string list"
  spring_layout :: "digraph \<Rightarrow> rat dict"
  simple_paths :: "digraph \<Rightarrow> string \<Rightarrow> string \<Rightarrow> string list list res"
  cliques :: "digraph \<Rightarrow> string list list res"
  isomorphic :: "digraph \<Rightarrow> digraph \<Rightarrow> bool"
  cycle_message :: string

text \<open>What \<open>topological_sort\<close> raises on a cycle. \<open>NetworkXUnfeasible\<close> is no subclass of \<open>NetworkXError\<close>, so the
  handlers of this class do not see it.\<close>

definition unfeasible :: "algos \<Rightarrow> exn" where
  "unfeasible ax = Exn (OtherError ''NetworkXUnfeasible'') (cycle_message ax)"

definition is_nx_error :: "exn \<Rightarrow> bool" where
  "is_nx_error e \<longleftrightarrow> exn_kind e = OtherError ''NetworkXError''"

definition from_nodes :: "node list \<Rightarrow> analyzer" where
  "from_nodes nodes = foldl (\<lambda>a n. \<lparr>an_graph = foldl (\<lambda>g d. add_edge d (node_id n) g) (add_node (node_id n) (an_graph a)) (node_deps n),
       an_configs = dict_set (node_id n) n (an_configs a)\<rparr>)
     \<lparr>an_graph = \<lparr>gnodes = [], gedges = []\<rparr>, an_configs = []\<rparr> nodes"

definition workflow_analyzer :: "dep_graph \<Rightarrow> analyzer" where
  "workflow_analyzer g = \<lparr>an_graph = graph g, an_configs = []\<rparr>"

definition in_degree :: "digraph \<Rightarrow> string \<Rightarrow> nat" where
  "in_degree g n = length (predecessors g n)"

definition out_degree :: "digraph \<Rightarrow> string \<Rightarrow> nat" where
  "out_degree g n = length (successors g n)"

definition root_nodes :: "digraph \<Rightarrow> string list" where
  "root_nodes g = filter (\<lambda>n. in_degree g n = 0) (gnodes g)"

definition leaf_nodes :: "digraph \<Rightarrow> string list" where
  "leaf_nodes g = filter (\<lambda>n. out_degree g n = 0) (gnodes g)"

section \<open>Levels\<close>

text \<open>The level of a predecessor is the first whose list has it; \<open>next\<close> raises when there is none.\<close>

definition pred_level :: "(nat \<times> string list) list \<Rightarrow> string \<Rightarrow> nat res" where
  "pred_level lv p = (case find (\<lambda>(l, ns). p \<in> set ns) lv of
       None \<Rightarrow> Inl (Exn (OtherError ''StopIteration'') '''') | Some (l, ns) \<Rightarrow> Inr l)"

fun max_level :: "(nat \<times> string list) list \<Rightarrow> string list \<Rightarrow> nat \<Rightarrow> nat res" where
  "max_level lv [] l = Inr l"
| "max_level lv (p # ps) l = res_bind (pred_level lv p) (\<lambda>k. max_level lv ps (max l (k + 1)))"

fun place_nodes :: "digraph \<Rightarrow> string list \<Rightarrow> (nat \<times> string list) list \<Rightarrow> (nat \<times> string list) list res" where
  "place_nodes g [] lv = Inr lv"
| "place_nodes g (n # ns) lv = res_bind (max_level lv (predecessors g n) 0)
     (\<lambda>l. place_nodes g ns (dict_set l (dict_get_or lv l [] @ [n]) lv))"

text \<open>The order is a generator, which raises after the nodes outside of cycles.\<close>

definition compute_levels :: "nx \<Rightarrow> algos \<Rightarrow> digraph \<Rightarrow> (nat \<times> string list) list res" where
  "compute_levels nx ax g = (let (order, cyclic) = topological_sort nx g;
       r = res_bind (place_nodes g order []) (\<lambda>lv. if cyclic then Inl (unfeasible ax) else Inr lv)
     in case r of Inl e \<Rightarrow> if is_nx_error e then Inr [(0, gnodes g)] else Inl e | Inr lv \<Rightarrow> Inr lv)"

section \<open>Metrics\<close>

definition critical_path_length :: "nx \<Rightarrow> digraph \<Rightarrow> nat res" where
  "critical_path_length nx g = (case longest_path nx g (\<lambda>_. None) of
       Inr p \<Rightarrow> Inr (length p - 1)
     | Inl e \<Rightarrow> if is_nx_error e \<or> exn_kind e = ValueError then Inr 0 else Inl e)"

definition complexity :: "nx \<Rightarrow> digraph \<Rightarrow> rat res" where
  "complexity nx g = (let n = length (gnodes g); m = length (gedges g) in
     if n = 0 then Inr 0
     else res_bind (critical_path_length nx g) (\<lambda>depth.
       Inr ((if n > 1 then of_nat m / of_nat (n * (n - 1)) else 0) * 5
         + (of_nat (sum_list (map (\<lambda>v. in_degree g v + out_degree g v) (gnodes g))) / of_nat n) * 2
         + of_nat depth * (1 / 2))))"

definition bottlenecks :: "digraph \<Rightarrow> string list" where
  "bottlenecks g = filter (\<lambda>n. 3 < out_degree g n) (gnodes g)"

text \<open>\<open>max_depth\<close> is the maximum of one view of path lengths per root, not of the lengths: no view without roots
  (\<open>ValueError\<close>, which is handled), the view itself with one root, and a \<open>TypeError\<close> with two, since views
  have no order.\<close>

datatype depth = Zero | LengthsView "nat list"

definition max_depth :: "algos \<Rightarrow> digraph \<Rightarrow> depth res" where
  "max_depth ax g = (case map (\<lambda>r. map snd (path_lengths ax g r)) (root_nodes g) of
       [] \<Rightarrow> Inr Zero
     | [v] \<Rightarrow> Inr (if v = [] then Zero else LengthsView v)
     | v # w # vs \<Rightarrow> Inl (Exn TypeError (sq ''>'' @ '' not supported between instances of '' @ sq ''dict_values'' @ '' and '' @ sq ''dict_values'')))"

record graph_metrics =
  gm_nodes :: nat
  gm_edges :: nat
  gm_depth :: depth
  gm_parallel :: nat
  gm_critical :: nat
  gm_complexity :: rat
  gm_bottlenecks :: "string list"
  gm_leaves :: "string list"
  gm_roots :: "string list"

definition parallel_opportunities :: "(nat \<times> string list) list \<Rightarrow> nat" where
  "parallel_opportunities lv = sum_list (map (\<lambda>(l, ns). length ns) (filter (\<lambda>(l, ns). 1 < length ns) lv))"

definition get_metrics :: "nx \<Rightarrow> algos \<Rightarrow> analyzer \<Rightarrow> graph_metrics res" where
  "get_metrics nx ax a = (let g = an_graph a in
     res_bind (max_depth ax g) (\<lambda>d.
     res_bind (compute_levels nx ax g) (\<lambda>lv.
     res_bind (critical_path_length nx g) (\<lambda>c.
     res_bind (complexity nx g) (\<lambda>s.
       Inr \<lparr>gm_nodes = length (gnodes g), gm_edges = length (gedges g), gm_depth = d, gm_parallel = parallel_opportunities lv,
         gm_critical = c, gm_complexity = s, gm_bottlenecks = bottlenecks g, gm_leaves = leaf_nodes g, gm_roots = root_nodes g\<rparr>)))))"

section \<open>Impact of a change\<close>

record impact =
  im_node :: string
  im_direct :: "string list"
  im_transitive :: "string list"
  im_levels :: "nat list"
  im_score :: rat

definition impact_score :: "digraph \<Rightarrow> string list \<Rightarrow> rat" where
  "impact_score g ds = of_nat (length ds) * foldl (\<lambda>w d. w + of_nat (out_degree g d) * (1 / 10)) 1 ds"

definition analyze_dependency_impact :: "nx \<Rightarrow> algos \<Rightarrow> analyzer \<Rightarrow> string \<Rightarrow> impact res" where
  "analyze_dependency_impact nx ax a n = (let g = an_graph a in
     if n \<notin> set (gnodes g) then Inl (Exn ValueError (''Node '' @ n @ '' not found in graph''))
     else (let ds = descendants ax g n in
       res_bind (compute_levels nx ax g) (\<lambda>lv.
         Inr \<lparr>im_node = n, im_direct = successors g n, im_transitive = ds,
           im_levels = map fst (filter (\<lambda>(l, ns). list_ex (\<lambda>k. k \<in> set ds \<or> k = n) ns) lv),
           im_score = impact_score g ds\<rparr>)))"

section \<open>Suggestions\<close>

definition strs :: "string list \<Rightarrow> val" where
  "strs xs = VList (map VStr xs)"

text \<open>\<open>_find_sequential_chains\<close> goes through the nodes and returns the empty list.\<close>

definition find_sequential_chains :: "digraph \<Rightarrow> val" where
  "find_sequential_chains g = VList []"

definition suggest_optimizations :: "nx \<Rightarrow> algos \<Rightarrow> analyzer \<Rightarrow> val list res" where
  "suggest_optimizations nx ax a = res_bind (get_metrics nx ax a) (\<lambda>m. Inr (
     (if of_nat (gm_parallel m) < of_nat (gm_nodes m) * (3 / 10 :: rat) then
        [VDict [(''type'', VStr ''parallelization''), (''priority'', VStr ''high''),
          (''description'', VStr ''Consider breaking up sequential chains to enable more parallel execution''),
          (''affected_nodes'', find_sequential_chains (an_graph a))]] else [])
     @ (if gm_bottlenecks m \<noteq> [] then
        [VDict [(''type'', VStr ''bottleneck''), (''priority'', VStr ''medium''),
          (''description'', VStr ''Nodes with high fan-out may cause execution delays''),
          (''affected_nodes'', strs (gm_bottlenecks m))]] else [])
     @ (if 10 < gm_complexity m then
        [VDict [(''type'', VStr ''complexity''), (''priority'', VStr ''low''),
          (''description'', VStr ''Consider breaking down complex workflows into sub-workflows''),
          (''complexity_score'', VFloat (gm_complexity m)), (''affected_nodes'', VList [])]] else [])))"

section \<open>Layout hints\<close>

record hint_style =
  hs_opacity :: rat
  hs_border :: nat
  hs_highlight :: bool
  hs_color :: "string option"

record layout_hint =
  lh_x :: rat
  lh_y :: nat
  lh_level :: nat
  lh_inputs :: "string list"
  lh_outputs :: "string list"
  lh_in :: nat
  lh_out :: nat
  lh_between :: rat
  lh_bottleneck :: bool
  lh_critical :: bool
  lh_style :: "hint_style option"

definition is_on_critical_path :: "nx \<Rightarrow> digraph \<Rightarrow> string \<Rightarrow> bool res" where
  "is_on_critical_path nx g n = (case longest_path nx g (\<lambda>_. None) of
       Inr p \<Rightarrow> Inr (n \<in> set p) | Inl e \<Rightarrow> if is_nx_error e then Inr False else Inl e)"

definition graph_aware_style :: "bool \<Rightarrow> rat \<Rightarrow> bool \<Rightarrow> hint_style" where
  "graph_aware_style critical between bottleneck =
     \<lparr>hs_opacity = max (1 / 2) (min 1 (1 / 2 + between)), hs_border = (if critical then 3 else 1), hs_highlight = critical,
      hs_color = (if bottleneck then Some ''#ff4444'' else None)\<rparr>"

definition layout_hint_of :: "nx \<Rightarrow> analyzer \<Rightarrow> rat dict \<Rightarrow> nat \<Rightarrow> string \<Rightarrow> layout_hint res" where
  "layout_hint_of nx a pos l n = (let g = an_graph a in case dict_get pos n of
       None \<Rightarrow> Inl (Exn KeyError (sq n))
     | Some x \<Rightarrow> res_bind (betweenness nx g) (\<lambda>bc. res_bind (is_on_critical_path nx g n) (\<lambda>crit.
         let b = dict_get_or bc n 0; neck = n \<in> set (bottlenecks g) in
         Inr \<lparr>lh_x = x * 500, lh_y = l * 150, lh_level = l, lh_inputs = predecessors g n, lh_outputs = successors g n,
           lh_in = in_degree g n, lh_out = out_degree g n, lh_between = b, lh_bottleneck = neck, lh_critical = crit,
           lh_style = (if dict_get (an_configs a) n \<noteq> None then Some (graph_aware_style crit b neck) else None)\<rparr>)))"

definition spatial_layout_hints :: "nx \<Rightarrow> algos \<Rightarrow> analyzer \<Rightarrow> layout_hint dict res" where
  "spatial_layout_hints nx ax a = res_bind (compute_levels nx ax (an_graph a)) (\<lambda>lv.
     let pos = spring_layout ax (an_graph a) in
     res_bind (res_map (\<lambda>(l, n). res_bind (layout_hint_of nx a pos l n) (\<lambda>h. Inr (n, h)))
       (concat (map (\<lambda>(l, ns). map (Pair l) ns) lv))) (\<lambda>hs. Inr (dict_union [] hs)))"

section \<open>Patterns and paths\<close>

definition subgraph :: "digraph \<Rightarrow> string list \<Rightarrow> digraph" where
  "subgraph g ns = \<lparr>gnodes = filter (\<lambda>n. n \<in> set ns) (gnodes g), gedges = filter (\<lambda>(u, v). u \<in> set ns \<and> v \<in> set ns) (gedges g)\<rparr>"

definition find_similar_patterns :: "algos \<Rightarrow> analyzer \<Rightarrow> string list \<Rightarrow> string list list res" where
  "find_similar_patterns ax a ps = (let g = an_graph a in
     if length ps < 2 then Inr []
     else res_bind (cliques ax g) (\<lambda>cs. Inr (filter (\<lambda>c. length c = length ps \<and> isomorphic ax (subgraph g ps) (subgraph g c)) cs)))"

definition no_path :: "exn \<Rightarrow> bool" where
  "no_path e \<longleftrightarrow> exn_kind e = OtherError ''NetworkXNoPath''"

definition all_paths :: "algos \<Rightarrow> digraph \<Rightarrow> string list list res" where
  "all_paths ax g = res_bind (res_map (\<lambda>(r, l). case simple_paths ax g r l of
         Inr ps \<Rightarrow> Inr ps | Inl e \<Rightarrow> if no_path e then Inr [] else Inl e)
       (List.product (root_nodes g) (leaf_nodes g))) (\<lambda>pss. Inr (concat pss))"

definition critical_paths :: "string list list \<Rightarrow> string list list" where
  "critical_paths ps = (if ps = [] then [] else filter (\<lambda>p. length p = Max (length ` set ps)) ps)"

definition branch_points :: "digraph \<Rightarrow> string list" where
  "branch_points g = filter (\<lambda>n. 1 < out_degree g n) (gnodes g)"

definition merge_points :: "digraph \<Rightarrow> string list" where
  "merge_points g = filter (\<lambda>n. 1 < in_degree g n) (gnodes g)"

record path_analysis =
  pa_total :: nat
  pa_average :: rat
  pa_longest :: nat
  pa_shortest :: nat
  pa_critical :: "string list list"
  pa_branches :: "string list"
  pa_merges :: "string list"

definition execution_path_analysis :: "algos \<Rightarrow> analyzer \<Rightarrow> path_analysis res" where
  "execution_path_analysis ax a = (let g = an_graph a in res_bind (all_paths ax g) (\<lambda>ps. let ls = map length ps in
     Inr \<lparr>pa_total = length ps, pa_average = (if ls = [] then 0 else of_nat (sum_list ls) / of_nat (length ls)),
       pa_longest = (if ls = [] then 0 else Max (set ls)), pa_shortest = (if ls = [] then 0 else Min (set ls)),
       pa_critical = critical_paths ps, pa_branches = branch_points g, pa_merges = merge_points g\<rparr>))"

section \<open>The methods of a workflow\<close>

definition get_graph_metrics :: "nx \<Rightarrow> algos \<Rightarrow> dep_graph \<Rightarrow> graph_metrics res" where
  "get_graph_metrics nx ax g = get_metrics nx ax (workflow_analyzer g)"

definition analyze_node_impact :: "nx \<Rightarrow> algos \<Rightarrow> dep_graph \<Rightarrow> string \<Rightarrow> impact res" where
  "analyze_node_impact nx ax g n = analyze_dependency_impact nx ax (workflow_analyzer g) n"

definition get_visual_layout_hints :: "nx \<Rightarrow> algos \<Rightarrow> dep_graph \<Rightarrow> layout_hint dict res" where
  "get_visual_layout_hints nx ax g = spatial_layout_hints nx ax (workflow_analyzer g)"

definition get_optimization_suggestions :: "nx \<Rightarrow> algos \<Rightarrow> dep_graph \<Rightarrow> val list res" where
  "get_optimization_suggestions nx ax g = suggest_optimizations nx ax (workflow_analyzer g)"

definition get_path_analysis :: "algos \<Rightarrow> dep_graph \<Rightarrow> path_analysis res" where
  "get_path_analysis ax g = execution_path_analysis ax (workflow_analyzer g)"

definition find_workflow_patterns :: "algos \<Rightarrow> dep_graph \<Rightarrow> string list \<Rightarrow> string list list res" where
  "find_workflow_patterns ax g ps = find_similar_patterns ax (workflow_analyzer g) ps"

section \<open>What the levels are\<close>

definition at_level :: "(nat \<times> string list) list \<Rightarrow> string \<Rightarrow> nat \<Rightarrow> bool" where
  "at_level lv n l \<longleftrightarrow> n \<in> set (dict_get_or lv l [])"

definition one_level :: "(nat \<times> string list) list \<Rightarrow> bool" where
  "one_level lv \<longleftrightarrow> dict_wf lv \<and> (\<forall>n l k. at_level lv n l \<longrightarrow> at_level lv n k \<longrightarrow> l = k)"

lemma at_level_mem: "dict_wf lv \<Longrightarrow> at_level lv n l \<longleftrightarrow> (\<exists>ns. (l, ns) \<in> set lv \<and> n \<in> set ns)"
  by (auto simp: at_level_def dict_get_or_def split: option.splits dest: map_of_SomeD)

lemma pred_level_at:
  assumes "one_level lv" "at_level lv p k"
  shows "pred_level lv p = Inr k"
proof -
  have wf: "dict_wf lv" using assms(1) by (simp add: one_level_def)
  then have ex: "\<exists>x \<in> set lv. p \<in> set (snd x)" using assms(2) by (force simp: at_level_mem)
  then obtain l ns where f: "find (\<lambda>(l, ns). p \<in> set ns) lv = Some (l, ns)"
    by (cases "find (\<lambda>(l, ns). p \<in> set ns) lv") (auto simp: find_None_iff)
  then have "at_level lv p l" using wf by (auto simp: at_level_mem find_Some_iff) (metis nth_mem)
  then show ?thesis using assms f by (auto simp: pred_level_def one_level_def)
qed

lemma max_level_bounds:
  assumes "one_level lv" "\<forall>p \<in> set ps. \<exists>k. at_level lv p k"
  shows "\<exists>r. max_level lv ps l = Inr r \<and> l \<le> r \<and> (\<forall>p \<in> set ps. \<exists>k < r. at_level lv p k)
    \<and> (r = l \<or> (\<exists>p \<in> set ps. \<exists>k. at_level lv p k \<and> r = Suc k))"
  using assms(2)
proof (induction ps arbitrary: l)
  case (Cons p ps)
  obtain k where k: "at_level lv p k" using Cons.prems by auto
  obtain r where r: "max_level lv ps (max l (k + 1)) = Inr r" "max l (k + 1) \<le> r" "\<forall>p \<in> set ps. \<exists>k < r. at_level lv p k"
    "r = max l (k + 1) \<or> (\<exists>p \<in> set ps. \<exists>k. at_level lv p k \<and> r = Suc k)" using Cons by (metis list.set_intros(2))
  have "max_level lv (p # ps) l = Inr r" using pred_level_at[OF assms(1) k] r(1) by simp
  moreover have "k < r" "l \<le> r" using r(2) by simp_all
  moreover have "r = l \<or> r = Suc k \<or> (\<exists>p \<in> set ps. \<exists>k. at_level lv p k \<and> r = Suc k)"
    using r(4) by (auto simp: max_def split: if_splits)
  ultimately show ?case using k r(3) by auto
qed simp

definition layered :: "digraph \<Rightarrow> string set \<Rightarrow> (nat \<times> string list) list \<Rightarrow> bool" where
  "layered g S lv \<longleftrightarrow> one_level lv \<and> (\<forall>n. n \<in> S \<longleftrightarrow> (\<exists>l. at_level lv n l))
     \<and> (\<forall>n l. at_level lv n l \<longrightarrow> (\<forall>p \<in> set (predecessors g n). \<exists>k < l. at_level lv p k)
          \<and> (l = 0 \<or> (\<exists>p \<in> set (predecessors g n). at_level lv p (l - 1))))"

lemma place_append: "place_nodes g (xs @ ys) lv = res_bind (place_nodes g xs lv) (place_nodes g ys)"
proof (induction xs arbitrary: lv)
  case (Cons x xs)
  then show ?case by (cases "max_level lv (predecessors g x) 0") simp_all
qed simp

lemma at_level_add: "at_level (dict_set l (dict_get_or lv l [] @ [x]) lv) n k \<longleftrightarrow> at_level lv n k \<or> (n = x \<and> k = l)"
  by (cases "k = l") (auto simp: at_level_def dict_get_or_def)

lemma layered_add:
  assumes "layered g S lv" "x \<notin> S" "\<forall>p \<in> set (predecessors g x). \<exists>k < l. at_level lv p k"
    and "l = 0 \<or> (\<exists>p \<in> set (predecessors g x). at_level lv p (l - 1))"
  shows "layered g (insert x S) (dict_set l (dict_get_or lv l [] @ [x]) lv)"
proof -
  have no: "\<not> at_level lv x k" for k using assms(1,2) by (auto simp: layered_def)
  have one: "one_level (dict_set l (dict_get_or lv l [] @ [x]) lv)"
    using assms(1) no unfolding layered_def one_level_def at_level_add by blast
  have "(\<forall>p \<in> set (predecessors g n). \<exists>k < m. at_level lv p k \<or> (p = x \<and> k = l))
      \<and> (m = 0 \<or> (\<exists>p \<in> set (predecessors g n). at_level lv p (m - 1) \<or> (p = x \<and> m - 1 = l)))"
    if "at_level lv n m \<or> (n = x \<and> m = l)" for n m
    using that assms(1,3,4) unfolding layered_def by blast
  moreover have "n \<in> insert x S \<longleftrightarrow> (\<exists>m. at_level lv n m \<or> (n = x \<and> m = l))" for n
    using assms(1) unfolding layered_def by blast
  ultimately show ?thesis using one unfolding layered_def at_level_add by blast
qed

lemma predecessors_set: "u \<in> set (predecessors g v) \<longleftrightarrow> (u, v) \<in> set (gedges g)"
  by (force simp: predecessors_def)

lemma successors_set: "v \<in> set (successors g u) \<longleftrightarrow> (u, v) \<in> set (gedges g)"
  by (force simp: successors_def)

lemma place_layered:
  assumes "topo_order (set (gedges g)) order"
  shows "\<exists>lv. place_nodes g order [] = Inr lv \<and> layered g (set order) lv"
  using assms
proof (induction order rule: rev_induct)
  case Nil
  then show ?case by (simp add: layered_def one_level_def at_level_def dict_get_or_def)
next
  case (snoc x xs)
  have "topo_order (set (gedges g)) xs" using snoc.prems unfolding topo_order_def by (auto simp: nth_append)
  then obtain lv where lv: "place_nodes g xs [] = Inr lv" "layered g (set xs) lv" using snoc.IH by blast
  have x: "x \<notin> set xs" using snoc.prems by (simp add: topo_order_def)
  have "\<forall>p. (p, x) \<in> set (gedges g) \<longrightarrow> p \<in> set xs"
    using snoc.prems unfolding topo_order_def by (auto dest!: spec[of _ "length xs"])
  then have "\<forall>p \<in> set (predecessors g x). \<exists>k. at_level lv p k"
    using lv(2) by (auto simp: predecessors_set layered_def)
  then obtain r where r: "max_level lv (predecessors g x) 0 = Inr r" "\<forall>p \<in> set (predecessors g x). \<exists>k < r. at_level lv p k"
    "r = 0 \<or> (\<exists>p \<in> set (predecessors g x). \<exists>k. at_level lv p k \<and> r = Suc k)"
    using max_level_bounds[of lv "predecessors g x" 0] lv(2) by (auto simp: layered_def)
  have "layered g (insert x (set xs)) (dict_set r (dict_get_or lv r [] @ [x]) lv)"
    by (rule layered_add[OF lv(2) x r(2)]) (use r(3) in auto)
  then show ?case using lv(1) r(1) by (simp add: place_append)
qed

lemma compute_levels_dag:
  assumes "topo_ok nx g" "acyclic (set (gedges g))"
  shows "\<exists>lv. compute_levels nx ax g = Inr lv \<and> layered g (set (gnodes g)) lv"
proof -
  obtain order where o: "topological_sort nx g = (order, False)" "set order = set (gnodes g)" "topo_order (set (gedges g)) order"
    using assms by (cases "topological_sort nx g") (auto simp: topo_ok_def)
  obtain lv where "place_nodes g order [] = Inr lv" "layered g (set order) lv" using place_layered[OF o(3)] by blast
  then show ?thesis using o by (simp add: compute_levels_def)
qed

lemma layered_levels:
  assumes "layered g S lv" "at_level lv n l" "\<And>k. k \<in> S \<Longrightarrow> level_eq lev k (ds k) \<and> set (ds k) = set (predecessors g k)"
  shows "dict_get lev n = Some (int l)"
  using assms(2)
proof (induction l arbitrary: n rule: less_induct)
  case (less l)
  have n: "n \<in> S" "\<forall>p \<in> set (predecessors g n). \<exists>k < l. at_level lv p k"
    "l = 0 \<or> (\<exists>p \<in> set (predecessors g n). at_level lv p (l - 1))" using assms(1) less.prems unfolding layered_def by blast+
  note eq = assms(3)[OF n(1)]
  have preds: "\<exists>k < l. dict_get_or lev p 0 = int k" if "p \<in> set (predecessors g n)" for p
    using n(2) that less.IH by (force simp: dict_get_or_def)
  show ?case
  proof (cases "l = 0")
    case True
    then have "ds n = []" using n(2) eq by auto
    then show ?thesis using eq True by (simp add: level_eq_def)
  next
    case False
    then obtain p where p: "p \<in> set (predecessors g n)" "at_level lv p (l - 1)" using n(3) by blast
    then have "dict_get_or lev p 0 = int (l - 1)" using less.IH[of "l - 1" p] False by (simp add: dict_get_or_def)
    moreover have "\<forall>q \<in> set (predecessors g n). dict_get_or lev q 0 \<le> int (l - 1)" using preds False by fastforce
    ultimately have "Max ((\<lambda>d. dict_get_or lev d 0) ` set (ds n)) = int (l - 1)"
      using eq p(1) by (intro Max_eqI) (auto intro: rev_image_eqI)
    moreover have "ds n \<noteq> []" using eq p(1) by auto
    ultimately show ?thesis using eq False by (simp add: level_eq_def)
  qed
qed

lemma acyclic_no_cut:
  assumes "paths_ok nx" "graph_wf g" "acyclic (set (gedges g))" "(u, v) \<in> set (cut_edges nx nodes g)"
  shows False
  using cut_graph_facts(4)[OF assms(1,2,4)] cut_graph_facts(2)[OF assms(1,2)] assms(3,4)
  by (auto simp: acyclic_def dest: rtrancl_into_trancl1)

lemma engine_levels:
  assumes "dep_graph_new nx nodes = Inr g" "distinct (map node_id nodes)" "acyclic (dep_edges nodes)"
    and "paths_ok nx" "cycles_ok nx (graph g)" "topo_ok nx (cut_graph nx nodes (graph g))" "topo_ok nx (graph g)"
  obtains lv where "compute_levels nx ax (graph g) = Inr lv" "layered (graph g) (node_id ` set nodes) lv"
    "\<forall>n \<in> set nodes. \<forall>l. at_level lv (node_id n) l \<longleftrightarrow> dict_get (node_levels g) (node_id n) = Some (int l)"
proof -
  note bg = base_graph_facts[OF conjunct1[OF dep_graph_new_cases[OF assms(1)]]]
  obtain lv where lv: "compute_levels nx ax (graph g) = Inr lv" "layered (graph g) (node_id ` set nodes) lv"
    using compute_levels_dag[OF assms(7)] assms(3) bg by metis
  have "level_eq (node_levels g) k (node_deps (the (dict_get (node_map nodes) k)))
      \<and> set (node_deps (the (dict_get (node_map nodes) k))) = set (predecessors (graph g) k)" if k: "k \<in> node_id ` set nodes" for k
  proof -
    obtain n where n: "n \<in> set nodes" "k = node_id n" using k by auto
    have m: "the (dict_get (node_map nodes) k) = n" using node_map_get[OF assms(2) n(1)] n(2) by simp
    have "filter (\<lambda>d. (d, node_id n) \<notin> set (cut_edges nx nodes (graph g))) (node_deps n) = node_deps n"
      using acyclic_no_cut[OF assms(4) bg(1)] assms(3) bg(3) by (intro filter_True) auto
    then have "level_eq (node_levels g) (node_id n) (node_deps n)"
      using built_levels(1)[OF assms(1,2) n(1) assms(4,5,6)] by simp
    moreover have "set (node_deps n) = set (predecessors (graph g) k)"
      using n assms(2) bg(3) by (fastforce simp: predecessors_set dep_edges_def distinct_map inj_on_def)
    ultimately show ?thesis using m n(2) by simp
  qed
  note eq = this
  have lev: "dict_get (node_levels g) k = Some (int l)" if "at_level lv k l" for k l
    by (rule layered_levels[OF lv(2) that]) (rule eq)
  then have "\<forall>n \<in> set nodes. \<forall>l. at_level lv (node_id n) l \<longleftrightarrow> dict_get (node_levels g) (node_id n) = Some (int l)"
    using lv(2) unfolding layered_def by (metis imageI of_nat_eq_iff option.inject)
  with lv that show thesis by blast
qed

text \<open>The levels of the analyzer are those the engine runs: on a workflow without cycles, the level computed
  from the topological order of the graph is the level that the dependency graph assigned.\<close>

theorem analyzer_levels_agree:
  assumes "dep_graph_new nx nodes = Inr g" "distinct (map node_id nodes)" "acyclic (dep_edges nodes)"
    and "paths_ok nx" "cycles_ok nx (graph g)" "topo_ok nx (cut_graph nx nodes (graph g))" "topo_ok nx (graph g)"
  shows "\<exists>lv. compute_levels nx ax (an_graph (workflow_analyzer g)) = Inr lv
    \<and> (\<forall>n \<in> set nodes. \<forall>l. node_id n \<in> set (dict_get_or lv l []) \<longleftrightarrow> dict_get (node_levels g) (node_id n) = Some (int l))"
  using engine_levels[OF assms, of ax] unfolding workflow_analyzer_def at_level_def by (metis analyzer.select_convs(1))

section \<open>Metrics\<close>

definition path_in :: "digraph \<Rightarrow> string list \<Rightarrow> bool" where
  "path_in g p \<longleftrightarrow> set p \<subseteq> set (gnodes g) \<and> successively (\<lambda>u v. (u, v) \<in> set (gedges g)) p"

text \<open>\<open>dag_longest_path\<close> as documented, every edge counting 1.\<close>

definition longest_ok :: "nx \<Rightarrow> digraph \<Rightarrow> bool" where
  "longest_ok nx g \<longleftrightarrow> (acyclic (set (gedges g)) \<longrightarrow> (\<exists>p. longest_path nx g (\<lambda>_. None) = Inr p \<and> path_in g p
     \<and> (\<forall>q. path_in g q \<longrightarrow> length q \<le> length p)))"

lemma level_path:
  assumes "layered g S lv" "S = set (gnodes g)" "at_level lv n l"
  shows "\<exists>p. path_in g (p @ [n]) \<and> length p = l"
  using assms(3)
proof (induction l arbitrary: n)
  case 0
  then show ?case using assms(1,2) by (intro exI[of _ "[]"]) (auto simp: path_in_def layered_def)
next
  case (Suc l)
  then have n: "n \<in> S" using assms(1) by (auto simp: layered_def)
  have "Suc l = 0 \<or> (\<exists>p \<in> set (predecessors g n). at_level lv p (Suc l - 1))"
    using assms(1) Suc.prems unfolding layered_def by blast
  then obtain m where m: "(m, n) \<in> set (gedges g)" "at_level lv m l" by (auto simp: predecessors_set)
  then obtain p where "path_in g (p @ [m])" "length p = l" using Suc.IH by blast
  then show ?case using m(1) n assms(2) by (intro exI[of _ "p @ [m]"]) (auto simp: path_in_def successively_append_iff)
qed

lemma path_level:
  assumes "layered g S lv" "S = set (gnodes g)" "path_in g (p @ [n])"
  shows "\<exists>l \<ge> length p. at_level lv n l"
  using assms(3)
proof (induction p arbitrary: n rule: rev_induct)
  case Nil
  then show ?case using assms(1,2) by (auto simp: path_in_def layered_def)
next
  case (snoc m p)
  then obtain k where k: "length p \<le> k" "at_level lv m k" by (auto simp: path_in_def successively_append_iff)
  have e: "m \<in> set (predecessors g n)" and n: "n \<in> S"
    using snoc.prems assms(2) by (auto simp: path_in_def successively_append_iff predecessors_set)
  then obtain l where l: "at_level lv n l" using assms(1) by (auto simp: layered_def)
  then obtain k' where "k' < l" "at_level lv m k'" using assms(1) e unfolding layered_def by blast
  then have "k < l" using assms(1) k(2) unfolding layered_def one_level_def by metis
  then show ?case using l k(1) by (intro exI[of _ l]) simp
qed

lemma critical_is_last_level:
  assumes "layered g (set (gnodes g)) lv" "longest_ok nx g" "acyclic (set (gedges g))"
  shows "\<exists>c. critical_path_length nx g = Inr c \<and> (\<forall>n l. at_level lv n l \<longrightarrow> l \<le> c) \<and> (gnodes g \<noteq> [] \<longrightarrow> (\<exists>n. at_level lv n c))"
proof -
  obtain p where p: "longest_path nx g (\<lambda>_. None) = Inr p" "path_in g p" "\<forall>q. path_in g q \<longrightarrow> length q \<le> length p"
    using assms(2,3) by (auto simp: longest_ok_def)
  have le: "l \<le> length p - 1" if "at_level lv n l" for n l
    using level_path[OF assms(1) refl that] p(3) by fastforce
  have "\<exists>n. at_level lv n (length p - 1)" if "gnodes g \<noteq> []"
  proof -
    have "path_in g [hd (gnodes g)]" using that by (simp add: path_in_def)
    then have "p \<noteq> []" using p(3) by fastforce
    then have "path_in g (butlast p @ [last p])" using p(2) by simp
    then obtain l where "length p - 1 \<le> l" "at_level lv (last p) l" using path_level[OF assms(1) refl] by fastforce
    then show ?thesis using le by (metis le_antisym)
  qed
  then show ?thesis using p(1) le by (auto simp: critical_path_length_def)
qed

lemma metrics_outcome:
  assumes "dep_graph_new nx nodes = Inr g" "distinct (map node_id nodes)" "acyclic (dep_edges nodes)"
    and "paths_ok nx" "cycles_ok nx (graph g)" "topo_ok nx (cut_graph nx nodes (graph g))" "topo_ok nx (graph g)" "longest_ok nx (graph g)"
  shows "if 1 < length (root_nodes (graph g)) then \<exists>m. get_graph_metrics nx ax g = Inl (Exn TypeError m)
    else \<exists>m. get_graph_metrics nx ax g = Inr m \<and> (\<forall>n \<in> set nodes. dict_get_or (node_levels g) (node_id n) 0 \<le> int (gm_critical m))
      \<and> (nodes \<noteq> [] \<longrightarrow> (\<exists>n \<in> set nodes. dict_get (node_levels g) (node_id n) = Some (int (gm_critical m))))"
proof (cases "1 < length (root_nodes (graph g))")
  case True
  then obtain r s rs where "root_nodes (graph g) = r # s # rs" by (cases "root_nodes (graph g)" rule: list.exhaust[case_product list.exhaust[of "tl (root_nodes (graph g))"]]) auto
  then show ?thesis using True by (simp add: get_graph_metrics_def get_metrics_def workflow_analyzer_def max_depth_def)
next
  case False
  note bg = base_graph_facts[OF conjunct1[OF dep_graph_new_cases[OF assms(1)]]]
  obtain lv where lv: "compute_levels nx ax (graph g) = Inr lv" "layered (graph g) (node_id ` set nodes) lv"
    "\<forall>n \<in> set nodes. \<forall>l. at_level lv (node_id n) l \<longleftrightarrow> dict_get (node_levels g) (node_id n) = Some (int l)"
    by (rule engine_levels[OF assms(1-7)])
  obtain c where c: "critical_path_length nx (graph g) = Inr c" "\<forall>n l. at_level lv n l \<longrightarrow> l \<le> c"
    "gnodes (graph g) \<noteq> [] \<longrightarrow> (\<exists>n. at_level lv n c)"
    using critical_is_last_level[of "graph g" lv nx] lv(2) assms(3,8) bg by auto
  obtain d where d: "max_depth ax (graph g) = Inr d"
    using False by (cases "root_nodes (graph g)" rule: list.exhaust[case_product list.exhaust[of "tl (root_nodes (graph g))"]]) (auto simp: max_depth_def)
  obtain s where s: "complexity nx (graph g) = Inr s"
    by (cases "gnodes (graph g) = []") (simp_all add: complexity_def Let_def c(1))
  obtain m where m: "get_graph_metrics nx ax g = Inr m" "gm_critical m = c"
    using lv(1) c(1) d s by (simp add: get_graph_metrics_def get_metrics_def workflow_analyzer_def Let_def)
  have "dict_get_or (node_levels g) (node_id n) 0 \<le> int c" if n: "n \<in> set nodes" for n
  proof -
    obtain l where "at_level lv (node_id n) l" using lv(2) n unfolding layered_def by blast
    then show ?thesis using lv(3) c(2) n by (force simp: dict_get_or_def)
  qed
  moreover have "\<exists>n \<in> set nodes. dict_get (node_levels g) (node_id n) = Some (int c)" if "nodes \<noteq> []"
  proof -
    have "gnodes (graph g) \<noteq> []" using that bg(2) by auto
    then obtain k where k: "at_level lv k c" using c(3) by blast
    then have "k \<in> node_id ` set nodes" using lv(2) by (auto simp: layered_def)
    then show ?thesis using lv(3) k by auto
  qed
  ultimately show ?thesis using False m by auto
qed

text \<open>The metrics of a workflow without cycles exist exactly when it has at most one root. Then the length
  of the critical path is the number of the last level that the engine runs. With two roots the maximum of two
  views raises a \<open>TypeError\<close>.\<close>

theorem metrics_need_one_root:
  assumes "dep_graph_new nx nodes = Inr g" "distinct (map node_id nodes)" "acyclic (dep_edges nodes)"
    and "paths_ok nx" "cycles_ok nx (graph g)" "topo_ok nx (cut_graph nx nodes (graph g))" "topo_ok nx (graph g)" "longest_ok nx (graph g)"
  shows "if 1 < length (root_nodes (graph g)) then \<exists>m. get_graph_metrics nx ax g = Inl (Exn TypeError m)
    else \<exists>m. get_graph_metrics nx ax g = Inr m \<and> (\<forall>n \<in> set nodes. dict_get_or (node_levels g) (node_id n) 0 \<le> int (gm_critical m))
      \<and> (nodes \<noteq> [] \<longrightarrow> (\<exists>n \<in> set nodes. dict_get (node_levels g) (node_id n) = Some (int (gm_critical m))))"
  by (rule metrics_outcome [OF assms])

section \<open>Impact\<close>

text \<open>\<open>descendants\<close> as documented, the elements of a set in some order.\<close>

definition descendants_ok :: "algos \<Rightarrow> digraph \<Rightarrow> bool" where
  "descendants_ok ax g \<longleftrightarrow> (\<forall>n \<in> set (gnodes g). distinct (descendants ax g n)
     \<and> set (descendants ax g n) = {m. m \<noteq> n \<and> (n, m) \<in> (set (gedges g))\<^sup>+})"

lemma impact_weight: "foldl (\<lambda>w d. w + of_nat (f d) * (1 / 10)) (c :: rat) ds = c + of_nat (sum_list (map f ds)) * (1 / 10)"
  by (induction ds arbitrary: c) (simp_all add: algebra_simps)

lemma impact_score_less:
  assumes "distinct ds" "distinct es" "set ds \<subset> set es"
  shows "impact_score g ds < impact_score g es"
proof -
  let ?w = "\<lambda>xs. 1 + of_nat (sum_list (map (out_degree g) xs)) * (1 / 10) :: rat"
  have len: "length ds < length es" using assms by (metis psubset_card_mono distinct_card List.finite_set)
  have "sum (out_degree g) (set ds) \<le> sum (out_degree g) (set es)" using assms(3) by (intro sum_mono2) auto
  then have "sum_list (map (out_degree g) ds) \<le> sum_list (map (out_degree g) es)"
    using assms(1,2) by (simp add: sum_list_distinct_conv_sum_set)
  then have "?w ds \<le> ?w es" by simp
  moreover have "0 < ?w es" by (simp add: add_pos_nonneg)
  ultimately have "of_nat (length ds) * ?w ds < of_nat (length es) * ?w es"
    using len by (meson less_le_trans mult_left_mono mult_strict_right_mono of_nat_0_le_iff of_nat_less_iff le_less_trans)
  then show ?thesis by (simp only: impact_score_def impact_weight)
qed

text \<open>Impact decreases along dependencies: a change of a node affects all that a change of a node after it affects
  and has a greater score, and the levels it affects are those of the node and of all nodes that depend on it.\<close>

theorem impact_decreases_downstream:
  assumes "dep_graph_new nx nodes = Inr g" "acyclic (dep_edges nodes)" "topo_ok nx (graph g)" "descendants_ok ax (graph g)"
    and "(n, k) \<in> (dep_edges nodes)\<^sup>+"
  shows "\<exists>i j. analyze_node_impact nx ax g n = Inr i \<and> analyze_node_impact nx ax g k = Inr j \<and> im_score j < im_score i
    \<and> set (im_transitive j) \<subset> set (im_transitive i) \<and> set (im_levels j) \<subseteq> set (im_levels i)"
proof -
  note bg = base_graph_facts[OF conjunct1[OF dep_graph_new_cases[OF assms(1)]]]
  have mem: "n \<in> set (gnodes (graph g))" "k \<in> set (gnodes (graph g))"
  proof -
    have "fst ` dep_edges nodes \<subseteq> set (gnodes (graph g))" "snd ` dep_edges nodes \<subseteq> set (gnodes (graph g))"
      using bg(1,3) by (simp_all add: graph_wf_def)
    then show "n \<in> set (gnodes (graph g))" "k \<in> set (gnodes (graph g))"
      using tranclD[OF assms(5)] tranclD2[OF assms(5)] by auto
  qed
  obtain lv where lv: "compute_levels nx ax (graph g) = Inr lv" using compute_levels_dag[OF assms(3)] assms(2) bg(3) by metis
  have irr: "(x, x) \<notin> (dep_edges nodes)\<^sup>+" for x using assms(2) by (simp add: acyclic_def)
  have sub: "set (descendants ax (graph g) k) \<subset> set (descendants ax (graph g) n)" and k: "k \<in> set (descendants ax (graph g) n)"
  proof -
    have d: "set (descendants ax (graph g) x) = {m. (x, m) \<in> (dep_edges nodes)\<^sup>+}" if "x \<in> set (gnodes (graph g))" for x
      using assms(4) that bg(3) irr unfolding descendants_ok_def by auto
    show "k \<in> set (descendants ax (graph g) n)" using d[OF mem(1)] assms(5) by simp
    have "{m. (k, m) \<in> (dep_edges nodes)\<^sup>+} \<subset> {m. (n, m) \<in> (dep_edges nodes)\<^sup>+}"
      using assms(5) irr by (blast intro: trancl_trans)
    then show "set (descendants ax (graph g) k) \<subset> set (descendants ax (graph g) n)" using d[OF mem(1)] d[OF mem(2)] by simp
  qed
  have "impact_score (graph g) (descendants ax (graph g) k) < impact_score (graph g) (descendants ax (graph g) n)"
    using assms(4) mem sub by (intro impact_score_less) (auto simp: descendants_ok_def)
  moreover have "set (map fst (filter (\<lambda>(l, ns). list_ex (\<lambda>m. m \<in> set (descendants ax (graph g) k) \<or> m = k) ns) lv))
      \<subseteq> set (map fst (filter (\<lambda>(l, ns). list_ex (\<lambda>m. m \<in> set (descendants ax (graph g) n) \<or> m = n) ns) lv))"
    using sub k by (force simp: list_ex_iff)
  ultimately show ?thesis using mem lv sub
    by (simp add: analyze_node_impact_def analyze_dependency_impact_def workflow_analyzer_def Let_def)
qed

section \<open>Workflows with cycles\<close>

text \<open>\<open>topological_sort\<close> as documented: it raises on a cycle, after nodes whose predecessors came before them.\<close>

definition topo_raises :: "nx \<Rightarrow> digraph \<Rightarrow> bool" where
  "topo_raises nx g \<longleftrightarrow> topo_order (set (gedges g)) (fst (topological_sort nx g))
     \<and> (\<not> acyclic (set (gedges g)) \<longrightarrow> snd (topological_sort nx g))"

text \<open>A workflow that may loop has no analysis: the fallback for cycles handles \<open>NetworkXError\<close>, which is not what
  the sort raises, so levels, impact, layout hints, metrics and suggestions are all exceptions.\<close>

theorem cyclic_workflow_has_no_analysis:
  assumes "dep_graph_new nx nodes = Inr g" "\<not> acyclic (dep_edges nodes)" "topo_raises nx (graph g)" "n \<in> set nodes"
  shows "compute_levels nx ax (graph g) = Inl (unfeasible ax) \<and> analyze_node_impact nx ax g (node_id n) = Inl (unfeasible ax)
    \<and> get_visual_layout_hints nx ax g = Inl (unfeasible ax)
    \<and> (\<exists>e. get_graph_metrics nx ax g = Inl e \<and> get_optimization_suggestions nx ax g = Inl e)"
proof -
  note bg = base_graph_facts[OF conjunct1[OF dep_graph_new_cases[OF assms(1)]]]
  obtain order where o: "topological_sort nx (graph g) = (order, True)" "topo_order (set (gedges (graph g))) order"
    using assms(2,3) bg(3) by (cases "topological_sort nx (graph g)") (auto simp: topo_raises_def)
  obtain lv where "place_nodes (graph g) order [] = Inr lv" using place_layered[OF o(2)] by blast
  then have lv: "compute_levels nx ax (graph g) = Inl (unfeasible ax)"
    using o(1) by (simp add: compute_levels_def is_nx_error_def unfeasible_def)
  obtain e where e: "get_graph_metrics nx ax g = Inl e"
    using lv by (cases "max_depth ax (graph g)") (auto simp: get_graph_metrics_def get_metrics_def workflow_analyzer_def)
  then have "get_optimization_suggestions nx ax g = Inl e"
    by (simp add: get_optimization_suggestions_def suggest_optimizations_def get_graph_metrics_def)
  then show ?thesis using lv e assms(4) bg(2)
    by (auto simp: analyze_node_impact_def analyze_dependency_impact_def get_visual_layout_hints_def spatial_layout_hints_def workflow_analyzer_def)
qed

section \<open>Instances\<close>

definition plain_algos :: algos where
  "plain_algos = \<lparr>path_lengths = (\<lambda>g r. [(''a'', 0), (''b'', 1)]), descendants = (\<lambda>g n. if n = ''a'' then [''b''] else []),
     spring_layout = (\<lambda>g. []), simple_paths = (\<lambda>g r l. Inr []), cliques = (\<lambda>g. Inl (Exn (OtherError ''NetworkXNotImplemented'') '''')),
     isomorphic = (\<lambda>g h. False), cycle_message = ''Graph contains a cycle.''\<rparr>"

lemma chain_graph_built:
  obtains g where "dep_graph_new chain_nx demo_chain = Inr g" "graph g = \<lparr>gnodes = [''a'', ''b''], gedges = [(''a'', ''b'')]\<rparr>"
    "cycles_ok chain_nx (graph g)" "topo_ok chain_nx (cut_graph chain_nx demo_chain (graph g))" "topo_ok chain_nx (graph g)"
    "acyclic (dep_edges demo_chain)" "paths_ok chain_nx" "distinct (map node_id demo_chain)" "dep_edges demo_chain = {(''a'', ''b'')}"
proof -
  note defs = demo_chain_def chain_nx_def node_id_def node_deps_def default_base_def
  have "\<exists>dg. base_graph chain_nx demo_chain dg"
    using add_nodes_ok[of "node_map demo_chain" "map node_id demo_chain" demo_chain empty_graph]
    by (auto simp: base_graph_def deps_known_def defs)
  then obtain g where g: "dep_graph_new chain_nx demo_chain = Inr g"
    using dep_graph_new_ok[of chain_nx demo_chain] by (auto simp: check_cycles_def chain_nx_def)
  have b: "base_graph chain_nx demo_chain (graph g)" using dep_graph_new_cases[OF g] by blast
  have eq: "graph g = \<lparr>gnodes = [''a'', ''b''], gedges = [(''a'', ''b'')]\<rparr>"
    using b by (auto simp: base_graph_def defs empty_graph_def add_node_def add_edge_def insert_new_def)
  have norec: "recursive_ids demo_chain = {}" by (simp add: recursive_ids_def defs node_type_of_def)
  have same: "cut_graph chain_nx demo_chain (graph g) = graph g" by (simp add: cut_graph_def eq edges_of_def norec)
  have ac: "acyclic {(''a'', ''b'')}" by (simp add: wf_acyclic)
  then have cyc: "cycles_ok chain_nx (graph g)"
    using cycle_acyclic[of "{(''a'', ''b'')}"] by (auto simp: cycles_ok_def eq chain_nx_def)
  have topo: "topo_ok chain_nx (graph g)" by (auto simp: topo_ok_def topo_order_def chain_nx_def eq less_Suc_eq)
  have edges: "dep_edges demo_chain = {(''a'', ''b'')}" by (auto simp: defs)
  show thesis
    by (rule that[OF g eq cyc]) (use topo same ac edges in \<open>simp_all add: paths_ok_def chain_nx_def demo_chain_def node_id_def default_base_def\<close>)
qed

theorem analyzer_levels_agree_witness:
  "\<exists>g lv. dep_graph_new chain_nx demo_chain = Inr g \<and> compute_levels chain_nx plain_algos (graph g) = Inr lv
    \<and> ''b'' \<in> set (dict_get_or lv 1 []) \<and> dict_get (node_levels g) ''b'' = Some 1"
proof (rule chain_graph_built)
  fix g assume g: "dep_graph_new chain_nx demo_chain = Inr g" "graph g = \<lparr>gnodes = [''a'', ''b''], gedges = [(''a'', ''b'')]\<rparr>"
    "cycles_ok chain_nx (graph g)" "topo_ok chain_nx (cut_graph chain_nx demo_chain (graph g))" "topo_ok chain_nx (graph g)"
    "acyclic (dep_edges demo_chain)" "paths_ok chain_nx" "distinct (map node_id demo_chain)"
  have lv: "compute_levels chain_nx plain_algos (graph g) = Inr [(0, [''a'']), (1, [''b''])]"
    by (simp add: compute_levels_def chain_nx_def g(2) predecessors_def pred_level_def dict_get_or_def)
  have b: "demo_chain ! 1 \<in> set demo_chain" "node_id (demo_chain ! 1) = ''b''" by (simp_all add: demo_chain_def node_id_def default_base_def)
  obtain lv' where lv': "compute_levels chain_nx plain_algos (graph g) = Inr lv'"
    "\<forall>n \<in> set demo_chain. \<forall>l. node_id n \<in> set (dict_get_or lv' l []) \<longleftrightarrow> dict_get (node_levels g) (node_id n) = Some (int l)"
    using analyzer_levels_agree [OF g(1,8,6,7,3,4,5), of plain_algos] unfolding workflow_analyzer_def analyzer.select_convs by blast
  have "lv' = [(0, [''a'']), (1, [''b''])]" using lv lv'(1) by simp
  then have "dict_get (node_levels g) ''b'' = Some 1"
    using spec[OF bspec[OF lv'(2) b(1)], of 1] b(2) by (simp add: dict_get_or_def)
  moreover have "''b'' \<in> set (dict_get_or [(0, [''a'']), (1, [''b''])] (1 :: nat) [])" by (simp add: dict_get_or_def)
  ultimately show ?thesis using g(1) lv by blast
qed

lemma chain_longest:
  assumes "graph g = \<lparr>gnodes = [''a'', ''b''], gedges = [(''a'', ''b'')]\<rparr>"
  shows "longest_ok chain_nx (graph g)"
proof -
  have short: "length q \<le> 2" if q: "path_in (graph g) q" for q
  proof (rule ccontr)
    assume "\<not> length q \<le> 2"
    then obtain x y z r where "q = x # y # z # r" by (cases q rule: list.exhaust; cases "tl q"; cases "tl (tl q)") auto
    then show False using q assms by (auto simp: path_in_def)
  qed
  show ?thesis
    unfolding longest_ok_def by (intro impI exI[of _ "[''a'', ''b'']"]) (use short in \<open>auto simp: chain_nx_def path_in_def assms numeral_2_eq_2\<close>)
qed

theorem metrics_need_one_root_witness:
  "\<exists>g m. dep_graph_new chain_nx demo_chain = Inr g \<and> get_graph_metrics chain_nx plain_algos g = Inr m \<and> gm_critical m = 1"
proof (rule chain_graph_built)
  fix g assume g: "dep_graph_new chain_nx demo_chain = Inr g" "graph g = \<lparr>gnodes = [''a'', ''b''], gedges = [(''a'', ''b'')]\<rparr>"
    "cycles_ok chain_nx (graph g)" "topo_ok chain_nx (cut_graph chain_nx demo_chain (graph g))" "topo_ok chain_nx (graph g)"
    "acyclic (dep_edges demo_chain)" "paths_ok chain_nx" "distinct (map node_id demo_chain)"
  from metrics_need_one_root [OF g(1,8,6,7,3,4,5) chain_longest[OF g(2)], of plain_algos] g(1,2)
  show ?thesis
    by (auto simp: root_nodes_def in_degree_def predecessors_def get_graph_metrics_def get_metrics_def Let_def res_bind_Inr_iff
        critical_path_length_def chain_nx_def workflow_analyzer_def)
qed

theorem impact_decreases_downstream_witness:
  "\<exists>g i j. dep_graph_new chain_nx demo_chain = Inr g \<and> analyze_node_impact chain_nx plain_algos g ''a'' = Inr i
    \<and> analyze_node_impact chain_nx plain_algos g ''b'' = Inr j \<and> im_score j < im_score i"
proof (rule chain_graph_built)
  fix g assume g: "dep_graph_new chain_nx demo_chain = Inr g" "graph g = \<lparr>gnodes = [''a'', ''b''], gedges = [(''a'', ''b'')]\<rparr>"
    "cycles_ok chain_nx (graph g)" "topo_ok chain_nx (cut_graph chain_nx demo_chain (graph g))" "topo_ok chain_nx (graph g)"
    "acyclic (dep_edges demo_chain)" "paths_ok chain_nx" "distinct (map node_id demo_chain)" "dep_edges demo_chain = {(''a'', ''b'')}"
  have "(x, m) \<in> {(''a'', ''b'')}\<^sup>+ \<longleftrightarrow> x = ''a'' \<and> m = ''b''" for x m
    by (auto elim: trancl.cases dest: tranclD tranclD2)
  then have "descendants_ok plain_algos (graph g)" by (auto simp: descendants_ok_def g(2) plain_algos_def)
  from impact_decreases_downstream [OF g(1,6,5) this, of "''a''" "''b''"] g(1,9)
  show ?thesis by auto
qed

definition loop_nx :: nx where
  "loop_nx = demo_nx\<lparr>topological_sort := (\<lambda>g. if acyclic (set (gedges g)) then ([''r'', ''a''], False) else ([], True))\<rparr>"

theorem cyclic_workflow_has_no_analysis_witness:
  "\<exists>g. dep_graph_new loop_nx demo_nodes = Inr g \<and> get_visual_layout_hints loop_nx plain_algos g = Inl (unfeasible plain_algos)"
proof -
  have "\<exists>dg. base_graph loop_nx demo_nodes dg"
    using add_nodes_ok[of "node_map demo_nodes" "map node_id demo_nodes" demo_nodes empty_graph]
    by (auto simp: base_graph_def deps_known_def demo_nodes_def node_deps_def node_id_def default_base_def)
  moreover have "check_cycles loop_nx demo_nodes dg = Inr ()" for dg
    using demo_valid[of dg] by (simp add: check_cycles_def loop_nx_def)
  ultimately obtain g where g: "dep_graph_new loop_nx demo_nodes = Inr g" using dep_graph_new_ok by blast
  have cyc: "\<not> acyclic (dep_edges demo_nodes)"
    unfolding demo_edges acyclic_def by (meson insertI1 insertI2 r_into_trancl trancl_trans)
  then have "topo_raises loop_nx (graph g)"
    using base_graph_facts(3)[OF conjunct1[OF dep_graph_new_cases[OF g]]] by (simp add: topo_raises_def loop_nx_def topo_order_def)
  from cyclic_workflow_has_no_analysis [OF g cyc this, of "hd demo_nodes" plain_algos] g
  show ?thesis by (auto simp: demo_nodes_def)
qed

end
