(* ===== verification/Context.thy ===== *)
theory Context
  imports Nodes
begin

text \<open>
  The input of a node: nested paths into outputs, the values its input mappings name
  (\<open>ContextBuilder\<close> in \<open>src/ice_orchestrator/utils/context_builder.py\<close>), and the merge with
  dependency outputs and session metadata (\<open>Workflow._build_node_context\<close> in
  \<open>src/ice_orchestrator/workflow.py\<close>).

  \<open>show\<close> is \<open>str()\<close> of a value inside an f-string.
\<close>

section \<open>Paths\<close>

text \<open>\<open>data[key]\<close> of a dict, \<open>data[int(key)]\<close> of a list; a negative index counts from the
  end.\<close>

definition list_index :: "'a list \<Rightarrow> int \<Rightarrow> 'a res" where
  "list_index xs i =
     (let j = (if i < 0 then i + int (length xs) else i)
      in if 0 \<le> j \<and> j < int (length xs) then Inr (xs ! nat j)
         else Inl (Exn IndexError ''list index out of range''))"

fun step_path :: "string \<Rightarrow> val \<Rightarrow> string \<Rightarrow> val res" where
  "step_path path (VDict d) key =
     (case dict_get d key of Some v \<Rightarrow> Inr v | None \<Rightarrow> Inl (Exn KeyError (sq key)))"
| "step_path path (VList vs) key = res_bind (parse_int key) (list_index vs)"
| "step_path path v key = Inl (Exn TypeError (''Cannot resolve path '' @ sq path @ '' in <class ''
     @ sq (type_name v) @ ''>''))"

fun walk_path :: "string \<Rightarrow> val \<Rightarrow> string list \<Rightarrow> val res" where
  "walk_path path v [] = Inr v"
| "walk_path path v (k # ks) = res_bind (step_path path v k) (\<lambda>w. walk_path path w ks)"

definition resolve_nested_path :: "val \<Rightarrow> string \<Rightarrow> val res" where
  "resolve_nested_path data path =
     (if path = '''' \<or> path = ''.'' then Inr data else walk_path path data (str_split ''.'' path))"

text \<open>The path of a mapping given as a plain dict may be any value.\<close>

definition resolve_path_value :: "val \<Rightarrow> val \<Rightarrow> val res" where
  "resolve_path_value data path =
     (case path of
        VStr s \<Rightarrow> resolve_nested_path data s
      | _ \<Rightarrow> if truth path then Inl (Exn AttributeError ''object has no attribute split'') else Inr data)"

section \<open>Mapped inputs\<close>

text \<open>What a mapping contributes: a value, or an error message; the exceptions that the source does
  not catch end the whole call.\<close>

datatype input_outcome = Value val | Problem string

fun mapping_fields :: "imapping \<Rightarrow> (val option \<times> val option) option" where
  "mapping_fields (MInput s k) = Some (Some (VStr s), Some (VStr k))"
| "mapping_fields (MDict d) = (if dict_get d ''source_node_id'' = None then None
     else Some (dict_get d ''source_node_id'', dict_get d ''source_output_key''))"
| "mapping_fields (MLit v) = None"

fun literal_value :: "imapping \<Rightarrow> val" where
  "literal_value (MDict d) = VDict d"
| "literal_value (MLit v) = v"
| "literal_value (MInput s k) = VNone"

definition caught :: "exn_kind \<Rightarrow> bool" where
  "caught k \<longleftrightarrow> k \<in> {KeyError, IndexError, TypeError}"

fun lookup_result :: "node_result dict \<Rightarrow> val \<Rightarrow> node_result option res" where
  "lookup_result acc (VStr s) = Inr (dict_get acc s)"
| "lookup_result acc (VList vs) = type_error"
| "lookup_result acc (VDict d) = type_error"
| "lookup_result acc v = Inr None"

definition absent :: "val option \<Rightarrow> bool" where
  "absent v \<longleftrightarrow> v = None \<or> v = Some VNone"

definition map_input ::
  "(val \<Rightarrow> string) \<Rightarrow> node_result dict \<Rightarrow> string \<Rightarrow> imapping \<Rightarrow> input_outcome res" where
  "map_input show acc placeholder m =
     (case mapping_fields m of
        None \<Rightarrow> Inr (Value (literal_value m))
      | Some (dep, key) \<Rightarrow>
          if absent dep \<or> absent key
          then Inr (Problem (''Invalid input mapping for placeholder '' @ sq placeholder))
          else res_bind (lookup_result acc (the dep)) (\<lambda>r. case r of
              None \<Rightarrow> Inr (Problem (''Dependency '' @ sq (show (the dep)) @ '' failed or did not run.''))
            | Some r \<Rightarrow>
                if \<not> nr_success r
                then Inr (Problem (''Dependency '' @ sq (show (the dep)) @ '' failed or did not run.''))
                else (case resolve_path_value (nr_output r) (the key) of
                        Inr v \<Rightarrow> Inr (Value v)
                      | Inl e \<Rightarrow> if caught (exn_kind e)
                          then Inr (Problem (''Failed to resolve path '' @ sq (show (the key))
                                 @ '' in dependency '' @ sq (show (the dep)) @ '': '' @ exn_msg e))
                          else Inl e)))"

definition map_inputs ::
  "(val \<Rightarrow> string) \<Rightarrow> node_result dict \<Rightarrow> (string \<times> imapping) list \<Rightarrow> (string \<times> input_outcome) list res" where
  "map_inputs show acc ms = res_map (\<lambda>(p, m). res_bind (map_input show acc p m) (\<lambda>out. Inr (p, out))) ms"

fun values_of :: "(string \<times> input_outcome) list \<Rightarrow> val dict" where
  "values_of [] = []"
| "values_of ((p, Value v) # os) = (p, v) # values_of os"
| "values_of ((p, Problem e) # os) = values_of os"

fun problems_of :: "(string \<times> input_outcome) list \<Rightarrow> string list" where
  "problems_of [] = []"
| "problems_of ((p, Value v) # os) = problems_of os"
| "problems_of ((p, Problem e) # os) = e # problems_of os"

definition build_mapped_context :: "(val \<Rightarrow> string) \<Rightarrow> node \<Rightarrow> node_result dict \<Rightarrow> val dict res" where
  "build_mapped_context show n acc = res_bind (map_inputs show acc (input_mappings (base n))) (\<lambda>os.
     if problems_of os \<noteq> []
     then Inl (Exn ChainError (''Node '' @ sq (node_id n) @ '' context validation failed:'' @ [CHR 0x0A]
            @ str_join [CHR 0x0A] (problems_of os)))
     else Inr (values_of os))"

section \<open>The whole context\<close>

definition expose_outputs :: "string list \<Rightarrow> node_result dict \<Rightarrow> val dict \<Rightarrow> val dict" where
  "expose_outputs deps acc ctx = foldl (\<lambda>c d. case dict_get acc d of
       Some r \<Rightarrow> if nr_success r \<and> nr_output r \<noteq> VNone then dict_setdefault d (nr_output r) c else c
     | None \<Rightarrow> c) ctx deps"

text \<open>\<open>metadata\<close> is that of the current session context, \<open>None\<close> without one.\<close>

definition merge_session :: "val dict option \<Rightarrow> val dict \<Rightarrow> val dict" where
  "merge_session md ctx =
     (case md of
        None \<Rightarrow> ctx
      | Some m \<Rightarrow>
          if m = [] then ctx
          else (case dict_get m ''inputs'' of
                  Some (VDict i) \<Rightarrow>
                    dict_union (dict_union [(''inputs'', VDict i)] (dict_union i m)) ctx
                | _ \<Rightarrow> dict_union m ctx))"

definition build_node_context ::
  "(val \<Rightarrow> string) \<Rightarrow> val dict option \<Rightarrow> node \<Rightarrow> node_result dict \<Rightarrow> val dict res" where
  "build_node_context show md n acc = res_bind (build_mapped_context show n acc) (\<lambda>ctx.
     Inr (merge_session md (expose_outputs (node_deps n) acc ctx)))"

section \<open>Lemmas\<close>

lemma map_inputs_keys: "map_inputs show acc ms = Inr os \<Longrightarrow> dict_keys os = dict_keys ms"
  unfolding map_inputs_def
  by (induction ms arbitrary: os) (auto simp: res_bind_Inr_iff)

lemma map_inputs_get:
  "map_inputs show acc ms = Inr os \<Longrightarrow> dict_get ms p = Some m \<Longrightarrow>
     \<exists>out. dict_get os p = Some out \<and> map_input show acc p m = Inr out"
  unfolding map_inputs_def
  by (induction ms arbitrary: os) (auto simp: res_bind_Inr_iff split: if_splits)

lemma values_of_all:
  "problems_of os = [] \<Longrightarrow> os = map (\<lambda>(p, v). (p, Value v)) (values_of os)"
  by (induction os rule: values_of.induct) auto

lemma dict_get_map_value:
  "dict_get (map (\<lambda>(p, v). (p, f v)) d) k = map_option f (dict_get d k)"
  by (induction d) auto

lemma values_of_get: "problems_of os = [] \<Longrightarrow> dict_get os p = map_option Value (dict_get (values_of os) p)"
  using values_of_all[of os] dict_get_map_value[of Value "values_of os" p] by metis

lemma mapped_context_get:
  assumes "build_mapped_context show n acc = Inr ctx"
  shows "dict_get ctx p = Some v \<longleftrightarrow>
    (\<exists>m. dict_get (input_mappings (base n)) p = Some m \<and> map_input show acc p m = Inr (Value v))"
proof -
  obtain os where os: "map_inputs show acc (input_mappings (base n)) = Inr os" "problems_of os = []"
    "ctx = values_of os"
    using assms by (auto simp: build_mapped_context_def res_bind_Inr_iff split: if_splits)
  have get: "dict_get os p = map_option Value (dict_get ctx p)" using values_of_get[OF os(2)] os(3) by simp
  show ?thesis
  proof (cases "dict_get (input_mappings (base n)) p")
    case None
    then have "dict_get os p = None" using map_inputs_keys[OF os(1)] by (simp add: map_of_eq_None_iff flip: set_map)
    then show ?thesis using None get by simp
  next
    case (Some m)
    then show ?thesis using map_inputs_get[OF os(1) Some] get by auto
  qed
qed

lemma mapped_context_wf:
  assumes "build_mapped_context show n acc = Inr ctx" "dict_wf (input_mappings (base n))"
  shows "dict_wf ctx"
proof -
  obtain os where os: "map_inputs show acc (input_mappings (base n)) = Inr os" "problems_of os = []"
    "ctx = values_of os"
    using assms(1) by (auto simp: build_mapped_context_def res_bind_Inr_iff split: if_splits)
  have "problems_of os = [] \<Longrightarrow> dict_keys os = dict_keys (values_of os)" for os
    by (induction os rule: values_of.induct) auto
  then have "dict_keys os = dict_keys ctx" using os(2,3) by simp
  then show ?thesis using map_inputs_keys[OF os(1)] assms(2) by simp
qed

section \<open>Paths find what they name\<close>

text \<open>A step is the key of a dict or the position in a list; \<open>at_path\<close> follows the steps.\<close>

datatype path_step = Key string | Pos nat

fun step_str :: "path_step \<Rightarrow> string" where
  "step_str (Key k) = k"
| "step_str (Pos i) = nat_str i"

fun at_path :: "path_step list \<Rightarrow> val \<Rightarrow> val option" where
  "at_path [] v = Some v"
| "at_path (Key k # ps) (VDict d) = (case dict_get d k of Some w \<Rightarrow> at_path ps w | None \<Rightarrow> None)"
| "at_path (Pos i # ps) (VList vs) = (if i < length vs then at_path ps (vs ! i) else None)"
| "at_path (p # ps) v = None"

fun step_ok :: "path_step \<Rightarrow> bool" where
  "step_ok (Key k) = (k \<noteq> '''' \<and> CHR ''.'' \<notin> set k)"
| "step_ok (Pos i) = True"

lemma split_dot_last: "CHR ''.'' \<notin> set a \<Longrightarrow> split_aux ''.'' acc a = [rev acc @ a]"
  by (induction a arbitrary: acc) auto

lemma split_dot_cons:
  "CHR ''.'' \<notin> set a \<Longrightarrow> split_aux ''.'' acc (a @ ''.'' @ b) = (rev acc @ a) # split_aux ''.'' [] b"
  by (induction a arbitrary: acc) auto

lemma split_join_dots:
  "ks \<noteq> [] \<Longrightarrow> \<forall>k \<in> set ks. CHR ''.'' \<notin> set k \<Longrightarrow> str_split ''.'' (str_join ''.'' ks) = ks"
  unfolding str_split_def
proof (induction ks rule: induct_list012)
  case (3 x y zs)
  have "split_aux ''.'' [] (x @ ''.'' @ str_join ''.'' (y # zs)) = (rev [] @ x) # split_aux ''.'' [] (str_join ''.'' (y # zs))"
    using 3(4) by (intro split_dot_cons) simp
  then show ?case using 3 by simp
qed (simp_all add: split_dot_last)

lemma digit_char_digit: "d < 10 \<Longrightarrow> is_digit (digit_char d) \<and> (of_char (digit_char d) :: nat) = 48 + d"
  by (auto simp: digit_char_def is_digit_def less_Suc_eq eval_nat_numeral)

lemma nat_str_digits: "nat_str n \<noteq> [] \<and> list_all is_digit (nat_str n)"
proof (induction n rule: nat_str.induct)
  case (1 n)
  then show ?case by (cases "n < 10") (simp_all add: nat_str.simps[of n] digit_char_digit)
qed

lemma nat_str_val: "digits_val (nat_str n) = int n"
proof (induction n rule: nat_str.induct)
  case (1 n)
  show ?case
  proof (cases "n < 10")
    case True
    then show ?thesis by (subst nat_str.simps) (simp add: digits_val_def digit_char_digit)
  next
    case False
    then have "digits_val (nat_str n) = 10 * digits_val (nat_str (n div 10)) + int (n mod 10)"
      by (subst nat_str.simps) (simp add: digits_val_def digit_char_digit)
    moreover have "10 * int (n div 10) + int (n mod 10) = int (10 * (n div 10) + n mod 10)" by (simp only: of_nat_add of_nat_mult of_nat_numeral)
    ultimately show ?thesis using 1 False by simp
  qed
qed

lemma strip_digits: "list_all is_digit s \<Longrightarrow> str_strip s = s"
proof -
  assume d: "list_all is_digit s"
  have no: "dropWhile is_space t = t" if "list_all is_digit t" for t
    using that by (cases t) (auto simp: is_digit_def is_space_def)
  show ?thesis using no[OF d] no[of "rev s"] d by (simp add: str_strip_def list_all_rev)
qed

lemma parse_nat_str: "parse_int (nat_str n) = Inr (int n)"
proof -
  obtain c r where c: "nat_str n = c # r" using nat_str_digits[of n] by (cases "nat_str n") auto
  then have "c \<noteq> CHR ''-'' \<and> c \<noteq> CHR ''+''" using nat_str_digits[of n] by (auto simp: is_digit_def)
  then show ?thesis
    using nat_str_digits[of n] nat_str_val[of n] c by (simp add: parse_int_def strip_digits Let_def)
qed

lemma no_dot_digits: "list_all is_digit s \<Longrightarrow> CHR ''.'' \<notin> set s"
  by (auto simp: list_all_iff is_digit_def dest!: bspec)

lemma walk_at_path: "at_path ps v = Some w \<Longrightarrow> walk_path path v (map step_str ps) = Inr w"
proof (induction ps v rule: at_path.induct)
  case (2 k ps d)
  then show ?case by (auto split: option.splits)
next
  case (3 i ps vs)
  then show ?case by (auto simp: parse_nat_str list_index_def split: if_splits)
qed auto

section \<open>Properties\<close>

text \<open>Whatever place of an output the steps of a path lead to, through dict keys (not empty,
  without dots) and list positions, the dotted path written from the steps resolves to it.\<close>

theorem nested_path_resolves:
  assumes "at_path ps v = Some w" "ps \<noteq> []" "list_all step_ok ps"
  shows "resolve_nested_path v (str_join ''.'' (map step_str ps)) = Inr w"
proof -
  have ne: "step_str p \<noteq> [] \<and> CHR ''.'' \<notin> set (step_str p)" if "p \<in> set ps" for p
    using assms(3) that nat_str_digits no_dot_digits by (cases p) (auto simp: list_all_iff)
  let ?s = "str_join ''.'' (map step_str ps)"
  have split: "str_split ''.'' ?s = map step_str ps"
    using split_join_dots[of "map step_str ps"] assms(2) ne by auto
  have "?s \<noteq> '''' \<and> ?s \<noteq> ''.''"
  proof -
    obtain p qs where p: "ps = p # qs" using assms(2) by (cases ps) auto
    then obtain c r where "step_str p = c # r" "c \<noteq> CHR ''.''" using ne[of p] by (cases "step_str p") auto
    then show ?thesis unfolding p by (cases qs) auto
  qed
  then show ?thesis using walk_at_path[OF assms(1)] split by (simp add: resolve_nested_path_def)
qed

theorem nested_path_resolves_witness:
  "resolve_nested_path (VDict [(''items'', VList [VInt 7, VDict [(''id'', VStr ''x'')]])])
     (str_join ''.'' (map step_str [Key ''items'', Pos 1, Key ''id''])) = Inr (VStr ''x'')"
  by (rule nested_path_resolves) simp_all

text \<open>No node runs on the output of a dependency that failed: when the context is built, every
  mapping that names a source node found a successful result of that node, the path it names
  resolves in that output, and the context holds the value found.\<close>

theorem mapped_inputs_from_successful_nodes:
  assumes "build_mapped_context show n acc = Inr ctx"
    and "dict_get (input_mappings (base n)) p = Some (MInput src path)"
  shows "\<exists>r v. dict_get acc src = Some r \<and> nr_success r \<and>
    resolve_nested_path (nr_output r) path = Inr v \<and> dict_get ctx p = Some v"
proof -
  obtain os where os: "map_inputs show acc (input_mappings (base n)) = Inr os" "problems_of os = []"
    "ctx = values_of os"
    using assms(1) by (auto simp: build_mapped_context_def res_bind_Inr_iff split: if_splits)
  obtain res where res: "dict_get os p = Some res" "map_input show acc p (MInput src path) = Inr res"
    using map_inputs_get[OF os(1) assms(2)] by blast
  obtain v where v: "res = Value v" "dict_get ctx p = Some v"
    using values_of_get[OF os(2), of p] res(1) os(3) by (cases "dict_get (values_of os) p") auto
  then show ?thesis using res(2)
    by (auto simp: map_input_def absent_def resolve_path_value_def split: option.splits if_splits sum.splits)
qed

definition ctx_acc :: "node_result dict" where
  "ctx_acc = [(''a'', success_result (VDict [(''x'', VInt 5)]) (meta ''a'' ''tool'' None 0))]"

definition ctx_node :: node where
  "ctx_node = Node ((default_base ''b'' [''a''])\<lparr>input_mappings := [(''v'', MInput ''a'' ''x'')]\<rparr>) (KTool ''t'' [])"

lemma ctx_mapped: "build_mapped_context type_name ctx_node ctx_acc = Inr [(''v'', VInt 5)]"
  by (simp add: build_mapped_context_def map_inputs_def map_input_def ctx_node_def ctx_acc_def default_base_def
      success_result_def absent_def resolve_path_value_def resolve_nested_path_def str_split_def)

theorem mapped_inputs_from_successful_nodes_witness:
  "\<exists>r v. dict_get ctx_acc ''a'' = Some r \<and> nr_success r \<and>
     resolve_nested_path (nr_output r) ''x'' = Inr v \<and> dict_get [(''v'', VInt 5)] ''v'' = Some v"
  by (rule mapped_inputs_from_successful_nodes [OF ctx_mapped])
     (simp add: ctx_node_def default_base_def)

definition exposed :: "node_result dict \<Rightarrow> string list \<Rightarrow> string \<Rightarrow> val option" where
  "exposed acc deps k = (if k \<in> set deps then (case dict_get acc k of
       Some r \<Rightarrow> if nr_success r \<and> nr_output r \<noteq> VNone then Some (nr_output r) else None
     | None \<Rightarrow> None) else None)"

lemma expose_outputs_get:
  "dict_get (expose_outputs deps acc ctx) k = or_else (dict_get ctx k) (exposed acc deps k)"
proof (induction deps arbitrary: ctx)
  case Nil
  then show ?case by (simp add: expose_outputs_def exposed_def or_else_def split: option.splits)
next
  case (Cons d ds)
  let ?c = "case dict_get acc d of
       Some r \<Rightarrow> if nr_success r \<and> nr_output r \<noteq> VNone then dict_setdefault d (nr_output r) ctx else ctx
     | None \<Rightarrow> ctx"
  have "expose_outputs (d # ds) acc ctx = expose_outputs ds acc ?c"
    by (simp add: expose_outputs_def)
  then show ?case using Cons.IH[of ?c]
    by (auto simp: exposed_def or_else_def dict_get_setdefault dict_get_or_def split: option.splits)
qed

lemma expose_outputs_wf: "dict_wf ctx \<Longrightarrow> dict_wf (expose_outputs deps acc ctx)"
  unfolding expose_outputs_def
  by (induction deps arbitrary: ctx) (auto split: option.splits)

definition session_value :: "val dict option \<Rightarrow> string \<Rightarrow> val option" where
  "session_value md k = (case md of None \<Rightarrow> None
     | Some m \<Rightarrow> or_else (dict_get m k) (case dict_get m ''inputs'' of Some (VDict i) \<Rightarrow> dict_get i k | _ \<Rightarrow> None))"

fun session_wf :: "val dict option \<Rightarrow> bool" where
  "session_wf None = True"
| "session_wf (Some m) = (dict_wf m \<and> (case dict_get m ''inputs'' of Some (VDict i) \<Rightarrow> dict_wf i | _ \<Rightarrow> True))"

lemma merge_session_get:
  assumes "session_wf md" "dict_wf ctx"
  shows "dict_get (merge_session md ctx) k = or_else (dict_get ctx k) (session_value md k)"
proof (cases md)
  case (Some m)
  show ?thesis
  proof (cases "\<exists>i. dict_get m ''inputs'' = Some (VDict i)")
    case True
    then obtain i where i: "dict_get m ''inputs'' = Some (VDict i)" by blast
    have wf: "dict_wf i" "dict_wf m" using assms(1) Some i by auto
    have wf': "dict_wf (dict_union i m)" using wf(1) by (rule dict_wf_union)
    have "m \<noteq> []" using i by auto
    then have "dict_get (merge_session md ctx) k =
        (case dict_get ctx k of None \<Rightarrow> (case (case dict_get m k of None \<Rightarrow> dict_get i k | Some v \<Rightarrow> Some v) of
            None \<Rightarrow> dict_get [(''inputs'', VDict i)] k | Some v \<Rightarrow> Some v) | Some v \<Rightarrow> Some v)"
      using Some i
      by (simp only: merge_session_def dict_get_union[OF assms(2)] dict_get_union[OF wf'] dict_get_union[OF wf(2)]
          option.case val.case if_False)
    then show ?thesis using Some i by (auto simp: session_value_def or_else_def split: option.splits)
  next
    case False
    then have "merge_session md ctx = dict_union m ctx \<or> m = [] \<and> merge_session md ctx = ctx"
      using Some by (auto simp: merge_session_def split: option.splits val.splits)
    moreover have "session_value md k = dict_get m k"
      using Some False by (auto simp: session_value_def or_else_def split: option.splits val.splits)
    ultimately show ?thesis using assms(2) by (auto simp: or_else_def dict_get_union split: option.splits)
  qed
qed (simp add: merge_session_def session_value_def or_else_def split: option.splits)

text \<open>(C37) Precedence in the context of a node: an explicit mapping wins over the output of a
  dependency of that name, which wins over the session metadata, which wins over the session
  inputs; what is in none of them is not in the context.\<close>

theorem context_precedence:
  assumes "build_node_context show md n acc = Inr ctx"
    and "dict_wf (input_mappings (base n))" "session_wf md"
  shows "\<exists>mapped. build_mapped_context show n acc = Inr mapped \<and>
    (\<forall>k. dict_get ctx k =
       or_else (or_else (dict_get mapped k) (exposed acc (node_deps n) k)) (session_value md k))"
proof -
  obtain mapped where m: "build_mapped_context show n acc = Inr mapped"
    "ctx = merge_session md (expose_outputs (node_deps n) acc mapped)"
    using assms(1) by (auto simp: build_node_context_def res_bind_Inr_iff)
  have "dict_wf (expose_outputs (node_deps n) acc mapped)"
    using mapped_context_wf[OF m(1) assms(2)] by (rule expose_outputs_wf)
  then show ?thesis using m merge_session_get[OF assms(3)] expose_outputs_get by auto
qed

theorem context_precedence_witness:
  "let md = Some [(''v'', VInt 1), (''inputs'', VDict [(''topic'', VStr ''t''), (''a'', VInt 2)])]
   in (case build_node_context type_name md ctx_node ctx_acc of Inl _ \<Rightarrow> False | Inr ctx \<Rightarrow>
        dict_get ctx ''v'' = Some (VInt 5) \<and> dict_get ctx ''a'' = Some (VDict [(''x'', VInt 5)]) \<and>
        dict_get ctx ''topic'' = Some (VStr ''t''))"
proof -
  let ?md = "Some [(''v'', VInt 1), (''inputs'', VDict [(''topic'', VStr ''t''), (''a'', VInt 2)])]"
  obtain ctx where ctx: "build_node_context type_name ?md ctx_node ctx_acc = Inr ctx"
    by (simp add: build_node_context_def ctx_mapped)
  have "dict_wf (input_mappings (base ctx_node))" "session_wf ?md"
    by (simp_all add: ctx_node_def)
  from context_precedence [OF ctx this] have get: "dict_get ctx k =
      or_else (or_else (dict_get [(''v'', VInt 5)] k) (exposed ctx_acc [''a''] k)) (session_value ?md k)" for k
    by (simp add: ctx_mapped) (simp add: ctx_node_def node_deps_def default_base_def)
  show ?thesis unfolding Let_def ctx
    by (simp add: get or_else_def exposed_def session_value_def ctx_acc_def success_result_def)
qed

text \<open>A path with a step that is no number, applied to a list, is not reported as the other
  unresolvable paths are: \<open>int()\<close> raises \<open>ValueError\<close>, which the builder does not catch, so the
  exception leaves it without naming node, placeholder or path.\<close>

theorem bad_list_index_escapes:
  "let acc = [(''a'', success_result (VList [VInt 1]) (meta ''a'' ''tool'' None 0))]
   in build_mapped_context type_name ctx_node acc =
        Inl (Exn ValueError (''invalid literal for int() with base 10: '' @ sq ''x''))"
  by (simp add: build_mapped_context_def map_inputs_def map_input_def ctx_node_def default_base_def
      success_result_def absent_def resolve_path_value_def resolve_nested_path_def str_split_def
      parse_int_def str_strip_def is_space_def is_digit_def caught_def)

end
