(* ===== verification/LruCache.thy ===== *)
theory LruCache
  imports Prelude
begin

text \<open>
  The process-wide LRU cache of the workflow engine (\<open>src/ice_core/cache/__init__.py\<close>): an
  \<open>OrderedDict\<close> whose end holds the most recently used key. Every method runs under one lock,
  so a run is a sequence of whole operations. The interface that a client of a bounded cache relies
  on is the locale \<open>bounded_cache\<close>; the class is an interpretation of it.
\<close>

section \<open>The class\<close>

record 'v lru =
  capacity :: int
  store :: "'v dict"

definition lru_new :: "int \<Rightarrow> 'v lru res" where
  "lru_new cap =
     (if cap \<le> 0 then Inl (Exn ValueError ''capacity must be > 0'')
      else Inr \<lparr>capacity = cap, store = []\<rparr>)"

definition lru_get :: "'v lru \<Rightarrow> string \<Rightarrow> 'v option \<times> 'v lru" where
  "lru_get c key =
     (case dict_get (store c) key of
        None \<Rightarrow> (None, c)
      | Some value \<Rightarrow> (Some value, c\<lparr>store := dict_pop key (store c) @ [(key, value)]\<rparr>))"

definition lru_set :: "'v lru \<Rightarrow> string \<Rightarrow> 'v \<Rightarrow> 'v lru" where
  "lru_set c key value =
     (let s = dict_pop key (store c) @ [(key, value)]
      in c\<lparr>store := (if int (length s) > capacity c then tl s else s)\<rparr>)"

definition lru_clear :: "'v lru \<Rightarrow> 'v lru" where
  "lru_clear c = c\<lparr>store := []\<rparr>"

text \<open>\<open>global_cache()\<close>: the singleton is created on the first call, with 512 entries.\<close>

definition global_cache :: "'v lru option \<Rightarrow> 'v lru res" where
  "global_cache current = (case current of None \<Rightarrow> lru_new 512 | Some c \<Rightarrow> Inr c)"

datatype 'v cache_op = CGet string | CSet string 'v | CClear

fun lru_step :: "'v lru \<Rightarrow> 'v cache_op \<Rightarrow> 'v lru" where
  "lru_step c (CGet k) = snd (lru_get c k)"
| "lru_step c (CSet k v) = lru_set c k v"
| "lru_step c CClear = lru_clear c"

definition lru_inv :: "'v lru \<Rightarrow> bool" where
  "lru_inv c \<longleftrightarrow> 0 < capacity c \<and> dict_wf (store c) \<and> int (length (store c)) \<le> capacity c"

lemma lru_new_inv: "lru_new cap = Inr c \<Longrightarrow> lru_inv c \<and> store c = [] \<and> capacity c = cap"
  by (auto simp: lru_new_def lru_inv_def split: if_splits)

section \<open>What a client relies on\<close>

text \<open>A cache may forget an entry, but never invents or alters one, and keeps its size.\<close>

locale bounded_cache =
  fixes get :: "'c \<Rightarrow> 'k \<Rightarrow> 'v option \<times> 'c"
    and put :: "'c \<Rightarrow> 'k \<Rightarrow> 'v \<Rightarrow> 'c"
    and clear :: "'c \<Rightarrow> 'c"
    and entries :: "'c \<Rightarrow> ('k \<rightharpoonup> 'v)"
    and bound :: "'c \<Rightarrow> nat"
    and cinv :: "'c \<Rightarrow> bool"
  assumes get_value: "cinv c \<Longrightarrow> fst (get c k) = entries c k"
    and get_entries: "cinv c \<Longrightarrow> entries (snd (get c k)) = entries c"
    and put_same: "cinv c \<Longrightarrow> entries (put c k v) k = Some v"
    and put_other: "cinv c \<Longrightarrow> k' \<noteq> k \<Longrightarrow> entries (put c k v) k' = Some w \<Longrightarrow> entries c k' = Some w"
    and clear_entries: "entries (clear c) = Map.empty"
    and size_bound: "cinv c \<Longrightarrow> finite (dom (entries c)) \<and> card (dom (entries c)) \<le> bound c"
    and get_cinv: "cinv c \<Longrightarrow> cinv (snd (get c k))"
    and put_cinv: "cinv c \<Longrightarrow> cinv (put c k v)"
    and clear_cinv: "cinv c \<Longrightarrow> cinv (clear c)"
begin

lemma get_after_put: "cinv c \<Longrightarrow> fst (get (put c k v) k) = Some v"
  by (simp add: get_value put_cinv put_same)

lemma get_after_get: "cinv c \<Longrightarrow> fst (get (snd (get c k)) k') = fst (get c k')"
  by (simp add: get_value get_cinv get_entries)

lemma get_after_clear: "cinv c \<Longrightarrow> fst (get (clear c) k) = None"
  by (simp add: get_value clear_cinv clear_entries)

end

section \<open>The class implements the interface\<close>

lemma lru_set_entries:
  assumes "lru_inv c"
  shows "dict_get (store (lru_set c k v)) k = Some v"
    and "k' \<noteq> k \<Longrightarrow> dict_get (store (lru_set c k v)) k' = Some w \<Longrightarrow> dict_get (store c) k' = Some w"
    and "lru_inv (lru_set c k v)"
proof -
  let ?p = "dict_pop k (store c)"
  let ?s = "?p @ [(k, v)]"
  have wf: "dict_wf ?s" using assms by (auto simp: lru_inv_def dict_pop_def distinct_map_filter)
  have cap: "0 < capacity c" "int (length ?p) \<le> capacity c"
    using assms length_filter_le[of "\<lambda>p. fst p \<noteq> k" "store c"]
    by (auto simp: lru_inv_def dict_pop_def simp del: length_filter_le)
  have get: "dict_get ?s k' = (if k' = k then Some v else dict_get (store c) k')" for k'
    by (auto simp: map_add_def split: option.splits)
  show "dict_get (store (lru_set c k v)) k = Some v"
  proof (cases ?p)
    case Nil
    then show ?thesis using cap by (simp add: lru_set_def)
  next
    case (Cons q qs)
    then have "k \<notin> set (dict_keys (q # qs))" using wf by auto
    then have "k \<notin> set (dict_keys qs)" by simp
    then have "dict_get qs k = None" by (simp add: map_of_eq_None_iff)
    then show ?thesis using Cons get[of k] by (auto simp: lru_set_def Let_def map_add_def)
  qed
  show "dict_get (store c) k' = Some w"
    if "k' \<noteq> k" "dict_get (store (lru_set c k v)) k' = Some w"
  proof -
    have "dict_get ?s k' = Some w"
    proof (cases "int (length ?s) > capacity c")
      case True
      then have "dict_get (tl ?s) k' = Some w" using that by (simp add: lru_set_def Let_def)
      then have "(k', w) \<in> set (tl ?s)" by (rule map_of_SomeD)
      then have "(k', w) \<in> set ?s" by (meson list.set_sel(2) append_is_Nil_conv not_Cons_self2)
      then show ?thesis using wf by (simp only: map_of_is_SomeI)
    qed (use that in \<open>simp add: lru_set_def Let_def\<close>)
    then show ?thesis using get that(1) by simp
  qed
  show "lru_inv (lru_set c k v)"
    using cap wf by (auto simp: lru_inv_def lru_set_def Let_def map_tl distinct_tl simp del: map_append)
qed

lemma lru_get_inv: "lru_inv c \<Longrightarrow> lru_inv (snd (lru_get c k))"
proof (cases "dict_get (store c) k")
  case (Some v)
  assume inv: "lru_inv c"
  have "(k, v) \<in> set (store c)" using Some by (rule map_of_SomeD)
  then have "length (dict_pop k (store c)) < length (store c)"
    unfolding dict_pop_def by (intro length_filter_less) auto
  then show ?thesis using inv Some
    by (auto simp: lru_inv_def lru_get_def dict_pop_def distinct_map_filter)
qed (simp add: lru_get_def)

interpretation lru: bounded_cache lru_get lru_set lru_clear "\<lambda>c. dict_get (store c)"
  "\<lambda>c. nat (capacity c)" lru_inv
proof unfold_locales
  fix c :: "'a lru" and k k' v w
  assume inv: "lru_inv c"
  show "fst (lru_get c k) = dict_get (store c) k"
    by (auto simp: lru_get_def split: option.splits)
  show "dict_get (store (snd (lru_get c k))) = dict_get (store c)"
    by (rule ext) (auto simp: lru_get_def map_add_def split: option.splits)
  show "dict_get (store (lru_set c k v)) k = Some v" using inv by (rule lru_set_entries)
  show "k' \<noteq> k \<Longrightarrow> dict_get (store (lru_set c k v)) k' = Some w \<Longrightarrow> dict_get (store c) k' = Some w"
    using inv by (rule lru_set_entries)
  have "dom (dict_get (store c)) = set (dict_keys (store c))" by (simp add: dom_map_of_conv_image_fst)
  moreover have "card (set (dict_keys (store c))) = length (store c)"
    using inv distinct_card[of "dict_keys (store c)"] by (simp add: lru_inv_def)
  moreover have "length (store c) \<le> nat (capacity c)" using inv by (simp add: lru_inv_def le_nat_iff)
  ultimately show "finite (dom (dict_get (store c))) \<and> card (dom (dict_get (store c))) \<le> nat (capacity c)"
    by simp
  show "lru_inv (snd (lru_get c k))" using inv by (rule lru_get_inv)
  show "lru_inv (lru_set c k v)" using inv by (rule lru_set_entries)
  show "lru_inv (lru_clear c)" using inv by (simp add: lru_inv_def lru_clear_def)
qed (simp add: lru_clear_def)

interpretation lru_machine: machine lru_step lru_inv
proof
  fix c :: "'a lru" and a
  show "lru_inv c \<Longrightarrow> lru_inv (lru_step c a)"
    by (cases a) (auto intro: lru.get_cinv lru.put_cinv lru.clear_cinv)
qed

lemma lru_step_capacity [simp]: "capacity (lru_step c a) = capacity c"
  by (cases a) (auto simp: lru_get_def lru_set_def lru_clear_def Let_def split: option.splits)

lemma lru_run_capacity [simp]: "capacity (foldl lru_step c as) = capacity c"
  by (induction as arbitrary: c) auto

section \<open>Properties\<close>

text \<open>The value that a run last stored under a key, since the last \<open>clear\<close>.\<close>

fun last_stored :: "string \<Rightarrow> 'v cache_op list \<Rightarrow> 'v option" where
  "last_stored k [] = None"
| "last_stored k (CGet k' # as) = last_stored k as"
| "last_stored k (CSet k' v # as) = (if k' = k then Some v else last_stored k as)"
| "last_stored k (CClear # as) = None"

lemma lru_run_coherent:
  assumes "lru_inv c" "store c = []" "dict_get (store (foldl lru_step c as)) k = Some v"
  shows "last_stored k (rev as) = Some v"
  using assms(3)
proof (induction as arbitrary: v rule: rev_induct)
  case Nil
  then show ?case using assms(2) by simp
next
  case (snoc a as)
  have inv: "lru_inv (foldl lru_step c as)" using assms(1) by (rule lru_machine.run_inv)
  show ?case
  proof (cases a)
    case (CGet k')
    then show ?thesis using snoc lru.get_entries[OF inv, of k'] by simp
  next
    case (CSet k' w)
    then show ?thesis using snoc lru.put_same[OF inv, of k' w] lru.put_other[OF inv, of k k' w]
      by auto
  next
    case CClear
    then show ?thesis using snoc.prems by (simp add: lru_clear_def)
  qed
qed

text \<open>Coherence: after any run of operations on a new cache, a lookup that hits returns the
  value last stored under that key since the last \<open>clear\<close>, and the cache never holds more than
  its capacity.\<close>

theorem lru_coherent_and_bounded:
  assumes "lru_new cap = Inr c"
  shows "(\<forall>v. fst (lru_get (foldl lru_step c as) k) = Some v \<longrightarrow> last_stored k (rev as) = Some v) \<and>
    int (length (store (foldl lru_step c as))) \<le> cap"
proof -
  have c: "lru_inv c" "store c = []" "capacity c = cap" using lru_new_inv[OF assms] by auto
  have inv: "lru_inv (foldl lru_step c as)" using c(1) by (rule lru_machine.run_inv)
  show ?thesis using inv lru_run_coherent[OF c(1,2)] lru.get_value[OF inv] c(3)
    by (auto simp: lru_inv_def)
qed

theorem lru_coherent_and_bounded_witness:
  "int (length (store (foldl lru_step \<lparr>capacity = 2, store = []\<rparr>
     [CSet ''a'' (1::int), CSet ''b'' 2, CGet ''a'', CSet ''c'' 3]))) \<le> 2 \<and>
   dict_keys (store (foldl lru_step \<lparr>capacity = 2, store = []\<rparr>
     [CSet ''a'' (1::int), CSet ''b'' 2, CGet ''a'', CSet ''c'' 3])) = [''a'', ''c'']"
proof -
  have "lru_new 2 = Inr (\<lparr>capacity = 2, store = []\<rparr> :: int lru)" by (simp add: lru_new_def)
  from lru_coherent_and_bounded [OF this, of "[CSet ''a'' 1, CSet ''b'' 2, CGet ''a'', CSet ''c'' 3]" "''b''"]
  show ?thesis by (simp add: lru_set_def lru_get_def dict_pop_def)
qed

lemma take_pop:
  assumes "dict_wf L"
  shows "dict_pop k (take n L) =
    (if k \<in> set (dict_keys (take n L)) then take (n - 1) (dict_pop k L) else take n L)"
  using assms
proof (induction L arbitrary: n)
  case Nil
  then show ?case by (simp add: dict_pop_def)
next
  case (Cons p L)
  show ?case
  proof (cases n)
    case 0
    then show ?thesis by (simp add: dict_pop_def)
  next
    case (Suc m)
    have idem: "fst p \<notin> set (dict_keys M) \<Longrightarrow> dict_pop (fst p) M = M" for M
      by (auto simp: dict_pop_def filter_id_conv image_iff)
    have sub: "set (dict_keys (take m L)) \<subseteq> set (dict_keys L)" by (auto dest: in_set_takeD)
    show ?thesis
    proof (cases "fst p = k")
      case True
      have "fst p \<notin> set (dict_keys L)" using Cons.prems by simp
      moreover have "fst p \<notin> set (dict_keys (take m L))" using calculation sub by blast
      ultimately have "dict_pop k (take m L) = take m L" "dict_pop k L = L"
        using True idem by blast+
      then show ?thesis using True Suc by (simp add: dict_pop_def)
    next
      case False
      then have m: "k \<in> set (dict_keys (take m L)) \<Longrightarrow> m \<noteq> 0" by (cases m) auto
      show ?thesis using False Suc Cons m
        by (cases m) (auto simp: dict_pop_def)
    qed
  qed
qed

lemma dict_pop_append: "dict_pop k (xs @ ys) = dict_pop k xs @ dict_pop k ys"
  by (simp add: dict_pop_def)

lemma dict_pop_absent: "k \<notin> set (dict_keys d) \<Longrightarrow> dict_pop k d = d"
  by (auto simp: dict_pop_def filter_id_conv image_iff)

text \<open>Trimming the oldest entry is taking one entry less of the recency list.\<close>

lemma lru_set_trim:
  assumes "dict_wf L" "0 < n"
  shows "(let s = rev (dict_pop k (take n L)) @ [(k, v)] in if length s > n then tl s else s)
    = rev (take n ((k, v) # dict_pop k L))"
proof -
  obtain m where m: "n = Suc m" using assms(2) by (cases n) auto
  show ?thesis
  proof (cases "k \<in> set (dict_keys (take n L))")
    case True
    then show ?thesis using take_pop[OF assms(1), of k n] m by (auto simp: Let_def)
  next
    case False
    then have T: "dict_pop k (take n L) = take n L" by (rule dict_pop_absent)
    have L: "dict_pop k L = take n L @ dict_pop k (drop n L)"
      using T dict_pop_append[of k "take n L" "drop n L"] by simp
    show ?thesis
    proof (cases "length L < n")
      case True
      then show ?thesis using T L m by (simp add: Let_def dict_pop_def)
    next
      case False
      then have "tl (rev (take n L) @ [(k, v)]) = rev (butlast (take n L)) @ [(k, v)]"
        using m by (cases L) (simp_all, metis butlast_rev rev.simps(2) rev_swap)
      moreover have "butlast (take n L) = take m L" using m False by (simp add: butlast_take)
      ultimately show ?thesis using T L m False by (simp add: Let_def min_def)
    qed
  qed
qed

lemma store_lru_set:
  "store (lru_set c k v) =
    (let s = dict_pop k (store c) @ [(k, v)] in if capacity c < int (length s) then tl s else s)"
  by (simp add: lru_set_def Let_def)

lemma capacity_lru_set [simp]: "capacity (lru_set c k v) = capacity c"
  by (simp add: lru_set_def Let_def)

lemma lru_sets_spec:
  assumes "lru_inv c" "store c = []"
  shows "store (foldl (\<lambda>c (k, v). lru_set c k v) c kvs)
    = rev (take (nat (capacity c)) (AList.clearjunk (rev kvs)))
    \<and> capacity (foldl (\<lambda>c (k, v). lru_set c k v) c kvs) = capacity c"
proof (induction kvs rule: rev_induct)
  case Nil
  then show ?case using assms by simp
next
  case (snoc p kvs)
  obtain k v where p: "p = (k, v)" by force
  let ?L = "AList.clearjunk (rev kvs)"
  let ?n = "nat (capacity c)"
  have n: "0 < ?n" "int ?n = capacity c" using assms by (auto simp: lru_inv_def)
  have wf: "dict_wf ?L" by (rule distinct_clearjunk)
  have pop: "dict_pop k (rev (take ?n ?L)) = rev (dict_pop k (take ?n ?L))"
    by (simp add: dict_pop_def rev_filter)
  have "dict_pop k M = AList.delete k M" for M :: "'a dict"
    by (auto simp: dict_pop_def AList.delete_eq case_prod_beta intro: filter_cong)
  then have del: "AList.clearjunk ((k, v) # rev kvs) = (k, v) # dict_pop k ?L"
    by (simp add: clearjunk_delete)
  have cmp: "(capacity c < int m) = (?n < m)" for m
    using n(1) by (simp add: nat_less_iff)
  let ?c = "foldl (\<lambda>c (k, v). lru_set c k v) c kvs"
  have "store (lru_set ?c k v) =
    (let s = rev (dict_pop k (take ?n ?L)) @ [(k, v)] in if length s > ?n then tl s else s)"
    using snoc.IH by (simp only: store_lru_set pop cmp)
  also have "\<dots> = rev (take ?n (AList.clearjunk ((k, v) # rev kvs)))"
    unfolding del by (rule lru_set_trim[OF wf n(1)])
  finally show ?case using snoc.IH by (simp add: p)
qed

text \<open>Eviction in the order of last use: after a run of stores on a new cache, the cache holds, the
  most recent last, the latest value of each of the \<open>capacity\<close> most recently stored keys.\<close>

theorem lru_keeps_most_recent:
  assumes "lru_new cap = Inr c"
  shows "store (foldl (\<lambda>c (k, v). lru_set c k v) c kvs)
    = rev (take (nat cap) (AList.clearjunk (rev kvs)))"
  using lru_new_inv[OF assms] lru_sets_spec by blast

theorem lru_keeps_most_recent_witness:
  "store (foldl (\<lambda>c (k, v). lru_set c k v) \<lparr>capacity = 2, store = []\<rparr>
     [(''a'', 1::int), (''b'', 2), (''a'', 3), (''c'', 4)]) = [(''a'', 3), (''c'', 4)]"
proof -
  have "lru_new 2 = Inr (\<lparr>capacity = 2, store = []\<rparr> :: int lru)" by (simp add: lru_new_def)
  from lru_keeps_most_recent [OF this, of "[(''a'', 1), (''b'', 2), (''a'', 3), (''c'', 4)]"]
  show ?thesis by (simp add: AList.delete_eq)
qed

end
