(* ===== verification/Costs.thy ===== *)
theory Costs
  imports Prelude
begin

text \<open>
  Money and limits: the pricing table and cost tracker (\<open>src/ice_core/costs.py\<close>), the budget
  enforcer of the runtime (\<open>src/ice_orchestrator/providers/budget_enforcer.py\<close>) and the usage
  metrics of a run (\<open>src/ice_orchestrator/execution/metrics.py\<close>). Prices are \<open>Decimal\<close>
  in the source and exact; costs accumulated as floats are rationals here. Clock readings and log
  output are left out.
\<close>

section \<open>Pricing\<close>

datatype provider = OPENAI | ANTHROPIC | GOOGLE | DEEPSEEK | CUSTOM

text \<open>\<open>ModelProvider(value)\<close>\<close>

definition provider_of :: "string \<Rightarrow> provider option" where
  "provider_of s = map_of [(''openai'', OPENAI), (''anthropic'', ANTHROPIC), (''google'', GOOGLE),
     (''deepseek'', DEEPSEEK), (''custom'', CUSTOM)] s"

definition openai_prices :: "(string \<times> (rat \<times> rat)) list" where
  "openai_prices =
     [(''gpt-4o'', (5/1000000, 15/1000000)),
      (''gpt-4o-mini'', (3/1000000, 9/1000000)),
      (''gpt-4-turbo'', (10/1000000, 30/1000000)),
      (''gpt-4'', (30/1000000, 60/1000000)),
      (''gpt-3.5-turbo'', (5/10000000, 15/10000000)),
      (''gpt-4-turbo-2024-04-09'', (10/1000000, 30/1000000))]"

definition pricing_table :: "(provider \<times> (string \<times> (rat \<times> rat)) list) list" where
  "pricing_table = [(OPENAI, openai_prices)]"

text \<open>The \<open>KeyError\<close> of either lookup is caught: an unknown model costs nothing.\<close>

definition get_price_per_token :: "provider \<Rightarrow> string \<Rightarrow> rat \<times> rat" where
  "get_price_per_token prov model =
     (case map_of pricing_table prov of
        None \<Rightarrow> (0, 0)
      | Some table \<Rightarrow> (case map_of table model of None \<Rightarrow> (0, 0) | Some p \<Rightarrow> p))"

definition calculate_cost :: "provider \<Rightarrow> string \<Rightarrow> int \<Rightarrow> int \<Rightarrow> rat" where
  "calculate_cost prov model prompt_tokens completion_tokens =
     (let (p_price, c_price) = get_price_per_token prov model
      in p_price * of_int prompt_tokens + c_price * of_int completion_tokens)"

text \<open>\<open>TokenCostCalculator\<close>: a provider name that is no \<open>ModelProvider\<close> costs nothing.\<close>

definition token_cost :: "string \<Rightarrow> int \<Rightarrow> int \<Rightarrow> string \<Rightarrow> rat" where
  "token_cost model input_tokens output_tokens prov =
     (case provider_of (str_lower prov) of
        None \<Rightarrow> 0
      | Some p \<Rightarrow> calculate_cost p model input_tokens output_tokens)"

definition get_model_pricing :: "string \<Rightarrow> string \<Rightarrow> rat \<times> rat" where
  "get_model_pricing prov model =
     (case provider_of (str_lower prov) of None \<Rightarrow> (0, 0) | Some p \<Rightarrow> get_price_per_token p model)"

section \<open>The cost tracker\<close>

record cost_tracker =
  ct_total :: rat
  ct_budget :: "rat option"

definition tracker_new :: cost_tracker where
  "tracker_new = \<lparr>ct_total = 0, ct_budget = None\<rparr>"

definition tracker_reset :: "cost_tracker \<Rightarrow> cost_tracker" where
  "tracker_reset t = t\<lparr>ct_total := 0, ct_budget := None\<rparr>"

definition tracker_set_budget :: "cost_tracker \<Rightarrow> rat \<Rightarrow> cost_tracker" where
  "tracker_set_budget t b = t\<lparr>ct_budget := Some b\<rparr>"

text \<open>\<open>if self._budget and ...\<close>: a budget of zero is false, like no budget.\<close>

definition tracker_add_cost :: "cost_tracker \<Rightarrow> rat \<Rightarrow> cost_tracker effect" where
  "tracker_add_cost t cost =
     (let t' = t\<lparr>ct_total := ct_total t + cost\<rparr>
      in (t', case ct_budget t of
           None \<Rightarrow> None
         | Some b \<Rightarrow> if b \<noteq> 0 \<and> ct_total t' > b
                    then Some (Exn RuntimeError ''Budget exceeded'') else None))"

definition tracker_get_costs :: "cost_tracker \<Rightarrow> (string \<times> rat) list" where
  "tracker_get_costs t =
     (''total'', ct_total t) # (case ct_budget t of None \<Rightarrow> [] | Some b \<Rightarrow> [(''budget'', b)])"

section \<open>The budget enforcer\<close>

record runtime_config =
  rc_org_budget :: "rat option"
  rc_runtime_mode :: string
  rc_budget_fail_open :: bool

record budget =
  org_budget_usd :: "rat option"
  max_llm_calls :: int
  max_tool_executions :: int
  max_agent_calls :: int
  max_workflow_executions :: int
  max_code_executions :: int
  llm_calls :: int
  tool_execs :: int
  agent_calls :: int
  workflow_execs :: int
  code_execs :: int
  total_cost :: rat
  fail_open :: bool
  runtime_mode :: string

text \<open>\<open>os.getenv\<close> is the argument \<open>env\<close>; an empty value is false.\<close>

definition get_env_int :: "(string \<Rightarrow> string option) \<Rightarrow> string \<Rightarrow> int \<Rightarrow> int res" where
  "get_env_int env key dflt =
     (case env key of None \<Rightarrow> Inr dflt | Some v \<Rightarrow> if v = '''' then Inr dflt else parse_int v)"

text \<open>\<open>limit or self._get_env_int(...)\<close>: a limit of zero falls through to the default.\<close>

definition limit_or_env ::
  "(string \<Rightarrow> string option) \<Rightarrow> int option \<Rightarrow> string \<Rightarrow> int \<Rightarrow> int res" where
  "limit_or_env env limit key dflt =
     (case limit of
        Some n \<Rightarrow> if n \<noteq> 0 then Inr n else get_env_int env key dflt
      | None \<Rightarrow> get_env_int env key dflt)"

definition budget_new ::
  "(string \<Rightarrow> string option) \<Rightarrow> (string \<Rightarrow> rat res) \<Rightarrow> runtime_config \<Rightarrow> rat option \<Rightarrow>
   int option \<Rightarrow> int option \<Rightarrow> int option \<Rightarrow> int option \<Rightarrow> int option \<Rightarrow> budget res" where
  "budget_new env parse_float rc org llm tools agents workflows code =
     res_bind
       (case org of
          Some b \<Rightarrow> Inr (Some b)
        | None \<Rightarrow> (case env ''ORG_BUDGET_USD'' of
            Some v \<Rightarrow> if v \<noteq> '''' then res_bind (parse_float v) (\<lambda>x. Inr (Some x))
                      else Inr (rc_org_budget rc)
          | None \<Rightarrow> Inr (rc_org_budget rc)))
     (\<lambda>org'. res_bind (limit_or_env env llm ''ICE_MAX_LLM_CALLS'' 10)
     (\<lambda>m_llm. res_bind (limit_or_env env tools ''ICE_MAX_TOOL_EXECUTIONS'' 20)
     (\<lambda>m_tool. res_bind (limit_or_env env agents ''ICE_MAX_AGENT_CALLS'' 5)
     (\<lambda>m_agent. res_bind (limit_or_env env workflows ''ICE_MAX_WORKFLOW_EXECUTIONS'' 10)
     (\<lambda>m_wf. res_bind (limit_or_env env code ''ICE_MAX_CODE_EXECUTIONS'' 15)
     (\<lambda>m_code. Inr
       \<lparr>org_budget_usd = org', max_llm_calls = m_llm, max_tool_executions = m_tool,
        max_agent_calls = m_agent, max_workflow_executions = m_wf, max_code_executions = m_code,
        llm_calls = 0, tool_execs = 0, agent_calls = 0, workflow_execs = 0, code_execs = 0,
        total_cost = 0,
        fail_open = (case env ''BUDGET_FAIL_OPEN'' of
            Some v \<Rightarrow> str_lower v \<in> {''1'', ''true'', ''yes'', ''on''}
          | None \<Rightarrow> rc_budget_fail_open rc),
        runtime_mode = (case env ''ICE_RUNTIME_MODE'' of
            Some v \<Rightarrow> if v \<noteq> '''' then v else rc_runtime_mode rc
          | None \<Rightarrow> rc_runtime_mode rc)\<rparr>))))))"

definition fail_closed :: "budget \<Rightarrow> bool" where
  "fail_closed b \<longleftrightarrow> runtime_mode b = ''production'' \<or> \<not> fail_open b"

definition handle_violation :: "budget \<Rightarrow> string \<Rightarrow> exn option" where
  "handle_violation b message =
     (if fail_closed b then Some (Exn RuntimeError (''Budget violation: '' @ message)) else None)"

definition limit_msg :: "string \<Rightarrow> int \<Rightarrow> int \<Rightarrow> string" where
  "limit_msg what mx cur =
     what @ '' budget exceeded (max='' @ int_str mx @ '', current='' @ int_str cur @ '')''"

text \<open>The check that the monetary budget makes after the counter's.\<close>

definition cost_check :: "budget \<Rightarrow> exn option" where
  "cost_check b =
     (case org_budget_usd b of
        None \<Rightarrow> None
      | Some m \<Rightarrow> if m \<noteq> 0 \<and> total_cost b > m
          then handle_violation b (''Cost budget exceeded (max=$'' @ fixed2_str m
                 @ '', current=$'' @ fixed2_str (total_cost b) @ '')'')
          else None)"

text \<open>A violation of the counter that raises hides the one of the cost.\<close>

definition first_violation :: "exn option \<Rightarrow> exn option \<Rightarrow> exn option" where
  "first_violation a b = (case a of Some e \<Rightarrow> Some e | None \<Rightarrow> b)"

definition register_llm_call :: "budget \<Rightarrow> rat \<Rightarrow> budget effect" where
  "register_llm_call b cost =
     (let b' = b\<lparr>llm_calls := llm_calls b + 1, total_cost := total_cost b + cost\<rparr>
      in (b', first_violation
           (if llm_calls b' > max_llm_calls b'
            then handle_violation b' (limit_msg ''LLM call'' (max_llm_calls b') (llm_calls b')) else None)
           (cost_check b')))"

definition register_tool_execution :: "budget \<Rightarrow> budget effect" where
  "register_tool_execution b =
     (let b' = b\<lparr>tool_execs := tool_execs b + 1\<rparr>
      in (b', if tool_execs b' > max_tool_executions b'
              then handle_violation b' (limit_msg ''Tool execution'' (max_tool_executions b') (tool_execs b'))
              else None))"

definition register_agent_call :: "budget \<Rightarrow> rat \<Rightarrow> budget effect" where
  "register_agent_call b cost =
     (let b' = b\<lparr>agent_calls := agent_calls b + 1, total_cost := total_cost b + cost\<rparr>
      in (b', first_violation
           (if agent_calls b' > max_agent_calls b'
            then handle_violation b' (limit_msg ''Agent call'' (max_agent_calls b') (agent_calls b'))
            else None)
           (cost_check b')))"

definition register_workflow_execution :: "budget \<Rightarrow> budget effect" where
  "register_workflow_execution b =
     (let b' = b\<lparr>workflow_execs := workflow_execs b + 1\<rparr>
      in (b', if workflow_execs b' > max_workflow_executions b'
              then handle_violation b'
                (limit_msg ''Workflow execution'' (max_workflow_executions b') (workflow_execs b'))
              else None))"

definition register_code_execution :: "budget \<Rightarrow> budget effect" where
  "register_code_execution b =
     (let b' = b\<lparr>code_execs := code_execs b + 1\<rparr>
      in (b', if code_execs b' > max_code_executions b'
              then handle_violation b' (limit_msg ''Code execution'' (max_code_executions b') (code_execs b'))
              else None))"

definition get_status :: "budget \<Rightarrow> val dict" where
  "get_status b =
     [(''llm_calls'', VInt (llm_calls b)), (''tool_executions'', VInt (tool_execs b)),
      (''agent_calls'', VInt (agent_calls b)), (''workflow_executions'', VInt (workflow_execs b)),
      (''code_executions'', VInt (code_execs b)), (''total_cost'', VFloat (total_cost b)),
      (''max_llm_calls'', VInt (max_llm_calls b)), (''max_tool_executions'', VInt (max_tool_executions b)),
      (''max_agent_calls'', VInt (max_agent_calls b)),
      (''max_workflow_executions'', VInt (max_workflow_executions b)),
      (''max_code_executions'', VInt (max_code_executions b)),
      (''org_budget_usd'', case org_budget_usd b of None \<Rightarrow> VNone | Some m \<Rightarrow> VFloat m),
      (''runtime_mode'', VStr (runtime_mode b)), (''fail_open'', VBool (fail_open b))]"

datatype budget_op = LLMCall rat | ToolExec | AgentCall rat | WorkflowExec | CodeExec

fun register :: "budget \<Rightarrow> budget_op \<Rightarrow> budget effect" where
  "register b (LLMCall cost) = register_llm_call b cost"
| "register b ToolExec = register_tool_execution b"
| "register b (AgentCall cost) = register_agent_call b cost"
| "register b WorkflowExec = register_workflow_execution b"
| "register b CodeExec = register_code_execution b"

abbreviation budget_step :: "budget \<Rightarrow> budget_op \<Rightarrow> budget" where
  "budget_step b a \<equiv> fst (register b a)"

section \<open>The enforcer as a machine with counters\<close>

datatype limit_kind = LkLlm | LkTool | LkAgent | LkWorkflow | LkCode

fun kind_of :: "budget_op \<Rightarrow> limit_kind" where
  "kind_of (LLMCall c) = LkLlm"
| "kind_of ToolExec = LkTool"
| "kind_of (AgentCall c) = LkAgent"
| "kind_of WorkflowExec = LkWorkflow"
| "kind_of CodeExec = LkCode"

fun cost_of :: "budget_op \<Rightarrow> rat" where
  "cost_of (LLMCall c) = c"
| "cost_of (AgentCall c) = c"
| "cost_of _ = 0"

fun priced :: "budget_op \<Rightarrow> bool" where
  "priced (LLMCall c) = True"
| "priced (AgentCall c) = True"
| "priced _ = False"

fun counter :: "budget \<Rightarrow> limit_kind \<Rightarrow> int" where
  "counter b LkLlm = llm_calls b"
| "counter b LkTool = tool_execs b"
| "counter b LkAgent = agent_calls b"
| "counter b LkWorkflow = workflow_execs b"
| "counter b LkCode = code_execs b"

fun limit :: "budget \<Rightarrow> limit_kind \<Rightarrow> int" where
  "limit b LkLlm = max_llm_calls b"
| "limit b LkTool = max_tool_executions b"
| "limit b LkAgent = max_agent_calls b"
| "limit b LkWorkflow = max_workflow_executions b"
| "limit b LkCode = max_code_executions b"

text \<open>The monetary budget is exceeded; a budget of zero counts as none.\<close>

definition over_budget :: "rat option \<Rightarrow> rat \<Rightarrow> bool" where
  "over_budget m spent = (case m of None \<Rightarrow> False | Some x \<Rightarrow> x \<noteq> 0 \<and> spent > x)"

lemmas register_defs = register_llm_call_def register_tool_execution_def register_agent_call_def
  register_workflow_execution_def register_code_execution_def Let_def

lemma budget_step_counter [simp]:
  "counter (budget_step b a) k = counter b k + (if kind_of a = k then 1 else 0)"
  by (cases a; cases k) (simp_all add: register_defs)

lemma budget_step_frame [simp]:
  "limit (budget_step b a) k = limit b k"
  "org_budget_usd (budget_step b a) = org_budget_usd b"
  "fail_closed (budget_step b a) = fail_closed b"
  by (cases a; cases k; simp add: register_defs fail_closed_def)+

lemma budget_step_cost [simp]: "total_cost (budget_step b a) = total_cost b + cost_of a"
  by (cases a) (simp_all add: register_defs)

lemma register_raises_iff:
  "raised (register b a) \<longleftrightarrow> fail_closed b \<and>
     (counter b (kind_of a) + 1 > limit b (kind_of a) \<or>
      priced a \<and> over_budget (org_budget_usd b) (total_cost b + cost_of a))"
  by (cases a)
     (auto simp: raised_def register_defs first_violation_def cost_check_def handle_violation_def over_budget_def
        fail_closed_def split: option.splits)

interpretation spend: growing_machine budget_step "\<lambda>_. True" "\<lambda>b. counter b k" for k
  by unfold_locales auto

lemma run_counter:
  "counter (foldl budget_step b as) k = counter b k + int (length (filter (\<lambda>a. kind_of a = k) as))"
  by (induction as arbitrary: b) auto

lemma run_frame [simp]:
  "limit (foldl budget_step b as) k = limit b k"
  "org_budget_usd (foldl budget_step b as) = org_budget_usd b"
  "fail_closed (foldl budget_step b as) = fail_closed b"
  by (induction as arbitrary: b) auto

lemma run_cost: "total_cost (foldl budget_step b as) = total_cost b + (\<Sum>a \<leftarrow> as. cost_of a)"
  by (induction as arbitrary: b) auto

lemma budget_new_fresh:
  "budget_new env pf rc org l t a w c = Inr b \<Longrightarrow> counter b k = 0 \<and> total_cost b = 0"
  by (cases k) (auto simp: budget_new_def res_bind_Inr_iff)

section \<open>Properties\<close>

text \<open>Exact accounting: on a new enforcer that fails closed, after any operations (those that raised
  included), the next one raises exactly when it is one more than its limit of its kind, or it is
  priced and the costs so far and its own exceed the non-zero monetary budget.\<close>

theorem budget_enforced_exactly:
  assumes "budget_new env pf rc org l t a w c = Inr b" "fail_closed b"
  shows "raised (register (foldl budget_step b ops) op) \<longleftrightarrow>
    int (length (filter (\<lambda>x. kind_of x = kind_of op) (ops @ [op]))) > limit b (kind_of op) \<or>
    priced op \<and> over_budget (org_budget_usd b) (\<Sum>x \<leftarrow> ops @ [op]. cost_of x)"
  using budget_new_fresh[OF assms(1)] assms(2)
  by (auto simp: register_raises_iff run_counter run_cost)

theorem budget_enforced_exactly_witness:
  "raised (register (foldl budget_step
     \<lparr>org_budget_usd = Some 1, max_llm_calls = 2, max_tool_executions = 20, max_agent_calls = 5,
      max_workflow_executions = 10, max_code_executions = 15, llm_calls = 0, tool_execs = 0,
      agent_calls = 0, workflow_execs = 0, code_execs = 0, total_cost = 0, fail_open = True,
      runtime_mode = ''production''\<rparr> [LLMCall (1/4), ToolExec, LLMCall (1/4)]) (LLMCall (1/4)))"
  (is "raised (register (foldl budget_step ?b ?ops) ?op)")
proof -
  have "budget_new (\<lambda>_. None) (\<lambda>_. type_error)
      \<lparr>rc_org_budget = Some 1, rc_runtime_mode = ''production'', rc_budget_fail_open = True\<rparr>
      None (Some 2) None None None None = Inr ?b"
    by (simp add: budget_new_def limit_or_env_def get_env_int_def)
  moreover have "fail_closed ?b" by (simp add: fail_closed_def)
  ultimately show ?thesis
    using budget_enforced_exactly [of _ _ _ _ _ _ _ _ _ ?b ?ops ?op] by (simp add: over_budget_def)
qed

text \<open>Once a counter has reached its limit, no later operation of that kind is let through,
  whatever happened in between; and an enforcer that fails open never raises.\<close>

theorem budget_stays_exhausted:
  assumes "limit b (kind_of op) \<le> counter b (kind_of op)"
  shows "raised (register (foldl budget_step b ops) op) = fail_closed b"
proof -
  have "counter b (kind_of op) \<le> counter (foldl budget_step b ops) (kind_of op)"
    by (rule spend.run_grows) simp
  then show ?thesis using assms by (auto simp: register_raises_iff)
qed

theorem budget_stays_exhausted_witness:
  "raised (register (foldl budget_step
     \<lparr>org_budget_usd = None, max_llm_calls = 1, max_tool_executions = 20, max_agent_calls = 5,
      max_workflow_executions = 10, max_code_executions = 15, llm_calls = 1, tool_execs = 0,
      agent_calls = 0, workflow_execs = 0, code_execs = 0, total_cost = 0, fail_open = False,
      runtime_mode = ''demo''\<rparr> [ToolExec, CodeExec]) (LLMCall 0))"
  (is "raised (register (foldl budget_step ?b ?ops) ?op)")
proof -
  have "fail_closed ?b" by (simp add: fail_closed_def)
  then show ?thesis using budget_stays_exhausted [of ?b ?op ?ops] by simp
qed

text \<open>The cost tracker raises exactly when the running total passes a non-zero budget; a budget of
  zero is accepted but never enforced.\<close>

theorem tracker_enforces_nonzero_budget:
  "raised (tracker_add_cost
       (foldl (\<lambda>t x. fst (tracker_add_cost t x)) (tracker_set_budget tracker_new b) costs) cost)
     \<longleftrightarrow> b \<noteq> 0 \<and> sum_list costs + cost > b"
proof -
  have run: "ct_total (foldl (\<lambda>t x. fst (tracker_add_cost t x)) t costs) = ct_total t + sum_list costs \<and>
    ct_budget (foldl (\<lambda>t x. fst (tracker_add_cost t x)) t costs) = ct_budget t" for t
    by (induction costs arbitrary: t) (simp_all add: tracker_add_cost_def Let_def)
  show ?thesis using run[of "tracker_set_budget tracker_new b"]
    by (simp add: raised_def tracker_add_cost_def Let_def tracker_set_budget_def tracker_new_def)
qed

end
