(* ===== verification/NodeExec.thy ===== *)
theory NodeExec
  imports Context LruCache Costs
begin

text \<open>
  Execution of one node (\<open>NodeExecutor.execute_node\<close> in
  \<open>src/ice_orchestrator/execution/executor.py\<close>): validation, cache lookup, dispatch with retries
  and back-off, budget accounting, coercion and mapping of the output, persistence, failure results.

  Arguments of the model: \<open>ev_dispatch\<close> is the registered executor of the node under its
  sandbox (it may return a ready result or a plain value, or raise), on a world of which only the
  executors know; \<open>ev_store\<close> is \<open>context_manager.update_node_context\<close>; the other fields of
  the environment are library functions and settings of the workflow. Events, traces and clock
  readings are left out: their failures are swallowed by the source.
\<close>

section \<open>State and environment\<close>

datatype exec_out = Plain val | Packed node_result

record 'w exec_state =
  ex_world :: 'w
  ex_budget :: budget
  ex_cache :: "node_result lru"
  ex_slept :: "rat list"
  ex_calls :: nat
  ex_exhausted :: nat

record 'w exec_env =
  ev_use_cache :: bool
  ev_halt :: bool
  ev_persist :: bool
  ev_validate :: bool
  ev_lib :: json_lib
  ev_compiles :: "string \<Rightarrow> string option"
  ev_show :: "val \<Rightarrow> string"
  ev_key :: "node \<Rightarrow> val dict \<Rightarrow> string option"
  ev_float :: "string \<Rightarrow> rat res"
  ev_dispatch :: "node \<Rightarrow> val dict \<Rightarrow> 'w \<Rightarrow> exec_out res \<times> 'w"
  ev_store :: "string \<Rightarrow> val \<Rightarrow> 'w \<Rightarrow> unit res \<times> 'w"

section \<open>Retries\<close>

record retry =
  rt_max :: nat
  rt_base :: rat
  rt_strategy :: backoff_strategy

definition retry_of :: "base_config \<Rightarrow> retry" where
  "retry_of b = (case retry_policy_of b of
       Some p \<Rightarrow> \<lparr>rt_max = nat (max_attempts p - 1), rt_base = policy_backoff p, rt_strategy = strategy p\<rparr>
     | None \<Rightarrow> \<lparr>rt_max = nat (retries b), rt_base = backoff_seconds b, rt_strategy = Exponential\<rparr>)"

text \<open>\<open>_calc_backoff\<close> of the inner loop, and the wait of the outer one.\<close>

definition calc_backoff :: "retry \<Rightarrow> nat \<Rightarrow> rat" where
  "calc_backoff p i =
     (if rt_base p \<le> 0 then 0
      else case rt_strategy p of
        Fixed \<Rightarrow> rt_base p | Linear \<Rightarrow> rt_base p * of_nat i | Exponential \<Rightarrow> rt_base p * 2 ^ i)"

definition outer_wait :: "retry \<Rightarrow> nat \<Rightarrow> rat" where
  "outer_wait p i =
     (if rt_base p \<le> 0 then 0
      else case rt_strategy p of
        Fixed \<Rightarrow> rt_base p | Linear \<Rightarrow> rt_base p * of_nat (i + 1) | Exponential \<Rightarrow> rt_base p * 2 ^ i)"

definition sleep :: "rat \<Rightarrow> 'w exec_state \<Rightarrow> 'w exec_state" where
  "sleep t s = s\<lparr>ex_slept := ex_slept s @ [t]\<rparr>"

definition call_executor ::
  "'w exec_env \<Rightarrow> node \<Rightarrow> val dict \<Rightarrow> 'w exec_state \<Rightarrow> exec_out res \<times> 'w exec_state" where
  "call_executor env n inp s = (let (r, w) = ev_dispatch env n inp (ex_world s)
     in (r, s\<lparr>ex_world := w, ex_calls := Suc (ex_calls s)\<rparr>))"

text \<open>The inner loop: attempt \<open>j\<close> with \<open>left\<close> more after it. Returned are the outcome, the
  value the loop variable is left with, the last exception seen, and the state.\<close>

fun dispatch_loop ::
  "'w exec_env \<Rightarrow> retry \<Rightarrow> node \<Rightarrow> val dict \<Rightarrow> nat \<Rightarrow> nat \<Rightarrow> exn option \<Rightarrow> 'w exec_state
     \<Rightarrow> exec_out res \<times> nat \<times> exn option \<times> 'w exec_state" where
  "dispatch_loop env p n inp 0 j le s =
     (case call_executor env n inp s of
        (Inr out, s1) \<Rightarrow> (Inr out, j, le, s1)
      | (Inl e, s1) \<Rightarrow> (Inl e, j, Some e, s1\<lparr>ex_exhausted := Suc (ex_exhausted s1)\<rparr>))"
| "dispatch_loop env p n inp (Suc k) j le s =
     (case call_executor env n inp s of
        (Inr out, s1) \<Rightarrow> (Inr out, j, le, s1)
      | (Inl e, s1) \<Rightarrow> dispatch_loop env p n inp k (Suc j) (Some e) (sleep (calc_backoff p j) s1))"

section \<open>Budget\<close>

definition account :: "node_type \<Rightarrow> rat \<Rightarrow> budget \<Rightarrow> budget effect" where
  "account t cost b = (case t of
       TLlm \<Rightarrow> register_llm_call b cost
     | TAgent \<Rightarrow> register_agent_call b cost
     | TTool \<Rightarrow> register_tool_execution b
     | TWorkflow \<Rightarrow> register_workflow_execution b
     | TCode \<Rightarrow> register_code_execution b
     | _ \<Rightarrow> (b, None))"

definition account_node :: "node \<Rightarrow> rat \<Rightarrow> 'w exec_state \<Rightarrow> 'w exec_state effect" where
  "account_node n cost s = (let (b, e) = account (node_type_of n) cost (ex_budget s)
     in (s\<lparr>ex_budget := b\<rparr>, e))"

definition result_cost :: "node_result \<Rightarrow> rat" where
  "result_cost r = (case nr_usage r of Some u \<Rightarrow> us_cost u | None \<Rightarrow> 0)"

section \<open>Outputs\<close>

definition trim_text :: "string \<Rightarrow> string" where
  "trim_text s = take 1500 s"

text \<open>What is stored of the output of an LLM node.\<close>

definition stored_view :: "(val \<Rightarrow> string) \<Rightarrow> node \<Rightarrow> val \<Rightarrow> val" where
  "stored_view show n v = (case v of
       VDict d \<Rightarrow>
         if node_type_of n \<noteq> TLlm then v
         else (case dict_get d ''text'' of
                 Some (VStr s) \<Rightarrow> VDict [(''text'', VStr (trim_text s))]
               | _ \<Rightarrow> (case dict_get d ''response'' of
                         Some (VStr s) \<Rightarrow> VDict [(''text'', VStr (trim_text s))]
                       | _ \<Rightarrow> VDict [(''text'', VStr (trim_text (show v)))]))
     | _ \<Rightarrow> v)"

text \<open>The substitution in \<open>re.sub(r"^```.*?\n|\n```$", "", raw, count=1, flags=re.S)\<close> on a
  text that starts and ends with the fence: the first match is the opening fence with its line, when
  there is a line break.\<close>

definition fence :: string where
  "fence = [CHR 0x60, CHR 0x60, CHR 0x60]"

definition drop_first_fence :: "string \<Rightarrow> string" where
  "drop_first_fence s = (if CHR 0x0A \<in> set s then tl (dropWhile (\<lambda>c. c \<noteq> CHR 0x0A) s) else s)"

definition unfence :: "string \<Rightarrow> string" where
  "unfence text = (let raw = str_strip text
     in if prefix fence raw \<and> suffix fence raw then drop_first_fence raw else raw)"

fun repair_json :: "json_lib \<Rightarrow> node \<Rightarrow> val \<Rightarrow> val" where
  "repair_json lib n (VStr s) =
     (if schema_missing (output_schema (base n)) then VStr s
      else case js_loads lib (unfence s) of Inr v \<Rightarrow> v | Inl _ \<Rightarrow> VStr s)"
| "repair_json lib n v = v"

fun first_entry :: "schema \<Rightarrow> schema_entry option" where
  "first_entry (SDict ((k, e) # d)) = Some e"
| "first_entry _ = None"

text \<open>\<open>int(v)\<close>, \<open>float(v)\<close>\<close>

fun to_int :: "val \<Rightarrow> int res" where
  "to_int (VInt i) = Inr i"
| "to_int (VBool b) = Inr (if b then 1 else 0)"
| "to_int (VFloat r) = Inr (if r < 0 then \<lceil>r\<rceil> else \<lfloor>r\<rfloor>)"
| "to_int (VStr s) = parse_int s"
| "to_int _ = type_error"

fun to_float :: "(string \<Rightarrow> rat res) \<Rightarrow> val \<Rightarrow> rat res" where
  "to_float pf (VInt i) = Inr (of_int i)"
| "to_float pf (VBool b) = Inr (if b then 1 else 0)"
| "to_float pf (VFloat r) = Inr r"
| "to_float pf (VStr s) = pf s"
| "to_float pf _ = type_error"

definition coerce_output :: "(string \<Rightarrow> rat res) \<Rightarrow> node \<Rightarrow> val \<Rightarrow> val res" where
  "coerce_output pf n v = (case first_entry (output_schema (base n)) of
       Some (PyType t) \<Rightarrow>
         if t = ''int'' then res_bind (to_int v) (\<lambda>i. Inr (VInt i))
         else if t = ''float'' then res_bind (to_float pf v) (\<lambda>x. Inr (VFloat x))
         else Inr v
     | _ \<Rightarrow> Inr v)"

fun has_py_type :: "string \<Rightarrow> val \<Rightarrow> bool" where
  "has_py_type t (VBool b) = (t = ''bool'' \<or> t = ''int'')"
| "has_py_type t v = (t = type_name v)"

text \<open>\<open>if expected_type and not isinstance(value, expected_type): raise\<close>; \<open>isinstance\<close> with
  something that is no class raises as well. \<open>None\<close> is any exception.\<close>

fun expected_ok :: "schema_entry option \<Rightarrow> val \<Rightarrow> bool" where
  "expected_ok None v = True"
| "expected_ok (Some (PyType t)) v = has_py_type t v"
| "expected_ok (Some (Lit e)) v = (\<not> truth e)"

definition map_output :: "node \<Rightarrow> val dict \<Rightarrow> string \<times> string \<Rightarrow> val dict" where
  "map_output n out m = (case resolve_nested_path (VDict out) (snd m) of
       Inl e \<Rightarrow> out
     | Inr v \<Rightarrow> if expected_ok (first_entry (output_schema (base n))) v then dict_set (fst m) v out else out)"

fun map_outputs :: "node \<Rightarrow> val \<Rightarrow> val" where
  "map_outputs n (VDict out) = VDict (foldl (map_output n) out (output_mappings (base n)))"
| "map_outputs n v = v"

section \<open>After the executor\<close>

definition node_label :: "node \<Rightarrow> exn option \<Rightarrow> nat \<Rightarrow> node_meta" where
  "node_label n e k = meta (node_id n) (node_type_str n) (map_option (\<lambda>x. exn_name (exn_kind x)) e) (int k)"

definition store_output :: "'w exec_env \<Rightarrow> node \<Rightarrow> val \<Rightarrow> 'w exec_state \<Rightarrow> unit res \<times> 'w exec_state" where
  "store_output env n v s = (let (r, w) = ev_store env (node_id n) v (ex_world s) in (r, s\<lparr>ex_world := w\<rparr>))"

text \<open>A ready result: accounted, stored if that works, and returned with the roots of its context.\<close>

definition finish_packed ::
  "'w exec_env \<Rightarrow> node \<Rightarrow> val dict \<Rightarrow> node_result \<Rightarrow> 'w exec_state \<Rightarrow> node_result res \<times> 'w exec_state" where
  "finish_packed env n inp r s =
     (case account_node n (result_cost r) s of
        (s1, Some e) \<Rightarrow> (Inl e, s1)
      | (s1, None) \<Rightarrow>
          (Inr (if is_dict (nr_output r) then r\<lparr>nr_roots := Some (dict_keys inp)\<rparr> else r),
           snd (store_output env n (stored_view (ev_show env) n (nr_output r)) s1)))"

definition empty_output_result :: "node \<Rightarrow> exn option \<Rightarrow> budget \<Rightarrow> node_result" where
  "empty_output_result n le b = (failure_result ''Executor returned empty output''
     (meta (node_id n) (node_type_str n)
        (Some (case le of Some e \<Rightarrow> exn_name (exn_kind e) | None \<Rightarrow> ''UnknownError'')) 0))
     \<lparr>nr_budget := Some (get_status b)\<rparr>"

definition check_verdict :: "'w exec_env \<Rightarrow> node \<Rightarrow> val \<Rightarrow> node_result \<Rightarrow> node_result res" where
  "check_verdict env n v r =
     (if ev_validate env \<and> \<not> schema_missing (output_schema (base n))
      then res_bind (is_output_valid (ev_lib env) n v) (\<lambda>ok. Inr (if ok then r
        else r\<lparr>nr_success := False, nr_error := Some (''Output validation failed for node ''
               @ sq (node_id n) @ '' against declared schema'')\<rparr>))
      else Inr r)"

definition process_plain :: "'w exec_env \<Rightarrow> node \<Rightarrow> val \<Rightarrow> val res" where
  "process_plain env n v =
     res_bind (coerce_output (ev_float env) n (repair_json (ev_lib env) n v)) (\<lambda>w. Inr (map_outputs n w))"

definition finish_plain ::
  "'w exec_env \<Rightarrow> node \<Rightarrow> exn option \<Rightarrow> val \<Rightarrow> 'w exec_state \<Rightarrow> node_result res \<times> 'w exec_state" where
  "finish_plain env n le v s =
     (case process_plain env n v of
        Inl e \<Rightarrow> (Inl e, s)
      | Inr out \<Rightarrow>
          if \<not> truth out then (Inr (empty_output_result n le (ex_budget s)), s)
          else let r = (success_result out (node_label n None 0))\<lparr>nr_budget := Some (get_status (ex_budget s))\<rparr>;
                   (st, s1) = (if ev_persist env then store_output env n (stored_view (ev_show env) n out) s
                               else (Inr (), s))
               in (case st of
                     Inl e \<Rightarrow> (Inl e, s1)
                   | Inr _ \<Rightarrow>
                       (case check_verdict env n out r of
                          Inl e \<Rightarrow> (Inl e, s1)
                        | Inr r' \<Rightarrow>
                            (case account_node n 0 s1 of
                               (s2, Some e) \<Rightarrow> (Inl e, s2) | (s2, None) \<Rightarrow> (Inr r', s2)))))"

definition finish_out ::
  "'w exec_env \<Rightarrow> node \<Rightarrow> val dict \<Rightarrow> exn option \<Rightarrow> exec_out \<Rightarrow> 'w exec_state \<Rightarrow> node_result res \<times> 'w exec_state" where
  "finish_out env n inp le out s = (case out of
       Packed r \<Rightarrow> finish_packed env n inp r s | Plain v \<Rightarrow> finish_plain env n le v s)"

section \<open>The outer loop\<close>

definition cache_lookup ::
  "'w exec_env \<Rightarrow> node \<Rightarrow> val dict \<Rightarrow> 'w exec_state \<Rightarrow> node_result option \<times> 'w exec_state" where
  "cache_lookup env n inp s =
     (if ev_use_cache env \<and> use_cache (base n)
      then (case ev_key env n inp of
              None \<Rightarrow> (None, s)
            | Some k \<Rightarrow> (let (r, c) = lru_get (ex_cache s) k in (r, s\<lparr>ex_cache := c\<rparr>)))
      else (None, s))"

datatype turn = Finished node_result | Failed exn nat

text \<open>One turn of the outer loop; a failure carries the value of the loop variable.\<close>

definition one_turn ::
  "'w exec_env \<Rightarrow> retry \<Rightarrow> node \<Rightarrow> val dict \<Rightarrow> exn option \<Rightarrow> 'w exec_state \<Rightarrow> turn \<times> 'w exec_state" where
  "one_turn env p n inp le s =
     (case cache_lookup env n inp s of
        (Some r, s1) \<Rightarrow> (Finished r, s1)
      | (None, s1) \<Rightarrow>
          (case dispatch_loop env p n inp (rt_max p) 0 le s1 of
             (Inl e, j, le', s2) \<Rightarrow> (Failed e j, s2)
           | (Inr out, j, le', s2) \<Rightarrow>
               (case finish_out env n inp le' out s2 of
                  (Inr r, s3) \<Rightarrow> (Finished r, s3) | (Inl e, s3) \<Rightarrow> (Failed e j, s3))))"

definition give_up :: "'w exec_env \<Rightarrow> retry \<Rightarrow> node \<Rightarrow> exn \<Rightarrow> nat \<Rightarrow> node_result res" where
  "give_up env p n e j =
     (if ev_halt env then Inl e
      else Inr (failure_result (''Retry limit exceeded ('' @ nat_str (rt_max p) @ '') - last error: '' @ exn_msg e)
                  (node_label n (Some e) j)))"

text \<open>\<open>turns\<close> is the number of turns that are left; a turn that fails with the loop variable at
  its maximum ends the loop.\<close>

fun outer_loop ::
  "'w exec_env \<Rightarrow> retry \<Rightarrow> node \<Rightarrow> val dict \<Rightarrow> nat \<Rightarrow> exn \<Rightarrow> nat \<Rightarrow> exn option \<Rightarrow> 'w exec_state
     \<Rightarrow> node_result res \<times> 'w exec_state" where
  "outer_loop env p n inp 0 e j le s = (give_up env p n e j, s)"
| "outer_loop env p n inp (Suc turns) e j le s =
     (case one_turn env p n inp le s of
        (Finished r, s1) \<Rightarrow> (Inr r, s1)
      | (Failed e1 j1, s1) \<Rightarrow>
          if rt_max p \<le> j1 then (give_up env p n e1 j1, s1)
          else outer_loop env p n inp turns e1 (Suc j1) (Some e1)
                 (if 0 < outer_wait p j1 then sleep (outer_wait p j1) s1 else s1))"

text \<open>The loop has at least one turn, so the exception and counter it starts with are never used.\<close>

definition run_node ::
  "'w exec_env \<Rightarrow> node \<Rightarrow> val dict \<Rightarrow> 'w exec_state \<Rightarrow> node_result res \<times> 'w exec_state" where
  "run_node env n inp s = (let p = retry_of (base n)
     in outer_loop env p n inp (Suc (rt_max p)) (Exn (OtherError ''Exception'') ''Unknown error'') 0 None s)"

definition execute_node ::
  "'w exec_env \<Rightarrow> node dict \<Rightarrow> string \<Rightarrow> val dict \<Rightarrow> 'w exec_state \<Rightarrow> node_result res \<times> 'w exec_state" where
  "execute_node env nodes i inp s = (case dict_get nodes i of
       None \<Rightarrow> (Inl (Exn ValueError (''Node '' @ sq i @ '' not found in chain configuration'')), s)
     | Some n \<Rightarrow>
         (case runtime_validate (js_check (ev_lib env)) (ev_compiles env) n of
            Inl e \<Rightarrow> (if ev_halt env then Inl e
                      else Inr (failure_result (''Validation failed for node '' @ sq i @ '': '' @ exn_msg e)
                                  (node_label n (Some e) 0)), s)
          | Inr m \<Rightarrow> run_node env m inp s))"

section \<open>Lemmas\<close>

lemma call_executor_frame:
  "call_executor env n inp s = (r, s') \<Longrightarrow> ex_calls s' = Suc (ex_calls s) \<and> ex_cache s' = ex_cache s \<and>
     ex_budget s' = ex_budget s \<and> ex_slept s' = ex_slept s \<and> ex_exhausted s' = ex_exhausted s"
  by (auto simp: call_executor_def split: prod.splits)

lemma sleep_simps [simp]:
  "ex_calls (sleep t s) = ex_calls s" "ex_cache (sleep t s) = ex_cache s"
  "ex_budget (sleep t s) = ex_budget s" "ex_slept (sleep t s) = ex_slept s @ [t]"
  "ex_exhausted (sleep t s) = ex_exhausted s" "ex_world (sleep t s) = ex_world s"
  by (simp_all add: sleep_def)

lemma account_node_frame:
  "account_node n c s = (s', e) \<Longrightarrow> ex_calls s' = ex_calls s \<and> ex_cache s' = ex_cache s \<and>
     ex_slept s' = ex_slept s \<and> ex_exhausted s' = ex_exhausted s"
  by (auto simp: account_node_def split: prod.splits)

lemma store_output_frame:
  "store_output env n v s = (r, s') \<Longrightarrow> ex_calls s' = ex_calls s \<and> ex_cache s' = ex_cache s \<and>
     ex_slept s' = ex_slept s \<and> ex_budget s' = ex_budget s \<and> ex_exhausted s' = ex_exhausted s"
  by (auto simp: store_output_def split: prod.splits)

lemma store_output_snd [simp]:
  "ex_calls (snd (store_output env n v s)) = ex_calls s" "ex_cache (snd (store_output env n v s)) = ex_cache s"
  "ex_slept (snd (store_output env n v s)) = ex_slept s" "ex_budget (snd (store_output env n v s)) = ex_budget s"
  "ex_exhausted (snd (store_output env n v s)) = ex_exhausted s"
  by (simp_all add: store_output_def split: prod.splits)

text \<open>What the processing of an outcome leaves alone.\<close>

lemma finish_out_frame:
  assumes "finish_out env n inp le out s = (r, s')"
  shows "ex_calls s' = ex_calls s \<and> ex_cache s' = ex_cache s \<and> ex_slept s' = ex_slept s \<and>
    ex_exhausted s' = ex_exhausted s"
proof (cases out)
  case (Packed x)
  then show ?thesis using assms
    by (auto simp: finish_out_def finish_packed_def split: prod.splits option.splits dest!: account_node_frame)
next
  case (Plain v)
  then show ?thesis using assms
    by (auto simp: finish_out_def finish_plain_def Let_def split: prod.splits option.splits sum.splits if_splits
        dest!: account_node_frame store_output_frame)
qed

text \<open>The inner loop with \<open>k\<close> attempts to spare: at most \<open>k + 1\<close> calls, and exactly as many when
  it fails, which it does only on its last attempt.\<close>

lemma dispatch_loop_frame:
  "dispatch_loop env p n inp k j le s = (r, j', le', s') \<Longrightarrow>
     ex_budget s' = ex_budget s \<and> ex_cache s' = ex_cache s \<and>
     ex_calls s < ex_calls s' \<and> ex_calls s' \<le> ex_calls s + Suc k \<and>
     (case r of Inl e \<Rightarrow> j' = j + k \<and> ex_exhausted s' = Suc (ex_exhausted s)
      | Inr out \<Rightarrow> j' \<le> j + k \<and> ex_exhausted s' = ex_exhausted s)"
proof (induction k arbitrary: j le s)
  case 0
  then show ?case
    by (auto split: prod.splits sum.splits dest!: call_executor_frame)
next
  case (Suc k)
  obtain c s1 where c: "call_executor env n inp s = (c, s1)" by (cases "call_executor env n inp s")
  have f: "ex_calls s1 = Suc (ex_calls s)" "ex_cache s1 = ex_cache s" "ex_budget s1 = ex_budget s"
    "ex_exhausted s1 = ex_exhausted s"
    using call_executor_frame[OF c] by simp_all
  show ?case
  proof (cases c)
    case (Inr out)
    then show ?thesis using Suc.prems c f by auto
  next
    case (Inl e)
    then have "dispatch_loop env p n inp k (Suc j) (Some e) (sleep (calc_backoff p j) s1) = (r, j', le', s')"
      using Suc.prems c by simp
    from Suc.IH[OF this] show ?thesis using f by (auto split: sum.splits)
  qed
qed

lemma lru_get_store: "dict_get (store (snd (lru_get c k))) = dict_get (store c)"
  by (auto simp: lru_get_def fun_eq_iff map_add_def split: option.splits)

lemma cache_lookup_frame:
  assumes "cache_lookup env n inp s = (r, s')"
  shows "ex_calls s' = ex_calls s \<and> ex_budget s' = ex_budget s \<and> ex_slept s' = ex_slept s \<and>
    ex_exhausted s' = ex_exhausted s \<and> ex_world s' = ex_world s \<and>
    dict_get (store (ex_cache s')) = dict_get (store (ex_cache s))"
  using assms lru_get_store[of "ex_cache s"]
  by (auto simp: cache_lookup_def Let_def split: option.splits if_splits prod.splits) (metis snd_conv)+

lemma one_turn_frame:
  assumes "one_turn env p n inp le s = (t, s')"
  shows "ex_calls s' \<le> ex_calls s + Suc (rt_max p) \<and>
    dict_get (store (ex_cache s')) = dict_get (store (ex_cache s)) \<and>
    (ex_exhausted s' = ex_exhausted s \<or>
      ex_exhausted s' = Suc (ex_exhausted s) \<and> (\<exists>e. t = Failed e (rt_max p)))"
proof -
  obtain c s1 where c: "cache_lookup env n inp s = (c, s1)" by (cases "cache_lookup env n inp s")
  note f1 = cache_lookup_frame[OF c]
  obtain o1 j le1 s2 where d: "dispatch_loop env p n inp (rt_max p) 0 le s1 = (o1, j, le1, s2)"
    by (cases "dispatch_loop env p n inp (rt_max p) 0 le s1") auto
  note f2 = dispatch_loop_frame[OF d]
  show ?thesis
  proof (cases c)
    case (Some r)
    then show ?thesis using assms c f1 by (auto simp: one_turn_def)
  next
    case None
    show ?thesis
    proof (cases o1)
      case (Inl e)
      then show ?thesis using assms None c d f1 f2 by (auto simp: one_turn_def)
    next
      case (Inr out)
      obtain r s3 where r: "finish_out env n inp le1 out s2 = (r, s3)" by (cases "finish_out env n inp le1 out s2")
      then show ?thesis using finish_out_frame[OF r] assms None Inr c d f1 f2
        by (auto simp: one_turn_def split: sum.splits)
    qed
  qed
qed

lemma outer_loop_frame:
  "outer_loop env p n inp turns e j le s = (r, s') \<Longrightarrow>
     ex_calls s' \<le> ex_calls s + turns * Suc (rt_max p) \<and>
     dict_get (store (ex_cache s')) = dict_get (store (ex_cache s)) \<and>
     ex_exhausted s' \<le> Suc (ex_exhausted s) \<and> (\<not> ev_halt env \<longrightarrow> (\<exists>x. r = Inr x))"
proof (induction turns arbitrary: e j le s)
  case 0
  then show ?case by (auto simp: give_up_def split: if_splits)
next
  case (Suc turns)
  obtain t s1 where t: "one_turn env p n inp le s = (t, s1)" by (cases "one_turn env p n inp le s")
  note f = one_turn_frame[OF t]
  show ?case
  proof (cases t)
    case (Finished x)
    then show ?thesis using Suc.prems t f by auto
  next
    case (Failed e1 j1)
    show ?thesis
    proof (cases "rt_max p \<le> j1")
      case True
      then show ?thesis using Suc.prems t f Failed by (auto simp: give_up_def split: if_splits)
    next
      case False
      let ?s2 = "if 0 < outer_wait p j1 then sleep (outer_wait p j1) s1 else s1"
      have "outer_loop env p n inp turns e1 (Suc j1) (Some e1) ?s2 = (r, s')"
        using Suc.prems t Failed False by simp
      from Suc.IH[OF this] show ?thesis using f Failed False by (auto split: if_splits)
    qed
  qed
qed

lemma retry_of_validated:
  assumes "runtime_validate check compiles n = Inr m"
  shows "retry_of (base m) = retry_of (base n) \<and> output_mappings (base m) = output_mappings (base n) \<and>
    use_cache (base m) = use_cache (base n) \<and> node_id m = node_id n \<and> node_type_of m = node_type_of n"
  using assms
  by (auto simp: runtime_validate_def base_runtime_validate_def res_bind_Inr_iff set_output_schema_def retry_of_def
      value_error_of_def invalid_schema_error_def Let_def node_type_of_def node_id_def split: option.splits if_splits)

section \<open>Properties\<close>

lemma execute_node_total:
  assumes "dict_get nodes i = Some n" "\<not> ev_halt env"
  shows "\<exists>r s'. execute_node env nodes i inp s = (Inr r, s') \<and>
    ex_calls s' \<le> ex_calls s + (rt_max (retry_of (base n)) + 1)\<^sup>2 \<and>
    ex_exhausted s' \<le> Suc (ex_exhausted s) \<and>
    dict_get (store (ex_cache s')) = dict_get (store (ex_cache s))"
proof (cases "runtime_validate (js_check (ev_lib env)) (ev_compiles env) n")
  case (Inl e)
  then show ?thesis using assms by (simp add: execute_node_def)
next
  case (Inr m)
  obtain r s' where r: "run_node env m inp s = (r, s')" by (cases "run_node env m inp s")
  have p: "retry_of (base m) = retry_of (base n)" using retry_of_validated[OF Inr] by simp
  have "\<exists>x. r = Inr x"
    using outer_loop_frame[OF r[unfolded run_node_def Let_def]] assms(2) by simp
  moreover have "ex_calls s' \<le> ex_calls s + (rt_max (retry_of (base n)) + 1)\<^sup>2 \<and>
    ex_exhausted s' \<le> Suc (ex_exhausted s) \<and>
    dict_get (store (ex_cache s')) = dict_get (store (ex_cache s))"
    using outer_loop_frame[OF r[unfolded run_node_def Let_def]] p by (simp add: power2_eq_square)
  ultimately show ?thesis using assms Inr r by (auto simp: execute_node_def)
qed

text \<open>(C32) Under any failure policy but HALT the execution of a known node returns a result, whatever
  its executor, the context store and the schema library do; on the way the executor is called at
  most \<open>(max_retries + 1)\<^sup>2\<close> times, the attempts of the inner loop run out at most once, and the
  result cache maps the same keys to the same results as before: nothing is ever written to it.\<close>

theorem execute_node_returns:
  assumes "dict_get nodes i = Some n" "\<not> ev_halt env"
  shows "\<exists>r s'. execute_node env nodes i inp s = (Inr r, s') \<and>
    ex_calls s' \<le> ex_calls s + (rt_max (retry_of (base n)) + 1)\<^sup>2 \<and>
    ex_exhausted s' \<le> Suc (ex_exhausted s) \<and>
    dict_get (store (ex_cache s')) = dict_get (store (ex_cache s))"
  using assms by (rule execute_node_total)

definition demo_env :: "bool \<Rightarrow> exec_out res \<Rightarrow> unit exec_env" where
  "demo_env chk out = \<lparr>ev_use_cache = False, ev_halt = False, ev_persist = False, ev_validate = chk, ev_lib = demo_lib,
     ev_compiles = (\<lambda>_. None), ev_show = (\<lambda>_. ''''), ev_key = (\<lambda>_ _. None), ev_float = (\<lambda>_. type_error),
     ev_dispatch = (\<lambda>_ _ w. (out, w)), ev_store = (\<lambda>_ _ w. (Inr (), w))\<rparr>"

definition demo_state :: "unit exec_state" where
  "demo_state = \<lparr>ex_world = (), ex_budget = \<lparr>org_budget_usd = None, max_llm_calls = 1, max_tool_executions = 1,
      max_agent_calls = 5, max_workflow_executions = 10, max_code_executions = 15, llm_calls = 0, tool_execs = 0,
      agent_calls = 0, workflow_execs = 0, code_execs = 0, total_cost = 0, fail_open = False,
      runtime_mode = ''demo''\<rparr>, ex_cache = \<lparr>capacity = 2, store = []\<rparr>, ex_slept = [], ex_calls = 0, ex_exhausted = 0\<rparr>"

definition demo_tool :: node where
  "demo_tool = Node ((default_base ''n'' [])\<lparr>input_schema := SDict [(''a'', Lit (VStr ''int''))],
     output_schema := SDict [(''b'', Lit (VStr ''str''))], retries := 2, backoff_seconds := 1\<rparr>) (KTool ''t'' [])"

lemma demo_tool_valid:
  "runtime_validate (js_check (ev_lib (demo_env chk out))) (ev_compiles (demo_env chk out)) demo_tool = Inr demo_tool"
  by (simp add: runtime_validate_def base_runtime_validate_def node_type_of_def schema_optional_def
      default_base_def kind_problem_def demo_lib_def schema_dict_errors_def is_json_schema_def
      json_schema_keywords_def convert_simple_to_json_schema_def type_mapping_def demo_env_def demo_tool_def)

lemma demo_tool_retry: "rt_max (retry_of (base demo_tool)) = 2"
  by (simp add: retry_of_def demo_tool_def default_base_def)

lemma demo_tool_waits: "map (calc_backoff (retry_of (base demo_tool))) [0..<2] = [1, 2]"
  by (simp add: calc_backoff_def retry_of_def demo_tool_def default_base_def upt_rec)

lemma demo_state_simps [simp]: "ex_calls demo_state = 0" "ex_slept demo_state = []" "ex_exhausted demo_state = 0"
  by (simp_all add: demo_state_def)

lemma demo_env_simps [simp]:
  "ev_use_cache (demo_env b r) = False" "ev_halt (demo_env b r) = False" "ev_validate (demo_env b r) = b"
  "ev_dispatch (demo_env b r) n inp w = (r, w)" "ev_persist (demo_env b r) = False"
  "ev_lib (demo_env b r) = demo_lib"
  by (simp_all add: demo_env_def)

theorem execute_node_returns_witness:
  "\<exists>r s'. execute_node (demo_env False type_error) [(''n'', demo_tool)] ''n'' [] demo_state = (Inr r, s') \<and>
    ex_calls s' \<le> 9 \<and> ex_exhausted s' \<le> 1 \<and> dict_get (store (ex_cache s')) = (\<lambda>_. None)"
  using execute_node_returns [of "[(''n'', demo_tool)]" "''n''" demo_tool "demo_env False type_error" "[]" demo_state]
  by (simp add: demo_tool_retry demo_env_def demo_state_def)

lemma dispatch_fails:
  assumes "\<And>w. isl (fst (ev_dispatch env n inp w))"
  shows "\<exists>e s'. dispatch_loop env p n inp k j le s = (Inl e, j + k, Some e, s') \<and>
    ex_calls s' = ex_calls s + Suc k \<and> ex_budget s' = ex_budget s \<and>
    ex_slept s' = ex_slept s @ map (calc_backoff p) [j..<j + k]"
proof (induction k arbitrary: j le s)
  case 0
  obtain e s1 where c: "call_executor env n inp s = (Inl e, s1)"
    using assms[of "ex_world s"] by (cases "ev_dispatch env n inp (ex_world s)") (auto simp: call_executor_def isl_def)
  then show ?case using call_executor_frame[OF c] by simp
next
  case (Suc k)
  obtain e s1 where c: "call_executor env n inp s = (Inl e, s1)"
    using assms[of "ex_world s"] by (cases "ev_dispatch env n inp (ex_world s)") (auto simp: call_executor_def isl_def)
  show ?case using call_executor_frame[OF c] Suc.IH[of "Suc j" "Some e" "sleep (calc_backoff p j) s1"] c
    by (auto simp: upt_conv_Cons simp del: upt_Suc)
qed

text \<open>(C33) An executor that always fails is called exactly \<open>max_retries + 1\<close> times, with the waits of
  the declared back-off strategy in between (the linear one starts at zero), the budget is not
  charged, and the result reports the last error and the retry count.\<close>

theorem failing_executor_is_retried:
  assumes "dict_get nodes i = Some n" "runtime_validate (js_check (ev_lib env)) (ev_compiles env) n = Inr m"
    and "\<not> ev_halt env" "\<not> ev_use_cache env" "\<And>w. isl (fst (ev_dispatch env m inp w))"
  defines "p \<equiv> retry_of (base n)"
  shows "\<exists>e s'. execute_node env nodes i inp s =
       (Inr (failure_result (''Retry limit exceeded ('' @ nat_str (rt_max p) @ '') - last error: '' @ exn_msg e)
               (node_label m (Some e) (rt_max p))), s') \<and>
    ex_calls s' = ex_calls s + rt_max p + 1 \<and> ex_budget s' = ex_budget s \<and>
    ex_slept s' = ex_slept s @ map (calc_backoff p) [0..<rt_max p]"
proof -
  have p: "retry_of (base m) = p" using retry_of_validated[OF assms(2)] p_def by simp
  obtain e s' where d: "dispatch_loop env p m inp (rt_max p) 0 None s = (Inl e, 0 + rt_max p, Some e, s')"
    "ex_calls s' = ex_calls s + Suc (rt_max p)" "ex_budget s' = ex_budget s"
    "ex_slept s' = ex_slept s @ map (calc_backoff p) [0..<0 + rt_max p]"
    using dispatch_fails[of env m inp p "rt_max p" 0 None s, OF assms(5)] by blast
  have "one_turn env p m inp None s = (Failed e (rt_max p), s')"
    using d(1) assms(4) by (simp add: one_turn_def cache_lookup_def)
  then show ?thesis using assms d p by (auto simp: execute_node_def run_node_def give_up_def Let_def)
qed

theorem failing_executor_is_retried_witness:
  "\<exists>e s'. execute_node (demo_env False type_error) [(''n'', demo_tool)] ''n'' [] demo_state =
       (Inr (failure_result (''Retry limit exceeded (2) - last error: '' @ exn_msg e)
               (node_label demo_tool (Some e) 2)), s') \<and> ex_calls s' = 3 \<and> ex_slept s' = [1, 2]"
proof -
  have "nat_str 2 = ''2''" by (simp add: nat_str.simps digit_char_def)
  then show ?thesis
    using failing_executor_is_retried [of "[(''n'', demo_tool)]" "''n''" demo_tool "demo_env False type_error"
        demo_tool "[]" demo_state, OF _ demo_tool_valid]
    by (auto simp: demo_tool_retry demo_tool_waits type_error_def simp del: nat_str.simps)
qed

fun budget_kind :: "node_type \<Rightarrow> limit_kind option" where
  "budget_kind TLlm = Some LkLlm"
| "budget_kind TAgent = Some LkAgent"
| "budget_kind TTool = Some LkTool"
| "budget_kind TWorkflow = Some LkWorkflow"
| "budget_kind TCode = Some LkCode"
| "budget_kind _ = None"

lemma account_refused:
  assumes "budget_kind t = Some k" "fail_closed b" "limit b k \<le> counter b k"
  shows "\<exists>b' e. account t c b = (b', Some e) \<and> fail_closed b' \<and> limit b' k = limit b k \<and>
    counter b' k = counter b k + 1"
proof -
  obtain op where op: "kind_of op = k" "account t c b = register b op"
  proof -
    from assms(1) show thesis using that[of "LLMCall c"] that[of "AgentCall c"] that[of ToolExec]
        that[of WorkflowExec] that[of CodeExec]
      by (cases t) (auto simp: account_def)
  qed
  have "raised (register b op)" using assms op by (simp add: register_raises_iff)
  then show ?thesis using op assms(2) budget_step_counter[of b op k] budget_step_frame[of b op]
    by (cases "register b op") (auto simp: raised_def)
qed

lemma refused_turn:
  assumes "\<not> ev_use_cache env" "\<And>w. \<exists>r w'. ev_dispatch env n inp w = (Inr (Packed r), w')"
    and "budget_kind (node_type_of n) = Some k" "fail_closed (ex_budget s)"
    "limit (ex_budget s) k \<le> counter (ex_budget s) k"
  shows "\<exists>e s'. one_turn env p n inp le s = (Failed e 0, s') \<and> ex_calls s' = Suc (ex_calls s) \<and>
    fail_closed (ex_budget s') \<and> limit (ex_budget s') k = limit (ex_budget s) k \<and>
    counter (ex_budget s') k = counter (ex_budget s) k + 1"
proof -
  obtain r w where d: "ev_dispatch env n inp (ex_world s) = (Inr (Packed r), w)" using assms(2) by blast
  let ?s1 = "s\<lparr>ex_world := w, ex_calls := Suc (ex_calls s)\<rparr>"
  have c: "dispatch_loop env p n inp (rt_max p) 0 le s = (Inr (Packed r), 0, le, ?s1)"
    using d by (cases "rt_max p") (simp_all add: call_executor_def)
  obtain b e where b: "account (node_type_of n) (result_cost r) (ex_budget ?s1) = (b, Some e)" "fail_closed b"
    "limit b k = limit (ex_budget s) k" "counter b k = counter (ex_budget s) k + 1"
    using account_refused[of "node_type_of n" k "ex_budget ?s1" "result_cost r"] assms(3-5) by auto
  then show ?thesis using c assms(1)
    by (simp add: one_turn_def cache_lookup_def finish_out_def finish_packed_def account_node_def)
qed

lemma refused_loop:
  assumes "\<not> ev_use_cache env" "\<And>w. \<exists>r w'. ev_dispatch env n inp w = (Inr (Packed r), w')" "\<not> ev_halt env"
    and "budget_kind (node_type_of n) = Some k" "0 < rt_max p"
  shows "fail_closed (ex_budget s) \<Longrightarrow> limit (ex_budget s) k \<le> counter (ex_budget s) k \<Longrightarrow> j = 1 \<or> turns \<noteq> 0 \<Longrightarrow>
    \<exists>r s'. outer_loop env p n inp turns e j le s = (Inr r, s') \<and> \<not> nr_success r \<and> md_retry_count (nr_meta r) = 1 \<and>
      ex_calls s' = ex_calls s + turns \<and> counter (ex_budget s') k = counter (ex_budget s) k + int turns"
proof (induction turns arbitrary: e j le s)
  case 0
  then show ?case using assms(3) by (simp add: give_up_def failure_result_def node_label_def meta_def)
next
  case (Suc turns)
  obtain e1 s1 where t: "one_turn env p n inp le s = (Failed e1 0, s1)" "ex_calls s1 = Suc (ex_calls s)"
    "fail_closed (ex_budget s1)" "limit (ex_budget s1) k = limit (ex_budget s) k"
    "counter (ex_budget s1) k = counter (ex_budget s) k + 1"
    using refused_turn[OF assms(1,2,4) Suc.prems(1,2)] by blast
  let ?s2 = "if 0 < outer_wait p 0 then sleep (outer_wait p 0) s1 else s1"
  have s2: "ex_budget ?s2 = ex_budget s1" "ex_calls ?s2 = ex_calls s1" by simp_all
  have "\<exists>r s'. outer_loop env p n inp turns e1 1 (Some e1) ?s2 = (Inr r, s') \<and> \<not> nr_success r \<and>
      md_retry_count (nr_meta r) = 1 \<and> ex_calls s' = ex_calls ?s2 + turns \<and>
      counter (ex_budget s') k = counter (ex_budget ?s2) k + int turns"
    by (rule Suc.IH) (use s2 t Suc.prems in simp_all)
  then show ?case using t(1,2,5) s2 assms(5) by auto
qed

text \<open>A budget that is used up makes the engine repeat work that succeeded: when the executor
  always returns a ready result but the enforcer, failing closed, has no allowance left for the
  kind of the node, the executor runs \<open>max_retries + 1\<close> times, each run is counted, every result is
  thrown away, and the node fails.\<close>

theorem spent_budget_repeats_work:
  assumes "dict_get nodes i = Some n" "runtime_validate (js_check (ev_lib env)) (ev_compiles env) n = Inr m"
    and "\<not> ev_halt env" "\<not> ev_use_cache env" "\<And>w. \<exists>r w'. ev_dispatch env m inp w = (Inr (Packed r), w')"
    and "budget_kind (node_type_of n) = Some k" "fail_closed (ex_budget s)"
    "limit (ex_budget s) k \<le> counter (ex_budget s) k"
  shows "\<exists>r s'. execute_node env nodes i inp s = (Inr r, s') \<and> \<not> nr_success r \<and>
    ex_calls s' = ex_calls s + rt_max (retry_of (base n)) + 1 \<and>
    counter (ex_budget s') k = counter (ex_budget s) k + int (rt_max (retry_of (base n))) + 1"
proof -
  let ?p = "retry_of (base m)"
  have m: "?p = retry_of (base n)" "budget_kind (node_type_of m) = Some k"
    using retry_of_validated[OF assms(2)] assms(6) by simp_all
  have run: "\<exists>r s'. outer_loop env ?p m inp (Suc (rt_max ?p)) e 0 None s = (Inr r, s') \<and> \<not> nr_success r \<and>
      ex_calls s' = ex_calls s + Suc (rt_max ?p) \<and>
      counter (ex_budget s') k = counter (ex_budget s) k + int (Suc (rt_max ?p))" for e
  proof (cases "rt_max ?p")
    case 0
    obtain e1 s1 where "one_turn env ?p m inp None s = (Failed e1 0, s1)" "ex_calls s1 = Suc (ex_calls s)"
      "counter (ex_budget s1) k = counter (ex_budget s) k + 1"
      using refused_turn[OF assms(4,5) m(2) assms(7,8)] by blast
    then show ?thesis using 0 assms(3) by (simp add: give_up_def failure_result_def)
  next
    case (Suc x)
    then show ?thesis
      using refused_loop[OF assms(4,5,3) m(2), of ?p s 0 "Suc (rt_max ?p)" e None] assms(7,8) by auto
  qed
  then show ?thesis using assms(1,2) m(1) by (auto simp: execute_node_def run_node_def)
qed

theorem spent_budget_repeats_work_witness:
  "\<exists>r s'. execute_node (demo_env False (Inr (Packed (success_result (VInt 1) (meta ''n'' ''tool'' None 0)))))
       [(''n'', demo_tool)] ''n'' [] (demo_state\<lparr>ex_budget := (ex_budget demo_state)\<lparr>tool_execs := 1\<rparr>\<rparr>) = (Inr r, s') \<and>
     \<not> nr_success r \<and> ex_calls s' = 3"
  using spent_budget_repeats_work [of "[(''n'', demo_tool)]" "''n''" demo_tool
      "demo_env False (Inr (Packed (success_result (VInt 1) (meta ''n'' ''tool'' None 0))))" demo_tool "[]" LkTool
      "demo_state\<lparr>ex_budget := (ex_budget demo_state)\<lparr>tool_execs := 1\<rparr>\<rparr>", OF _ demo_tool_valid]
  by (simp add: demo_tool_retry)
     (auto simp: demo_env_def demo_state_def demo_tool_def node_type_of_def fail_closed_def)

lemma dispatch_origin:
  "dispatch_loop env p n inp k j le s = (Inr out, j', le', s') \<Longrightarrow> \<exists>w w'. ev_dispatch env n inp w = (Inr out, w')"
  by (induction k arbitrary: j le s) (auto simp: call_executor_def split: prod.splits sum.splits)

lemma outer_loop_success:
  "outer_loop env p n inp turns e j le s = (Inr r, s') \<Longrightarrow> nr_success r \<Longrightarrow>
     \<exists>le0 s0. one_turn env p n inp le0 s0 = (Finished r, s')"
proof (induction turns arbitrary: e j le s)
  case 0
  then show ?case by (auto simp: give_up_def failure_result_def split: if_splits)
next
  case (Suc turns)
  obtain t s1 where t: "one_turn env p n inp le s = (t, s1)" by (cases "one_turn env p n inp le s")
  show ?case
  proof (cases t)
    case (Finished x)
    then show ?thesis using Suc.prems t by auto
  next
    case (Failed e1 j1)
    show ?thesis
    proof (cases "rt_max p \<le> j1")
      case True
      then show ?thesis using Suc.prems t Failed by (auto simp: give_up_def failure_result_def split: if_splits)
    next
      case False
      then show ?thesis using Suc.prems t Failed by (auto intro: Suc.IH)
    qed
  qed
qed

lemma finish_plain_success:
  assumes "finish_plain env n le v s = (Inr r, s')" "nr_success r" "ev_validate env"
  shows "truth (nr_output r) \<and>
    (schema_missing (output_schema (base n)) \<or> is_output_valid (ev_lib env) n (nr_output r) = Inr True) \<and>
    (\<exists>b. account (node_type_of n) 0 b = (ex_budget s', None))"
  using assms
  by (auto simp: finish_plain_def empty_output_result_def failure_result_def success_result_def Let_def
      check_verdict_def res_bind_Inr_iff account_node_def
      split: sum.splits if_splits prod.splits option.splits)

text \<open>(C34) With output validation on, a result that reports success is sound: if the executor returns
  plain values only and the cache is off, the output of a successful result is non-empty, passes the
  validation of the declared schema, and the enforcer has admitted the run.\<close>

theorem successful_output_is_validated:
  assumes "dict_get nodes i = Some n" "runtime_validate (js_check (ev_lib env)) (ev_compiles env) n = Inr m"
    and "\<not> ev_use_cache env" "ev_validate env"
    and "\<And>w out w'. ev_dispatch env m inp w = (Inr out, w') \<Longrightarrow> \<exists>v. out = Plain v"
    and "execute_node env nodes i inp s = (Inr r, s')" "nr_success r"
  shows "truth (nr_output r) \<and>
    (schema_missing (output_schema (base m)) \<or> is_output_valid (ev_lib env) m (nr_output r) = Inr True) \<and>
    (\<exists>b. account (node_type_of m) 0 b = (ex_budget s', None))"
proof -
  have "run_node env m inp s = (Inr r, s')" using assms by (simp add: execute_node_def)
  note run = this[unfolded run_node_def Let_def]
  obtain le0 s0 where t: "one_turn env (retry_of (base m)) m inp le0 s0 = (Finished r, s')"
    using outer_loop_success[OF run assms(7)] by blast
  obtain o1 j le1 s2 where d: "dispatch_loop env (retry_of (base m)) m inp (rt_max (retry_of (base m))) 0 le0 s0 = (o1, j, le1, s2)"
    by (cases "dispatch_loop env (retry_of (base m)) m inp (rt_max (retry_of (base m))) 0 le0 s0") auto
  obtain out where out: "o1 = Inr out" "finish_out env m inp le1 out s2 = (Inr r, s')"
    using t d assms(3) by (auto simp: one_turn_def cache_lookup_def split: sum.splits prod.splits)
  then obtain v where "out = Plain v" using dispatch_origin d assms(5) by blast
  then show ?thesis using finish_plain_success out(2) assms(4,7) by (simp add: finish_out_def)
qed

lemma demo_tool_succeeds:
  "execute_node (demo_env True (Inr (Plain (VInt 7)))) [(''n'', demo_tool)] ''n'' [] demo_state =
     (Inr ((success_result (VInt 7) (node_label demo_tool None 0))
             \<lparr>nr_budget := Some (get_status (ex_budget demo_state))\<rparr>),
      demo_state\<lparr>ex_calls := 1, ex_budget := (ex_budget demo_state)\<lparr>tool_execs := 1\<rparr>\<rparr>)"
proof -
  have v: "is_output_valid demo_lib demo_tool (VInt 7) = Inr True"
    by (simp add: is_output_valid_def demo_tool_def default_base_def demo_lib_def schema_dict_errors_def
        is_json_schema_def json_schema_keywords_def convert_simple_to_json_schema_def type_mapping_def
        decode_text_def validate_with_schema_def normalize_schema_def check_data_def)
  have p: "process_plain (demo_env True (Inr (Plain (VInt 7)))) demo_tool (VInt 7) = Inr (VInt 7)"
    by (simp add: process_plain_def coerce_output_def demo_tool_def default_base_def)
  have c: "call_executor (demo_env True (Inr (Plain (VInt 7)))) demo_tool [] demo_state =
      (Inr (Plain (VInt 7)), demo_state\<lparr>ex_calls := 1\<rparr>)"
    by (simp add: call_executor_def demo_state_def)
  have a: "account_node demo_tool 0 (demo_state\<lparr>ex_calls := Suc 0\<rparr>) =
      (demo_state\<lparr>ex_calls := Suc 0, ex_budget := (ex_budget demo_state)\<lparr>tool_execs := 1\<rparr>\<rparr>, None)"
    by (simp add: account_node_def account_def demo_tool_def node_type_of_def register_tool_execution_def demo_state_def)
  have f: "finish_plain (demo_env True (Inr (Plain (VInt 7)))) demo_tool None (VInt 7) (demo_state\<lparr>ex_calls := 1\<rparr>) =
     (Inr ((success_result (VInt 7) (node_label demo_tool None 0))
             \<lparr>nr_budget := Some (get_status (ex_budget demo_state))\<rparr>),
      demo_state\<lparr>ex_calls := 1, ex_budget := (ex_budget demo_state)\<lparr>tool_execs := 1\<rparr>\<rparr>)"
    using v by (simp add: finish_plain_def p check_verdict_def a Let_def)
  have d: "dispatch_loop (demo_env True (Inr (Plain (VInt 7)))) (retry_of (base demo_tool)) demo_tool []
      (rt_max (retry_of (base demo_tool))) 0 None demo_state = (Inr (Plain (VInt 7)), 0, None, demo_state\<lparr>ex_calls := 1\<rparr>)"
    by (cases "rt_max (retry_of (base demo_tool))") (simp_all add: c del: One_nat_def)
  have "one_turn (demo_env True (Inr (Plain (VInt 7)))) (retry_of (base demo_tool)) demo_tool [] None demo_state =
     (Finished ((success_result (VInt 7) (node_label demo_tool None 0))
             \<lparr>nr_budget := Some (get_status (ex_budget demo_state))\<rparr>),
      demo_state\<lparr>ex_calls := 1, ex_budget := (ex_budget demo_state)\<lparr>tool_execs := 1\<rparr>\<rparr>)"
    by (simp add: one_turn_def d cache_lookup_def finish_out_def f del: One_nat_def)
  then show ?thesis
    using demo_tool_valid[of True "Inr (Plain (VInt 7))"] by (simp add: execute_node_def run_node_def Let_def)
qed

theorem successful_output_is_validated_witness:
  "fst (execute_node (demo_env True (Inr (Plain (VInt 7)))) [(''n'', demo_tool)] ''n'' [] demo_state) =
     Inr ((success_result (VInt 7) (node_label demo_tool None 0))
             \<lparr>nr_budget := Some (get_status (ex_budget demo_state))\<rparr>) \<and>
   is_output_valid demo_lib demo_tool (VInt 7) = Inr True"
proof -
  have "\<not> schema_missing (output_schema (base demo_tool))" by (simp add: demo_tool_def)
  then show ?thesis
    using successful_output_is_validated [OF _ demo_tool_valid _ _ _ demo_tool_succeeds]
    by (simp add: demo_tool_succeeds success_result_def)
qed

lemma drop_line_suffix:
  assumes "suffix u s" "c \<notin> set u"
  shows "c \<in> set s \<Longrightarrow> suffix u (tl (dropWhile (\<lambda>x. x \<noteq> c) s))"
proof -
  obtain p where p: "s = p @ u" using assms(1) by (auto simp: suffix_def)
  show "c \<in> set s \<Longrightarrow> suffix u (tl (dropWhile (\<lambda>x. x \<noteq> c) s))"
    unfolding p using assms(2)
  proof (induction p)
    case Nil
    then show ?case by simp
  next
    case (Cons a p)
    then show ?case by (cases "a = c") (auto simp: suffix_def)
  qed
qed

lemma unfence_keeps_closing:
  "suffix fence (str_strip t) \<Longrightarrow> suffix fence (unfence t)"
  using drop_line_suffix[of fence "str_strip t" "CHR 0x0A"]
  by (simp add: unfence_def drop_first_fence_def fence_def Let_def)

text \<open>JSON in a fenced block is never repaired: the text that is handed to the parser still ends
  with the closing fence, so the string goes on unchanged as long as no JSON text ends like that.\<close>

theorem fenced_json_not_repaired:
  assumes "prefix fence (str_strip t)" "suffix fence (str_strip t)"
    and "\<And>s. suffix fence s \<Longrightarrow> isl (js_loads lib s)"
  shows "repair_json lib n (VStr t) = VStr t"
  using assms(3)[OF unfence_keeps_closing[OF assms(2)]] by (auto simp: isl_def)

theorem fenced_json_not_repaired_witness:
  "repair_json (demo_lib\<lparr>js_loads := \<lambda>s. if s = ''1'' then Inr (VInt 1) else Inl (Exn ValueError s)\<rparr>) demo_tool
     (VStr (fence @ ''json'' @ [CHR 0x0A] @ ''1'' @ [CHR 0x0A] @ fence)) =
     VStr (fence @ ''json'' @ [CHR 0x0A] @ ''1'' @ [CHR 0x0A] @ fence)"
  by (rule fenced_json_not_repaired)
     (auto simp: fence_def str_strip_def is_space_def suffix_def prefix_def Cons_eq_append_conv)

lemma map_outputs_literal:
  "first_entry (output_schema (base n)) = Some (Lit e) \<Longrightarrow> truth e \<Longrightarrow> map_outputs n v = v"
proof -
  assume e: "first_entry (output_schema (base n)) = Some (Lit e)" "truth e"
  have "foldl (map_output n) d ms = d" for d ms
    by (induction ms arbitrary: d) (simp_all add: map_output_def e split: sum.splits)
  then show "map_outputs n v = v" by (cases v) simp_all
qed

text \<open>A declared schema whose first field has a literal type switches the output mappings of the
  node off: whatever they name, the processed output is the output itself.\<close>

theorem literal_schema_drops_mappings:
  assumes "first_entry (output_schema (base n)) = Some (Lit e)" "truth e"
  shows "process_plain env n (VDict d) = Inr (VDict d)"
  using map_outputs_literal[OF assms] assms(1)
  by (simp add: process_plain_def coerce_output_def)

theorem literal_schema_drops_mappings_witness:
  "process_plain (demo_env True type_error)
     (Node ((base demo_tool)\<lparr>output_mappings := [(''alias'', ''b'')]\<rparr>) (KTool ''t'' [])) (VDict [(''b'', VStr ''x'')]) =
   Inr (VDict [(''b'', VStr ''x'')])"
  by (rule literal_schema_drops_mappings [of _ "VStr ''str''"]) (simp_all add: demo_tool_def)

section \<open>The world during an execution\<close>

lemma call_executor_world: "ex_world (snd (call_executor env n inp s)) = snd (ev_dispatch env n inp (ex_world s))"
  by (simp add: call_executor_def split: prod.splits)

lemma store_output_world: "ex_world (snd (store_output env n v s)) = snd (ev_store env (node_id n) v (ex_world s))"
  by (simp add: store_output_def split: prod.splits)

lemma account_node_world: "ex_world (fst (account_node n c s)) = ex_world s"
  by (simp add: account_node_def split: prod.splits)

text \<open>What the executor and the store keep true of the world, the whole execution of a node keeps.\<close>

definition keeps_world :: "'w exec_env \<Rightarrow> ('w \<Rightarrow> bool) \<Rightarrow> bool" where
  "keeps_world env P \<longleftrightarrow> (\<forall>n inp w. P w \<longrightarrow> P (snd (ev_dispatch env n inp w))) \<and>
     (\<forall>i v w. P w \<longrightarrow> P (snd (ev_store env i v w)))"

lemma dispatch_loop_world:
  "keeps_world env P \<Longrightarrow> P (ex_world s) \<Longrightarrow> P (ex_world (snd (snd (snd (dispatch_loop env p n inp k j le s)))))"
proof (induction k arbitrary: j le s)
  case 0
  then show ?case using call_executor_world[of env n inp s]
    by (auto simp: keeps_world_def split: prod.splits sum.splits)
next
  case (Suc k)
  have "P (ex_world (snd (call_executor env n inp s)))"
    using Suc.prems by (simp add: call_executor_world keeps_world_def)
  then show ?case using Suc.IH[OF Suc.prems(1)] by (auto split: prod.splits sum.splits)
qed

lemma finish_out_world: "keeps_world env P \<Longrightarrow> P (ex_world s) \<Longrightarrow> P (ex_world (snd (finish_out env n inp le out s)))"
proof -
  assume env: "keeps_world env P" and s: "P (ex_world s)"
  have storing: "P w \<Longrightarrow> P (snd (ev_store env i v w))" for i v w using env by (simp add: keeps_world_def)
  have a: "account_node n c t = (t', e) \<Longrightarrow> ex_world t' = ex_world t" for c t t' e
    using account_node_world[of n c t] by simp
  have st: "store_output env n v t = (r, t') \<Longrightarrow> P (ex_world t) \<Longrightarrow> P (ex_world t')" for v t r t'
    using store_output_world[of env n v t] storing by (metis snd_conv)
  show ?thesis
  proof (cases out)
    case (Packed r)
    then show ?thesis using s storing store_output_world[of env n]
      by (auto simp: finish_out_def finish_packed_def split: prod.splits option.splits dest!: a)
  next
    case (Plain v)
    then show ?thesis using s st
      by (auto simp: finish_out_def finish_plain_def Let_def split: prod.splits option.splits sum.splits if_splits dest!: a)
  qed
qed

lemma one_turn_world: "keeps_world env P \<Longrightarrow> P (ex_world s) \<Longrightarrow> P (ex_world (snd (one_turn env p n inp le s)))"
proof -
  assume env: "keeps_world env P" and s: "P (ex_world s)"
  have "P (ex_world (snd (cache_lookup env n inp s)))"
    using s by (auto simp: cache_lookup_def split: option.splits prod.splits)
  then show ?thesis
    using dispatch_loop_world[OF env, of "snd (cache_lookup env n inp s)" p n inp "rt_max p" 0 le] finish_out_world[OF env]
    by (auto simp: one_turn_def split: prod.splits option.splits sum.splits) (metis snd_conv)+
qed

lemma outer_loop_world: "keeps_world env P \<Longrightarrow> P (ex_world s) \<Longrightarrow> P (ex_world (snd (outer_loop env p n inp k e j le s)))"
proof (induction k arbitrary: e j le s)
  case 0
  then show ?case by simp
next
  case (Suc k)
  have "P (ex_world (snd (one_turn env p n inp le s)))" using one_turn_world[OF Suc.prems] .
  then show ?case using Suc.IH[OF Suc.prems(1)] by (auto split: prod.splits turn.splits)
qed

lemma execute_node_world: "keeps_world env P \<Longrightarrow> P (ex_world s) \<Longrightarrow> P (ex_world (snd (execute_node env nodes i inp s)))"
  using outer_loop_world
  by (auto simp: execute_node_def run_node_def Let_def simp del: outer_loop.simps split: option.splits sum.splits)

end
