(* ===== verification/Effects.thy ===== *)
theory Effects
  imports Prelude
begin

text \<open>
  Actions on a world that may raise: how the executors of the workflow nodes are written, since what
  they call (registered implementations, agents, tools, nested nodes) acts on state of its own. An
  action returns a result, or an exception, and the world afterwards; what was done before an
  exception stays done.
\<close>

type_synonym ('w, 'a) act = "'w \<Rightarrow> 'a res \<times> 'w"

definition act_ret :: "'a \<Rightarrow> ('w, 'a) act" where
  "act_ret x w = (Inr x, w)"

definition act_raise :: "exn \<Rightarrow> ('w, 'a) act" where
  "act_raise e w = (Inl e, w)"

definition act_res :: "'a res \<Rightarrow> ('w, 'a) act" where
  "act_res r w = (r, w)"

definition act_bind :: "('w, 'a) act \<Rightarrow> ('a \<Rightarrow> ('w, 'b) act) \<Rightarrow> ('w, 'b) act" where
  "act_bind m f w = (case m w of (Inl e, w') \<Rightarrow> (Inl e, w') | (Inr x, w') \<Rightarrow> f x w')"

text \<open>\<open>try: m except E: h\<close>, where \<open>h\<close> says which exceptions it takes.\<close>

definition act_catch :: "('w, 'a) act \<Rightarrow> (exn \<Rightarrow> ('w, 'a) act option) \<Rightarrow> ('w, 'a) act" where
  "act_catch m h w = (case m w of
       (Inl e, w') \<Rightarrow> (case h e of None \<Rightarrow> (Inl e, w') | Some m' \<Rightarrow> m' w')
     | (Inr x, w') \<Rightarrow> (Inr x, w'))"

definition on_key_error :: "('w, 'a) act \<Rightarrow> exn \<Rightarrow> ('w, 'a) act option" where
  "on_key_error m e = (if exn_kind e = KeyError then Some m else None)"

definition on_any :: "(exn \<Rightarrow> 'a) \<Rightarrow> exn \<Rightarrow> ('w, 'a) act option" where
  "on_any f e = Some (act_ret (f e))"

text \<open>A list of actions one after the other, threading a value.\<close>

fun act_fold :: "('x \<Rightarrow> 'a \<Rightarrow> ('w, 'a) act) \<Rightarrow> 'x list \<Rightarrow> 'a \<Rightarrow> ('w, 'a) act" where
  "act_fold f [] a = act_ret a"
| "act_fold f (x # xs) a = act_bind (f x a) (act_fold f xs)"

lemma act_bind_simps [simp]:
  "act_bind (act_ret x) f = f x"
  "act_bind (act_raise e) f = act_raise e"
  "act_bind (act_res (Inr x)) f = f x"
  "act_bind (act_res (Inl e)) f = act_raise e"
  by (auto simp: act_bind_def act_ret_def act_raise_def act_res_def)

lemma act_catch_simps [simp]:
  "act_catch (act_ret x) h = act_ret x"
  "act_catch (act_raise e) (on_key_error m) = (if exn_kind e = KeyError then m else act_raise e)"
  "act_catch (act_raise e) (on_any f) = act_ret (f e)"
  by (auto simp: act_catch_def act_ret_def act_raise_def on_key_error_def on_any_def)

lemma act_ret_apply [simp]: "act_ret x w = (Inr x, w)" by (simp add: act_ret_def)

lemma act_raise_apply [simp]: "act_raise e w = (Inl e, w)" by (simp add: act_raise_def)

lemma act_res_apply [simp]: "act_res r w = (r, w)" by (simp add: act_res_def)

lemma act_bind_Inr: "act_bind m f w = (Inr y, w') \<longleftrightarrow> (\<exists>x w1. m w = (Inr x, w1) \<and> f x w1 = (Inr y, w'))"
  by (auto simp: act_bind_def split: prod.splits sum.splits)

lemma act_bind_Inl:
  "act_bind m f w = (Inl e, w') \<longleftrightarrow> m w = (Inl e, w') \<or> (\<exists>x w1. m w = (Inr x, w1) \<and> f x w1 = (Inl e, w'))"
  by (auto simp: act_bind_def split: prod.splits sum.splits)

text \<open>A handler that takes every exception leaves none.\<close>

lemma act_catch_any: "\<exists>x w'. act_catch m (on_any f) w = (Inr x, w')"
  by (auto simp: act_catch_def on_any_def split: prod.splits sum.splits)

lemma act_catch_any_cases:
  "act_catch m (on_any f) w = (Inr x, w') \<longleftrightarrow> m w = (Inr x, w') \<or> (\<exists>e. m w = (Inl e, w') \<and> x = f e)"
  by (auto simp: act_catch_def on_any_def split: prod.splits sum.splits)

end
