(* ===== verification/SafeEval.thy ===== *)
theory SafeEval
  imports Prelude
begin

text \<open>
  The expression evaluator behind condition, recursive and monitor nodes
  (\<open>src/ice_core/utils/safe_eval.py\<close>): a visitor over the \<open>ast\<close> of a Python
  expression that accepts constants, context variables, \<open>and\<close>/\<open>or\<close>/\<open>not\<close>,
  comparisons and five arithmetic operators, and raises \<open>ValueError\<close> on anything else.

  Parameters: \<open>parse\<close> stands for \<open>ast.parse(..., mode='eval').body\<close> (\<open>None\<close>
  is a \<open>SyntaxError\<close>), \<open>fmt\<close> for the \<open>str % value\<close> formatting of Python.
  Operators that the visitor rejects are the constructors named \<open>Other...\<close>. The texts of
  exceptions that the Python operators raise are abbreviated.
\<close>

section \<open>Syntax\<close>

datatype boolop = And | Or
datatype binop = Add | Sub | Mult | Div | Mod | OtherBin string
datatype unop = Not | USub | UAdd | OtherUn string
datatype cmpop = Eq | NotEq | Lt | LtE | Gt | GtE | OtherCmp string

datatype expr = EName string | EConst val
  | EBool boolop "expr list"
  | EBin binop expr expr
  | EUn unop expr
  | ECmp expr "(cmpop \<times> expr) list"
  | EOther string

section \<open>The operators of Python on values\<close>

datatype num = NInt int | NFloat rat

fun as_num :: "val \<Rightarrow> num option" where
  "as_num (VBool b) = Some (NInt (if b then 1 else 0))"
| "as_num (VInt i) = Some (NInt i)"
| "as_num (VFloat r) = Some (NFloat r)"
| "as_num _ = None"

fun num_rat :: "num \<Rightarrow> rat" where
  "num_rat (NInt i) = of_int i"
| "num_rat (NFloat r) = r"

text \<open>An arithmetic operator on two numbers: exact on integers, a float as soon as one is.\<close>

fun num_op :: "(int \<Rightarrow> int \<Rightarrow> int) \<Rightarrow> (rat \<Rightarrow> rat \<Rightarrow> rat) \<Rightarrow> num \<Rightarrow> num \<Rightarrow> val" where
  "num_op f g (NInt i) (NInt j) = VInt (f i j)"
| "num_op f g a b = VFloat (g (num_rat a) (num_rat b))"

definition rat_mod :: "rat \<Rightarrow> rat \<Rightarrow> rat" where
  "rat_mod a b = a - b * of_int \<lfloor>a / b\<rfloor>"

definition py_add :: "val \<Rightarrow> val \<Rightarrow> val res" where
  "py_add a b =
     (case (as_num a, as_num b) of
        (Some x, Some y) \<Rightarrow> Inr (num_op (+) (+) x y)
      | _ \<Rightarrow> (case (a, b) of
          (VStr s, VStr t) \<Rightarrow> Inr (VStr (s @ t))
        | (VList s, VList t) \<Rightarrow> Inr (VList (s @ t))
        | _ \<Rightarrow> type_error))"

definition py_sub :: "val \<Rightarrow> val \<Rightarrow> val res" where
  "py_sub a b =
     (case (as_num a, as_num b) of
        (Some x, Some y) \<Rightarrow> Inr (num_op (-) (-) x y)
      | _ \<Rightarrow> type_error)"

text \<open>\<open>*\<close> also repeats a string or a list an integer number of times (none when negative).\<close>

definition repeat_seq :: "int \<Rightarrow> 'a list \<Rightarrow> 'a list" where
  "repeat_seq i xs = concat (replicate (nat i) xs)"

definition py_mult :: "val \<Rightarrow> val \<Rightarrow> val res" where
  "py_mult a b =
     (case (as_num a, as_num b) of
        (Some x, Some y) \<Rightarrow> Inr (num_op (*) (*) x y)
      | (Some (NInt i), None) \<Rightarrow>
          (case b of VStr s \<Rightarrow> Inr (VStr (repeat_seq i s))
           | VList s \<Rightarrow> Inr (VList (repeat_seq i s)) | _ \<Rightarrow> type_error)
      | (None, Some (NInt i)) \<Rightarrow>
          (case a of VStr s \<Rightarrow> Inr (VStr (repeat_seq i s))
           | VList s \<Rightarrow> Inr (VList (repeat_seq i s)) | _ \<Rightarrow> type_error)
      | _ \<Rightarrow> type_error)"

definition zero_division :: "'a res" where
  "zero_division = Inl (Exn ZeroDivisionError ''division by zero'')"

definition py_div :: "val \<Rightarrow> val \<Rightarrow> val res" where
  "py_div a b =
     (case (as_num a, as_num b) of
        (Some x, Some y) \<Rightarrow>
          if num_rat y = 0 then zero_division else Inr (VFloat (num_rat x / num_rat y))
      | _ \<Rightarrow> type_error)"

definition py_mod :: "(string \<Rightarrow> val \<Rightarrow> val res) \<Rightarrow> val \<Rightarrow> val \<Rightarrow> val res" where
  "py_mod fmt a b =
     (case a of VStr s \<Rightarrow> fmt s b
      | _ \<Rightarrow> (case (as_num a, as_num b) of
          (Some x, Some y) \<Rightarrow>
            if num_rat y = 0 then zero_division else Inr (num_op (mod) rat_mod x y)
        | _ \<Rightarrow> type_error))"

text \<open>\<open>==\<close>: numbers by value across types, containers element by element, dictionaries
  regardless of the order of their keys.\<close>

function (sequential) py_eq :: "val \<Rightarrow> val \<Rightarrow> bool"
  and py_eq_list :: "val list \<Rightarrow> val list \<Rightarrow> bool"
  and py_eq_dict :: "(string \<times> val) list \<Rightarrow> (string \<times> val) list \<Rightarrow> bool" where
  "py_eq (VStr s) (VStr t) = (s = t)"
| "py_eq (VList s) (VList t) = py_eq_list s t"
| "py_eq (VDict d) (VDict e) = (length d = length e \<and> py_eq_dict d e)"
| "py_eq VNone VNone = True"
| "py_eq a b = (case (as_num a, as_num b) of
     (Some x, Some y) \<Rightarrow> num_rat x = num_rat y | _ \<Rightarrow> False)"
| "py_eq_list [] [] = True"
| "py_eq_list (x # xs) (y # ys) = (py_eq x y \<and> py_eq_list xs ys)"
| "py_eq_list _ _ = False"
| "py_eq_dict [] e = True"
| "py_eq_dict ((k, v) # d) e =
     ((case dict_get e k of None \<Rightarrow> False | Some w \<Rightarrow> py_eq v w) \<and> py_eq_dict d e)"
  by pat_completeness auto
termination
  by (relation "measure (\<lambda>x. case x of Inl (a, b) \<Rightarrow> size a
       | Inr (Inl (xs, ys)) \<Rightarrow> size_list size xs
       | Inr (Inr (d, e)) \<Rightarrow> size_list (size_prod (\<lambda>_. 0) size) d)") auto

text \<open>\<open><\<close>, \<open><=\<close>, \<open>>\<close>, \<open>>=\<close>: numbers, strings and lists (the first unequal
  elements decide, otherwise the lengths); anything else is a \<open>TypeError\<close>.\<close>

fun rat_cmp :: "cmpop \<Rightarrow> rat \<Rightarrow> rat \<Rightarrow> bool" where
  "rat_cmp Lt a b = (a < b)"
| "rat_cmp LtE a b = (a \<le> b)"
| "rat_cmp Gt a b = (a > b)"
| "rat_cmp GtE a b = (a \<ge> b)"
| "rat_cmp _ a b = False"

fun str_cmp :: "cmpop \<Rightarrow> string \<Rightarrow> string \<Rightarrow> bool" where
  "str_cmp op (a # s) (b # t) =
     (if a = b then str_cmp op s t
      else rat_cmp op (of_nat (of_char a)) (of_nat (of_char b)))"
| "str_cmp op s t = rat_cmp op (of_nat (length s)) (of_nat (length t))"

fun py_ord :: "cmpop \<Rightarrow> val \<Rightarrow> val \<Rightarrow> bool res"
  and py_ord_list :: "cmpop \<Rightarrow> val list \<Rightarrow> val list \<Rightarrow> bool res" where
  "py_ord op (VStr s) (VStr t) = Inr (str_cmp op s t)"
| "py_ord op (VList s) (VList t) = py_ord_list op s t"
| "py_ord op a b = (case (as_num a, as_num b) of
     (Some x, Some y) \<Rightarrow> Inr (rat_cmp op (num_rat x) (num_rat y))
   | _ \<Rightarrow> type_error)"
| "py_ord_list op (x # xs) (y # ys) = (if py_eq x y then py_ord_list op xs ys else py_ord op x y)"
| "py_ord_list op xs ys = Inr (rat_cmp op (of_nat (length xs)) (of_nat (length ys)))"

section \<open>The operator tables\<close>

fun bool_op :: "boolop \<Rightarrow> val \<Rightarrow> val \<Rightarrow> val" where
  "bool_op And a b = (if truth a then b else a)"
| "bool_op Or a b = (if truth a then a else b)"

fun bin_op :: "(string \<Rightarrow> val \<Rightarrow> val res) \<Rightarrow> binop \<Rightarrow> (val \<Rightarrow> val \<Rightarrow> val res) option" where
  "bin_op fmt Add = Some py_add"
| "bin_op fmt Sub = Some py_sub"
| "bin_op fmt Mult = Some py_mult"
| "bin_op fmt Div = Some py_div"
| "bin_op fmt Mod = Some (py_mod fmt)"
| "bin_op fmt (OtherBin _) = None"

fun num_neg :: "num \<Rightarrow> val" where
  "num_neg (NInt i) = VInt (- i)"
| "num_neg (NFloat r) = VFloat (- r)"

fun num_pos :: "num \<Rightarrow> val" where
  "num_pos (NInt i) = VInt i"
| "num_pos (NFloat r) = VFloat r"

fun un_op :: "unop \<Rightarrow> (val \<Rightarrow> val res) option" where
  "un_op Not = Some (\<lambda>v. Inr (VBool (\<not> truth v)))"
| "un_op USub = Some (\<lambda>v. case as_num v of Some n \<Rightarrow> Inr (num_neg n) | None \<Rightarrow> type_error)"
| "un_op UAdd = Some (\<lambda>v. case as_num v of Some n \<Rightarrow> Inr (num_pos n) | None \<Rightarrow> type_error)"
| "un_op (OtherUn _) = None"

fun cmp_op :: "cmpop \<Rightarrow> (val \<Rightarrow> val \<Rightarrow> bool res) option" where
  "cmp_op Eq = Some (\<lambda>a b. Inr (py_eq a b))"
| "cmp_op NotEq = Some (\<lambda>a b. Inr (\<not> py_eq a b))"
| "cmp_op (OtherCmp _) = None"
| "cmp_op op = Some (py_ord op)"

section \<open>The visitor\<close>

definition value_error :: "string \<Rightarrow> 'a res" where
  "value_error s = Inl (Exn ValueError s)"

fun visit :: "(string \<Rightarrow> val \<Rightarrow> val res) \<Rightarrow> val dict \<Rightarrow> expr \<Rightarrow> val res"
  and visit_bool :: "(string \<Rightarrow> val \<Rightarrow> val res) \<Rightarrow> val dict \<Rightarrow> boolop \<Rightarrow> val \<Rightarrow> expr list \<Rightarrow> val res"
  and visit_cmp :: "(string \<Rightarrow> val \<Rightarrow> val res) \<Rightarrow> val dict \<Rightarrow> val \<Rightarrow> (cmpop \<times> expr) list \<Rightarrow> val res"
where
  "visit fmt ctx (EBool op vs) =
     (case vs of [] \<Rightarrow> Inl (Exn IndexError ''list index out of range'')
      | v # rest \<Rightarrow> res_bind (visit fmt ctx v) (\<lambda>r. visit_bool fmt ctx op r rest))"
| "visit fmt ctx (EBin op l r) =
     (case bin_op fmt op of None \<Rightarrow> value_error ''Unsupported binary operator.''
      | Some f \<Rightarrow> res_bind (visit fmt ctx l) (\<lambda>a. res_bind (visit fmt ctx r) (\<lambda>b. f a b)))"
| "visit fmt ctx (EUn op e) =
     (case un_op op of None \<Rightarrow> value_error ''Unsupported unary operator.''
      | Some f \<Rightarrow> res_bind (visit fmt ctx e) f)"
| "visit fmt ctx (ECmp l rest) = res_bind (visit fmt ctx l) (\<lambda>a. visit_cmp fmt ctx a rest)"
| "visit fmt ctx (EName x) =
     (case dict_get ctx x of Some v \<Rightarrow> Inr v
      | None \<Rightarrow> value_error (''Unknown variable '' @ sq x @ '' in expression.''))"
| "visit fmt ctx (EConst v) = Inr v"
| "visit fmt ctx (EOther d) = value_error (''Unsupported expression element: '' @ d)"
| "visit_bool fmt ctx op r [] = Inr r"
| "visit_bool fmt ctx op r (v # vs) =
     res_bind (visit fmt ctx v) (\<lambda>x. visit_bool fmt ctx op (bool_op op r x) vs)"
| "visit_cmp fmt ctx a [] = Inr (VBool True)"
| "visit_cmp fmt ctx a ((op, e) # rest) =
     (case cmp_op op of None \<Rightarrow> value_error ''Unsupported comparison operator.''
      | Some f \<Rightarrow> res_bind (visit fmt ctx e) (\<lambda>b.
          res_bind (f a b) (\<lambda>ok. if \<not> ok then Inr (VBool False) else visit_cmp fmt ctx b rest)))"

definition safe_eval_bool ::
  "(string \<Rightarrow> expr option) \<Rightarrow> (string \<Rightarrow> val \<Rightarrow> val res) \<Rightarrow> string \<Rightarrow> val dict \<Rightarrow> bool res" where
  "safe_eval_bool parse fmt expression ctx =
     (case parse expression of
        None \<Rightarrow> value_error (''Invalid expression syntax: '' @ expression)
      | Some tree \<Rightarrow> res_bind (visit fmt ctx tree) (\<lambda>v. Inr (truth v)))"


section \<open>Python's own evaluation, as a reference\<close>

text \<open>
  What the Python interpreter does with the same tree: identical but for \<open>and\<close>/\<open>or\<close>,
  which stop at the operand that decides. The visitor evaluates every operand first and combines
  the values afterwards.
\<close>

fun decided :: "boolop \<Rightarrow> val \<Rightarrow> bool" where
  "decided And r = (\<not> truth r)"
| "decided Or r = truth r"

fun py_eval :: "(string \<Rightarrow> val \<Rightarrow> val res) \<Rightarrow> val dict \<Rightarrow> expr \<Rightarrow> val res"
  and py_eval_bool :: "(string \<Rightarrow> val \<Rightarrow> val res) \<Rightarrow> val dict \<Rightarrow> boolop \<Rightarrow> val \<Rightarrow> expr list \<Rightarrow> val res"
  and py_eval_cmp :: "(string \<Rightarrow> val \<Rightarrow> val res) \<Rightarrow> val dict \<Rightarrow> val \<Rightarrow> (cmpop \<times> expr) list \<Rightarrow> val res"
where
  "py_eval fmt ctx (EBool op vs) =
     (case vs of [] \<Rightarrow> Inl (Exn IndexError ''list index out of range'')
      | v # rest \<Rightarrow> res_bind (py_eval fmt ctx v) (\<lambda>r. py_eval_bool fmt ctx op r rest))"
| "py_eval fmt ctx (EBin op l r) =
     (case bin_op fmt op of None \<Rightarrow> value_error ''Unsupported binary operator.''
      | Some f \<Rightarrow> res_bind (py_eval fmt ctx l) (\<lambda>a. res_bind (py_eval fmt ctx r) (\<lambda>b. f a b)))"
| "py_eval fmt ctx (EUn op e) =
     (case un_op op of None \<Rightarrow> value_error ''Unsupported unary operator.''
      | Some f \<Rightarrow> res_bind (py_eval fmt ctx e) f)"
| "py_eval fmt ctx (ECmp l rest) = res_bind (py_eval fmt ctx l) (\<lambda>a. py_eval_cmp fmt ctx a rest)"
| "py_eval fmt ctx (EName x) =
     (case dict_get ctx x of Some v \<Rightarrow> Inr v
      | None \<Rightarrow> value_error (''Unknown variable '' @ sq x @ '' in expression.''))"
| "py_eval fmt ctx (EConst v) = Inr v"
| "py_eval fmt ctx (EOther d) = value_error (''Unsupported expression element: '' @ d)"
| "py_eval_bool fmt ctx op r [] = Inr r"
| "py_eval_bool fmt ctx op r (v # vs) =
     (if decided op r then Inr r
      else res_bind (py_eval fmt ctx v) (\<lambda>x. py_eval_bool fmt ctx op x vs))"
| "py_eval_cmp fmt ctx a [] = Inr (VBool True)"
| "py_eval_cmp fmt ctx a ((op, e) # rest) =
     (case cmp_op op of None \<Rightarrow> value_error ''Unsupported comparison operator.''
      | Some f \<Rightarrow> res_bind (py_eval fmt ctx e) (\<lambda>b.
          res_bind (f a b) (\<lambda>ok. if \<not> ok then Inr (VBool False) else py_eval_cmp fmt ctx b rest)))"

lemma bool_op_decided: "bool_op op r x = (if decided op r then r else x)"
  by (cases op) auto

lemma visit_bool_decided:
  "decided op r \<Longrightarrow> visit_bool fmt ctx op r vs = Inr w \<Longrightarrow> w = r"
  by (induction vs) (auto simp: res_bind_Inr_iff bool_op_decided)

lemma visit_py_eval:
  "visit fmt ctx e = Inr v \<Longrightarrow> py_eval fmt ctx e = Inr v"
  "visit_bool fmt ctx op r vs = Inr v \<Longrightarrow> py_eval_bool fmt ctx op r vs = Inr v"
  "visit_cmp fmt ctx a cs = Inr v \<Longrightarrow> py_eval_cmp fmt ctx a cs = Inr v"
proof (induction fmt ctx e and fmt ctx op r vs and fmt ctx a cs
    arbitrary: v and v and v rule: visit_visit_bool_visit_cmp.induct)
  case (9 fmt ctx op r e vs)
  then obtain x where x: "visit fmt ctx e = Inr x"
    "visit_bool fmt ctx op (bool_op op r x) vs = Inr v"
    by (auto simp: res_bind_Inr_iff)
  show ?case
  proof (cases "decided op r")
    case True
    then have "v = r" using x(2) visit_bool_decided by (simp add: bool_op_decided)
    then show ?thesis using True by simp
  next
    case False
    then show ?thesis using 9 x by (simp add: bool_op_decided)
  qed
qed (auto simp: res_bind_Inr_iff value_error_def split: list.splits option.splits if_splits)

section \<open>What a successful evaluation has visited\<close>

text \<open>The names and the elements that the visitor reaches whatever the values are: every operand of
  a boolean operator, but only the first comparator of a chain.\<close>

fun strict_names :: "expr \<Rightarrow> string list" where
  "strict_names (EName x) = [x]"
| "strict_names (EConst v) = []"
| "strict_names (EBool op vs) = concat (map strict_names vs)"
| "strict_names (EBin op l r) = strict_names l @ strict_names r"
| "strict_names (EUn op e) = strict_names e"
| "strict_names (ECmp l []) = strict_names l"
| "strict_names (ECmp l ((op, e) # cs)) = strict_names l @ strict_names e"
| "strict_names (EOther d) = []"

fun strict_supported :: "expr \<Rightarrow> bool" where
  "strict_supported (EName x) = True"
| "strict_supported (EConst v) = True"
| "strict_supported (EBool op vs) = list_all strict_supported vs"
| "strict_supported (EBin op l r) =
     ((case op of OtherBin _ \<Rightarrow> False | _ \<Rightarrow> True) \<and> strict_supported l \<and> strict_supported r)"
| "strict_supported (EUn op e) = ((case op of OtherUn _ \<Rightarrow> False | _ \<Rightarrow> True) \<and> strict_supported e)"
| "strict_supported (ECmp l []) = strict_supported l"
| "strict_supported (ECmp l ((op, e) # cs)) =
     ((case op of OtherCmp _ \<Rightarrow> False | _ \<Rightarrow> True) \<and> strict_supported l \<and> strict_supported e)"
| "strict_supported (EOther d) = False"

lemma bin_op_Some: "bin_op fmt op = Some f \<Longrightarrow> (case op of OtherBin _ \<Rightarrow> False | _ \<Rightarrow> True)"
  by (cases op) auto

lemma un_op_Some: "un_op op = Some f \<Longrightarrow> (case op of OtherUn _ \<Rightarrow> False | _ \<Rightarrow> True)"
  by (cases op) auto

lemma cmp_op_Some: "cmp_op op = Some f \<Longrightarrow> (case op of OtherCmp _ \<Rightarrow> False | _ \<Rightarrow> True)"
  by (cases op) auto

lemma visit_strict:
  "visit fmt ctx e = Inr v \<Longrightarrow>
     strict_supported e \<and> set (strict_names e) \<subseteq> set (dict_keys ctx)"
  "visit_bool fmt ctx op r vs = Inr v \<Longrightarrow>
     list_all strict_supported vs \<and> (\<forall>e \<in> set vs. set (strict_names e) \<subseteq> set (dict_keys ctx))"
  "visit_cmp fmt ctx a cs = Inr v \<Longrightarrow>
     (case cs of [] \<Rightarrow> True | (op, e) # _ \<Rightarrow> (case op of OtherCmp _ \<Rightarrow> False | _ \<Rightarrow> True) \<and>
        strict_supported e \<and> set (strict_names e) \<subseteq> set (dict_keys ctx))"
proof (induction fmt ctx e and fmt ctx op r vs and fmt ctx a cs
    arbitrary: v and v and v rule: visit_visit_bool_visit_cmp.induct)
  case (1 fmt ctx op vs)
  then obtain e es x where es: "vs = e # es" "visit fmt ctx e = Inr x"
    "visit_bool fmt ctx op x es = Inr v"
    by (auto simp: res_bind_Inr_iff split: list.splits)
  then show ?case using "1.IH"(1)[OF es(1,2)] "1.IH"(2)[OF es(1-3)]
    by (auto simp del: list.set_map)
next
  case (2 fmt ctx op l r)
  then obtain f a b where f: "bin_op fmt op = Some f" "visit fmt ctx l = Inr a" "visit fmt ctx r = Inr b"
    by (auto simp: res_bind_Inr_iff value_error_def split: option.splits)
  then show ?case using "2.IH"(1)[OF f(1,2)] "2.IH"(2)[OF f(1-3)] bin_op_Some[OF f(1)]
    by (simp del: list.set_map)
next
  case (3 fmt ctx op e)
  then show ?case
    by (auto simp: res_bind_Inr_iff value_error_def split: option.splits dest: un_op_Some)
next
  case (4 fmt ctx l cs)
  then show ?case by (cases cs) (fastforce simp: res_bind_Inr_iff)+
next
  case (5 fmt ctx x)
  then show ?case by (auto simp: value_error_def split: option.splits dest: dict_get_keys)
next
  case (9 fmt ctx op r e vs)
  then obtain x where x: "visit fmt ctx e = Inr x"
    "visit_bool fmt ctx op (bool_op op r x) vs = Inr v"
    by (auto simp: res_bind_Inr_iff)
  then show ?case using "9.IH"(1)[OF x(1)] "9.IH"(2)[OF x] by (simp del: list.set_map)
next
  case (11 fmt ctx a op e rest)
  then show ?case
    by (auto simp: res_bind_Inr_iff value_error_def split: option.splits dest: cmp_op_Some)
qed (auto simp: value_error_def res_bind_Inr_iff)

section \<open>Typed expressions do not fail\<close>

datatype ty = TNum | TBool | TStr

fun val_ty :: "val \<Rightarrow> ty option" where
  "val_ty (VBool b) = Some TBool"
| "val_ty (VInt i) = Some TNum"
| "val_ty (VFloat r) = Some TNum"
| "val_ty (VStr s) = Some TStr"
| "val_ty _ = None"

text \<open>A divisor is typed when it is a non-zero constant.\<close>

fun nonzero_const :: "expr \<Rightarrow> bool" where
  "nonzero_const (EConst (VInt i)) = (i \<noteq> 0)"
| "nonzero_const (EConst (VFloat r)) = (r \<noteq> 0)"
| "nonzero_const _ = False"

fun bin_ty :: "binop \<Rightarrow> ty \<Rightarrow> ty \<Rightarrow> bool \<Rightarrow> ty option" where
  "bin_ty Add TNum TNum nz = Some TNum"
| "bin_ty Add TStr TStr nz = Some TStr"
| "bin_ty Sub TNum TNum nz = Some TNum"
| "bin_ty Mult TNum TNum nz = Some TNum"
| "bin_ty Div TNum TNum nz = (if nz then Some TNum else None)"
| "bin_ty Mod TNum TNum nz = (if nz then Some TNum else None)"
| "bin_ty _ _ _ nz = None"

fun un_ty :: "unop \<Rightarrow> ty \<Rightarrow> ty option" where
  "un_ty Not t = Some TBool"
| "un_ty USub TNum = Some TNum"
| "un_ty UAdd TNum = Some TNum"
| "un_ty _ _ = None"

fun cmp_ty :: "cmpop \<Rightarrow> ty \<Rightarrow> ty \<Rightarrow> bool" where
  "cmp_ty Eq s t = True"
| "cmp_ty NotEq s t = True"
| "cmp_ty (OtherCmp _) s t = False"
| "cmp_ty op s t = (s = t \<and> s \<noteq> TBool)"

fun tyof :: "(string \<Rightarrow> ty option) \<Rightarrow> expr \<Rightarrow> ty option"
  and tyof_bools :: "(string \<Rightarrow> ty option) \<Rightarrow> expr list \<Rightarrow> bool"
  and tyof_cmps :: "(string \<Rightarrow> ty option) \<Rightarrow> ty \<Rightarrow> (cmpop \<times> expr) list \<Rightarrow> bool" where
  "tyof G (EName x) = G x"
| "tyof G (EConst v) = val_ty v"
| "tyof G (EBool op vs) = (if vs \<noteq> [] \<and> tyof_bools G vs then Some TBool else None)"
| "tyof G (EBin op l r) =
     (case (tyof G l, tyof G r) of
        (Some s, Some t) \<Rightarrow> bin_ty op s t (nonzero_const r) | _ \<Rightarrow> None)"
| "tyof G (EUn op e) = (case tyof G e of None \<Rightarrow> None | Some t \<Rightarrow> un_ty op t)"
| "tyof G (ECmp l cs) =
     (case tyof G l of None \<Rightarrow> None | Some t \<Rightarrow> if tyof_cmps G t cs then Some TBool else None)"
| "tyof G (EOther d) = None"
| "tyof_bools G [] = True"
| "tyof_bools G (e # es) = (tyof G e = Some TBool \<and> tyof_bools G es)"
| "tyof_cmps G t [] = True"
| "tyof_cmps G t ((op, e) # cs) =
     (case tyof G e of None \<Rightarrow> False | Some u \<Rightarrow> cmp_ty op t u \<and> tyof_cmps G u cs)"

text \<open>A context that binds every typed name to a value of its type.\<close>

definition conforms :: "(string \<Rightarrow> ty option) \<Rightarrow> val dict \<Rightarrow> bool" where
  "conforms G ctx \<longleftrightarrow> (\<forall>x t. G x = Some t \<longrightarrow> (\<exists>v. dict_get ctx x = Some v \<and> val_ty v = Some t))"

lemma val_ty_iff:
  "val_ty v = Some TNum \<longleftrightarrow> (\<exists>i. v = VInt i) \<or> (\<exists>r. v = VFloat r)"
  "val_ty v = Some TBool \<longleftrightarrow> (\<exists>b. v = VBool b)"
  "val_ty v = Some TStr \<longleftrightarrow> (\<exists>s. v = VStr s)"
  by (cases v; simp)+

lemma bin_op_typed:
  assumes "bin_ty op s t nz = Some u" "val_ty a = Some s" "val_ty b = Some t"
    "nz \<Longrightarrow> \<forall>n. as_num b = Some n \<longrightarrow> num_rat n \<noteq> 0"
  shows "\<exists>f v. bin_op fmt op = Some f \<and> f a b = Inr v \<and> val_ty v = Some u"
  using assms
  by (cases "(op, s, t, nz)" rule: bin_ty.cases)
     (auto simp: val_ty_iff py_add_def py_sub_def py_mult_def py_div_def py_mod_def split: if_splits)

lemma un_op_typed:
  assumes "un_ty op s = Some u" "val_ty a = Some s"
  shows "\<exists>f v. un_op op = Some f \<and> f a = Inr v \<and> val_ty v = Some u"
  using assms by (cases "(op, s)" rule: un_ty.cases) (auto simp: val_ty_iff)

lemma cmp_op_typed:
  assumes "cmp_ty op s t" "val_ty a = Some s" "val_ty b = Some t"
  shows "\<exists>f ok. cmp_op op = Some f \<and> f a b = Inr ok"
  using assms
  by (cases op; cases s; cases t) (auto simp: val_ty_iff)

lemma bool_op_typed:
  "val_ty a = Some t \<Longrightarrow> val_ty b = Some t \<Longrightarrow> val_ty (bool_op op a b) = Some t"
  by (cases op) auto

lemma nonzero_const_val:
  "nonzero_const e \<Longrightarrow> visit fmt ctx e = Inr b \<Longrightarrow> as_num b = Some n \<Longrightarrow> num_rat n \<noteq> 0"
  by (cases e rule: nonzero_const.cases) auto

lemma visit_EBool:
  "vs \<noteq> [] \<Longrightarrow> visit fmt ctx (EBool op vs) = visit_bool fmt ctx op (VBool (op = And)) vs"
  by (cases vs; cases op) simp_all

lemma visit_typed:
  "tyof G e = Some t \<Longrightarrow> conforms G ctx \<Longrightarrow> \<exists>v. visit fmt ctx e = Inr v \<and> val_ty v = Some t"
  "tyof_bools G vs \<Longrightarrow> conforms G ctx \<Longrightarrow> val_ty r = Some TBool \<Longrightarrow>
     \<exists>v. visit_bool fmt ctx op r vs = Inr v \<and> val_ty v = Some TBool"
  "tyof_cmps G u cs \<Longrightarrow> conforms G ctx \<Longrightarrow> val_ty a = Some u \<Longrightarrow>
     \<exists>v. visit_cmp fmt ctx a cs = Inr v \<and> val_ty v = Some TBool"
proof (induction G e and G vs and G u cs arbitrary: t and r op and a
    rule: tyof_tyof_bools_tyof_cmps.induct)
  case (1 G x)
  then show ?case by (fastforce simp: conforms_def)
next
  case (2 G v)
  then show ?case by simp
next
  case (3 G bop vs)
  then have vs: "vs \<noteq> []" "tyof_bools G vs" "t = TBool" by (simp_all split: if_splits)
  obtain v where "visit_bool fmt ctx bop (VBool (bop = And)) vs = Inr v" "val_ty v = Some TBool"
    using "3.IH"[OF _ "3.prems"(2), of "VBool (bop = And)" bop] vs by auto
  then show ?case using vs by (simp add: visit_EBool del: visit.simps)
next
  case (4 G op l r)
  then obtain s1 s2 where ty: "tyof G l = Some s1" "tyof G r = Some s2"
    "bin_ty op s1 s2 (nonzero_const r) = Some t"
    by (auto split: option.splits)
  obtain a where a: "visit fmt ctx l = Inr a" "val_ty a = Some s1" using "4.IH"(1) ty "4.prems" by blast
  obtain b where b: "visit fmt ctx r = Inr b" "val_ty b = Some s2" using "4.IH"(2) ty "4.prems" by blast
  obtain f v where "bin_op fmt op = Some f" "f a b = Inr v" "val_ty v = Some t"
    using bin_op_typed[OF ty(3) a(2) b(2)] nonzero_const_val[OF _ b(1)] by blast
  then show ?case using a b by simp
next
  case (5 G op e)
  then obtain s where ty: "tyof G e = Some s" "un_ty op s = Some t" by (auto split: option.splits)
  obtain a where a: "visit fmt ctx e = Inr a" "val_ty a = Some s" using "5.IH" ty "5.prems" by blast
  then show ?case using un_op_typed[OF ty(2) a(2)] by auto
next
  case (6 G l cs)
  then obtain s where ty: "tyof G l = Some s" "tyof_cmps G s cs" "t = TBool"
    by (auto split: option.splits if_splits)
  obtain a where a: "visit fmt ctx l = Inr a" "val_ty a = Some s" using "6.IH"(1) ty "6.prems" by blast
  then show ?case using "6.IH"(2)[OF ty(1,2) "6.prems"(2) a(2)] ty(3) by auto
next
  case (9 G e es)
  then obtain x where x: "visit fmt ctx e = Inr x" "val_ty x = Some TBool" by fastforce
  then show ?case using "9.IH"(2)[of "bool_op op r x" op] "9.prems" bool_op_typed[of r TBool x op] by auto
next
  case (11 G u op e cs)
  then obtain s where ty: "tyof G e = Some s" "cmp_ty op u s" "tyof_cmps G s cs"
    by (auto split: option.splits)
  obtain b where b: "visit fmt ctx e = Inr b" "val_ty b = Some s" using "11.IH"(1) ty "11.prems" by blast
  obtain f ok where f: "cmp_op op = Some f" "f a b = Inr ok"
    using cmp_op_typed[OF ty(2) "11.prems"(3) b(2)] by blast
  show ?case using "11.IH"(2)[OF ty(1,3) "11.prems"(2) b(2)] b f by auto
qed auto

section \<open>Properties\<close>

text \<open>Whenever \<open>safe_eval_bool\<close> returns, Python itself would have returned the same truth
  value for the parsed expression: the hand-written visitor never disagrees with the interpreter on
  an expression that it accepts.\<close>

theorem safe_eval_agrees_with_python:
  assumes "safe_eval_bool parse fmt s ctx = Inr b"
  shows "\<exists>t v. parse s = Some t \<and> py_eval fmt ctx t = Inr v \<and> b = truth v"
  using assms
  by (auto simp: safe_eval_bool_def res_bind_Inr_iff value_error_def split: option.splits
      dest: visit_py_eval(1))

theorem safe_eval_agrees_with_python_witness:
  "py_eval (\<lambda>_ _. type_error) [(''n'', VInt 2)]
     (ECmp (EConst (VInt 1)) [(Lt, EName ''n''), (LtE, EConst (VFloat (5/2)))]) = Inr (VBool True)"
proof -
  let ?t = "ECmp (EConst (VInt 1)) [(Lt, EName ''n''), (LtE, EConst (VFloat (5/2)))]"
  have "safe_eval_bool (\<lambda>_. Some ?t) (\<lambda>_ _. type_error) ''1 < n <= 2.5'' [(''n'', VInt 2)] = Inr True"
    by (simp add: safe_eval_bool_def)
  from safe_eval_agrees_with_python [OF this]
  obtain v where "py_eval (\<lambda>_ _. type_error) [(''n'', VInt 2)] ?t = Inr v" "truth v" by auto
  then show ?thesis by simp
qed

text \<open>The sandbox: \<open>safe_eval_bool\<close> returns only if no element outside the whitelist and no
  unbound variable sits anywhere the visitor reaches unconditionally, operands of \<open>and\<close>/\<open>or\<close>
  included.\<close>

theorem safe_eval_only_whitelisted:
  assumes "safe_eval_bool parse fmt s ctx = Inr b"
  shows "\<exists>t. parse s = Some t \<and> strict_supported t \<and> set (strict_names t) \<subseteq> set (dict_keys ctx)"
proof -
  obtain t v where "parse s = Some t" "visit fmt ctx t = Inr v"
    using assms by (auto simp: safe_eval_bool_def res_bind_Inr_iff value_error_def split: option.splits)
  then show ?thesis using visit_strict(1) by blast
qed

theorem safe_eval_only_whitelisted_witness:
  "strict_supported (EBool And [EName ''x'', EName ''y'']) \<and>
   set (strict_names (EBool And [EName ''x'', EName ''y''])) \<subseteq>
     set (dict_keys [(''x'', VInt 0), (''y'', VInt 1)])"
proof -
  have "safe_eval_bool (\<lambda>_. Some (EBool And [EName ''x'', EName ''y''])) (\<lambda>_ _. type_error)
    ''x and y'' [(''x'', VInt 0), (''y'', VInt 1)] = Inr False"
    by (simp add: safe_eval_bool_def)
  from safe_eval_only_whitelisted [OF this] show ?thesis by simp
qed

text \<open>\<open>and\<close>/\<open>or\<close> do not short-circuit: if evaluating any operand raises, so does the whole
  expression, even where an earlier operand decides the result and Python would stop there.\<close>

theorem safe_eval_strict_operands:
  assumes "parse s = Some (EBool op vs)" "e \<in> set vs" "visit fmt ctx e = Inl x"
  shows "\<exists>y. safe_eval_bool parse fmt s ctx = Inl y"
proof -
  have list: "e \<in> set vs \<Longrightarrow> visit_bool fmt ctx op r vs \<noteq> Inr w" for r w vs
    using assms(3) by (induction vs arbitrary: r) (auto simp: res_bind_Inr_iff)
  have "visit fmt ctx (EBool op vs) \<noteq> Inr w" for w
    using list[OF assms(2)] assms(2) by (subst visit_EBool) auto
  then show ?thesis
    by (cases "visit fmt ctx (EBool op vs)")
       (auto simp add: safe_eval_bool_def assms(1) simp del: visit.simps)
qed

theorem safe_eval_strict_operands_witness:
  "(\<exists>y. safe_eval_bool (\<lambda>_. Some (EBool Or [EName ''ok'', EName ''missing''])) (\<lambda>_ _. type_error)
      ''ok or missing'' [(''ok'', VBool True)] = Inl y) \<and>
   py_eval (\<lambda>_ _. type_error) [(''ok'', VBool True)] (EBool Or [EName ''ok'', EName ''missing'']) =
     Inr (VBool True)"
proof -
  have "\<exists>y. safe_eval_bool (\<lambda>_. Some (EBool Or [EName ''ok'', EName ''missing''])) (\<lambda>_ _. type_error)
      ''ok or missing'' [(''ok'', VBool True)] = Inl y"
    by (rule safe_eval_strict_operands [where e = "EName ''missing''", OF refl])
       (simp_all add: value_error_def)
  then show ?thesis by simp
qed

text \<open>Type soundness: an expression that type-checks (booleans under \<open>and\<close>/\<open>or\<close>, ordering
  within numbers or within strings, division only by a non-zero constant) never raises in a context
  that binds its variables at their types; the condition gets a truth value.\<close>

theorem safe_eval_typed_returns:
  assumes "parse s = Some t" "tyof G t = Some ty" "conforms G ctx"
  shows "\<exists>b. safe_eval_bool parse fmt s ctx = Inr b"
  using visit_typed(1)[OF assms(2,3), of fmt] by (auto simp: safe_eval_bool_def assms(1))

theorem safe_eval_typed_returns_witness:
  "\<exists>b. safe_eval_bool (\<lambda>_. Some (ECmp (EBin Div (EName ''cost'') (EConst (VInt 2))) [(Lt, EConst (VInt 30))]))
      (\<lambda>_ _. type_error) ''cost / 2 < 30'' [(''cost'', VFloat (51/2))] = Inr b"
  by (rule safe_eval_typed_returns [where G = "[''cost'' \<mapsto> TNum]" and ty = TBool, OF refl])
     (simp_all add: conforms_def)

end
