(* ===== verification/Executors.thy ===== *)
theory Executors
  imports NodeExec Effects SafeEval
begin

text \<open>
  The executors of the node kinds that control other nodes, and of the simple ones
  (\<open>src/ice_orchestrator/execution/executors/builtin/\<close>): loop, condition, parallel, recursive,
  workflow, swarm, monitor, human, tool. LLM, agent and code nodes call services outside the model.

  What an executor calls is an argument: \<open>ne_impl\<close> looks up the implementation registered for the
  kind and name of a node and runs it (\<open>KeyError\<close> when there is none), \<open>ne_cond\<close> the same for a
  registered condition, \<open>ne_run\<close> is \<open>get_executor(type)\<close> and the call of what it returns,
  \<open>ne_nested\<close> is \<open>Workflow.execute_node_config\<close>, \<open>ne_sub\<close> looks up and executes a registered
  workflow, \<open>ne_parse\<close> and \<open>ne_fmt\<close> are the parameters of the safe evaluator, \<open>ne_render\<close> is
  the template engine on one string, \<open>ne_environment\<close> the name of the deployment environment.

  \<open>ne_nested\<close> is code of the repository, which the executors reach through the workflow object they are given.
  The theory on the engine defines it (\<open>nested_call\<close>) and proves what condition and parallel nodes do with
  it; nothing is proved here that assumes anything of it. A nested call is one step of a branch
  (\<open>branch_step\<close>). That is what the code does as long as the nested node has no level, which it has only when
  the workflow has a node with the same hierarchical id: \<open>execute_node\<close> then raises \<open>KeyError\<close> before its
  first await, and \<open>execute_node_config\<close> takes its entry out of \<open>self.nodes\<close> again.
\<close>

section \<open>Environment\<close>

text \<open>A tool: the parameters of its \<open>_execute_impl\<close> without \<open>self\<close> and \<open>kwargs\<close> (\<open>None\<close> when it
  has no such method), and \<open>execute\<close>.\<close>

record 'w tool_obj =
  to_params :: "string list option"
  to_execute :: "val dict \<Rightarrow> ('w, exec_out) act"

record 'w node_env =
  ne_impl :: "node_type \<Rightarrow> string \<Rightarrow> node \<Rightarrow> val dict \<Rightarrow> ('w, exec_out) act"
  ne_cond :: "string \<Rightarrow> string \<Rightarrow> val dict \<Rightarrow> ('w, val) act"
  ne_run :: "node \<Rightarrow> val dict \<Rightarrow> ('w, exec_out) act"
  ne_nested :: "node \<Rightarrow> val dict \<Rightarrow> string \<Rightarrow> ('w, node_result) act"
  ne_sub :: "string \<Rightarrow> val dict \<Rightarrow> ('w, exec_out) act"
  ne_tool :: "string \<Rightarrow> 'w tool_obj res"
  ne_agent_path :: "string \<Rightarrow> string res"
  ne_parse :: "string \<Rightarrow> expr option"
  ne_fmt :: "string \<Rightarrow> val \<Rightarrow> val res"
  ne_render :: "string \<Rightarrow> val dict \<Rightarrow> string res"
  ne_environment :: string

definition ok_result :: "string \<Rightarrow> string \<Rightarrow> val \<Rightarrow> node_result" where
  "ok_result i t v = success_result v (meta i t None 0)"

text \<open>A failure result with the empty dict as output, as the handlers of the executors build it.\<close>

definition failed_with :: "string \<Rightarrow> string \<Rightarrow> string option \<Rightarrow> val \<Rightarrow> string \<Rightarrow> node_result" where
  "failed_with i t et out msg = (failure_result msg (meta i t et 0))\<lparr>nr_output := out\<rparr>"

definition handler_result :: "node \<Rightarrow> exn \<Rightarrow> node_result" where
  "handler_result n e =
     failed_with (node_id n) (node_type_str n) (Some (exn_name (exn_kind e))) (VDict []) (exn_msg e)"

definition impl_name :: "node \<Rightarrow> string" where
  "impl_name n = (case cname (base n) of Some (c # cs) \<Rightarrow> c # cs | _ \<Rightarrow> node_id n)"

definition out_value :: "exec_out \<Rightarrow> val" where
  "out_value x = (case x of Packed r \<Rightarrow> nr_output r | Plain v \<Rightarrow> v)"

text \<open>What a registered implementation returned, as a result.\<close>

definition impl_result :: "node \<Rightarrow> exec_out \<Rightarrow> node_result" where
  "impl_result n x = (case x of
       Packed r \<Rightarrow> r | Plain v \<Rightarrow> ok_result (node_id n) (node_type_str n) v)"

text \<open>\<open>try: registered implementation except KeyError: pass\<close>\<close>

definition impl_or ::
  "'w node_env \<Rightarrow> node \<Rightarrow> val dict \<Rightarrow> ('w, node_result) act \<Rightarrow> ('w, node_result) act" where
  "impl_or env n ctx inline =
     act_catch (act_bind (ne_impl env (node_type_of n) (impl_name n) n ctx) (\<lambda>x. act_ret (impl_result n x)))
       (on_key_error inline)"

definition eval_cond :: "'w node_env \<Rightarrow> string \<Rightarrow> val dict \<Rightarrow> bool res" where
  "eval_cond env e ctx = safe_eval_bool (ne_parse env) (ne_fmt env) e ctx"

section \<open>Loop\<close>

text \<open>\<open>items[: max_iterations or len(items)]\<close>\<close>

definition limit_items :: "int option \<Rightarrow> 'a list \<Rightarrow> 'a list" where
  "limit_items m xs = (case m of
       None \<Rightarrow> xs
     | Some k \<Rightarrow> if k = 0 then xs
                 else if k < 0 then take (length xs - nat (- k)) xs else take (nat k) xs)"

text \<open>One iteration: the last output and the context of the item.\<close>

definition loop_body :: "'w node_env \<Rightarrow> node \<Rightarrow> val \<times> val dict \<Rightarrow> ('w, val \<times> val dict) act" where
  "loop_body env m s = act_bind (ne_run env m (snd s)) (\<lambda>x.
     act_ret (out_value x, dict_set (node_id m) (out_value x) (snd s)))"

definition loop_item ::
  "'w node_env \<Rightarrow> string \<Rightarrow> node list \<Rightarrow> val dict \<Rightarrow> val \<Rightarrow> val list \<Rightarrow> ('w, val list) act" where
  "loop_item env var body ctx item results =
     act_bind (act_fold (loop_body env) body (VNone, dict_set var item ctx))
       (\<lambda>s. act_ret (results @ [fst s]))"

definition loop_inline ::
  "'w node_env \<Rightarrow> node \<Rightarrow> string \<Rightarrow> string \<Rightarrow> node list \<Rightarrow> int option \<Rightarrow> val dict \<Rightarrow> ('w, node_result) act" where
  "loop_inline env n source var body m ctx =
     (if source = '''' then act_raise (Exn ValueError ''Loop node missing items_source / iterator_path'')
      else act_bind (act_res (resolve_nested_path (VDict ctx) source)) (\<lambda>v. case v of
          VList items \<Rightarrow>
            act_bind (act_fold (loop_item env (if var = '''' then ''item'' else var) body ctx) (limit_items m items) [])
              (\<lambda>rs. act_ret (ok_result (node_id n) ''loop'' (VList rs)))
        | _ \<Rightarrow> act_raise (Exn ValueError (''Iterator path '' @ source @ '' did not resolve to a list''))))"

section \<open>Condition\<close>

definition branch_node ::
  "'w node_env \<Rightarrow> string \<Rightarrow> node \<Rightarrow> val dict \<times> val dict \<Rightarrow> ('w, val dict \<times> val dict) act" where
  "branch_node env parent m s = act_bind (ne_nested env m (snd s) parent) (\<lambda>r.
     act_ret (dict_set (node_id m) (nr_output r) (fst s), dict_set (node_id m) (nr_output r) (snd s)))"

definition condition_output :: "string \<Rightarrow> val \<Rightarrow> val dict \<Rightarrow> val" where
  "condition_output e v outs = VDict [(''result'', v),
     (''branch'', VStr (if truth v then ''true'' else ''false'')), (''expression'', VStr e),
     (''branch_outputs'', VDict outs)]"

definition condition_body ::
  "'w node_env \<Rightarrow> node \<Rightarrow> string \<Rightarrow> node list \<Rightarrow> node list option \<Rightarrow> val dict \<Rightarrow> ('w, node_result) act" where
  "condition_body env n e yes no ctx =
     act_bind (act_catch (ne_cond env (impl_name n) e ctx)
        (on_key_error (act_bind (act_res (eval_cond env e ctx)) (\<lambda>b. act_ret (VBool b))))) (\<lambda>v.
     let branch = (if truth v then yes else (case no of None \<Rightarrow> [] | Some ns \<Rightarrow> ns))
     in act_bind (act_fold (branch_node env (node_id n)) branch ([], dict_set ''condition_result'' v ctx)) (\<lambda>s.
        act_ret (ok_result (node_id n) (node_type_str n) (condition_output e v (fst s)))))"

definition condition_failed :: "node \<Rightarrow> string \<Rightarrow> exn \<Rightarrow> node_result" where
  "condition_failed n e x = failed_with (node_id n) (node_type_str n) (Some (exn_name (exn_kind x))) (VDict [])
     (''Failed to evaluate condition '' @ sq e @ '': '' @ exn_msg x)"

definition condition_executor ::
  "'w node_env \<Rightarrow> node \<Rightarrow> string \<Rightarrow> node list \<Rightarrow> node list option \<Rightarrow> val dict \<Rightarrow> ('w, node_result) act" where
  "condition_executor env n e yes no ctx =
     act_catch (condition_body env n e yes no ctx) (on_any (condition_failed n e))"

section \<open>Parallel\<close>

text \<open>
  The branches run as tasks of one event loop: a run of a node of one branch is a step, and the
  steps of the branches interleave in any order. A schedule lists the branches whose next node
  runs; \<open>gather\<close> waits for the rest. An exception ends its own branch only.
\<close>

record branch_run =
  br_todo :: "node list"
  br_ctx :: "val dict"
  br_out :: "val dict res"

definition branch_start :: "val dict \<Rightarrow> nat \<Rightarrow> node list \<Rightarrow> branch_run" where
  "branch_start ctx i ns = \<lparr>br_todo = ns, br_ctx = dict_set ''branch_index'' (VInt (int i)) ctx, br_out = Inr []\<rparr>"

definition branch_value :: "node_result \<Rightarrow> val" where
  "branch_value r = (if nr_success r then nr_output r
     else VDict [(''error'', case nr_error r of None \<Rightarrow> VNone | Some e \<Rightarrow> VStr e)])"

definition branch_step :: "'w node_env \<Rightarrow> string \<Rightarrow> branch_run \<Rightarrow> 'w \<Rightarrow> branch_run \<times> 'w" where
  "branch_step env parent b w = (case (br_todo b, br_out b) of
       (m # ms, Inr out) \<Rightarrow>
         (case ne_nested env m (br_ctx b) parent w of
            (Inl e, w') \<Rightarrow> (b\<lparr>br_todo := [], br_out := Inl e\<rparr>, w')
          | (Inr r, w') \<Rightarrow>
              (\<lparr>br_todo = ms, br_ctx = dict_set (node_id m) (nr_output r) (br_ctx b),
                br_out = Inr (dict_set (node_id m) (branch_value r) out)\<rparr>, w'))
     | _ \<Rightarrow> (b, w))"

definition par_step ::
  "'w node_env \<Rightarrow> string \<Rightarrow> nat \<Rightarrow> branch_run list \<times> 'w \<Rightarrow> branch_run list \<times> 'w" where
  "par_step env parent i s =
     (if i < length (fst s)
      then (let (b, w) = branch_step env parent (fst s ! i) (snd s) in ((fst s)[i := b], w))
      else s)"

definition drain_schedule :: "node list list \<Rightarrow> nat list" where
  "drain_schedule branches = concat (map (\<lambda>i. replicate (length (branches ! i)) i) [0..<length branches])"

definition run_branches ::
  "'w node_env \<Rightarrow> string \<Rightarrow> nat list \<Rightarrow> node list list \<Rightarrow> val dict \<Rightarrow> 'w \<Rightarrow> branch_run list \<times> 'w" where
  "run_branches env parent sched branches ctx w =
     fold (par_step env parent) (sched @ drain_schedule branches)
       (map2 (branch_start ctx) [0..<length branches] branches, w)"

definition branch_entry :: "nat \<Rightarrow> val dict res \<Rightarrow> val dict" where
  "branch_entry i out = (case out of
       Inl e \<Rightarrow> [(''branch_error'', VStr (exn_msg e)), (''branch_index'', VInt (int i))]
     | Inr d \<Rightarrow> d)"

definition merge_value :: "val dict \<Rightarrow> string \<times> val \<Rightarrow> val dict" where
  "merge_value merged kv = (case dict_get merged (fst kv) of
       None \<Rightarrow> dict_set (fst kv) (snd kv) merged
     | Some (VList vs) \<Rightarrow> dict_set (fst kv) (VList (vs @ [snd kv])) merged
     | Some v \<Rightarrow> dict_set (fst kv) (VList [v, snd kv]) merged)"

definition merge_entry :: "val dict \<Rightarrow> val dict \<Rightarrow> val dict" where
  "merge_entry merged entry =
     (if dict_get entry ''branch_error'' \<noteq> None then merged else foldl merge_value merged entry)"

text \<open>When the first output of a node id is a list, the merged entry is that list itself, so what
  other branches append shows in the result of the first branch as well.\<close>

definition shared_entry :: "val dict \<Rightarrow> string list \<Rightarrow> val dict \<Rightarrow> val dict" where
  "shared_entry merged seen entry =
     (if dict_get entry ''branch_error'' \<noteq> None then entry
      else map (\<lambda>(k, v). (k, case v of
               VList vs \<Rightarrow> if k \<in> set seen then v else dict_get_or merged k v
             | _ \<Rightarrow> v)) entry)"

fun shared_entries :: "val dict \<Rightarrow> string list \<Rightarrow> val dict list \<Rightarrow> val dict list" where
  "shared_entries merged seen [] = []"
| "shared_entries merged seen (d # ds) = shared_entry merged seen d
     # shared_entries merged (if dict_get d ''branch_error'' \<noteq> None then seen else seen @ dict_keys d) ds"

definition parallel_output :: "bool \<Rightarrow> val dict list \<Rightarrow> val" where
  "parallel_output merge entries =
     (let merged = foldl merge_entry [] entries;
          shown = (if merge then shared_entries merged [] entries else entries)
      in VDict ([(''branch_results'', VList (map VDict shown)),
                 (''completed_branches'', VList (map (\<lambda>i. VInt (int i)) [0..<length entries])),
                 (''strategy'', VStr ''all'')] @ (if merge then [(''merged'', VDict merged)] else [])))"

definition parallel_inline ::
  "'w node_env \<Rightarrow> nat list \<Rightarrow> node \<Rightarrow> node list list \<Rightarrow> bool \<Rightarrow> val dict \<Rightarrow> ('w, node_result) act" where
  "parallel_inline env sched n branches merge ctx w =
     (if branches = []
      then (Inl (Exn ValueError (''Parallel node '' @ node_id n @ '' has no branches'')), w)
      else (let (bs, w') = run_branches env (node_id n) sched branches ctx w
            in (Inr (ok_result (node_id n) (node_type_str n)
                  (parallel_output merge (map2 branch_entry [0..<length bs] (map br_out bs)))), w')))"

definition parallel_executor ::
  "'w node_env \<Rightarrow> nat list \<Rightarrow> node \<Rightarrow> node list list \<Rightarrow> bool \<Rightarrow> val dict \<Rightarrow> ('w, node_result) act" where
  "parallel_executor env sched n branches merge ctx =
     act_catch (impl_or env n ctx (parallel_inline env sched n branches merge ctx)) (on_any (handler_result n))"

section \<open>Recursive\<close>

text \<open>The iteration number of the context: any number compares and counts, another value raises.\<close>

fun iteration_num :: "val \<Rightarrow> rat res" where
  "iteration_num (VInt i) = Inr (of_int i)"
| "iteration_num (VBool b) = Inr (if b then 1 else 0)"
| "iteration_num (VFloat r) = Inr r"
| "iteration_num _ = type_error"

fun next_iteration :: "val \<Rightarrow> val" where
  "next_iteration (VFloat r) = VFloat (r + 1)"
| "next_iteration (VBool b) = VInt (if b then 2 else 1)"
| "next_iteration (VInt i) = VInt (i + 1)"
| "next_iteration v = v"

definition final_output :: "bool \<Rightarrow> string \<Rightarrow> val \<Rightarrow> val \<Rightarrow> val" where
  "final_output converged reason it c = VDict [(''converged'', VBool converged), (''reason'', VStr reason),
     (''iterations'', it), (''final_context'', c)]"

text \<open>The context of the next iteration; \<open>enhanced_ctx[context_key]\<close> must be a dict to be
  written to.\<close>

definition next_context :: "node \<Rightarrow> recursive_fields \<Rightarrow> val dict \<Rightarrow> val \<Rightarrow> val dict res" where
  "next_context n r ctx it =
     (let ctx1 = dict_set ''_recursive_iteration'' (next_iteration it) ctx
      in if \<not> rc_preserve r then Inr ctx1
         else (case dict_get_or ctx1 (rc_context_key r) (VDict []) of
                 VDict d \<Rightarrow> Inr (dict_set (rc_context_key r)
                     (VDict (dict_set ''node_id'' (VStr (node_id n))
                              (dict_set ''iteration'' (next_iteration it) d))) ctx1)
               | _ \<Rightarrow> type_error))"

text \<open>The agent configuration that is built on the spot names no model, and pydantic reports what a
  validator raises as a \<open>ValidationError\<close>.\<close>

definition as_validation_error :: "'a res \<Rightarrow> 'a res" where
  "as_validation_error r = (case r of Inl e \<Rightarrow> Inl (Exn ValidationError (exn_msg e)) | Inr x \<Rightarrow> Inr x)"

definition inner_agent :: "node \<Rightarrow> string \<Rightarrow> node res" where
  "inner_agent n pkg = as_validation_error (res_bind
     (sync_agent (validate_agent_attr \<lparr>ag_package = pkg, ag_attr = None, ag_model = None, ag_config = None,
        ag_max_iterations = 10\<rparr>))
     (\<lambda>a. Inr (Node ((default_base (node_id n) [])\<lparr>cname := Some ''recursive_agent''\<rparr>) (KAgent a))))"

definition inner_workflow :: "node \<Rightarrow> string \<Rightarrow> node" where
  "inner_workflow n ref =
     Node ((default_base (node_id n) [])\<lparr>cname := Some ''recursive_workflow''\<rparr>) (KWorkflow ref [] [])"

definition run_inner :: "'w node_env \<Rightarrow> node \<Rightarrow> recursive_fields \<Rightarrow> val dict \<Rightarrow> ('w, exec_out) act" where
  "run_inner env n r ctx =
     (case (rc_agent_package r, rc_workflow_ref r) of
        (Some (c # cs), _) \<Rightarrow> act_bind (act_res (inner_agent n (c # cs))) (\<lambda>m. ne_run env m ctx)
      | (_, Some (c # cs)) \<Rightarrow> ne_run env (inner_workflow n (c # cs)) ctx
      | _ \<Rightarrow> act_raise (Exn ValueError (''Recursive node '' @ node_id n
               @ '' must specify either agent_package or workflow_ref'')))"

definition annotate :: "node \<Rightarrow> recursive_fields \<Rightarrow> val \<Rightarrow> val dict \<Rightarrow> exec_out \<Rightarrow> node_result res" where
  "annotate n r it ctx x = (case x of
       Plain v \<Rightarrow> Inl (Exn AttributeError ''object has no attribute output'')
     | Packed res \<Rightarrow> (case nr_output res of
           VDict d \<Rightarrow>
             (let d1 = dict_set ''_recursive_node_id'' (VStr (node_id n))
                        (dict_set ''_can_recurse'' (VBool True)
                          (dict_set ''_recursive_iteration'' (next_iteration it) d))
              in Inr (res\<lparr>nr_output := VDict (if rc_preserve r
                    then dict_set (rc_context_key r) (dict_get_or ctx (rc_context_key r) (VDict [])) d1 else d1)\<rparr>))
         | _ \<Rightarrow> Inr res))"

definition recursive_inline ::
  "'w node_env \<Rightarrow> node \<Rightarrow> recursive_fields \<Rightarrow> val dict \<Rightarrow> ('w, node_result) act" where
  "recursive_inline env n r ctx =
     (let it = dict_get_or ctx ''_recursive_iteration'' (VInt 0);
          c = dict_get_or ctx (rc_context_key r) (VDict []);
          done = (\<lambda>conv reason. ok_result (node_id n) (node_type_str n) (final_output conv reason it c))
      in act_bind (act_res (iteration_num it)) (\<lambda>k.
         if of_int (rc_max_iterations r) \<le> k then act_ret (done False ''max_iterations_reached'')
         else if (case rc_condition r of None \<Rightarrow> False
                  | Some e \<Rightarrow> e \<noteq> '''' \<and> eval_cond env e ctx = Inr True)
         then act_ret (done True ''condition_met'')
         else act_bind (act_res (next_context n r ctx it)) (\<lambda>ctx1.
              act_bind (run_inner env n r ctx1) (\<lambda>x. act_res (annotate n r it ctx1 x)))))"

definition recursive_failed :: "node \<Rightarrow> exn \<Rightarrow> node_result" where
  "recursive_failed n e = failed_with (node_id n) ''recursive'' (Some (exn_name (exn_kind e)))
     (VDict [(''error'', VStr (exn_msg e))]) (exn_msg e)"

definition recursive_executor ::
  "'w node_env \<Rightarrow> node \<Rightarrow> recursive_fields \<Rightarrow> val dict \<Rightarrow> ('w, node_result) act" where
  "recursive_executor env n r ctx =
     act_catch (impl_or env n ctx (recursive_inline env n r ctx)) (on_any (recursive_failed n))"

section \<open>Sub-workflow\<close>

text \<open>The outputs that a workflow node exposes: a missing step gives \<open>None\<close>.\<close>

fun expose_path :: "val \<Rightarrow> string list \<Rightarrow> val" where
  "expose_path v [] = v"
| "expose_path (VDict d) (k # ks) = expose_path (case dict_get d k of Some v \<Rightarrow> v | None \<Rightarrow> VNone) ks"
| "expose_path v (k # ks) = VNone"

definition exposed_output :: "string dict \<Rightarrow> val \<Rightarrow> val" where
  "exposed_output outs v = (if outs = [] then v
     else VDict (foldl (\<lambda>d (name, path). dict_set name (expose_path v (str_split ''.'' path)) d) [] outs))"

definition sub_value :: "exec_out \<Rightarrow> val" where
  "sub_value x = (case x of Packed r \<Rightarrow> branch_value r | Plain v \<Rightarrow> v)"

definition workflow_executor ::
  "'w node_env \<Rightarrow> node \<Rightarrow> string \<Rightarrow> string dict \<Rightarrow> val dict \<Rightarrow> val dict \<Rightarrow> ('w, node_result) act" where
  "workflow_executor env n ref outs overrides ctx = act_catch
     (act_bind (ne_sub env ref (dict_union ctx overrides)) (\<lambda>x.
        act_ret (ok_result (node_id n) (node_type_str n) (exposed_output outs (sub_value x)))))
     (on_any (handler_result n))"

section \<open>Swarm, monitor, human\<close>

definition key_error :: "'a res \<Rightarrow> bool" where
  "key_error r = (case r of Inl e \<Rightarrow> exn_kind e = KeyError | Inr x \<Rightarrow> False)"

text \<open>The roles without an agent; another exception than \<open>KeyError\<close> ends the search.\<close>

fun missing_roles :: "(string \<Rightarrow> string res) \<Rightarrow> agent_spec list \<Rightarrow> string list res" where
  "missing_roles path [] = Inr []"
| "missing_roles path (a # as) =
     (if key_error (path (sp_role a)) then res_bind (missing_roles path as) (\<lambda>ms. Inr (sp_role a # ms))
      else res_bind (path (sp_role a)) (\<lambda>_. missing_roles path as))"

definition swarm_inline :: "'w node_env \<Rightarrow> node \<Rightarrow> agent_spec list \<Rightarrow> ('w, node_result) act" where
  "swarm_inline env n agents = act_bind (act_res (missing_roles (ne_agent_path env) agents)) (\<lambda>ms.
     act_ret (if ms \<noteq> []
       then failed_with (node_id n) (node_type_str n) None (VDict [])
              (''Agents not found in registry: '' @ str_join '', '' ms)
       else ok_result (node_id n) (node_type_str n)
              (VDict [(''swarm'', VStr ''executed''), (''agents'', VList (map (\<lambda>a. VStr (sp_role a)) agents))])))"

definition monitor_output :: "'w node_env \<Rightarrow> string \<Rightarrow> string \<Rightarrow> string list \<Rightarrow> val dict \<Rightarrow> val dict" where
  "monitor_output env e action channels ctx =
     (let t = (case eval_cond env e ctx of Inr b \<Rightarrow> b | Inl x \<Rightarrow> False)
      in [(''metric_evaluated'', VStr e), (''triggered'', VBool t), (''triggers_fired'', VInt (if t then 1 else 0)),
          (''checks_performed'', VInt 1)]
         @ (if t then [(''action_taken'', VStr action)]
              @ (if action = ''alert_only'' then [(''alerts_sent'', VList (map VStr channels))] else [])
            else []))"

text \<open>A registered monitor may return anything; what is no dict is replaced. A ready result is no dict
  either.\<close>

definition monitor_executor ::
  "'w node_env \<Rightarrow> node \<Rightarrow> string \<Rightarrow> string \<Rightarrow> string list \<Rightarrow> val dict \<Rightarrow> ('w, node_result) act" where
  "monitor_executor env n e action channels ctx = act_bind
     (act_catch (act_bind (ne_impl env TMonitor (impl_name n) n ctx) (\<lambda>x. act_ret (case x of
          Plain (VDict d) \<Rightarrow> d | _ \<Rightarrow> [(''triggered'', VBool False)])))
        (on_key_error (act_ret (monitor_output env e action channels ctx))))
     (\<lambda>d. act_ret (ok_result (node_id n) (node_type_str n) (VDict d)))"

definition human_missing :: "node \<Rightarrow> node_result" where
  "human_missing n = failed_with (node_id n) (node_type_str n) (Some ''HumanApprovalMissing'') (VDict [])
     (''HumanNode requires a registered implementation in production. ''
      @ ''Register a human approval handler via registry.register_human_factory().'')"

definition auto_approval :: val where
  "auto_approval = VDict [(''approved'', VBool True),
     (''response'', VStr ''approved automatically by human-node executor'')]"

definition is_production :: "string \<Rightarrow> bool" where
  "is_production env \<longleftrightarrow> str_lower env \<in> {''production'', ''prod''}"

text \<open>Whatever a registered handler returns becomes the output; a result object is not a value of the
  model, so its output stands for it.\<close>

definition human_executor :: "'w node_env \<Rightarrow> node \<Rightarrow> val dict \<Rightarrow> ('w, node_result) act" where
  "human_executor env n ctx = act_catch
     (act_bind (ne_impl env THuman (impl_name n) n ctx) (\<lambda>x.
        act_ret (ok_result (node_id n) (node_type_str n) (out_value x))))
     (on_key_error (act_ret (if is_production (ne_environment env) then human_missing n
        else ok_result (node_id n) (node_type_str n) auto_approval)))"

section \<open>Tool\<close>

text \<open>\<open>resolve_jinja_templates\<close>: every string of the data that holds a template is rendered.\<close>

fun render_val :: "(string \<Rightarrow> string res) \<Rightarrow> val \<Rightarrow> val res" where
  "render_val f (VStr s) =
     (if str_contains ''{{'' s \<and> str_contains ''}}'' s then res_bind (f s) (\<lambda>t. Inr (VStr t)) else Inr (VStr s))"
| "render_val f (VList vs) = res_bind (res_map (render_val f) vs) (\<lambda>ws. Inr (VList ws))"
| "render_val f (VDict d) =
     res_bind (res_map (\<lambda>e. res_bind (render_val f (snd e)) (\<lambda>w. Inr (fst e, w))) d) (\<lambda>ws. Inr (VDict ws))"
| "render_val f v = Inr v"

definition unwrap_result :: "val \<Rightarrow> val" where
  "unwrap_result v = (case v of
       VDict d \<Rightarrow> if dict_get d ''success'' \<noteq> None \<and> (dict_get d ''output'' \<noteq> None \<or> dict_get d ''error'' \<noteq> None)
                  then dict_get_or d ''output'' v else v
     | _ \<Rightarrow> v)"

definition resolve_templates :: "(string \<Rightarrow> val dict \<Rightarrow> string res) \<Rightarrow> val \<Rightarrow> val dict \<Rightarrow> val res" where
  "resolve_templates render data ctx =
     render_val (\<lambda>s. render s (map (\<lambda>(k, v). (k, unwrap_result v)) ctx)) data"

text \<open>\<open>flatten_dependency_outputs\<close>: parameters of the tool are looked up inside dict inputs.\<close>

definition take_param :: "val dict \<Rightarrow> val dict \<Rightarrow> string \<Rightarrow> val dict" where
  "take_param value flat p = (case dict_get value p of
       Some v \<Rightarrow> if dict_get flat p = None then dict_set p v flat else flat
     | None \<Rightarrow> flat)"

definition flatten_entry :: "string list \<Rightarrow> val dict \<Rightarrow> string \<times> val \<Rightarrow> val dict" where
  "flatten_entry params flat kv = (case snd kv of
       VDict value \<Rightarrow> if fst kv \<in> set params then flat else foldl (take_param value) flat params
     | _ \<Rightarrow> flat)"

definition flatten_outputs :: "string list \<Rightarrow> val dict \<Rightarrow> val dict" where
  "flatten_outputs params inputs = foldl (flatten_entry params) inputs inputs"

definition accepted_inputs :: "string list \<Rightarrow> val dict \<Rightarrow> val dict" where
  "accepted_inputs params d = (if params = [] then d else filter (\<lambda>e. fst e \<in> set params) d)"

definition tool_value :: "exec_out \<Rightarrow> val" where
  "tool_value x = (case x of
       Packed r \<Rightarrow> if truth (nr_output r) then nr_output r
                   else (case nr_error r of
                           Some (c # cs) \<Rightarrow> VDict [(''error'', VStr (c # cs))] | _ \<Rightarrow> VDict [])
     | Plain (VDict d) \<Rightarrow> VDict d
     | Plain v \<Rightarrow> VDict [(''result'', v)])"

definition tool_args :: "'w node_env \<Rightarrow> val dict \<Rightarrow> val dict \<Rightarrow> 'w tool_obj \<Rightarrow> val dict res" where
  "tool_args env args ctx t = res_bind (resolve_templates (ne_render env) (VDict args) ctx) (\<lambda>v.
     let merged = dict_union (case v of VDict d \<Rightarrow> d | _ \<Rightarrow> []) ctx
     in case to_params t of
          None \<Rightarrow> Inl (Exn AttributeError ''object has no attribute _execute_impl'')
        | Some ps \<Rightarrow> Inr (accepted_inputs ps (flatten_outputs ps merged)))"

definition tool_executor ::
  "'w node_env \<Rightarrow> node \<Rightarrow> string \<Rightarrow> val dict \<Rightarrow> val dict \<Rightarrow> ('w, node_result) act" where
  "tool_executor env n name args ctx = act_catch
     (act_bind (act_res (ne_tool env name)) (\<lambda>t.
      act_bind (act_res (tool_args env args ctx t)) (\<lambda>inputs.
      act_bind (to_execute t inputs) (\<lambda>x.
        act_ret (ok_result (node_id n) (node_type_str n) (tool_value x))))))
     (on_any (handler_result n))"

section \<open>The table of executors\<close>

text \<open>What \<open>register_node\<close> enters for the kinds above; \<open>other\<close> is the executor of the rest. All
  return ready results. \<open>sched\<close> orders the branches of a parallel node.\<close>

definition builtin_executor ::
  "'w node_env \<Rightarrow> (node \<Rightarrow> val dict \<Rightarrow> ('w, node_result) act) \<Rightarrow> nat list \<Rightarrow> node \<Rightarrow> val dict
     \<Rightarrow> ('w, node_result) act" where
  "builtin_executor env other sched n ctx = (case kind n of
       KLoop source var body m \<Rightarrow> impl_or env n ctx (loop_inline env n source var body m ctx)
     | KCondition e yes no \<Rightarrow> condition_executor env n e yes no ctx
     | KParallel branches merge \<Rightarrow> parallel_executor env sched n branches merge ctx
     | KRecursive r \<Rightarrow> recursive_executor env n r ctx
     | KWorkflow ref outs overrides \<Rightarrow> workflow_executor env n ref outs overrides ctx
     | KSwarm agents \<Rightarrow> impl_or env n ctx (swarm_inline env n agents)
     | KMonitor e action channels \<Rightarrow> monitor_executor env n e action channels ctx
     | KHuman h \<Rightarrow> human_executor env n ctx
     | KTool name args \<Rightarrow> tool_executor env n name args ctx
     | _ \<Rightarrow> other n ctx)"

section \<open>Lemmas\<close>

lemma act_fold_Inr_induct:
  assumes "act_fold f xs a w = (Inr b, w')" "P [] a"
    and "\<And>ys x c d w1 w2. P ys c \<Longrightarrow> f x c w1 = (Inr d, w2) \<Longrightarrow> P (ys @ [x]) d"
  shows "P xs b"
proof -
  have "act_fold f xs a w = (Inr b, w') \<Longrightarrow> P ys a \<Longrightarrow> P (ys @ xs) b" for ys
  proof (induction xs arbitrary: a w ys)
    case Nil
    then show ?case by simp
  next
    case (Cons x xs)
    from Cons.prems obtain c w1 where c: "f x a w = (Inr c, w1)" "act_fold f xs c w1 = (Inr b, w')"
      by (auto simp: act_bind_Inr)
    have "P ((ys @ [x]) @ xs) b" using Cons.IH[OF c(2) assms(3)[OF Cons.prems(2) c(1)]] .
    then show ?case by simp
  qed
  from this[of "[]"] show ?thesis using assms(1,2) by simp
qed

text \<open>A loop node that returns has run its body once for each item, in order, up to its limit: the
  path names a list, the output has one value per item that was taken, and a positive
  \<open>max_iterations\<close> bounds their number.\<close>

theorem loop_results_bounded:
  assumes "loop_inline env n source var body m ctx w = (Inr r, w')"
  shows "\<exists>items rs. resolve_nested_path (VDict ctx) source = Inr (VList items) \<and> nr_output r = VList rs \<and>
    nr_success r \<and> length rs = length (limit_items m items) \<and> (\<forall>k>0. m = Some k \<longrightarrow> int (length rs) \<le> k)"
proof -
  have src: "source \<noteq> ''''" using assms by (auto simp: loop_inline_def)
  obtain v where v: "resolve_nested_path (VDict ctx) source = Inr v"
    using assms src by (cases "resolve_nested_path (VDict ctx) source") (auto simp: loop_inline_def act_bind_def)
  obtain items where items: "v = VList items"
    using assms src v by (cases v) (auto simp: loop_inline_def)
  obtain rs w1 where rs: "act_fold (loop_item env (if var = '''' then ''item'' else var) body ctx)
      (limit_items m items) [] w = (Inr rs, w1)" "r = ok_result (node_id n) ''loop'' (VList rs)"
    using assms src v items by (auto simp: loop_inline_def act_bind_Inr)
  have "length rs = length (limit_items m items)"
    by (rule act_fold_Inr_induct[OF rs(1), where P = "\<lambda>xs b. length b = length xs"])
      (auto simp: loop_item_def act_bind_Inr)
  then show ?thesis using v items rs(2)
    by (auto simp: ok_result_def success_result_def limit_items_def)
qed

section \<open>Interleavings of the branches\<close>

lemma count_list_replicate: "count_list (replicate m x) x = m"
  by (induction m) auto

lemma count_concat_replicate:
  "i \<in> set xs \<Longrightarrow> k i \<le> count_list (concat (map (\<lambda>j. replicate (k j) j) xs)) i"
proof (induction xs)
  case Nil
  then show ?case by simp
next
  case (Cons x xs)
  then show ?case by (auto simp: count_list_append count_list_replicate)
qed

lemma run_branches_length: "length (fst (run_branches env parent sched branches ctx w)) = length branches"
proof -
  have "length (fst (fold (par_step env parent) xs s)) = length (fst s)" for xs s
    by (induction xs arbitrary: s) (auto simp: par_step_def split: prod.splits)
  then show ?thesis by (simp add: run_branches_def)
qed

section \<open>Recursive nodes\<close>

lemma inner_agent_fails:
  "inner_agent n pkg = Inl (Exn ValidationError ''AgentNodeConfig requires llm_config.model to be set'')"
  by (auto simp: inner_agent_def sync_agent_def validate_agent_attr_def nonempty_opt_def empty_llm_config_def
      as_validation_error_def)


text \<open>What a recursive node returns when it may go on: the iteration was below its maximum and the
  output carries the next one.\<close>

lemma run_inner_agent: "rc_agent_package r = Some pkg \<Longrightarrow> pkg \<noteq> '''' \<Longrightarrow> run_inner env n r ctx =
    act_raise (Exn ValidationError ''AgentNodeConfig requires llm_config.model to be set'')"
  by (cases pkg) (simp_all add: run_inner_def inner_agent_fails)

text \<open>A recursive node with an agent can never run it: the agent configuration that the executor
  builds names no model and is rejected, so every iteration that is not stopped by a limit or by
  convergence is a failure, and nothing is called (the world is unchanged).\<close>

theorem recursive_agent_never_runs:
  assumes "ne_impl env (node_type_of n) (impl_name n) n ctx = act_raise (Exn KeyError k)"
    and "rc_agent_package r = Some pkg" "pkg \<noteq> ''''"
    and "iteration_num (dict_get_or ctx ''_recursive_iteration'' (VInt 0)) = Inr i" "i < of_int (rc_max_iterations r)"
    and "\<forall>e. rc_condition r = Some e \<longrightarrow> eval_cond env e ctx \<noteq> Inr True"
  shows "\<exists>res. recursive_executor env n r ctx w = (Inr res, w) \<and> \<not> nr_success res \<and>
    md_error_type (nr_meta res) \<in> {Some ''ValidationError'', Some ''TypeError''}"
proof -
  have c: "\<not> (case rc_condition r of None \<Rightarrow> False | Some e \<Rightarrow> e \<noteq> '''' \<and> eval_cond env e ctx = Inr True)"
    using assms(6) by (auto split: option.splits)
  have "\<exists>e. recursive_inline env n r ctx w = (Inl e, w) \<and> exn_kind e \<in> {ValidationError, TypeError}"
  proof (cases "next_context n r ctx (dict_get_or ctx ''_recursive_iteration'' (VInt 0))")
    case (Inl e)
    then have "exn_kind e = TypeError"
      by (auto simp: next_context_def type_error_def Let_def split: if_splits val.splits)
    then show ?thesis using assms(4,5) c Inl by (simp add: recursive_inline_def Let_def)
  next
    case (Inr ctx1)
    then show ?thesis using assms(4,5) c run_inner_agent[OF assms(2,3), of env n ctx1] by (simp add: recursive_inline_def Let_def)
  qed
  then show ?thesis using assms(1)
    by (auto simp: recursive_executor_def impl_or_def recursive_failed_def failed_with_def failure_result_def meta_def
        act_catch_def on_key_error_def on_any_def)
qed

lemma recursive_contract:
  assumes "ne_impl env (node_type_of n) (impl_name n) n ctx = act_raise (Exn KeyError k)"
    and "recursive_executor env n r ctx w = (Inr res, w')"
    and "dict_get_or ctx ''_recursive_iteration'' (VInt 0) = VInt i"
    and "rc_context_key r \<notin> {''_recursive_iteration'', ''_can_recurse'', ''converged''}"
    and "nr_output res = VDict d" "dict_get d ''_can_recurse'' = Some v" "truth v"
  shows "i < rc_max_iterations r \<and> dict_get d ''_recursive_iteration'' = Some (VInt (i + 1))"
proof -
  have inl: "impl_or env n ctx (recursive_inline env n r ctx) = recursive_inline env n r ctx"
    using assms(1) by (simp add: impl_or_def)
  consider e where "recursive_inline env n r ctx w = (Inl e, w')" "res = recursive_failed n e"
    | "recursive_inline env n r ctx w = (Inr res, w')"
    using assms(2) by (auto simp: recursive_executor_def inl act_catch_any_cases)
  then show ?thesis
  proof cases
    case 1
    then show ?thesis using assms(5,6) by (auto simp: recursive_failed_def failed_with_def)
  next
    case 2
    have a: "i < rc_max_iterations r"
      using 2 assms(3,5,6)
      by (auto simp: recursive_inline_def Let_def ok_result_def success_result_def final_output_def split: if_splits)
    obtain ctx1 x where "annotate n r (VInt i) ctx1 x = Inr res"
      using 2 assms(3,5,6) a
      by (auto simp: recursive_inline_def Let_def ok_result_def success_result_def final_output_def act_bind_Inr
          split: if_splits)
    then show ?thesis using a assms(4,5)
      by (auto simp: annotate_def Let_def split: exec_out.splits val.splits if_splits)
  qed
qed

section \<open>Human nodes\<close>

text \<open>No approval without a handler in production: there, a human node reports success only with the
  answer of a registered implementation.\<close>

theorem production_approval_needs_handler:
  assumes "human_executor env n ctx w = (Inr r, w')" "nr_success r" "is_production (ne_environment env)"
  shows "\<exists>x. ne_impl env THuman (impl_name n) n ctx w = (Inr x, w') \<and> nr_output r = out_value x"
  using assms
  by (auto simp: human_executor_def act_catch_def act_bind_def on_key_error_def human_missing_def failed_with_def
      failure_result_def ok_result_def success_result_def split: prod.splits sum.splits option.splits if_splits)

section \<open>Tool nodes\<close>

lemma take_param_get: "dict_get flat k = Some v \<Longrightarrow> dict_get (take_param d flat p) k = Some v"
  by (auto simp: take_param_def split: option.splits)

lemma flatten_entry_get: "dict_get flat k = Some v \<Longrightarrow> dict_get (flatten_entry ps flat kv) k = Some v"
proof -
  have "dict_get flat k = Some v \<Longrightarrow> dict_get (foldl (take_param d) flat qs) k = Some v" for d qs
    by (induction qs arbitrary: flat) (auto simp: take_param_get)
  then show "dict_get flat k = Some v \<Longrightarrow> ?thesis"
    by (auto simp: flatten_entry_def split: val.splits)
qed

lemma flatten_outputs_get: "dict_get d k = Some v \<Longrightarrow> dict_get (flatten_outputs ps d) k = Some v"
proof -
  have "dict_get flat k = Some v \<Longrightarrow> dict_get (foldl (flatten_entry ps) flat es) k = Some v" for flat es
    by (induction es arbitrary: flat) (auto simp: flatten_entry_get)
  then show "dict_get d k = Some v \<Longrightarrow> ?thesis" by (simp add: flatten_outputs_def)
qed

lemma accepted_get: "ps \<noteq> [] \<Longrightarrow> dict_get (accepted_inputs ps d) k = (if k \<in> set ps then dict_get d k else None)"
  by (simp add: accepted_inputs_def) (induction d, auto)

text \<open>The arguments of a tool: only parameters of its signature are passed, and the value of the
  context wins over an explicit argument of the node with the same name.\<close>

theorem tool_args_precedence:
  assumes "tool_args env args ctx t = Inr d" "to_params t = Some ps" "ps \<noteq> []" "dict_wf ctx"
  shows "set (dict_keys d) \<subseteq> set ps \<and>
    (\<forall>p \<in> set ps. \<forall>v. dict_get ctx p = Some v \<longrightarrow> dict_get d p = Some v) \<and>
    (\<exists>rs. resolve_templates (ne_render env) (VDict args) ctx = Inr (VDict rs) \<and>
       (\<forall>p \<in> set ps. \<forall>v. dict_get ctx p = None \<longrightarrow> dict_get rs p = Some v \<longrightarrow> dict_get d p = Some v))"
proof -
  obtain rs where rs: "resolve_templates (ne_render env) (VDict args) ctx = Inr (VDict rs)"
    "d = accepted_inputs ps (flatten_outputs ps (dict_union rs ctx))"
    using assms(1,2) by (auto simp: tool_args_def res_bind_Inr_iff resolve_templates_def)
  have "set (dict_keys d) \<subseteq> set ps" using rs(2) assms(3) by (auto simp: accepted_inputs_def)
  moreover have get: "p \<in> set ps \<Longrightarrow> dict_get (dict_union rs ctx) p = Some v \<Longrightarrow> dict_get d p = Some v" for p v
    using flatten_outputs_get[of "dict_union rs ctx" p v ps] accepted_get[OF assms(3)] rs(2) by simp
  moreover have "dict_get (dict_union rs ctx) p = (case dict_get ctx p of Some v \<Rightarrow> Some v | None \<Rightarrow> dict_get rs p)" for p
    using assms(4) by (simp add: dict_get_union map_add_def)
  ultimately show ?thesis using rs(1) by (intro conjI exI[of _ rs]) auto
qed

section \<open>Witnesses\<close>

text \<open>Nothing is registered; a nested node returns the number of its branch, or fails when it is
  called \<open>bad\<close>.\<close>

definition demo_nenv :: "string \<Rightarrow> unit node_env" where
  "demo_nenv deployment = \<lparr>ne_impl = (\<lambda>t i n ctx. act_raise (Exn KeyError i)),
     ne_cond = (\<lambda>i e ctx. act_raise (Exn KeyError i)),
     ne_run = (\<lambda>n ctx. act_ret (Plain (dict_get_or ctx ''item'' VNone))),
     ne_nested = (\<lambda>n ctx p. act_res (if node_id n = ''bad'' then Inl (Exn KeyError ''bad'')
        else Inr (ok_result (node_id n) ''tool'' (dict_get_or ctx ''branch_index'' VNone)))),
     ne_sub = (\<lambda>r ctx. act_raise (Exn KeyError r)),
     ne_tool = (\<lambda>t. Inl (Exn KeyError t)), ne_agent_path = (\<lambda>r. Inl (Exn KeyError r)),
     ne_parse = (\<lambda>s. Some (EName s)), ne_fmt = (\<lambda>_ _. type_error), ne_render = (\<lambda>s ctx. Inr s),
     ne_environment = deployment\<rparr>"

definition plain_node :: "string \<Rightarrow> node" where
  "plain_node i = Node (default_base i []) (KTool ''t'' [])"

theorem loop_results_bounded_witness:
  "\<exists>r. loop_inline (demo_nenv '''') (plain_node ''l'') ''xs'' ''item'' [plain_node ''b''] (Some 2)
        [(''xs'', VList [VInt 5, VInt 6, VInt 7])] () = (Inr r, ()) \<and> nr_output r = VList [VInt 5, VInt 6] \<and>
      length [VInt 5, VInt 6] = length (limit_items (Some 2) [VInt 5, VInt 6, VInt 7])"
proof -
  have "resolve_nested_path (VDict [(''xs'', VList [VInt 5, VInt 6, VInt 7])]) ''xs'' = Inr (VList [VInt 5, VInt 6, VInt 7])"
    by (simp add: resolve_nested_path_def str_split_def)
  then have "loop_inline (demo_nenv '''') (plain_node ''l'') ''xs'' ''item'' [plain_node ''b''] (Some 2)
        [(''xs'', VList [VInt 5, VInt 6, VInt 7])] () = (Inr (ok_result ''l'' ''loop'' (VList [VInt 5, VInt 6])), ())"
    by (simp add: loop_inline_def limit_items_def loop_item_def loop_body_def act_bind_def demo_nenv_def out_value_def
        plain_node_def node_id_def default_base_def dict_get_or_def)
  from this loop_results_bounded [OF this] show ?thesis
    by (auto simp: ok_result_def success_result_def resolve_nested_path_def str_split_def)
qed

theorem recursive_agent_never_runs_witness:
  "\<exists>res. recursive_executor (demo_nenv '''') (Node (default_base ''r'' []) (KRecursive \<lparr>rc_sources = [''a''],
       rc_condition = None, rc_max_iterations = 3, rc_agent_package = Some ''pkg'', rc_workflow_ref = None,
       rc_preserve = True, rc_context_key = ''ctx''\<rparr>)) \<lparr>rc_sources = [''a''], rc_condition = None,
       rc_max_iterations = 3, rc_agent_package = Some ''pkg'', rc_workflow_ref = None, rc_preserve = True,
       rc_context_key = ''ctx''\<rparr> [] () = (Inr res, ()) \<and> \<not> nr_success res"
proof -
  let ?r = "\<lparr>rc_sources = [''a''], rc_condition = None, rc_max_iterations = 3, rc_agent_package = Some ''pkg'',
       rc_workflow_ref = None, rc_preserve = True, rc_context_key = ''ctx''\<rparr>"
  let ?n = "Node (default_base ''r'' []) (KRecursive ?r)"
  have "ne_impl (demo_nenv '''') (node_type_of ?n) (impl_name ?n) ?n [] = act_raise (Exn KeyError ''r'')"
    by (simp add: demo_nenv_def impl_name_def node_id_def default_base_def)
  from recursive_agent_never_runs [OF this, of ?r "''pkg''" 0 "()"] show ?thesis by (auto simp: dict_get_or_def)
qed

theorem production_approval_needs_handler_witness:
  "\<exists>x. ne_impl ((demo_nenv ''production'')\<lparr>ne_impl := \<lambda>t i n ctx. act_ret (Plain (VBool True))\<rparr>) THuman ''h''
      (Node (default_base ''h'' []) (KTool ''t'' [])) [] () = (Inr x, ()) \<and> VBool True = out_value x"
proof -
  let ?env = "(demo_nenv ''production'')\<lparr>ne_impl := \<lambda>t i n ctx. act_ret (Plain (VBool True))\<rparr>"
  let ?n = "Node (default_base ''h'' []) (KTool ''t'' [])"
  have "human_executor ?env ?n [] () = (Inr (ok_result ''h'' ''tool'' (VBool True)), ())"
    by (simp add: human_executor_def act_catch_def out_value_def node_id_def default_base_def node_type_str_def
        node_type_of_def)
  from production_approval_needs_handler [OF this] show ?thesis
    by (simp add: demo_nenv_def is_production_def str_lower_def lower_char_def ok_result_def success_result_def
        impl_name_def node_id_def default_base_def)
qed

theorem tool_args_precedence_witness:
  "tool_args (demo_nenv '''') [(''p'', VInt 1), (''q'', VInt 2)] [(''p'', VInt 3), (''z'', VInt 4)]
      \<lparr>to_params = Some [''p'', ''q''], to_execute = \<lambda>d. act_ret (Plain (VDict d))\<rparr> =
     Inr [(''p'', VInt 3), (''q'', VInt 2)] \<and> dict_get [(''p'', VInt 3), (''q'', VInt 2)] ''p'' = Some (VInt 3)"
proof -
  have "tool_args (demo_nenv '''') [(''p'', VInt 1), (''q'', VInt 2)] [(''p'', VInt 3), (''z'', VInt 4)]
      \<lparr>to_params = Some [''p'', ''q''], to_execute = \<lambda>d. act_ret (Plain (VDict d))\<rparr> =
     Inr [(''p'', VInt 3), (''q'', VInt 2)]"
    by (simp add: tool_args_def resolve_templates_def dict_union_def flatten_outputs_def flatten_entry_def
        accepted_inputs_def Let_def)
  from this tool_args_precedence [OF this] show ?thesis by simp
qed

end
