(* ===== verification/RunState.thy ===== *)
theory RunState
  imports Nodes
begin

text \<open>
  What a run records about itself: token and cost totals (\<open>ChainMetrics\<close> in
  \<open>src/ice_orchestrator/execution/metrics.py\<close>) and the execution state that events and debugging
  read (\<open>WorkflowExecutionState\<close> in \<open>workflow_state.py\<close>), with its checkpoints. Clock readings are
  left out.
\<close>

section \<open>Metrics\<close>

record metrics =
  mt_tokens :: int
  mt_cost :: rat
  mt_nodes :: "(node_type \<times> usage dict) list"
  mt_subdag :: rat

definition metrics_new :: metrics where
  "metrics_new = \<lparr>mt_tokens = 0, mt_cost = 0, mt_nodes = [], mt_subdag = 0\<rparr>"

definition metrics_update :: "string \<Rightarrow> node_result \<Rightarrow> node_type \<Rightarrow> metrics \<Rightarrow> metrics" where
  "metrics_update i r t m = (case nr_usage r of
       None \<Rightarrow> m
     | Some u \<Rightarrow> m\<lparr>mt_tokens := mt_tokens m + us_total u, mt_cost := mt_cost m + us_cost u,
         mt_nodes := dict_set t (dict_set i u (dict_get_or (mt_nodes m) t [])) (mt_nodes m)\<rparr>)"

definition update_subdag_time :: "rat \<Rightarrow> metrics \<Rightarrow> metrics" where
  "update_subdag_time t m = m\<lparr>mt_subdag := mt_subdag m + t\<rparr>"

definition get_total_tokens_by_type :: "node_type \<Rightarrow> metrics \<Rightarrow> int" where
  "get_total_tokens_by_type t m = sum_list (map (us_total \<circ> snd) (dict_get_or (mt_nodes m) t []))"

definition get_total_cost_by_type :: "node_type \<Rightarrow> metrics \<Rightarrow> rat" where
  "get_total_cost_by_type t m = sum_list (map (us_cost \<circ> snd) (dict_get_or (mt_nodes m) t []))"

record type_summary =
  ts_count :: nat
  ts_cost :: rat
  ts_tokens :: int
  ts_avg_cost :: rat
  ts_nodes :: "string list"

definition get_performance_summary :: "metrics \<Rightarrow> (node_type \<times> type_summary) list" where
  "get_performance_summary m = map (\<lambda>(t, d). (t, \<lparr>ts_count = length d, ts_cost = get_total_cost_by_type t m,
     ts_tokens = get_total_tokens_by_type t m,
     ts_avg_cost = (if d = [] then 0 else get_total_cost_by_type t m / of_nat (length d)), ts_nodes = dict_keys d\<rparr>))
     (mt_nodes m)"

section \<open>Execution state\<close>

datatype phase = Initializing | Validating | Executing | LevelExecuting | NodeExecuting | Finalizing
  | Completed | FailedPhase

text \<open>Sets are kept as lists without duplicates.\<close>

record run_state =
  rs_workflow_id :: string
  rs_workflow_name :: string
  rs_phase :: phase
  rs_results :: "(node_type \<times> node_result dict) list"
  rs_errors :: "string list"
  rs_warnings :: "string list"
  rs_executing :: "string list"
  rs_completed :: "string list"
  rs_failed :: "string list"
  rs_skipped :: "string list"
  rs_decisions :: "bool dict"
  rs_tokens :: int
  rs_cost :: rat
  rs_api_calls :: int

definition run_state_new :: "string \<Rightarrow> string \<Rightarrow> run_state" where
  "run_state_new i name = \<lparr>rs_workflow_id = i, rs_workflow_name = name, rs_phase = Initializing, rs_results = [],
     rs_errors = [], rs_warnings = [], rs_executing = [], rs_completed = [], rs_failed = [], rs_skipped = [],
     rs_decisions = [], rs_tokens = 0, rs_cost = 0, rs_api_calls = 0\<rparr>"

definition record_node_start :: "string \<Rightarrow> run_state \<Rightarrow> run_state" where
  "record_node_start i s = s\<lparr>rs_executing := List.insert i (rs_executing s)\<rparr>"

text \<open>\<open>NodeType(str(raw_type)) if raw_type else NodeType.TOOL\<close>, and \<open>TOOL\<close> for an unknown name.\<close>

definition result_type :: "node_result \<Rightarrow> node_type" where
  "result_type r = (case type_of_value (md_type (nr_meta r)) of Some t \<Rightarrow> t | None \<Rightarrow> TTool)"

definition record_node_complete :: "string \<Rightarrow> node_result \<Rightarrow> run_state \<Rightarrow> run_state" where
  "record_node_complete i r s =
     (let t = result_type r;
          s1 = s\<lparr>rs_executing := removeAll i (rs_executing s), rs_completed := List.insert i (rs_completed s),
                 rs_results := dict_set t (dict_set i r (dict_get_or (rs_results s) t [])) (rs_results s)\<rparr>
      in if nr_success r then s1
         else s1\<lparr>rs_failed := List.insert i (rs_failed s1),
                 rs_errors := rs_errors s1 @ (case nr_error r of
                     Some (c # cs) \<Rightarrow> [''Node '' @ i @ '': '' @ c # cs] | _ \<Rightarrow> [])\<rparr>)"

definition record_node_skipped :: "string \<Rightarrow> string \<Rightarrow> run_state \<Rightarrow> run_state" where
  "record_node_skipped i reason s = s\<lparr>rs_skipped := List.insert i (rs_skipped s),
     rs_warnings := rs_warnings s @ [''Node '' @ i @ '' skipped: '' @ reason]\<rparr>"

definition record_branch_decision :: "string \<Rightarrow> bool \<Rightarrow> run_state \<Rightarrow> run_state" where
  "record_branch_decision i b s = s\<lparr>rs_decisions := dict_set i b (rs_decisions s)\<rparr>"

definition update_token_usage :: "int \<Rightarrow> rat \<Rightarrow> run_state \<Rightarrow> run_state" where
  "update_token_usage tokens cost s =
     s\<lparr>rs_tokens := rs_tokens s + tokens, rs_cost := rs_cost s + cost, rs_api_calls := rs_api_calls s + 1\<rparr>"

text \<open>A checkpoint; of a result only a part is written, which is never read again.\<close>

record checkpoint =
  cp_workflow_id :: string
  cp_phase :: phase
  cp_completed :: "string list"
  cp_results :: "(node_type \<times> (string \<times> bool \<times> string option \<times> val) list) list"
  cp_decisions :: "bool dict"
  cp_tokens :: int
  cp_cost :: rat

definition create_checkpoint :: "run_state \<Rightarrow> checkpoint" where
  "create_checkpoint s = \<lparr>cp_workflow_id = rs_workflow_id s, cp_phase = rs_phase s, cp_completed = rs_completed s,
     cp_results = map (\<lambda>(t, d). (t, map (\<lambda>(i, r). (i, nr_success r, nr_error r, nr_output r)) d)) (rs_results s),
     cp_decisions = rs_decisions s, cp_tokens = rs_tokens s, cp_cost = rs_cost s\<rparr>"

definition from_checkpoint :: "checkpoint \<Rightarrow> run_state" where
  "from_checkpoint c = (run_state_new (cp_workflow_id c) ''restored'')\<lparr>rs_completed := cp_completed c,
     rs_decisions := cp_decisions c, rs_tokens := cp_tokens c, rs_cost := cp_cost c\<rparr>"

record run_summary =
  sm_total :: nat
  sm_completed :: nat
  sm_failed :: nat
  sm_skipped :: nat

definition get_execution_summary :: "run_state \<Rightarrow> run_summary" where
  "get_execution_summary s = \<lparr>sm_total = length (rs_completed s) + length (rs_failed s) + length (rs_skipped s),
     sm_completed = length (rs_completed s), sm_failed = length (rs_failed s), sm_skipped = length (rs_skipped s)\<rparr>"

definition get_results_by_node_type :: "node_type \<Rightarrow> run_state \<Rightarrow> node_result dict" where
  "get_results_by_node_type t s = dict_get_or (rs_results s) t []"

definition get_success_rate_by_node_type :: "node_type \<Rightarrow> run_state \<Rightarrow> rat" where
  "get_success_rate_by_node_type t s =
     (let rs = get_results_by_node_type t s
      in if rs = [] then 0 else of_nat (length (filter (\<lambda>e. nr_success (snd e)) rs)) / of_nat (length rs))"

text \<open>\<open>Workflow._lookup_node_result\<close>\<close>

fun lookup_node_result :: "(node_type \<times> node_result dict) list \<Rightarrow> string \<Rightarrow> node_result option" where
  "lookup_node_result [] i = None"
| "lookup_node_result ((t, d) # rest) i = (case dict_get d i of Some r \<Rightarrow> Some r | None \<Rightarrow> lookup_node_result rest i)"

section \<open>Operations as a machine\<close>

datatype run_op = OStart string | OComplete string node_result | OSkip string string | ODecide string bool
  | OTokens int rat

fun run_step :: "run_state \<Rightarrow> run_op \<Rightarrow> run_state" where
  "run_step s (OStart i) = record_node_start i s"
| "run_step s (OComplete i r) = record_node_complete i r s"
| "run_step s (OSkip i why) = record_node_skipped i why s"
| "run_step s (ODecide i b) = record_branch_decision i b s"
| "run_step s (OTokens t c) = update_token_usage t c s"

text \<open>Failed nodes are among the completed ones, a completed node has a recorded result, and the lists
  that stand for sets have no duplicates.\<close>

definition run_inv :: "run_state \<Rightarrow> bool" where
  "run_inv s \<longleftrightarrow> set (rs_failed s) \<subseteq> set (rs_completed s) \<and> distinct (rs_completed s) \<and> distinct (rs_failed s) \<and>
     distinct (rs_executing s) \<and> distinct (rs_skipped s) \<and>
     (\<forall>i \<in> set (rs_completed s). \<exists>t d. dict_get (rs_results s) t = Some d \<and> dict_get d i \<noteq> None)"

lemma run_inv_new: "run_inv (run_state_new i n)"
  by (simp add: run_inv_def run_state_new_def)

lemma result_kept:
  "\<exists>u d. dict_get rs u = Some d \<and> dict_get d i \<noteq> None \<Longrightarrow>
   \<exists>u d. dict_get (dict_set t (dict_set j r (dict_get_or rs t [])) rs) u = Some d \<and> dict_get d i \<noteq> None"
proof (elim exE conjE)
  fix u d assume u: "dict_get rs u = Some d" "dict_get d i \<noteq> None"
  show ?thesis
  proof (cases "u = t")
    case True
    then show ?thesis using u by (intro exI[of _ t] exI[of _ "dict_set j r d"]) (auto simp: dict_get_or_def)
  next
    case False
    then show ?thesis using u by (intro exI[of _ u] exI[of _ d]) simp
  qed
qed

lemma record_complete_inv: "run_inv s \<Longrightarrow> run_inv (record_node_complete i r s)"
proof -
  assume s: "run_inv s"
  let ?t = "result_type r"
  let ?rs = "dict_set ?t (dict_set i r (dict_get_or (rs_results s) ?t [])) (rs_results s)"
  have new: "\<exists>u d. dict_get ?rs u = Some d \<and> dict_get d i \<noteq> None"
    by (intro exI[of _ ?t] exI[of _ "dict_set i r (dict_get_or (rs_results s) ?t [])"]) simp
  have "\<forall>j \<in> set (List.insert i (rs_completed s)). \<exists>u d. dict_get ?rs u = Some d \<and> dict_get d j \<noteq> None"
    using s new result_kept[of "rs_results s" _ ?t i r] unfolding run_inv_def by auto
  then show ?thesis using s by (auto simp: run_inv_def record_node_complete_def Let_def distinct_removeAll)
qed

interpretation run: machine run_step run_inv
proof
  fix s a assume s: "run_inv s"
  show "run_inv (run_step s a)"
  proof (cases a)
    case (OComplete i r)
    then show ?thesis using record_complete_inv[OF s] by simp
  qed (use s in \<open>auto simp: run_inv_def record_node_start_def record_node_skipped_def record_branch_decision_def
        update_token_usage_def\<close>)
qed

section \<open>Properties\<close>

text \<open>Whatever is recorded, in any order: every failed node is also a completed one and has a result
  on record, so that the summary counts a failed node twice, and its total exceeds the number of
  the nodes it is about by the number of the failed ones.\<close>

theorem run_state_invariant:
  "run_inv (foldl run_step (run_state_new i n) ops) \<and>
   (let s = foldl run_step (run_state_new i n) ops
    in sm_total (get_execution_summary s) = card (set (rs_completed s)) + card (set (rs_failed s))
         + card (set (rs_skipped s)) \<and>
       set (rs_completed s) \<union> set (rs_failed s) = set (rs_completed s) \<and>
       0 \<le> get_success_rate_by_node_type t s \<and> get_success_rate_by_node_type t s \<le> 1)"
proof -
  let ?s = "foldl run_step (run_state_new i n) ops"
  have inv: "run_inv ?s" by (rule run.run_inv) (rule run_inv_new)
  have "length (filter P xs) \<le> length xs" for P and xs :: "(string \<times> node_result) list" by simp
  then have "0 \<le> get_success_rate_by_node_type t ?s \<and> get_success_rate_by_node_type t ?s \<le> 1"
    by (simp add: get_success_rate_by_node_type_def Let_def divide_le_eq)
  then show ?thesis using inv
    by (auto simp: get_execution_summary_def run_inv_def Let_def distinct_card)
qed

text \<open>A checkpoint keeps the completed nodes, the branch decisions and the totals, but none of the
  results: after a restore no node that completed has a result, no node counts as failed, and the
  workflow has lost its name.\<close>

theorem checkpoint_roundtrip:
  "let r = from_checkpoint (create_checkpoint s)
   in rs_workflow_id r = rs_workflow_id s \<and> rs_completed r = rs_completed s \<and> rs_decisions r = rs_decisions s \<and>
      rs_tokens r = rs_tokens s \<and> rs_cost r = rs_cost s \<and> (\<forall>i. lookup_node_result (rs_results r) i = None) \<and>
      rs_failed r = [] \<and> rs_workflow_name r = ''restored'' \<and>
      create_checkpoint r = (create_checkpoint s)\<lparr>cp_phase := Initializing, cp_results := []\<rparr>"
  by (simp add: from_checkpoint_def create_checkpoint_def run_state_new_def Let_def)

definition update_all :: "(string \<times> node_result \<times> node_type) list \<Rightarrow> metrics \<Rightarrow> metrics" where
  "update_all us m = foldl (\<lambda>m (i, r, t). metrics_update i r t m) m us"

definition over_types :: "(usage \<Rightarrow> 'n :: ab_group_add) \<Rightarrow> (node_type \<times> usage dict) list \<Rightarrow> 'n" where
  "over_types f ns = sum_list (map (\<lambda>e. sum_list (map (f \<circ> snd) (snd e))) ns)"

lemma sum_dict_set:
  fixes g :: "'b \<Rightarrow> 'n :: ab_group_add"
  assumes "dict_wf d"
  shows "sum_list (map (\<lambda>e. g (snd e)) (dict_set k v d)) =
    sum_list (map (\<lambda>e. g (snd e)) d) + g v - (case dict_get d k of None \<Rightarrow> 0 | Some w \<Rightarrow> g w)"
  using assms
proof (induction d)
  case Nil
  then show ?case by simp
next
  case (Cons e d)
  obtain a b where e: "e = (a, b)" by fastforce
  show ?case
  proof (cases "a = k")
    case True
    then show ?thesis using e by (simp add: algebra_simps)
  next
    case False
    then show ?thesis using Cons e by (auto simp: algebra_simps split: option.splits)
  qed
qed

lemma over_types_update:
  assumes "dict_wf ns" "\<And>t d. dict_get ns t = Some d \<Longrightarrow> dict_wf d \<and> dict_get d i = None"
  shows "over_types f (dict_set t (dict_set i u (dict_get_or ns t [])) ns) = over_types f ns + f u"
proof -
  let ?g = "\<lambda>d. sum_list (map (f \<circ> snd) d)"
  have inner: "?g (dict_set i u (dict_get_or ns t [])) = ?g (dict_get_or ns t []) + f u"
    using sum_dict_set[of "dict_get_or ns t []" f i u] assms(2)[of t]
    by (cases "dict_get ns t") (auto simp: dict_get_or_def comp_def)
  show ?thesis
    using sum_dict_set[OF assms(1), of ?g t "dict_set i u (dict_get_or ns t [])"] inner
    by (cases "dict_get ns t") (auto simp: over_types_def dict_get_or_def)
qed

definition metrics_ok :: "string set \<Rightarrow> metrics \<Rightarrow> bool" where
  "metrics_ok ids m \<longleftrightarrow> dict_wf (mt_nodes m) \<and> over_types us_total (mt_nodes m) = mt_tokens m \<and>
     over_types us_cost (mt_nodes m) = mt_cost m \<and>
     (\<forall>t d. dict_get (mt_nodes m) t = Some d \<longrightarrow> dict_wf d \<and> set (dict_keys d) \<subseteq> ids)"

lemma metrics_update_ok:
  assumes "metrics_ok ids m" "i \<notin> ids"
  shows "metrics_ok (insert i ids) (metrics_update i r t m)"
proof (cases "nr_usage r")
  case None
  have "metrics_ok (insert i ids) m" using assms(1) unfolding metrics_ok_def by (meson subset_insertI2)
  then show ?thesis using None by (simp add: metrics_update_def)
next
  case (Some u)
  have fresh: "dict_get (mt_nodes m) t = Some d \<Longrightarrow> dict_wf d \<and> dict_get d i = None" for t d
    using assms unfolding metrics_ok_def dict_get_eq_None by blast
  have sums: "over_types f (dict_set t (dict_set i u (dict_get_or (mt_nodes m) t [])) (mt_nodes m)) =
      over_types f (mt_nodes m) + f u" for f :: "usage \<Rightarrow> 'n :: ab_group_add"
    by (rule over_types_update) (use assms fresh in \<open>auto simp: metrics_ok_def\<close>)
  have wf: "dict_wf (dict_get_or (mt_nodes m) t [])" "set (dict_keys (dict_get_or (mt_nodes m) t [])) \<subseteq> ids"
    using assms(1) by (cases "dict_get (mt_nodes m) t"; auto simp: metrics_ok_def dict_get_or_def)+
  then have "set (dict_keys (dict_set i u (dict_get_or (mt_nodes m) t []))) \<subseteq> insert i ids"
    unfolding dict_keys_set by blast
  then have entries: "dict_wf d \<and> set (dict_keys d) \<subseteq> insert i ids"
    if "dict_get (dict_set t (dict_set i u (dict_get_or (mt_nodes m) t [])) (mt_nodes m)) s = Some d" for s d
  proof (cases "s = t")
    case True
    then show ?thesis
      using that wf \<open>set (dict_keys (dict_set i u _)) \<subseteq> _\<close>
      by (auto simp del: set_map split: if_splits intro: dict_wf_set)
  next
    case False
    then have "dict_get (mt_nodes m) s = Some d" using that by (simp del: set_map split: if_splits)
    then have "dict_wf d \<and> set (dict_keys d) \<subseteq> ids" using assms(1) unfolding metrics_ok_def by blast
    then show ?thesis by blast
  qed
  have "metrics_update i r t m = m\<lparr>mt_tokens := mt_tokens m + us_total u, mt_cost := mt_cost m + us_cost u,
      mt_nodes := dict_set t (dict_set i u (dict_get_or (mt_nodes m) t [])) (mt_nodes m)\<rparr>"
    using Some by (simp add: metrics_update_def)
  with entries show ?thesis using assms(1) sums[of us_total] sums[of us_cost]
    unfolding metrics_ok_def by simp
qed

text \<open>The totals of the metrics are the sums over all node types of what is kept per node, as long
  as no node is updated twice (a second update replaces the figures of the node, but adds to the
  totals).\<close>

theorem metrics_totals_agree:
  assumes "distinct (map fst us)"
  shows "let m = update_all us metrics_new
    in over_types us_total (mt_nodes m) = mt_tokens m \<and> over_types us_cost (mt_nodes m) = mt_cost m"
proof -
  have "metrics_ok ids m \<Longrightarrow> distinct (map fst us) \<Longrightarrow> set (map fst us) \<inter> ids = {} \<Longrightarrow>
      metrics_ok (ids \<union> set (map fst us)) (update_all us m)" for us ids m
  proof (induction us arbitrary: ids m)
    case Nil
    then show ?case by (simp add: update_all_def)
  next
    case (Cons e us)
    obtain i r t where e: "e = (i, r, t)" by (cases e)
    have "metrics_ok (insert i ids) (metrics_update i r t m)"
      using Cons.prems e by (intro metrics_update_ok) auto
    from Cons.IH[OF this] Cons.prems e show ?case by (auto simp: update_all_def)
  qed
  from this[of "{}" metrics_new us] assms show ?thesis
    by (simp add: metrics_ok_def metrics_new_def over_types_def Let_def)
qed

theorem metrics_totals_agree_witness:
  "let u = \<lparr>us_prompt = 3, us_completion = 4, us_total = 7, us_cost = 1 / 2, us_model = ''m''\<rparr>;
       r = (success_result VNone (meta ''a'' ''llm'' None 0))\<lparr>nr_usage := Some u\<rparr>;
       m = update_all [(''a'', r, TLlm), (''b'', r, TTool)] metrics_new
   in over_types us_total (mt_nodes m) = mt_tokens m \<and> mt_tokens m = 14"
proof -
  let ?u = "\<lparr>us_prompt = 3, us_completion = 4, us_total = 7, us_cost = 1 / 2, us_model = ''m''\<rparr>"
  let ?r = "(success_result VNone (meta ''a'' ''llm'' None 0))\<lparr>nr_usage := Some ?u\<rparr>"
  have "over_types us_total (mt_nodes (update_all [(''a'', ?r, TLlm), (''b'', ?r, TTool)] metrics_new)) =
      mt_tokens (update_all [(''a'', ?r, TLlm), (''b'', ?r, TTool)] metrics_new)"
    using metrics_totals_agree [of "[(''a'', ?r, TLlm), (''b'', ?r, TTool)]"] by (simp add: Let_def)
  moreover have "mt_tokens (update_all [(''a'', ?r, TLlm), (''b'', ?r, TTool)] metrics_new) = 14"
    by (simp add: update_all_def metrics_update_def metrics_new_def)
  ultimately show ?thesis by (simp add: Let_def)
qed

end
