(* ===== verification/Schedule.thy ===== *)
theory Schedule
  imports Prelude
begin

text \<open>
  Tasks of one event loop. A task is a state that a step advances, together with the state all tasks
  share; which task goes next is a schedule, a list of task numbers, and any schedule is possible.
  Waiting for all tasks (\<open>asyncio.gather\<close>) gives every task as many further turns as it can need.
\<close>

definition sched_step :: "('t \<Rightarrow> 's \<Rightarrow> 't \<times> 's) \<Rightarrow> nat \<Rightarrow> 't list \<times> 's \<Rightarrow> 't list \<times> 's" where
  "sched_step step i x =
     (if i < length (fst x) then (let (t, s) = step (fst x ! i) (snd x) in ((fst x)[i := t], s)) else x)"

definition drain :: "nat \<Rightarrow> nat \<Rightarrow> nat list" where
  "drain turns n = concat (map (replicate turns) [0..<n])"

definition gather :: "('t \<Rightarrow> 's \<Rightarrow> 't \<times> 's) \<Rightarrow> nat \<Rightarrow> nat list \<Rightarrow> 't list \<Rightarrow> 's \<Rightarrow> 't list \<times> 's" where
  "gather step turns sched ts s = fold (sched_step step) (sched @ drain turns (length ts)) (ts, s)"

lemma sched_step_length [simp]: "length (fst (sched_step step i x)) = length (fst x)"
  by (simp add: sched_step_def split: prod.splits)

lemma fold_sched_length [simp]: "length (fst (fold (sched_step step) sched x)) = length (fst x)"
  by (induction sched arbitrary: x) simp_all

text \<open>What every step keeps, of a task in relation to the task it started as and of the shared state,
  holds at the end.\<close>

lemma fold_keeps:
  assumes "\<And>t0 t s. R t0 t \<Longrightarrow> P s \<Longrightarrow> R t0 (fst (step t s)) \<and> P (snd (step t s))"
  shows "list_all2 R ts0 (fst x) \<Longrightarrow> P (snd x) \<Longrightarrow>
    list_all2 R ts0 (fst (fold (sched_step step) is x)) \<and> P (snd (fold (sched_step step) is x))"
proof (induction "is" arbitrary: x)
  case Nil
  then show ?case by simp
next
  case (Cons i "is")
  have "list_all2 R ts0 (fst (sched_step step i x)) \<and> P (snd (sched_step step i x))"
  proof (cases "i < length (fst x)")
    case True
    obtain t s where t: "step (fst x ! i) (snd x) = (t, s)" by fastforce
    have "R (ts0 ! i) (fst x ! i)" "P (snd x)"
      using Cons.prems True by (auto simp: list_all2_conv_all_nth)
    then have "R (ts0 ! i) t" "P s" using assms(1)[of "ts0 ! i" "fst x ! i" "snd x"] t by auto
    then show ?thesis using Cons.prems True t
      by (auto simp: sched_step_def list_all2_conv_all_nth nth_list_update)
  next
    case False
    then show ?thesis using Cons.prems by (simp add: sched_step_def)
  qed
  then show ?case using Cons.IH by simp
qed

lemma gather_keeps:
  assumes "\<And>t0 t s. R t0 t \<Longrightarrow> P s \<Longrightarrow> R t0 (fst (step t s)) \<and> P (snd (step t s))"
    and "list_all2 R ts0 ts" "P s"
  shows "list_all2 R ts0 (fst (gather step turns sched ts s)) \<and> P (snd (gather step turns sched ts s))"
  using fold_keeps[of R P step ts0 "(ts, s)" "sched @ drain turns (length ts)"] assms
  by (simp add: gather_def del: fold_append)

text \<open>A task that knows how many turns it still needs at most.\<close>

locale finite_task =
  fixes step :: "'t \<Rightarrow> 's \<Rightarrow> 't \<times> 's" and rank :: "'t \<Rightarrow> nat"
  assumes rank_step: "rank (fst (step t s)) \<le> rank t - 1"
begin

lemma rank_sched: "j < length (fst x) \<Longrightarrow> rank (fst (sched_step step i x) ! j) \<le> rank (fst x ! j) - (if i = j then 1 else 0)"
  using rank_step[of "fst x ! i" "snd x"] by (auto simp: sched_step_def nth_list_update split: prod.splits)

lemma rank_fold:
  "j < length (fst x) \<Longrightarrow> rank (fst (fold (sched_step step) is x) ! j) \<le> rank (fst x ! j) - count_list is j"
proof (induction "is" arbitrary: x)
  case Nil
  then show ?case by simp
next
  case (Cons i "is")
  have "rank (fst (fold (sched_step step) (i # is) x) ! j) \<le> rank (fst (sched_step step i x) ! j) - count_list is j"
    using Cons.IH[of "sched_step step i x"] Cons.prems by simp
  also have "\<dots> \<le> rank (fst x ! j) - count_list (i # is) j" using rank_sched[OF Cons.prems, of i] by auto
  finally show ?case .
qed

lemma count_drain: "j < n \<Longrightarrow> count_list (drain turns n) j = turns"
proof (induction n)
  case 0
  then show ?case by simp
next
  case (Suc n)
  have rep: "count_list (replicate k i) j = (if i = j then k else 0)" for k i by (induction k) auto
  have "count_list (drain turns n) n = 0" by (simp add: drain_def count_list_0_iff)
  then show ?case using Suc by (auto simp: drain_def rep less_Suc_eq)
qed

lemma fold_done:
  assumes "j < length ts" "rank (ts ! j) \<le> count_list is j"
  shows "rank (fst (fold (sched_step step) is (ts, s)) ! j) = 0"
  using rank_fold[of j "(ts, s)" "is"] assms by simp

lemma gather_done:
  assumes "\<forall>t \<in> set ts. rank t \<le> turns" "t \<in> set (fst (gather step turns sched ts s))"
  shows "rank t = 0"
proof -
  obtain j where j: "j < length ts" "t = fst (gather step turns sched ts s) ! j"
    using assms(2) by (auto simp: gather_def in_set_conv_nth)
  have "rank (ts ! j) \<le> turns" using assms(1) j(1) by simp
  then show ?thesis
    using fold_done[OF j(1), of "sched @ drain turns (length ts)"] count_drain[OF j(1), of turns] j
    by (simp add: gather_def del: fold_append)
qed

end

end
