(* ===== verification/Engine.thy ===== *)
theory Engine
  imports Executors RunState Schedule DepGraph
begin

text \<open>
  Running one node of a workflow (\<open>Workflow.execute_node\<close>, \<open>Workflow.execute_node_config\<close> in
  \<open>src/ice_orchestrator/workflow.py\<close>): the bookkeeping around the node executor, and nodes that
  are nested in the configuration of another node.

  The mutable part of a \<open>Workflow\<close> object is the record \<open>engine\<close>; it is the world in which the
  executors act, since they call back into the workflow. Events, the event bus and traces are left
  out: their failures are swallowed. Elapsed times are a parameter. A sub-workflow returned as the
  output of a node (\<open>SubDAGResult\<close>) is no JSON value and is not modelled.
\<close>

section \<open>State\<close>

record 'x engine =
  en_nodes :: "node dict"
  en_graph :: dep_graph
  en_run :: "run_state option"
  en_outside :: 'x

record 'x engine_env =
  ee_exec :: "'x engine exec_env"
  ee_elapsed :: "string \<Rightarrow> 'x engine exec_state \<Rightarrow> rat"
  ee_size :: "val dict \<Rightarrow> int"

type_synonym 'x estate = "'x engine exec_state"

definition update_world :: "('x engine \<Rightarrow> 'x engine) \<Rightarrow> 'x estate \<Rightarrow> 'x estate" where
  "update_world f s = s\<lparr>ex_world := f (ex_world s)\<rparr>"

definition update_run :: "(run_state \<Rightarrow> run_state) \<Rightarrow> 'x estate \<Rightarrow> 'x estate" where
  "update_run f = update_world (\<lambda>w. w\<lparr>en_run := map_option f (en_run w)\<rparr>)"

section \<open>One node\<close>

text \<open>Before the executor: the start is recorded, and the event of a known node names its level.\<close>

definition start_node :: "string \<Rightarrow> 'x estate \<Rightarrow> unit res \<times> 'x estate" where
  "start_node i s =
     (let s1 = update_run (record_node_start i) s
      in (case dict_get (en_nodes (ex_world s1)) i of
            None \<Rightarrow> (Inr (), s1)
          | Some n \<Rightarrow> (res_bind (get_node_level (en_graph (ex_world s1)) i) (\<lambda>_. Inr ()), s1)))"

text \<open>After it: execution statistics, one transfer per dependency, and the result on record.\<close>

definition record_transfers :: "string list \<Rightarrow> string \<Rightarrow> int \<Rightarrow> dep_graph \<Rightarrow> dep_graph" where
  "record_transfers deps i bytes g = foldl (\<lambda>g d. update_data_transfer_stats d i (1 / 1000) bytes g) g deps"

definition finish_node ::
  "'x engine_env \<Rightarrow> string list \<Rightarrow> string \<Rightarrow> val dict \<Rightarrow> node_result \<Rightarrow> 'x estate \<Rightarrow> 'x estate" where
  "finish_node env deps i inp r s =
     (let g = update_execution_stats i (ee_elapsed env i s) (nr_success r) (nr_error r) (en_graph (ex_world s));
          g1 = (if nr_success r \<and> inp \<noteq> [] then record_transfers deps i (ee_size env inp) g else g)
      in update_run (record_node_complete i r) (update_world (\<lambda>w. w\<lparr>en_graph := g1\<rparr>) s))"

definition deps_of :: "string \<Rightarrow> 'x estate \<Rightarrow> string list" where
  "deps_of i s = (case dict_get (en_nodes (ex_world s)) i of None \<Rightarrow> [] | Some n \<Rightarrow> node_deps n)"

definition executor_call :: "'x engine_env \<Rightarrow> string \<Rightarrow> val dict \<Rightarrow> 'x estate \<Rightarrow> node_result res \<times> 'x estate" where
  "executor_call env i inp s = NodeExec.execute_node (ee_exec env) (en_nodes (ex_world s)) i inp s"

definition execute_node_w :: "'x engine_env \<Rightarrow> string \<Rightarrow> val dict \<Rightarrow> 'x estate \<Rightarrow> node_result res \<times> 'x estate" where
  "execute_node_w env i inp s =
     (case start_node i s of
        (Inl e, s1) \<Rightarrow> (Inl e, s1)
      | (Inr _, s1) \<Rightarrow>
          (case executor_call env i inp s1 of
             (Inl e, s2) \<Rightarrow> (Inl e, s2)
           | (Inr r, s2) \<Rightarrow> (Inr r, finish_node env (deps_of i s1) i inp r s2)))"

section \<open>Nested nodes\<close>

definition nested_id :: "string \<Rightarrow> string \<Rightarrow> string" where
  "nested_id parent i = (if parent = '''' then i else parent @ ''.'' @ i)"

text \<open>The node is in the table under a temporary id while it runs; what was there before is put back,
  whether it returns or raises.\<close>

definition restore_node :: "string \<Rightarrow> node option \<Rightarrow> 'x estate \<Rightarrow> 'x estate" where
  "restore_node i old = update_world (\<lambda>w. w\<lparr>en_nodes := (case old of
       Some n \<Rightarrow> dict_set i n (en_nodes w) | None \<Rightarrow> dict_pop i (en_nodes w))\<rparr>)"

definition execute_node_config ::
  "'x engine_env \<Rightarrow> node \<Rightarrow> val dict \<Rightarrow> string \<Rightarrow> 'x estate \<Rightarrow> node_result res \<times> 'x estate" where
  "execute_node_config env m inp parent s =
     (let i = nested_id parent (node_id m);
          old = dict_get (en_nodes (ex_world s)) i;
          (r, s1) = execute_node_w env i inp (update_world (\<lambda>w. w\<lparr>en_nodes := dict_set i m (en_nodes w)\<rparr>) s)
      in (r, restore_node i old s1))"

text \<open>The same as a call from an executor, which sees the engine only. The node executor's own state
  (budget, cache, counters) stands beside the world; \<open>frame\<close> supplies it.\<close>

definition nested_call ::
  "'x engine_env \<Rightarrow> ('x engine \<Rightarrow> 'x estate) \<Rightarrow> node \<Rightarrow> val dict \<Rightarrow> string \<Rightarrow> ('x engine, node_result) act" where
  "nested_call env frame m inp parent w =
     (let (r, s) = execute_node_config env m inp parent (frame w) in (r, ex_world s))"


section \<open>Nested nodes never run\<close>

lemma dict_set_back: "dict_get d i = Some v \<Longrightarrow> dict_set i v (dict_set i w d) = d"
  by (induction d) (auto split: if_splits)

lemma dict_pop_back: "dict_get d i = None \<Longrightarrow> dict_pop i (dict_set i w d) = d"
  by (induction d) (auto simp: dict_pop_def split: if_splits)

text \<open>A nested node whose temporary id has no level is not run: asking for the level raises before the
  executor is called, and nothing changes but the record that the node was started.\<close>

lemma nested_without_level:
  assumes "dict_get (node_levels (en_graph (ex_world s))) (nested_id parent (node_id m)) = None"
  shows "execute_node_config env m inp parent s =
    (Inl (Exn KeyError (sq (nested_id parent (node_id m)))),
     update_run (record_node_start (nested_id parent (node_id m))) s)"
  using assms
  by (cases "dict_get (en_nodes (ex_world s)) (nested_id parent (node_id m))")
    (auto simp: execute_node_config_def execute_node_w_def start_node_def update_run_def update_world_def
      get_node_level_def restore_node_def Let_def dict_set_back dict_pop_back)


lemma nested_call_fails:
  assumes "ex_world (frame w) = w" "dict_get (node_levels (en_graph w)) (nested_id parent (node_id m)) = None"
  shows "\<exists>w'. nested_call env frame m inp parent w = (Inl (Exn KeyError (sq (nested_id parent (node_id m)))), w') \<and>
    en_graph w' = en_graph w"
  using nested_without_level[of "frame w" parent m env inp] assms
  by (auto simp: nested_call_def update_run_def update_world_def)

text \<open>(C35) A condition whose selected branch has a node never succeeds: the branch node runs under an id of
  the form \<open>parent.child\<close>, which has no level unless a node of the workflow happens to have that very
  id. The failure reads as if the expression could not be evaluated.\<close>

theorem condition_branch_never_runs:
  assumes "ne_nested nenv = nested_call env frame" "ex_world (frame w) = w"
    and "ne_cond nenv (impl_name n) e ctx = act_raise (Exn KeyError k)" "eval_cond nenv e ctx = Inr b"
    and "(if b then yes else case no of None \<Rightarrow> [] | Some ns \<Rightarrow> ns) = m # ms"
    and "dict_get (node_levels (en_graph w)) (nested_id (node_id n) (node_id m)) = None"
  shows "\<exists>w'. condition_executor nenv n e yes no ctx w =
    (Inr (condition_failed n e (Exn KeyError (sq (nested_id (node_id n) (node_id m))))), w')"
proof -
  obtain w' where "nested_call env frame m (dict_set ''condition_result'' (VBool b) ctx) (node_id n) w =
      (Inl (Exn KeyError (sq (nested_id (node_id n) (node_id m)))), w')"
    using nested_call_fails[of frame w, OF assms(2,6)] by blast
  then have "branch_node nenv (node_id n) m ([], dict_set ''condition_result'' (VBool b) ctx) w =
      (Inl (Exn KeyError (sq (nested_id (node_id n) (node_id m)))), w')"
    using assms(1) by (simp add: branch_node_def act_bind_def)
  then have "condition_body nenv n e yes no ctx w = (Inl (Exn KeyError (sq (nested_id (node_id n) (node_id m)))), w')"
    using assms(3,4,5) by (simp add: condition_body_def Let_def act_bind_def)
  then show ?thesis by (auto simp: condition_executor_def act_catch_def on_any_def)
qed

section \<open>Parallel branches never run\<close>

definition branch_rank :: "branch_run \<Rightarrow> nat" where
  "branch_rank b = (case br_out b of Inl e \<Rightarrow> 0 | Inr d \<Rightarrow> length (br_todo b))"

lemma branch_rank_step: "branch_rank (fst (branch_step nenv parent b w)) \<le> branch_rank b - 1"
  by (auto simp: branch_step_def branch_rank_def split: list.splits sum.splits prod.splits)

interpretation branches: finite_task "branch_step nenv parent" branch_rank for nenv parent
  by unfold_locales (rule branch_rank_step)

lemma par_step_sched: "par_step nenv parent = sched_step (branch_step nenv parent)"
  by (intro ext) (simp add: par_step_def sched_step_def)

definition no_level :: "dep_graph \<Rightarrow> string \<Rightarrow> node list \<Rightarrow> bool" where
  "no_level g parent b \<longleftrightarrow> b \<noteq> [] \<and> dict_get (node_levels g) (nested_id parent (node_id (hd b))) = None"

definition branch_failed :: "string \<Rightarrow> node list \<Rightarrow> exn" where
  "branch_failed parent b = Exn KeyError (sq (nested_id parent (node_id (hd b))))"

lemma branches_fail:
  assumes "ne_nested nenv = nested_call env frame" "\<And>v. ex_world (frame v) = v"
    and "\<And>b. b \<in> set branches \<Longrightarrow> no_level (en_graph w) parent b"
  shows "map br_out (fst (run_branches nenv parent sched branches ctx w)) =
    map (\<lambda>b. Inl (branch_failed parent b)) branches"
proof -
  let ?starts = "map2 (branch_start ctx) [0..<length branches] branches"
  let ?run = "fold (sched_step (branch_step nenv parent)) (sched @ drain_schedule branches) (?starts, w)"
  let ?R = "\<lambda>t0 t. no_level (en_graph w) parent (br_todo t0) \<and> (t = t0 \<and> br_out t = Inr [] \<or>
      br_out t = Inl (branch_failed parent (br_todo t0)))"
  have step: "?R t0 (fst (branch_step nenv parent t v)) \<and> en_graph (snd (branch_step nenv parent t v)) = en_graph w"
    if R: "?R t0 t" and g: "en_graph v = en_graph w" for t0 t v
  proof (cases "br_out t")
    case (Inl e)
    then show ?thesis using R g by (auto simp: branch_step_def split: list.splits)
  next
    case (Inr d)
    then obtain m ms where t: "t = t0" "br_todo t0 = m # ms" "d = []"
      using R Inr by (cases "br_todo t0") (auto simp: no_level_def)
    obtain w' where "nested_call env frame m (br_ctx t) parent v = (Inl (Exn KeyError (sq (nested_id parent (node_id m)))), w')"
      "en_graph w' = en_graph v"
      using nested_call_fails[of frame v parent m env "br_ctx t", OF assms(2)] R g t by (auto simp: no_level_def)
    then show ?thesis using R g t Inr assms(1)
      by (auto simp: branch_step_def branch_failed_def)
  qed
  have starts: "list_all2 ?R ?starts ?starts"
    using assms(3) by (auto simp: list_all2_conv_all_nth branch_start_def)
  have kept: "list_all2 ?R ?starts (fst ?run)"
    using fold_keeps[of ?R "\<lambda>v. en_graph v = en_graph w" "branch_step nenv parent", OF step, of ?starts "(?starts, w)"
        "sched @ drain_schedule branches"] starts by (simp del: fold_append)
  show ?thesis
  proof (rule nth_equalityI)
    show "length (map br_out (fst (run_branches nenv parent sched branches ctx w))) =
        length (map (\<lambda>b. Inl (branch_failed parent b)) branches)"
      by (simp add: run_branches_length)
    fix j assume "j < length (map br_out (fst (run_branches nenv parent sched branches ctx w)))"
    then have j: "j < length branches" by (simp add: run_branches_length)
    have "length (branches ! j) \<le> count_list (sched @ drain_schedule branches) j"
      using count_concat_replicate[of j "[0..<length branches]" "\<lambda>j. length (branches ! j)"] j
      by (simp add: drain_schedule_def)
    then have "branch_rank (fst ?run ! j) = 0"
      using branches.fold_done[of j ?starts "sched @ drain_schedule branches" nenv parent w] j
      by (simp add: branch_rank_def branch_start_def del: fold_append)
    moreover have "?R (?starts ! j) (fst ?run ! j)" using kept j by (auto simp: list_all2_conv_all_nth)
    ultimately have "br_out (fst ?run ! j) = Inl (branch_failed parent (branches ! j))"
      using j by (auto simp: branch_rank_def branch_start_def no_level_def)
    then show "map br_out (fst (run_branches nenv parent sched branches ctx w)) ! j =
        map (\<lambda>b. Inl (branch_failed parent b)) branches ! j"
      using j by (simp add: run_branches_def par_step_sched run_branches_length[unfolded run_branches_def par_step_sched] del: fold_append)
  qed
qed

text \<open>A parallel node reports success although none of its branches has run: whatever the schedule,
  every branch ends at its first node, for the same reason, and becomes an error entry.\<close>

theorem parallel_branches_never_run:
  assumes "ne_nested nenv = nested_call env frame" "\<And>v. ex_world (frame v) = v"
    and "ne_impl nenv (node_type_of n) (impl_name n) n ctx = act_raise (Exn KeyError k)" "branches \<noteq> []"
    and "\<And>b. b \<in> set branches \<Longrightarrow> no_level (en_graph w) (node_id n) b"
  shows "\<exists>r w'. parallel_executor nenv sched n branches merge ctx w = (Inr r, w') \<and> nr_success r \<and>
    nr_output r = parallel_output merge (map2 (\<lambda>i b. [(''branch_error'', VStr (exn_msg (branch_failed (node_id n) b))),
       (''branch_index'', VInt (int i))]) [0..<length branches] branches)"
proof -
  let ?out = "map2 (\<lambda>i b. [(''branch_error'', VStr (exn_msg (branch_failed (node_id n) b))),
       (''branch_index'', VInt (int i))]) [0..<length branches] branches"
  obtain bs w' where run: "run_branches nenv (node_id n) sched branches ctx w = (bs, w')" by fastforce
  have outs: "map br_out bs = map (\<lambda>b. Inl (branch_failed (node_id n) b)) branches"
    using branches_fail[OF assms(1,2), of branches w "node_id n" sched ctx] assms(5) run by simp
  then have len: "length bs = length branches" using map_eq_imp_length_eq by blast
  have "map2 branch_entry [0..<length bs] (map br_out bs) = ?out"
    unfolding outs len by (rule nth_equalityI) (simp_all add: branch_entry_def)
  then have "parallel_inline nenv sched n branches merge ctx w =
      (Inr (ok_result (node_id n) (node_type_str n) (parallel_output merge ?out)), w')"
    using assms(4) run by (simp add: parallel_inline_def)
  then have "parallel_executor nenv sched n branches merge ctx w =
      (Inr (ok_result (node_id n) (node_type_str n) (parallel_output merge ?out)), w')"
    using assms(3) by (simp add: parallel_executor_def impl_or_def act_catch_def)
  then show ?thesis by (simp add: ok_result_def success_result_def)
qed

section \<open>Witnesses\<close>

text \<open>A budget, cache and counters to run in, and an engine over one node \<open>p\<close> at level 0.\<close>

definition frame_of :: "'w \<Rightarrow> 'w exec_state" where
  "frame_of w = \<lparr>ex_world = w, ex_budget = ex_budget demo_state, ex_cache = ex_cache demo_state, ex_slept = [],
     ex_calls = 0, ex_exhausted = 0\<rparr>"

lemma frame_of_world [simp]: "ex_world (frame_of w) = w"
  by (simp add: frame_of_def)

definition demo_engine :: "node \<Rightarrow> unit engine" where
  "demo_engine n = \<lparr>en_nodes = [(node_id n, n)],
     en_graph = empty_graph\<lparr>graph := \<lparr>gnodes = [node_id n], gedges = []\<rparr>, node_levels := [(node_id n, 0)]\<rparr>,
     en_run = None, en_outside = ()\<rparr>"

definition demo_engine_env :: "unit engine_env" where
  "demo_engine_env = \<lparr>ee_exec = \<lparr>ev_use_cache = False, ev_halt = False, ev_persist = False, ev_validate = False,
     ev_lib = demo_lib, ev_compiles = (\<lambda>_. None), ev_show = (\<lambda>_. ''''), ev_key = (\<lambda>_ _. None),
     ev_float = (\<lambda>_. type_error), ev_dispatch = (\<lambda>n inp w. (Inr (Packed (ok_result (node_id n) ''tool'' (VInt 1))), w)),
     ev_store = (\<lambda>_ _ w. (Inr (), w))\<rparr>, ee_elapsed = (\<lambda>_ _. 1), ee_size = (\<lambda>d. int (length d))\<rparr>"

definition nested_nenv :: "unit engine node_env" where
  "nested_nenv = \<lparr>ne_impl = (\<lambda>t i n ctx. act_raise (Exn KeyError i)), ne_cond = (\<lambda>i e ctx. act_raise (Exn KeyError i)),
     ne_run = (\<lambda>n ctx. act_ret (Plain VNone)), ne_nested = nested_call demo_engine_env frame_of,
     ne_sub = (\<lambda>r ctx. act_raise (Exn KeyError r)), ne_tool = (\<lambda>t. Inl (Exn KeyError t)),
     ne_agent_path = (\<lambda>r. Inl (Exn KeyError r)), ne_parse = (\<lambda>s. Some (EName s)), ne_fmt = (\<lambda>_ _. type_error),
     ne_render = (\<lambda>s ctx. Inr s), ne_environment = ''''\<rparr>"

theorem condition_branch_never_runs_witness:
  "\<exists>r w'. condition_executor nested_nenv
      (Node (default_base ''c'' []) (KCondition ''x'' [plain_node ''y''] None)) ''x'' [plain_node ''y''] None
      [(''x'', VInt 1)] (demo_engine (plain_node ''c'')) = (Inr r, w') \<and> \<not> nr_success r"
proof -
  let ?n = "Node (default_base ''c'' []) (KCondition ''x'' [plain_node ''y''] None)"
  have "\<exists>w'. condition_executor nested_nenv ?n ''x'' [plain_node ''y''] None [(''x'', VInt 1)]
      (demo_engine (plain_node ''c'')) =
    (Inr (condition_failed ?n ''x'' (Exn KeyError (sq (nested_id (node_id ?n) (node_id (plain_node ''y'')))))), w')"
    by (rule condition_branch_never_runs [where frame = frame_of and env = demo_engine_env and b = True
          and ms = "[]" and k = "impl_name ?n"])
      (simp_all add: nested_nenv_def eval_cond_def safe_eval_bool_def demo_engine_def plain_node_def node_id_def
        default_base_def nested_id_def)
  then show ?thesis by (auto simp: condition_failed_def failed_with_def failure_result_def)
qed

theorem parallel_branches_never_run_witness:
  "\<exists>r w'. parallel_executor nested_nenv [1] (Node (default_base ''p'' []) (KParallel [[plain_node ''a''], [plain_node ''b'']] True))
      [[plain_node ''a''], [plain_node ''b'']] True [] (demo_engine (plain_node ''p'')) = (Inr r, w') \<and> nr_success r \<and>
    nr_output r = parallel_output True [[(''branch_error'', VStr (sq ''p.a'')), (''branch_index'', VInt 0)],
      [(''branch_error'', VStr (sq ''p.b'')), (''branch_index'', VInt 1)]]"
proof -
  let ?bs = "[[plain_node ''a''], [plain_node ''b'']]"
  let ?n = "Node (default_base ''p'' []) (KParallel ?bs True)"
  have "\<exists>r w'. parallel_executor nested_nenv [1] ?n ?bs True [] (demo_engine (plain_node ''p'')) = (Inr r, w') \<and>
      nr_success r \<and> nr_output r = parallel_output True
        (map2 (\<lambda>i b. [(''branch_error'', VStr (exn_msg (branch_failed (node_id ?n) b))), (''branch_index'', VInt (int i))])
          [0..<length ?bs] ?bs)"
    by (rule parallel_branches_never_run [where frame = frame_of and env = demo_engine_env and k = "impl_name ?n"])
      (auto simp: nested_nenv_def demo_engine_def plain_node_def node_id_def default_base_def nested_id_def no_level_def)
  then show ?thesis
    by (simp add: branch_failed_def plain_node_def node_id_def default_base_def nested_id_def upt_rec)
qed

end
