(* ===== verification/Policy.thy ===== *)
theory Policy
  imports DepGraph
begin

text \<open>
  How a run goes on after failures, and the static checks of a chain (\<open>ChainValidator\<close> in
  \<open>src/ice_orchestrator/validation/chain_validator.py\<close>, \<open>FailurePolicy\<close> in
  \<open>base_workflow.py\<close>). The license and privacy checks of the source are empty. The check of
  a chain against tool classes imports a module that the repository does not have.
\<close>

section \<open>Going on after errors\<close>

datatype failure_policy = HALT | CONTINUE_POSSIBLE | ALWAYS

text \<open>The id of a failed node is read back from its error message:
  \<open>error.split("Node ")[1].split(" failed:")[0]\<close>.\<close>

definition failed_of :: "string \<Rightarrow> string option" where
  "failed_of err =
     (if str_contains ''Node '' err \<and> str_contains '' failed:'' err
      then Some (hd (str_split '' failed:'' (str_split ''Node '' err ! 1))) else None)"

definition failed_nodes :: "string list \<Rightarrow> string set" where
  "failed_nodes errors = set (List.map_filter failed_of errors)"

text \<open>The first node of the levels that may run decides; \<open>self.nodes[node_id]\<close> must exist.\<close>

fun find_independent :: "node dict \<Rightarrow> string set \<Rightarrow> string list \<Rightarrow> bool res" where
  "find_independent nodes failed [] = Inr False"
| "find_independent nodes failed (i # is) = (case dict_get nodes i of
       None \<Rightarrow> Inl (Exn KeyError (sq i))
     | Some n \<Rightarrow>
         if i \<in> failed then find_independent nodes failed is
         else if list_ex (\<lambda>d. d \<in> failed) (node_deps n) then find_independent nodes failed is
         else Inr True)"

definition level_order :: "(int \<times> string list) list \<Rightarrow> string list" where
  "level_order levels = concat (map snd (sort_key fst levels))"

definition should_continue ::
  "failure_policy \<Rightarrow> (int \<times> string list) list \<Rightarrow> node dict \<Rightarrow> string list \<Rightarrow> bool res" where
  "should_continue policy levels nodes errors =
     (if errors = [] then Inr True
      else case policy of
        HALT \<Rightarrow> Inr False
      | ALWAYS \<Rightarrow> Inr True
      | CONTINUE_POSSIBLE \<Rightarrow> find_independent nodes (failed_nodes errors) (level_order levels))"

section \<open>Placeholders of prompts\<close>

definition is_ph_char :: "char \<Rightarrow> bool" where
  "is_ph_char c \<longleftrightarrow> is_digit c \<or> c = CHR ''_'' \<or> c = CHR ''.''
     \<or> (65 \<le> (of_char c :: nat) \<and> (of_char c :: nat) \<le> 90) \<or> (97 \<le> (of_char c :: nat) \<and> (of_char c :: nat) \<le> 122)"

text \<open>The text after an opening brace against the rest of the pattern: blanks, a name, blanks, the
  closing brace.\<close>

definition match_placeholder :: "string \<Rightarrow> (string \<times> string) option" where
  "match_placeholder s =
     (let s1 = dropWhile is_space s; w = takeWhile is_ph_char s1; s2 = dropWhile is_space (dropWhile is_ph_char s1)
      in if w \<noteq> [] \<and> prefix [CHR 0x7D] s2 then Some (w, tl s2) else None)"

lemma match_placeholder_shorter: "match_placeholder s = Some (w, rest) \<Longrightarrow> length rest \<le> length s"
proof -
  assume "match_placeholder s = Some (w, rest)"
  then have "rest = tl (dropWhile is_space (dropWhile is_ph_char (dropWhile is_space s)))"
    by (auto simp: match_placeholder_def Let_def split: if_splits)
  then have "length rest \<le> length (dropWhile is_space (dropWhile is_ph_char (dropWhile is_space s)))" by simp
  also have "\<dots> \<le> length s"
    by (meson le_trans length_dropWhile_le)
  finally show ?thesis .
qed

function extract_placeholders :: "string \<Rightarrow> string list" where
  "extract_placeholders [] = []"
| "extract_placeholders (c # s) =
     (if c = CHR 0x7B
      then (case match_placeholder s of
              Some (w, rest) \<Rightarrow> w # extract_placeholders rest | None \<Rightarrow> extract_placeholders s)
      else extract_placeholders s)"
  by pat_completeness auto
termination
  by (relation "measure length") (auto simp: less_Suc_eq_le dest: match_placeholder_shorter)

definition missing_placeholders :: "node \<Rightarrow> string list" where
  "missing_placeholders n = (case kind n of
       KLlm l \<Rightarrow> filter (\<lambda>p. p \<notin> set (dict_keys (input_mappings (base n)))
           \<and> (case input_selection (base n) of None \<Rightarrow> True | Some ks \<Rightarrow> p \<notin> set ks))
         (remdups (extract_placeholders (lm_prompt l)))
     | _ \<Rightarrow> [])"

text \<open>\<open>sort_str\<close> is Python's order of strings, by code points.\<close>

fun str_less :: "string \<Rightarrow> string \<Rightarrow> bool" where
  "str_less _ [] = False"
| "str_less [] (d # ds) = True"
| "str_less (c # cs) (d # ds) =
     (if (of_char c :: nat) < of_char d then True else if c = d then str_less cs ds else False)"

fun insert_str :: "string \<Rightarrow> string list \<Rightarrow> string list" where
  "insert_str x [] = [x]"
| "insert_str x (y # ys) = (if str_less y x then y # insert_str x ys else x # y # ys)"

definition sort_str :: "string list \<Rightarrow> string list" where
  "sort_str xs = foldr insert_str xs []"

definition validate_prompt_placeholders :: "node list \<Rightarrow> string list" where
  "validate_prompt_placeholders ns =
     map (\<lambda>n. ''Node '' @ sq (node_id n) @ '' prompt references undefined placeholders: ''
                @ list_repr (sort_str (missing_placeholders n)))
       (filter (\<lambda>n. missing_placeholders n \<noteq> []) ns)"

text \<open>\<open>version\<close> is the version of the node or of its metadata.\<close>

definition validate_node_versions :: "(node \<Rightarrow> string option) \<Rightarrow> node list \<Rightarrow> string list" where
  "validate_node_versions version ns =
     map (\<lambda>n. ''Node '' @ sq (node_id n) @ '' is missing version metadata.'')
       (filter (\<lambda>n. version n = None \<or> version n = Some '''') ns)"

definition validate_chain :: "(node \<Rightarrow> string option) \<Rightarrow> node list \<Rightarrow> string list" where
  "validate_chain version ns = validate_node_versions version ns @ validate_prompt_placeholders ns"

section \<open>Reading ids back\<close>

lemma split_aux_acc: "split_aux sep acc s = (rev acc @ hd (split_aux sep [] s)) # tl (split_aux sep [] s)"
proof (induction s arbitrary: acc)
  case Nil
  then show ?case by simp
next
  case (Cons c s)
  show ?case
  proof (cases "sep \<noteq> [] \<and> prefix sep (c # s)")
    case True
    then show ?thesis by (simp del: prefix_code)
  next
    case False
    have e: "split_aux sep acc (c # s) = split_aux sep (c # acc) s" for acc
      using False by (simp only: split_aux.simps if_False)
    have "split_aux sep acc (c # s) = (rev (c # acc) @ hd (split_aux sep [] s)) # tl (split_aux sep [] s)"
      using e[of acc] Cons.IH[of "c # acc"] by simp
    moreover have "split_aux sep [] (c # s) = ([c] @ hd (split_aux sep [] s)) # tl (split_aux sep [] s)"
      using e[of "[]"] Cons.IH[of "[c]"] by simp
    ultimately show ?thesis by simp
  qed
qed

text \<open>A stretch in which no separator starts belongs to the first piece.\<close>

lemma split_hd_skip:
  assumes "sep \<noteq> []" "\<And>p q. a = p @ q \<Longrightarrow> q \<noteq> [] \<Longrightarrow> \<not> prefix sep (q @ s)"
  shows "hd (str_split sep (a @ s)) = a @ hd (str_split sep s)"
  using assms(2)
proof (induction a)
  case Nil
  then show ?case by simp
next
  case (Cons c a)
  have "\<not> prefix sep (c # a @ s)" using Cons.prems[of "[]" "c # a"] by simp
  then have "split_aux sep [] (c # a @ s) = split_aux sep [c] (a @ s)" by (simp only: split_aux.simps if_False simp_thms)
  then have "hd (split_aux sep [] (c # a @ s)) = [c] @ hd (split_aux sep [] (a @ s))"
    using split_aux_acc[of sep "[c]" "a @ s"] by simp
  moreover have "hd (str_split sep (a @ s)) = a @ hd (str_split sep s)"
    by (rule Cons.IH) (use Cons.prems in auto)
  ultimately show ?case by (simp add: str_split_def)
qed

text \<open>Ids without blanks that do not end in \<open>Node\<close> are read back.\<close>

definition plain_id :: "string \<Rightarrow> bool" where
  "plain_id i \<longleftrightarrow> CHR '' '' \<notin> set i \<and> \<not> suffix ''Node'' i"

definition fail_message :: "string \<Rightarrow> string \<Rightarrow> string" where
  "fail_message i m = ''Node '' @ i @ '' failed: '' @ m"

lemma no_node_marker:
  assumes "plain_id i" "q \<noteq> []" "suffix q (i @ '' failed:'')"
  shows "\<not> prefix ''Node '' (q @ '' '' @ m)"
proof
  assume pre: "prefix ''Node '' (q @ '' '' @ m)"
  consider q' where "q = q' @ '' failed:''" "suffix q' i" | "suffix q '' failed:''"
    using assms(3) by (auto simp: suffix_append)
  then show False
  proof cases
    case 1
    have ns: "CHR '' '' \<notin> set q'" using assms(1) 1(2) by (auto simp: plain_id_def dest: set_mono_suffix)
    show False
    proof (cases "q' = ''Node''")
      case True
      then show False using assms(1) 1(2) by (simp add: plain_id_def)
    next
      case False
      then show False using pre ns 1(1)
        by (auto simp: prefix_def append_eq_Cons_conv append_eq_append_conv2 Cons_eq_append_conv)
    qed
  next
    case 2
    then show False using pre assms(2)
      by (auto simp: suffix_def prefix_def Cons_eq_append_conv)
  qed
qed

lemma failed_of_message: "plain_id i \<Longrightarrow> failed_of (fail_message i m) = Some i"
proof -
  assume i: "plain_id i"
  have c: "str_contains ''Node '' (fail_message i m)" "str_contains '' failed:'' (fail_message i m)"
    unfolding str_contains_iff fail_message_def sublist_def
    by (metis append.left_neutral, metis append_Cons append_Nil append_assoc)
  have "str_split ''Node '' (fail_message i m) ! 1 = hd (str_split ''Node '' ((i @ '' failed:'') @ '' '' @ m))"
  proof -
    have "str_split ''Node '' (fail_message i m) = [] # str_split ''Node '' (i @ '' failed: '' @ m)"
      by (simp add: fail_message_def str_split_def)
    moreover have "str_split ''Node '' x \<noteq> []" for x by (simp add: str_split_def)
    ultimately show ?thesis by (simp add: hd_conv_nth)
  qed
  also have "\<dots> = (i @ '' failed:'') @ hd (str_split ''Node '' ('' '' @ m))"
    by (rule split_hd_skip) (use no_node_marker[OF i] in \<open>auto simp: suffix_def\<close>)
  finally have s: "str_split ''Node '' (fail_message i m) ! 1 = i @ '' failed:'' @ hd (str_split ''Node '' ('' '' @ m))"
    by simp
  have "hd (str_split '' failed:'' (i @ '' failed:'' @ h)) = i" for h
  proof -
    have "hd (str_split '' failed:'' (i @ '' failed:'' @ h)) = i @ hd (str_split '' failed:'' ('' failed:'' @ h))"
    proof (rule split_hd_skip)
      fix p q assume "i = p @ q" "q \<noteq> []"
      then show "\<not> prefix '' failed:'' (q @ '' failed:'' @ h)" using i by (cases q) (auto simp: plain_id_def)
    qed simp
    then show ?thesis by (simp add: str_split_def)
  qed
  then show ?thesis using c s by (simp add: failed_of_def)
qed

section \<open>Properties\<close>

lemma failed_nodes_messages:
  "list_all (\<lambda>(i, m). plain_id i) fs \<Longrightarrow> failed_nodes (map (\<lambda>(i, m). fail_message i m) fs) = fst ` set fs"
proof (induction fs)
  case Nil
  then show ?case by (simp add: failed_nodes_def map_filter_simps)
next
  case (Cons f fs)
  then show ?case by (cases f) (auto simp: failed_nodes_def map_filter_simps failed_of_message)
qed

lemma find_independent_iff:
  assumes "list_all (\<lambda>i. dict_get nodes i \<noteq> None) is"
  shows "\<exists>b. find_independent nodes F is = Inr b \<and>
    (b \<longleftrightarrow> (\<exists>i \<in> set is. i \<notin> F \<and> set (node_deps (the (dict_get nodes i))) \<inter> F = {}))"
  using assms by (induction "is") (auto simp: list_ex_iff)

text \<open>After node failures a run that continues if possible goes on exactly when some node of the
  workflow has not failed and depends directly on no failed node, as long as the ids of the failed
  nodes can be read back from the messages; nodes that already ran count, and a node that depends
  on a failed one through others counts as well.\<close>

theorem continues_iff_independent_node:
  assumes "list_all (\<lambda>(i, m). plain_id i) fs" "fs \<noteq> []"
    and "list_all (\<lambda>i. dict_get nodes i \<noteq> None) (level_order levels)"
  shows "\<exists>b. should_continue CONTINUE_POSSIBLE levels nodes (map (\<lambda>(i, m). fail_message i m) fs) = Inr b \<and>
    (b \<longleftrightarrow> (\<exists>i \<in> set (level_order levels). i \<notin> fst ` set fs \<and>
        set (node_deps (the (dict_get nodes i))) \<inter> fst ` set fs = {}))"
  using find_independent_iff[OF assms(3)] failed_nodes_messages[OF assms(1)] assms(2)
  by (simp add: should_continue_def)

theorem continues_iff_independent_node_witness:
  "should_continue CONTINUE_POSSIBLE [(1, [''b'']), (0, [''a''])]
     [(''a'', Node (default_base ''a'' []) (KTool ''t'' [])), (''b'', Node (default_base ''b'' [''a'']) (KTool ''t'' []))]
     (map (\<lambda>(i, m). fail_message i m) [(''a'', ''Node x'')]) = Inr False"
proof -
  let ?ns = "[(''a'', Node (default_base ''a'' []) (KTool ''t'' [])),
    (''b'', Node (default_base ''b'' [''a'']) (KTool ''t'' []))]"
  have l: "level_order [(1, [''b'']), (0, [''a''])] = [''a'', ''b'']" by (simp add: level_order_def)
  show ?thesis
    using continues_iff_independent_node [of "[(''a'', ''Node x'')]" ?ns "[(1, [''b'']), (0, [''a''])]", unfolded l]
    by (auto simp: plain_id_def suffix_def node_deps_def default_base_def)
qed

text \<open>An id that ends in \<open>Node\<close> is misread: the failure of the only node of a workflow is then not
  seen, and the policy lets the run go on as if that node could still run.\<close>

theorem id_ending_in_node_is_misread:
  "failed_of (fail_message ''sumNode'' m) = Some ''sum'' \<and>
   should_continue CONTINUE_POSSIBLE [(0, [''sumNode''])]
     [(''sumNode'', Node (default_base ''sumNode'' []) (KTool ''t'' []))] [fail_message ''sumNode'' m] = Inr True"
proof -
  have "str_split ''Node '' (fail_message ''sumNode'' m) = [] # ''sum'' # str_split ''Node '' (''failed: '' @ m)"
    by (simp add: fail_message_def str_split_def)
  moreover have "str_contains ''Node '' (fail_message ''sumNode'' m)" "str_contains '' failed:'' (fail_message ''sumNode'' m)"
    by (simp_all add: fail_message_def)
  ultimately have f: "failed_of (fail_message ''sumNode'' m) = Some ''sum''"
    by (simp add: failed_of_def str_split_def)
  then show ?thesis
    by (simp add: should_continue_def failed_nodes_def map_filter_simps level_order_def node_deps_def default_base_def)
qed

end
