(* ===== verification/Gating.thy ===== *)
theory Gating
  imports DepGraph
begin

text \<open>
  Branch gating (\<open>BranchGatingResolver\<close> in \<open>src/ice_orchestrator/graph/level_resolver.py\<close>): is a
  node to run? The answer is computed from the answers for its predecessors and memoised. Recorded
  branch decisions are kept but have no influence on it. The recursion of the source is bounded by
  the interpreter's recursion limit: here by fuel, with \<open>None\<close> for \<open>RecursionError\<close>.
\<close>

record resolver =
  decisions :: "bool dict"
  active_cache :: "bool dict"

definition record_decision :: "string \<Rightarrow> bool \<Rightarrow> resolver \<Rightarrow> resolver" where
  "record_decision i d r = r\<lparr>decisions := dict_set i d (decisions r), active_cache := []\<rparr>"

fun is_active :: "nat \<Rightarrow> digraph \<Rightarrow> bool dict \<Rightarrow> string \<Rightarrow> (bool \<times> bool dict) option"
and all_active :: "nat \<Rightarrow> digraph \<Rightarrow> bool dict \<Rightarrow> string list \<Rightarrow> (bool \<times> bool dict) option" where
  "is_active 0 g c n = None"
| "is_active (Suc k) g c n = (case dict_get c n of
       Some b \<Rightarrow> Some (b, c)
     | None \<Rightarrow> (case all_active k g c (predecessors g n) of
           None \<Rightarrow> None | Some (b, c') \<Rightarrow> Some (b, dict_set n b c')))"
| "all_active k g c [] = Some (True, c)"
| "all_active k g c (d # ds) = (case is_active k g c d of
       None \<Rightarrow> None
     | Some (b, c') \<Rightarrow> if b then all_active k g c' ds else Some (False, c'))"

definition is_node_active :: "nat \<Rightarrow> digraph \<Rightarrow> string \<Rightarrow> resolver \<Rightarrow> (bool \<times> resolver) option" where
  "is_node_active limit g n r = map_option (\<lambda>(b, c). (b, r\<lparr>active_cache := c\<rparr>)) (is_active limit g (active_cache r) n)"

section \<open>Lemmas\<close>

definition all_true :: "bool dict \<Rightarrow> bool" where
  "all_true c \<longleftrightarrow> (\<forall>n. dict_get c n \<noteq> Some False)"

lemma all_true_set [simp]: "all_true c \<Longrightarrow> all_true (dict_set n True c)"
  by (simp add: all_true_def)

text \<open>No answer is ever \<open>False\<close>.\<close>

lemma all_true_get: "all_true c \<Longrightarrow> dict_get c n = Some b \<Longrightarrow> b"
  by (cases b) (simp_all add: all_true_def)

lemma is_active_Suc:
  "is_active (Suc k) g c n = Some (b, c') \<longleftrightarrow> dict_get c n = Some b \<and> c' = c \<or>
     dict_get c n = None \<and> (\<exists>c1. all_active k g c (predecessors g n) = Some (b, c1) \<and> c' = dict_set n b c1)"
  by (auto split: option.splits)

lemma all_active_Cons:
  "all_active k g c (d # ds) = Some (b, c') \<longleftrightarrow> (\<exists>b1 c1. is_active k g c d = Some (b1, c1) \<and>
     (if b1 then all_active k g c1 ds = Some (b, c') else \<not> b \<and> c' = c1))"
  by (auto split: option.splits)

lemma active_true:
  "is_active k g c n = Some (b, c') \<Longrightarrow> all_true c \<Longrightarrow> b \<and> all_true c'"
  "all_active k g c ds = Some (b, c') \<Longrightarrow> all_true c \<Longrightarrow> b \<and> all_true c'"
proof (induction k arbitrary: c n b c' ds)
  case 0
  {
    case 1
    then show ?case by simp
  next
    case 2
    then show ?case by (cases ds) auto
  }
next
  case (Suc k)
  have one: "is_active (Suc k) g c n = Some (b, c') \<Longrightarrow> all_true c \<Longrightarrow> b \<and> all_true c'" for c n b c'
    unfolding is_active_Suc using Suc.IH(2)[of c "predecessors g n" b] all_true_get[of c n b] by auto
  have many: "all_active (Suc k) g c ds = Some (b, c') \<Longrightarrow> all_true c \<Longrightarrow> b \<and> all_true c'" for c ds b c'
  proof (induction ds arbitrary: c)
    case Nil
    then show ?case by simp
  next
    case (Cons d ds)
    then obtain b1 c1 where d: "is_active (Suc k) g c d = Some (b1, c1)"
      "if b1 then all_active (Suc k) g c1 ds = Some (b, c') else \<not> b \<and> c' = c1"
      unfolding all_active_Cons by blast
    then show ?case using one[OF d(1) Cons.prems(2)] Cons.IH[of c1] by simp
  qed
  {
    case 1
    then show ?case using one by blast
  next
    case 2
    then show ?case using many by blast
  }
qed

lemma active_mono:
  "is_active k g c n = Some (b, c') \<Longrightarrow> k \<le> k' \<Longrightarrow> is_active k' g c n = Some (b, c')"
  "all_active k g c ds = Some (b, c') \<Longrightarrow> k \<le> k' \<Longrightarrow> all_active k' g c ds = Some (b, c')"
proof (induction k arbitrary: k' c n b c' ds)
  case 0
  {
    case 1
    then show ?case by simp
  next
    case 2
    then show ?case by (cases ds) auto
  }
next
  case (Suc k)
  have one: "is_active k' g c n = Some (b, c')" if x: "is_active (Suc k) g c n = Some (b, c')" and y: "Suc k \<le> k'" for k' c n b c'
  proof -
    obtain j where "k' = Suc j" "k \<le> j" using y by (cases k') auto
    then show ?thesis using x Suc.IH(2) unfolding is_active_Suc by (metis is_active_Suc)
  qed
  have many: "all_active (Suc k) g c ds = Some (b, c') \<Longrightarrow> Suc k \<le> k' \<Longrightarrow> all_active k' g c ds = Some (b, c')" for k' c ds b c'
  proof (induction ds arbitrary: c)
    case Nil
    then show ?case by simp
  next
    case (Cons d ds)
    then show ?case unfolding all_active_Cons using one by (metis (full_types))
  qed
  {
    case 1
    then show ?case using one by blast
  next
    case 2
    then show ?case using many by blast
  }
qed

lemma all_active_enough:
  assumes "\<And>d c. d \<in> set ds \<Longrightarrow> all_true c \<Longrightarrow> \<exists>k b c'. is_active k g c d = Some (b, c')" "all_true c"
  shows "\<exists>k b c'. all_active k g c ds = Some (b, c')"
  using assms
proof (induction ds arbitrary: c)
  case Nil
  then show ?case by auto
next
  case (Cons d ds)
  obtain k b c1 where k: "is_active k g c d = Some (b, c1)" using Cons.prems by (meson list.set_intros(1))
  have b: "b" "all_true c1" using active_true(1)[OF k Cons.prems(2)] by auto
  obtain k2 b2 c2 where k2: "all_active k2 g c1 ds = Some (b2, c2)" using Cons.IH[OF _ b(2)] Cons.prems(1) by auto
  have "all_active (max k k2) g c (d # ds) = Some (b2, c2)"
    using active_mono(1)[OF k, of "max k k2"] active_mono(2)[OF k2, of "max k k2"] b(1) by simp
  then show ?case by blast
qed

lemma active_on_dag:
  assumes "acyclic (set (gedges g))"
  shows "all_true c \<Longrightarrow> \<exists>k b c'. is_active k g c n = Some (b, c')"
proof -
  have wf: "wf (set (gedges g))" by (rule finite_acyclic_wf) (simp_all add: assms)
  show "all_true c \<Longrightarrow> \<exists>k b c'. is_active k g c n = Some (b, c')"
  proof (induction n arbitrary: c rule: wf_induct_rule[OF wf])
    case (1 n)
    have "\<exists>k b c'. all_active k g c (predecessors g n) = Some (b, c')"
      by (rule all_active_enough) (use 1 in \<open>auto simp: predecessors_def\<close>)
    then obtain k b c' where k: "all_active k g c (predecessors g n) = Some (b, c')" by blast
    show ?case
    proof (cases "dict_get c n")
      case None
      then have "is_active (Suc k) g c n = Some (b, dict_set n b c')" using k by simp
      then show ?thesis by blast
    next
      case (Some v)
      then have "is_active (Suc k) g c n = Some (v, c)" by simp
      then show ?thesis by blast
    qed
  qed
qed

text \<open>On a graph without cycles gating never holds a node back: with a large enough recursion limit,
  and whatever decisions were recorded, every node is active, and the memo keeps saying so.\<close>

theorem gating_idle_on_dags:
  assumes "acyclic (set (gedges g))" "all_true (active_cache r)"
  shows "\<exists>limit. \<forall>k \<ge> limit. \<exists>r'. is_node_active k g n r = Some (True, r') \<and> all_true (active_cache r')"
proof -
  obtain limit b c where k: "is_active limit g (active_cache r) n = Some (b, c)"
    using active_on_dag[OF assms, of n] by blast
  have b: "b" "all_true c" using active_true(1)[OF k assms(2)] by auto
  show ?thesis
    using active_mono(1)[OF k] b by (intro exI[of _ limit]) (auto simp: is_node_active_def)
qed

theorem gating_idle_on_dags_witness:
  "\<exists>limit. \<forall>k \<ge> limit. \<exists>r'. is_node_active k \<lparr>gnodes = [''a'', ''b''], gedges = [(''a'', ''b'')]\<rparr> ''b''
     (record_decision ''a'' False \<lparr>decisions = [], active_cache = []\<rparr>) = Some (True, r') \<and> all_true (active_cache r')"
  by (rule gating_idle_on_dags) (simp_all add: record_decision_def all_true_def acyclic_def trancl_insert)

lemma cycle_no_answer:
  assumes "\<And>x. x \<in> S \<Longrightarrow> set (predecessors g x) \<inter> S \<noteq> {}"
  shows "all_true c \<Longrightarrow> \<forall>x \<in> S. dict_get c x = None \<Longrightarrow>
    (n \<in> S \<longrightarrow> is_active k g c n = None) \<and>
    (\<forall>b c'. is_active k g c n = Some (b, c') \<longrightarrow> b \<and> all_true c' \<and> (\<forall>x \<in> S. dict_get c' x = None))"
proof (induction k arbitrary: c n)
  case 0
  then show ?case by simp
next
  case (Suc k)
  have list: "all_true c \<Longrightarrow> \<forall>x \<in> S. dict_get c x = None \<Longrightarrow>
      (set ds \<inter> S \<noteq> {} \<longrightarrow> all_active k g c ds = None) \<and>
      (\<forall>b c'. all_active k g c ds = Some (b, c') \<longrightarrow> b \<and> all_true c' \<and> (\<forall>x \<in> S. dict_get c' x = None))" for ds c
  proof (induction ds arbitrary: c)
    case Nil
    then show ?case by simp
  next
    case (Cons d ds)
    show ?case
    proof (cases "is_active k g c d")
      case None
      then show ?thesis by simp
    next
      case (Some r)
      obtain b c1 where r: "r = (b, c1)" by fastforce
      have "b \<and> all_true c1 \<and> (\<forall>x \<in> S. dict_get c1 x = None)" "d \<notin> S"
        using Suc.IH[OF Cons.prems, of d] Some r by auto
      then show ?thesis using Cons.IH[of c1] Some r by auto
    qed
  qed
  show ?case
  proof (cases "dict_get c n")
    case None
    have "is_active (Suc k) g c n = None" if "all_active k g c (predecessors g n) = None"
      using None that by simp
    moreover have "b \<and> all_true c' \<and> (\<forall>x \<in> S. dict_get c' x = None)"
      if x: "is_active (Suc k) g c n = Some (b, c')" for b c'
    proof -
      obtain c1 where c1: "all_active k g c (predecessors g n) = Some (b, c1)" "c' = dict_set n b c1"
        using None x unfolding is_active_Suc by auto
      then have "n \<notin> S" using list[OF Suc.prems, of "predecessors g n"] assms[of n] by auto
      then show ?thesis using list[OF Suc.prems, of "predecessors g n"] c1 by auto
    qed
    moreover have "n \<in> S \<Longrightarrow> all_active k g c (predecessors g n) = None"
      using list[OF Suc.prems, of "predecessors g n"] assms[of n] by blast
    ultimately show ?thesis by (auto simp del: is_active.simps)
  next
    case (Some v)
    then show ?thesis using Suc.prems all_true_get[of c n v] by auto
  qed
qed

text \<open>On a cycle it never answers: if the nodes of a set each have a predecessor in it, then for none
  of them does any recursion limit suffice, unless the memo holds an answer already.\<close>

theorem gating_diverges_on_cycles:
  assumes "\<And>x. x \<in> S \<Longrightarrow> set (predecessors g x) \<inter> S \<noteq> {}" "n \<in> S"
    and "all_true (active_cache r)" "\<forall>x \<in> S. dict_get (active_cache r) x = None"
  shows "is_node_active limit g n r = None"
  using cycle_no_answer[OF assms(1,3,4), of n limit] assms(2) by (simp add: is_node_active_def)

theorem gating_diverges_on_cycles_witness:
  "is_node_active 1000 \<lparr>gnodes = [''r'', ''a''], gedges = [(''a'', ''r''), (''r'', ''a'')]\<rparr> ''r''
     \<lparr>decisions = [], active_cache = []\<rparr> = None"
  by (rule gating_diverges_on_cycles [of "{''r'', ''a''}"]) (auto simp: predecessors_def all_true_def)

end
