(* ===== verification/Workflow.thy ===== *)
theory Workflow
  imports Engine Policy Gating
begin

text \<open>
  A run of a workflow (\<open>Workflow.execute\<close> in \<open>src/ice_orchestrator/workflow.py\<close>): level by level,
  the nodes of a level as interleaved tasks, recursive flows after each level, ceilings and guards on
  depth and tokens, branch decisions, errors, and the result of the whole.

  Arguments of the model besides those of a single node: the schedule of the tasks of each level, the
  metadata of the current session context (\<open>we_metadata\<close>), \<open>reprlib.repr\<close> of an exception
  (\<open>we_repr\<close>), and how deep the interpreter lets the gating test (\<open>we_limit\<close>) and the recursive flows
  (\<open>we_depth\<close>) recurse.

  The slots of the level's semaphore are left out here: every task of a level gets its turn
  (\<open>run_tasks\<close>). The theories on levels and runs under semaphores add them
  (\<open>gated_step\<close>, \<open>grun_step\<close>): a run that ends there is \<open>execute\<close> for some schedule, so what
  is proved here for every schedule holds of it, and a run can hang there, which it cannot here.
\<close>

section \<open>Environment and state\<close>

record 'x wf_env =
  we_engine :: "'x engine_env"
  we_name :: string
  we_levels :: "(int \<times> string list) list"
  we_policy :: failure_policy
  we_token_ceiling :: "int option"
  we_depth_ceiling :: "int option"
  we_token_guard :: "(int \<Rightarrow> int option \<Rightarrow> bool) option"
  we_depth_guard :: "(nat \<Rightarrow> int option \<Rightarrow> bool) option"
  we_metadata :: "'x \<Rightarrow> val dict option"
  we_repr :: "exn \<Rightarrow> string"
  we_schedule :: "nat \<Rightarrow> nat list"
  we_limit :: nat
  we_depth :: nat

record 'x run =
  rn_results :: "node_result dict"
  rn_errors :: "string list"
  rn_resolver :: resolver
  rn_metrics :: metrics
  rn_state :: "'x estate"

abbreviation run_nodes :: "'x estate \<Rightarrow> node dict" where
  "run_nodes s \<equiv> en_nodes (ex_world s)"

definition node_context :: "'x wf_env \<Rightarrow> node \<Rightarrow> node_result dict \<Rightarrow> 'x estate \<Rightarrow> val dict res" where
  "node_context env n acc s =
     build_node_context (ev_show (ee_exec (we_engine env))) (we_metadata env (en_outside (ex_world s))) n acc"

section \<open>The tasks of a level\<close>

text \<open>\<open>process_node\<close>: building the context and the start of the node, the node executor, the
  bookkeeping after it. Other tasks of the level may run in between.\<close>

datatype task = Todo node | Begun node "val dict" "string list"
  | Ran node "val dict" "string list" node_result | Ended "node_result res"

fun task_step :: "'x wf_env \<Rightarrow> node_result dict \<Rightarrow> task \<Rightarrow> 'x estate \<Rightarrow> task \<times> 'x estate" where
  "task_step env acc (Todo n) s = (case node_context env n acc s of
       Inl e \<Rightarrow> (Ended (Inl e), s)
     | Inr ctx \<Rightarrow> (case start_node (node_id n) s of
           (Inl e, s1) \<Rightarrow> (Ended (Inl e), s1)
         | (Inr _, s1) \<Rightarrow> (Begun n ctx (deps_of (node_id n) s1), s1)))"
| "task_step env acc (Begun n ctx deps) s = (case executor_call (we_engine env) (node_id n) ctx s of
       (Inl e, s1) \<Rightarrow> (Ended (Inl e), s1) | (Inr r, s1) \<Rightarrow> (Ran n ctx deps r, s1))"
| "task_step env acc (Ran n ctx deps r) s =
     (Ended (Inr r), finish_node (we_engine env) deps (node_id n) ctx r s)"
| "task_step env acc (Ended r) s = (Ended r, s)"

fun task_rank :: "task \<Rightarrow> nat" where
  "task_rank (Todo n) = 3"
| "task_rank (Begun n ctx deps) = 2"
| "task_rank (Ran n ctx deps r) = 1"
| "task_rank (Ended r) = 0"

interpretation tasks: finite_task "task_step env acc" task_rank for env acc
proof
  fix t :: task and s :: "'a estate"
  show "task_rank (fst (task_step env acc t s)) \<le> task_rank t - 1"
    by (cases t) (auto split: sum.splits prod.splits)
qed

text \<open>\<open>_execute_level\<close> up to \<open>gather\<close>, without the semaphore around the body of each task.\<close>

definition run_tasks ::
  "'x wf_env \<Rightarrow> nat list \<Rightarrow> node list \<Rightarrow> node_result dict \<Rightarrow> 'x estate \<Rightarrow> task list \<times> 'x estate" where
  "run_tasks env sched ns acc s = gather (task_step env acc) 3 sched (map Todo ns) s"

text \<open>What \<open>gather\<close> returns for a task: a pair of the id and the result, or the exception alone, which
  ends up under its own text as key.\<close>

definition payload_failure :: "'x wf_env \<Rightarrow> exn \<Rightarrow> node_result" where
  "payload_failure env e = failure_result (''Unexpected gather payload: '' @ we_repr env e)
     (meta (exn_msg e) ''unknown'' (Some ''GatherPayloadError'') 0)"

definition level_entry :: "'x wf_env \<Rightarrow> node \<Rightarrow> task \<Rightarrow> string \<times> node_result" where
  "level_entry env n t = (case t of
       Ended (Inr r) \<Rightarrow> (node_id n, r)
     | Ended (Inl e) \<Rightarrow> (exn_msg e, payload_failure env e)
     | _ \<Rightarrow> (node_id n, failure_result '''' (meta '''' '''' None 0)))"

definition collect :: "(string \<times> node_result) list \<Rightarrow> node_result dict" where
  "collect es = foldl (\<lambda>d (k, r). dict_set k r d) [] es"

section \<open>Recursive flows\<close>

text \<open>The sources that a recursive node has run again, with the output of the node as extra context.\<close>

definition recursion_of :: "node dict \<Rightarrow> string \<times> node_result \<Rightarrow> (string \<times> val dict) list" where
  "recursion_of nodes ir = (case (dict_get nodes (fst ir), nr_output (snd ir)) of
       (Some n, VDict d) \<Rightarrow>
         (if node_type_of n = TRecursive \<and> truth (dict_get_or d ''_can_recurse'' (VBool False))
             \<and> \<not> truth (dict_get_or d ''converged'' (VBool False))
          then map (\<lambda>j. (j, d)) (filter (\<lambda>j. dict_get nodes j \<noteq> None) (recursive_sources n)) else [])
     | _ \<Rightarrow> [])"

definition recursive_failure :: "string \<Rightarrow> exn \<Rightarrow> node_result" where
  "recursive_failure i e = failure_result (exn_msg e) (meta i ''recursive'' (Some (exn_name (exn_kind e))) 0)"

definition recursive_turn ::
  "'x wf_env \<Rightarrow> string \<Rightarrow> val dict \<Rightarrow> node_result dict \<Rightarrow> 'x estate \<Rightarrow> node_result res \<times> 'x estate" where
  "recursive_turn env i rc acc s = (case dict_get (run_nodes s) i of
       None \<Rightarrow> (Inl (Exn KeyError (sq i)), s)
     | Some n \<Rightarrow> (case node_context env n acc s of
           Inl e \<Rightarrow> (Inl e, s)
         | Inr ctx \<Rightarrow> execute_node_w (we_engine env) i (dict_union ctx rc) s))"

definition recursion_error :: exn where
  "recursion_error = Exn (OtherError ''RecursionError'') ''maximum recursion depth exceeded''"

text \<open>\<open>_execute_recursive_node\<close> for a list of scheduled sources; it calls itself through
  \<open>_handle_recursive_flows\<close>. Every exception becomes a failure result, that of a too deep recursion
  as well.\<close>

fun run_flows ::
  "'x wf_env \<Rightarrow> nat \<Rightarrow> (string \<times> val dict) list \<Rightarrow> node_result dict \<Rightarrow> 'x estate \<Rightarrow> node_result dict \<times> 'x estate" where
  "run_flows env k [] acc s = (acc, s)"
| "run_flows env 0 ((i, rc) # rest) acc s =
     run_flows env 0 rest (dict_set i (recursive_failure i recursion_error) acc) s"
| "run_flows env (Suc k) ((i, rc) # rest) acc s =
     (case recursive_turn env i rc acc s of
        (Inl e, s1) \<Rightarrow> run_flows env (Suc k) rest (dict_set i (recursive_failure i e) acc) s1
      | (Inr r, s1) \<Rightarrow>
          (case run_flows env k (recursion_of (run_nodes s1) (i, r)) (dict_set i r acc) s1 of
             (acc', s2) \<Rightarrow> run_flows env (Suc k) rest acc' s2))"

definition handle_recursive_flows ::
  "'x wf_env \<Rightarrow> node_result dict \<Rightarrow> node_result dict \<Rightarrow> 'x estate \<Rightarrow> node_result dict \<times> 'x estate" where
  "handle_recursive_flows env lr acc s =
     run_flows env (we_depth env) (concat (map (recursion_of (run_nodes s)) lr)) acc s"

definition execute_level ::
  "'x wf_env \<Rightarrow> nat list \<Rightarrow> node list \<Rightarrow> node_result dict \<Rightarrow> 'x estate
     \<Rightarrow> node_result dict \<times> node_result dict \<times> 'x estate" where
  "execute_level env sched ns acc s =
     (let (ts, s1) = run_tasks env sched ns acc s;
          lr = collect (map2 (level_entry env) ns ts)
      in (lr, handle_recursive_flows env lr acc s1))"

section \<open>The run\<close>

definition add_error :: "string \<Rightarrow> 'x run \<Rightarrow> 'x run" where
  "add_error e st = st\<lparr>rn_errors := rn_errors st @ [e]\<rparr>"

definition error_text :: "node_result \<Rightarrow> string" where
  "error_text r = (case nr_error r of None \<Rightarrow> ''None'' | Some e \<Rightarrow> e)"

definition decide :: "node \<Rightarrow> string \<Rightarrow> node_result \<Rightarrow> resolver \<Rightarrow> resolver" where
  "decide n i r rs = (case (kind n, nr_output r) of
       (KCondition _ _ _, VDict d) \<Rightarrow>
         (case dict_get d ''result'' of Some v \<Rightarrow> record_decision i (truth v) rs | None \<Rightarrow> rs)
     | _ \<Rightarrow> rs)"

definition over_tokens :: "'x wf_env \<Rightarrow> metrics \<Rightarrow> string option" where
  "over_tokens env m =
     (if (case we_token_guard env of None \<Rightarrow> False | Some g \<Rightarrow> \<not> g (mt_tokens m) (we_token_ceiling env))
      then Some ''Token guard aborted execution''
      else (case we_token_ceiling env of
              None \<Rightarrow> None
            | Some c \<Rightarrow> if c < mt_tokens m then Some ''Token ceiling exceeded'' else None))"

text \<open>The results of a level are gone through in order; a token check that fails leaves this loop.\<close>

fun record_level :: "'x wf_env \<Rightarrow> node_result dict \<Rightarrow> 'x run \<Rightarrow> unit res \<times> 'x run" where
  "record_level env [] st = (Inr (), st)"
| "record_level env ((i, r) # rest) st =
     (let st1 = st\<lparr>rn_results := dict_set i r (rn_results st)\<rparr>;
          counted = nr_success r \<and> nr_usage r \<noteq> None;
          st2 = (if counted then st1\<lparr>rn_metrics := metrics_update i r TTool (rn_metrics st1)\<rparr> else st1)
      in (case (if counted then over_tokens env (rn_metrics st2) else None) of
            Some e \<Rightarrow> (Inr (), add_error e st2)
          | None \<Rightarrow>
              (case dict_get (run_nodes (rn_state st2)) i of
                 None \<Rightarrow> (Inl (Exn KeyError (sq i)), st2)
               | Some n \<Rightarrow>
                   (let st3 = st2\<lparr>rn_resolver := decide n i r (rn_resolver st2)\<rparr>
                    in record_level env rest
                         (if nr_success r then st3 else add_error (fail_message i (error_text r)) st3)))))"

fun active_ids :: "nat \<Rightarrow> digraph \<Rightarrow> string list \<Rightarrow> resolver \<Rightarrow> (string list \<times> resolver) res" where
  "active_ids k g [] rs = Inr ([], rs)"
| "active_ids k g (i # is) rs = (case is_node_active k g i rs of
       None \<Rightarrow> Inl recursion_error
     | Some (b, rs1) \<Rightarrow> res_bind (active_ids k g is rs1) (\<lambda>(ks, rs2). Inr (if b then i # ks else ks, rs2)))"

definition lookup_node :: "node dict \<Rightarrow> string \<Rightarrow> node res" where
  "lookup_node nodes i = (case dict_get nodes i of None \<Rightarrow> Inl (Exn KeyError (sq i)) | Some n \<Rightarrow> Inr n)"

text \<open>One level: gating, execution, the results.\<close>

definition run_level :: "'x wf_env \<Rightarrow> nat \<Rightarrow> string list \<Rightarrow> 'x run \<Rightarrow> unit res \<times> 'x run" where
  "run_level env idx ids st =
     (case active_ids (we_limit env) (graph (en_graph (ex_world (rn_state st)))) ids (rn_resolver st) of
        Inl e \<Rightarrow> (Inl e, st)
      | Inr (active, rs) \<Rightarrow>
          (case res_map (lookup_node (run_nodes (rn_state st))) active of
             Inl e \<Rightarrow> (Inl e, st\<lparr>rn_resolver := rs\<rparr>)
           | Inr ns \<Rightarrow>
               (case execute_level env (we_schedule env idx) ns (rn_results st) (rn_state st) of
                  (lr, acc, s) \<Rightarrow>
                    record_level env lr (st\<lparr>rn_resolver := rs, rn_results := acc, rn_state := s\<rparr>))))"

definition depth_stop :: "'x wf_env \<Rightarrow> nat \<Rightarrow> string option" where
  "depth_stop env idx =
     (if (case we_depth_guard env of None \<Rightarrow> False | Some g \<Rightarrow> \<not> g idx (we_depth_ceiling env))
      then Some ''Depth guard aborted execution''
      else (case we_depth_ceiling env of
              None \<Rightarrow> None | Some c \<Rightarrow> if c < int idx then Some ''Depth ceiling reached'' else None))"

fun run_levels :: "'x wf_env \<Rightarrow> nat \<Rightarrow> (int \<times> string list) list \<Rightarrow> 'x run \<Rightarrow> unit res \<times> 'x run" where
  "run_levels env idx [] st = (Inr (), st)"
| "run_levels env idx ((l, ids) # rest) st =
     (case depth_stop env idx of
        Some e \<Rightarrow> (Inr (), add_error e st)
      | None \<Rightarrow>
          (case run_level env idx ids st of
             (Inl e, st1) \<Rightarrow> (Inl e, st1)
           | (Inr _, st1) \<Rightarrow>
               (case should_continue (we_policy env) (we_levels env) (run_nodes (rn_state st1)) (rn_errors st1) of
                  Inl e \<Rightarrow> (Inl e, st1)
                | Inr go \<Rightarrow> if go then run_levels env (Suc idx) rest st1 else (Inr (), st1))))"

section \<open>The result\<close>

definition serialize :: "node_result \<Rightarrow> val" where
  "serialize r =
     (if nr_success r \<and> nr_output r \<noteq> VNone then nr_output r
      else VDict (dict_set ''error'' (VStr (case nr_error r of Some (c # cs) \<Rightarrow> c # cs | _ \<Rightarrow> ''Unknown error''))
                    (dict_set ''success'' (VBool False) (case nr_output r of VDict d \<Rightarrow> d | _ \<Rightarrow> []))))"

definition chain_result :: "'x run \<Rightarrow> string \<Rightarrow> node_result" where
  "chain_result st leaf = \<lparr>nr_success = rn_errors st = [],
     nr_error = (if rn_errors st = [] then None else Some (str_join [CHR 0x0A] (rn_errors st))),
     nr_output = VDict (map (\<lambda>(i, r). (i, serialize r)) (rn_results st)),
     nr_meta = meta leaf ''workflow'' None 0, nr_usage = None, nr_budget = None, nr_roots = None\<rparr>"

definition execute :: "'x wf_env \<Rightarrow> 'x run \<Rightarrow> node_result res \<times> 'x run" where
  "execute env st =
     (case run_levels env 1 (sort_key fst (we_levels env)) (st\<lparr>rn_results := [], rn_errors := []\<rparr>) of
        (Inl e, st1) \<Rightarrow> (Inl e, st1)
      | (Inr _, st1) \<Rightarrow>
          (case get_leaf_nodes (en_graph (ex_world (rn_state st1))) of
             [] \<Rightarrow> (Inl (Exn IndexError ''list index out of range''), st1)
           | leaf # _ \<Rightarrow> (Inr (chain_result st1 leaf), st1)))"

section \<open>What the executors leave alone\<close>

text \<open>The node table, the graph and the levels: nothing in a run changes them, unless an executor or
  the context store does.\<close>

definition skeleton :: "'x engine \<Rightarrow> node dict \<times> digraph \<times> int dict" where
  "skeleton w = (en_nodes w, graph (en_graph w), node_levels (en_graph w))"

abbreviation skel :: "'x estate \<Rightarrow> node dict \<times> digraph \<times> int dict" where
  "skel s \<equiv> skeleton (ex_world s)"

definition stable :: "'x wf_env \<Rightarrow> bool" where
  "stable env \<longleftrightarrow> (\<forall>k. keeps_world (ee_exec (we_engine env)) (\<lambda>w. skeleton w = k))"

lemma update_eattr_skel [simp]:
  "graph (update_eattr f e g) = graph g" "node_levels (update_eattr f e g) = node_levels g"
  "graph (update_attr h n g) = graph g" "node_levels (update_attr h n g) = node_levels g"
  by (auto simp: update_eattr_def update_attr_def split: option.splits)

lemma record_transfers_skel [simp]:
  "graph (record_transfers ds i b g) = graph g" "node_levels (record_transfers ds i b g) = node_levels g"
  by (induction ds arbitrary: g) (auto simp: record_transfers_def update_data_transfer_stats_def)

lemma start_node_skel: "start_node i s = (r, s') \<Longrightarrow> skel s' = skel s"
  by (auto simp: start_node_def update_run_def update_world_def skeleton_def Let_def split: option.splits)

lemma finish_node_skel [simp]: "skel (finish_node env ds i inp r s) = skel s"
  by (simp add: finish_node_def update_run_def update_world_def skeleton_def Let_def update_execution_stats_def)

lemma executor_call_skel: "stable env \<Longrightarrow> executor_call (we_engine env) i inp s = (r, s') \<Longrightarrow> skel s' = skel s"
  using execute_node_world[of "ee_exec (we_engine env)" "\<lambda>w. skeleton w = skel s" s "run_nodes s" i inp]
  unfolding stable_def executor_call_def by (metis snd_conv)

lemma execute_node_w_skel: "stable env \<Longrightarrow> execute_node_w (we_engine env) i inp s = (r, s') \<Longrightarrow> skel s' = skel s"
  by (auto simp: execute_node_w_def split: prod.splits sum.splits dest: start_node_skel dest!: executor_call_skel[rotated])

lemma task_step_skel: "stable env \<Longrightarrow> skel (snd (task_step env acc t s)) = skel s"
  by (cases t) (auto split: sum.splits prod.splits dest: start_node_skel dest!: executor_call_skel[rotated])

lemma recursive_turn_skel: "stable env \<Longrightarrow> recursive_turn env i rc acc s = (r, s') \<Longrightarrow> skel s' = skel s"
  by (auto simp: recursive_turn_def split: option.splits sum.splits dest: execute_node_w_skel)

lemma run_flows_skel: "stable env \<Longrightarrow> skel (snd (run_flows env k fs acc s)) = skel s"
proof (induction env k fs acc s rule: run_flows.induct)
  case (3 env k i rc rest acc s)
  obtain r s1 where t: "recursive_turn env i rc acc s = (r, s1)" by fastforce
  note s1 = recursive_turn_skel[OF \<open>stable env\<close> t]
  show ?case
  proof (cases r)
    case (Inl e)
    then show ?thesis using "3.IH"(1)[of r s1 e] t s1 \<open>stable env\<close> by simp
  next
    case (Inr x)
    obtain acc' s2 where f: "run_flows env k (recursion_of (run_nodes s1) (i, x)) (dict_set i x acc) s1 = (acc', s2)"
      by fastforce
    then have "skel s2 = skel s1" using "3.IH"(2)[of r s1 x] t Inr \<open>stable env\<close> by simp
    then show ?thesis using "3.IH"(3)[of r s1 x acc' s2] t s1 Inr f \<open>stable env\<close> by simp
  qed
qed simp_all

section \<open>The tasks of a level\<close>

text \<open>A known node: it is in the table under its id, with a level.\<close>

definition known :: "'x estate \<Rightarrow> node \<Rightarrow> bool" where
  "known s n \<longleftrightarrow> dict_get (run_nodes s) (node_id n) = Some n \<and>
     dict_get (node_levels (en_graph (ex_world s))) (node_id n) \<noteq> None"

lemma known_cong: "skel s = skel t \<Longrightarrow> known s n = known t n"
  by (simp add: skeleton_def known_def)

lemma start_known: "known s n \<Longrightarrow> \<exists>s'. start_node (node_id n) s = (Inr (), s') \<and> skel s' = skel s"
  by (auto simp: known_def start_node_def update_run_def update_world_def skeleton_def Let_def get_node_level_def)

lemma call_known:
  assumes "stable env" "\<not> ev_halt (ee_exec (we_engine env))" "known s n"
  shows "\<exists>r s'. executor_call (we_engine env) (node_id n) inp s = (Inr r, s') \<and> skel s' = skel s"
proof -
  obtain r s' where "executor_call (we_engine env) (node_id n) inp s = (Inr r, s')"
    using execute_node_total[of "run_nodes s" "node_id n" n "ee_exec (we_engine env)" inp s] assms(2,3)
    by (auto simp: executor_call_def known_def)
  then show ?thesis using executor_call_skel[OF assms(1)] by blast
qed

text \<open>How a task ends: an exception was raised by building the context of the node, a result comes with a
  context that could be built.\<close>

definition task_end :: "'x wf_env \<Rightarrow> node_result dict \<Rightarrow> node \<Rightarrow> node_result res \<Rightarrow> bool" where
  "task_end env acc n x \<longleftrightarrow> (\<exists>s. case x of
       Inl e \<Rightarrow> node_context env n acc s = Inl e | Inr r \<Rightarrow> \<exists>ctx. node_context env n acc s = Inr ctx)"

lemma task_end_simps [simp]:
  "task_end env acc n (Inl e) \<longleftrightarrow> (\<exists>s. node_context env n acc s = Inl e)"
  "task_end env acc n (Inr r) \<longleftrightarrow> (\<exists>s ctx. node_context env n acc s = Inr ctx)"
  by (simp_all add: task_end_def)

definition task_ok :: "'x wf_env \<Rightarrow> node_result dict \<Rightarrow> node \<Rightarrow> task \<Rightarrow> bool" where
  "task_ok env acc n t \<longleftrightarrow> (case t of
       Todo m \<Rightarrow> m = n
     | Begun m ctx ds \<Rightarrow> m = n \<and> (\<exists>s. node_context env n acc s = Inr ctx)
     | Ran m ctx ds r \<Rightarrow> m = n \<and> (\<exists>s. node_context env n acc s = Inr ctx)
     | Ended x \<Rightarrow> task_end env acc n x)"

lemma task_step_ok:
  assumes "stable env" "\<not> ev_halt (ee_exec (we_engine env))" "known s n" "task_ok env acc n t"
  shows "task_ok env acc n (fst (task_step env acc t s))"
proof (cases t)
  case (Todo m)
  then show ?thesis using start_known[OF assms(3)] assms(4)
    by (auto simp: task_ok_def task_end_def split: sum.splits)
next
  case (Begun m ctx ds)
  then show ?thesis using call_known[OF assms(1-3), of ctx] assms(4) by (auto simp: task_ok_def)
qed (use assms(4) in \<open>auto simp: task_ok_def task_end_def split: sum.splits\<close>)

text \<open>Every task of a level with known nodes ends with a result, unless its context cannot be built.\<close>

lemma run_tasks_end:
  assumes "stable env" "\<not> ev_halt (ee_exec (we_engine env))" "\<forall>n \<in> set ns. known s n"
    and "run_tasks env sched ns acc s = (ts, s')"
  shows "skel s' = skel s"
    and "list_all2 (\<lambda>n t. \<exists>x. t = Ended x \<and> task_end env acc n x) ns ts"
proof -
  let ?R = "\<lambda>t0 t. \<exists>n. t0 = Todo n \<and> known s n \<and> task_ok env acc n t"
  have step: "?R t0 (fst (task_step env acc t v)) \<and> skel (snd (task_step env acc t v)) = skel s"
    if R: "?R t0 t" and v: "skel v = skel s" for t0 t v
    using task_step_ok[OF assms(1,2)] task_step_skel[OF assms(1)] R v known_cong[OF v] by fastforce
  have start: "list_all2 ?R (map Todo ns) (map Todo ns)"
    using assms(3) by (auto simp: list_all2_conv_all_nth task_ok_def)
  have kept: "list_all2 ?R (map Todo ns) ts \<and> skel s' = skel s"
    using gather_keeps[of ?R "\<lambda>v. skel v = skel s" "task_step env acc", OF step start, of s 3 sched] assms(4)
    by (simp add: run_tasks_def)
  then show "skel s' = skel s" by simp
  have ended: "t \<in> set ts \<Longrightarrow> \<exists>x. t = Ended x" for t
    using tasks.gather_done[of "map Todo ns" 3 t env acc sched s] assms(4)
    by (cases t) (auto simp: run_tasks_def)
  show "list_all2 (\<lambda>n t. \<exists>x. t = Ended x \<and> task_end env acc n x) ns ts"
  proof (rule list_all2_all_nthI)
    show "length ns = length ts" using kept by (auto dest: list_all2_lengthD)
    fix j assume j: "j < length ns"
    then have "?R (Todo (ns ! j)) (ts ! j)" using kept by (auto simp: list_all2_conv_all_nth)
    moreover obtain x where "ts ! j = Ended x" using ended[of "ts ! j"] j \<open>length ns = length ts\<close> by auto
    ultimately show "\<exists>x. ts ! j = Ended x \<and> task_end env acc (ns ! j) x"
      by (auto simp: task_ok_def)
  qed
qed

section \<open>Recording a level\<close>

text \<open>No check on tokens is configured.\<close>

definition unmetered :: "'x wf_env \<Rightarrow> bool" where
  "unmetered env \<longleftrightarrow> we_token_ceiling env = None \<and> we_token_guard env = None"

definition failures :: "(string \<times> node_result) list \<Rightarrow> string list" where
  "failures es = map (\<lambda>(i, r). fail_message i (error_text r)) (filter (\<lambda>(i, r). \<not> nr_success r) es)"

lemma failures_simps [simp]:
  "failures [] = []"
  "failures ((i, r) # es) = (if nr_success r then failures es else fail_message i (error_text r) # failures es)"
  by (simp_all add: failures_def)

lemma decide_all_true: "all_true (active_cache rs) \<Longrightarrow> all_true (active_cache (decide n i r rs))"
  by (auto simp: decide_def record_decision_def all_true_def split: kind.splits val.splits option.splits)

lemma record_level_exact:
  assumes "unmetered env" "\<forall>e \<in> set es. dict_get (run_nodes (rn_state st)) (fst e) \<noteq> None"
  shows "\<exists>st'. record_level env es st = (Inr (), st') \<and>
    rn_results st' = foldl (\<lambda>d (k, r). dict_set k r d) (rn_results st) es \<and>
    rn_errors st' = rn_errors st @ failures es \<and> rn_state st' = rn_state st \<and>
    (all_true (active_cache (rn_resolver st)) \<longrightarrow> all_true (active_cache (rn_resolver st')))"
  using assms(2)
proof (induction es arbitrary: st)
  case Nil
  then show ?case by simp
next
  case (Cons e es)
  obtain i r where e: "e = (i, r)" by fastforce
  obtain n where n: "dict_get (run_nodes (rn_state st)) i = Some n" using Cons.prems e by auto
  have ot: "over_tokens env m = None" for m using assms(1) by (simp add: over_tokens_def unmetered_def)
  let ?m = "if nr_success r \<and> nr_usage r \<noteq> None then metrics_update i r TTool (rn_metrics st) else rn_metrics st"
  let ?st = "st\<lparr>rn_results := dict_set i r (rn_results st), rn_metrics := ?m,
      rn_resolver := decide n i r (rn_resolver st),
      rn_errors := rn_errors st @ (if nr_success r then [] else [fail_message i (error_text r)])\<rparr>"
  have "record_level env (e # es) st = record_level env es ?st"
    using n by (auto simp: e ot add_error_def Let_def)
  moreover have "\<forall>e \<in> set es. dict_get (run_nodes (rn_state ?st)) (fst e) \<noteq> None" using Cons.prems by simp
  ultimately show ?case using Cons.IH[of ?st] e decide_all_true[of "rn_resolver st" n i r]
    by (cases "nr_success r") auto
qed

lemma record_level_unknown:
  assumes "unmetered env" "\<exists>e \<in> set es. dict_get (run_nodes (rn_state st)) (fst e) = None"
  shows "\<exists>k st'. record_level env es st = (Inl (Exn KeyError k), st')"
  using assms(2)
proof (induction es arbitrary: st)
  case Nil
  then show ?case by simp
next
  case (Cons e es)
  obtain i r where e: "e = (i, r)" by fastforce
  have ot: "over_tokens env m = None" for m using assms(1) by (simp add: over_tokens_def unmetered_def)
  show ?case
  proof (cases "dict_get (run_nodes (rn_state st)) i")
    case None
    then show ?thesis by (simp add: e ot Let_def)
  next
    case (Some n)
    then have "\<exists>e \<in> set es. dict_get (run_nodes (rn_state st)) (fst e) = None" using Cons.prems e by auto
    then have "\<exists>k st'. record_level env es st1 = (Inl (Exn KeyError k), st')"
      if "rn_state st1 = rn_state st" for st1 using Cons.IH[of st1] that by simp
    then show ?thesis using Some by (simp add: e ot Let_def add_error_def)
  qed
qed

lemma active_ids_all:
  "active_ids k g is rs = Inr (ks, rs') \<Longrightarrow> all_true (active_cache rs) \<Longrightarrow> ks = is \<and> all_true (active_cache rs')"
proof (induction "is" arbitrary: rs ks)
  case Nil
  then show ?case by simp
next
  case (Cons i "is")
  obtain b rs1 where b: "is_node_active k g i rs = Some (b, rs1)"
    using Cons.prems(1) by (cases "is_node_active k g i rs") auto
  then obtain c where c: "is_active k g (active_cache rs) i = Some (b, c)" "rs1 = rs\<lparr>active_cache := c\<rparr>"
    by (auto simp: is_node_active_def)
  then have t: "b" "all_true (active_cache rs1)" using active_true(1)[OF c(1) Cons.prems(2)] by auto
  obtain js where js: "active_ids k g is rs1 = Inr (js, rs')" "ks = i # js"
    using Cons.prems(1) b t(1) by (auto simp: res_bind_Inr_iff)
  then show ?case using Cons.IH[OF js(1) t(2)] by simp
qed

lemma lookup_all:
  "\<forall>i \<in> set is. \<exists>n. dict_get nodes i = Some n \<and> P i n \<Longrightarrow>
     \<exists>ns. res_map (lookup_node nodes) is = Inr ns \<and> list_all2 (\<lambda>i n. dict_get nodes i = Some n \<and> P i n) is ns"
  by (induction "is") (auto simp: lookup_node_def)

lemma foldl_dict_new:
  "distinct (map fst es) \<Longrightarrow> set (map fst es) \<inter> set (dict_keys d) = {} \<Longrightarrow>
    foldl (\<lambda>d (k, r). dict_set k r d) d es = d @ es"
proof (induction es arbitrary: d)
  case Nil
  then show ?case by simp
next
  case (Cons e es)
  obtain k r where e: "e = (k, r)" by fastforce
  have "dict_set k r d = d @ [(k, r)]" using Cons.prems e by (intro dict_set_new) auto
  then show ?case using Cons.IH[of "d @ [(k, r)]"] Cons.prems e by auto
qed

lemma collect_keys: "fst ` set (collect es) = fst ` set es"
  using dict_keys_union[of "[]" es] by (simp add: collect_def dict_union_def foldl_conv_fold case_prod_beta')

lemma collect_distinct: "distinct (map fst es) \<Longrightarrow> collect es = es"
  using foldl_dict_new[of es "[]"] by (simp add: collect_def)

section \<open>One level\<close>

text \<open>A workflow whose executors leave it alone, without HALT, recursive nodes and token checks.\<close>

definition plain_run :: "'x wf_env \<Rightarrow> 'x estate \<Rightarrow> bool" where
  "plain_run env s \<longleftrightarrow> stable env \<and> \<not> ev_halt (ee_exec (we_engine env)) \<and> unmetered env \<and>
     (\<forall>i n. dict_get (run_nodes s) i = Some n \<longrightarrow> node_type_of n \<noteq> TRecursive)"

text \<open>The ids of a level: each names a node of the table that has a level, and the text of no exception
  that building the context of such a node can raise is itself the id of a node.\<close>

definition level_ids :: "'x wf_env \<Rightarrow> 'x estate \<Rightarrow> string list \<Rightarrow> bool" where
  "level_ids env s is \<longleftrightarrow> (\<forall>i \<in> set is. \<exists>n. dict_get (run_nodes s) i = Some n \<and> node_id n = i \<and> known s n \<and>
     (\<forall>acc t e. node_context env n acc t = Inl e \<longrightarrow> dict_get (run_nodes s) (exn_msg e) = None))"

lemma plain_run_cong: "skel s = skel t \<Longrightarrow> plain_run env s = plain_run env t"
  by (simp add: plain_run_def skeleton_def)

lemma level_ids_cong: "skel s = skel t \<Longrightarrow> level_ids env s is = level_ids env t is"
  by (simp add: level_ids_def skeleton_def known_def)

lemma no_recursion:
  assumes "plain_run env s"
  shows "handle_recursive_flows env lr acc s = (acc, s)"
proof -
  have "recursion_of (run_nodes s) ir = []" for ir
    using assms by (auto simp: recursion_of_def plain_run_def split: option.splits val.splits)
  then have "concat (map (recursion_of (run_nodes s)) lr) = []" by (induction lr) simp_all
  then show ?thesis by (simp only: handle_recursive_flows_def run_flows.simps)
qed

lemma entries_keys:
  assumes "list_all2 (\<lambda>i n. node_id n = i) is ns" "length ts = length ns"
    and "\<And>j. j < length is \<Longrightarrow> \<exists>r. ts ! j = Ended (Inr r)"
  shows "map fst (map2 (level_entry env) ns ts) = is"
proof (rule nth_equalityI)
  show "length (map fst (map2 (level_entry env) ns ts)) = length is"
    using assms(1,2) by (auto dest: list_all2_lengthD)
  fix j assume "j < length (map fst (map2 (level_entry env) ns ts))"
  then show "map fst (map2 (level_entry env) ns ts) ! j = is ! j"
    using assms(3)[of j] assms(1,2) by (auto simp: level_entry_def list_all2_conv_all_nth)
qed

text \<open>A level whose gating returns: every node is active, its tasks end, and their results are recorded.\<close>

lemma level_run:
  assumes "plain_run env (rn_state st)" "level_ids env (rn_state st) is"
    and "all_true (active_cache (rn_resolver st))"
    and "active_ids (we_limit env) (graph (en_graph (ex_world (rn_state st)))) is (rn_resolver st) = Inr a"
  obtains ns ts rs s where
    "run_level env idx is st = record_level env (collect (map2 (level_entry env) ns ts)) (st\<lparr>rn_resolver := rs, rn_state := s\<rparr>)"
    and "skel s = skel (rn_state st)" "all_true (active_cache rs)"
    and "list_all2 (\<lambda>i n. node_id n = i \<and> dict_get (run_nodes (rn_state st)) i = Some n) is ns"
    and "list_all2 (\<lambda>n t. \<exists>x. t = Ended x \<and> task_end env (rn_results st) n x) ns ts"
proof -
  let ?s = "rn_state st"
  obtain rs where a: "active_ids (we_limit env) (graph (en_graph (ex_world ?s))) is (rn_resolver st) = Inr (is, rs)"
    "all_true (active_cache rs)"
    using active_ids_all[OF _ assms(3)] assms(4) by (metis prod.collapse)
  let ?ok = "\<lambda>i n. node_id n = i \<and> known ?s n"
  obtain ns where ns: "res_map (lookup_node (run_nodes ?s)) is = Inr ns"
    "list_all2 (\<lambda>i n. dict_get (run_nodes ?s) i = Some n \<and> ?ok i n) is ns"
    using lookup_all[of "is" "run_nodes ?s" ?ok] assms(2) unfolding level_ids_def by blast
  obtain ts s where t: "run_tasks env (we_schedule env idx) ns (rn_results st) ?s = (ts, s)" by fastforce
  have kn: "\<forall>n \<in> set ns. known ?s n" using ns(2) by (auto simp: list_all2_conv_all_nth in_set_conv_nth)
  have plain: "stable env" "\<not> ev_halt (ee_exec (we_engine env))" using assms(1) by (auto simp: plain_run_def)
  note te = run_tasks_end[OF plain kn t]
  have "run_level env idx is st = record_level env (collect (map2 (level_entry env) ns ts)) (st\<lparr>rn_resolver := rs, rn_state := s\<rparr>)"
    using a ns(1) t no_recursion[of env s] plain_run_cong[OF te(1)] assms(1)
    by (simp add: run_level_def execute_level_def)
  moreover have "list_all2 (\<lambda>i n. node_id n = i \<and> dict_get (run_nodes ?s) i = Some n) is ns"
    using ns(2) by (rule list_all2_mono) simp
  ultimately show ?thesis using that te a(2) by blast
qed

text \<open>A task that raised leaves a key that is no node, which the level does not survive.\<close>

lemma failed_task_key:
  assumes "list_all2 (\<lambda>n t. \<exists>x. t = Ended x \<and> task_end env acc n x) ns ts"
    and "\<And>n v e. n \<in> set ns \<Longrightarrow> node_context env n acc v = Inl e \<Longrightarrow> dict_get N (exn_msg e) = None"
    and "j < length ns" "\<nexists>r. ts ! j = Ended (Inr r)"
  shows "\<exists>x \<in> set (collect (map2 (level_entry env) ns ts)). dict_get N (fst x) = None"
proof -
  obtain y where "ts ! j = Ended y" "task_end env acc (ns ! j) y"
    using list_all2_nthD[OF assms(1,3)] by blast
  then have y: "ts ! j = Ended y" "\<forall>e. y = Inl e \<longrightarrow> (\<exists>v. node_context env (ns ! j) acc v = Inl e)"
    "length ts = length ns"
    using list_all2_lengthD[OF assms(1)] by auto
  obtain e where e: "y = Inl e" using assms(4) y(1) by (cases y) auto
  have "level_entry env (ns ! j) (ts ! j) \<in> set (map2 (level_entry env) ns ts)"
    using assms(3) y(3) by (force simp: set_zip)
  then have "exn_msg e \<in> fst ` set (map2 (level_entry env) ns ts)"
    using y(1) e by (intro image_eqI[of _ _ "level_entry env (ns ! j) (ts ! j)"]) (simp_all add: level_entry_def)
  then have "exn_msg e \<in> fst ` set (collect (map2 (level_entry env) ns ts))" unfolding collect_keys .
  then obtain x where "x \<in> set (collect (map2 (level_entry env) ns ts))" "fst x = exn_msg e" by (metis imageE)
  then show ?thesis using assms(2,3) y(2) e by (metis nth_mem)
qed

lemma run_level_exact:
  fixes st :: "'x run"
  assumes "plain_run env (rn_state st)" "level_ids env (rn_state st) is" "distinct is"
    and "all_true (active_cache (rn_resolver st))" "set is \<inter> set (dict_keys (rn_results st)) = {}"
    and "active_ids (we_limit env) (graph (en_graph (ex_world (rn_state st)))) is (rn_resolver st) = Inr a"
  shows "(\<exists>n acc v e. n \<in> set (map snd (run_nodes (rn_state st))) \<and> node_context env n acc v = Inl e) \<and>
      (\<exists>k st'. run_level env idx is st = (Inl (Exn KeyError k), st')) \<or>
    (\<exists>st' es. run_level env idx is st = (Inr (), st') \<and> skel (rn_state st') = skel (rn_state st) \<and>
      all_true (active_cache (rn_resolver st')) \<and> map fst es = is \<and> rn_results st' = rn_results st @ es \<and>
      rn_errors st' = rn_errors st @ failures es)"
proof -
  let ?N = "run_nodes (rn_state st)"
  obtain ns ts rs s where run:
    "run_level env idx is st = record_level env (collect (map2 (level_entry env) ns ts)) (st\<lparr>rn_resolver := rs, rn_state := s\<rparr>)"
    and s: "skel s = skel (rn_state st)" "all_true (active_cache rs)"
    and ns: "list_all2 (\<lambda>i n. node_id n = i \<and> dict_get ?N i = Some n) is ns"
    and ts: "list_all2 (\<lambda>n t. \<exists>x. t = Ended x \<and> task_end env (rn_results st) n x) ns ts"
    by (rule level_run[OF assms(1,2,4,6), of idx])
  let ?lr = "collect (map2 (level_entry env) ns ts)" and ?st = "st\<lparr>rn_resolver := rs, rn_state := s\<rparr>"
  have um: "unmetered env" using assms(1) by (simp add: plain_run_def)
  have N: "run_nodes s = ?N" using s(1) by (simp add: skeleton_def)
  have ids: "node_id n \<in> set is \<and> dict_get ?N (node_id n) = Some n" if n: "n \<in> set ns" for n
  proof -
    obtain j where "j < length is" "ns ! j = n"
      using n ns by (auto simp: in_set_conv_nth dest: list_all2_lengthD)
    then show ?thesis using list_all2_nthD[OF ns, of j] nth_mem by metis
  qed
  have lens: "length ns = length is" "length ts = length ns" using ns ts by (auto dest: list_all2_lengthD)
  show ?thesis
  proof (cases "\<forall>j < length ns. \<exists>r. ts ! j = Ended (Inr r)")
    case True
    have "list_all2 (\<lambda>i n. node_id n = i) is ns" using ns by (rule list_all2_mono) simp
    then have keys: "map fst (map2 (level_entry env) ns ts) = is"
      by (rule entries_keys) (use True lens in auto)
    then have lr: "?lr = map2 (level_entry env) ns ts"
      using collect_distinct[of "map2 (level_entry env) ns ts"] assms(3) by simp
    have "\<forall>x \<in> set ?lr. dict_get (run_nodes (rn_state ?st)) (fst x) \<noteq> None"
    proof
      fix x assume "x \<in> set ?lr"
      then have "fst x \<in> set is" using keys lr by (metis image_eqI list.set_map)
      then show "dict_get (run_nodes (rn_state ?st)) (fst x) \<noteq> None"
        using assms(2) N by (auto simp: level_ids_def)
    qed
    from record_level_exact[OF um this]
    obtain st' where st': "record_level env ?lr ?st = (Inr (), st')" "rn_state st' = s"
      "rn_results st' = foldl (\<lambda>d (k, r). dict_set k r d) (rn_results st) ?lr"
      "rn_errors st' = rn_errors st @ failures ?lr" "all_true (active_cache (rn_resolver st'))"
      using s(2) by auto
    have "foldl (\<lambda>d (k, r). dict_set k r d) (rn_results st) ?lr = rn_results st @ ?lr"
      by (rule foldl_dict_new) (use keys lr assms(3,5) in \<open>simp_all only:\<close>)
    then have "\<exists>st' es. run_level env idx is st = (Inr (), st') \<and> skel (rn_state st') = skel (rn_state st) \<and>
      all_true (active_cache (rn_resolver st')) \<and> map fst es = is \<and> rn_results st' = rn_results st @ es \<and>
      rn_errors st' = rn_errors st @ failures es"
      using st' run s(1) keys lr by (intro exI[of _ st'] exI[of _ ?lr]) simp
    then show ?thesis by (rule disjI2)
  next
    case False
    then obtain j where j: "j < length ns" "\<nexists>r. ts ! j = Ended (Inr r)" by blast
    then obtain x where x: "ts ! j = Ended x" "task_end env (rn_results st) (ns ! j) x"
      using list_all2_nthD[OF ts j(1)] by blast
    then obtain v e where e: "node_context env (ns ! j) (rn_results st) v = Inl e" using j(2) by (cases x) auto
    have msgs: "dict_get ?N (exn_msg e) = None" if "n \<in> set ns" "node_context env n (rn_results st) v = Inl e" for n v e
      using assms(2) ids[OF that(1)] that(2) by (fastforce simp: level_ids_def)
    have "\<exists>x \<in> set ?lr. dict_get (run_nodes (rn_state ?st)) (fst x) = None"
      using failed_task_key[OF ts msgs j] N by simp
    then have "\<exists>k st'. run_level env idx is st = (Inl (Exn KeyError k), st')"
      using record_level_unknown[OF um, of ?lr ?st] run by simp
    moreover have "ns ! j \<in> set (map snd ?N)" using ids[of "ns ! j"] j(1) by (force dest: map_of_SomeD)
    ultimately show ?thesis using e by blast
  qed
qed

lemma run_level_returned:
  fixes st :: "'x run"
  assumes "plain_run env (rn_state st)" "level_ids env (rn_state st) is" "distinct is"
    and "all_true (active_cache (rn_resolver st))" "set is \<inter> set (dict_keys (rn_results st)) = {}"
    and "run_level env idx is st = (Inr (), st')"
  shows "\<exists>es. skel (rn_state st') = skel (rn_state st) \<and> all_true (active_cache (rn_resolver st')) \<and>
    map fst es = is \<and> rn_results st' = rn_results st @ es \<and> rn_errors st' = rn_errors st @ failures es"
proof -
  obtain a where "active_ids (we_limit env) (graph (en_graph (ex_world (rn_state st)))) is (rn_resolver st) = Inr a"
    using assms(6) by (auto simp: run_level_def split: sum.splits)
  from run_level_exact[OF assms(1-5) this, of idx] assms(6) show ?thesis by auto
qed

text \<open>A level with a node whose context can never be built is lost.\<close>

lemma run_level_lost:
  fixes st :: "'x run"
  assumes "plain_run env (rn_state st)" "level_ids env (rn_state st) is"
    and "all_true (active_cache (rn_resolver st))"
    and "active_ids (we_limit env) (graph (en_graph (ex_world (rn_state st)))) is (rn_resolver st) = Inr a"
    and "i \<in> set is" "dict_get (run_nodes (rn_state st)) i = Some n"
    and "\<And>v. \<exists>e. node_context env n (rn_results st) v = Inl e"
  shows "\<exists>k st'. run_level env idx is st = (Inl (Exn KeyError k), st')"
proof -
  let ?N = "run_nodes (rn_state st)"
  obtain ns ts rs s where run:
    "run_level env idx is st = record_level env (collect (map2 (level_entry env) ns ts)) (st\<lparr>rn_resolver := rs, rn_state := s\<rparr>)"
    and s: "skel s = skel (rn_state st)" "all_true (active_cache rs)"
    and ns: "list_all2 (\<lambda>i n. node_id n = i \<and> dict_get ?N i = Some n) is ns"
    and ts: "list_all2 (\<lambda>n t. \<exists>x. t = Ended x \<and> task_end env (rn_results st) n x) ns ts"
    by (rule level_run[OF assms(1-4), of idx])
  obtain j where j: "j < length ns" "ns ! j = n"
    using assms(5,6) ns by (fastforce simp: in_set_conv_nth list_all2_conv_all_nth)
  have "\<nexists>r. ts ! j = Ended (Inr r)"
  proof
    assume "\<exists>r. ts ! j = Ended (Inr r)"
    then obtain v ctx where "node_context env n (rn_results st) v = Inr ctx"
      using list_all2_nthD[OF ts j(1)] j(2) by auto
    then show False using assms(7)[of v] by auto
  qed
  moreover have "dict_get ?N (exn_msg e) = None" if M: "m \<in> set ns" "node_context env m (rn_results st) v = Inl e" for m v e
  proof -
    obtain h where h: "h < length ns" "ns ! h = m" using M(1) by (auto simp: in_set_conv_nth)
    then have "is ! h \<in> set is" "dict_get ?N (is ! h) = Some m" using ns by (auto simp: list_all2_conv_all_nth)
    then show ?thesis using assms(2) M(2) unfolding level_ids_def by (metis option.inject)
  qed
  ultimately have "\<exists>x \<in> set (collect (map2 (level_entry env) ns ts)). dict_get ?N (fst x) = None"
    using failed_task_key[OF ts _ j(1), of ?N] by blast
  then show ?thesis
    using record_level_unknown[of env "collect (map2 (level_entry env) ns ts)" "st\<lparr>rn_resolver := rs, rn_state := s\<rparr>"]
      run s(1) assms(1) by (simp add: plain_run_def skeleton_def)
qed

section \<open>All levels\<close>

lemma failures_plain: "failures es = [] \<longleftrightarrow> (\<forall>e \<in> set es. nr_success (snd e))"
  by (induction es) (auto split: if_splits)

text \<open>The levels that ran form a prefix of the levels; their results stand in that order, each id once.
  Without errors all levels ran.\<close>

definition unbounded_depth :: "'x wf_env \<Rightarrow> bool" where
  "unbounded_depth env \<longleftrightarrow> we_depth_ceiling env = None \<and> we_depth_guard env = None"

lemma run_levels_prefix:
  fixes st :: "'x run"
  assumes "plain_run env (rn_state st)" "level_ids env (rn_state st) (concat (map snd ls))"
    and "distinct (concat (map snd ls))" "all_true (active_cache (rn_resolver st))"
    and "set (concat (map snd ls)) \<inter> set (dict_keys (rn_results st)) = {}"
    and "run_levels env idx ls st = (Inr (), st')"
  shows "\<exists>k es. map fst es = concat (map snd (take k ls)) \<and> rn_results st' = rn_results st @ es \<and>
    set (failures es) \<subseteq> set (rn_errors st') \<and> set (rn_errors st) \<subseteq> set (rn_errors st') \<and>
    skel (rn_state st') = skel (rn_state st) \<and>
    (unbounded_depth env \<longrightarrow> rn_errors st' = rn_errors st @ failures es) \<and>
    (rn_errors st' = [] \<longrightarrow> take k ls = ls)"
  using assms
proof (induction ls arbitrary: idx st)
  case Nil
  then show ?case by (intro exI[of _ 0] exI[of _ "[]"]) simp
next
  case (Cons p ls)
  obtain l ids where p: "p = (l, ids)" by fastforce
  show ?case
  proof (cases "depth_stop env idx")
    case (Some e)
    then have "st' = add_error e st" "\<not> unbounded_depth env"
      using Cons.prems(6) p by (auto simp: depth_stop_def unbounded_depth_def split: if_splits option.splits)
    then show ?thesis by (intro exI[of _ 0] exI[of _ "[]"]) (auto simp: add_error_def)
  next
    case None
    obtain st1 where one: "run_level env idx ids st = (Inr (), st1)"
      using Cons.prems(6) p None by (auto split: prod.splits sum.splits)
    have ids: "level_ids env (rn_state st) ids" "distinct ids" "set ids \<inter> set (dict_keys (rn_results st)) = {}"
      "level_ids env (rn_state st) (concat (map snd ls))"
      using Cons.prems(2,3,5) p by (auto simp: level_ids_def)
    obtain es where es: "map fst es = ids" "rn_results st1 = rn_results st @ es"
      "rn_errors st1 = rn_errors st @ failures es"
      and inv: "skel (rn_state st1) = skel (rn_state st)" "all_true (active_cache (rn_resolver st1))"
      using run_level_returned[OF Cons.prems(1) ids(1,2) Cons.prems(4) ids(3) one] by blast
    obtain go where go: "should_continue (we_policy env) (we_levels env) (run_nodes (rn_state st1)) (rn_errors st1) = Inr go"
      using Cons.prems(6) p None one by (auto split: sum.splits)
    show ?thesis
    proof (cases go)
      case True
      have rest: "run_levels env (Suc idx) ls st1 = (Inr (), st')" using Cons.prems(6) p None one go True by simp
      have dj: "set (concat (map snd ls)) \<inter> set (dict_keys (rn_results st1)) = {}"
        using Cons.prems(3,5) p es(1,2) by auto
      have pre: "plain_run env (rn_state st1)" "level_ids env (rn_state st1) (concat (map snd ls))"
        "distinct (concat (map snd ls))"
        using Cons.prems(1,3) ids(4) p plain_run_cong[OF inv(1)] level_ids_cong[OF inv(1)] by auto
      obtain k es' where IH: "map fst es' = concat (map snd (take k ls))" "rn_results st' = rn_results st1 @ es'"
        "set (failures es') \<subseteq> set (rn_errors st')" "set (rn_errors st1) \<subseteq> set (rn_errors st')"
        "skel (rn_state st') = skel (rn_state st1)"
        "unbounded_depth env \<longrightarrow> rn_errors st' = rn_errors st1 @ failures es'" "rn_errors st' = [] \<longrightarrow> take k ls = ls"
        using Cons.IH[OF pre inv(2) dj rest] by blast
      have "failures (es @ es') = failures es @ failures es'" by (simp add: failures_def)
      then show ?thesis using IH es inv(1) p
        by (intro exI[of _ "Suc k"] exI[of _ "es @ es'"]) auto
    next
      case False
      then have st': "st' = st1" "rn_errors st1 \<noteq> []"
        using Cons.prems(6) p None one go by (auto simp: should_continue_def)
      then show ?thesis using es inv(1) p by (intro exI[of _ 1] exI[of _ es]) auto
    qed
  qed
qed

end
