(* ===== verification/Registry.thy ===== *)
theory Registry
  imports Nodes "HOL-Library.List_Lexorder" "HOL-Library.Char_ord" "HOL-Library.Product_Lexorder"
begin

text \<open>
  The process-wide registry of components (\<open>Registry\<close> in
  \<open>src/ice_core/unified_registry.py\<close>): node classes, executors, chains, agents, and for
  eleven kinds of component a table from names to import paths with a cache of the callables those
  paths resolved to. Every method reads or updates one record; a lookup that fills a cache returns
  the registry as well.

  Parameters: \<open>'o\<close> is the type of Python objects and a \<open>pyenv\<close> says what the interpreter
  knows of them: what \<open>module:attribute\<close> resolves to (\<open>importlib\<close>), what can be called and
  what a call returns, which objects are classes, tools, agents or workflows, and what their
  \<open>validate\<close> does. Log output is left out.
\<close>

section \<open>State\<close>

record 'o pyenv =
  imp :: "string \<Rightarrow> string \<Rightarrow> 'o res"
  is_callable :: "'o \<Rightarrow> bool"
  call :: "'o \<Rightarrow> val dict \<Rightarrow> 'o res"
  is_class :: "'o \<Rightarrow> bool"
  class_of :: "'o \<Rightarrow> 'o"
  is_tool_class :: "'o \<Rightarrow> bool"
  is_tool :: "'o \<Rightarrow> bool"
  is_agent :: "'o \<Rightarrow> bool"
  is_awaitable :: "'o \<Rightarrow> bool"
  has_execute :: "'o \<Rightarrow> bool"
  has_generate :: "'o \<Rightarrow> bool"
  sync_validate :: "'o \<Rightarrow> unit res"

text \<open>A cached factory is an imported callable, a closure that instantiates a class, or a closure
  around a tool object that makes another instance of its class and falls back to the object.\<close>

datatype 'o factory = Imported 'o | Bound 'o | Wrapped 'o

fun call_factory :: "'o pyenv \<Rightarrow> 'o factory \<Rightarrow> val dict \<Rightarrow> 'o res" where
  "call_factory py (Imported f) kw = call py f kw"
| "call_factory py (Bound c) kw = call py c kw"
| "call_factory py (Wrapped x) kw =
     (case call py (class_of py x) kw of Inl e \<Rightarrow> Inr x | Inr y \<Rightarrow> Inr y)"

datatype fkind = FTool | FWorkflow | FLlm | FCondition | FLoop | FParallel | FRecursive
  | FCode | FHuman | FMonitor | FSwarm

datatype 'o entry = Entry 'o | Stub string string

record 'o registry =
  classes :: "node_type \<Rightarrow> 'o dict"
  instances :: "node_type \<Rightarrow> 'o entry dict"
  executors :: "'o dict"
  chains :: "'o entry dict"
  agents :: "string dict"
  agent_definitions :: "'o dict"
  factories :: "fkind \<Rightarrow> string dict"
  factory_cache :: "fkind \<Rightarrow> 'o factory dict"

definition registry_new :: "'o registry" where
  "registry_new = \<lparr>classes = (\<lambda>_. []), instances = (\<lambda>_. []), executors = [], chains = [],
     agents = [], agent_definitions = [], factories = (\<lambda>_. []), factory_cache = (\<lambda>_. [])\<rparr>"

definition put_factory :: "fkind \<Rightarrow> string \<Rightarrow> string \<Rightarrow> 'o registry \<Rightarrow> 'o registry" where
  "put_factory k name path r =
     r\<lparr>factories := (factories r)(k := dict_set name path (factories r k))\<rparr>"

definition put_cache :: "fkind \<Rightarrow> string \<Rightarrow> 'o factory \<Rightarrow> 'o registry \<Rightarrow> 'o registry" where
  "put_cache k name f r =
     r\<lparr>factory_cache := (factory_cache r)(k := dict_set name f (factory_cache r k))\<rparr>"

definition clear_factories :: "fkind \<Rightarrow> 'o registry \<Rightarrow> 'o registry" where
  "clear_factories k r =
     r\<lparr>factories := (factories r)(k := []), factory_cache := (factory_cache r)(k := [])\<rparr>"

definition registry_error :: "string \<Rightarrow> exn" where
  "registry_error m = Exn (OtherError ''RegistryError'') (''Registry error: '' @ m)"

definition tool_resolution_error :: "string \<Rightarrow> string \<Rightarrow> exn" where
  "tool_resolution_error name d = Exn (OtherError ''ToolFactoryResolutionError'')
     (''Failed to instantiate tool '' @ sq name @ '': '' @ d)"

text \<open>\<open>module_str, attr = path.split(":", 1)\<close> and the import.\<close>

definition split_path :: "string \<Rightarrow> (string \<times> string) option" where
  "split_path p = (if CHR '':'' \<in> set p
     then Some (takeWhile (\<lambda>c. c \<noteq> CHR '':'') p, tl (dropWhile (\<lambda>c. c \<noteq> CHR '':'') p)) else None)"

definition load_path :: "'o pyenv \<Rightarrow> string \<Rightarrow> 'o res" where
  "load_path py p = (case split_path p of
       None \<Rightarrow> Inl (Exn ValueError ''not enough values to unpack (expected 2, got 1)'')
     | Some (m, a) \<Rightarrow> imp py m a)"

section \<open>Classes, executors, chains\<close>

definition register_class :: "node_type \<Rightarrow> string \<Rightarrow> 'o \<Rightarrow> 'o registry \<Rightarrow> 'o registry effect" where
  "register_class t name c r =
     (if dict_get (classes r t) name \<noteq> None
      then (r, Some (registry_error (''Node '' @ type_value t @ '':'' @ name @ '' already registered'')))
      else (r\<lparr>classes := (classes r)(t := dict_set name c (classes r t))\<rparr>, None))"

definition get_class :: "node_type \<Rightarrow> string \<Rightarrow> 'o registry \<Rightarrow> 'o res" where
  "get_class t name r = (case dict_get (classes r t) name of
       None \<Rightarrow> Inl (registry_error (''Node class '' @ type_value t @ '':'' @ name @ '' not found''))
     | Some c \<Rightarrow> Inr c)"

text \<open>\<open>sorted(set(results))\<close>: node types compare as the strings they are.\<close>

definition list_nodes :: "node_type option \<Rightarrow> 'o registry \<Rightarrow> (node_type \<times> string) list" where
  "list_nodes flt r =
     sort_key (\<lambda>(t, n). (type_value t, n)) (remdups (concat (map (\<lambda>t.
       map (Pair t) (dict_keys (classes r t)) @ map (Pair t) (dict_keys (instances r t)))
       (filter (\<lambda>t. flt = None \<or> flt = Some t) all_types))))"

text \<open>An entry point is its name and the outcome of \<open>ep.load()\<close>.\<close>

definition load_entry_point :: "string \<times> 'o res \<Rightarrow> 'o registry \<Rightarrow> 'o registry effect" where
  "load_entry_point ep r = (case split_path (fst ep) of
       None \<Rightarrow> (r, Some (Exn ValueError ''not enough values to unpack (expected 2, got 1)''))
     | Some (ty, name) \<Rightarrow>
         (case type_of_value ty of
            None \<Rightarrow> (r, Some (Exn ValueError (sq ty @ '' is not a valid NodeType'')))
          | Some t \<Rightarrow> (case snd ep of Inl e \<Rightarrow> (r, Some e) | Inr c \<Rightarrow> register_class t name c r)))"

fun load_entry_points :: "(string \<times> 'o res) list \<Rightarrow> 'o registry \<Rightarrow> nat \<times> 'o registry" where
  "load_entry_points [] r = (0, r)"
| "load_entry_points (ep # eps) r =
     (let (r1, e) = load_entry_point ep r; (n, r2) = load_entry_points eps r1
      in (if e = None then Suc n else n, r2))"

definition register_executor :: "string \<Rightarrow> 'o \<Rightarrow> 'o registry \<Rightarrow> 'o registry effect" where
  "register_executor t f r =
     (if dict_get (executors r) t \<noteq> None
      then (r, Some (registry_error (''Executor for '' @ t @ '' already registered'')))
      else (r\<lparr>executors := dict_set t f (executors r)\<rparr>, None))"

definition get_executor :: "string \<Rightarrow> 'o registry \<Rightarrow> 'o res" where
  "get_executor t r = (case dict_get (executors r) t of
       None \<Rightarrow> Inl (Exn KeyError (''No executor registered for node type: '' @ t)) | Some f \<Rightarrow> Inr f)"

definition register_chain :: "string \<Rightarrow> 'o \<Rightarrow> 'o registry \<Rightarrow> 'o registry effect" where
  "register_chain name c r =
     (if dict_get (chains r) name \<noteq> None
      then (r, Some (registry_error (''Chain '' @ name @ '' already registered'')))
      else (r\<lparr>chains := dict_set name (Entry c) (chains r)\<rparr>, None))"

definition get_chain :: "string \<Rightarrow> 'o registry \<Rightarrow> 'o entry res" where
  "get_chain name r = (case dict_get (chains r) name of
       None \<Rightarrow> Inl (Exn KeyError (''Chain '' @ name @ '' not found'')) | Some c \<Rightarrow> Inr c)"

definition list_chains :: "'o registry \<Rightarrow> string list" where
  "list_chains r = sort (dict_keys (chains r))"

definition available_chains :: "'o registry \<Rightarrow> (string \<times> 'o entry) list" where
  "available_chains r = sort_key fst (chains r)"

section \<open>Agents\<close>

definition register_agent :: "string \<Rightarrow> string \<Rightarrow> 'o registry \<Rightarrow> 'o registry effect" where
  "register_agent name path r = (case dict_get (agents r) name of
       Some p \<Rightarrow> (r, if p = path then None
                     else Some (registry_error (''Agent '' @ name @ '' already registered with different path'')))
     | None \<Rightarrow> (r\<lparr>agents := dict_set name path (agents r)\<rparr>, None))"

definition agent_not_found :: "string \<Rightarrow> exn" where
  "agent_not_found name = Exn KeyError (''Agent '' @ name @ '' not found'')"

definition get_agent_import_path :: "string \<Rightarrow> 'o registry \<Rightarrow> string res" where
  "get_agent_import_path name r =
     (case dict_get (agents r) name of None \<Rightarrow> Inl (agent_not_found name) | Some p \<Rightarrow> Inr p)"

definition list_agents :: "'o registry \<Rightarrow> string list" where
  "list_agents r = dict_keys (agents r)"

definition available_agents :: "'o registry \<Rightarrow> (string \<times> string) list" where
  "available_agents r = sort_key fst (agents r)"

text \<open>Storing an equal definition again changes nothing, so both branches are one update.\<close>

definition register_agent_definition :: "string \<Rightarrow> 'o \<Rightarrow> 'o registry \<Rightarrow> 'o registry" where
  "register_agent_definition name d r =
     (if dict_get (agent_definitions r) name = Some d then r
      else r\<lparr>agent_definitions := dict_set name d (agent_definitions r)\<rparr>)"

definition get_agent_definition :: "string \<Rightarrow> 'o registry \<Rightarrow> 'o res" where
  "get_agent_definition name r = (case dict_get (agent_definitions r) name of
       None \<Rightarrow> Inl (Exn KeyError (''Agent definition '' @ name @ '' not found'')) | Some d \<Rightarrow> Inr d)"

fun entry_class :: "'o pyenv \<Rightarrow> 'o entry option \<Rightarrow> 'o option" where
  "entry_class py (Some (Entry c)) = (if is_class py c then Some c else None)"
| "entry_class py _ = None"

definition get_agent_class :: "'o pyenv \<Rightarrow> string \<Rightarrow> 'o registry \<Rightarrow> 'o res \<times> 'o registry" where
  "get_agent_class py name r = (case dict_get (agents r) name of
       None \<Rightarrow> (Inl (agent_not_found name), r)
     | Some path \<Rightarrow>
         (case entry_class py (dict_get (instances r TAgent) name) of
            Some c \<Rightarrow> (Inr c, r)
          | None \<Rightarrow>
              (case load_path py path of
                 Inl e \<Rightarrow> (Inl e, r)
               | Inr c \<Rightarrow>
                   if \<not> is_class py c
                   then (Inl (Exn TypeError (path @ '' does not resolve to a class'')), r)
                   else (Inr c, r\<lparr>instances := (instances r)
                           (TAgent := dict_set name (Entry c) (instances r TAgent))\<rparr>))))"

definition get_agent_instance :: "'o pyenv \<Rightarrow> string \<Rightarrow> val dict \<Rightarrow> 'o registry \<Rightarrow> 'o res" where
  "get_agent_instance py name kw r = (case dict_get (agents r) name of
       None \<Rightarrow> Inl (agent_not_found name)
     | Some path \<Rightarrow> res_bind (load_path py path) (\<lambda>f.
         if \<not> is_callable py f then Inl (Exn TypeError (''Factory '' @ path @ '' is not callable''))
         else res_bind (call py f kw) (\<lambda>a.
           if \<not> is_agent py a
           then Inl (Exn TypeError (''Factory for '' @ name @ '' did not return an IAgent instance''))
           else res_bind (sync_validate py a) (\<lambda>_. Inr a))))"

section \<open>Factories\<close>

text \<open>The four registration methods that test for a known name first.\<close>

definition different_path :: "string \<Rightarrow> string \<Rightarrow> exn" where
  "different_path what name =
     registry_error (what @ '' factory '' @ name @ '' already registered with different path'')"

definition register_checked ::
  "fkind \<Rightarrow> string \<Rightarrow> string \<Rightarrow> string \<Rightarrow> 'o registry \<Rightarrow> 'o registry effect" where
  "register_checked k what name path r = (case dict_get (factories r k) name of
       Some p \<Rightarrow> (r, if p = path then None else Some (different_path what name))
     | None \<Rightarrow> (put_factory k name path r, None))"

definition register_tool_factory ::
  "'o pyenv \<Rightarrow> string \<Rightarrow> string \<Rightarrow> 'o registry \<Rightarrow> 'o registry effect" where
  "register_tool_factory py name path r = (case dict_get (factories r FTool) name of
       Some p \<Rightarrow> (r, if p = path then None else Some (different_path ''Tool'' name))
     | None \<Rightarrow>
         (let r1 = put_factory FTool name path r
          in (case load_path py path of
                Inl e \<Rightarrow> r1
              | Inr f \<Rightarrow> if is_callable py f then put_cache FTool name (Imported f) r1 else r1, None)))"

definition register_tool_factory_callable :: "string \<Rightarrow> 'o \<Rightarrow> 'o registry \<Rightarrow> 'o registry" where
  "register_tool_factory_callable name f r = put_cache FTool name (Imported f) r"

definition register_workflow_factory :: "string \<Rightarrow> string \<Rightarrow> 'o registry \<Rightarrow> 'o registry effect" where
  "register_workflow_factory = register_checked FWorkflow ''Workflow''"

definition register_llm_factory :: "string \<Rightarrow> string \<Rightarrow> 'o registry \<Rightarrow> 'o registry effect" where
  "register_llm_factory = register_checked FLlm ''LLM''"

text \<open>The eight control-node kinds store the path again when it is the same.\<close>

definition register_control ::
  "fkind \<Rightarrow> string \<Rightarrow> string \<Rightarrow> string \<Rightarrow> 'o registry \<Rightarrow> 'o registry effect" where
  "register_control k what name path r =
     (if dict_get (factories r k) name \<notin> {None, Some path}
      then (r, Some (different_path what name)) else (put_factory k name path r, None))"

definition register_condition_factory :: "string \<Rightarrow> string \<Rightarrow> 'o registry \<Rightarrow> 'o registry effect" where
  "register_condition_factory = register_control FCondition ''Condition''"

definition register_loop_factory :: "string \<Rightarrow> string \<Rightarrow> 'o registry \<Rightarrow> 'o registry effect" where
  "register_loop_factory = register_control FLoop ''Loop''"

definition register_parallel_factory :: "string \<Rightarrow> string \<Rightarrow> 'o registry \<Rightarrow> 'o registry effect" where
  "register_parallel_factory = register_control FParallel ''Parallel''"

definition register_recursive_factory :: "string \<Rightarrow> string \<Rightarrow> 'o registry \<Rightarrow> 'o registry effect" where
  "register_recursive_factory = register_control FRecursive ''Recursive''"

definition register_code_factory :: "string \<Rightarrow> string \<Rightarrow> 'o registry \<Rightarrow> 'o registry effect" where
  "register_code_factory = register_control FCode ''Code''"

definition register_human_factory :: "string \<Rightarrow> string \<Rightarrow> 'o registry \<Rightarrow> 'o registry effect" where
  "register_human_factory = register_control FHuman ''Human''"

definition register_monitor_factory :: "string \<Rightarrow> string \<Rightarrow> 'o registry \<Rightarrow> 'o registry effect" where
  "register_monitor_factory = register_control FMonitor ''Monitor''"

definition register_swarm_factory :: "string \<Rightarrow> string \<Rightarrow> 'o registry \<Rightarrow> 'o registry effect" where
  "register_swarm_factory = register_control FSwarm ''Swarm''"

text \<open>\<open>_resolve_factory\<close>: the cache, else the table and the import. \<open>missing\<close> and
  \<open>not_callable\<close> are the exceptions the caller words.\<close>

definition resolve_with ::
  "'o pyenv \<Rightarrow> fkind \<Rightarrow> exn \<Rightarrow> (string \<Rightarrow> exn) \<Rightarrow> string \<Rightarrow> 'o registry \<Rightarrow> 'o factory res \<times> 'o registry" where
  "resolve_with py k missing not_callable name r = (case dict_get (factory_cache r k) name of
       Some f \<Rightarrow> (Inr f, r)
     | None \<Rightarrow>
         (case dict_get (factories r k) name of
            None \<Rightarrow> (Inl missing, r)
          | Some path \<Rightarrow>
              (case load_path py path of
                 Inl e \<Rightarrow> (Inl e, r)
               | Inr f \<Rightarrow> if is_callable py f
                   then (Inr (Imported f), put_cache k name (Imported f) r)
                   else (Inl (not_callable path), r))))"

definition resolve_factory ::
  "'o pyenv \<Rightarrow> fkind \<Rightarrow> string \<Rightarrow> 'o registry \<Rightarrow> 'o factory res \<times> 'o registry" where
  "resolve_factory py k name r = resolve_with py k (Exn KeyError name)
     (\<lambda>p. Exn TypeError (''Factory attribute is not callable: '' @ p)) name r"

text \<open>Resolve, then call the factory and check what it returned.\<close>

definition instance_of ::
  "'o pyenv \<Rightarrow> ('o \<Rightarrow> 'o res) \<Rightarrow> val dict \<Rightarrow> 'o factory res \<times> 'o registry \<Rightarrow> 'o res \<times> 'o registry" where
  "instance_of py post kw fr =
     (res_bind (fst fr) (\<lambda>f. res_bind (call_factory py f kw) post), snd fr)"

definition get_control_instance ::
  "fkind \<Rightarrow> 'o pyenv \<Rightarrow> string \<Rightarrow> val dict \<Rightarrow> 'o registry \<Rightarrow> 'o res \<times> 'o registry" where
  "get_control_instance k py name kw r = instance_of py Inr kw (resolve_factory py k name r)"

definition get_condition_instance :: "'o pyenv \<Rightarrow> string \<Rightarrow> val dict \<Rightarrow> 'o registry \<Rightarrow> 'o res \<times> 'o registry" where
  "get_condition_instance = get_control_instance FCondition"

definition get_loop_instance :: "'o pyenv \<Rightarrow> string \<Rightarrow> val dict \<Rightarrow> 'o registry \<Rightarrow> 'o res \<times> 'o registry" where
  "get_loop_instance = get_control_instance FLoop"

definition get_parallel_instance :: "'o pyenv \<Rightarrow> string \<Rightarrow> val dict \<Rightarrow> 'o registry \<Rightarrow> 'o res \<times> 'o registry" where
  "get_parallel_instance = get_control_instance FParallel"

definition get_recursive_instance :: "'o pyenv \<Rightarrow> string \<Rightarrow> val dict \<Rightarrow> 'o registry \<Rightarrow> 'o res \<times> 'o registry" where
  "get_recursive_instance = get_control_instance FRecursive"

definition get_code_instance :: "'o pyenv \<Rightarrow> string \<Rightarrow> val dict \<Rightarrow> 'o registry \<Rightarrow> 'o res \<times> 'o registry" where
  "get_code_instance = get_control_instance FCode"

definition get_human_instance :: "'o pyenv \<Rightarrow> string \<Rightarrow> val dict \<Rightarrow> 'o registry \<Rightarrow> 'o res \<times> 'o registry" where
  "get_human_instance = get_control_instance FHuman"

definition get_monitor_instance :: "'o pyenv \<Rightarrow> string \<Rightarrow> val dict \<Rightarrow> 'o registry \<Rightarrow> 'o res \<times> 'o registry" where
  "get_monitor_instance = get_control_instance FMonitor"

definition get_swarm_instance :: "'o pyenv \<Rightarrow> string \<Rightarrow> val dict \<Rightarrow> 'o registry \<Rightarrow> 'o res \<times> 'o registry" where
  "get_swarm_instance = get_control_instance FSwarm"

definition has_code_factory :: "string \<Rightarrow> 'o registry \<Rightarrow> bool" where
  "has_code_factory name r \<longleftrightarrow> dict_get (factories r FCode) name \<noteq> None
     \<or> dict_get (factory_cache r FCode) name \<noteq> None"

definition get_workflow_instance ::
  "'o pyenv \<Rightarrow> string \<Rightarrow> val dict \<Rightarrow> 'o registry \<Rightarrow> 'o res \<times> 'o registry" where
  "get_workflow_instance py name kw r =
     (let missing = Exn KeyError (''Workflow factory not registered: '' @ name)
      in if dict_get (factories r FWorkflow) name = None then (Inl missing, r)
         else instance_of py (\<lambda>w.
           if is_awaitable py w then Inr w
           else if \<not> has_execute py w
           then Inl (Exn TypeError (''Factory for workflow '' @ sq name
                     @ '' did not return an instance with an execute() method''))
           else (case sync_validate py w of
                   Inl e \<Rightarrow> Inl (Exn TypeError (''Workflow '' @ sq name @ '' failed validate(): '' @ exn_msg e))
                 | Inr _ \<Rightarrow> Inr w)) kw
           (resolve_with py FWorkflow missing
              (\<lambda>p. Exn TypeError (''Workflow factory attribute is not callable: '' @ p)) name r))"

definition get_llm_instance ::
  "'o pyenv \<Rightarrow> string \<Rightarrow> val dict \<Rightarrow> 'o registry \<Rightarrow> 'o res \<times> 'o registry" where
  "get_llm_instance py name kw r =
     (let missing = Exn KeyError (''LLM factory not registered: '' @ name)
      in if dict_get (factories r FLlm) name = None then (Inl missing, r)
         else instance_of py (\<lambda>w.
           if has_generate py w then Inr w
           else Inl (Exn TypeError (''Factory for LLM '' @ sq name
                     @ '' did not return an instance with a generate() method''))) kw
           (resolve_with py FLlm missing
              (\<lambda>p. Exn TypeError (''LLM factory attribute is not callable: '' @ p)) name r))"

text \<open>Tools: the cache, else the table, else a class registered under the name. Whatever the tool's
  own \<open>validate()\<close> raises is ignored.\<close>

definition resolve_tool :: "'o pyenv \<Rightarrow> string \<Rightarrow> 'o registry \<Rightarrow> 'o factory res \<times> 'o registry" where
  "resolve_tool py name r =
     (if dict_get (factory_cache r FTool) name \<noteq> None \<or> dict_get (factories r FTool) name \<noteq> None
      then resolve_with py FTool (tool_resolution_error name ''factory not registered'')
             (\<lambda>_. tool_resolution_error name ''factory attribute is not callable'') name r
      else (case dict_get (classes r TTool) name of
              None \<Rightarrow> (Inl (tool_resolution_error name ''factory not registered''), r)
            | Some c \<Rightarrow> if is_class py c \<and> is_tool_class py c
                then (Inr (Bound c), put_cache FTool name (Bound c) r)
                else (Inl (tool_resolution_error name ''factory not registered''), r)))"

definition get_tool_instance ::
  "'o pyenv \<Rightarrow> string \<Rightarrow> val dict \<Rightarrow> 'o registry \<Rightarrow> 'o res \<times> 'o registry" where
  "get_tool_instance py name kw r = instance_of py (\<lambda>t.
     if is_tool py t then Inr t
     else Inl (tool_resolution_error name ''factory did not return a ToolBase instance''))
     kw (resolve_tool py name r)"

definition has_tool :: "string \<Rightarrow> 'o registry \<Rightarrow> bool" where
  "has_tool name r \<longleftrightarrow> dict_get (factories r FTool) name \<noteq> None
     \<or> dict_get (factory_cache r FTool) name \<noteq> None \<or> dict_get (classes r TTool) name \<noteq> None"

definition available_tool_factories :: "'o registry \<Rightarrow> (string \<times> string) list" where
  "available_tool_factories r =
     sort_key fst (factories r FTool)
     @ map (\<lambda>n. (n, ''<callable>''))
         (filter (\<lambda>n. dict_get (factories r FTool) n = None) (sort (dict_keys (factory_cache r FTool))))"

definition list_tools :: "'o registry \<Rightarrow> string list" where
  "list_tools r = sort (remdups (dict_keys (classes r TTool) @ dict_keys (available_tool_factories r)))"

definition available_workflow_factories :: "'o registry \<Rightarrow> (string \<times> string) list" where
  "available_workflow_factories r = sort_key fst (factories r FWorkflow)"

definition clear_llm_factories :: "'o registry \<Rightarrow> 'o registry" where
  "clear_llm_factories = clear_factories FLlm"

definition clear_tool_factories :: "'o registry \<Rightarrow> 'o registry" where
  "clear_tool_factories = clear_factories FTool"

section \<open>Plugin manifests\<close>

text \<open>The loop of \<open>load_plugins\<close> over the components of a parsed manifest. A tool object is
  exported by a module made for it, so registering its factory finds the closure at once.\<close>

record plugin =
  pl_type :: string
  pl_name :: string
  pl_import :: string

definition import_failed :: "string \<Rightarrow> string \<Rightarrow> exn \<Rightarrow> exn" where
  "import_failed what name e =
     registry_error (''Failed to import '' @ what @ '' '' @ name @ '': '' @ exn_msg e)"

definition wrap_failure :: "(exn \<Rightarrow> exn) \<Rightarrow> 's effect \<Rightarrow> 's effect" where
  "wrap_failure f e = (fst e, map_option f (snd e))"

definition dyn_tool_path :: "string \<Rightarrow> string" where
  "dyn_tool_path name = ''_dyn_tools_'' @ name @ '':create''"

definition register_tool_object ::
  "'o pyenv \<Rightarrow> string \<Rightarrow> 'o \<Rightarrow> 'o registry \<Rightarrow> 'o registry effect" where
  "register_tool_object py name x r =
     (if CHR '':'' \<in> set name then register_tool_factory py name (dyn_tool_path name) r
      else (case dict_get (factories r FTool) name of
              Some p \<Rightarrow> (r, if p = dyn_tool_path name then None else Some (different_path ''Tool'' name))
            | None \<Rightarrow> (put_cache FTool name (Wrapped x) (put_factory FTool name (dyn_tool_path name) r), None)))"

definition load_tool :: "'o pyenv \<Rightarrow> string \<Rightarrow> string \<Rightarrow> 'o registry \<Rightarrow> 'o registry effect" where
  "load_tool py name path r =
     (case load_path py path of
        Inl e \<Rightarrow> (r, Some e)
      | Inr x \<Rightarrow>
          if is_class py x then
            (if \<not> is_tool_class py x
             then (r, Some (registry_error (''Tool class '' @ path @ '' is not a subclass of ToolBase'')))
             else (put_cache FTool name (Bound x)
                     (if dict_get (classes r TTool) name \<noteq> None then r
                      else fst (register_class TTool name x r)), None))
          else if \<not> is_tool py x
          then (r, Some (registry_error (''Tool instance '' @ path @ '' does not inherit ToolBase'')))
          else register_tool_object py name x r)"

definition load_chain :: "'o pyenv \<Rightarrow> string \<Rightarrow> string \<Rightarrow> 'o registry \<Rightarrow> 'o registry effect" where
  "load_chain py name path r =
     (case load_path py path of Inl e \<Rightarrow> (r, Some e) | Inr c \<Rightarrow> register_chain name c r)"

definition load_component :: "'o pyenv \<Rightarrow> bool \<Rightarrow> plugin \<Rightarrow> 'o registry \<Rightarrow> 'o registry effect" where
  "load_component py dyn c r =
     (if pl_type c = ''tool'' then
        (if dyn then wrap_failure (import_failed ''tool'' (pl_name c)) (load_tool py (pl_name c) (pl_import c) r)
         else (r\<lparr>instances := (instances r)(TTool :=
                 dict_set (pl_name c) (Stub ''tool'' (pl_import c)) (instances r TTool))\<rparr>, None))
      else if pl_type c = ''agent'' then register_agent (pl_name c) (pl_import c) r
      else if pl_type c = ''workflow'' then
        (if dyn then wrap_failure (import_failed ''workflow'' (pl_name c)) (load_chain py (pl_name c) (pl_import c) r)
         else (r\<lparr>chains := dict_set (pl_name c) (Stub ''workflow'' (pl_import c)) (chains r)\<rparr>, None))
      else (r, Some (registry_error (''Unknown node_type in manifest: '' @ pl_type c))))"

fun load_components ::
  "'o pyenv \<Rightarrow> bool \<Rightarrow> plugin list \<Rightarrow> 'o registry \<Rightarrow> nat res \<times> 'o registry" where
  "load_components py dyn [] r = (Inr 0, r)"
| "load_components py dyn (c # cs) r =
     (case load_component py dyn c r of
        (r1, Some e) \<Rightarrow> (Inl e, r1)
      | (r1, None) \<Rightarrow> (case load_components py dyn cs r1 of
            (Inr n, r2) \<Rightarrow> (Inr (Suc n), r2) | (Inl e, r2) \<Rightarrow> (Inl e, r2)))"

section \<open>Runs\<close>

text \<open>The operations that change the registry. A run may use any of them in any order, whether they
  raise or not.\<close>

datatype 'o reg_op =
    RegClass node_type string 'o | RegExecutor string 'o | RegChain string 'o
  | RegAgent string string | RegAgentDef string 'o | AgentClass string
  | RegTool string string | RegToolCallable string 'o | RegWorkflow string string | RegLlm string string
  | RegControl fkind string string string
  | GetTool string "val dict" | GetWorkflow string "val dict" | GetLlm string "val dict"
  | GetControl fkind string "val dict"
  | LoadPlugin bool plugin

fun reg_step :: "'o pyenv \<Rightarrow> 'o registry \<Rightarrow> 'o reg_op \<Rightarrow> 'o registry" where
  "reg_step py r (RegClass t n c) = fst (register_class t n c r)"
| "reg_step py r (RegExecutor t f) = fst (register_executor t f r)"
| "reg_step py r (RegChain n c) = fst (register_chain n c r)"
| "reg_step py r (RegAgent n p) = fst (register_agent n p r)"
| "reg_step py r (RegAgentDef n d) = register_agent_definition n d r"
| "reg_step py r (AgentClass n) = snd (get_agent_class py n r)"
| "reg_step py r (RegTool n p) = fst (register_tool_factory py n p r)"
| "reg_step py r (RegToolCallable n f) = register_tool_factory_callable n f r"
| "reg_step py r (RegWorkflow n p) = fst (register_workflow_factory n p r)"
| "reg_step py r (RegLlm n p) = fst (register_llm_factory n p r)"
| "reg_step py r (RegControl k w n p) = fst (register_control k w n p r)"
| "reg_step py r (GetTool n kw) = snd (get_tool_instance py n kw r)"
| "reg_step py r (GetWorkflow n kw) = snd (get_workflow_instance py n kw r)"
| "reg_step py r (GetLlm n kw) = snd (get_llm_instance py n kw r)"
| "reg_step py r (GetControl k n kw) = snd (get_control_instance k py n kw r)"
| "reg_step py r (LoadPlugin dyn c) = fst (load_component py dyn c r)"

text \<open>What the tables say: entries \<open>(kind, name, path)\<close> of the factory tables.\<close>

definition registered :: "'o registry \<Rightarrow> (fkind \<times> string \<times> string) set" where
  "registered r = {(k, n, p). dict_get (factories r k) n = Some p}"

lemma registered_iff [simp]: "(k, n, p) \<in> registered r \<longleftrightarrow> dict_get (factories r k) n = Some p"
  by (simp add: registered_def)

lemma registry_fields [simp]:
  "factories (put_cache k n f r) = factories r"
  "factory_cache (put_factory k n p r) = factory_cache r"
  "factories (put_factory k n p r) = (factories r)(k := dict_set n p (factories r k))"
  "factory_cache (put_cache k n f r) = (factory_cache r)(k := dict_set n f (factory_cache r k))"
  by (simp_all add: put_cache_def put_factory_def)

lemma res_bind_Inr_right: "res_bind r Inr = r"
  by (cases r) simp_all

lemma snd_instance_of [simp]: "snd (instance_of py post kw fr) = snd fr"
  by (simp add: instance_of_def)

lemma get_control_instance_snd [simp]:
  "snd (get_control_instance k py n kw r) = snd (resolve_factory py k n r)"
  by (simp add: get_control_instance_def)

lemma resolve_with_factories [simp]:
  "factories (snd (resolve_with py k e nc n r)) = factories r"
  by (auto simp: resolve_with_def split: option.splits sum.splits)

lemma lookups_keep_factories [simp]:
  "factories (snd (resolve_factory py k n r)) = factories r"
  "factories (snd (get_tool_instance py n kw r)) = factories r"
  "factories (snd (get_workflow_instance py n kw r)) = factories r"
  "factories (snd (get_llm_instance py n kw r)) = factories r"
  "factories (snd (get_agent_class py n r)) = factories r"
  by (auto simp: resolve_factory_def get_tool_instance_def resolve_tool_def get_workflow_instance_def
        get_llm_instance_def get_agent_class_def Let_def split: option.splits sum.splits)

lemma tables_kept [simp]:
  "factories (fst (register_class t n c r)) = factories r"
  "factory_cache (fst (register_class t n c r)) = factory_cache r"
  "factories (fst (register_executor ty f r)) = factories r"
  "factory_cache (fst (register_executor ty f r)) = factory_cache r"
  "factories (fst (register_chain n c r)) = factories r"
  "factory_cache (fst (register_chain n c r)) = factory_cache r"
  "factories (fst (register_agent n p r)) = factories r"
  "factory_cache (fst (register_agent n p r)) = factory_cache r"
  "factories (register_agent_definition n c r) = factories r"
  "factory_cache (register_agent_definition n c r) = factory_cache r"
  "factories (register_tool_factory_callable n c r) = factories r"
  "factory_cache (snd (get_agent_class py n r)) = factory_cache r"
  "factories (fst (load_chain py n p r)) = factories r"
  "factory_cache (fst (load_chain py n p r)) = factory_cache r"
  "fst (wrap_failure h eff) = fst eff"
  by (auto simp: register_class_def register_executor_def register_chain_def register_agent_def
        register_agent_definition_def register_tool_factory_callable_def get_agent_class_def load_chain_def
        wrap_failure_def split: option.splits sum.splits)

lemma tool_tables:
  "dict_get (factories r k) n = Some p \<Longrightarrow>
     dict_get (factories (fst (register_tool_factory py name path r)) k) n = Some p"
  "dict_get (factories r k) n = Some p \<Longrightarrow>
     dict_get (factories (fst (register_tool_object py name x r)) k) n = Some p"
  "k \<noteq> FTool \<Longrightarrow> factory_cache (fst (register_tool_factory py name path r)) k = factory_cache r k"
  "k \<noteq> FTool \<Longrightarrow> factory_cache (fst (register_tool_object py name x r)) k = factory_cache r k"
  by (auto simp: register_tool_factory_def register_tool_object_def Let_def split: option.splits sum.splits)

lemma load_tool_tables:
  "dict_get (factories r k) n = Some p \<Longrightarrow>
     dict_get (factories (fst (load_tool py name path r)) k) n = Some p"
  "k \<noteq> FTool \<Longrightarrow> factory_cache (fst (load_tool py name path r)) k = factory_cache r k"
  by (auto simp: load_tool_def tool_tables split: sum.splits)

lemma load_component_tables:
  "dict_get (factories r k) n = Some p \<Longrightarrow>
     dict_get (factories (fst (load_component py dyn c r)) k) n = Some p"
  "k \<noteq> FTool \<Longrightarrow> factory_cache (fst (load_component py dyn c r)) k = factory_cache r k"
  by (auto simp: load_component_def load_tool_tables)

lemma register_factory_tables:
  "dict_get (factories r k) n = Some p \<Longrightarrow>
     dict_get (factories (fst (register_checked k' what name path r)) k) n = Some p"
  "dict_get (factories r k) n = Some p \<Longrightarrow>
     dict_get (factories (fst (register_control k' what name path r)) k) n = Some p"
  "factory_cache (fst (register_checked k' what name path r)) = factory_cache r"
  "factory_cache (fst (register_control k' what name path r)) = factory_cache r"
  by (auto simp: register_checked_def register_control_def split: option.splits)

lemma reg_step_factories:
  "dict_get (factories r k) n = Some p \<Longrightarrow> dict_get (factories (reg_step py r a) k) n = Some p"
  by (cases a) (simp_all add: tool_tables load_component_tables register_factory_tables
      register_workflow_factory_def register_llm_factory_def)

interpretation reg: growing_machine "reg_step py" "\<lambda>_. True" registered for py
  by unfold_locales (auto simp: reg_step_factories)

text \<open>Cache coherence: but for tools, a cached factory is the callable that the path of its name
  resolves to.\<close>

definition cache_ok :: "'o pyenv \<Rightarrow> 'o registry \<Rightarrow> bool" where
  "cache_ok py r \<longleftrightarrow> (\<forall>k n f. k \<noteq> FTool \<longrightarrow> dict_get (factory_cache r k) n = Some f \<longrightarrow>
     (\<exists>p g. dict_get (factories r k) n = Some p \<and> load_path py p = Inr g \<and> is_callable py g
        \<and> f = Imported g))"

lemma cache_okI:
  "cache_ok py r \<Longrightarrow> \<forall>k. k \<noteq> FTool \<longrightarrow> factory_cache r' k = factory_cache r k \<Longrightarrow>
   (\<And>k n p. dict_get (factories r k) n = Some p \<Longrightarrow> dict_get (factories r' k) n = Some p) \<Longrightarrow> cache_ok py r'"
  unfolding cache_ok_def by metis

lemma resolve_with_ok: "cache_ok py r \<Longrightarrow> cache_ok py (snd (resolve_with py k e nc n r))"
  unfolding cache_ok_def resolve_with_def by (auto split: option.splits sum.splits)

lemma resolve_tool_ok: "cache_ok py r \<Longrightarrow> cache_ok py (snd (resolve_tool py n r))"
  using cache_okI[of py r "put_cache FTool n f r" for f]
  by (simp add: resolve_tool_def resolve_with_ok split: option.splits)

lemma get_agent_class_ok: "cache_ok py r \<Longrightarrow> cache_ok py (snd (get_agent_class py n r))"
  by (rule cache_okI[of py r]) (auto simp: get_agent_class_def split: option.splits sum.splits)

lemma lookups_ok:
  assumes "cache_ok py r"
  shows "cache_ok py (snd (resolve_factory py k n r))" "cache_ok py (snd (get_tool_instance py n kw r))"
    "cache_ok py (snd (get_workflow_instance py n kw r))" "cache_ok py (snd (get_llm_instance py n kw r))"
  using assms by (simp_all add: resolve_factory_def get_tool_instance_def get_workflow_instance_def
      get_llm_instance_def resolve_with_ok resolve_tool_ok Let_def)

lemma registrations_ok:
  assumes "cache_ok py r"
  shows "cache_ok py (fst (load_component py dyn c r))" "cache_ok py (fst (register_checked k what n p r))"
    "cache_ok py (fst (register_control k what n p r))" "cache_ok py (fst (register_tool_factory py n p r))"
    "cache_ok py (register_tool_factory_callable n f r)"
  by (rule cache_okI [OF assms];
      simp add: load_component_tables register_factory_tables tool_tables register_tool_factory_callable_def)+

lemma reg_step_ok: "cache_ok py r \<Longrightarrow> cache_ok py (reg_step py r a)"
  by (cases a) (simp_all add: lookups_ok registrations_ok get_agent_class_ok cache_okI
      register_workflow_factory_def register_llm_factory_def)

interpretation reg_cache: machine "reg_step py" "cache_ok py" for py
  by unfold_locales (rule reg_step_ok)

lemma cache_ok_new [simp]: "cache_ok py registry_new"
  by (simp add: cache_ok_def registry_new_def)

lemma resolve_with_registered:
  assumes "cache_ok py r" "k \<noteq> FTool" "dict_get (factories r k) n = Some p"
  shows "fst (resolve_with py k e nc n r) = res_bind (load_path py p)
    (\<lambda>f. if is_callable py f then Inr (Imported f) else Inl (nc p))"
proof (cases "dict_get (factory_cache r k) n")
  case None
  then show ?thesis using assms(3) by (simp add: resolve_with_def split: sum.splits)
next
  case (Some f)
  then obtain g where "load_path py p = Inr g" "is_callable py g" "f = Imported g"
    using assms unfolding cache_ok_def by (metis option.inject)
  then show ?thesis using Some by (simp add: resolve_with_def)
qed

section \<open>Properties\<close>

text \<open>A registration is honoured for ever: once a control-node factory has been registered
  under a path without an exception, then after any further operations, a lookup under its name
  imports that path and calls what it finds, or raises as the import, the missing callable or the
  call does; it never reaches the factory of another path, cached or not.\<close>

theorem registered_factory_resolves:
  assumes "register_control k what name path (foldl (reg_step py) registry_new before) = (r, None)"
    and "k \<noteq> FTool"
  shows "fst (get_control_instance k py name kw (foldl (reg_step py) r after)) =
    res_bind (load_path py path) (\<lambda>f. if is_callable py f then call py f kw
      else Inl (Exn TypeError (''Factory attribute is not callable: '' @ path)))"
proof -
  let ?r0 = "foldl (reg_step py) registry_new before"
  let ?r2 = "foldl (reg_step py) r after"
  have "r = reg_step py ?r0 (RegControl k what name path)" using assms(1) by simp
  moreover have "cache_ok py ?r0" by (simp add: reg_cache.run_inv)
  ultimately have "cache_ok py r" using reg_step_ok by metis
  then have ok: "cache_ok py ?r2" by (rule reg_cache.run_inv)
  have "(k, name, path) \<in> registered r"
    using assms(1) by (auto simp: register_control_def split: if_splits)
  then have "(k, name, path) \<in> registered ?r2" using reg.run_grows[of r py after] by blast
  then have "fst (resolve_factory py k name ?r2) = res_bind (load_path py path)
    (\<lambda>f. if is_callable py f then Inr (Imported f)
       else Inl (Exn TypeError (''Factory attribute is not callable: '' @ path)))"
    unfolding resolve_factory_def using ok assms(2) by (intro resolve_with_registered) auto
  then show ?thesis
    by (cases "load_path py path") (simp_all add: get_control_instance_def instance_of_def res_bind_Inr_right split: sum.splits)
qed

definition demo_py :: "nat pyenv" where
  "demo_py = \<lparr>imp = (\<lambda>m a. if m = ''mod'' then Inr (length a) else Inl (Exn (OtherError ''ImportError'') m)),
     is_callable = (\<lambda>_. True), call = (\<lambda>f kw. Inr (f + 100)), is_class = (\<lambda>f. f < 10), class_of = id,
     is_tool_class = (\<lambda>_. True), is_tool = (\<lambda>_. True), is_agent = (\<lambda>_. True), is_awaitable = (\<lambda>_. False),
     has_execute = (\<lambda>_. True), has_generate = (\<lambda>_. True), sync_validate = (\<lambda>_. Inr ())\<rparr>"

theorem registered_factory_resolves_witness:
  "fst (get_control_instance FLoop demo_py ''each'' [] (foldl (reg_step demo_py)
      (put_factory FLoop ''each'' ''mod:make'' registry_new)
      [RegControl FLoop ''Loop'' ''each'' ''other:make'', GetControl FLoop ''each'' []])) = Inr 104"
proof -
  have "register_control FLoop ''Loop'' ''each'' ''mod:make'' (foldl (reg_step demo_py) registry_new [])
      = (put_factory FLoop ''each'' ''mod:make'' registry_new, None)"
    by (simp add: register_control_def registry_new_def)
  from registered_factory_resolves [OF this, of "[]" "[RegControl FLoop ''Loop'' ''each'' ''other:make'', GetControl FLoop ''each'' []]"]
  show ?thesis by (simp add: load_path_def split_path_def demo_py_def)
qed

text \<open>When two plugin components export different tool classes under one name, the comment in
  \<open>load_plugins\<close> says that the first registered implementation wins. The class table keeps the
  first, but the factory cache is overwritten: instances are made of the last one.\<close>

theorem duplicate_tool_plugin_serves_last:
  assumes first: "load_path py p1 = Inr c1" "is_class py c1" "is_tool_class py c1"
    and second: "load_path py p2 = Inr c2" "is_class py c2" "is_tool_class py c2"
    and inst: "call py c2 kw = Inr t" "is_tool py t"
    and fresh: "dict_get (classes r TTool) name = None"
  shows "\<exists>r2. load_components py True
             [\<lparr>pl_type = ''tool'', pl_name = name, pl_import = p1\<rparr>,
              \<lparr>pl_type = ''tool'', pl_name = name, pl_import = p2\<rparr>] r = (Inr 2, r2)
           \<and> get_class TTool name r2 = Inr c1
           \<and> fst (get_tool_instance py name kw r2) = Inr t"
  using assms
  by (simp add: load_component_def load_tool_def wrap_failure_def register_class_def get_class_def
      get_tool_instance_def resolve_tool_def instance_of_def resolve_with_def put_cache_def)

theorem duplicate_tool_plugin_serves_last_witness:
  "\<exists>r2. load_components demo_py True
       [\<lparr>pl_type = ''tool'', pl_name = ''t'', pl_import = ''mod:A''\<rparr>,
        \<lparr>pl_type = ''tool'', pl_name = ''t'', pl_import = ''mod:BB''\<rparr>] registry_new = (Inr 2, r2)
     \<and> get_class TTool ''t'' r2 = Inr 1 \<and> fst (get_tool_instance demo_py ''t'' [] r2) = Inr 102"
  by (rule duplicate_tool_plugin_serves_last [of demo_py "''mod:A''" 1 "''mod:BB''" 2 "[]" 102])
     (simp_all add: demo_py_def load_path_def split_path_def registry_new_def)

end
