(* ===== verification/Blueprints.thy ===== *)
theory Blueprints
  imports Registry
begin

text \<open>
  Blueprints, the design-time form of a workflow: the wire models with their validators
  (\<open>src/ice_core/models/mcp.py\<close>), incremental construction (\<open>PartialBlueprint\<close>), Kahn's
  algorithm in \<open>validate_blueprint\<close> (\<open>src/ice_core/validation/schema_validator.py\<close>) and the
  conversion of node specifications to configurations (\<open>src/ice_core/utils/node_conversion.py\<close>).

  Parameters: Pydantic's \<open>model_validate\<close> of a configuration class, the schema methods of a
  tool object, and the last-resort plugin loading of \<open>discover_tool_schemas\<close>, which reads files.
\<close>

section \<open>Models\<close>

record node_spec =
  ns_id :: string
  ns_type :: string
  ns_deps :: "string list"
  ns_extra :: "val dict"

record blueprint =
  bp_id :: string
  bp_version :: string
  bp_nodes :: "node_spec list"
  bp_metadata :: "val dict"

text \<open>The \<open>name\<close> property; \<open>to_str\<close> is \<open>str()\<close>.\<close>

definition blueprint_name :: "(val \<Rightarrow> string) \<Rightarrow> blueprint \<Rightarrow> string" where
  "blueprint_name to_str bp = to_str (dict_get_or (bp_metadata bp) ''draft_name'' (VStr (bp_id bp)))"

definition missing_refs :: "node_spec list \<Rightarrow> (string \<times> string) list" where
  "missing_refs nodes = filter (\<lambda>(n, d). d \<notin> set (map ns_id nodes))
     (concat (map (\<lambda>n. map (Pair (ns_id n)) (ns_deps n)) nodes))"

definition validate_node_dependencies :: "node_spec list \<Rightarrow> node_spec list res" where
  "validate_node_dependencies nodes = (case missing_refs nodes of
       [] \<Rightarrow> Inr nodes
     | (n, d) # _ \<Rightarrow> Inl (Exn ValidationError (''Node '' @ n @ '' references missing dependency '' @ d)))"

definition blueprint_new :: "string \<Rightarrow> string \<Rightarrow> node_spec list \<Rightarrow> val dict \<Rightarrow> blueprint res" where
  "blueprint_new i v nodes md = res_bind (validate_node_dependencies nodes) (\<lambda>ns.
     Inr \<lparr>bp_id = i, bp_version = v, bp_nodes = ns, bp_metadata = md\<rparr>)"

section \<open>Kahn's algorithm\<close>

definition supported_versions :: "string list" where
  "supported_versions = [''1.1.0'', ''1.2.0'']"

type_synonym kahn_tables = "(string \<times> string list) list \<times> (string \<times> int) list"

text \<open>\<open>adjacency[dep].append(id)\<close> of a \<open>defaultdict(list)\<close>; \<open>in_degree[id] += 1\<close>. The
  keys of \<open>in_degree\<close> are the ids of the nodes, so the default of 0 is never used.\<close>

definition add_dep :: "string \<Rightarrow> kahn_tables \<Rightarrow> string \<Rightarrow> kahn_tables" where
  "add_dep n t dep = (case t of (adj, deg) \<Rightarrow>
     (dict_set dep (dict_get_or adj dep [] @ [n]) adj, dict_set n (dict_get_or deg n 0 + 1) deg))"

definition zero_degrees :: "node_spec list \<Rightarrow> (string \<times> int) list" where
  "zero_degrees nodes = foldl (\<lambda>d n. dict_set (ns_id n) 0 d) [] nodes"

definition kahn_init :: "node_spec list \<Rightarrow> kahn_tables" where
  "kahn_init nodes = foldl (\<lambda>t n. foldl (add_dep (ns_id n)) t (ns_deps n)) ([], zero_degrees nodes) nodes"

text \<open>The edges that leave the current node, one after the other: the degree goes down, and a node
  whose degree becomes zero joins the queue.\<close>

fun relax :: "string list \<Rightarrow> string list \<times> (string \<times> int) list \<Rightarrow> string list \<times> (string \<times> int) list" where
  "relax [] st = st"
| "relax (v # vs) (q, deg) =
     (let d = dict_get_or deg v 0 - 1
      in relax vs (if d = 0 then q @ [v] else q, dict_set v d deg))"

text \<open>The number of degrees that are still positive: each turn of the loop takes one id off the
  queue and adds an id only when its degree drops to zero.\<close>

definition positive :: "(string \<times> int) list \<Rightarrow> nat" where
  "positive deg = length (filter (\<lambda>p. 0 < snd p) deg)"

lemma positive_set:
  "d = dict_get_or deg v 0 - 1 \<Longrightarrow>
   (if d = 0 then 1 else 0) + positive (dict_set v d deg) \<le> positive deg"
proof (induction deg)
  case (Cons p deg)
  then show ?case by (cases p) (auto simp: positive_def dict_get_or_def)
qed (simp add: positive_def dict_get_or_def)

lemma relax_measure: "relax vs (q, deg) = (q', deg') \<Longrightarrow> length q' + positive deg' \<le> length q + positive deg"
proof (induction vs arbitrary: q deg)
  case (Cons v vs)
  let ?d = "dict_get_or deg v 0 - 1"
  have "length q' + positive deg' \<le> length (if ?d = 0 then q @ [v] else q) + positive (dict_set v ?d deg)"
    using Cons by (simp add: Let_def)
  then show ?case using positive_set[of ?d deg v] by (auto split: if_splits)
qed simp

function kahn_loop :: "(string \<times> string list) list \<Rightarrow> string list \<Rightarrow> (string \<times> int) list \<Rightarrow> nat \<Rightarrow> nat" where
  "kahn_loop adj [] deg processed = processed"
| "kahn_loop adj (c # q) deg processed =
     (let (q', deg') = relax (dict_get_or adj c []) (q, deg) in kahn_loop adj q' deg' (Suc processed))"
  by pat_completeness auto
termination
proof (relation "measure (\<lambda>(adj, q, deg, p). length q + positive deg)")
  fix adj :: "(string \<times> string list) list" and c :: string and q :: "string list"
    and deg :: "(string \<times> int) list" and processed :: nat and x q' deg'
  assume "x = relax (dict_get_or adj c []) (q, deg)" "(q', deg') = x"
  then have "length q' + positive deg' \<le> length q + positive deg" using relax_measure by metis
  then show "((adj, q', deg', Suc processed), adj, c # q, deg, processed)
      \<in> measure (\<lambda>(adj, q, deg, p). length q + positive deg)" by simp
qed simp

definition kahn_count :: "node_spec list \<Rightarrow> nat" where
  "kahn_count nodes = (let (adj, deg) = kahn_init nodes
     in kahn_loop adj (map fst (filter (\<lambda>p. snd p = 0) deg)) deg 0)"

definition validate_blueprint :: "blueprint \<Rightarrow> unit res" where
  "validate_blueprint bp =
     (if bp_version bp \<notin> set supported_versions
      then Inl (Exn (OtherError ''BlueprintVersionError'')
             (''Unsupported blueprint schema_version '' @ sq (bp_version bp) @ ''. Supported: ''
              @ str_join '', '' (map sq supported_versions)))
      else if kahn_count (bp_nodes bp) \<noteq> length (bp_nodes bp)
      then Inl (Exn (OtherError ''CircularDependencyError'') ''Blueprint contains circular dependencies'')
      else Inr ())"

section \<open>What the loop counts\<close>

text \<open>The edges in the order of the source, with repetitions.\<close>

definition bp_edges :: "node_spec list \<Rightarrow> (string \<times> string) list" where
  "bp_edges nodes = concat (map (\<lambda>n. map (\<lambda>d. (d, ns_id n)) (ns_deps n)) nodes)"

lemma bp_edges_simps [simp]:
  "bp_edges [] = []"
  "bp_edges (nodes @ [n]) = bp_edges nodes @ map (\<lambda>d. (d, ns_id n)) (ns_deps n)"
  by (simp_all add: bp_edges_def)

text \<open>Edges into \<open>v\<close> whose source is not in \<open>P\<close>.\<close>

definition open_in :: "(string \<times> string) list \<Rightarrow> string set \<Rightarrow> string \<Rightarrow> nat" where
  "open_in es P v = length (filter (\<lambda>e. snd e = v \<and> fst e \<notin> P) es)"

lemma zero_degrees_get: "dict_get (zero_degrees nodes) v = (if v \<in> ns_id ` set nodes then Some 0 else None)"
  unfolding zero_degrees_def by (induction nodes rule: rev_induct) auto

definition tables_ok :: "node_spec list \<Rightarrow> (string \<times> string) list \<Rightarrow> kahn_tables \<Rightarrow> bool" where
  "tables_ok nodes es t \<longleftrightarrow> (\<forall>u. dict_get_or (fst t) u [] = map snd (filter (\<lambda>e. fst e = u) es)) \<and>
     (\<forall>v. dict_get (snd t) v = (if v \<in> ns_id ` set nodes then Some (int (open_in es {} v)) else None)) \<and>
     dict_wf (snd t)"

lemma kahn_add_dep_ok:
  "tables_ok nodes es t \<Longrightarrow> n \<in> ns_id ` set nodes \<Longrightarrow> tables_ok nodes (es @ [(d, n)]) (add_dep n t d)"
  by (cases t) (auto simp: tables_ok_def add_dep_def open_in_def dict_get_or_def)

lemma kahn_add_deps_ok:
  "tables_ok nodes es t \<Longrightarrow> n \<in> ns_id ` set nodes \<Longrightarrow>
   tables_ok nodes (es @ map (\<lambda>d. (d, n)) ds) (foldl (add_dep n) t ds)"
proof (induction ds rule: rev_induct)
  case (snoc d ds)
  then show ?case using kahn_add_dep_ok[of nodes "es @ map (\<lambda>d. (d, n)) ds"] by simp
qed simp

lemma kahn_init_ok: "tables_ok nodes (bp_edges nodes) (kahn_init nodes)"
proof -
  have "tables_ok nodes (bp_edges ns) (foldl (\<lambda>t n. foldl (add_dep (ns_id n)) t (ns_deps n)) ([], zero_degrees nodes) ns)"
    if "set ns \<subseteq> set nodes" for ns
    using that
  proof (induction ns rule: rev_induct)
    case Nil
    have "dict_wf (zero_degrees nodes)"
      unfolding zero_degrees_def by (induction nodes rule: rev_induct) auto
    then show ?case by (auto simp: tables_ok_def zero_degrees_get open_in_def dict_get_or_def)
  next
    case (snoc n ns)
    then show ?case using kahn_add_deps_ok[of nodes "bp_edges ns" _ "ns_id n" "ns_deps n"] by simp
  qed
  then show ?thesis by (simp add: kahn_init_def)
qed

lemma relax_spec:
  assumes "\<forall>v \<in> set vs. \<exists>x. dict_get deg v = Some x \<and> int (count_list vs v) \<le> x"
    and "relax vs (q, deg) = (q', deg')"
  shows "(\<forall>v. dict_get deg' v = map_option (\<lambda>x. x - int (count_list vs v)) (dict_get deg v)) \<and>
    (\<exists>news. q' = q @ news \<and> distinct news \<and>
       set news = {v \<in> set vs. dict_get deg v = Some (int (count_list vs v))})"
  using assms
proof (induction vs arbitrary: q deg)
  case Nil
  then show ?case by (simp add: option.map_ident)
next
  case (Cons v vs)
  obtain x where x: "dict_get deg v = Some x" "int (count_list (v # vs) v) \<le> x"
    using Cons.prems(1) by auto
  let ?d = "x - 1"
  let ?q = "if ?d = 0 then q @ [v] else q"
  let ?deg = "dict_set v ?d deg"
  have run: "relax vs (?q, ?deg) = (q', deg')"
    using Cons.prems(2) x by (simp add: Let_def dict_get_or_def)
  have "\<forall>w \<in> set vs. \<exists>y. dict_get ?deg w = Some y \<and> int (count_list vs w) \<le> y"
    using Cons.prems(1) x by force
  note IH = Cons.IH[OF this run]
  then obtain news where news: "q' = ?q @ news" "distinct news"
    "set news = {w \<in> set vs. dict_get ?deg w = Some (int (count_list vs w))}" by blast
  let ?news = "(if ?d = 0 then [v] else []) @ news"
  have v: "v \<in> set vs \<longleftrightarrow> 0 < count_list vs v" using count_list_0_iff[of vs v] by auto
  have "v \<notin> set news" if "?d = 0" using news(3) that x(2) v by auto
  then have "distinct ?news" using news(2) by simp
  moreover have "w \<in> set ?news \<longleftrightarrow> w \<in> set (v # vs) \<and> dict_get deg w = Some (int (count_list (v # vs) w))" for w
  proof (cases "w = v")
    case True
    have memv: "v \<in> set news \<longleftrightarrow> v \<in> set vs \<and> x - 1 = int (count_list vs v)" by (simp add: news(3))
    show ?thesis
    proof (cases "x = 1")
      case True
      then show ?thesis using x \<open>w = v\<close> by simp
    next
      case False
      then show ?thesis using x(1) v memv \<open>w = v\<close> by auto
    qed
  next
    case False
    then show ?thesis by (simp add: news(3))
  qed
  then have "set ?news = {w \<in> set (v # vs). dict_get deg w = Some (int (count_list (v # vs) w))}" by blast
  moreover have "dict_get deg' w = map_option (\<lambda>y. y - int (count_list (v # vs) w)) (dict_get deg w)" for w
    using IH x(1) by (auto simp: option.map_comp comp_def)
  ultimately show ?case using news(1) by (intro conjI exI[of _ ?news]) auto
qed

text \<open>Everything popped comes after its predecessors; what is popped or queued is what has no open
  edge left.\<close>

definition after_preds :: "(string \<times> string) set \<Rightarrow> string list \<Rightarrow> bool" where
  "after_preds E L \<longleftrightarrow> distinct L \<and> (\<forall>xs v ys. L = xs @ v # ys \<longrightarrow> {u. (u, v) \<in> E} \<subseteq> set xs)"

definition kahn_inv ::
  "string set \<Rightarrow> (string \<times> string) list \<Rightarrow> string list \<Rightarrow> string list \<Rightarrow> (string \<times> int) list \<Rightarrow> bool" where
  "kahn_inv ids es L q deg \<longleftrightarrow> after_preds (set es) L \<and> distinct (L @ q) \<and>
     (\<forall>v. dict_get deg v = (if v \<in> ids then Some (int (open_in es (set L) v)) else None)) \<and>
     set (L @ q) = {v \<in> ids. open_in es (set L) v = 0}"

lemma open_in_insert:
  "c \<notin> P \<Longrightarrow> open_in es P v = open_in es (insert c P) v
     + count_list (map snd (filter (\<lambda>e. fst e = c) es)) v"
  by (induction es) (auto simp: open_in_def)

lemma open_in_zero: "open_in es P v = 0 \<longleftrightarrow> {u. (u, v) \<in> set es} \<subseteq> P"
  by (auto simp: open_in_def filter_empty_conv)

lemma after_preds_snoc:
  "after_preds E L \<Longrightarrow> c \<notin> set L \<Longrightarrow> {u. (u, c) \<in> E} \<subseteq> set L \<Longrightarrow> after_preds E (L @ [c])"
  unfolding after_preds_def by (auto simp: append_eq_append_conv2 append_eq_Cons_conv)
    (auto simp: append_eq_append_conv2 Cons_eq_append_conv)

lemma kahn_step_inv:
  assumes inv: "kahn_inv ids es L (c # q) deg" and tgt: "snd ` set es \<subseteq> ids"
    and run: "relax (map snd (filter (\<lambda>e. fst e = c) es)) (q, deg) = (q', deg')"
  shows "kahn_inv ids es (L @ [c]) q' deg'"
proof -
  let ?vs = "map snd (filter (\<lambda>e. fst e = c) es)"
  have c: "c \<notin> set L" "c \<in> ids" "open_in es (set L) c = 0" "c \<notin> set q" "distinct (L @ q)"
    using inv by (auto simp: kahn_inv_def)
  have deg: "dict_get deg v = (if v \<in> ids then Some (int (open_in es (set L) v)) else None)" for v
    using inv by (simp add: kahn_inv_def)
  have opn: "open_in es (set L) v = open_in es (set (L @ [c])) v + count_list ?vs v" for v
    using open_in_insert[OF c(1)] by simp
  have pre: "\<forall>v \<in> set ?vs. \<exists>x. dict_get deg v = Some x \<and> int (count_list ?vs v) \<le> x"
    using tgt opn by (auto simp: deg)
  from relax_spec[OF pre run] obtain news where
    deg': "\<And>v. dict_get deg' v = map_option (\<lambda>x. x - int (count_list ?vs v)) (dict_get deg v)"
    and news: "q' = q @ news" "distinct news"
      "set news = {v \<in> set ?vs. dict_get deg v = Some (int (count_list ?vs v))}" by blast
  have "dict_get deg' v = (if v \<in> ids then Some (int (open_in es (set (L @ [c])) v)) else None)" for v
    using deg'[of v] deg[of v] opn[of v] by simp
  moreover have newset: "set news = {v \<in> ids. open_in es (set (L @ [c])) v = 0 \<and> open_in es (set L) v \<noteq> 0}"
  proof -
    have "v \<in> set ?vs \<longleftrightarrow> 0 < count_list ?vs v" for v
      using count_list_0_iff[of ?vs v] by auto
    then show ?thesis using news(3) opn tgt deg by (auto split: if_splits)
  qed
  moreover have "set (L @ c # q) = {v \<in> ids. open_in es (set L) v = 0}" using inv by (simp add: kahn_inv_def)
  moreover have "set (L @ c # q) \<subseteq> {v \<in> ids. open_in es (set (L @ [c])) v = 0}"
    using calculation(3) opn by auto
  moreover have "after_preds (set es) (L @ [c])"
    using inv c open_in_zero[of es "set L" c] by (intro after_preds_snoc) (auto simp: kahn_inv_def)
  moreover have "distinct ((L @ [c]) @ q')"
    using c news(1,2) newset calculation(3) by auto
  ultimately show ?thesis unfolding kahn_inv_def using news(1) by auto
qed

lemma kahn_loop_spec:
  assumes "kahn_inv ids es L q deg" "snd ` set es \<subseteq> ids"
    and "\<And>u. dict_get_or adj u [] = map snd (filter (\<lambda>e. fst e = u) es)" "processed = length L"
  shows "\<exists>L' deg'. kahn_loop adj q deg processed = length L' \<and> kahn_inv ids es L' [] deg'"
  using assms
proof (induction adj q deg processed arbitrary: L rule: kahn_loop.induct)
  case (1 adj deg processed)
  then show ?case by auto
next
  case (2 adj c q deg processed)
  obtain q' deg' where run: "relax (dict_get_or adj c []) (q, deg) = (q', deg')" by force
  have "kahn_inv ids es (L @ [c]) q' deg'"
    using kahn_step_inv[OF 2(2,3)] run 2(4)[of c] by simp
  from 2(1)[OF run[symmetric] refl this 2(3,4)] show ?case using 2(5) run by simp
qed

lemma after_preds_acyclic:
  assumes L: "after_preds E L" and E: "snd ` E \<subseteq> set L"
  shows "acyclic E"
proof -
  let ?pos = "\<lambda>v. length (takeWhile (\<lambda>x. x \<noteq> v) L)"
  have "?pos u < ?pos v" if uv: "(u, v) \<in> E" for u v
  proof -
    have "v \<in> set L" using uv E by force
    then obtain xs ys where L': "L = xs @ v # ys" "v \<notin> set xs" by (meson split_list_first)
    then have "u \<in> set xs" using L uv by (auto simp: after_preds_def)
    then obtain as bs where "xs = as @ u # bs" "u \<notin> set as" by (meson split_list_first)
    then show ?thesis using L' by (auto simp: takeWhile_append)
  qed
  then have "E \<subseteq> measure ?pos" by auto
  then show ?thesis using acyclic_subset[OF wf_acyclic[OF wf_measure]] by blast
qed

lemma kahn_count_spec:
  "\<exists>L deg. kahn_count nodes = length L \<and> kahn_inv (ns_id ` set nodes) (bp_edges nodes) L [] deg"
proof -
  let ?ids = "ns_id ` set nodes" let ?es = "bp_edges nodes"
  obtain adj deg where t: "kahn_init nodes = (adj, deg)" by force
  let ?q = "map fst (filter (\<lambda>p. snd p = 0) deg)"
  have ok: "tables_ok nodes ?es (adj, deg)" using kahn_init_ok[of nodes] t by simp
  have "set ?q = {v. dict_get deg v = Some 0}"
  proof -
    have "dict_wf deg" using ok by (simp add: tables_ok_def)
    note iff = map_of_eq_Some_iff[OF this]
    show ?thesis by (auto simp: iff image_iff)
  qed
  moreover have "distinct ?q" using ok distinct_map_filter[of fst deg "\<lambda>p. snd p = 0"] by (simp add: tables_ok_def)
  ultimately have "kahn_inv ?ids ?es [] ?q deg"
    using ok by (auto simp: kahn_inv_def tables_ok_def after_preds_def split: if_splits)
  moreover have "snd ` set ?es \<subseteq> ?ids" by (auto simp: bp_edges_def)
  ultimately obtain L' deg' where "kahn_loop adj ?q deg 0 = length L'" "kahn_inv ?ids ?es L' [] deg'"
    using kahn_loop_spec[of ?ids ?es "[]" ?q deg adj 0] ok by (auto simp: tables_ok_def)
  then show ?thesis using t by (auto simp: kahn_count_def)
qed

section \<open>Incremental construction\<close>

text \<open>\<open>PartialNodeSpec\<close> extends \<open>NodeSpec\<close> by pending inputs, pending outputs and suggestions.\<close>

datatype pnode = PSpec node_spec | PPartial node_spec "string list option" "string list option" "string list option"

fun pspec :: "pnode \<Rightarrow> node_spec" where
  "pspec (PSpec n) = n"
| "pspec (PPartial n p q s) = n"

record partial_bp =
  pb_id :: string
  pb_nodes :: "pnode list"
  pb_metadata :: "val dict"
  pb_complete :: bool
  pb_errors :: "string list"
  pb_suggestions :: "string list"

definition partial_new :: "string \<Rightarrow> partial_bp" where
  "partial_new i = \<lparr>pb_id = i, pb_nodes = [], pb_metadata = [], pb_complete = False, pb_errors = [],
     pb_suggestions = []\<rparr>"

definition dependency_errors :: "node_spec list \<Rightarrow> string list" where
  "dependency_errors nodes =
     map (\<lambda>(n, d). ''Node '' @ n @ '' depends on non-existent node '' @ d) (missing_refs nodes)"

fun pending_error :: "pnode \<Rightarrow> string list" where
  "pending_error (PPartial n (Some (p # ps)) q s) =
     [''Node '' @ ns_id n @ '' has unconnected inputs: ['' @ str_join '', '' (map sq (p # ps)) @ '']'']"
| "pending_error _ = []"

text \<open>A component that a node names and its registry does not know: the kind and the name, with the
  test the source makes. A list or dict as a tool name cannot be hashed.\<close>

fun val_text :: "val \<Rightarrow> string" where
  "val_text (VStr s) = s"
| "val_text v = type_name v"

fun known_name :: "(string \<Rightarrow> bool) \<Rightarrow> val \<Rightarrow> bool" where
  "known_name f (VStr s) = f s"
| "known_name f _ = False"

definition component_problem :: "'o registry \<Rightarrow> node_spec \<Rightarrow> (string \<times> string \<times> string) option res" where
  "component_problem r n =
     (if ns_type n = ''tool'' then
        (case dict_get (ns_extra n) ''tool_name'' of
           None \<Rightarrow> Inr None
         | Some (VList vs) \<Rightarrow> type_error
         | Some (VDict d) \<Rightarrow> type_error
         | Some v \<Rightarrow> Inr (if known_name (\<lambda>s. has_tool s r) v then None
                         else Some (''Tool'', ''tool'', val_text v)))
      else if ns_type n = ''agent'' then
        (case dict_get (ns_extra n) ''package'' of
           None \<Rightarrow> Inr None
         | Some v \<Rightarrow> Inr (if known_name (\<lambda>s. s \<in> set (map fst (available_agents r))) v then None
                         else Some (''Agent'', ''agent'', val_text v)))
      else if ns_type n = ''workflow'' then
        (case dict_get (ns_extra n) ''workflow_ref'' of
           None \<Rightarrow> Inr None
         | Some v \<Rightarrow> Inr (if known_name (\<lambda>s. s \<in> set (map fst (available_workflow_factories r))) v then None
                         else Some (''Workflow'', ''workflow'', val_text v)))
      else Inr None)"

fun check_components :: "'o registry \<Rightarrow> node_spec list \<Rightarrow> partial_bp \<Rightarrow> partial_bp effect" where
  "check_components r [] p = (p, None)"
| "check_components r (n # ns) p =
     (case component_problem r n of
        Inl e \<Rightarrow> (p, Some e)
      | Inr None \<Rightarrow> check_components r ns p
      | Inr (Some (what, knd, name)) \<Rightarrow> check_components r ns
          (p\<lparr>pb_errors := pb_errors p @ [what @ '' '' @ sq name @ '' not found in registry''],
             pb_suggestions := pb_suggestions p
               @ [''Use /components/validate to validate and register '' @ knd @ '' '' @ sq name]\<rparr>))"

definition validate_incremental :: "'o registry \<Rightarrow> partial_bp \<Rightarrow> partial_bp effect" where
  "validate_incremental r p =
     (let p0 = p\<lparr>pb_errors := [], pb_complete := False\<rparr>
      in if pb_nodes p = [] then (p0\<lparr>pb_errors := [''No nodes added yet'']\<rparr>, None)
         else let p1 = p0\<lparr>pb_errors := dependency_errors (map pspec (pb_nodes p))
                            @ concat (map pending_error (pb_nodes p))\<rparr>
         in (case check_components r (map pspec (pb_nodes p)) p1 of
               (p2, Some e) \<Rightarrow> (p2, Some e)
             | (p2, None) \<Rightarrow>
                 (if pb_errors p2 = []
                  then p2\<lparr>pb_complete := True, pb_suggestions := pb_suggestions p2
                         @ [''Blueprint is valid! Use to_blueprint() to finalize'']\<rparr>
                  else p2, None)))"

definition pb_add_node :: "'o registry \<Rightarrow> partial_bp \<Rightarrow> pnode \<Rightarrow> partial_bp effect" where
  "pb_add_node r p n = validate_incremental r (p\<lparr>pb_nodes := pb_nodes p @ [n]\<rparr>)"

fun remove_all :: "string \<Rightarrow> string \<Rightarrow> string" where
  "remove_all pat s = str_join '''' (str_split pat s)"

definition to_blueprint :: "partial_bp \<Rightarrow> blueprint res" where
  "to_blueprint p =
     (if \<not> pb_complete p
      then Inl (Exn ValidationError (''Cannot convert incomplete blueprint. Errors: ['' @
             str_join '', '' (map sq (pb_errors p)) @ '']''))
      else blueprint_new (remove_all ''partial_'' (pb_id p)) ''1.1.0'' (map pspec (pb_nodes p)) (pb_metadata p))"

section \<open>Other wire models\<close>

record component_def =
  cd_type :: string
  cd_name :: string
  cd_description :: string
  cd_tool_factory :: "string option"
  cd_tool_class :: "string option"
  cd_tool_input_schema :: "val dict option"
  cd_tool_output_schema :: "val dict option"
  cd_system_prompt :: "string option"
  cd_tools :: "string list option"
  cd_llm_config :: "val dict option"
  cd_workflow_nodes :: "node_spec list option"
  cd_code_factory :: "string option"
  cd_code_class :: "string option"
  cd_auto_register :: bool
  cd_validate_only :: bool
  cd_metadata :: "val dict"

definition nonempty_list :: "'a list option \<Rightarrow> bool" where
  "nonempty_list x \<longleftrightarrow> x \<noteq> None \<and> x \<noteq> Some []"

definition validate_component_def :: "component_def \<Rightarrow> unit res" where
  "validate_component_def c =
     (if cd_type c = ''tool'' then
        (if nonempty_list (cd_tool_factory c) \<or> nonempty_list (cd_tool_class c)
            \<or> nonempty_list (cd_tool_input_schema c) then Inr ()
         else Inl (Exn ValueError ''Tool definition requires either tool_class_code or schemas''))
      else if cd_type c = ''code'' then
        (if nonempty_list (cd_code_factory c) \<or> nonempty_list (cd_code_class c) then Inr ()
         else Inl (Exn ValueError ''Code definition requires factory or class code''))
      else if cd_type c = ''agent'' then
        (if \<not> nonempty_list (cd_system_prompt c) \<and> \<not> nonempty_list (cd_tools c)
         then Inl (Exn ValueError ''Agent definition requires system_prompt or tools'') else Inr ())
      else if cd_type c = ''workflow'' then
        (if \<not> nonempty_list (cd_workflow_nodes c)
         then Inl (Exn ValueError ''Workflow definition requires nodes'') else Inr ())
      else Inr ())"

record run_request =
  rr_blueprint_id :: "string option"
  rr_blueprint :: "blueprint option"
  rr_max_parallel :: int

definition run_options_valid :: "int \<Rightarrow> bool" where
  "run_options_valid k \<longleftrightarrow> 1 \<le> k \<and> k \<le> 20"

definition at_least_one :: "run_request \<Rightarrow> run_request res" where
  "at_least_one q =
     (if rr_blueprint q = None \<and> rr_blueprint_id q = None
      then Inl (Exn ValueError ''Either blueprint or blueprint_id must be provided'') else Inr q)"

section \<open>Conversion to configurations\<close>

text \<open>\<open>model_validate\<close> is Pydantic's validation of the payload against the class of the type.\<close>

definition convert_node_spec :: "(node_type \<Rightarrow> node_spec \<Rightarrow> node res) \<Rightarrow> node_spec \<Rightarrow> node res" where
  "convert_node_spec model_validate spec =
     (if ns_type spec = '''' then Inl (Exn ValidationError ''NodeSpec.type is required for conversion'')
      else (case type_of_value (ns_type spec) of
          None \<Rightarrow> Inl (Exn (OtherError ''UnknownNodeTypeError'') (''Unknown node type '' @ sq (ns_type spec)))
        | Some t \<Rightarrow> (case model_validate t spec of
              Inl e \<Rightarrow> Inl (Exn ValidationError (exn_msg e)) | Inr n \<Rightarrow> Inr n)))"

definition empty_object :: "(string \<times> schema_entry) list" where
  "empty_object = [(''type'', Lit (VStr ''object'')), (''properties'', Lit (VDict []))]"

definition result_object :: "(string \<times> schema_entry) list" where
  "result_object = [(''type'', Lit (VStr ''object'')), (''properties'', Lit (VDict [(''result'', VDict [])]))]"

text \<open>A tool's schema method: \<open>None\<close> when it has none.\<close>

record 'o tool_schemas =
  tool_input :: "'o \<Rightarrow> (string \<times> schema_entry) list res option"
  tool_output :: "'o \<Rightarrow> (string \<times> schema_entry) list res option"

definition schema_or ::
  "(string \<times> schema_entry) list \<Rightarrow> (string \<times> schema_entry) list res option \<Rightarrow> (string \<times> schema_entry) list" where
  "schema_or dflt s = (case s of Some (Inr d) \<Rightarrow> if d = [] then dflt else d | _ \<Rightarrow> dflt)"

text \<open>\<open>reload\<close> is the last-resort loading of plugins, which may itself raise.\<close>

definition discover_tool_schemas ::
  "'o pyenv \<Rightarrow> 'o tool_schemas \<Rightarrow> ('o registry \<Rightarrow> 'o registry effect) \<Rightarrow> string \<Rightarrow> 'o registry
     \<Rightarrow> ((string \<times> schema_entry) list \<times> (string \<times> schema_entry) list) res \<times> 'o registry" where
  "discover_tool_schemas py ts reload name r =
     (let schemas = (\<lambda>t. (schema_or empty_object (tool_input ts t), schema_or result_object (tool_output ts t)))
      in case get_tool_instance py name [] r of
           (Inr t, r1) \<Rightarrow> (Inr (schemas t), r1)
         | (Inl e, r1) \<Rightarrow>
             (case reload r1 of
                (r2, Some _) \<Rightarrow> (Inl e, r2)
              | (r2, None) \<Rightarrow>
                  (case get_tool_instance py name [] r2 of
                     (Inr t, r3) \<Rightarrow> (Inr (schemas t), r3) | (Inl _, r3) \<Rightarrow> (Inl e, r3))))"

fun nonempty_dict :: "schema \<Rightarrow> bool" where
  "nonempty_dict (SDict d) = (d \<noteq> [])"
| "nonempty_dict _ = False"

fun is_placeholder :: "schema \<Rightarrow> bool" where
  "is_placeholder (SDict d) = (dict_get d ''properties'' = Some (Lit (VDict [(''result'', VDict [])])))"
| "is_placeholder _ = False"

definition fill_schemas ::
  "(string \<times> schema_entry) list \<Rightarrow> (string \<times> schema_entry) list \<Rightarrow> bool \<Rightarrow> base_config \<Rightarrow> base_config" where
  "fill_schemas i out force b =
     b\<lparr>input_schema := (if nonempty_dict (input_schema b) then input_schema b else SDict i),
       output_schema := (if \<not> nonempty_dict (output_schema b) \<or> force \<and> is_placeholder (output_schema b)
                         then SDict out else output_schema b)\<rparr>"

definition populate_tool_node_schemas ::
  "'o pyenv \<Rightarrow> 'o tool_schemas \<Rightarrow> ('o registry \<Rightarrow> 'o registry effect) \<Rightarrow> node \<Rightarrow> 'o registry
     \<Rightarrow> node res \<times> 'o registry" where
  "populate_tool_node_schemas py ts reload n r =
     (let b = base n
      in if nonempty_dict (input_schema b) \<and> nonempty_dict (output_schema b)
            \<and> \<not> is_placeholder (output_schema b) then (Inr n, r)
         else case kind n of
           KTool name args \<Rightarrow>
             (case discover_tool_schemas py ts reload name r of
                (Inr (i, out), r1) \<Rightarrow> (Inr (Node (fill_schemas i out True b) (kind n)), r1)
              | (Inl e, r1) \<Rightarrow>
                  (if exn_kind e = ValueError
                   then Inr (Node (fill_schemas empty_object result_object False b) (kind n))
                   else Inl e, r1))
         | _ \<Rightarrow> (Inr n, r))"

fun populate_all ::
  "'o pyenv \<Rightarrow> 'o tool_schemas \<Rightarrow> ('o registry \<Rightarrow> 'o registry effect) \<Rightarrow> node list \<Rightarrow> 'o registry
     \<Rightarrow> node list res \<times> 'o registry" where
  "populate_all py ts reload [] r = (Inr [], r)"
| "populate_all py ts reload (n # ns) r =
     (case (if node_type_of n = TTool then populate_tool_node_schemas py ts reload n r else (Inr n, r)) of
        (Inl e, r1) \<Rightarrow> (Inl e, r1)
      | (Inr m, r1) \<Rightarrow> (case populate_all py ts reload ns r1 of
            (Inl e, r2) \<Rightarrow> (Inl e, r2) | (Inr ms, r2) \<Rightarrow> (Inr (m # ms), r2)))"

definition convert_node_specs ::
  "'o pyenv \<Rightarrow> 'o tool_schemas \<Rightarrow> ('o registry \<Rightarrow> 'o registry effect) \<Rightarrow> (node_type \<Rightarrow> node_spec \<Rightarrow> node res)
     \<Rightarrow> node_spec list \<Rightarrow> 'o registry \<Rightarrow> node list res \<times> 'o registry" where
  "convert_node_specs py ts reload mv specs r =
     (case res_map (convert_node_spec mv) specs of
        Inl e \<Rightarrow> (Inl e, r) | Inr ns \<Rightarrow> populate_all py ts reload ns r)"

section \<open>Properties\<close>

definition refs_known :: "node_spec list \<Rightarrow> bool" where
  "refs_known nodes \<longleftrightarrow> (\<forall>n \<in> set nodes. set (ns_deps n) \<subseteq> ns_id ` set nodes)"

lemma missing_refs_nil: "missing_refs nodes = [] \<longleftrightarrow> refs_known nodes"
proof -
  have "missing_refs nodes = [] \<longleftrightarrow> (\<forall>n \<in> set nodes. \<forall>d \<in> set (ns_deps n). d \<in> set (map ns_id nodes))"
    unfolding missing_refs_def filter_empty_conv by auto
  then show ?thesis by (auto simp: refs_known_def)
qed

lemma edges_known: "refs_known nodes \<longleftrightarrow> fst ` set (bp_edges nodes) \<subseteq> ns_id ` set nodes"
proof -
  have "fst ` set (bp_edges nodes) = (\<Union>n \<in> set nodes. set (ns_deps n))"
    by (simp add: bp_edges_def image_UN image_image)
  then show ?thesis by (auto simp: refs_known_def)
qed

lemma validate_blueprint_ok:
  "validate_blueprint bp = Inr () \<longleftrightarrow>
     bp_version bp \<in> {''1.1.0'', ''1.2.0''} \<and> distinct (map ns_id (bp_nodes bp)) \<and>
     refs_known (bp_nodes bp) \<and> acyclic (set (bp_edges (bp_nodes bp)))"
proof -
  let ?nodes = "bp_nodes bp" let ?ids = "ns_id ` set ?nodes" let ?E = "set (bp_edges ?nodes)"
  obtain L deg where L: "kahn_count ?nodes = length L" "kahn_inv ?ids (bp_edges ?nodes) L [] deg"
    using kahn_count_spec by blast
  then have inv: "after_preds ?E L" "distinct L" "set L = {v \<in> ?ids. {u. (u, v) \<in> ?E} \<subseteq> set L}"
    by (auto simp: kahn_inv_def open_in_zero)
  have tgt: "snd ` ?E \<subseteq> ?ids" by (auto simp: bp_edges_def)
  have le: "length L \<le> card ?ids" "card ?ids \<le> length ?nodes"
    using inv(2,3) distinct_card[of L] card_mono[of ?ids "set L"] card_image_le[of "set ?nodes" ns_id]
      card_length[of ?nodes] by auto
  have "length L = length ?nodes \<longleftrightarrow> distinct (map ns_id ?nodes) \<and> refs_known ?nodes \<and> acyclic ?E"
  proof
    assume eq: "length L = length ?nodes"
    then have card: "card ?ids = length ?nodes" "card (set L) = card ?ids"
      using le distinct_card[OF inv(2)] by auto
    then have all: "set L = ?ids" using inv(3) by (intro card_subset_eq) auto
    have "distinct (map ns_id ?nodes)" using card(1) by (intro card_distinct) simp
    moreover have "fst ` ?E \<subseteq> ?ids" using inv(3) tgt unfolding all by force
    moreover have "acyclic ?E" using after_preds_acyclic[OF inv(1)] tgt all by simp
    ultimately show "distinct (map ns_id ?nodes) \<and> refs_known ?nodes \<and> acyclic ?E"
      by (simp add: edges_known)
  next
    assume r: "distinct (map ns_id ?nodes) \<and> refs_known ?nodes \<and> acyclic ?E"
    have "set L = ?ids"
    proof (rule ccontr)
      assume "set L \<noteq> ?ids"
      then obtain v where "v \<in> ?ids - set L" using inv(3) by auto
      moreover have "wf ?E" using r by (intro finite_acyclic_wf) auto
      ultimately obtain z where z: "z \<in> ?ids - set L" "\<And>u. (u, z) \<in> ?E \<Longrightarrow> u \<notin> ?ids - set L"
        by (meson wfE_min)
      moreover have "u \<in> ?ids" if "(u, z) \<in> ?E" for u using r that by (force simp: edges_known)
      ultimately have "{u. (u, z) \<in> ?E} \<subseteq> set L" by blast
      then show False using z(1) inv(3) by blast
    qed
    then show "length L = length ?nodes"
      using r distinct_card[OF inv(2)] distinct_card[of "map ns_id ?nodes"] by simp
  qed
  then show ?thesis using L(1) by (auto simp: validate_blueprint_def supported_versions_def)
qed

text \<open>(C13) \<open>validate_blueprint\<close> accepts exactly the blueprints of a supported version whose nodes
  have distinct ids and only dependencies that exist, and whose dependency graph is acyclic. In all
  other cases of a supported version it reports a circular dependency. Two versions are supported,
  of which the docstring names one as the only one allowed.\<close>

theorem validate_blueprint_exact:
  "validate_blueprint bp = Inr () \<longleftrightarrow>
     bp_version bp \<in> {''1.1.0'', ''1.2.0''} \<and> distinct (map ns_id (bp_nodes bp)) \<and>
     refs_known (bp_nodes bp) \<and> acyclic (set (bp_edges (bp_nodes bp)))"
  by (rule validate_blueprint_ok)

definition components_known :: "'o registry \<Rightarrow> node_spec list \<Rightarrow> bool" where
  "components_known r nodes \<longleftrightarrow> (\<forall>n \<in> set nodes. component_problem r n = Inr None)"

lemma check_components_spec:
  "check_components r ns p = (p', None) \<Longrightarrow> pb_nodes p' = pb_nodes p \<and> pb_id p' = pb_id p \<and>
     pb_metadata p' = pb_metadata p \<and> pb_complete p' = pb_complete p \<and>
     (pb_errors p' = [] \<longleftrightarrow> pb_errors p = [] \<and> components_known r ns)"
proof (induction ns arbitrary: p)
  case (Cons n ns)
  show ?case
  proof (cases "component_problem r n")
    case (Inr prob)
    then show ?thesis using Cons.IH Cons.prems
      by (cases prob) (auto simp: components_known_def dest!: Cons.IH)
  qed (use Cons.prems in simp)
qed (simp add: components_known_def)

text \<open>Incremental construction promises references, not order: after a node is added without an
  exception, \<open>to_blueprint\<close> succeeds exactly when all dependencies exist, no input is pending and
  every tool, agent and workflow named is registered. Cycles are not looked for.\<close>

theorem to_blueprint_exact:
  assumes "pb_add_node r p n = (q, None)"
  shows "(\<exists>bp. to_blueprint q = Inr bp) \<longleftrightarrow>
    refs_known (map pspec (pb_nodes p @ [n])) \<and> list_all (\<lambda>m. pending_error m = []) (pb_nodes p @ [n]) \<and>
    components_known r (map pspec (pb_nodes p @ [n]))"
proof -
  let ?ns = "pb_nodes p @ [n]"
  let ?errs = "dependency_errors (map pspec ?ns) @ concat (map pending_error ?ns)"
  let ?p1 = "p\<lparr>pb_nodes := ?ns, pb_complete := False, pb_errors := ?errs\<rparr>"
  obtain p2 e where run: "check_components r (map pspec ?ns) ?p1 = (p2, e)" by force
  have fin: "(q, None) = (case (p2, e) of (p2, Some e) \<Rightarrow> (p2, Some e)
             | (p2, None) \<Rightarrow> (if pb_errors p2 = []
                  then p2\<lparr>pb_complete := True, pb_suggestions := pb_suggestions p2
                         @ [''Blueprint is valid! Use to_blueprint() to finalize'']\<rparr>
                  else p2, None))"
    using assms run by (simp add: pb_add_node_def validate_incremental_def)
  then have p2: "check_components r (map pspec ?ns) ?p1 = (p2, None)"
    and q: "q = (if pb_errors p2 = [] then p2\<lparr>pb_complete := True, pb_suggestions := pb_suggestions p2
                         @ [''Blueprint is valid! Use to_blueprint() to finalize'']\<rparr> else p2)"
    using run by (auto split: option.splits)
  note spec = check_components_spec[OF p2]
  have comp: "pb_complete q \<longleftrightarrow> ?errs = [] \<and> components_known r (map pspec ?ns)"
    using spec q by auto
  have errs: "?errs = [] \<longleftrightarrow> refs_known (map pspec ?ns) \<and> list_all (\<lambda>m. pending_error m = []) ?ns"
    by (simp add: dependency_errors_def missing_refs_nil list_all_iff del: map_append)
  have "(\<exists>bp. to_blueprint q = Inr bp) \<longleftrightarrow> pb_complete q"
  proof
    assume c: "pb_complete q"
    then have "missing_refs (map pspec (pb_nodes q)) = []"
      using comp errs spec q by (simp add: missing_refs_nil split: if_splits)
    then show "\<exists>bp. to_blueprint q = Inr bp"
      using c by (simp add: to_blueprint_def blueprint_new_def validate_node_dependencies_def)
  qed (auto simp: to_blueprint_def split: if_splits)
  then show ?thesis using comp errs by blast
qed

definition cyc_a :: node_spec where
  "cyc_a = \<lparr>ns_id = ''a'', ns_type = ''llm'', ns_deps = [''b''], ns_extra = []\<rparr>"

definition cyc_b :: node_spec where
  "cyc_b = \<lparr>ns_id = ''b'', ns_type = ''llm'', ns_deps = [''a''], ns_extra = []\<rparr>"

definition cyc_partial :: partial_bp where
  "cyc_partial = (partial_new ''partial_bp_1'')\<lparr>pb_nodes := [PSpec cyc_a]\<rparr>"

theorem to_blueprint_exact_witness:
  "\<exists>bp. to_blueprint (fst (pb_add_node (registry_new :: nat registry) cyc_partial (PSpec cyc_b))) = Inr bp"
proof -
  let ?q = "fst (pb_add_node (registry_new :: nat registry) cyc_partial (PSpec cyc_b))"
  have q: "pb_add_node (registry_new :: nat registry) cyc_partial (PSpec cyc_b) = (?q, None)"
    by (simp add: pb_add_node_def validate_incremental_def cyc_partial_def partial_new_def cyc_a_def cyc_b_def
        dependency_errors_def missing_refs_def component_problem_def Let_def)
  show ?thesis unfolding to_blueprint_exact [OF q]
    by (simp add: cyc_partial_def partial_new_def refs_known_def components_known_def component_problem_def
        cyc_a_def cyc_b_def)
qed

text \<open>So a finished blueprint need not be executable: two nodes that depend on each other pass
  every incremental check and the blueprint's own validator, and fail \<open>validate_blueprint\<close>.\<close>

theorem finished_blueprint_may_be_cyclic:
  "let q = fst (pb_add_node (registry_new :: nat registry) cyc_partial (PSpec cyc_b))
   in pb_complete q \<and> pb_errors q = [] \<and>
      (case to_blueprint q of Inr bp \<Rightarrow> validate_blueprint bp =
          Inl (Exn (OtherError ''CircularDependencyError'') ''Blueprint contains circular dependencies'')
       | Inl _ \<Rightarrow> False)"
proof -
  have "fst (pb_add_node (registry_new :: nat registry) cyc_partial (PSpec cyc_b)) =
      \<lparr>pb_id = ''partial_bp_1'', pb_nodes = [PSpec cyc_a, PSpec cyc_b], pb_metadata = [], pb_complete = True,
       pb_errors = [], pb_suggestions = [''Blueprint is valid! Use to_blueprint() to finalize'']\<rparr>"
    by (simp add: pb_add_node_def validate_incremental_def cyc_partial_def partial_new_def cyc_a_def cyc_b_def
        dependency_errors_def missing_refs_def component_problem_def Let_def)
  moreover have "kahn_count [cyc_a, cyc_b] = 0"
    by (simp add: kahn_count_def kahn_init_def zero_degrees_def cyc_a_def cyc_b_def add_dep_def dict_get_or_def)
  ultimately show ?thesis
    by (simp add: to_blueprint_def blueprint_new_def validate_node_dependencies_def missing_refs_def
        validate_blueprint_def supported_versions_def cyc_a_def cyc_b_def)
qed

text \<open>Schema discovery lets the failure of an unknown tool through: for a tool node without
  schemas whose tool the registry cannot resolve, \<open>populate_tool_node_schemas\<close> raises the
  resolution error of the registry. The branch that would fall back to minimal schemas is for
  \<open>ValueError\<close>, and the registry raises none.\<close>

theorem unknown_tool_is_not_defaulted:
  assumes "kind n = KTool name args" "\<not> nonempty_dict (input_schema (base n))" "\<not> has_tool name r"
    and "reload r = (r, None)"
  shows "fst (populate_tool_node_schemas py ts reload n r) =
    Inl (tool_resolution_error name ''factory not registered'')"
  using assms
  by (simp add: populate_tool_node_schemas_def discover_tool_schemas_def get_tool_instance_def resolve_tool_def
      instance_of_def has_tool_def Let_def tool_resolution_error_def)

theorem unknown_tool_is_not_defaulted_witness:
  "fst (populate_tool_node_schemas demo_py \<lparr>tool_input = (\<lambda>_. None), tool_output = (\<lambda>_. None)\<rparr> (\<lambda>r. (r, None))
     (Node (default_base ''n'' []) (KTool ''nope'' [])) registry_new) =
   Inl (tool_resolution_error ''nope'' ''factory not registered'')"
  by (rule unknown_tool_is_not_defaulted [where args = "[]"])
     (simp_all add: default_base_def has_tool_def registry_new_def)

end
