(* ===== verification/Runs.thy ===== *)
theory Runs
  imports Workflow Blueprints "HOL-Library.Multiset"
begin

text \<open>
  Construction of a workflow (\<open>Workflow.__init__\<close>) and what its runs guarantee: dependencies before
  dependents, each node once, termination with a result, what success means, and when a run is lost
  to an exception.
\<close>

section \<open>Construction\<close>

text \<open>\<open>allowed\<close> is the attribute \<open>allowed_tools\<close>, which no node configuration can have.\<close>

definition validate_node_tool_access :: "(node \<Rightarrow> string list option) \<Rightarrow> node list \<Rightarrow> unit res" where
  "validate_node_tool_access allowed ns =
     (case find (\<lambda>n. allowed n \<noteq> None \<and> allowed n \<noteq> Some [] \<and> node_type_of n \<noteq> TAgent) ns of
        None \<Rightarrow> Inr ()
      | Some n \<Rightarrow> Inl (Exn ValidationError (''Node '' @ sq (node_id n) @ '' (type='' @ node_type_str n
                     @ '') cannot declare allowed_tools'')))"

definition build_workflow :: "nx \<Rightarrow> node list \<Rightarrow> 'x \<Rightarrow> ('x engine \<times> (int \<times> string list) list) res" where
  "build_workflow nx ns x =
     res_bind (validate_node_tool_access (\<lambda>_. None) ns) (\<lambda>_.
     res_bind (dep_graph_new nx ns) (\<lambda>g.
     res_bind (validate_schema_alignment ns (graph g)) (\<lambda>_.
     Inr (\<lparr>en_nodes = node_map ns, en_graph = g, en_run = None, en_outside = x\<rparr>, get_level_nodes g))))"

text \<open>The nodes come with their schemas filled in from the registry.\<close>

definition workflow_new ::
  "'o pyenv \<Rightarrow> 'o tool_schemas \<Rightarrow> ('o registry \<Rightarrow> 'o registry effect) \<Rightarrow> nx \<Rightarrow> node list \<Rightarrow> 'x \<Rightarrow> 'o registry
     \<Rightarrow> ('x engine \<times> (int \<times> string list) list) res \<times> 'o registry" where
  "workflow_new py ts reload nx nodes x r = (case populate_all py ts reload nodes r of
       (Inl e, r1) \<Rightarrow> (Inl e, r1) | (Inr ns, r1) \<Rightarrow> (build_workflow nx ns x, r1))"

definition fresh_run :: "'x estate \<Rightarrow> 'x run" where
  "fresh_run s = \<lparr>rn_results = [], rn_errors = [], rn_resolver = \<lparr>decisions = [], active_cache = []\<rparr>,
     rn_metrics = metrics_new, rn_state = s\<rparr>"

section \<open>Specification\<close>

text \<open>What a run is allowed to do: one more node at a time, each at most once, and only after all nodes
  it depends on.\<close>

inductive dag_run :: "(string \<times> string) set \<Rightarrow> string list \<Rightarrow> bool" for E where
  dag_run_Nil: "dag_run E []"
| dag_run_snoc: "dag_run E xs \<Longrightarrow> n \<notin> set xs \<Longrightarrow> (\<And>d. (d, n) \<in> E \<Longrightarrow> d \<in> set xs) \<Longrightarrow> dag_run E (xs @ [n])"

inductive_cases dag_run_snocE: "dag_run E (xs @ [n])"

lemma dag_run_distinct: "dag_run E xs \<Longrightarrow> distinct xs"
  by (induction rule: dag_run.induct) auto

lemma dag_run_before:
  "dag_run E xs \<Longrightarrow> n \<in> set xs \<Longrightarrow> (d, n) \<in> E \<Longrightarrow> \<exists>ys zs. xs = ys @ n # zs \<and> d \<in> set ys"
proof (induction rule: dag_run.induct)
  case dag_run_Nil
  then show ?case by simp
next
  case (dag_run_snoc xs m)
  show ?case
  proof (cases "n = m")
    case True
    then show ?thesis using dag_run_snoc by (intro exI[of _ xs] exI[of _ "[]"]) auto
  next
    case False
    then obtain ys zs where "xs = ys @ n # zs" "d \<in> set ys" using dag_run_snoc by auto
    then show ?thesis by (intro exI[of _ ys] exI[of _ "zs @ [m]"]) simp
  qed
qed

text \<open>A list that is sorted by a rank that grows along the edges, and closed under predecessors, is such a
  run, and so are its prefixes.\<close>

lemma ranked_dag_run:
  fixes rank :: "string \<Rightarrow> int"
  assumes "sorted (map rank zs)" "distinct zs" "\<And>d n. (d, n) \<in> E \<Longrightarrow> n \<in> set zs \<Longrightarrow> d \<in> set zs \<and> rank d < rank n"
  shows "prefix xs zs \<Longrightarrow> dag_run E xs"
proof (induction xs rule: rev_induct)
  case Nil
  show ?case by (rule dag_run_Nil)
next
  case (snoc n xs)
  then obtain ys where zs: "zs = xs @ n # ys" by (auto simp: prefix_def)
  show ?case
  proof (rule dag_run_snoc)
    show "dag_run E xs" using snoc by (auto dest: append_prefixD)
    show "n \<notin> set xs" using assms(2) zs by simp
    fix d assume "(d, n) \<in> E"
    then have "d \<in> set zs" "rank d < rank n" using assms(3) zs by auto
    then show "d \<in> set xs" using assms(1) zs by (auto simp: sorted_append)
  qed
qed

section \<open>Levels of a built workflow\<close>

lemma blocks_sorted:
  "sorted (map fst ls) \<Longrightarrow> (\<And>l ids i. (l, ids) \<in> set ls \<Longrightarrow> i \<in> set ids \<Longrightarrow> rank i = l) \<Longrightarrow>
     sorted (map rank (concat (map snd ls)))" for rank :: "string \<Rightarrow> int"
proof (induction ls)
  case (Cons p ls)
  obtain l ids where p: "p = (l, ids)" by fastforce
  have "map rank ids = replicate (length ids) l"
    using Cons.prems(2)[of l ids] p by (intro nth_equalityI) auto
  moreover have "l \<le> rank i" if i: "i \<in> set (concat (map snd ls))" for i
  proof -
    obtain q where q: "q \<in> set ls" "i \<in> set (snd q)" using i by auto
    then have "l \<le> fst q" using Cons.prems(1) p by simp
    then show ?thesis using Cons.prems(2)[of "fst q" "snd q" i] q by simp
  qed
  moreover have "sorted (map rank (concat (map snd ls)))" using Cons.prems by (intro Cons.IH) auto
  ultimately show ?case using p by (auto simp: sorted_append)
qed simp

lemma level_nodes_mem: "dict_wf lv \<Longrightarrow> (l, ids) \<in> set (level_nodes lv) \<Longrightarrow> ids = map fst (filter (\<lambda>p. snd p = l) lv)"
  using level_nodes_get[of lv l] level_nodes_wf[of lv]
  by (simp add: dict_get_or_def)

lemma level_nodes_ids:
  assumes "dict_wf lv"
  shows "distinct (concat (map snd (level_nodes lv)))" "set (concat (map snd (level_nodes lv))) = set (dict_keys lv)"
proof -
  have ids: "q \<in> set (level_nodes lv) \<Longrightarrow> snd q = map fst (filter (\<lambda>p. snd p = fst q) lv)" for q
    using level_nodes_mem[OF assms, of "fst q" "snd q"] by simp
  have fun_of: "p \<in> set lv \<Longrightarrow> q \<in> set lv \<Longrightarrow> fst p = fst q \<Longrightarrow> p = q" for p q
    by (cases p; cases q) (use assms in \<open>auto dest: eq_key_imp_eq_value\<close>)
  have disj: "fst q1 \<noteq> fst q2 \<Longrightarrow> q1 \<in> set (level_nodes lv) \<Longrightarrow> q2 \<in> set (level_nodes lv) \<Longrightarrow>
      set (snd q1) \<inter> set (snd q2) = {}" for q1 q2
    using ids[of q1] ids[of q2] fun_of by fastforce
  have one: "q \<in> set (level_nodes lv) \<Longrightarrow> distinct (snd q)" for q
    using ids[of q] distinct_map_filter[OF assms] by simp
  have "distinct (concat (map snd qs))" if "distinct (map fst qs)" "set qs \<subseteq> set (level_nodes lv)" for qs
    using that
  proof (induction qs)
    case (Cons q qs)
    have "set (snd q) \<inter> set (snd q') = {}" if q': "q' \<in> set qs" for q'
    proof (rule disj)
      show "fst q \<noteq> fst q'" using Cons.prems(1) q' by (metis distinct.simps(2) image_eqI list.set_map list.simps(9))
      show "q \<in> set (level_nodes lv)" "q' \<in> set (level_nodes lv)" using Cons.prems(2) q' by auto
    qed
    then have "set (snd q) \<inter> set (concat (map snd qs)) = {}" by auto
    moreover have "distinct (snd q)" using one[of q] Cons.prems(2) by simp
    moreover have "distinct (concat (map snd qs))" using Cons.prems by (intro Cons.IH) simp_all
    ultimately show ?case by simp
  qed simp
  then show "distinct (concat (map snd (level_nodes lv)))" using level_nodes_wf by blast
  show "set (concat (map snd (level_nodes lv))) = set (dict_keys lv)"
  proof (intro set_eqI iffI)
    fix i assume "i \<in> set (concat (map snd (level_nodes lv)))"
    then show "i \<in> set (dict_keys lv)" using ids by fastforce
  next
    fix i assume "i \<in> set (dict_keys lv)"
    then obtain l where l: "(i, l) \<in> set lv" by auto
    then obtain ids' where "(l, ids') \<in> set (level_nodes lv)"
      using level_nodes_keys[of lv l] by (force dest: map_of_SomeD)
    moreover from this have "i \<in> set ids'" using level_nodes_mem[OF assms] l by force
    ultimately show "i \<in> set (concat (map snd (level_nodes lv)))" by force
  qed
qed

lemma sort_key_blocks: "set (concat (map snd (sort_key f ls))) = set (concat (map snd ls))"
  "distinct (concat (map snd ls)) \<Longrightarrow> distinct (concat (map snd (sort_key f ls)))"
proof -
  show "set (concat (map snd (sort_key f ls))) = set (concat (map snd ls))" by simp
  have "mset (concat (map snd (sort_key f ls))) = mset (concat (map snd ls))"
    by (simp add: mset_concat flip: sum_mset_sum_list)
  then show "distinct (concat (map snd ls)) \<Longrightarrow> distinct (concat (map snd (sort_key f ls)))"
    using mset_eq_imp_distinct_iff by blast
qed

section \<open>What construction guarantees\<close>

text \<open>The graph library does what its documentation says, on the graph at hand.\<close>

definition library_ok :: "nx \<Rightarrow> node list \<Rightarrow> dep_graph \<Rightarrow> bool" where
  "library_ok nx ns g \<longleftrightarrow> paths_ok nx \<and> cycles_ok nx (graph g) \<and> topo_ok nx (cut_graph nx ns (graph g))"

lemma no_cuts:
  assumes "recursive_ids ns = {}"
  shows "cut_edges nx ns g = []" "cut_graph nx ns g = g"
proof -
  have "cut_recursive nx {} es (h, cuts) = (h, cuts)" for es h cuts
    by (induction es) (auto split: prod.splits)
  then show "cut_edges nx ns g = []" "cut_graph nx ns g = g"
    using assms by (simp_all add: cut_edges_def cut_graph_def)
qed

lemma initial_levels_keys: "dict_wf (initial_levels ns) \<and> set (dict_keys (initial_levels ns)) = node_id ` set ns"
proof -
  have "dict_wf lv \<Longrightarrow> dict_wf (foldl (\<lambda>lv n. dict_set (node_id n) (level (base n)) lv) lv ns) \<and>
      set (dict_keys (foldl (\<lambda>lv n. dict_set (node_id n) (level (base n)) lv) lv ns)) = set (dict_keys lv) \<union> node_id ` set ns" for lv
  proof (induction ns arbitrary: lv)
    case (Cons n ns)
    have "set (dict_keys (dict_set (node_id n) (level (base n)) lv)) = insert (node_id n) (set (dict_keys lv))"
      by (rule dict_keys_set)
    then show ?case using Cons.IH[OF dict_wf_set[OF Cons.prems], of "node_id n" "level (base n)"]
      by (simp del: set_map)
  qed simp
  from this[of "[]"] show ?thesis by (simp add: initial_levels_def)
qed

lemma level_after_keys:
  "dict_wf lv \<Longrightarrow> dict_wf (level_after m cuts n lv) \<and>
     set (dict_keys (level_after m cuts n lv)) = insert n (set (dict_keys lv))"
  unfolding level_after_def Let_def dict_keys_set by blast

lemma assign_levels_keys:
  assumes "set (fst (topological_sort nx (cut_graph nx ns g))) \<subseteq> node_id ` set ns"
  shows "dict_wf (assign_levels nx ns g) \<and> set (dict_keys (assign_levels nx ns g)) = node_id ` set ns"
proof -
  have "dict_wf lv \<Longrightarrow> dict_wf (foldl (\<lambda>lv n. level_after m cuts n lv) lv order) \<and>
      set (dict_keys (foldl (\<lambda>lv n. level_after m cuts n lv) lv order)) = set (dict_keys lv) \<union> set order" for m cuts lv order
  proof (induction order arbitrary: lv)
    case (Cons n order)
    note one = level_after_keys[OF Cons.prems, of m cuts n]
    show ?case using Cons.IH[OF conjunct1[OF one]] one by (simp del: set_map)
  qed simp
  from this[OF conjunct1[OF initial_levels_keys]] show ?thesis
    using initial_levels_keys[of ns] assms
    by (auto simp: assign_levels_def cut_graph_def Let_def case_prod_beta simp del: set_map)
qed

lemma built_graph:
  assumes "dep_graph_new nx ns = Inr g" "distinct (map node_id ns)" "library_ok nx ns g" "recursive_ids ns = {}"
  shows "dict_wf (node_levels g)" "set (dict_keys (node_levels g)) = node_id ` set ns"
    and "(d, n) \<in> dep_edges ns \<Longrightarrow> d \<in> node_id ` set ns \<and> n \<in> node_id ` set ns \<and>
      dict_get_or (node_levels g) d 0 < dict_get_or (node_levels g) n 0"
    and "set (gedges (graph g)) = dep_edges ns" "set (gnodes (graph g)) = node_id ` set ns"
proof -
  have b: "base_graph nx ns (graph g)" "check_cycles nx ns (graph g) = Inr ()"
    "node_levels g = assign_levels nx ns (graph g)"
    using dep_graph_new_cases[OF assms(1)] by auto
  note bg = base_graph_facts[OF b(1)]
  have lib: "paths_ok nx" "cycles_ok nx (graph g)" "topo_ok nx (cut_graph nx ns (graph g))"
    using assms(3) by (simp_all add: library_ok_def)
  have "acyclic (set (gedges (cut_graph nx ns (graph g))))" using cut_graph_acyclic[OF lib(1) bg(1) lib(2) b(2)] .
  then have "set (fst (topological_sort nx (cut_graph nx ns (graph g)))) = node_id ` set ns"
    using lib(3) bg(2) by (simp add: topo_ok_def no_cuts[OF assms(4)])
  then have "dict_wf (assign_levels nx ns (graph g)) \<and> set (dict_keys (assign_levels nx ns (graph g))) = node_id ` set ns"
    by (intro assign_levels_keys) simp
  then show "dict_wf (node_levels g)" "set (dict_keys (node_levels g)) = node_id ` set ns" using b(3) by auto
  show "set (gedges (graph g)) = dep_edges ns" "set (gnodes (graph g)) = node_id ` set ns" by (fact bg)+
  assume "(d, n) \<in> dep_edges ns"
  then obtain m where m: "m \<in> set ns" "n = node_id m" "d \<in> set (node_deps m)" by (auto simp: dep_edges_def)
  have "level_eq (node_levels g) (node_id m) (node_deps m)"
    using built_levels(1)[OF assms(1,2) m(1) lib] no_cuts[OF assms(4)] by simp
  then have "dict_get_or (node_levels g) d 0 < dict_get_or (node_levels g) n 0"
    using level_eq_less m(2,3) by blast
  moreover have "d \<in> node_id ` set ns" using bg(4) m by (auto simp: deps_known_def)
  ultimately show "d \<in> node_id ` set ns \<and> n \<in> node_id ` set ns \<and>
      dict_get_or (node_levels g) d 0 < dict_get_or (node_levels g) n 0" using m(1,2) by blast
qed

lemma built_order:
  assumes "dep_graph_new nx ns = Inr g" "distinct (map node_id ns)" "library_ok nx ns g" "recursive_ids ns = {}"
  defines "ls \<equiv> sort_key fst (get_level_nodes g)"
  shows "distinct (concat (map snd ls))" "set (concat (map snd ls)) = node_id ` set ns"
    and "prefix xs (concat (map snd ls)) \<Longrightarrow> dag_run (dep_edges ns) xs"
proof -
  note bg = built_graph[OF assms(1-4)]
  show d: "distinct (concat (map snd ls))" and s: "set (concat (map snd ls)) = node_id ` set ns"
    using level_nodes_ids[OF bg(1)] bg(2) sort_key_blocks[where f = fst and ls = "get_level_nodes g"]
    by (simp_all add: ls_def get_level_nodes_def)
  let ?rank = "\<lambda>i. dict_get_or (node_levels g) i 0"
  have "?rank i = l" if "(l, ids) \<in> set ls" "i \<in> set ids" for l ids i
  proof -
    have "(i, l) \<in> set (node_levels g)"
      using that level_nodes_mem[OF bg(1), of l ids] by (auto simp: ls_def get_level_nodes_def)
    then show ?thesis using bg(1) by (simp add: dict_get_or_def)
  qed
  then have "sorted (map ?rank (concat (map snd ls)))"
    by (intro blocks_sorted) (auto simp: ls_def)
  then show "prefix xs (concat (map snd ls)) \<Longrightarrow> dag_run (dep_edges ns) xs"
    using d s bg(3) by (intro ranked_dag_run[of ?rank]) (auto simp del: set_concat)
qed

section \<open>Runs of a built workflow\<close>

text \<open>A workflow as constructed, in an environment whose executors leave it alone and do not raise past
  the node executor, without recursive nodes and without token checks; no text of an exception that
  building a context raises is the id of a node.\<close>

definition messages_ok :: "'x wf_env \<Rightarrow> node list \<Rightarrow> bool" where
  "messages_ok env ns \<longleftrightarrow> (\<forall>n \<in> set ns. \<forall>acc t e. node_context env n acc t = Inl e \<longrightarrow> exn_msg e \<notin> node_id ` set ns)"

definition built_run :: "nx \<Rightarrow> node list \<Rightarrow> 'x wf_env \<Rightarrow> 'x estate \<Rightarrow> bool" where
  "built_run nx ns env s \<longleftrightarrow> distinct (map node_id ns) \<and> recursive_ids ns = {} \<and>
     (\<exists>x. build_workflow nx ns x = Inr (ex_world s, we_levels env)) \<and> library_ok nx ns (en_graph (ex_world s)) \<and>
     stable env \<and> \<not> ev_halt (ee_exec (we_engine env)) \<and> unmetered env \<and> messages_ok env ns"

lemma built_run_facts:
  assumes "built_run nx ns env s"
  shows "plain_run env s" "run_nodes s = node_map ns" "dep_graph_new nx ns = Inr (en_graph (ex_world s))"
    and "we_levels env = get_level_nodes (en_graph (ex_world s))" "set is \<subseteq> node_id ` set ns \<Longrightarrow> level_ids env s is"
proof -
  obtain x where b: "build_workflow nx ns x = Inr (ex_world s, we_levels env)"
    using assms by (auto simp: built_run_def)
  then obtain g where "dep_graph_new nx ns = Inr g" "we_levels env = get_level_nodes g"
    "ex_world s = \<lparr>en_nodes = node_map ns, en_graph = g, en_run = None, en_outside = x\<rparr>"
    by (auto simp: build_workflow_def res_bind_Inr_iff)
  then show w: "run_nodes s = node_map ns" "dep_graph_new nx ns = Inr (en_graph (ex_world s))"
    "we_levels env = get_level_nodes (en_graph (ex_world s))"
    by simp_all
  have d: "distinct (map node_id ns)" "recursive_ids ns = {}" "library_ok nx ns (en_graph (ex_world s))"
    using assms by (simp_all add: built_run_def)
  show "plain_run env s"
    using assms node_map_id[of ns] by (auto simp: plain_run_def built_run_def w(1) recursive_ids_def filter_empty_conv)
  show "level_ids env s is" if "set is \<subseteq> node_id ` set ns"
  proof -
    have "\<exists>n. dict_get (run_nodes s) i = Some n \<and> node_id n = i \<and> known s n \<and>
      (\<forall>acc t e. node_context env n acc t = Inl e \<longrightarrow> dict_get (run_nodes s) (exn_msg e) = None)" if i: "i \<in> set is" for i
    proof -
      obtain n where n: "n \<in> set ns" "node_id n = i" using i \<open>set is \<subseteq> _\<close> by auto
      have "dict_get (node_map ns) i = Some n" using node_map_get[OF d(1) n(1)] n(2) by simp
      moreover have "i \<in> set (dict_keys (node_levels (en_graph (ex_world s))))"
        using built_graph(2)[OF w(2) d(1,3,2)] n by auto
      moreover have "dict_get (node_map ns) (exn_msg e) = None" if "node_context env n acc t = Inl e" for acc t e
        using assms n(1) that node_map_dom[of ns "exn_msg e"] by (auto simp: built_run_def messages_ok_def)
      ultimately show ?thesis using n(2) w(1) by (auto simp: known_def dict_get_eq_None)
    qed
    then show ?thesis unfolding level_ids_def by blast
  qed
qed

lemma execute_cases:
  "execute env st = (Inr r, st1) \<Longrightarrow>
     run_levels env 1 (sort_key fst (we_levels env)) (st\<lparr>rn_results := [], rn_errors := []\<rparr>) = (Inr (), st1) \<and>
     (\<exists>leaf. r = chain_result st1 leaf)"
  by (auto simp: execute_def split: sum.splits list.splits prod.splits)

text \<open>(C1) A run that returns refines the specification of dependency-ordered runs: the results stand in the
  order of a sequence in which every node occurs at most once and after all of its dependencies; and
  when the run reports success, all nodes of the workflow have run, each with success.\<close>

theorem run_refines_dag_order:
  assumes "built_run nx ns env s" "execute env (fresh_run s) = (Inr r, st)"
  shows "dag_run (dep_edges ns) (dict_keys (rn_results st)) \<and> set (dict_keys (rn_results st)) \<subseteq> node_id ` set ns \<and>
    (nr_success r \<longrightarrow> set (dict_keys (rn_results st)) = node_id ` set ns \<and> (\<forall>e \<in> set (rn_results st). nr_success (snd e)))"
proof -
  let ?g = "en_graph (ex_world s)" and ?ls = "sort_key fst (we_levels env)"
  note f = built_run_facts[OF assms(1)]
  have b: "distinct (map node_id ns)" "library_ok nx ns ?g" "recursive_ids ns = {}"
    using assms(1) by (simp_all add: built_run_def)
  note order = built_order[OF f(3) b, folded f(4)]
  have run: "run_levels env 1 ?ls (fresh_run s) = (Inr (), st)" and r: "\<exists>leaf. r = chain_result st leaf"
    using execute_cases[OF assms(2)] by (simp_all add: fresh_run_def)
  have pre: "plain_run env (rn_state (fresh_run s))" "level_ids env (rn_state (fresh_run s)) (concat (map snd ?ls))"
    "all_true (active_cache (rn_resolver (fresh_run s)))"
    "set (concat (map snd ?ls)) \<inter> set (dict_keys (rn_results (fresh_run s))) = {}"
    using f(1) f(5)[of "concat (map snd ?ls)"] order(2) by (simp_all add: fresh_run_def all_true_def)
  obtain k where k: "dict_keys (rn_results st) = concat (map snd (take k ?ls))"
    "set (failures (rn_results st)) \<subseteq> set (rn_errors st)" "rn_errors st = [] \<longrightarrow> take k ?ls = ?ls"
    using run_levels_prefix[OF pre(1,2) order(1) pre(3,4) run] by (auto simp: fresh_run_def)
  have pf: "prefix (concat (map snd (take k ?ls))) (concat (map snd ?ls))"
    using append_take_drop_id[of k ?ls] by (metis concat_append map_append prefixI)
  then have "dag_run (dep_edges ns) (dict_keys (rn_results st))" using order(3) k(1) by simp
  moreover have "set (dict_keys (rn_results st)) \<subseteq> node_id ` set ns"
    using set_mono_prefix[OF pf] k(1) order(2) by simp
  moreover have "set (dict_keys (rn_results st)) = node_id ` set ns \<and> (\<forall>e \<in> set (rn_results st). nr_success (snd e))"
    if "nr_success r"
  proof -
    have "rn_errors st = []" using that r by (auto simp: chain_result_def)
    then show ?thesis using k order(2) failures_plain[of "rn_results st"] by simp
  qed
  ultimately show ?thesis by blast
qed

section \<open>Runs come to an end\<close>

text \<open>A recursion limit of the number of nodes suffices for the gating test.\<close>

lemma gating_run:
  "dag_run (set (gedges g)) xs \<Longrightarrow> n \<in> set xs \<Longrightarrow> length xs \<le> k \<Longrightarrow> all_true c \<Longrightarrow>
     \<exists>b c'. is_active k g c n = Some (b, c')"
proof (induction arbitrary: n k c rule: dag_run.induct)
  case dag_run_Nil
  then show ?case by simp
next
  case (dag_run_snoc xs m)
  show ?case
  proof (cases "n = m \<and> dict_get c n = None")
    case True
    obtain j where k: "k = Suc j" "length xs \<le> j" using dag_run_snoc.prems(2) by (cases k) auto
    have all: "set ds \<subseteq> set xs \<Longrightarrow> all_true c \<Longrightarrow> \<exists>b c'. all_active j g c ds = Some (b, c')" for ds c
    proof (induction ds arbitrary: c)
      case Nil
      then show ?case by (intro exI[of _ True] exI[of _ c]) simp
    next
      case (Cons d ds)
      obtain b c1 where d: "is_active j g c d = Some (b, c1)"
        using dag_run_snoc.IH[of d j c] k(2) Cons.prems by auto
      then have "b" "all_true c1" using active_true(1)[OF d Cons.prems(2)] by auto
      then show ?case using Cons.IH[of c1] Cons.prems(1) d by auto
    qed
    have "set (predecessors g n) \<subseteq> set xs" using dag_run_snoc.hyps(3) True by (auto simp: predecessors_def)
    then obtain b c' where "all_active j g c (predecessors g n) = Some (b, c')"
      using all dag_run_snoc.prems(3) by blast
    moreover have "dict_get c n = None" using True by (rule conjunct2)
    ultimately have "is_active k g c n = Some (b, dict_set n b c')" using k(1) by simp
    then show ?thesis by blast
  next
    case False
    obtain j where k: "k = Suc j" "length xs \<le> j" using dag_run_snoc.prems(2) by (cases k) auto
    show ?thesis
    proof (cases "dict_get c n")
      case None
      then show ?thesis using dag_run_snoc.IH[of n k c] dag_run_snoc.prems False k by auto
    next
      case (Some b)
      then show ?thesis using k by simp
    qed
  qed
qed

lemma active_ids_run:
  assumes "dag_run (set (gedges g)) xs" "length xs \<le> k"
  shows "set is \<subseteq> set xs \<Longrightarrow> all_true (active_cache rs) \<Longrightarrow> \<exists>a. active_ids k g is rs = Inr a"
proof (induction "is" arbitrary: rs)
  case Nil
  then show ?case by simp
next
  case (Cons i "is")
  obtain b c where b: "is_active k g (active_cache rs) i = Some (b, c)"
    using gating_run[OF assms(1) _ assms(2), of i "active_cache rs"] Cons.prems by auto
  then have "all_true c" using active_true(1)[OF b Cons.prems(2)] by simp
  then show ?case using Cons.IH[of "rs\<lparr>active_cache := c\<rparr>"] Cons.prems(1) b by (auto simp: is_node_active_def)
qed

lemma should_continue_returns:
  assumes "\<forall>i \<in> set (level_order levels). dict_get nodes i \<noteq> None"
  shows "\<exists>go. should_continue policy levels nodes errors = Inr go"
proof -
  have "\<forall>i \<in> set is. dict_get nodes i \<noteq> None \<Longrightarrow> \<exists>go. find_independent nodes failed is = Inr go" for failed "is"
    by (induction "is") auto
  then show ?thesis using assms by (auto simp: should_continue_def split: failure_policy.splits)
qed

text \<open>Building the context of a node never fails.\<close>

definition contexts_total :: "'x wf_env \<Rightarrow> node list \<Rightarrow> bool" where
  "contexts_total env ns \<longleftrightarrow> (\<forall>n \<in> set ns. \<forall>acc t. \<exists>ctx. node_context env n acc t = Inr ctx)"

lemma run_levels_return:
  fixes st :: "'x run"
  assumes "plain_run env (rn_state st)" "level_ids env (rn_state st) (concat (map snd ls))"
    and "distinct (concat (map snd ls))" "all_true (active_cache (rn_resolver st))"
    and "set (concat (map snd ls)) \<inter> set (dict_keys (rn_results st)) = {}"
    and "dag_run (set (gedges (graph (en_graph (ex_world (rn_state st)))))) xs" "length xs \<le> we_limit env"
    and "set (concat (map snd ls)) \<subseteq> set xs"
    and "\<forall>i \<in> set (level_order (we_levels env)). dict_get (run_nodes (rn_state st)) i \<noteq> None"
    and "\<And>n acc v. n \<in> set (map snd (run_nodes (rn_state st))) \<Longrightarrow> \<exists>ctx. node_context env n acc v = Inr ctx"
  shows "\<exists>st'. run_levels env idx ls st = (Inr (), st') \<and> skel (rn_state st') = skel (rn_state st)"
  using assms
proof (induction ls arbitrary: idx st)
  case Nil
  then show ?case by simp
next
  case (Cons p ls)
  obtain l ids where p: "p = (l, ids)" by fastforce
  show ?case
  proof (cases "depth_stop env idx")
    case (Some e)
    then show ?thesis using p by (simp add: add_error_def)
  next
    case None
    have ids: "level_ids env (rn_state st) ids" "distinct ids" "set ids \<inter> set (dict_keys (rn_results st)) = {}"
      "set ids \<subseteq> set xs" "level_ids env (rn_state st) (concat (map snd ls))"
      using Cons.prems(2,3,5,8) p by (auto simp: level_ids_def)
    obtain a where a: "active_ids (we_limit env) (graph (en_graph (ex_world (rn_state st)))) ids (rn_resolver st) = Inr a"
      using active_ids_run[OF Cons.prems(6,7) ids(4) Cons.prems(4)] by blast
    obtain st1 es where one: "run_level env idx ids st = (Inr (), st1)" "skel (rn_state st1) = skel (rn_state st)"
      "all_true (active_cache (rn_resolver st1))" "map fst es = ids" "rn_results st1 = rn_results st @ es"
      using run_level_exact[OF Cons.prems(1) ids(1,2) Cons.prems(4) ids(3) a, of idx] Cons.prems(10) by (metis Inl_Inr_False)
    have sk: "run_nodes (rn_state st1) = run_nodes (rn_state st)"
      "graph (en_graph (ex_world (rn_state st1))) = graph (en_graph (ex_world (rn_state st)))"
      using one(2) by (simp_all add: skeleton_def)
    obtain go where go: "should_continue (we_policy env) (we_levels env) (run_nodes (rn_state st1)) (rn_errors st1) = Inr go"
      using should_continue_returns Cons.prems(9) sk(1) by metis
    have "\<exists>st'. run_levels env (Suc idx) ls st1 = (Inr (), st') \<and> skel (rn_state st') = skel (rn_state st1)"
    proof (rule Cons.IH)
      show "plain_run env (rn_state st1)" using Cons.prems(1) plain_run_cong[OF one(2)] by simp
      show "level_ids env (rn_state st1) (concat (map snd ls))" using ids(5) level_ids_cong[OF one(2)] by simp
      show "distinct (concat (map snd ls))" "set (concat (map snd ls)) \<subseteq> set xs" using Cons.prems(3,8) by auto
      show "set (concat (map snd ls)) \<inter> set (dict_keys (rn_results st1)) = {}"
        using Cons.prems(3,5) p one(4,5) by auto
    qed (use one(3) Cons.prems sk in simp_all)
    then show ?thesis using p None one(1,2) go by (cases go) auto
  qed
qed

lemma node_map_values: "set (map snd (node_map ns)) \<subseteq> set ns"
proof -
  have vals: "set (map snd (dict_set k v d)) \<subseteq> insert v (set (map snd d))" for k and v :: node and d
    by (induction d) (simp, force split: if_splits)
  show ?thesis unfolding node_map_def
  proof (induction ns rule: rev_induct)
    case (snoc n ns)
    have "set (map snd (foldl (\<lambda>m n. dict_set (node_id n) n m) [] (ns @ [n]))) \<subseteq>
        insert n (set (map snd (foldl (\<lambda>m n. dict_set (node_id n) n m) [] ns)))"
      using vals by (simp only: foldl_append foldl.simps)
    also have "\<dots> \<subseteq> set (ns @ [n])" using snoc.IH by (auto simp del: set_map)
    finally show ?case .
  qed simp
qed

lemma last_is_leaf:
  assumes "dag_run (set (gedges g)) xs" "xs \<noteq> []" "set xs = set (gnodes g)" "snd ` set (gedges g) \<subseteq> set xs"
  shows "last xs \<in> set (filter (\<lambda>n. successors g n = []) (gnodes g))"
proof -
  have "n \<notin> set (successors g (last xs))" for n
  proof
    assume "n \<in> set (successors g (last xs))"
    then have e: "(last xs, n) \<in> set (gedges g)" by (auto simp: successors_def)
    then have "n \<in> set xs" using assms(4) by force
    then obtain ys zs where xs: "xs = ys @ n # zs" "last xs \<in> set ys" using dag_run_before[OF assms(1) _ e] by blast
    then have "last xs \<in> set (n # zs)" using last_in_set[of "n # zs"] by simp
    moreover have "set ys \<inter> set (n # zs) = {}"
      using dag_run_distinct[OF assms(1)] unfolding xs(1) by (simp only: distinct_append)
    ultimately show False using xs(2) by blast
  qed
  then have "successors g (last xs) = []" by (metis list.set_sel(1))
  moreover have "last xs \<in> set (gnodes g)" using last_in_set[OF assms(2)] unfolding assms(3) .
  ultimately show ?thesis by simp
qed

text \<open>Every level of a built workflow comes to its end, and there is a leaf to name the result after.\<close>

lemma run_ends:
  assumes "built_run nx ns env s" "contexts_total env ns" "ns \<noteq> []" "length ns \<le> we_limit env"
  shows "\<exists>r st. execute env (fresh_run s) = (Inr r, st)"
proof -
  let ?g = "en_graph (ex_world s)" and ?ls = "sort_key fst (we_levels env)"
  note f = built_run_facts[OF assms(1)]
  have b: "distinct (map node_id ns)" "library_ok nx ns ?g" "recursive_ids ns = {}"
    using assms(1) by (simp_all add: built_run_def)
  note order = built_order[OF f(3) b, folded f(4)] and graph = built_graph[OF f(3) b]
  let ?zs = "concat (map snd ?ls)"
  have run: "dag_run (set (gedges (graph ?g))) ?zs" using order(3)[OF prefix_order.refl] graph(4) by simp
  have len: "length ?zs = length ns"
    using distinct_card[OF order(1)] distinct_card[OF b(1)] order(2) by simp
  have known: "dict_get (node_map ns) i \<noteq> None" if "i \<in> set ?zs" for i
    unfolding node_map_dom order(2)[symmetric] by (rule that)
  have "\<exists>st'. run_levels env 1 ?ls (fresh_run s) = (Inr (), st') \<and> skel (rn_state st') = skel s"
  proof -
    have st: "rn_state (fresh_run s) = s" "rn_results (fresh_run s) = []" "active_cache (rn_resolver (fresh_run s)) = []"
      by (simp_all add: fresh_run_def)
    have ctx: "\<exists>ctx. node_context env n acc v = Inr ctx" if "n \<in> set (map snd (node_map ns))" for n acc v
      using subsetD[OF node_map_values that] assms(2) by (simp add: contexts_total_def)
    show ?thesis
      using run_levels_return[of env "fresh_run s" ?ls ?zs 1] f(1,5) f(2) order(1,2) run len assms(4) known ctx
      unfolding st level_order_def by (auto simp: all_true_def)
  qed
  then obtain st' where st': "run_levels env 1 ?ls (fresh_run s) = (Inr (), st')" "graph (en_graph (ex_world (rn_state st'))) = graph ?g"
    by (auto simp: skeleton_def)
  have "?zs \<noteq> []" using len assms(3) by (metis length_0_conv)
  then have "get_leaf_nodes (en_graph (ex_world (rn_state st'))) \<noteq> []"
    using last_is_leaf[OF run] order(2) graph(3,4,5) unfolding get_leaf_nodes_def st'(2) by force
  then show ?thesis using st'(1)
    by (auto simp: execute_def fresh_run_def split: list.splits)
qed

section \<open>A failed dependency\<close>

text \<open>An input that comes from a dependency which failed, or which has no result.\<close>

definition lost_input :: "node_result dict \<Rightarrow> imapping \<Rightarrow> bool" where
  "lost_input acc m \<longleftrightarrow> (\<exists>d key. mapping_fields m = Some (d, key) \<and> \<not> absent d \<and> \<not> absent key \<and>
     (\<exists>i. the d = VStr i \<and> (case dict_get acc i of None \<Rightarrow> True | Some r \<Rightarrow> \<not> nr_success r)))"

lemma map_inputs_lost:
  assumes "(p, m) \<in> set ms" "\<exists>msg. map_input show acc p m = Inr (Problem msg)"
  shows "(\<exists>e. map_inputs show acc ms = Inl e) \<or> (\<exists>os. map_inputs show acc ms = Inr os \<and> problems_of os \<noteq> [])"
  using assms(1)
proof (induction ms)
  case Nil
  then show ?case by simp
next
  case (Cons q ms)
  obtain p' m' where q: "q = (p', m')" by fastforce
  show ?case
  proof (cases "map_input show acc p' m'")
    case (Inl e)
    then show ?thesis by (simp add: map_inputs_def q res_bind_def)
  next
    case (Inr out)
    then show ?thesis
      using Cons assms(2) by (cases out) (auto simp: map_inputs_def q res_bind_def split: sum.splits)
  qed
qed

lemma lost_input_problem: "lost_input acc m \<Longrightarrow> \<exists>msg. map_input show acc p m = Inr (Problem msg)"
  by (auto simp: lost_input_def map_input_def split: option.splits)

text \<open>(C5) A failed dependency aborts the whole run: when a node of a level takes an input from a dependency that
  failed or has no result, building its context raises, the exception becomes a result whose key is its own
  text, and looking that key up among the nodes raises \<open>KeyError\<close> out of the run, whatever the failure
  policy and whatever the other nodes of the level do.\<close>

theorem failed_dependency_aborts_run:
  fixes st :: "'x run"
  assumes "plain_run env (rn_state st)" "level_ids env (rn_state st) is" "all_true (active_cache (rn_resolver st))"
    and "active_ids (we_limit env) (graph (en_graph (ex_world (rn_state st)))) is (rn_resolver st) = Inr a"
    and "i \<in> set is" "dict_get (run_nodes (rn_state st)) i = Some n"
    and "(p, m) \<in> set (input_mappings (base n))" "lost_input (rn_results st) m"
    and "depth_stop env idx = None"
  shows "\<exists>k st'. run_levels env idx ((l, is) # rest) st = (Inl (Exn KeyError k), st')"
proof -
  have "\<exists>e. node_context env n (rn_results st) v = Inl e" for v
    using map_inputs_lost[OF assms(7) lost_input_problem[OF assms(8)], of "ev_show (ee_exec (we_engine env))"]
    by (auto simp: node_context_def build_node_context_def build_mapped_context_def)
  then obtain k st' where "run_level env idx is st = (Inl (Exn KeyError k), st')"
    using run_level_lost[OF assms(1-6)] by blast
  then show ?thesis using assms(9) by simp
qed


section \<open>Witnesses\<close>

definition run_env :: "(int \<times> string list) list \<Rightarrow> unit wf_env" where
  "run_env ls = \<lparr>we_engine = demo_engine_env, we_name = ''chain'', we_levels = ls, we_policy = CONTINUE_POSSIBLE,
     we_token_ceiling = None, we_depth_ceiling = None, we_token_guard = None, we_depth_guard = None,
     we_metadata = (\<lambda>_. None), we_repr = exn_msg, we_schedule = (\<lambda>_. [0, 1, 0]), we_limit = 2, we_depth = 2\<rparr>"

lemma run_env_stable: "stable (run_env ls)"
  by (simp add: stable_def keeps_world_def run_env_def demo_engine_env_def)

lemma run_env_fields:
  "we_levels (run_env ls) = ls" "we_limit (run_env ls) = 2" "unmetered (run_env ls)"
  "\<not> ev_halt (ee_exec (we_engine (run_env ls)))" "depth_stop (run_env ls) idx = None"
  by (simp_all add: run_env_def demo_engine_env_def unmetered_def depth_stop_def)

lemma chain_context:
  "n \<in> set demo_chain \<Longrightarrow> \<exists>ctx. node_context (run_env ls) n acc t = Inr ctx"
  by (auto simp: node_context_def build_node_context_def build_mapped_context_def map_inputs_def
      demo_chain_def default_base_def)

text \<open>The chain of two nodes, built and run.\<close>

lemma chain_built:
  obtains s ls where "built_run chain_nx demo_chain (run_env ls) s"
proof -
  note defs = demo_chain_def chain_nx_def node_id_def node_deps_def default_base_def
  have "\<exists>dg. base_graph chain_nx demo_chain dg"
    using add_nodes_ok[of "node_map demo_chain" "map node_id demo_chain" demo_chain empty_graph]
    by (auto simp: base_graph_def deps_known_def defs)
  then obtain g where g: "dep_graph_new chain_nx demo_chain = Inr g"
    using dep_graph_new_ok[of chain_nx demo_chain] by (auto simp: check_cycles_def chain_nx_def)
  have b: "base_graph chain_nx demo_chain (graph g)" using dep_graph_new_cases[OF g] by blast
  have eq: "graph g = \<lparr>gnodes = [''a'', ''b''], gedges = [(''a'', ''b'')]\<rparr>"
    using b by (auto simp: base_graph_def defs empty_graph_def add_node_def add_edge_def insert_new_def)
  have norec: "recursive_ids demo_chain = {}" by (simp add: recursive_ids_def defs node_type_of_def)
  have "acyclic {(''a'', ''b'')}" by (simp add: wf_acyclic)
  then have "cycles_ok chain_nx (graph g)"
    using cycle_acyclic[of "{(''a'', ''b'')}"] by (auto simp: cycles_ok_def eq chain_nx_def)
  moreover have "topo_ok chain_nx (cut_graph chain_nx demo_chain (graph g))"
    unfolding no_cuts(2)[OF norec] by (auto simp: topo_ok_def topo_order_def chain_nx_def eq less_Suc_eq)
  ultimately have lib: "library_ok chain_nx demo_chain g" by (simp add: library_ok_def paths_ok_def chain_nx_def)
  have "validate_schema_alignment demo_chain (graph g) = Inr ()"
    by (simp add: eq validate_schema_alignment_def defs)
  then have w: "build_workflow chain_nx demo_chain () = Inr (\<lparr>en_nodes = node_map demo_chain, en_graph = g, en_run = None,
      en_outside = ()\<rparr>, get_level_nodes g)"
    using g by (simp add: build_workflow_def validate_node_tool_access_def find_None_iff[THEN iffD2])
  have "messages_ok (run_env ls) demo_chain" for ls
    unfolding messages_ok_def using chain_context by (metis Inl_Inr_False)
  moreover have "distinct (map node_id demo_chain)" by (simp add: defs)
  ultimately have "built_run chain_nx demo_chain (run_env (get_level_nodes g))
      (frame_of \<lparr>en_nodes = node_map demo_chain, en_graph = g, en_run = None, en_outside = ()\<rparr>)"
    unfolding built_run_def frame_of_world run_env_fields using w lib norec run_env_stable by (auto simp: run_env_fields)
  then show ?thesis by (rule that)
qed

lemma chain_contexts: "contexts_total (run_env ls) demo_chain"
  using chain_context by (auto simp: contexts_total_def)

theorem run_refines_dag_order_witness:
  "\<exists>ls s r st. execute (run_env ls) (fresh_run s) = (Inr r, st) \<and>
     dag_run (dep_edges demo_chain) (dict_keys (rn_results st)) \<and>
     set (dict_keys (rn_results st)) \<subseteq> node_id ` set demo_chain"
proof -
  obtain s ls where b: "built_run chain_nx demo_chain (run_env ls) s" by (rule chain_built)
  obtain r st where r: "execute (run_env ls) (fresh_run s) = (Inr r, st)"
    using run_ends[OF b chain_contexts] by (auto simp: demo_chain_def run_env_def)
  from run_refines_dag_order [OF b r] r show ?thesis by blast
qed

text \<open>A node \<open>c\<close> that reads the whole output of \<open>b\<close>, after \<open>b\<close> has failed.\<close>

definition lost_node :: node where
  "lost_node = Node ((default_base ''c'' [''b''])\<lparr>input_mappings := [(''x'', MInput ''b'' ''.'')]\<rparr>) (KTool ''t'' [])"

definition lost_run :: "unit run" where
  "lost_run = (fresh_run (frame_of (demo_engine lost_node)))
     \<lparr>rn_results := [(''b'', failure_result ''boom'' (meta ''b'' ''tool'' None 0))], rn_errors := [''Node b failed: boom'']\<rparr>"

theorem failed_dependency_aborts_run_witness:
  "\<exists>k st'. run_levels (run_env []) 2 [(1, [''c''])] lost_run = (Inl (Exn KeyError k), st')"
proof (rule failed_dependency_aborts_run [where i = "''c''" and n = lost_node and p = "''x''" and m = "MInput ''b'' ''.''"
      and a = "([''c''], \<lparr>decisions = [], active_cache = [(''c'', True)]\<rparr>)"])
  show "plain_run (run_env []) (rn_state lost_run)"
    using run_env_stable
    by (simp add: plain_run_def lost_run_def fresh_run_def run_env_def demo_engine_env_def unmetered_def frame_of_def
        demo_engine_def lost_node_def node_type_of_def)
  have "exn_msg e \<noteq> ''c''" if "node_context (run_env []) lost_node acc t = Inl e" for acc t e
    using that
    by (auto simp: node_context_def build_node_context_def build_mapped_context_def map_inputs_def map_input_def
        lost_node_def resolve_path_value_def resolve_nested_path_def absent_def res_bind_def split: option.splits if_splits)
  then show "level_ids (run_env []) (rn_state lost_run) [''c'']"
    by (auto simp: level_ids_def lost_run_def fresh_run_def known_def frame_of_def demo_engine_def lost_node_def
        node_id_def default_base_def)
  show "active_ids (we_limit (run_env [])) (graph (en_graph (ex_world (rn_state lost_run)))) [''c''] (rn_resolver lost_run) =
      Inr ([''c''], \<lparr>decisions = [], active_cache = [(''c'', True)]\<rparr>)"
    by (simp add: run_env_fields lost_run_def fresh_run_def frame_of_def demo_engine_def lost_node_def node_id_def
        default_base_def is_node_active_def predecessors_def numeral_2_eq_2)
qed (simp_all add: lost_run_def fresh_run_def frame_of_def demo_engine_def lost_node_def node_id_def default_base_def
      all_true_def lost_input_def absent_def failure_result_def depth_stop_def run_env_def)

end
