(* ===== verification/Service.thy ===== *)
theory Service
  imports Runs
begin

text \<open>
  The execution service (\<open>src/ice_orchestrator/services/workflow_execution_service.py\<close>): the policy that
  gives memory helpers to language-model nodes, and running a blueprint: policy, conversion, loading of
  first-party tools, construction of the workflow, run. The run is \<open>execute\<close>, which gives every task its turn; a
  run under the semaphores that ends is one of these (theory on runs under semaphores).

  Parameters (the record \<open>service_env\<close>): Pydantic's validation of node configurations, the objects of the
  registry, networkx, \<open>str()\<close>, the settings of a run, and the store that keeps its session context.
\<close>

section \<open>Memory-aware policy\<close>

definition memory_aware :: "node_spec \<Rightarrow> bool" where
  "memory_aware n \<longleftrightarrow> ns_type n = ''llm'' \<and> truth (dict_get_or (ns_extra n) ''memory_aware'' VNone)"

definition recent_id :: "string \<Rightarrow> string" where
  "recent_id i = ''recent_'' @ i"

definition write_id :: "string \<Rightarrow> string" where
  "write_id i = ''write_'' @ i"

definition recent_node :: "string \<Rightarrow> node_spec" where
  "recent_node i = \<lparr>ns_id = recent_id i, ns_type = ''tool'', ns_deps = [], ns_extra =
     [(''tool_name'', VStr ''recent_session_tool''),
      (''tool_args'', VDict [(''session_id'', VStr ''{{ inputs.session_id }}''), (''scope'', VStr ''library''),
         (''org_id'', VStr ''{{ inputs.org_id }}''), (''limit'', VInt 5)])]\<rparr>"

definition write_node :: "string \<Rightarrow> node_spec" where
  "write_node i = \<lparr>ns_id = write_id i, ns_type = ''tool'', ns_deps = [i], ns_extra =
     [(''tool_name'', VStr ''memory_write_tool''),
      (''tool_args'', VDict [(''key'', VStr (''chat:{{ inputs.session_id }}:'' @ i)), (''content'', VStr (''{{ '' @ i @ ''.response }}'')),
         (''scope'', VStr ''library''), (''org_id'', VStr ''{{ inputs.org_id }}''), (''user_id'', VStr ''{{ inputs.user_id }}'')])]\<rparr>"

definition memory_prefix :: "string \<Rightarrow> string" where
  "memory_prefix i = ''You are memory-aware. Use recent chat turns when helpful.'' @ [CHR 0x0A]
     @ ''Recent session items: {{ '' @ recent_id i @ ''['' @ sq ''items'' @ ''] }}'' @ [CHR 0x0A]"

definition with_memory :: "(val \<Rightarrow> string) \<Rightarrow> node_spec \<Rightarrow> node_spec" where
  "with_memory show n = n\<lparr>ns_deps := (if recent_id (ns_id n) \<in> set (ns_deps n) then ns_deps n else ns_deps n @ [recent_id (ns_id n)]),
     ns_extra := dict_set ''prompt'' (VStr (memory_prefix (ns_id n) @ (case dict_get (ns_extra n) ''prompt'' of None \<Rightarrow> '''' | Some v \<Rightarrow> show v)))
       (ns_extra n)\<rparr>"

fun apply_memory_policy :: "(val \<Rightarrow> string) \<Rightarrow> node_spec list \<Rightarrow> node_spec list" where
  "apply_memory_policy show [] = []"
| "apply_memory_policy show (n # ns) =
     (if memory_aware n then [with_memory show n, recent_node (ns_id n), write_node (ns_id n)] else [n]) @ apply_memory_policy show ns"

section \<open>Running a blueprint\<close>

record ('o, 'x) service_env =
  sv_py :: "'o pyenv"
  sv_schemas :: "'o tool_schemas"
  sv_reload :: "'o registry \<Rightarrow> 'o registry effect"
  sv_validate :: "node_type \<Rightarrow> node_spec \<Rightarrow> node res"
  sv_nx :: nx
  sv_show :: "val \<Rightarrow> string"
  sv_settings :: "'x wf_env"
  sv_frame :: "'x engine \<Rightarrow> 'x estate"
  sv_session :: "val dict \<Rightarrow> 'x \<Rightarrow> 'x"

record ('o, 'x) service =
  se_registry :: "'o registry"
  se_outside :: 'x
  se_started :: nat
  se_completed :: nat

text \<open>The inputs, at the top level and under \<open>inputs\<close>.\<close>

definition initial_context :: "val dict option \<Rightarrow> val dict" where
  "initial_context inputs = (case inputs of None \<Rightarrow> [] | Some d \<Rightarrow> if d = [] then [] else dict_set ''inputs'' (VDict d) d)"

text \<open>The run itself; both counters go up whether or not it raises.\<close>

definition counted_run :: "('o, 'x) service_env \<Rightarrow> string \<Rightarrow> 'x engine \<times> (int \<times> string list) list \<Rightarrow> ('o, 'x) service
    \<Rightarrow> node_result res \<times> ('o, 'x) service" where
  "counted_run env name w s =
     (let (a, rn) = execute ((sv_settings env)\<lparr>we_name := name, we_levels := snd w\<rparr>) (fresh_run (sv_frame env (fst w)))
      in (a, s\<lparr>se_outside := en_outside (ex_world (rn_state rn)), se_started := se_started s + 1, se_completed := se_completed s + 1\<rparr>))"

definition convert_with :: "('o, 'x) service_env \<Rightarrow> node_spec list \<Rightarrow> 'o registry \<Rightarrow> node list res \<times> 'o registry" where
  "convert_with env = convert_node_specs (sv_py env) (sv_schemas env) (sv_reload env) (sv_validate env)"

definition new_workflow :: "('o, 'x) service_env \<Rightarrow> node list \<Rightarrow> 'x \<Rightarrow> 'o registry
    \<Rightarrow> ('x engine \<times> (int \<times> string list) list) res \<times> 'o registry" where
  "new_workflow env = workflow_new (sv_py env) (sv_schemas env) (sv_reload env) (sv_nx env)"

text \<open>\<open>load_first_party_tools\<close> (\<open>src/ice_orchestrator/plugins.py\<close>) is kept for compatibility: it registers nothing
  and returns 0.\<close>

definition load_first_party_tools :: "'o registry \<Rightarrow> int \<times> 'o registry" where
  "load_first_party_tools r = (0, r)"

lemma load_first_party_registry [simp]: "snd (load_first_party_tools r) = r"
  by (simp add: load_first_party_tools_def)

text \<open>\<open>execute_blueprint\<close>: policy, conversion, first-party tools, construction, run.\<close>

definition execute_blueprint ::
  "('o, 'x) service_env \<Rightarrow> node_spec list \<Rightarrow> val dict option \<Rightarrow> string \<Rightarrow> ('o, 'x) service \<Rightarrow> node_result res \<times> ('o, 'x) service" where
  "execute_blueprint env specs inputs name s =
     (case convert_with env (apply_memory_policy (sv_show env) specs) (se_registry s) of
        (Inl e, r) \<Rightarrow> (Inl e, s\<lparr>se_registry := r\<rparr>)
      | (Inr nodes, r) \<Rightarrow>
          (case new_workflow env nodes (sv_session env (initial_context inputs) (se_outside s)) (snd (load_first_party_tools r)) of
            (Inl e, r1) \<Rightarrow> (Inl e, s\<lparr>se_registry := r1\<rparr>)
          | (Inr w, r1) \<Rightarrow> counted_run env name w (s\<lparr>se_registry := r1\<rparr>)))"

text \<open>A workflow that its caller built; the inputs join the metadata of its session.\<close>

definition execute_workflow ::
  "('o, 'x) service_env \<Rightarrow> 'x engine \<times> (int \<times> string list) list \<Rightarrow> val dict option \<Rightarrow> string \<Rightarrow> ('o, 'x) service
     \<Rightarrow> node_result res \<times> ('o, 'x) service" where
  "execute_workflow env w inputs name s =
     (let x = (if initial_context inputs = [] then en_outside (fst w) else sv_session env (initial_context inputs) (en_outside (fst w)))
      in counted_run env name ((fst w)\<lparr>en_outside := x\<rparr>, snd w) s)"

text \<open>The builder's blueprint, run under the builder's name.\<close>

definition execute_workflow_builder ::
  "('o, 'x) service_env \<Rightarrow> blueprint res \<Rightarrow> string \<Rightarrow> val dict option \<Rightarrow> ('o, 'x) service \<Rightarrow> node_result res \<times> ('o, 'x) service" where
  "execute_workflow_builder env built name inputs s = (case built of
       Inl e \<Rightarrow> (Inl e, s) | Inr bp \<Rightarrow> execute_blueprint env (bp_nodes bp) inputs name s)"

section \<open>What the policy does to the graph\<close>

definition aware_ids :: "node_spec list \<Rightarrow> string set" where
  "aware_ids ns = ns_id ` {n \<in> set ns. memory_aware n}"

definition helpers_fresh :: "node_spec list \<Rightarrow> bool" where
  "helpers_fresh ns \<longleftrightarrow> (\<forall>i \<in> aware_ids ns. recent_id i \<notin> ns_id ` set ns \<and> write_id i \<notin> ns_id ` set ns)"

lemma helper_ids [simp]:
  "recent_id i = recent_id j \<longleftrightarrow> i = j" "write_id i = write_id j \<longleftrightarrow> i = j" "recent_id i \<noteq> write_id j" "write_id j \<noteq> recent_id i"
  by (auto simp: recent_id_def write_id_def)

lemma helper_fields [simp]:
  "ns_id (with_memory show n) = ns_id n" "ns_id (recent_node i) = recent_id i" "ns_id (write_node i) = write_id i"
  "set (ns_deps (with_memory show n)) = insert (recent_id (ns_id n)) (set (ns_deps n))"
  "ns_deps (recent_node i) = []" "ns_deps (write_node i) = [i]"
  by (auto simp: with_memory_def recent_node_def write_node_def)

lemma aware_Cons [simp]: "aware_ids (n # ns) = (if memory_aware n then insert (ns_id n) (aware_ids ns) else aware_ids ns)"
  by (auto simp: aware_ids_def)

lemma policy_ids: "ns_id ` set (apply_memory_policy show ns) = ns_id ` set ns \<union> recent_id ` aware_ids ns \<union> write_id ` aware_ids ns"
  by (induction ns) (auto simp: aware_ids_def)

lemma bp_edges_mem: "(d, i) \<in> set (bp_edges ns) \<longleftrightarrow> (\<exists>n \<in> set ns. ns_id n = i \<and> d \<in> set (ns_deps n))"
  by (induction ns) (auto simp: bp_edges_def)

lemma policy_edges: "set (bp_edges (apply_memory_policy show ns)) =
    set (bp_edges ns) \<union> (\<lambda>i. (recent_id i, i)) ` aware_ids ns \<union> (\<lambda>i. (i, write_id i)) ` aware_ids ns"
proof (induction ns)
  case Nil
  then show ?case by (simp add: aware_ids_def)
next
  case (Cons n ns)
  have app: "set (bp_edges (xs @ ys)) = set (bp_edges xs) \<union> set (bp_edges ys)" for xs ys by (simp add: bp_edges_def)
  have one: "set (bp_edges [m]) = (\<lambda>d. (d, ns_id m)) ` set (ns_deps m)" for m by (auto simp: bp_edges_def)
  have "set (bp_edges (n # ns)) = (\<lambda>d. (d, ns_id n)) ` set (ns_deps n) \<union> set (bp_edges ns)"
    using app[of "[n]" ns] one[of n] by simp
  moreover have "set (bp_edges [a, b, c]) = set (bp_edges [a]) \<union> set (bp_edges [b]) \<union> set (bp_edges [c])" for a b c
    using app[of "[a]" "[b, c]"] app[of "[b]" "[c]"] by auto
  ultimately show ?case using Cons by (auto simp: app one simp del: append_Cons append_Nil)
qed

lemma policy_distinct:
  assumes "distinct (map ns_id ns)" "helpers_fresh ns"
  shows "distinct (map ns_id (apply_memory_policy show ns))"
proof -
  have "\<forall>i \<in> aware_ids ns. recent_id i \<notin> I \<and> write_id i \<notin> I \<Longrightarrow> ns_id ` set ns \<subseteq> I \<Longrightarrow> distinct (map ns_id ns)
      \<Longrightarrow> distinct (map ns_id (apply_memory_policy show ns))" for I
  proof (induction ns)
    case (Cons n ns)
    have "aware_ids ns \<subseteq> ns_id ` set ns" by (auto simp: aware_ids_def)
    with Cons show ?case by (auto simp: policy_ids split: if_splits)
  qed simp
  then show ?thesis using assms by (auto simp: helpers_fresh_def)
qed

text \<open>Sources and sinks added to a graph do not close a cycle.\<close>

lemma acyclic_source_sink:
  assumes "acyclic R" "R \<subseteq> V \<times> V" "S \<subseteq> (- V) \<times> V" "T \<subseteq> V \<times> (- V)"
    and "Domain S \<inter> Range T = {}"
  shows "acyclic (R \<union> S \<union> T)"
proof (rule acyclicI, intro allI notI)
  fix a assume loop: "(a, a) \<in> (R \<union> S \<union> T)\<^sup>+"
  have step: "(a, b) \<in> (R \<union> S \<union> T)\<^sup>+ \<Longrightarrow> a \<in> V \<Longrightarrow> b \<in> V \<and> (a, b) \<in> R\<^sup>+ \<or> b \<in> Range T" for a b
  proof (induction rule: trancl_induct)
    case (base y)
    then show ?case using assms(2-4) by blast
  next
    case (step y z)
    from step.IH[OF step.prems] show ?case
    proof
      assume y: "y \<in> V \<and> (a, y) \<in> R\<^sup>+"
      with step.hyps(2) have "(y, z) \<in> R \<or> z \<in> Range T" using assms(3) by blast
      then show ?thesis using y assms(2) trancl_into_trancl[of a y R z] by blast
    qed (use step.hyps(2) assms(2-5) in blast)
  qed
  have "a \<in> V"
  proof (rule ccontr)
    assume "a \<notin> V"
    obtain b c where "(a, b) \<in> R \<union> S \<union> T" "(c, a) \<in> R \<union> S \<union> T" using loop by (meson tranclD tranclD2)
    then have "a \<in> Domain S" "a \<in> Range T" using \<open>a \<notin> V\<close> assms(2-4) by blast+
    then show False using assms(5) by blast
  qed
  moreover have "Range T \<inter> V = {}" using assms(4) by blast
  ultimately show False using step[OF loop] assms(1) by (auto simp: acyclic_def)
qed

section \<open>Properties\<close>

text \<open>(C19) A valid blueprint whose ids leave room for the helpers stays valid under the policy.\<close>

theorem memory_policy_keeps_valid:
  assumes "validate_blueprint bp = Inr ()" "helpers_fresh (bp_nodes bp)"
  shows "validate_blueprint (bp\<lparr>bp_nodes := apply_memory_policy show (bp_nodes bp)\<rparr>) = Inr ()"
proof -
  let ?ns = "bp_nodes bp"
  have v: "bp_version bp \<in> {''1.1.0'', ''1.2.0''}" "distinct (map ns_id ?ns)" "refs_known ?ns" "acyclic (set (bp_edges ?ns))"
    using assms(1) unfolding validate_blueprint_ok by blast+
  have aware: "aware_ids ?ns \<subseteq> ns_id ` set ?ns" by (auto simp: aware_ids_def)
  have "set (bp_edges ?ns) \<subseteq> ns_id ` set ?ns \<times> ns_id ` set ?ns"
    using v(3) by (force simp: bp_edges_mem refs_known_def)
  then have "acyclic (set (bp_edges ?ns) \<union> (\<lambda>i. (recent_id i, i)) ` aware_ids ?ns \<union> (\<lambda>i. (i, write_id i)) ` aware_ids ?ns)"
    by (rule acyclic_source_sink[OF v(4)]) (use aware assms(2) in \<open>auto simp: helpers_fresh_def\<close>)
  moreover have "refs_known (apply_memory_policy show ?ns)"
    using v(3) aware unfolding edges_known policy_edges policy_ids by (auto simp: image_iff)
  ultimately show ?thesis
    unfolding validate_blueprint_ok using v(1) policy_distinct[OF v(2) assms(2)] by (simp add: policy_edges)
qed

text \<open>The fields that \<open>LLMNodeConfig\<close> declares; its \<open>model_config\<close> forbids all others.\<close>

definition llm_declared :: "string list" where
  "llm_declared = [''id'', ''type'', ''name'', ''dependencies'', ''level'', ''metadata'', ''provider'', ''timeout_seconds'',
     ''retries'', ''backoff_seconds'', ''retry_policy'', ''input_schema'', ''output_schema'', ''input_mappings'',
     ''output_mappings'', ''use_cache'', ''input_selection'', ''output_selection'', ''context_rules'', ''model'', ''prompt'',
     ''llm_config'', ''temperature'', ''max_tokens'', ''format_specifications'', ''coerce_output_types'',
     ''coerce_input_types'', ''output_format'', ''json_schema'']"

definition forbids_extra :: "(node_type \<Rightarrow> node_spec \<Rightarrow> node res) \<Rightarrow> bool" where
  "forbids_extra mv \<longleftrightarrow> (\<forall>n. \<not> set (dict_keys (ns_extra n)) \<subseteq> set llm_declared \<longrightarrow> (\<exists>e. mv TLlm n = Inl e))"

lemma res_map_fails: "x \<in> set xs \<Longrightarrow> f x = Inl e \<Longrightarrow> \<exists>e'. res_map f xs = Inl e'"
proof (induction xs)
  case (Cons y ys)
  then show ?case by (cases "f y") auto
qed simp

lemma policy_keeps: "n \<in> set ns \<Longrightarrow> memory_aware n \<Longrightarrow> with_memory show n \<in> set (apply_memory_policy show ns)"
  by (induction ns) auto

lemma policy_idle: "\<forall>n \<in> set ns. \<not> memory_aware n \<Longrightarrow> apply_memory_policy show ns = ns"
  by (induction ns) auto

text \<open>(C18) \<open>memory_aware\<close>, the field that asks for the policy, is not declared by \<open>LLMNodeConfig\<close> and stays in the
  node, so a blueprint with such a node is refused by the conversion before anything runs.\<close>

theorem memory_aware_blueprint_never_runs:
  assumes "forbids_extra (sv_validate env)" "n \<in> set specs" "memory_aware n"
  shows "\<exists>e. execute_blueprint env specs inputs name s = (Inl e, s)"
proof -
  let ?n = "with_memory (sv_show env) n"
  have "dict_get (ns_extra n) ''memory_aware'' \<noteq> None" using assms(3) by (cases "dict_get (ns_extra n) ''memory_aware''") (simp_all add: memory_aware_def dict_get_or_def)
  then have "dict_get (ns_extra ?n) ''memory_aware'' \<noteq> None" by (simp add: with_memory_def)
  then have "''memory_aware'' \<in> set (dict_keys (ns_extra ?n))" unfolding dict_get_eq_None by blast
  moreover have "''memory_aware'' \<notin> set llm_declared" by (simp add: llm_declared_def)
  ultimately obtain e where "sv_validate env TLlm ?n = Inl e" using assms(1) by (auto simp: forbids_extra_def simp del: list.set_map)
  moreover have "ns_type ?n = type_value TLlm" using assms(3) by (simp add: with_memory_def memory_aware_def)
  ultimately have "convert_node_spec (sv_validate env) ?n = Inl (Exn ValidationError (exn_msg e))"
    by (simp add: convert_node_spec_def del: type_value.simps) simp
  then obtain e' where "res_map (convert_node_spec (sv_validate env)) (apply_memory_policy (sv_show env) specs) = Inl e'"
    using res_map_fails[OF policy_keeps[OF assms(2,3)]] by metis
  then show ?thesis by (simp add: execute_blueprint_def convert_with_def convert_node_specs_def)
qed

section \<open>Instances\<close>

definition chatting :: node_spec where
  "chatting = \<lparr>ns_id = ''m'', ns_type = ''llm'', ns_deps = [], ns_extra = [(''prompt'', VStr ''hi''), (''memory_aware'', VBool True)]\<rparr>"

definition chat_bp :: blueprint where
  "chat_bp = \<lparr>bp_id = ''b'', bp_version = ''1.2.0'', bp_nodes = [chatting], bp_metadata = []\<rparr>"

lemma chatting_aware: "memory_aware chatting"
  by (simp add: memory_aware_def chatting_def dict_get_or_def)

theorem memory_policy_keeps_valid_witness:
  "validate_blueprint (chat_bp\<lparr>bp_nodes := apply_memory_policy val_text [chatting]\<rparr>) = Inr ()"
proof -
  have "validate_blueprint chat_bp = Inr ()"
    unfolding validate_blueprint_ok by (simp add: chat_bp_def chatting_def refs_known_def bp_edges_def acyclic_def)
  moreover have "helpers_fresh (bp_nodes chat_bp)"
    by (simp add: helpers_fresh_def chat_bp_def chatting_def aware_ids_def recent_id_def write_id_def)
  ultimately show ?thesis using memory_policy_keeps_valid [of chat_bp val_text] by (simp add: chat_bp_def)
qed

definition strict_validate :: "node_type \<Rightarrow> node_spec \<Rightarrow> node res" where
  "strict_validate t n = (if set (dict_keys (ns_extra n)) \<subseteq> set llm_declared
     then Inr (Node (default_base (ns_id n) (ns_deps n)) (KTool ''t'' [])) else Inl (Exn ValueError ''Extra inputs are not permitted''))"

theorem memory_aware_blueprint_never_runs_witness:
  "\<forall>(env :: (nat, unit) service_env) s. \<exists>e. execute_blueprint (env\<lparr>sv_validate := strict_validate\<rparr>) [chatting] None ''run'' s = (Inl e, s)"
proof (intro allI)
  fix env :: "(nat, unit) service_env" and s :: "(nat, unit) service"
  have "forbids_extra (sv_validate (env\<lparr>sv_validate := strict_validate\<rparr>))" by (simp add: forbids_extra_def strict_validate_def del: list.set_map)
  then show "\<exists>e. execute_blueprint (env\<lparr>sv_validate := strict_validate\<rparr>) [chatting] None ''run'' s = (Inl e, s)"
    by (rule memory_aware_blueprint_never_runs [where n = chatting]) (simp_all add: chatting_aware)
qed

end
