(* ===== verification/MemBase.thy ===== *)
theory MemBase
  imports Effects SafeEval Costs
begin

text \<open>
  What the agent memories share (\<open>src/ice_core/memory/memory_base_protocol.py\<close>): configuration,
  entries, the cost of an entry, and the abstract class as the contract \<open>agent_memory\<close>, which every
  memory satisfies and which the pools of shared memory rely on.

  Times are rational seconds. Parameters: \<open>str(v)\<close>, \<open>json.dumps(v)\<close>, the text of a time and the bytes of \<open>sha384\<close>.
\<close>

section \<open>Configuration and entries\<close>

record mem_config =
  mc_backend :: string
  mc_ttl :: "int option"
  mc_max :: "int option"
  mc_vectors :: bool
  mc_dim :: int

definition mem_config_default :: mem_config where
  "mem_config_default = \<lparr>mc_backend = ''redis'', mc_ttl = Some 3600, mc_max = Some 1000, mc_vectors = False, mc_dim = 384\<rparr>"

definition mem_config_valid :: "mem_config \<Rightarrow> bool" where
  "mem_config_valid c \<longleftrightarrow> 32 \<le> mc_dim c \<and> mc_dim c \<le> 8192"

record mem_entry =
  me_key :: string
  me_content :: val
  me_meta :: "val dict"
  me_time :: rat
  me_access :: int
  me_tokens :: int
  me_cost :: rat

record mem_env =
  mv_text :: "val \<Rightarrow> string"
  mv_json :: "val \<Rightarrow> string"
  mv_iso :: "rat \<Rightarrow> string"
  mv_sha384 :: "string \<Rightarrow> nat list"

text \<open>A quarter of the characters of a text counts as its tokens; other content has none.\<close>

fun content_tokens :: "val \<Rightarrow> int" where
  "content_tokens (VStr s) = int (length s) div 4"
| "content_tokens _ = 0"

definition content_cost :: "val \<Rightarrow> rat" where
  "content_cost c = token_cost ''gpt-3.5-turbo'' (content_tokens c) 0 ''openai''"

text \<open>\<open>metadata or {}\<close>\<close>

definition meta_or_empty :: "val dict option \<Rightarrow> val dict" where
  "meta_or_empty md = (case md of None \<Rightarrow> [] | Some d \<Rightarrow> d)"

definition entry_new :: "string \<Rightarrow> val \<Rightarrow> val dict \<Rightarrow> rat \<Rightarrow> int \<Rightarrow> rat \<Rightarrow> mem_entry" where
  "entry_new k c md now tok cost =
     \<lparr>me_key = k, me_content = c, me_meta = md, me_time = now, me_access = 0, me_tokens = tok, me_cost = cost\<rparr>"

definition meta_get :: "val dict \<Rightarrow> string \<Rightarrow> val" where
  "meta_get md k = dict_get_or md k VNone"

text \<open>\<open>if pattern\<close>: a pattern that is missing or empty selects every key.\<close>

definition selected :: "string option \<Rightarrow> string \<Rightarrow> bool" where
  "selected pattern k \<longleftrightarrow> (case pattern of None \<Rightarrow> True | Some p \<Rightarrow> prefix p k)"

lemma selected_simps [simp]: "selected None k" "selected (Some '''') k" "selected (Some p) k \<longleftrightarrow> prefix p k"
  by (simp_all add: selected_def)

text \<open>\<open>xs[:n]\<close>\<close>

definition slice_to :: "int \<Rightarrow> 'a list \<Rightarrow> 'a list" where
  "slice_to n xs = (if 0 \<le> n then take (nat n) xs else take (length xs - nat (- n)) xs)"

lemma set_slice_to: "set (slice_to n xs) \<subseteq> set xs"
  by (simp add: slice_to_def set_take_subset)

lemma slice_to_take: "0 \<le> n \<Longrightarrow> slice_to n xs = take (nat n) xs"
  by (simp add: slice_to_def)

text \<open>\<open>xs.sort(key=f, reverse=True)\<close>: equal elements keep their order.\<close>

definition sort_desc :: "('a \<Rightarrow> 'k :: linorder) \<Rightarrow> 'a list \<Rightarrow> 'a list" where
  "sort_desc f xs = rev (sort_key f (rev xs))"

lemma set_sort_desc [simp]: "set (sort_desc f xs) = set xs"
  by (simp add: sort_desc_def)

lemma length_sort_desc [simp]: "length (sort_desc f xs) = length xs"
  by (simp add: sort_desc_def)

lemma sorted_sort_desc: "sorted (rev (map f (sort_desc f xs)))"
  by (simp add: sort_desc_def rev_map)

lemma dict_keys_pop: "dict_keys (dict_pop k d) = filter (\<lambda>x. x \<noteq> k) (dict_keys d)"
  by (induction d) (auto simp: dict_pop_def)

lemma dict_get_snoc: "k \<notin> set (dict_keys d) \<Longrightarrow> dict_get (d @ [(k, v)]) k = Some v"
  by (induction d) auto

section \<open>Keys and iteration\<close>

text \<open>The key that a value is in a dictionary: numbers that are equal are one key, lists and dictionaries are none.\<close>

fun hash_key :: "val \<Rightarrow> val res" where
  "hash_key (VBool b) = Inr (VInt (if b then 1 else 0))"
| "hash_key (VFloat r) = Inr (if r = of_int \<lfloor>r\<rfloor> then VInt \<lfloor>r\<rfloor> else VFloat r)"
| "hash_key (VList vs) = Inl (Exn TypeError ''unhashable type: list'')"
| "hash_key (VDict d) = Inl (Exn TypeError ''unhashable type: dict'')"
| "hash_key v = Inr v"

fun py_iter :: "val \<Rightarrow> val list res" where
  "py_iter (VList vs) = Inr vs"
| "py_iter (VDict d) = Inr (map (\<lambda>p. VStr (fst p)) d)"
| "py_iter (VStr s) = Inr (map (\<lambda>c. VStr [c]) s)"
| "py_iter v = Inl (Exn TypeError (sq (type_name v) @ '' object is not iterable''))"

text \<open>\<open>x in v\<close>\<close>

fun py_in :: "val \<Rightarrow> val \<Rightarrow> bool res" where
  "py_in x (VStr s) = (case x of VStr t \<Rightarrow> Inr (str_contains t s) | _ \<Rightarrow> type_error)"
| "py_in x (VDict d) = res_bind (hash_key x) (\<lambda>k. Inr (\<exists>p \<in> set d. k = VStr (fst p)))"
| "py_in x (VList vs) = Inr (list_ex (py_eq x) vs)"
| "py_in x v = type_error"

text \<open>One filter of a search: \<open>if k in filters and not ok(filters[k]): return False\<close>.\<close>

definition wants :: "val dict \<Rightarrow> string \<Rightarrow> (val \<Rightarrow> bool res) \<Rightarrow> bool res \<Rightarrow> bool res" where
  "wants filters k ok rest = (case dict_get filters k of
       None \<Rightarrow> rest
     | Some v \<Rightarrow> res_bind (ok v) (\<lambda>b. if b then rest else Inr False))"

fun res_filter :: "('a \<Rightarrow> bool res) \<Rightarrow> 'a list \<Rightarrow> 'a list res" where
  "res_filter f [] = Inr []"
| "res_filter f (x # xs) = res_bind (f x) (\<lambda>b. res_bind (res_filter f xs) (\<lambda>ys. Inr (if b then x # ys else ys)))"

lemma res_filter_Inr: "res_filter f xs = Inr ys \<Longrightarrow> ys = filter (\<lambda>x. f x = Inr True) xs \<and> (\<forall>x \<in> set xs. \<exists>b. f x = Inr b)"
  by (induction xs arbitrary: ys) (auto simp: res_bind_Inr_iff)

text \<open>Loops that delete keys, the second counting those that were there.\<close>

fun delete_each :: "(string \<Rightarrow> ('s, bool) act) \<Rightarrow> string list \<Rightarrow> ('s, unit) act" where
  "delete_each del [] = act_ret ()"
| "delete_each del (k # ks) = act_bind (del k) (\<lambda>b. delete_each del ks)"

fun count_deleted :: "(string \<Rightarrow> ('s, bool) act) \<Rightarrow> string list \<Rightarrow> nat \<Rightarrow> ('s, nat) act" where
  "count_deleted del [] n = act_ret n"
| "count_deleted del (k # ks) n = act_bind (del k) (\<lambda>b. count_deleted del ks (if b then Suc n else n))"

section \<open>The contract of a memory\<close>

text \<open>
  \<open>keys\<close> are the keys in order. Without an exception what was stored reads back; deletion never raises,
  takes the key out and says whether it was there; the list of keys is cut off.
\<close>

locale agent_memory =
  fixes inv :: "'s \<Rightarrow> bool" and keys :: "'s \<Rightarrow> string list"
    and put :: "rat \<Rightarrow> string \<Rightarrow> val \<Rightarrow> val dict option \<Rightarrow> ('s, unit) act"
    and get :: "rat \<Rightarrow> string \<Rightarrow> ('s, mem_entry option) act"
    and del :: "string \<Rightarrow> ('s, bool) act"
    and listed :: "'s \<Rightarrow> string list"
  assumes put_get: "inv s \<Longrightarrow> put now k c md s = (Inr (), s') \<Longrightarrow>
      \<exists>e s''. get now k s' = (Inr (Some e), s'') \<and> me_key e = k \<and> me_content e = c"
    and del_total: "inv s \<Longrightarrow> \<exists>s'. del k s = (Inr (k \<in> set (keys s)), s') \<and> inv s' \<and> keys s' = filter (\<lambda>x. x \<noteq> k) (keys s)"
    and listed: "listed s = take 100 (keys s)"
    and keys_distinct: "inv s \<Longrightarrow> distinct (keys s)"
begin

text \<open>Deleting what is listed leaves what was not.\<close>

lemma delete_listed:
  assumes "inv s"
  shows "\<exists>s'. delete_each del ks s = (Inr (), s') \<and> inv s'
    \<and> keys s' = filter (\<lambda>x. x \<notin> set ks) (keys s)"
  using assms
proof (induction ks arbitrary: s)
  case (Cons k ks)
  obtain s1 where d: "del k s = (Inr (k \<in> set (keys s)), s1)" "inv s1" "keys s1 = filter (\<lambda>x. x \<noteq> k) (keys s)"
    using del_total[OF Cons.prems] by blast
  then show ?case using Cons.IH[OF d(2)] by (simp add: act_bind_def conj_commute)
qed simp

lemma delete_first_hundred:
  assumes "inv s"
  shows "\<exists>s'. delete_each del (listed s) s = (Inr (), s') \<and> inv s'
    \<and> keys s' = drop 100 (keys s)"
proof -
  let ?ks = "keys s"
  have "filter (\<lambda>x. x \<notin> set (take 100 ?ks)) (take 100 ?ks @ drop 100 ?ks) = drop 100 ?ks"
    using keys_distinct[OF assms] set_take_disj_set_drop_if_distinct[of ?ks 100 100]
    by (simp only: filter_append) (auto simp: filter_empty_conv filter_id_conv)
  then have "filter (\<lambda>x. x \<notin> set (listed s)) ?ks = drop 100 ?ks" by (simp add: listed)
  then show ?thesis using delete_listed[OF assms] by metis
qed

end

end
