(* ===== verification/Redis.thy ===== *)
theory Redis
  imports Policy "HOL-Library.Sublist"
begin

text \<open>
  The in-memory stand-in for Redis (\<open>_RedisStub\<close> in \<open>src/ice_api/redis_client.py\<close>): hashes,
  strings, lists, sets and streams, as a record that the operations update. What the API relies on of a
  store of hashes is a locale, which the stand-in satisfies.

  A set is a list without repetition, in some order: Python fixes none.
\<close>

section \<open>State\<close>

record redis =
  rd_hashes :: "string dict dict"
  rd_streams :: "(string \<times> string dict) list dict"
  rd_strings :: "string dict"
  rd_lists :: "string list dict"
  rd_sets :: "string list dict"

definition redis_new :: redis where
  "redis_new = \<lparr>rd_hashes = [], rd_streams = [], rd_strings = [], rd_lists = [], rd_sets = []\<rparr>"

section \<open>Hashes and strings\<close>

definition hset :: "string \<Rightarrow> string dict \<Rightarrow> redis \<Rightarrow> nat \<times> redis" where
  "hset k m r = (length m, r\<lparr>rd_hashes := dict_set k (dict_union (dict_get_or (rd_hashes r) k []) m) (rd_hashes r)\<rparr>)"

definition hget :: "string \<Rightarrow> string \<Rightarrow> redis \<Rightarrow> string option" where
  "hget k f r = dict_get (dict_get_or (rd_hashes r) k []) f"

definition hgetall :: "string \<Rightarrow> redis \<Rightarrow> string dict" where
  "hgetall k r = dict_get_or (rd_hashes r) k []"

text \<open>The fields that are there are removed and counted; an empty hash goes.\<close>

fun hdel_fields :: "string list \<Rightarrow> string dict \<Rightarrow> nat \<times> string dict" where
  "hdel_fields [] h = (0, h)"
| "hdel_fields (f # fs) h = (if dict_get h f = None then hdel_fields fs h
     else (let (n, h') = hdel_fields fs (dict_pop f h) in (Suc n, h')))"

definition hdel :: "string \<Rightarrow> string list \<Rightarrow> redis \<Rightarrow> nat \<times> redis" where
  "hdel k fs r = (case dict_get (rd_hashes r) k of
       None \<Rightarrow> (0, r)
     | Some h \<Rightarrow> (let (n, h') = hdel_fields fs h
         in (n, r\<lparr>rd_hashes := (if h' = [] then dict_pop k (rd_hashes r) else dict_set k h' (rd_hashes r))\<rparr>)))"

definition rd_exists :: "string \<Rightarrow> redis \<Rightarrow> bool" where
  "rd_exists k r \<longleftrightarrow> dict_get (rd_hashes r) k \<noteq> None \<or> dict_get (rd_streams r) k \<noteq> None
     \<or> dict_get (rd_strings r) k \<noteq> None \<or> dict_get (rd_lists r) k \<noteq> None \<or> dict_get (rd_sets r) k \<noteq> None"

definition rd_set :: "string \<Rightarrow> string \<Rightarrow> redis \<Rightarrow> bool \<times> redis" where
  "rd_set k v r = (True, r\<lparr>rd_strings := dict_set k v (rd_strings r)\<rparr>)"

definition rd_get :: "string \<Rightarrow> redis \<Rightarrow> string option" where
  "rd_get k r = dict_get (rd_strings r) k"

section \<open>Lists and sets\<close>

definition rpush :: "string \<Rightarrow> string \<Rightarrow> redis \<Rightarrow> nat \<times> redis" where
  "rpush k v r = (let l = dict_get_or (rd_lists r) k [] @ [v]
     in (length l, r\<lparr>rd_lists := dict_set k l (rd_lists r)\<rparr>))"

definition lpush :: "string \<Rightarrow> string \<Rightarrow> redis \<Rightarrow> nat \<times> redis" where
  "lpush k v r = (let l = v # dict_get_or (rd_lists r) k []
     in (length l, r\<lparr>rd_lists := dict_set k l (rd_lists r)\<rparr>))"

text \<open>Removal of the first \<open>n\<close> occurrences, from the front; for a negative count the index runs down
  from the end.\<close>

fun remove_first :: "nat \<Rightarrow> string \<Rightarrow> string list \<Rightarrow> string list" where
  "remove_first 0 v xs = xs"
| "remove_first n v [] = []"
| "remove_first (Suc n) v (x # xs) = (if x = v then remove_first n v xs else x # remove_first (Suc n) v xs)"

definition lrem :: "string \<Rightarrow> int \<Rightarrow> string \<Rightarrow> redis \<Rightarrow> nat \<times> redis" where
  "lrem k c v r =
     (let l = dict_get_or (rd_lists r) k [];
          l' = (if c = 0 then filter (\<lambda>x. x \<noteq> v) l
                else if 0 < c then remove_first (nat c) v l
                else rev (remove_first (nat (- c)) v (rev l)))
      in (length l - length l', r\<lparr>rd_lists := dict_set k l' (rd_lists r)\<rparr>))"

text \<open>\<open>xs[a:b]\<close> of Python.\<close>

definition py_slice :: "int \<Rightarrow> int \<Rightarrow> 'a list \<Rightarrow> 'a list" where
  "py_slice a b xs = (let n = int (length xs); clamp = (\<lambda>i. if i < 0 then max 0 (i + n) else min i n)
     in take (nat (clamp b - clamp a)) (drop (nat (clamp a)) xs))"

definition lrange :: "string \<Rightarrow> int \<Rightarrow> int \<Rightarrow> redis \<Rightarrow> string list" where
  "lrange k a b r = (let l = dict_get_or (rd_lists r) k []
     in py_slice a (if b = -1 then int (length l) else b + 1) l)"

definition sadd :: "string \<Rightarrow> string \<Rightarrow> redis \<Rightarrow> nat \<times> redis" where
  "sadd k v r = (let s = dict_get_or (rd_sets r) k []
     in (if v \<in> set s then 0 else 1, r\<lparr>rd_sets := dict_set k (List.insert v s) (rd_sets r)\<rparr>))"

definition smembers :: "string \<Rightarrow> redis \<Rightarrow> string list" where
  "smembers k r = dict_get_or (rd_sets r) k []"

definition ends_star :: "string \<Rightarrow> bool" where
  "ends_star p \<longleftrightarrow> p \<noteq> [] \<and> last p = CHR ''*''"

definition scan_iter :: "string \<Rightarrow> redis \<Rightarrow> string list" where
  "scan_iter p r = filter (\<lambda>k. if ends_star p then prefix (butlast p) k else k = p)
     (dict_keys (rd_strings r) @ dict_keys (rd_hashes r) @ dict_keys (rd_lists r) @ dict_keys (rd_sets r))"

section \<open>Streams\<close>

definition entry_id :: "nat \<Rightarrow> string" where
  "entry_id n = nat_str n @ ''-0''"

definition xadd :: "string \<Rightarrow> string dict \<Rightarrow> redis \<Rightarrow> string \<times> redis" where
  "xadd k d r = (let l = dict_get_or (rd_streams r) k []
     in (entry_id (length l), r\<lparr>rd_streams := dict_set k (l @ [(entry_id (length l), d)]) (rd_streams r)\<rparr>))"

text \<open>The entries with an id greater as a string, at most \<open>count\<close> of them (no bound for 0 or none).\<close>

definition xread_stream :: "string \<Rightarrow> string \<Rightarrow> nat \<Rightarrow> redis \<Rightarrow> (string \<times> string dict) list" where
  "xread_stream k after count r =
     (let es = filter (\<lambda>e. str_less after (fst e)) (dict_get_or (rd_streams r) k [])
      in if count = 0 then es else take count es)"

definition xread :: "(string \<times> string) list \<Rightarrow> nat \<Rightarrow> redis \<Rightarrow> (string \<times> (string \<times> string dict) list) list" where
  "xread streams count r = filter (\<lambda>(k, es). es \<noteq> []) (map (\<lambda>(k, after). (k, xread_stream k after count r)) streams)"


section \<open>A store of hashes\<close>

text \<open>What the API relies on: a field reads as last written, other keys and fields stay.\<close>

locale hash_store =
  fixes put :: "string \<Rightarrow> string dict \<Rightarrow> 's \<Rightarrow> 's"
    and get :: "string \<Rightarrow> string \<Rightarrow> 's \<Rightarrow> string option"
    and del :: "string \<Rightarrow> string list \<Rightarrow> 's \<Rightarrow> 's"
  assumes get_put: "dict_wf m \<Longrightarrow> get k f (put k' m s) =
      (if k = k' then case dict_get m f of None \<Rightarrow> get k f s | Some v \<Rightarrow> Some v else get k f s)"
    and get_del: "get k f (del k' fs s) = (if k = k' \<and> f \<in> set fs then None else get k f s)"
begin

lemma get_put_doc [simp]:
  "get k f (put k' [(''json'', d), (''lock'', l)] s) =
     (if k = k' \<and> f = ''json'' then Some d else if k = k' \<and> f = ''lock'' then Some l else get k f s)"
  by (simp add: get_put)

lemma get_put_json [simp]:
  "get k f (put k' [(''json'', d)] s) = (if k = k' \<and> f = ''json'' then Some d else get k f s)"
  by (simp add: get_put)

lemma get_del_other: "k \<noteq> k' \<Longrightarrow> get k f (del k' fs s) = get k f s"
  by (simp add: get_del)

end

lemma hdel_fields_get: "dict_get (snd (hdel_fields fs h)) f = (if f \<in> set fs then None else dict_get h f)"
  by (induction fs h rule: hdel_fields.induct) (auto split: prod.splits)

interpretation stub: hash_store "\<lambda>k m r. snd (hset k m r)" hget "\<lambda>k fs r. snd (hdel k fs r)"
proof
  fix m :: "string dict" and k k' f :: string and s :: redis
  assume "dict_wf m"
  then show "hget k f (snd (hset k' m s)) =
      (if k = k' then case dict_get m f of None \<Rightarrow> hget k f s | Some v \<Rightarrow> Some v else hget k f s)"
    by (cases "dict_get m f") (simp_all add: hget_def hset_def dict_get_or_def dict_get_union)
next
  fix k k' f :: string and fs :: "string list" and s :: redis
  show "hget k f (snd (hdel k' fs s)) = (if k = k' \<and> f \<in> set fs then None else hget k f s)"
  proof (cases "dict_get (rd_hashes s) k'")
    case None
    then show ?thesis by (simp add: hget_def hdel_def dict_get_or_def)
  next
    case (Some h)
    obtain n h' where h': "hdel_fields fs h = (n, h')" by fastforce
    have "dict_get h' f = (if f \<in> set fs then None else dict_get h f)" using hdel_fields_get[of fs h f] h' by simp
    then show ?thesis using Some h' by (auto simp: hget_def hdel_def dict_get_or_def simp del: dict_get_eq_None)
  qed
qed

lemma hget_hdel [simp]: "hget k f (snd (hdel k' fs s)) = (if k = k' \<and> f \<in> set fs then None else hget k f s)"
  by (rule stub.get_del)

lemma hgetall_hdel: "k \<noteq> k' \<Longrightarrow> hgetall k (snd (hdel k' fs s)) = hgetall k s"
  by (simp add: hgetall_def hdel_def dict_get_or_def split: option.split prod.split)

section \<open>Following a stream\<close>

text \<open>One round of the generator behind the events of a run (\<open>event_stream\<close> in
  \<open>src/ice_api/api/mcp.py\<close>): what it yields, the id it goes on from, and whether it returns.\<close>

fun sse_batch :: "(string \<times> string dict) list \<Rightarrow> string \<Rightarrow> string dict list \<times> string \<times> bool" where
  "sse_batch [] i = ([], i, False)"
| "sse_batch ((j, d) # es) i = (if dict_get d ''event'' = Some ''workflow.finished'' then ([d], j, True)
     else (let (ys, i', fin) = sse_batch es j in (d # ys, i', fin)))"

fun sse_follow :: "nat \<Rightarrow> string \<Rightarrow> string \<Rightarrow> redis \<Rightarrow> string dict list \<times> bool" where
  "sse_follow 0 k i r = ([], False)"
| "sse_follow (Suc n) k i r = (let (ys, i', fin) = sse_batch (xread_stream k i 10 r) i
     in if fin then (ys, True) else (let (zs, fin') = sse_follow n k i' r in (ys @ zs, fin')))"

text \<open>A stream as \<open>xadd\<close> builds it.\<close>

definition stamped :: "string dict list \<Rightarrow> (string \<times> string dict) list" where
  "stamped ds = map (\<lambda>i. (entry_id i, ds ! i)) [0..<length ds]"

lemma xadd_stamped:
  "dict_get_or (rd_streams r) k [] = stamped ds \<Longrightarrow>
     dict_get_or (rd_streams (snd (xadd k d r))) k [] = stamped (ds @ [d])"
  by (simp add: xadd_def Let_def dict_get_or_def stamped_def nth_append cong: map_cong)

text \<open>Ids compare as strings: nothing up to entry 89 follows \<open>9-0\<close>, and \<open>0-0\<close> does not follow itself.\<close>

lemma digit_char_code: "d < 10 \<Longrightarrow> (of_char (digit_char d) :: nat) = 48 + d"
proof -
  assume "d < 10"
  then have "d \<in> set [0..<10]" by simp
  then show ?thesis by (auto simp: digit_char_def upt_rec)
qed

lemma nat_str_small: "n < 10 \<Longrightarrow> nat_str n = [digit_char n]" "10 \<le> n \<Longrightarrow> n < 100 \<Longrightarrow> nat_str n = [digit_char (n div 10), digit_char (n mod 10)]"
  by (simp_all add: nat_str.simps[of n] nat_str.simps[of "n div 10"])

lemma digit_char_eq: "d < 10 \<Longrightarrow> e < 10 \<Longrightarrow> digit_char d = digit_char e \<longleftrightarrow> d = e"
  using digit_char_code[of d] digit_char_code[of e] by (metis add_left_cancel)

lemma dash_before_digit:
  assumes "d < 10"
  shows "str_less (CHR ''-'' # s) (digit_char d # t)"
proof -
  have "(of_char (CHR ''-'') :: nat) < of_char (digit_char d)" using digit_char_code[OF assms] by simp
  then show ?thesis by (simp only: str_less.simps if_True)
qed

lemma digit_less:
  assumes "d < 10" "e < 10"
  shows "str_less (digit_char d # s) (digit_char e # t) \<longleftrightarrow> d < e \<or> d = e \<and> str_less s t"
  using digit_char_eq[OF assms] digit_char_code[OF assms(1)] digit_char_code[OF assms(2)] by auto

lemma entry_order:
  assumes "i < 10" "j < 90"
  shows "str_less (entry_id i) (entry_id j) \<longleftrightarrow> (if j < 10 then i < j else i \<le> j div 10)"
proof (cases "j < 10")
  case True
  then show ?thesis using assms(1) digit_less[of i j "''-0''" "''-0''"]
    by (simp add: entry_id_def nat_str_small)
next
  case False
  then have j: "j div 10 < 10" "j mod 10 < 10" using assms(2) by auto
  have "str_less (digit_char i # ''-0'') (digit_char (j div 10) # digit_char (j mod 10) # ''-0'') \<longleftrightarrow> i \<le> j div 10"
    using digit_less[OF assms(1) j(1), of "''-0''" "digit_char (j mod 10) # ''-0''"] dash_before_digit[OF j(2), of "''0''" "''-0''"]
    by (simp only:) auto
  then show ?thesis using False assms by (simp add: entry_id_def nat_str_small)
qed

lemma follow_nothing: "xread_stream k i 10 r = [] \<Longrightarrow> sse_follow n k i r = ([], False)"
  by (induction n) simp_all

text \<open>The stand-in loses events of a run: a reader that has got as far as the tenth event gets nothing
  more while there are at most ninety, and one that starts from the beginning never gets the first, so
  that its stream does not end when the end of the run is the only event.\<close>

theorem stub_stream_loses_events:
  assumes "dict_get_or (rd_streams r) k [] = stamped ds" "length ds \<le> 90"
  shows "sse_follow n k ''9-0'' r = ([], False) \<and> (length ds \<le> 1 \<longrightarrow> sse_follow n k ''0-0'' r = ([], False))"
proof -
  have ids: "entry_id 9 = ''9-0''" "entry_id 0 = ''0-0''" by (simp_all add: entry_id_def nat_str_small digit_char_def)
  have "\<not> str_less ''9-0'' (entry_id j)" if "j < length ds" for j
    using entry_order[of 9 j] that assms(2) by (auto simp: ids simp del: str_less.simps)
  then have "xread_stream k ''9-0'' 10 r = []"
    using assms(1) by (simp add: xread_stream_def stamped_def filter_empty_conv del: str_less.simps)
  moreover have "xread_stream k ''0-0'' 10 r = []" if "length ds \<le> 1"
  proof -
    have "\<not> str_less ''0-0'' (entry_id j)" if "j < length ds" for j
      using entry_order[of 0 j] that \<open>length ds \<le> 1\<close> by (simp add: ids del: str_less.simps)
    then show ?thesis using assms(1) by (simp add: xread_stream_def stamped_def filter_empty_conv del: str_less.simps)
  qed
  ultimately show ?thesis using follow_nothing by blast
qed

theorem stub_stream_loses_events_witness:
  "sse_follow 7 ''stream:run_1'' ''0-0'' (snd (xadd ''stream:run_1'' [(''event'', ''workflow.finished''), (''payload'', ''{}'')] redis_new))
     = ([], False)"
proof -
  let ?r = "snd (xadd ''stream:run_1'' [(''event'', ''workflow.finished''), (''payload'', ''{}'')] redis_new)"
  have "dict_get_or (rd_streams ?r) ''stream:run_1'' [] = stamped [[(''event'', ''workflow.finished''), (''payload'', ''{}'')]]"
    by (simp add: xadd_def redis_new_def dict_get_or_def stamped_def)
  from stub_stream_loses_events [OF this] show ?thesis by simp
qed

end
