(* ===== verification/Access.thy ===== *)
theory Access
  imports Prelude
begin

text \<open>
  Who may call the API and how often: bearer tokens, scopes, allow and deny lists
  (\<open>src/ice_api/security.py\<close>) and the rate limiter in front of the routes
  (\<open>src/ice_api/dependencies.py\<close>). Environment variables, the clock, SHA-256 and the table of tokens are
  arguments.
\<close>

section \<open>Answers of a route\<close>

text \<open>An \<open>HTTPException\<close> with its status, or another exception that leaves the route.\<close>

datatype api_error = Http int string | Escaped exn

type_synonym 'a api = "api_error + 'a"

definition api_bind :: "'a api \<Rightarrow> ('a \<Rightarrow> 'b api) \<Rightarrow> 'b api" where
  "api_bind r f = (case r of Inl e \<Rightarrow> Inl e | Inr x \<Rightarrow> f x)"

lemma api_bind_simps [simp]: "api_bind (Inl e) f = Inl e" "api_bind (Inr x) f = f x"
  by (simp_all add: api_bind_def)

lemma api_bind_Inr_iff: "api_bind r f = Inr y \<longleftrightarrow> (\<exists>x. r = Inr x \<and> f x = Inr y)"
  by (cases r) simp_all

section \<open>Tokens\<close>

definition expected_token :: "bool \<Rightarrow> string \<Rightarrow> string" where
  "expected_token dev_allowed env =
     (let raw = str_strip env
      in if raw = ''dev-token'' \<and> \<not> dev_allowed then ''''
         else if raw \<noteq> '''' then raw else if dev_allowed then ''dev-token'' else '''')"

record token_row =
  tk_revoked :: bool
  tk_expires :: "rat option"
  tk_org :: "string option"
  tk_user :: "string option"
  tk_project :: "string option"
  tk_scopes :: "string option"

record claims =
  cl_org :: "string option"
  cl_user :: "string option"
  cl_project :: "string option"
  cl_scopes :: "string option"

definition resolve_token_identity ::
  "(string \<Rightarrow> string) \<Rightarrow> (string \<Rightarrow> token_row option res) \<Rightarrow> rat \<Rightarrow> string \<Rightarrow> claims option res" where
  "resolve_token_identity sha rows now token = res_bind (rows (sha token)) (\<lambda>row. Inr (case row of
       None \<Rightarrow> None
     | Some t \<Rightarrow>
         (if tk_revoked t then None
          else if (case tk_expires t of None \<Rightarrow> False | Some e \<Rightarrow> e \<le> now) then None
          else Some \<lparr>cl_org = tk_org t, cl_user = tk_user t, cl_project = tk_project t,
                     cl_scopes = (if tk_scopes t = Some '''' then None else tk_scopes t)\<rparr>)))"

definition bearer :: string where
  "bearer = ''Bearer ''"

definition require_auth ::
  "string \<Rightarrow> (string \<Rightarrow> claims option res) \<Rightarrow> string \<Rightarrow> string api" where
  "require_auth expected resolve header =
     (if take 7 header \<noteq> bearer then Inl (Http 401 ''Missing bearer token'')
      else let token = str_strip (drop 7 header)
      in if expected \<noteq> '''' \<and> token = expected then Inr token
         else (case resolve token of
                 Inr (Some c) \<Rightarrow> Inr token | _ \<Rightarrow> Inl (Http 403 ''Invalid token'')))"

definition require_scopes :: "string list \<Rightarrow> string list option \<Rightarrow> unit api" where
  "require_scopes required token_scopes =
     (if required = [] then Inr ()
      else (case token_scopes of
              None \<Rightarrow> Inl (Http 403 ''Insufficient scope'')
            | Some s \<Rightarrow> if s = [] \<or> \<not> set required \<subseteq> set s then Inl (Http 403 ''Insufficient scope'') else Inr ()))"

definition csv_env :: "string \<Rightarrow> string list" where
  "csv_env env = (let raw = str_strip env
     in if raw = '''' then [] else filter (\<lambda>p. p \<noteq> '''') (map str_strip (str_split '','' raw)))"

definition is_component_allowed :: "string list \<Rightarrow> string list \<Rightarrow> string \<Rightarrow> bool" where
  "is_component_allowed allowed denied name \<longleftrightarrow> (allowed = [] \<or> name \<in> set allowed) \<and> name \<notin> set denied"

section \<open>Rate limiter\<close>

type_synonym buckets = "((string \<times> string) \<times> rat list) list"

definition rate_limit :: "rat \<Rightarrow> nat \<Rightarrow> rat \<Rightarrow> string \<times> string \<Rightarrow> buckets \<Rightarrow> unit api \<times> buckets" where
  "rate_limit window mx now key b =
     (let recent = filter (\<lambda>t. now - t < window) (dict_get_or b key [])
      in if mx \<le> length recent then (Inl (Http 429 ''Rate limit exceeded''), dict_set key recent b)
         else (Inr (), dict_set key (recent @ [now]) b))"

text \<open>A sequence of requests: which of them pass.\<close>

fun limited :: "rat \<Rightarrow> nat \<Rightarrow> (rat \<times> string \<times> string) list \<Rightarrow> buckets \<Rightarrow> bool list" where
  "limited window mx [] b = []"
| "limited window mx ((now, key) # rs) b =
     (let (a, b') = rate_limit window mx now key b in (a = Inr ()) # limited window mx rs b')"

text \<open>The specification, on the log of the requests that passed: one passes when fewer than the maximum
  passed for the same key within the window before it.\<close>

definition recent_passes :: "rat \<Rightarrow> rat \<Rightarrow> string \<times> string \<Rightarrow> (rat \<times> string \<times> string) list \<Rightarrow> rat list" where
  "recent_passes window now key hist = map fst (filter (\<lambda>(t, k). k = key \<and> now - t < window) hist)"

fun sliding :: "rat \<Rightarrow> nat \<Rightarrow> (rat \<times> string \<times> string) list \<Rightarrow> (rat \<times> string \<times> string) list \<Rightarrow> bool list" where
  "sliding window mx [] hist = []"
| "sliding window mx ((now, key) # rs) hist =
     (let ok = length (recent_passes window now key hist) < mx
      in ok # sliding window mx rs (if ok then hist @ [(now, key)] else hist))"

text \<open>A bucket holds of the log what is still recent; it may have forgotten what is not.\<close>

definition buckets_log :: "rat \<Rightarrow> rat \<Rightarrow> buckets \<Rightarrow> (rat \<times> string \<times> string) list \<Rightarrow> bool" where
  "buckets_log window now b hist \<longleftrightarrow> (\<forall>key t'. now \<le> t' \<longrightarrow>
     filter (\<lambda>t. t' - t < window) (dict_get_or b key []) = recent_passes window t' key hist)"

lemma filter_recent: "now \<le> t' \<Longrightarrow>
    filter (\<lambda>t. t' - t < window) (filter (\<lambda>t. now - t < window) xs) = filter (\<lambda>t. t' - t < window) xs" for now :: rat
  by (auto intro!: filter_cong)

lemma limited_sliding:
  "sorted (now0 # map fst rs) \<Longrightarrow> buckets_log window now0 b hist \<Longrightarrow> limited window mx rs b = sliding window mx rs hist"
proof (induction rs arbitrary: now0 b hist)
  case Nil
  then show ?case by simp
next
  case (Cons r rs)
  obtain now key where r: "r = (now, key)" by (cases r) blast
  have now: "now0 \<le> now" "sorted (now # map fst rs)" using Cons.prems(1) r by auto
  let ?recent = "filter (\<lambda>t. now - t < window) (dict_get_or b key [])"
  have recent: "?recent = recent_passes window now key hist"
    using Cons.prems(2) now(1) unfolding buckets_log_def by blast
  have logs: "buckets_log window now (dict_set key (?recent @ xs) b) (hist @ map (\<lambda>t. (t, key)) xs)" for xs
    unfolding buckets_log_def
  proof (intro allI impI)
    fix key' t' assume t': "now \<le> t'"
    then have old: "filter (\<lambda>t. t' - t < window) (dict_get_or b key' []) = recent_passes window t' key' hist"
      using Cons.prems(2) now(1) order_trans unfolding buckets_log_def by blast
    show "filter (\<lambda>t. t' - t < window) (dict_get_or (dict_set key (?recent @ xs) b) key' []) =
        recent_passes window t' key' (hist @ map (\<lambda>t. (t, key)) xs)"
      using old filter_recent[OF t', of window "dict_get_or b key []"]
      by (cases "key' = key") (auto simp: dict_get_or_def recent_passes_def filter_map comp_def)
  qed
  show ?case
    using Cons.IH[OF now(2) logs[of "[]"]] Cons.IH[OF now(2) logs[of "[now]"]] recent
    by (auto simp: r rate_limit_def Let_def)
qed

text \<open>The limiter is the sliding window: on requests with growing times it lets pass exactly those with
  fewer than the maximum of passed requests of the same token and path within the window before.\<close>

theorem limiter_is_sliding_window:
  assumes "sorted (map fst rs)"
  shows "limited window mx rs [] = sliding window mx rs []"
proof (cases rs)
  case Nil
  then show ?thesis by simp
next
  case (Cons r rs')
  have "buckets_log window (fst r) [] []" by (simp add: buckets_log_def recent_passes_def dict_get_or_def)
  then show ?thesis using limited_sliding[of "fst r" rs window "[]" "[]" mx] assms Cons by simp
qed

theorem limiter_is_sliding_window_witness:
  "limited 10 1 [(0, ''t'', ''/p''), (1, ''t'', ''/p''), (2, ''u'', ''/p''), (10, ''t'', ''/p'')] [] = [True, False, True, True]"
  using limiter_is_sliding_window [of "[(0, ''t'', ''/p''), (1, ''t'', ''/p''), (2, ''u'', ''/p''), (10, ''t'', ''/p'')]" 10 1]
  by (simp add: recent_passes_def)

end
