(* ===== verification/Estimates.thy ===== *)
theory Estimates
  imports Nodes Costs
begin

text \<open>
  Cost estimates before a run (\<open>src/ice_orchestrator/execution/cost_estimator.py\<close>) and the list of
  allowed models they consult (\<open>src/ice_core/models/model_registry.py\<close>). Preflight checks compare the
  total of the averages with the budget.

  \<open>prov\<close> is the provider in the LLM configuration of a node. Floats are rationals, so that a truncation
  may differ by one where a product of floats is off.
\<close>

section \<open>Allowed models\<close>

definition allowed_models :: "(string \<times> provider) list" where
  "allowed_models = [(''gpt-4'', OPENAI), (''gpt-4.1'', OPENAI), (''gpt-4-turbo'', OPENAI), (''gpt-4o'', OPENAI),
     (''gpt-4-turbo-2024-04-09'', OPENAI), (''gpt-4.5-preview'', OPENAI), (''claude-4-sonnet'', ANTHROPIC),
     (''claude-4-opus'', ANTHROPIC), (''gemini-2.5-pro'', GOOGLE), (''deepseek-v3.1'', DEEPSEEK)]"

definition banned_models :: "string list" where
  "banned_models = [''gpt-3.5-turbo'', ''gpt-3.5'', ''gpt-3.5-turbo-0613'']"

definition is_allowed_model :: "string \<Rightarrow> bool" where
  "is_allowed_model m \<longleftrightarrow> m \<in> set (map fst allowed_models) \<and> m \<notin> set banned_models"

section \<open>Estimates\<close>

record node_estimate =
  es_node :: string
  es_type :: string
  es_min :: rat
  es_max :: rat
  es_avg :: rat
  es_tokens :: int
  es_calls :: int
  es_confidence :: rat
  es_notes :: "string list"

text \<open>\<open>min\<close>, \<open>avg\<close>, \<open>max\<close> of the tokens, and the average duration.\<close>

definition token_estimates :: "(node_type \<times> int \<times> int \<times> int) list" where
  "token_estimates = [(TLlm, 500, 1500, 4000), (TTool, 0, 0, 0), (TAgent, 2000, 5000, 10000), (TCondition, 0, 0, 0),
     (TWorkflow, 1000, 3000, 8000)]"

definition durations :: "(node_type \<times> rat) list" where
  "durations = [(TLlm, 2), (TTool, 1/2), (TAgent, 15), (TCondition, 5/100), (TWorkflow, 10)]"

definition estimate_generic :: "node \<Rightarrow> int \<Rightarrow> node_estimate" where
  "estimate_generic n ctx =
     (let (mn, av, mx) = (case map_of token_estimates (node_type_of n) of None \<Rightarrow> (100, 500, 1000) | Some t \<Rightarrow> t);
          avg = av + ctx; price = 2 / 1000 / 1000
      in \<lparr>es_node = node_id n, es_type = node_type_str n, es_min = of_int mn * price, es_max = of_int mx * price,
          es_avg = of_int avg * price, es_tokens = avg, es_calls = 1, es_confidence = 1/2,
          es_notes = [''Generic estimate for '' @ node_type_str n @ '' node'']\<rparr>)"

fun word_count :: "bool \<Rightarrow> string \<Rightarrow> int" where
  "word_count inside [] = 0"
| "word_count inside (c # cs) =
     (if is_space c then word_count False cs else (if inside then 0 else 1) + word_count True cs)"

text \<open>\<open>int(x)\<close>\<close>

definition int_of_float :: "rat \<Rightarrow> int" where
  "int_of_float x = (if x < 0 then - \<lfloor>- x\<rfloor> else \<lfloor>x\<rfloor>)"

definition prompt_tokens :: "llm_fields \<Rightarrow> int \<Rightarrow> int" where
  "prompt_tokens l ctx = int_of_float (of_int (word_count False (lm_prompt l)) * (13/10)) + ctx"

definition output_tokens :: "llm_fields \<Rightarrow> int" where
  "output_tokens l = (let m = (case lm_max_tokens l of None \<Rightarrow> 1000 | Some k \<Rightarrow> if k = 0 then 1000 else k)
     in int_of_float (of_int m * (7/10)))"

definition llm_provider :: "string option \<Rightarrow> string" where
  "llm_provider p = (case p of None \<Rightarrow> ''openai'' | Some s \<Rightarrow> if s = '''' then ''openai'' else s)"

definition estimate_llm :: "(llm_fields \<Rightarrow> string option) \<Rightarrow> node \<Rightarrow> llm_fields \<Rightarrow> int \<Rightarrow> node_estimate" where
  "estimate_llm prov n l ctx =
     (let p = prompt_tokens l ctx; out = output_tokens l; pr = llm_provider (prov l);
          cost = token_cost (lm_model l) p out pr;
          est = (\<lambda>mn mx av conf note. \<lparr>es_node = node_id n, es_type = ''llm'', es_min = mn, es_max = mx, es_avg = av,
             es_tokens = p + out, es_calls = 1, es_confidence = conf, es_notes = [note]\<rparr>)
      in if cost = 0 \<and> is_allowed_model (lm_model l)
         then est (1/2000) (3/2000) (1/1000) (7/10)
                (''Applied floor cost for '' @ lm_model l @ '' ('' @ pr @ '') to avoid zero-cost preflight'')
         else est (cost * (1/2)) (cost * (3/2)) cost (8/10) (''Using '' @ lm_model l @ '' via '' @ pr))"

definition estimate_tool :: "node \<Rightarrow> string \<Rightarrow> node_estimate" where
  "estimate_tool n name = \<lparr>es_node = node_id n, es_type = ''tool'', es_min = 0, es_max = 0, es_avg = 0, es_tokens = 0,
     es_calls = 0, es_confidence = 1, es_notes = [''Tool: '' @ name]\<rparr>"

definition estimate_node :: "(llm_fields \<Rightarrow> string option) \<Rightarrow> node \<Rightarrow> int \<Rightarrow> node_estimate" where
  "estimate_node prov n ctx = (case kind n of
       KLlm l \<Rightarrow> estimate_llm prov n l ctx
     | KTool name args \<Rightarrow> estimate_tool n name
     | _ \<Rightarrow> estimate_generic n ctx)"

definition estimate_duration :: "node list \<Rightarrow> rat" where
  "estimate_duration ns = (\<Sum>n \<leftarrow> ns. (case map_of durations (node_type_of n) of None \<Rightarrow> 1 | Some d \<Rightarrow> d) * (7/10))"

record workflow_estimate =
  we_min :: rat
  we_max :: rat
  we_avg :: rat
  we_tokens :: int
  we_calls :: int
  we_duration :: rat
  we_nodes :: "node_estimate dict"
  we_warnings :: "string list"

definition estimate_workflow_cost :: "(llm_fields \<Rightarrow> string option) \<Rightarrow> node list \<Rightarrow> int \<Rightarrow> workflow_estimate" where
  "estimate_workflow_cost prov ns ctx =
     (let es = foldl (\<lambda>d n. dict_set (node_id n) (estimate_node prov n ctx) d) [] ns; vs = map snd es
      in \<lparr>we_min = (\<Sum>e \<leftarrow> vs. es_min e), we_max = (\<Sum>e \<leftarrow> vs. es_max e), we_avg = (\<Sum>e \<leftarrow> vs. es_avg e),
          we_tokens = (\<Sum>e \<leftarrow> vs. es_tokens e), we_calls = (\<Sum>e \<leftarrow> vs. es_calls e),
          we_duration = estimate_duration ns, we_nodes = es,
          we_warnings = map (\<lambda>n. ''Low confidence estimate for '' @ node_id n)
            (filter (\<lambda>n. es_confidence (estimate_node prov n ctx) < 1/2) ns)\<rparr>)"

section \<open>The range of an estimate\<close>

lemma token_cost_nonneg: "0 \<le> p \<Longrightarrow> 0 \<le> c \<Longrightarrow> 0 \<le> token_cost m p c pr"
  by (auto simp: token_cost_def calculate_cost_def get_price_per_token_def pricing_table_def openai_prices_def
      split: option.splits)

lemma word_count_nonneg: "0 \<le> word_count b s"
  by (induction b s rule: word_count.induct) auto

text \<open>The average lies between the bounds for tools, LLM nodes, agents and sub-workflows, and above the
  upper bound for every other kind of node: the bounds leave out the tokens of the context.\<close>

theorem estimate_range:
  fixes prov :: "llm_fields \<Rightarrow> string option"
  assumes "\<And>l. kind n = KLlm l \<Longrightarrow> lm_max_tokens l \<noteq> None \<longrightarrow> 0 \<le> the (lm_max_tokens l)"
  defines "e \<equiv> estimate_node prov n 1000"
  shows "es_min e \<le> es_avg e \<and> (es_avg e \<le> es_max e \<longleftrightarrow> node_type_of n \<in> {TTool, TLlm, TAgent, TWorkflow})"
proof (cases "kind n")
  case (KLlm l)
  have "0 \<le> output_tokens l" using assms(1)[OF KLlm] by (auto simp: output_tokens_def int_of_float_def split: option.splits)
  moreover have "0 \<le> prompt_tokens l 1000" using word_count_nonneg[of False "lm_prompt l"] by (simp add: prompt_tokens_def int_of_float_def)
  ultimately have "0 \<le> token_cost (lm_model l) (prompt_tokens l 1000) (output_tokens l) (llm_provider (prov l))"
    by (rule token_cost_nonneg[rotated])
  then show ?thesis using KLlm by (simp add: e_def estimate_node_def estimate_llm_def node_type_of_def Let_def)
qed (simp_all add: e_def estimate_node_def estimate_tool_def estimate_generic_def node_type_of_def token_estimates_def)

theorem estimate_range_witness:
  "es_max (estimate_node (\<lambda>_. None) (Node (default_base ''c'' []) (KCondition ''x'' [] None)) 1000)
     < es_avg (estimate_node (\<lambda>_. None) (Node (default_base ''c'' []) (KCondition ''x'' [] None)) 1000)"
  using estimate_range [of "Node (default_base ''c'' []) (KCondition ''x'' [] None)" "\<lambda>_. None"]
  by (simp add: node_type_of_def not_le)

end
