(* ===== verification/Drafts.thy ===== *)
theory Drafts
  imports Redis Access Estimates Blueprints Schedule
begin

text \<open>
  The routes that build blueprints step by step and store them (\<open>src/ice_api/api/mcp.py\<close>): partial
  blueprints under an optimistic version lock, suggestions, finalisation, registration of blueprints, design
  sessions. A route takes the store and returns its answer with the store after it.

  Parameters (the record \<open>draft_env\<close>): Pydantic's JSON form of the models and its reading back, the JSON text
  that is hashed, SHA-256, the Pydantic validation of node configurations, the objects of the registry, and the
  settings of the deployment. With a Redis server every awaited command may let another request run;
  \<open>update_step\<close> is the update route cut at its commands.
\<close>

section \<open>Parameters and keys\<close>

record 'o draft_env =
  de_dump :: "partial_bp \<Rightarrow> string"
  de_load :: "string \<Rightarrow> partial_bp res"
  de_lock_text :: "partial_bp \<Rightarrow> string"
  de_bp_dump :: "blueprint \<Rightarrow> string"
  de_bp_load :: "string \<Rightarrow> blueprint res"
  de_sha :: "string \<Rightarrow> string"
  de_py :: "'o pyenv"
  de_schemas :: "'o tool_schemas"
  de_reload :: "'o registry \<Rightarrow> 'o registry effect"
  de_validate :: "node_type \<Rightarrow> node_spec \<Rightarrow> node res"
  de_check :: "val dict \<Rightarrow> string option"
  de_compiles :: "string \<Rightarrow> string option"
  de_provider :: "llm_fields \<Rightarrow> string option"
  de_budget :: "rat option"

definition bp_key :: "string \<Rightarrow> string" where
  "bp_key i = ''bp:'' @ i"

definition stream_key :: "string \<Rightarrow> string" where
  "stream_key i = ''stream:'' @ i"

definition partial_key :: "string \<Rightarrow> string" where
  "partial_key i = ''partial_bp:'' @ i"

text \<open>\<open>if not raw\<close>: a missing value and an empty one are the same.\<close>

definition present :: "string option \<Rightarrow> string option" where
  "present x = (if x = Some '''' then None else x)"

text \<open>An exception that no handler of the route catches.\<close>

definition escaping :: "'a res \<Rightarrow> 'a api" where
  "escaping r = (case r of Inl e \<Rightarrow> Inl (Escaped e) | Inr x \<Rightarrow> Inr x)"

definition lock_of :: "'o draft_env \<Rightarrow> partial_bp \<Rightarrow> string" where
  "lock_of env p = de_sha env (de_lock_text env p)"

definition write_partial :: "'o draft_env \<Rightarrow> partial_bp \<Rightarrow> redis \<Rightarrow> redis" where
  "write_partial env p s = snd (hset (partial_key (pb_id p)) [(''json'', de_dump env p), (''lock'', lock_of env p)] s)"

definition version_guard :: "string option \<Rightarrow> string option \<Rightarrow> unit api" where
  "version_guard client server =
     (if client = None then Inl (Http 428 ''Missing X-Version-Lock header'')
      else if present server = None \<or> client \<noteq> server then Inl (Http 409 ''Partial blueprint version conflict'')
      else Inr ())"

definition not_found :: "string \<Rightarrow> 'a api" where
  "not_found i = Inl (Http 404 (''Partial blueprint '' @ i @ '' not found''))"

section \<open>Creation and update\<close>

definition with_errors :: "'s effect \<Rightarrow> 's res" where
  "with_errors e = (case e of (p, None) \<Rightarrow> Inr p | (p, Some x) \<Rightarrow> Inl x)"

text \<open>\<open>i\<close> is the fresh id.\<close>

definition create_partial :: "'o draft_env \<Rightarrow> 'o registry \<Rightarrow> string \<Rightarrow> pnode option \<Rightarrow> redis \<Rightarrow> partial_bp api \<times> redis" where
  "create_partial env reg i initial s =
     (case escaping (case initial of None \<Rightarrow> Inr (partial_new i)
                     | Some n \<Rightarrow> with_errors (pb_add_node reg (partial_new i) n)) of
        Inl e \<Rightarrow> (Inl e, s)
      | Inr p \<Rightarrow> (Inr p, write_partial env p s))"

text \<open>\<open>node.model_dump()\<close>, and \<open>PartialNodeSpec(**d)\<close> with the types of its fields.\<close>

definition opt_strs :: "string list option \<Rightarrow> val" where
  "opt_strs x = (case x of None \<Rightarrow> VNone | Some l \<Rightarrow> VList (map VStr l))"

definition spec_dump :: "node_spec \<Rightarrow> val dict" where
  "spec_dump n = [(''id'', VStr (ns_id n)), (''type'', VStr (ns_type n)), (''dependencies'', VList (map VStr (ns_deps n)))]"

fun pnode_dump :: "pnode \<Rightarrow> val dict" where
  "pnode_dump (PSpec n) = spec_dump n @ ns_extra n"
| "pnode_dump (PPartial n p q s) = spec_dump n
     @ [(''pending_inputs'', opt_strs p), (''pending_outputs'', opt_strs q), (''suggestions'', opt_strs s)] @ ns_extra n"

definition invalid :: "'a res" where
  "invalid = Inl (Exn ValueError ''validation error for PartialNodeSpec'')"

fun as_str :: "val \<Rightarrow> string res" where
  "as_str (VStr s) = Inr s"
| "as_str _ = invalid"

fun as_strs :: "val \<Rightarrow> string list res" where
  "as_strs (VList vs) = res_map as_str vs"
| "as_strs _ = invalid"

definition as_opt_strs :: "val option \<Rightarrow> string list option res" where
  "as_opt_strs v = (case v of None \<Rightarrow> Inr None | Some VNone \<Rightarrow> Inr None | Some w \<Rightarrow> res_bind (as_strs w) (\<lambda>l. Inr (Some l)))"

definition pnode_fields :: "string list" where
  "pnode_fields = [''id'', ''type'', ''dependencies'', ''pending_inputs'', ''pending_outputs'', ''suggestions'']"

definition partial_node_of :: "val dict \<Rightarrow> pnode res" where
  "partial_node_of d =
     res_bind (case dict_get d ''id'' of None \<Rightarrow> invalid | Some v \<Rightarrow> as_str v) (\<lambda>i.
     res_bind (case dict_get d ''type'' of None \<Rightarrow> invalid | Some v \<Rightarrow> as_str v) (\<lambda>t.
     res_bind (case dict_get d ''dependencies'' of None \<Rightarrow> Inr [] | Some v \<Rightarrow> as_strs v) (\<lambda>ds.
     res_bind (as_opt_strs (dict_get d ''pending_inputs'')) (\<lambda>p.
     res_bind (as_opt_strs (dict_get d ''pending_outputs'')) (\<lambda>q.
     res_bind (as_opt_strs (dict_get d ''suggestions'')) (\<lambda>s.
       Inr (PPartial \<lparr>ns_id = i, ns_type = t, ns_deps = ds,
              ns_extra = filter (\<lambda>e. fst e \<notin> set pnode_fields) d\<rparr> p q s)))))))"

text \<open>The first node with the id takes the updates.\<close>

fun update_nodes :: "string \<Rightarrow> val dict \<Rightarrow> pnode list \<Rightarrow> pnode list res" where
  "update_nodes i u [] = Inr []"
| "update_nodes i u (n # ns) =
     (if ns_id (pspec n) = i then res_bind (partial_node_of (dict_union (pnode_dump n) u)) (\<lambda>m. Inr (m # ns))
      else res_bind (update_nodes i u ns) (\<lambda>ms. Inr (n # ms)))"

record pb_update =
  pu_action :: string
  pu_node :: "pnode option"
  pu_node_id :: "string option"
  pu_updates :: "val dict option"

definition apply_update :: "'o registry \<Rightarrow> pb_update \<Rightarrow> partial_bp \<Rightarrow> partial_bp res" where
  "apply_update reg u p =
     (if pu_action u = ''add_node'' \<and> pu_node u \<noteq> None then with_errors (pb_add_node reg p (the (pu_node u)))
      else if pu_action u = ''remove_node'' \<and> present (pu_node_id u) \<noteq> None
      then with_errors (validate_incremental reg
             (p\<lparr>pb_nodes := filter (\<lambda>n. ns_id (pspec n) \<noteq> the (pu_node_id u)) (pb_nodes p)\<rparr>))
      else if pu_action u = ''update_node'' \<and> present (pu_node_id u) \<noteq> None \<and> nonempty_list (pu_updates u)
      then res_bind (update_nodes (the (pu_node_id u)) (the (pu_updates u)) (pb_nodes p)) (\<lambda>ns.
             with_errors (validate_incremental reg (p\<lparr>pb_nodes := ns\<rparr>)))
      else if pu_action u = ''suggest'' then with_errors (validate_incremental reg p)
      else Inr p)"

text \<open>What the route does with the document and the lock it has read.\<close>

definition update_body ::
  "'o draft_env \<Rightarrow> 'o registry \<Rightarrow> string \<Rightarrow> string option \<Rightarrow> pb_update \<Rightarrow> string option \<Rightarrow> string option \<Rightarrow> partial_bp api" where
  "update_body env reg i client u raw server = (case present raw of
       None \<Rightarrow> not_found i
     | Some d \<Rightarrow> api_bind (escaping (de_load env d)) (\<lambda>p.
         api_bind (version_guard client server) (\<lambda>_. escaping (apply_update reg u p))))"

definition commit_update :: "'o draft_env \<Rightarrow> partial_bp api \<Rightarrow> redis \<Rightarrow> redis" where
  "commit_update env a s = (case a of Inl e \<Rightarrow> s | Inr p \<Rightarrow> write_partial env p s)"

definition update_partial ::
  "'o draft_env \<Rightarrow> 'o registry \<Rightarrow> string \<Rightarrow> string option \<Rightarrow> pb_update \<Rightarrow> redis \<Rightarrow> partial_bp api \<times> redis" where
  "update_partial env reg i client u s =
     (let a = update_body env reg i client u (hget (partial_key i) ''json'' s) (hget (partial_key i) ''lock'' s)
      in (a, commit_update env a s))"

text \<open>The same route, one command of the store at a time.\<close>

datatype update_task =
    UStart string "string option" pb_update
  | URead string "string option" pb_update "string option"
  | UWrite "partial_bp api"
  | UDone "partial_bp api"

fun update_step :: "'o draft_env \<Rightarrow> 'o registry \<Rightarrow> update_task \<Rightarrow> redis \<Rightarrow> update_task \<times> redis" where
  "update_step env reg (UStart i client u) s = (URead i client u (hget (partial_key i) ''json'' s), s)"
| "update_step env reg (URead i client u raw) s =
     (UWrite (update_body env reg i client u raw (hget (partial_key i) ''lock'' s)), s)"
| "update_step env reg (UWrite a) s = (UDone a, commit_update env a s)"
| "update_step env reg (UDone a) s = (UDone a, s)"

section \<open>Suggestions\<close>

record suggestion =
  sg_type :: string
  sg_reason :: string
  sg_confidence :: rat

definition list_hint :: "string list option \<Rightarrow> bool" where
  "list_hint x \<longleftrightarrow> (\<exists>s \<in> set (case x of None \<Rightarrow> [] | Some l \<Rightarrow> l). str_contains ''list'' (str_lower s) \<or> str_contains ''items'' (str_lower s))"

fun node_hint :: "pnode \<Rightarrow> bool" where
  "node_hint (PSpec n) = False"
| "node_hint (PPartial n p q s) = (list_hint q \<or> list_hint p)"

definition compute_suggestions :: "partial_bp \<Rightarrow> string list option \<Rightarrow> nat \<Rightarrow> suggestion list \<times> nat \<times> bool" where
  "compute_suggestions p allowed top_k =
     (let ok = map str_lower (if nonempty_list allowed then the allowed else [''tool'', ''llm'', ''condition'', ''loop'', ''parallel'']);
          n = length (pb_nodes p); hint = list_ex node_hint (pb_nodes p);
          add = (\<lambda>t reason conf. if t \<in> set ok then [\<lparr>sg_type = t, sg_reason = reason, sg_confidence = conf\<rparr>] else []);
          all = (if 0 < n then add ''llm'' ''Process outputs from previous nodes for summarization or transformation'' (65/100)
                   @ add ''tool'' ''Connect a downstream tool to use generated data'' (6/10) else [])
            @ (if 2 \<le> n then add ''parallel'' ''Split independent branches for concurrency'' (55/100) else [])
            @ (if hint then add ''loop'' ''Iterate over a collection output to process items'' (7/10) else [])
            @ (if 1 \<le> n then add ''condition'' ''Gate execution based on a boolean or expression'' (5/10) else [])
      in (take top_k all, n, hint))"

definition suggest_next ::
  "'o draft_env \<Rightarrow> string \<Rightarrow> string option \<Rightarrow> string list option \<Rightarrow> nat \<Rightarrow> bool \<Rightarrow> redis
     \<Rightarrow> (suggestion list \<times> nat \<times> bool) api \<times> redis" where
  "suggest_next env i client allowed top_k commit s = (case present (hget (partial_key i) ''json'' s) of
       None \<Rightarrow> (not_found i, s)
     | Some d \<Rightarrow> (case de_load env d of
           Inl e \<Rightarrow> (Inl (Escaped e), s)
         | Inr p \<Rightarrow>
             (let resp = compute_suggestions p allowed top_k
              in if \<not> commit then (Inr resp, s)
                 else case version_guard client (hget (partial_key i) ''lock'' s) of
                     Inl e \<Rightarrow> (Inl e, s)
                   | Inr _ \<Rightarrow> (Inr resp, write_partial env
                       (p\<lparr>pb_suggestions := map (\<lambda>x. sg_type x @ '': '' @ sg_reason x) (fst resp)\<rparr>) s))))"

definition get_partial :: "'o draft_env \<Rightarrow> string \<Rightarrow> redis \<Rightarrow> (partial_bp \<times> string option) api" where
  "get_partial env i s = (case present (hget (partial_key i) ''json'' s) of
       None \<Rightarrow> not_found i
     | Some d \<Rightarrow> api_bind (escaping (de_load env d)) (\<lambda>p. Inr (p, present (hget (partial_key i) ''lock'' s))))"

section \<open>Registration of blueprints\<close>

definition convert :: "'o draft_env \<Rightarrow> node_spec list \<Rightarrow> 'o registry \<Rightarrow> node list res \<times> 'o registry" where
  "convert env = convert_node_specs (de_py env) (de_schemas env) (de_reload env) (de_validate env)"

definition content_id :: "'o draft_env \<Rightarrow> blueprint \<Rightarrow> string" where
  "content_id env bp = ''bp_'' @ take 12 (de_sha env (de_bp_dump env bp))"

text \<open>The blueprint under its content id.\<close>

definition stored_bp :: "'o draft_env \<Rightarrow> blueprint \<Rightarrow> blueprint" where
  "stored_bp env bp = bp\<lparr>bp_id := content_id env bp\<rparr>"

definition write_blueprint :: "'o draft_env \<Rightarrow> blueprint \<Rightarrow> redis \<Rightarrow> redis" where
  "write_blueprint env bp s =
     snd (hset (bp_key (content_id env bp)) [(''json'', de_bp_dump env (stored_bp env bp))] s)"

text \<open>The checks that a blueprint passes before it is stored or run: the design-time checks, conversion
  (\<open>validate_runtime\<close>), conversion again and the checks of every node.\<close>

definition check_blueprint :: "'o draft_env \<Rightarrow> blueprint \<Rightarrow> 'o registry \<Rightarrow> node list res \<times> 'o registry" where
  "check_blueprint env bp reg = (case validate_blueprint bp of
       Inl e \<Rightarrow> (Inl e, reg)
     | Inr _ \<Rightarrow> (case convert env (bp_nodes bp) reg of
           (Inl e, r1) \<Rightarrow> (Inl e, r1)
         | (Inr _, r1) \<Rightarrow> (case convert env (bp_nodes bp) r1 of
               (Inl e, r2) \<Rightarrow> (Inl e, r2)
             | (Inr ns, r2) \<Rightarrow> (res_map (runtime_validate (de_check env) (de_compiles env)) ns, r2))))"

definition create_blueprint :: "'o draft_env \<Rightarrow> blueprint \<Rightarrow> 'o registry \<times> redis \<Rightarrow> string api \<times> 'o registry \<times> redis" where
  "create_blueprint env bp st = (case check_blueprint env bp (fst st) of
       (Inl e, r) \<Rightarrow> (Inl (Http 400 (exn_msg e)), r, snd st)
     | (Inr _, r) \<Rightarrow> (Inr (content_id env bp), r, write_blueprint env bp (snd st)))"

text \<open>The stored visualisation is left out: nothing writes it.\<close>

definition get_blueprint :: "'o draft_env \<Rightarrow> string \<Rightarrow> redis \<Rightarrow> (blueprint \<times> string) api" where
  "get_blueprint env i s = (case dict_get (hgetall (bp_key i) s) ''json'' of
       None \<Rightarrow> Inl (Http 404 (''Blueprint '' @ i @ '' not found''))
     | Some d \<Rightarrow> api_bind (escaping (de_bp_load env d)) (\<lambda>bp. Inr (bp, content_id env bp)))"

section \<open>Finalisation\<close>

definition estimate_over_budget :: "'o draft_env \<Rightarrow> node list \<Rightarrow> bool" where
  "estimate_over_budget env ns = (case de_budget env of None \<Rightarrow> False
     | Some b \<Rightarrow> b < we_avg (estimate_workflow_cost (de_provider env) ns 1000))"

text \<open>The amounts in the text of the refusal are left out.\<close>

definition over_budget_error :: "'a api" where
  "over_budget_error = Inl (Http 402 ''Estimated cost exceeds budget'')"

text \<open>\<open>except ValueError\<close> around the conversion; everything else leaves the route.\<close>

definition value_error_400 :: "'a res \<Rightarrow> 'a api" where
  "value_error_400 r = (case r of
       Inl e \<Rightarrow> if exn_kind e = ValueError then Inl (Http 400 (exn_msg e)) else Inl (Escaped e)
     | Inr x \<Rightarrow> Inr x)"

definition finalize_checks :: "'o draft_env \<Rightarrow> string \<Rightarrow> string option \<Rightarrow> redis \<Rightarrow> blueprint api" where
  "finalize_checks env i client s = (case present (hget (partial_key i) ''json'' s) of
       None \<Rightarrow> not_found i
     | Some d \<Rightarrow> api_bind (escaping (de_load env d)) (\<lambda>p.
         api_bind (version_guard client (hget (partial_key i) ''lock'' s)) (\<lambda>_.
         if pb_nodes p = [] then Inl (Http 400 ''Partial blueprint has no nodes to finalize'')
         else api_bind (value_error_400 (to_blueprint p)) (\<lambda>bp.
           case validate_blueprint bp of
             Inl e \<Rightarrow> Inl (Http 400 (''Blueprint schema validation failed: '' @ exn_msg e))
           | Inr _ \<Rightarrow> Inr bp))))"

definition finalize_partial ::
  "'o draft_env \<Rightarrow> string \<Rightarrow> string option \<Rightarrow> 'o registry \<times> redis \<Rightarrow> string api \<times> 'o registry \<times> redis" where
  "finalize_partial env i client st = (case finalize_checks env i client (snd st) of
       Inl e \<Rightarrow> (Inl e, st)
     | Inr bp \<Rightarrow>
         (let (cfgs, r) = convert env (bp_nodes bp) (fst st)
          in if (case cfgs of Inl _ \<Rightarrow> False | Inr ns \<Rightarrow> estimate_over_budget env ns) then (over_budget_error, r, snd st)
             else (Inr (content_id env bp), r, snd (hdel (partial_key i) [''json''] (write_blueprint env bp (snd st))))))"

section \<open>Design sessions\<close>

definition session_key :: "string \<Rightarrow> string" where
  "session_key i = ''design_session:'' @ i"

text \<open>\<open>i\<close> and \<open>p\<close> are the fresh ids of the session and its partial blueprint, \<open>now\<close> the time as text.\<close>

definition create_design_session :: "'o draft_env \<Rightarrow> string \<Rightarrow> string \<Rightarrow> string \<Rightarrow> redis \<Rightarrow> (string \<times> string) \<times> redis" where
  "create_design_session env i p now s =
     ((i, p), snd (hset (partial_key p) [(''json'', de_dump env (partial_new p))]
       (snd (hset (session_key i) [(''partial_blueprint_id'', p), (''created_at'', now),
          (''validated_components'', ''[]''), (''registered_components'', ''[]'')] s))))"

text \<open>The session's fields, and its partial blueprint when that is still there.\<close>

definition get_design_session :: "'o draft_env \<Rightarrow> string \<Rightarrow> redis \<Rightarrow> (string dict \<times> partial_bp option) api" where
  "get_design_session env i s =
     (let d = hgetall (session_key i) s
      in if d = [] then Inl (Http 404 (''Design session '' @ i @ '' not found''))
         else case present (dict_get d ''partial_blueprint_id'') of
           None \<Rightarrow> Inr (d, None)
         | Some p \<Rightarrow> (case present (hget (partial_key p) ''json'' s) of
               None \<Rightarrow> Inr (d, None)
             | Some j \<Rightarrow> api_bind (escaping (de_load env j)) (\<lambda>pb. Inr (d, Some pb))))"

section \<open>Lemmas\<close>

lemma present_simps [simp]:
  "present None = None"
  "present (Some x) = (if x = '''' then None else Some x)"
  by (simp_all add: present_def)

lemma present_Some: "present x = Some d \<longleftrightarrow> x = Some d \<and> d \<noteq> ''''"
  by (auto simp: present_def)

lemma keys_differ [simp]:
  "bp_key i \<noteq> partial_key j" "partial_key j \<noteq> bp_key i"
  "session_key i \<noteq> partial_key j" "partial_key j \<noteq> session_key i"
  "partial_key i = partial_key j \<longleftrightarrow> i = j" "bp_key i = bp_key j \<longleftrightarrow> i = j"
  by (simp_all add: bp_key_def partial_key_def session_key_def)

lemma escaping_simps [simp]: "escaping (Inr x) = Inr x" "escaping (Inl e) = Inl (Escaped e)"
  by (simp_all add: escaping_def)

lemma with_errors_Inr: "with_errors e = Inr p \<Longrightarrow> p = fst e"
  by (auto simp: with_errors_def split: prod.splits option.splits)

lemma version_guard_Inr: "version_guard client server = Inr () \<longleftrightarrow> (\<exists>l. l \<noteq> '''' \<and> server = Some l \<and> client = Some l)"
  by (auto simp: version_guard_def present_def)

lemma hget_write_partial [simp]:
  "hget k f (write_partial env p s) = (if k = partial_key (pb_id p) \<and> f = ''json'' then Some (de_dump env p)
     else if k = partial_key (pb_id p) \<and> f = ''lock'' then Some (lock_of env p) else hget k f s)"
  unfolding write_partial_def by simp

lemma hget_write_blueprint [simp]:
  "hget k f (write_blueprint env bp s) =
     (if k = bp_key (content_id env bp) \<and> f = ''json'' then Some (de_bp_dump env (stored_bp env bp)) else hget k f s)"
  unfolding write_blueprint_def by simp

text \<open>No update changes the id of the document.\<close>

lemma check_components_id: "pb_id (fst (check_components reg ns p)) = pb_id p"
  by (induction reg ns p rule: check_components.induct) (auto split: sum.splits option.splits prod.splits)

lemma validate_incremental_id [simp]: "pb_id (fst (validate_incremental reg p)) = pb_id p"
proof -
  have "pb_id p2 = pb_id p1" if "check_components reg ns p1 = (p2, x)" for ns p1 p2 x
    using check_components_id[of reg ns p1] that by simp
  then show ?thesis by (auto simp: validate_incremental_def Let_def split: prod.splits option.splits)
qed

lemma apply_update_id: "apply_update reg u p = Inr p' \<Longrightarrow> pb_id p' = pb_id p"
  by (auto simp: apply_update_def pb_add_node_def res_bind_Inr_iff dest!: with_errors_Inr split: if_splits)


section \<open>The lock is the hash of the document\<close>

text \<open>The routes as steps on the pending updates, the registry and the store. Any number of updates are under
  way, each advancing by one command of the store at a time; the other routes run without interruption. The
  partial blueprint of a new design session has a key that was never written.\<close>

type_synonym 'o api_state = "update_task list \<times> 'o registry \<times> redis"

inductive draft_step :: "'o draft_env \<Rightarrow> 'o api_state \<Rightarrow> 'o api_state \<Rightarrow> bool" for env where
  arrive: "draft_step env (ts, r, s) (ts @ [UStart i client u], r, s)"
| turn: "draft_step env (ts, r, s) (fst (sched_step (update_step env r) j (ts, s)), r, snd (sched_step (update_step env r) j (ts, s)))"
| create: "draft_step env (ts, r, s) (ts, r, snd (create_partial env r i n s))"
| suggest: "draft_step env (ts, r, s) (ts, r, snd (suggest_next env i client allowed k commit s))"
| finalize: "draft_step env (ts, r, s) (ts, snd (finalize_partial env i client (r, s)))"
| register: "draft_step env (ts, r, s) (ts, snd (create_blueprint env bp (r, s)))"
| session: "hget (partial_key p) ''lock'' s = None \<Longrightarrow>
    draft_step env (ts, r, s) (ts, r, snd (create_design_session env i p now s))"

definition locks_match :: "'o draft_env \<Rightarrow> redis \<Rightarrow> bool" where
  "locks_match env s \<longleftrightarrow> (\<forall>i d l. hget (partial_key i) ''json'' s = Some d \<longrightarrow> hget (partial_key i) ''lock'' s = Some l \<longrightarrow>
     (\<exists>p. d = de_dump env p \<and> l = lock_of env p))"

lemma locks_match_write [simp]: "locks_match env s \<Longrightarrow> locks_match env (write_partial env p s)"
  by (auto simp: locks_match_def)

lemma locks_match_blueprint [simp]: "locks_match env (write_blueprint env bp s) \<longleftrightarrow> locks_match env s"
  by (simp add: locks_match_def)

lemma locks_match_hdel [simp]: "locks_match env s \<Longrightarrow> locks_match env (snd (hdel k [''json''] s))"
  by (auto simp: locks_match_def)

lemma locks_match_commit: "locks_match env s \<Longrightarrow> locks_match env (commit_update env a s)"
  by (cases a) (simp_all add: commit_update_def)

lemma locks_match_step: "locks_match env s \<Longrightarrow> locks_match env (snd (update_step env r t s))"
  by (cases t) (simp_all add: locks_match_commit)

lemma locks_match_suggest: "locks_match env s \<Longrightarrow> locks_match env (snd (suggest_next env i client allowed k commit s))"
  by (simp add: suggest_next_def Let_def split: option.split sum.split)

lemma locks_match_finalize: "locks_match env s \<Longrightarrow> locks_match env (snd (snd (finalize_partial env i client (r, s))))"
  by (simp add: finalize_partial_def split: sum.split prod.split)

lemma locks_match_register: "locks_match env s \<Longrightarrow> locks_match env (snd (snd (create_blueprint env bp (r, s))))"
  by (simp add: create_blueprint_def split: sum.split prod.split)

lemma locks_match_session:
  "locks_match env s \<Longrightarrow> hget (partial_key p) ''lock'' s = None \<Longrightarrow>
     locks_match env (snd (create_design_session env i p now s))"
  unfolding locks_match_def create_design_session_def
  by (auto simp: stub.get_put split: if_splits)

interpretation drafts: transition_system "draft_step env" "\<lambda>x. locks_match env (snd (snd x))"
proof
  fix x y :: "'a api_state"
  assume "draft_step env x y" "locks_match env (snd (snd x))"
  then show "locks_match env (snd (snd y))"
  proof (induction rule: draft_step.induct)
    case (turn ts r s j)
    then show ?case using locks_match_step[of env s r "ts ! j"] by (auto simp: sched_step_def split: prod.splits)
  qed (simp_all add: locks_match_suggest locks_match_finalize locks_match_register locks_match_session
      create_partial_def split: sum.splits)
qed

text \<open>(C8) In every state that the routes reach from an empty store, with updates interleaved in any order, the
  lock kept beside a partial blueprint is the hash of the very document kept there, so that an update whose
  lock is accepted has seen this document.\<close>

theorem lock_is_hash_of_document:
  assumes "(draft_step env)\<^sup>*\<^sup>* ([], reg, redis_new) (ts, reg', s)"
    and "hget (partial_key i) ''json'' s = Some d" "hget (partial_key i) ''lock'' s = Some l"
  shows "\<exists>p. d = de_dump env p \<and> l = lock_of env p"
  using drafts.reach_inv[OF assms(1)] assms(2,3)
  by (simp add: locks_match_def hget_def redis_new_def dict_get_or_def)

section \<open>A lock that is out of date\<close>

text \<open>(C9) Two updates that carry the current lock. One after the other, the second is refused. When both
  have read before either writes, both are acknowledged, and the store ends as if the first had never been made.\<close>

theorem optimistic_lock_loses_update:
  assumes "hget (partial_key i) ''json'' s = Some d" "d \<noteq> ''''" "de_load env d = Inr p" "pb_id p = i"
    and "hget (partial_key i) ''lock'' s = Some l" "l \<noteq> ''''"
    and "apply_update reg ua p = Inr pa" "apply_update reg ub p = Inr pb"
    and "de_load env (de_dump env pa) = Inr pa" "de_dump env pa \<noteq> ''''" "lock_of env pa \<noteq> l"
  shows "(let (a, s1) = update_partial env reg i (Some l) ua s; (b, s2) = update_partial env reg i (Some l) ub s1
          in a = Inr pa \<and> b = Inl (Http 409 ''Partial blueprint version conflict'') \<and> s2 = write_partial env pa s) \<and>
    (let (ts, s') = gather (update_step env reg) 3 [0, 1, 0, 1, 0, 1] [UStart i (Some l) ua, UStart i (Some l) ub] s
     in ts = [UDone (Inr pa), UDone (Inr pb)] \<and> (\<forall>k f. hget k f s' = hget k f (write_partial env pb s)))"
proof -
  have ids: "pb_id pa = i" "pb_id pb = i" using assms apply_update_id by blast+
  have body: "update_body env reg i (Some l) u (Some d) (Some l) = escaping (apply_update reg u p)" for u
    using assms by (simp add: update_body_def version_guard_def)
  have "let (a, s1) = update_partial env reg i (Some l) ua s; (b, s2) = update_partial env reg i (Some l) ub s1
         in a = Inr pa \<and> b = Inl (Http 409 ''Partial blueprint version conflict'') \<and> s2 = write_partial env pa s"
    using assms ids by (simp add: update_partial_def body commit_update_def)
      (simp add: update_body_def version_guard_def)
  moreover have "gather (update_step env reg) 3 [0, 1, 0, 1, 0, 1] [UStart i (Some l) ua, UStart i (Some l) ub] s
         = ([UDone (Inr pa), UDone (Inr pb)], write_partial env pb (write_partial env pa s))"
    using assms by (simp add: gather_def drain_def sched_step_def body commit_update_def numeral_3_eq_3)
  ultimately show ?thesis using ids by simp
qed

definition draft_node :: "string \<Rightarrow> node_spec" where
  "draft_node i = \<lparr>ns_id = i, ns_type = ''llm'', ns_deps = [], ns_extra = []\<rparr>"

definition draft_add :: "string \<Rightarrow> pb_update" where
  "draft_add i = \<lparr>pu_action = ''add_node'', pu_node = Some (PPartial (draft_node i) None None None),
     pu_node_id = None, pu_updates = None\<rparr>"

definition draft_doc :: "string list \<Rightarrow> partial_bp" where
  "draft_doc is = (partial_new ''partial_bp_1'')\<lparr>pb_nodes := map (\<lambda>i. PPartial (draft_node i) None None None) is,
     pb_complete := is \<noteq> [], pb_suggestions := replicate (length is) ''Blueprint is valid! Use to_blueprint() to finalize''\<rparr>"

definition draft_ids :: "partial_bp \<Rightarrow> string" where
  "draft_ids p = str_join '','' (''doc'' # map (\<lambda>n. ns_id (pspec n)) (pb_nodes p))"

text \<open>A deployment whose documents are written as the list of their node ids.\<close>

definition draft_demo :: "nat draft_env" where
  "draft_demo = \<lparr>de_dump = draft_ids, de_load = (\<lambda>s. Inr (draft_doc (tl (str_split '','' s)))), de_lock_text = draft_ids,
     de_bp_dump = (\<lambda>bp. str_join '','' (bp_id bp # map ns_id (bp_nodes bp))),
     de_bp_load = (\<lambda>s. let xs = str_split '','' s in Inr \<lparr>bp_id = hd xs, bp_version = ''1.1.0'', bp_nodes = map draft_node (tl xs), bp_metadata = []\<rparr>),
     de_sha = filter (\<lambda>c. c \<noteq> CHR '',''), de_py = demo_py,
     de_schemas = \<lparr>tool_input = (\<lambda>_. None), tool_output = (\<lambda>_. None)\<rparr>, de_reload = (\<lambda>r. (r, None)),
     de_validate = (\<lambda>t n. Inr (Node (default_base (ns_id n) (ns_deps n)) (KMonitor ''x > 0'' ''alert'' []))),
     de_check = (\<lambda>_. None), de_compiles = (\<lambda>_. None), de_provider = (\<lambda>_. None), de_budget = None\<rparr>"

lemma draft_demo_simps [simp]:
  "de_dump draft_demo = draft_ids" "de_load draft_demo s = Inr (draft_doc (tl (str_split '','' s)))"
  "lock_of draft_demo p = filter (\<lambda>c. c \<noteq> CHR '','') (draft_ids p)"
  by (simp_all add: draft_demo_def lock_of_def)

lemma draft_add_doc: "apply_update (registry_new :: nat registry) (draft_add i) (draft_doc []) = Inr (draft_doc [i])"
  by (simp add: apply_update_def draft_add_def draft_doc_def draft_node_def partial_new_def pb_add_node_def
      validate_incremental_def dependency_errors_def missing_refs_def component_problem_def with_errors_def Let_def)

theorem lock_is_hash_of_document_witness:
  "\<exists>ts s p. (draft_step draft_demo)\<^sup>*\<^sup>* ([], registry_new, redis_new) (ts, registry_new, s)
     \<and> hget (partial_key ''partial_bp_1'') ''lock'' s = Some ''doc'' \<and> ''doc'' = de_dump draft_demo p \<and> ''doc'' = lock_of draft_demo p"
proof -
  let ?s = "snd (create_partial draft_demo (registry_new :: nat registry) ''partial_bp_1'' None redis_new)"
  have reach: "(draft_step draft_demo)\<^sup>*\<^sup>* ([], registry_new, redis_new) ([], registry_new, ?s)"
    by (rule r_into_rtranclp) (rule draft_step.create)
  have stored: "hget (partial_key ''partial_bp_1'') ''json'' ?s = Some ''doc''" "hget (partial_key ''partial_bp_1'') ''lock'' ?s = Some ''doc''"
    by (simp_all add: create_partial_def partial_new_def draft_ids_def)
  show ?thesis using lock_is_hash_of_document [OF reach stored] reach stored by blast
qed

theorem optimistic_lock_loses_update_witness:
  "let s = snd (create_partial draft_demo (registry_new :: nat registry) ''partial_bp_1'' None redis_new);
       (ts, s') = gather (update_step draft_demo (registry_new :: nat registry)) 3 [0, 1, 0, 1, 0, 1]
         [UStart ''partial_bp_1'' (Some ''doc'') (draft_add ''a''), UStart ''partial_bp_1'' (Some ''doc'') (draft_add ''b'')] s
   in ts = [UDone (Inr (draft_doc [''a''])), UDone (Inr (draft_doc [''b'']))]
      \<and> hget (partial_key ''partial_bp_1'') ''json'' s' = Some ''doc,b''"
proof -
  let ?s = "snd (create_partial draft_demo (registry_new :: nat registry) ''partial_bp_1'' None redis_new)"
  have stored: "hget (partial_key ''partial_bp_1'') ''json'' ?s = Some ''doc''" "hget (partial_key ''partial_bp_1'') ''lock'' ?s = Some ''doc''"
    by (simp_all add: create_partial_def partial_new_def draft_ids_def)
  have load: "de_load draft_demo ''doc'' = Inr (draft_doc [])" by (simp add: str_split_def)
  have ida: "draft_ids (draft_doc [i]) = ''doc,'' @ i" "pb_id (draft_doc is) = ''partial_bp_1''" for i "is"
    by (simp_all add: draft_ids_def draft_doc_def draft_node_def partial_new_def)
  have "de_load draft_demo (de_dump draft_demo (draft_doc [''a''])) = Inr (draft_doc [''a''])"
    by (simp add: ida str_split_def)
  from optimistic_lock_loses_update [OF stored(1) _ load ida(2) stored(2) _ draft_add_doc [of "''a''"] draft_add_doc [of "''b''"] this]
  show ?thesis by (simp add: ida Let_def split: prod.splits)
qed

section \<open>Design sessions cannot be edited\<close>

text \<open>The partial blueprint of a new design session is stored without a lock. Every update, every
  finalisation and every suggestion to be kept is refused, with 428 when the request carries no lock and with
  409 whatever lock it carries, and leaves the store as it is.\<close>

theorem design_session_is_never_editable:
  fixes client :: "string option" and i now :: string
  assumes "hget (partial_key p) ''lock'' s = None" "de_load env (de_dump env (partial_new p)) = Inr (partial_new p)"
    and "de_dump env (partial_new p) \<noteq> ''''"
  defines "s' \<equiv> snd (create_design_session env i p now s)"
    and "refusal \<equiv> (if client = None then Http 428 ''Missing X-Version-Lock header'' else Http 409 ''Partial blueprint version conflict'')"
  shows "update_partial env reg p client u s' = (Inl refusal, s')
    \<and> finalize_partial env p client (reg, s') = (Inl refusal, reg, s')
    \<and> suggest_next env p client allowed k True s' = (Inl refusal, s')
    \<and> get_partial env p s' = Inr (partial_new p, None)"
proof -
  have stored: "hget (partial_key p) ''json'' s' = Some (de_dump env (partial_new p))" "hget (partial_key p) ''lock'' s' = None"
    using assms(1) by (simp_all add: s'_def create_design_session_def stub.get_put)
  have guard: "version_guard client None = Inl refusal" by (simp add: version_guard_def refusal_def)
  show ?thesis using assms(2,3)
    by (simp add: update_partial_def update_body_def finalize_partial_def finalize_checks_def suggest_next_def get_partial_def
        stored guard commit_update_def)
qed

theorem design_session_is_never_editable_witness:
  "fst (update_partial draft_demo (registry_new :: nat registry) ''partial_bp_1'' (Some ''doc'') (draft_add ''a'')
     (snd (create_design_session draft_demo ''design_1'' ''partial_bp_1'' ''2025-01-01T00:00:00'' redis_new)))
   = Inl (Http 409 ''Partial blueprint version conflict'')"
proof -
  have new: "hget (partial_key ''partial_bp_1'') ''lock'' redis_new = None" by (simp add: hget_def redis_new_def dict_get_or_def)
  have load: "de_load draft_demo (de_dump draft_demo (partial_new ''partial_bp_1'')) = Inr (partial_new ''partial_bp_1'')"
    by (simp add: draft_ids_def partial_new_def str_split_def draft_doc_def)
  have "de_dump draft_demo (partial_new ''partial_bp_1'') \<noteq> ''''" by (simp add: draft_ids_def partial_new_def)
  from design_session_is_never_editable [OF new load this] show ?thesis by (simp add: fst_def)
qed

section \<open>From a draft to a blueprint\<close>

text \<open>(C20) Finalising a partial blueprint with nodes under the right lock. When the blueprint is not complete the
  error of the conversion leaves the route: it is no \<open>ValueError\<close>, so the handler that answers 400
  does not see it. An accepted one is complete and passes the design-time checks, it is stored under its content id,
  and the draft is gone, except for its lock.\<close>

theorem finalize_outcome:
  assumes "hget (partial_key i) ''json'' s = Some d" "d \<noteq> ''''" "de_load env d = Inr p"
    and "hget (partial_key i) ''lock'' s = Some l" "l \<noteq> ''''" "pb_nodes p \<noteq> []"
    and "finalize_partial env i (Some l) (reg, s) = (a, reg', s')"
  shows "(\<not> pb_complete p \<longrightarrow> (\<exists>m. a = Inl (Escaped (Exn ValidationError m))) \<and> s' = s) \<and>
    (\<forall>b. a = Inr b \<longrightarrow> (\<exists>bp. to_blueprint p = Inr bp \<and> validate_blueprint bp = Inr () \<and> b = content_id env bp
       \<and> hget (bp_key b) ''json'' s' = Some (de_bp_dump env (stored_bp env bp)))
       \<and> get_partial env i s' = not_found i \<and> hget (partial_key i) ''lock'' s' = Some l)"
proof -
  have guard: "version_guard (Some l) (Some l) = Inr ()" using assms(5) by (simp add: version_guard_def)
  have checks: "finalize_checks env i (Some l) s = api_bind (value_error_400 (to_blueprint p)) (\<lambda>bp.
      case validate_blueprint bp of Inl e \<Rightarrow> Inl (Http 400 (''Blueprint schema validation failed: '' @ exn_msg e)) | Inr _ \<Rightarrow> Inr bp)"
    using assms(1-6) guard by (simp add: finalize_checks_def)
  show ?thesis
  proof (cases "finalize_checks env i (Some l) s")
    case (Inl e)
    then have out: "a = Inl e" "s' = s" using assms(7) by (auto simp: finalize_partial_def)
    have "e = Escaped (Exn ValidationError m)" if "to_blueprint p = Inl (Exn ValidationError m)" for m
      using Inl checks that by (simp add: value_error_400_def)
    then have "\<not> pb_complete p \<Longrightarrow> \<exists>m. e = Escaped (Exn ValidationError m)" by (auto simp: to_blueprint_def)
    then show ?thesis using out by blast
  next
    case (Inr bp)
    then obtain x where x: "value_error_400 (to_blueprint p) = Inr x"
      "(case validate_blueprint x of Inl e \<Rightarrow> Inl (Http 400 (''Blueprint schema validation failed: '' @ exn_msg e)) | Inr _ \<Rightarrow> Inr x) = Inr bp"
      using checks by (auto simp: api_bind_Inr_iff)
    then have bp: "to_blueprint p = Inr bp" "validate_blueprint bp = Inr ()"
      by (cases "to_blueprint p"; cases "validate_blueprint x"; simp add: value_error_400_def split: if_splits)+
    then have "pb_complete p" by (auto simp: to_blueprint_def split: if_splits)
    then show ?thesis using Inr bp assms(4,7)
      by (auto simp: finalize_partial_def over_budget_error_def get_partial_def Let_def split: if_splits prod.splits)
  qed
qed

definition draft_stored :: redis where
  "draft_stored = snd (hset (partial_key ''partial_bp_1'') [(''json'', ''doc,a''), (''lock'', ''doc,a'')] redis_new)"

lemma draft_stored_get:
  "hget (partial_key ''partial_bp_1'') ''json'' draft_stored = Some ''doc,a''"
  "hget (partial_key ''partial_bp_1'') ''lock'' draft_stored = Some ''doc,a''"
  by (simp_all add: draft_stored_def)

lemma draft_doc_blueprint:
  "to_blueprint (draft_doc [''a'']) = Inr \<lparr>bp_id = ''bp_1'', bp_version = ''1.1.0'', bp_nodes = [draft_node ''a''], bp_metadata = []\<rparr>"
  by (simp add: to_blueprint_def draft_doc_def draft_node_def partial_new_def blueprint_new_def validate_node_dependencies_def
      missing_refs_def str_split_def)

lemma draft_blueprint_valid:
  "validate_blueprint \<lparr>bp_id = ''bp_1'', bp_version = ''1.1.0'', bp_nodes = [draft_node ''a''], bp_metadata = []\<rparr> = Inr ()"
  by (simp add: validate_blueprint_def supported_versions_def kahn_count_def kahn_init_def zero_degrees_def draft_node_def dict_get_or_def)

theorem finalize_outcome_witness:
  "let (a, reg', s') = finalize_partial draft_demo ''partial_bp_1'' (Some ''doc,a'') (registry_new, draft_stored)
   in a = Inr ''bp_bp_1a'' \<and> get_partial draft_demo ''partial_bp_1'' s' = not_found ''partial_bp_1''"
proof -
  obtain a reg' s' where run: "finalize_partial draft_demo ''partial_bp_1'' (Some ''doc,a'') (registry_new, draft_stored) = (a, reg', s')"
    by (cases "finalize_partial draft_demo ''partial_bp_1'' (Some ''doc,a'') (registry_new, draft_stored)") blast
  have load: "de_load draft_demo ''doc,a'' = Inr (draft_doc [''a''])" by (simp add: str_split_def)
  have nodes: "pb_nodes (draft_doc [''a'']) \<noteq> []" by (simp add: draft_doc_def)
  have "finalize_checks draft_demo ''partial_bp_1'' (Some ''doc,a'') draft_stored =
      Inr \<lparr>bp_id = ''bp_1'', bp_version = ''1.1.0'', bp_nodes = [draft_node ''a''], bp_metadata = []\<rparr>"
    using nodes load draft_blueprint_valid
    by (simp add: finalize_checks_def draft_stored_get version_guard_def value_error_400_def draft_doc_blueprint del: draft_demo_simps)
  then have "a = Inr ''bp_bp_1a''" using run
    by (auto simp: finalize_partial_def estimate_over_budget_def draft_demo_def content_id_def draft_node_def split: prod.splits sum.splits)
  then show ?thesis
    using finalize_outcome [OF draft_stored_get(1) _ load draft_stored_get(2) _ nodes run] run by simp
qed

text \<open>(C28) A registered blueprint passed the checks of design time, and reading it gives it back under its content id. The
  hash reported with it is taken of the renamed blueprint.\<close>

theorem registered_blueprint_is_returned:
  assumes "create_blueprint env bp (reg, s) = (Inr b, reg', s')"
    and "de_bp_load env (de_bp_dump env (stored_bp env bp)) = Inr (stored_bp env bp)"
  shows "validate_blueprint bp = Inr () \<and> bp_id (stored_bp env bp) = b \<and>
    get_blueprint env b s' = Inr (stored_bp env bp, content_id env (stored_bp env bp))"
proof -
  have "hgetall k t = dict_get_or (rd_hashes t) k []" for k t by (simp add: hgetall_def)
  then have read: "dict_get (hgetall k t) f = hget k f t" for k f t by (simp add: hget_def)
  show ?thesis using assms
    by (auto simp: create_blueprint_def check_blueprint_def get_blueprint_def read stored_bp_def
        split: sum.splits prod.splits)
qed

lemma draft_demo_convert:
  "convert draft_demo [draft_node ''a''] reg = (Inr [Node (default_base ''a'' []) (KMonitor ''x > 0'' ''alert'' [])], reg)"
proof -
  have "type_of_value ''llm'' = Some TLlm" using type_of_value_inverse[of TLlm] by simp
  then show ?thesis
    by (simp add: convert_def convert_node_specs_def convert_node_spec_def draft_demo_def draft_node_def node_type_of_def)
qed

lemma draft_demo_node:
  "runtime_validate (de_check draft_demo) (de_compiles draft_demo) (Node (default_base ''a'' []) (KMonitor ''x > 0'' ''alert'' []))
     = Inr (Node (default_base ''a'' []) (KMonitor ''x > 0'' ''alert'' []))"
  by (simp add: draft_demo_def runtime_validate_def base_runtime_validate_def node_type_of_def schema_optional_def kind_problem_def monitor_problem_def str_strip_def is_space_def)

theorem registered_blueprint_is_returned_witness:
  "let bp = \<lparr>bp_id = ''bp_1'', bp_version = ''1.1.0'', bp_nodes = [draft_node ''a''], bp_metadata = []\<rparr>;
       (a, reg', s') = create_blueprint draft_demo bp (registry_new, redis_new)
   in a = Inr ''bp_bp_1a'' \<and> get_blueprint draft_demo ''bp_bp_1a'' s' = Inr (bp\<lparr>bp_id := ''bp_bp_1a''\<rparr>, ''bp_bp_bp_1aa'')"
proof -
  let ?bp = "\<lparr>bp_id = ''bp_1'', bp_version = ''1.1.0'', bp_nodes = [draft_node ''a''], bp_metadata = []\<rparr>"
  obtain a reg' s' where run: "create_blueprint draft_demo ?bp (registry_new, redis_new) = (a, reg', s')"
    by (cases "create_blueprint draft_demo ?bp (registry_new, redis_new)") blast
  have ids: "content_id draft_demo ?bp = ''bp_bp_1a''" by (simp add: content_id_def draft_demo_def draft_node_def)
  have a: "a = Inr ''bp_bp_1a''" using run draft_blueprint_valid
    by (simp add: create_blueprint_def check_blueprint_def ids draft_demo_convert draft_demo_node)
  have stored: "stored_bp draft_demo ?bp = ?bp\<lparr>bp_id := ''bp_bp_1a''\<rparr>" by (simp add: stored_bp_def ids)
  have load: "de_bp_load draft_demo (de_bp_dump draft_demo (stored_bp draft_demo ?bp)) = Inr (stored_bp draft_demo ?bp)"
    unfolding stored by (simp add: draft_demo_def draft_node_def str_split_def)
  have "content_id draft_demo (stored_bp draft_demo ?bp) = ''bp_bp_bp_1aa''"
    unfolding stored by (simp add: content_id_def draft_demo_def draft_node_def)
  then show ?thesis using registered_blueprint_is_returned [OF run[unfolded a] load] run a stored by simp
qed

end
