(* ===== verification/BpStore.thy ===== *)
theory BpStore
  imports MemBase Drafts
begin

text \<open>
  Stored blueprints (\<open>src/ice_api/api/blueprints.py\<close>): the table \<open>blueprints\<close>, which is authoritative, and a
  copy of every document in Redis, which is read when the table gives nothing. A route takes the state and
  returns its answer with the state after it; \<open>bp_task_step\<close> is an update cut at its accesses to the two stores.

  Parameters (the record \<open>bp_env\<close>): Pydantic's reading of a document into the fields of the models and its
  dumps, JSON text, SHA-256, the loading of a plugin manifest from its file, and the settings. A request
  (the record \<open>request\<close>) says which of its accesses raise.
\<close>

section \<open>Parameters and state\<close>

text \<open>\<open>be_rest\<close> gives the id, when the document has one, the schema version and the metadata.\<close>

record 'o bp_env =
  be_nodes :: "val \<Rightarrow> node_spec list option"
  be_rest :: "val \<Rightarrow> (string option \<times> string \<times> val dict) option"
  be_node :: "val \<Rightarrow> node_spec option"
  be_body :: "blueprint \<Rightarrow> val"
  be_dump :: "blueprint \<Rightarrow> val"
  be_json :: "blueprint \<Rightarrow> string"
  be_parse :: "string \<Rightarrow> val option"
  be_text :: "val \<Rightarrow> string"
  be_sha :: "string \<Rightarrow> string"
  be_plugins :: "string \<Rightarrow> 'o registry \<Rightarrow> 'o registry"
  be_manifests :: string
  be_tools :: "string list \<times> string list"
  be_agents :: "string list \<times> string list"

record request =
  rq_lock :: "string option"
  rq_uuid :: string
  rq_load :: "exn option"
  rq_cache :: "exn option"
  rq_write :: "exn option"
  rq_save :: "exn option"

record bp_row =
  br_version :: string
  br_body :: val
  br_lock :: int

record 'o bp_state =
  bs_rows :: "bp_row dict"
  bs_cache :: redis
  bs_reg :: "'o registry"

section \<open>Loading\<close>

text \<open>\<open>Blueprint.model_validate\<close>: None is Pydantic's own error. The validator of the nodes raises an error
  that Pydantic lets through.\<close>

definition bp_validate :: "'o bp_env \<Rightarrow> string \<Rightarrow> val \<Rightarrow> blueprint res option" where
  "bp_validate env u v = Option.bind (be_nodes env v) (\<lambda>ns. case validate_node_dependencies ns of
       Inl e \<Rightarrow> Some (Inl e)
     | Inr _ \<Rightarrow> map_option (\<lambda>(i, ver, md). blueprint_new (case i of None \<Rightarrow> u | Some j \<Rightarrow> j) ver ns md) (be_rest env v))"

fun valid_only :: "blueprint res option \<Rightarrow> blueprint option" where
  "valid_only (Some (Inr bp)) = Some bp"
| "valid_only _ = None"

definition load_row :: "'o bp_env \<Rightarrow> request \<Rightarrow> string \<Rightarrow> bp_row dict \<Rightarrow> blueprint option" where
  "load_row env q i rows = (if rq_load q \<noteq> None then None
     else Option.bind (dict_get rows i) (\<lambda>r. valid_only (bp_validate env (rq_uuid q) (br_body r))))"

definition load_cache :: "'o bp_env \<Rightarrow> request \<Rightarrow> string \<Rightarrow> redis \<Rightarrow> blueprint option" where
  "load_cache env q i c = (if rq_cache q \<noteq> None then None
     else Option.bind (present (hget (bp_key i) ''json'' c)) (\<lambda>d.
       Option.bind (be_parse env d) (\<lambda>v. valid_only (bp_validate env (rq_uuid q) v))))"

definition no_blueprint :: "'a api" where
  "no_blueprint = Inl (Http 404 ''Blueprint not found'')"

definition load_blueprint :: "'o bp_env \<Rightarrow> request \<Rightarrow> string \<Rightarrow> 'o bp_state \<Rightarrow> blueprint api" where
  "load_blueprint env q i s = (case load_row env q i (bs_rows s) of
       Some bp \<Rightarrow> Inr bp
     | None \<Rightarrow> (case load_cache env q i (bs_cache s) of Some bp \<Rightarrow> Inr bp | None \<Rightarrow> no_blueprint))"

text \<open>Every caller of \<open>_save_blueprint\<close> ignores its errors.\<close>

definition save_blueprint :: "'o bp_env \<Rightarrow> request \<Rightarrow> string \<Rightarrow> blueprint \<Rightarrow> redis \<Rightarrow> redis" where
  "save_blueprint env q i bp c =
     (if rq_save q = None then snd (hset (bp_key i) [(''json'', be_json env bp)] c) else c)"

section \<open>Locks, nodes and permissions\<close>

definition doc_lock :: "'o bp_env \<Rightarrow> val \<Rightarrow> string" where
  "doc_lock env d = be_sha env (be_text env d)"

definition calculate_version_lock :: "'o bp_env \<Rightarrow> blueprint \<Rightarrow> string" where
  "calculate_version_lock env bp = doc_lock env (be_body env bp)"

definition assert_version_lock :: "request \<Rightarrow> string \<Rightarrow> unit api" where
  "assert_version_lock q expected = (case rq_lock q of
       None \<Rightarrow> Inl (Http 428 ''Missing X-Version-Lock header'')
     | Some l \<Rightarrow> if l \<noteq> expected then Inl (Http 409 ''Blueprint version conflict'') else Inr ())"

definition merge_step :: "node_spec \<Rightarrow> node_spec dict \<Rightarrow> node_spec dict" where
  "merge_step p m = (if ns_type p = ''__delete__'' then dict_pop (ns_id p) m else dict_set (ns_id p) p m)"

definition merge_nodes :: "node_spec list \<Rightarrow> node_spec list \<Rightarrow> node_spec list" where
  "merge_nodes existing patch = map snd (fold merge_step patch (fold (\<lambda>n. dict_set (ns_id n) n) existing []))"

definition load_manifests :: "'o bp_env \<Rightarrow> 'o registry \<Rightarrow> 'o registry" where
  "load_manifests env reg = fold (be_plugins env) (csv_env (be_manifests env)) reg"

definition text_field :: "node_spec \<Rightarrow> string \<Rightarrow> string option" where
  "text_field n k = (case dict_get (ns_extra n) k of Some (VStr s) \<Rightarrow> if s = '''' then None else Some s | _ \<Rightarrow> None)"

fun validate_allowed :: "'o bp_env \<Rightarrow> node_spec list \<Rightarrow> 'o registry \<Rightarrow> unit api \<times> 'o registry" where
  "validate_allowed env [] reg = (Inr (), reg)"
| "validate_allowed env (n # ns) reg =
     (if ns_type n = ''tool'' then (case text_field n ''tool_name'' of
          None \<Rightarrow> validate_allowed env ns reg
        | Some t \<Rightarrow> (let reg' = (if has_tool t reg then reg else load_manifests env reg)
            in if \<not> has_tool t reg' then (Inl (Http 422 (''Tool '' @ sq t @ '' is not registered'')), reg')
               else if \<not> is_component_allowed (fst (be_tools env)) (snd (be_tools env)) t
               then (Inl (Http 403 (''Tool '' @ sq t @ '' is not allowed'')), reg')
               else validate_allowed env ns reg'))
      else if ns_type n = ''agent'' then (case text_field n ''package'' of
          None \<Rightarrow> validate_allowed env ns reg
        | Some p \<Rightarrow> if \<not> is_component_allowed (fst (be_agents env)) (snd (be_agents env)) p
            then (Inl (Http 403 (''Agent '' @ sq p @ '' is not allowed'')), reg)
            else validate_allowed env ns reg)
      else validate_allowed env ns reg)"

section \<open>The table\<close>

definition new_row :: "'o bp_env \<Rightarrow> blueprint \<Rightarrow> bp_row" where
  "new_row env bp = \<lparr>br_version = bp_version bp, br_body = be_body env bp, br_lock = 1\<rparr>"

text \<open>The commit of a row that was read before, or of a new one. An update writes the columns whose values
  changed since the row was read; it fails when the row is gone, an insertion when there is one.\<close>

definition commit_row :: "'o bp_env \<Rightarrow> string \<Rightarrow> blueprint \<Rightarrow> bp_row option \<Rightarrow> bp_row dict \<Rightarrow> bp_row dict option" where
  "commit_row env i bp old rows = (case (old, dict_get rows i) of
       (None, None) \<Rightarrow> Some (dict_set i (new_row env bp) rows)
     | (Some r, Some now) \<Rightarrow> Some (dict_set i
         \<lparr>br_version = (if bp_version bp = br_version r then br_version now else bp_version bp),
          br_body = (if be_body env bp = br_body r then br_body now else be_body env bp), br_lock = br_lock r + 1\<rparr> rows)
     | _ \<Rightarrow> None)"

section \<open>Updates\<close>

datatype bp_op = OpPatch "val dict" | OpReplace "val dict"

datatype bp_reply = Patched string nat | Replaced string string

definition validated :: "'o bp_env \<Rightarrow> request \<Rightarrow> val \<Rightarrow> blueprint api" where
  "validated env q v = (case bp_validate env (rq_uuid q) v of
       None \<Rightarrow> Inl (Http 422 ''validation error for Blueprint'') | Some r \<Rightarrow> escaping r)"

fun parse_nodes :: "'o bp_env \<Rightarrow> val list \<Rightarrow> node_spec list api" where
  "parse_nodes env [] = Inr []"
| "parse_nodes env (v # vs) = (case be_node env v of
       None \<Rightarrow> Inl (Http 422 ''validation error for NodeSpec'')
     | Some n \<Rightarrow> api_bind (parse_nodes env vs) (\<lambda>ns. Inr (n # ns)))"

definition patch_nodes :: "'o bp_env \<Rightarrow> val dict \<Rightarrow> node_spec list api" where
  "patch_nodes env payload =
     api_bind (escaping (py_iter (dict_get_or payload ''nodes'' (VList [])))) (parse_nodes env)"

text \<open>The document that an update makes of the one it loaded.\<close>

fun updated_bp :: "'o bp_env \<Rightarrow> request \<Rightarrow> bp_op \<Rightarrow> blueprint \<Rightarrow> blueprint api" where
  "updated_bp env q (OpPatch payload) bp = api_bind (patch_nodes env payload) (\<lambda>ps.
     let bp' = bp\<lparr>bp_nodes := merge_nodes (bp_nodes bp) ps\<rparr>
     in api_bind (validated env q (be_dump env bp')) (\<lambda>_. Inr bp'))"
| "updated_bp env q (OpReplace payload) bp = validated env q (VDict payload)"

definition bp_update_body :: "'o bp_env \<Rightarrow> request \<Rightarrow> bp_op \<Rightarrow> blueprint \<Rightarrow> 'o registry \<Rightarrow> blueprint api \<times> 'o registry" where
  "bp_update_body env q op bp reg =
     (case api_bind (assert_version_lock q (calculate_version_lock env bp)) (\<lambda>_. updated_bp env q op bp) of
        Inl e \<Rightarrow> (Inl e, reg)
      | Inr bp' \<Rightarrow> (case validate_allowed env (bp_nodes bp') reg of
            (Inl e, r) \<Rightarrow> (Inl e, r)
          | (Inr _, r) \<Rightarrow> (Inr bp', r)))"

fun update_reply :: "'o bp_env \<Rightarrow> bp_op \<Rightarrow> string \<Rightarrow> blueprint \<Rightarrow> bp_reply" where
  "update_reply env (OpPatch _) i bp = Patched i (length (bp_nodes bp))"
| "update_reply env (OpReplace _) i bp = Replaced i (calculate_version_lock env bp)"

text \<open>Only the patch route catches the errors of the database.\<close>

fun db_error :: "bp_op \<Rightarrow> exn \<Rightarrow> api_error" where
  "db_error (OpPatch _) e = Http 503 ''Database unavailable for blueprint update''"
| "db_error (OpReplace _) e = Escaped e"

definition stale_data :: exn where
  "stale_data = Exn RuntimeError ''the row changed under the session''"

definition persist ::
  "'o bp_env \<Rightarrow> request \<Rightarrow> bp_op \<Rightarrow> string \<Rightarrow> blueprint \<Rightarrow> 'o bp_state \<Rightarrow> bp_reply api \<times> 'o bp_state" where
  "persist env q op i bp s = (case rq_write q of
       Some e \<Rightarrow> (Inl (db_error op e), s)
     | None \<Rightarrow> (case commit_row env i bp (dict_get (bs_rows s) i) (bs_rows s) of
           None \<Rightarrow> (Inl (db_error op stale_data), s)
         | Some rows \<Rightarrow> (Inr (update_reply env op i bp),
             s\<lparr>bs_rows := rows, bs_cache := save_blueprint env q i bp (bs_cache s)\<rparr>)))"

definition update_blueprint ::
  "'o bp_env \<Rightarrow> request \<Rightarrow> string \<Rightarrow> bp_op \<Rightarrow> 'o bp_state \<Rightarrow> bp_reply api \<times> 'o bp_state" where
  "update_blueprint env q i op s = (case load_blueprint env q i s of
       Inl e \<Rightarrow> (Inl e, s)
     | Inr bp \<Rightarrow> (case bp_update_body env q op bp (bs_reg s) of
           (Inl e, r) \<Rightarrow> (Inl e, s\<lparr>bs_reg := r\<rparr>)
         | (Inr bp', r) \<Rightarrow> persist env q op i bp' (s\<lparr>bs_reg := r\<rparr>)))"

definition patch_blueprint where
  "patch_blueprint env q i payload = update_blueprint env q i (OpPatch payload)"

definition replace_blueprint where
  "replace_blueprint env q i payload = update_blueprint env q i (OpReplace payload)"

section \<open>The other routes\<close>

definition create_blueprint_row :: "'o bp_env \<Rightarrow> request \<Rightarrow> blueprint \<Rightarrow> 'o bp_state \<Rightarrow> (string \<times> string) api \<times> 'o bp_state" where
  "create_blueprint_row env q bp s = (case assert_version_lock q ''__new__'' of
       Inl e \<Rightarrow> (Inl e, s)
     | Inr _ \<Rightarrow> (case validate_allowed env (bp_nodes bp) (bs_reg s) of
           (Inl e, r) \<Rightarrow> (Inl e, s\<lparr>bs_reg := r\<rparr>)
         | (Inr _, r) \<Rightarrow> if rq_write q \<noteq> None
             then (Inl (Http 503 ''Database unavailable for blueprint create''), s\<lparr>bs_reg := r\<rparr>)
             else (Inr (rq_uuid q, calculate_version_lock env bp),
               s\<lparr>bs_rows := dict_set (rq_uuid q) (new_row env bp) (bs_rows s),
                 bs_cache := save_blueprint env q (rq_uuid q) bp (bs_cache s), bs_reg := r\<rparr>)))"

definition read_blueprint :: "'o bp_env \<Rightarrow> request \<Rightarrow> string \<Rightarrow> 'o bp_state \<Rightarrow> (val \<times> string) api" where
  "read_blueprint env q i s =
     api_bind (load_blueprint env q i s) (\<lambda>bp. Inr (be_dump env bp, calculate_version_lock env bp))"

definition delete_blueprint :: "'o bp_env \<Rightarrow> request \<Rightarrow> string \<Rightarrow> 'o bp_state \<Rightarrow> unit api \<times> 'o bp_state" where
  "delete_blueprint env q i s =
     (case api_bind (load_blueprint env q i s) (\<lambda>bp. assert_version_lock q (calculate_version_lock env bp)) of
        Inl e \<Rightarrow> (Inl e, s)
      | Inr _ \<Rightarrow> (case rq_write q of
            Some e \<Rightarrow> (Inl (Escaped e), s)
          | None \<Rightarrow> (Inr (), s\<lparr>bs_rows := dict_pop i (bs_rows s),
              bs_cache := (if rq_save q = None then snd (hset (bp_key i) [(''json'', '''')] (bs_cache s)) else bs_cache s)\<rparr>)))"

definition clone_blueprint :: "'o bp_env \<Rightarrow> request \<Rightarrow> string \<Rightarrow> 'o bp_state \<Rightarrow> (string \<times> string) api \<times> 'o bp_state" where
  "clone_blueprint env q i s = (case load_blueprint env q i s of
       Inl e \<Rightarrow> (Inl e, s)
     | Inr bp \<Rightarrow> (case rq_write q of
           Some e \<Rightarrow> (Inl (Escaped e), s)
         | None \<Rightarrow> (case commit_row env (rq_uuid q) bp None (bs_rows s) of
               None \<Rightarrow> (Inl (Escaped stale_data), s)
             | Some rows \<Rightarrow> (Inr (rq_uuid q, calculate_version_lock env bp),
                 s\<lparr>bs_rows := rows, bs_cache := save_blueprint env q (rq_uuid q) bp (bs_cache s)\<rparr>))))"

section \<open>Updates interleaved\<close>

datatype bp_task =
    TLoad request string bp_op
  | TCache request string bp_op
  | TRow request string bp_op blueprint
  | TCommit request string bp_op blueprint "bp_row option"
  | TSave request string bp_op blueprint
  | TDone "bp_reply api"

definition after_load :: "'o bp_env \<Rightarrow> request \<Rightarrow> string \<Rightarrow> bp_op \<Rightarrow> blueprint \<Rightarrow> 'o bp_state \<Rightarrow> bp_task \<times> 'o bp_state" where
  "after_load env q i op bp s = (case bp_update_body env q op bp (bs_reg s) of
       (Inl e, r) \<Rightarrow> (TDone (Inl e), s\<lparr>bs_reg := r\<rparr>)
     | (Inr bp', r) \<Rightarrow> (TRow q i op bp', s\<lparr>bs_reg := r\<rparr>))"

fun bp_task_step :: "'o bp_env \<Rightarrow> bp_task \<Rightarrow> 'o bp_state \<Rightarrow> bp_task \<times> 'o bp_state" where
  "bp_task_step env (TLoad q i op) s = (case load_row env q i (bs_rows s) of
       Some bp \<Rightarrow> after_load env q i op bp s | None \<Rightarrow> (TCache q i op, s))"
| "bp_task_step env (TCache q i op) s = (case load_cache env q i (bs_cache s) of
       Some bp \<Rightarrow> after_load env q i op bp s | None \<Rightarrow> (TDone no_blueprint, s))"
| "bp_task_step env (TRow q i op bp) s = (case rq_write q of
       Some e \<Rightarrow> (TDone (Inl (db_error op e)), s)
     | None \<Rightarrow> (TCommit q i op bp (dict_get (bs_rows s) i), s))"
| "bp_task_step env (TCommit q i op bp old) s = (case commit_row env i bp old (bs_rows s) of
       None \<Rightarrow> (TDone (Inl (db_error op stale_data)), s)
     | Some rows \<Rightarrow> (TSave q i op bp, s\<lparr>bs_rows := rows\<rparr>))"
| "bp_task_step env (TSave q i op bp) s =
     (TDone (Inr (update_reply env op i bp)), s\<lparr>bs_cache := save_blueprint env q i bp (bs_cache s)\<rparr>)"
| "bp_task_step env (TDone a) s = (TDone a, s)"

fun bp_task_rank :: "bp_task \<Rightarrow> nat" where
  "bp_task_rank (TLoad _ _ _) = 5"
| "bp_task_rank (TCache _ _ _) = 4"
| "bp_task_rank (TRow _ _ _ _) = 3"
| "bp_task_rank (TCommit _ _ _ _ _) = 2"
| "bp_task_rank (TSave _ _ _ _) = 1"
| "bp_task_rank (TDone _) = 0"

lemma after_load_rank: "bp_task_rank (fst (after_load env q i op bp s)) \<le> 3"
  by (auto simp: after_load_def split: prod.split sum.split)

interpretation bp_tasks: finite_task "bp_task_step env" bp_task_rank for env
proof
  fix t s
  show "bp_task_rank (fst (bp_task_step env t s)) \<le> bp_task_rank t - 1"
    using after_load_rank[of env _ _ _ _ s] le_trans[OF after_load_rank[of env _ _ _ _ s], of 4]
    by (cases t) (simp_all split: option.split)
qed

section \<open>Merging nodes\<close>

definition last_with :: "string \<Rightarrow> node_spec list \<Rightarrow> node_spec option" where
  "last_with i ns = find (\<lambda>n. ns_id n = i) (rev ns)"

definition keyed :: "node_spec dict \<Rightarrow> bool" where
  "keyed m \<longleftrightarrow> dict_wf m \<and> (\<forall>k n. dict_get m k = Some n \<longrightarrow> ns_id n = k)"

lemma last_with_simps [simp]:
  "last_with i [] = None" "last_with i (ns @ [n]) = (if ns_id n = i then Some n else last_with i ns)"
  by (simp_all add: last_with_def)

lemma keyed_set: "keyed m \<Longrightarrow> keyed (dict_set (ns_id n) n m)"
  unfolding keyed_def by (auto simp del: dict_get_eq_None)

lemma keyed_pop: "keyed m \<Longrightarrow> keyed (dict_pop k m)"
  unfolding keyed_def by auto

lemma index_nodes:
  "keyed (fold (\<lambda>n. dict_set (ns_id n) n) ns [])"
  "dict_get (fold (\<lambda>n. dict_set (ns_id n) n) ns []) i = last_with i ns"
proof (induction ns rule: rev_induct)
  case (snoc n ns)
  { case 1
    show ?case using snoc.IH(1) by (simp add: keyed_set) }
  { case 2
    show ?case using snoc.IH(2) by simp }
qed (simp_all add: keyed_def)

lemma merge_steps:
  assumes "keyed m"
  shows "keyed (fold merge_step ps m)"
    and "dict_get (fold merge_step ps m) i = (case last_with i ps of
       None \<Rightarrow> dict_get m i | Some p \<Rightarrow> if ns_type p = ''__delete__'' then None else Some p)"
proof (induction ps rule: rev_induct)
  case (snoc p ps)
  { case 1
    show ?case using snoc.IH(1) assms by (simp add: merge_step_def keyed_set keyed_pop) }
  { case 2
    show ?case using snoc.IH(2) assms by (simp add: merge_step_def) }
qed (simp_all add: assms)

lemma keyed_values: "keyed m \<Longrightarrow> map ns_id (map snd m) = dict_keys m"
  "keyed m \<Longrightarrow> n \<in> set (map snd m) \<longleftrightarrow> dict_get m (ns_id n) = Some n"
proof -
  assume "keyed m"
  then have wf: "dict_wf m" and ids: "\<And>k n. dict_get m k = Some n \<Longrightarrow> ns_id n = k" unfolding keyed_def by blast+
  have "ns_id (snd p) = fst p" if "p \<in> set m" for p
    using ids[of "fst p" "snd p"] map_of_is_SomeI[OF wf, of "fst p" "snd p"] that by simp
  then show "map ns_id (map snd m) = dict_keys m" by simp
  show "n \<in> set (map snd m) \<longleftrightarrow> dict_get m (ns_id n) = Some n"
  proof
    assume "n \<in> set (map snd m)"
    then obtain k where "(k, n) \<in> set m" by auto
    then have get: "dict_get m k = Some n" by (rule map_of_is_SomeI[OF wf])
    show "dict_get m (ns_id n) = Some n" unfolding ids[OF get] by (rule get)
  next
    assume "dict_get m (ns_id n) = Some n"
    then have "(ns_id n, n) \<in> set m" by (rule map_of_SomeD)
    then show "n \<in> set (map snd m)" by (metis image_eqI list.set_map snd_conv)
  qed
qed

text \<open>(C27) After a patch every id is held once; a node is there exactly if it is the last the patch gives for its
  id, and no deletion, or the patch does not mention its id and the blueprint had it.\<close>

theorem merge_nodes_exact:
  "distinct (map ns_id (merge_nodes existing patch))
   \<and> (n \<in> set (merge_nodes existing patch) \<longleftrightarrow> (case last_with (ns_id n) patch of
        None \<Rightarrow> last_with (ns_id n) existing = Some n
      | Some p \<Rightarrow> n = p \<and> ns_type p \<noteq> ''__delete__''))"
proof -
  let ?m = "fold merge_step patch (fold (\<lambda>n. dict_set (ns_id n) n) existing [])"
  have m: "keyed ?m" by (rule merge_steps(1)[OF index_nodes(1)])
  have "n \<in> set (merge_nodes existing patch) \<longleftrightarrow> dict_get ?m (ns_id n) = Some n"
    unfolding merge_nodes_def by (rule keyed_values(2)[OF m])
  moreover have "distinct (map ns_id (merge_nodes existing patch))"
    unfolding merge_nodes_def keyed_values(1)[OF m] using m unfolding keyed_def by (rule conjunct1)
  moreover have "dict_get ?m (ns_id n) = Some n \<longleftrightarrow> (case last_with (ns_id n) patch of
        None \<Rightarrow> last_with (ns_id n) existing = Some n | Some p \<Rightarrow> n = p \<and> ns_type p \<noteq> ''__delete__'')"
  proof (cases "last_with (ns_id n) patch")
    case (Some p)
    show ?thesis unfolding merge_steps(2)[OF index_nodes(1)] Some by (cases "ns_type p = ''__delete__''") auto
  qed (simp only: merge_steps(2)[OF index_nodes(1)] index_nodes(2) option.case)
  ultimately show ?thesis by blast
qed

section \<open>What Pydantic reads back\<close>

text \<open>A document that was dumped validates again, up to the absent values that the dump leaves out.\<close>

definition reads_back :: "'o bp_env \<Rightarrow> bool" where
  "reads_back env \<longleftrightarrow> (\<forall>bp u. be_nodes env (be_dump env bp) = Some (bp_nodes bp)
     \<and> (refs_known (bp_nodes bp) \<longrightarrow> (\<exists>bp2. bp_validate env u (be_body env bp) = Some (Inr bp2) \<and> be_body env bp2 = be_body env bp)))"

definition rows_ok :: "'o bp_env \<Rightarrow> bp_row dict \<Rightarrow> bool" where
  "rows_ok env rows \<longleftrightarrow> (\<forall>i r. dict_get rows i = Some r \<longrightarrow> (\<exists>bp. refs_known (bp_nodes bp) \<and> br_body r = be_body env bp))"

lemma validate_refs: "validate_node_dependencies ns = Inr ns' \<longleftrightarrow> ns' = ns \<and> refs_known ns"
  by (auto simp: validate_node_dependencies_def missing_refs_nil[symmetric] split: list.split)

lemma bp_validate_Some: "bp_validate env u v = Some (Inr bp) \<longleftrightarrow> (\<exists>ns i ver md. be_nodes env v = Some ns \<and> refs_known ns
    \<and> be_rest env v = Some (i, ver, md)
    \<and> bp = \<lparr>bp_id = (case i of None \<Rightarrow> u | Some j \<Rightarrow> j), bp_version = ver, bp_nodes = ns, bp_metadata = md\<rparr>)"
proof (cases "be_nodes env v")
  case (Some ns)
  show ?thesis
  proof (cases "validate_node_dependencies ns")
    case (Inl e)
    then have "\<not> refs_known ns" using validate_refs[of ns ns] by auto
    then show ?thesis using Inl Some by (simp add: bp_validate_def)
  next
    case (Inr ns')
    then have "validate_node_dependencies ns = Inr ns" "refs_known ns" using validate_refs[of ns ns'] by auto
    then show ?thesis using Some by (auto simp: bp_validate_def blueprint_new_def)
  qed
qed (simp add: bp_validate_def)

lemma bp_validate_refs: "bp_validate env u v = Some (Inr bp) \<Longrightarrow> refs_known (bp_nodes bp)"
  by (auto simp: bp_validate_Some)

lemma valid_only_Some: "valid_only x = Some bp \<longleftrightarrow> x = Some (Inr bp)"
  by (cases x rule: valid_only.cases) auto

lemma validated_refs: "validated env q v = Inr bp \<Longrightarrow> bp_validate env (rq_uuid q) v = Some (Inr bp) \<and> refs_known (bp_nodes bp)"
  by (auto simp: validated_def escaping_def bp_validate_refs split: option.splits sum.splits)

lemma load_refs: "load_blueprint env q i s = Inr bp \<Longrightarrow> refs_known (bp_nodes bp)"
  by (auto simp: load_blueprint_def load_row_def load_cache_def no_blueprint_def valid_only_Some bind_eq_Some_conv bp_validate_refs
      split: option.splits if_splits)

lemma updated_refs: "reads_back env \<Longrightarrow> updated_bp env q op bp = Inr bp' \<Longrightarrow> refs_known (bp_nodes bp')"
proof (cases op)
  case (OpPatch p)
  assume *: "reads_back env" "updated_bp env q op bp = Inr bp'"
  then obtain x where "bp_validate env (rq_uuid q) (be_dump env bp') = Some (Inr x)"
    by (auto simp: OpPatch api_bind_Inr_iff Let_def dest!: validated_refs)
  then have "\<exists>ns. be_nodes env (be_dump env bp') = Some ns \<and> refs_known ns"
    by (auto simp: bp_validate_Some)
  then show ?thesis using *(1) by (auto simp: reads_back_def)
next
  case (OpReplace p)
  assume "reads_back env" "updated_bp env q op bp = Inr bp'"
  then show ?thesis by (auto simp: OpReplace dest: validated_refs)
qed

lemma body_refs: "reads_back env \<Longrightarrow> bp_update_body env q op bp reg = (Inr bp', r) \<Longrightarrow>
    refs_known (bp_nodes bp') \<and> rq_lock q = Some (calculate_version_lock env bp) \<and> updated_bp env q op bp = Inr bp'"
  by (auto simp: bp_update_body_def api_bind_Inr_iff assert_version_lock_def updated_refs
      split: sum.splits prod.splits option.splits if_splits)

lemma load_row_current:
  assumes "reads_back env" "rows_ok env rows" "dict_get rows i = Some r" "rq_load q = None"
  shows "\<exists>bp. load_row env q i rows = Some bp \<and> be_body env bp = br_body r"
proof -
  obtain b where "refs_known (bp_nodes b)" "br_body r = be_body env b" using assms(2,3) by (auto simp: rows_ok_def)
  then show ?thesis using assms(1,3,4) by (auto simp: load_row_def reads_back_def valid_only_Some)
qed

lemma commit_rows_ok:
  "rows_ok env rows \<Longrightarrow> refs_known (bp_nodes bp) \<Longrightarrow> commit_row env i bp old rows = Some rows' \<Longrightarrow> rows_ok env rows'"
proof -
  assume rows: "rows_ok env rows" and bp: "refs_known (bp_nodes bp)" and "commit_row env i bp old rows = Some rows'"
  then obtain r' where r': "rows' = dict_set i r' rows" "br_body r' = be_body env bp \<or> (\<exists>now. dict_get rows i = Some now \<and> br_body r' = br_body now)"
    by (auto simp: commit_row_def new_row_def split: option.splits)
  then have "\<exists>b. refs_known (bp_nodes b) \<and> br_body r' = be_body env b" using rows bp unfolding rows_ok_def by metis
  then show ?thesis using rows unfolding rows_ok_def r'(1) by simp
qed

section \<open>States that the routes reach\<close>

inductive bp_step :: "'o bp_env \<Rightarrow> bp_task list \<times> 'o bp_state \<Rightarrow> bp_task list \<times> 'o bp_state \<Rightarrow> bool" for env where
  arrive: "bp_step env (ts, s) (ts @ [TLoad q i op], s)"
| turn: "bp_step env (ts, s) (sched_step (bp_task_step env) j (ts, s))"
| create: "refs_known (bp_nodes bp) \<Longrightarrow> bp_step env (ts, s) (ts, snd (create_blueprint_row env q bp s))"
| remove: "bp_step env (ts, s) (ts, snd (delete_blueprint env q i s))"
| clone: "bp_step env (ts, s) (ts, snd (clone_blueprint env q i s))"

fun bp_task_ok :: "bp_task \<Rightarrow> bool" where
  "bp_task_ok (TRow _ _ _ bp) \<longleftrightarrow> refs_known (bp_nodes bp)"
| "bp_task_ok (TCommit _ _ _ bp _) \<longleftrightarrow> refs_known (bp_nodes bp)"
| "bp_task_ok _ \<longleftrightarrow> True"

definition bp_inv :: "'o bp_env \<Rightarrow> bp_task list \<times> 'o bp_state \<Rightarrow> bool" where
  "bp_inv env x \<longleftrightarrow> reads_back env \<and> rows_ok env (bs_rows (snd x)) \<and> list_all bp_task_ok (fst x)"

lemma after_load_ok:
  "reads_back env \<Longrightarrow> bp_task_ok (fst (after_load env q i op bp s)) \<and> bs_rows (snd (after_load env q i op bp s)) = bs_rows s"
  by (auto simp: after_load_def dest: body_refs split: prod.split sum.split)

lemma bp_task_step_ok:
  assumes "reads_back env" "rows_ok env (bs_rows s)" "bp_task_ok t"
  shows "rows_ok env (bs_rows (snd (bp_task_step env t s))) \<and> bp_task_ok (fst (bp_task_step env t s))"
  using assms after_load_ok[OF assms(1)] by (cases t) (auto simp: commit_rows_ok split: option.split)

lemma create_rows_ok: "rows_ok env (bs_rows s) \<Longrightarrow> refs_known (bp_nodes bp) \<Longrightarrow> rows_ok env (bs_rows (snd (create_blueprint_row env q bp s)))"
  by (auto simp: create_blueprint_row_def rows_ok_def new_row_def split: sum.split prod.split)

lemma delete_rows_ok: "rows_ok env (bs_rows s) \<Longrightarrow> rows_ok env (bs_rows (snd (delete_blueprint env q i s)))"
  by (auto simp: delete_blueprint_def rows_ok_def split: sum.split option.split)

lemma clone_rows_ok: "rows_ok env (bs_rows s) \<Longrightarrow> rows_ok env (bs_rows (snd (clone_blueprint env q i s)))"
  using commit_rows_ok load_refs by (fastforce simp: clone_blueprint_def split: sum.split option.split)

interpretation bp_routes: transition_system "bp_step env" "bp_inv env" for env
proof
  fix x y
  assume "bp_step env x y" "bp_inv env x"
  then show "bp_inv env y"
  proof (induction rule: bp_step.induct)
    case (turn ts s j)
    show ?case
    proof (cases "j < length ts")
      case True
      then have "bp_task_ok (ts ! j)" using turn by (simp add: bp_inv_def list_all_length)
      with turn True bp_task_step_ok[of env s "ts ! j"] show ?thesis
        by (auto simp: bp_inv_def sched_step_def list_all_length nth_list_update split: prod.splits)
    qed (use turn in \<open>simp add: sched_step_def\<close>)
  qed (simp_all add: bp_inv_def create_rows_ok delete_rows_ok clone_rows_ok)
qed

text \<open>(C24) In every state that the routes reach from an empty table, with updates interleaved in any order, every
  stored document loads as a blueprint whose lock is the hash of the stored document.\<close>

theorem stored_blueprints_load:
  assumes "(bp_step env)\<^sup>*\<^sup>* ([], \<lparr>bs_rows = [], bs_cache = c, bs_reg = g\<rparr>) (ts, s)" "reads_back env"
    and "dict_get (bs_rows s) i = Some r" "rq_load q = None"
  shows "\<exists>bp. load_blueprint env q i s = Inr bp \<and> calculate_version_lock env bp = doc_lock env (br_body r)"
proof -
  have "bp_inv env ([], \<lparr>bs_rows = [], bs_cache = c, bs_reg = g\<rparr>)" using assms(2) by (simp add: bp_inv_def rows_ok_def)
  then have "rows_ok env (bs_rows s)" using bp_routes.reach_inv[OF assms(1)] by (simp add: bp_inv_def)
  then obtain bp where "load_row env q i (bs_rows s) = Some bp" "be_body env bp = br_body r"
    using load_row_current[OF assms(2) _ assms(3,4)] by blast
  then show ?thesis by (simp add: load_blueprint_def calculate_version_lock_def)
qed

section \<open>Properties\<close>

text \<open>(C22) Without interference an update is a compare-and-swap: it is accepted only with the lock of the stored
  document, raises the counter of the row by one, touches no other row and is what a read then gives, with the
  lock of the new document. A refused update changes neither store.\<close>

theorem update_is_compare_and_swap:
  assumes "reads_back env" "rows_ok env (bs_rows s)" "dict_get (bs_rows s) i = Some r" "rq_load q = None"
    and "update_blueprint env q i op s = (a, s')"
  shows "case a of
      Inl e \<Rightarrow> bs_rows s' = bs_rows s \<and> bs_cache s' = bs_cache s
    | Inr reply \<Rightarrow> rq_lock q = Some (doc_lock env (br_body r)) \<and> (\<exists>bp r'. reply = update_reply env op i bp
        \<and> bs_rows s' = dict_set i r' (bs_rows s) \<and> br_body r' = be_body env bp \<and> br_lock r' = br_lock r + 1
        \<and> (\<forall>q'. rq_load q' = None \<longrightarrow> (\<exists>d. read_blueprint env q' i s' = Inr (d, calculate_version_lock env bp))))"
proof -
  obtain bp where bp: "load_row env q i (bs_rows s) = Some bp" "be_body env bp = br_body r"
    using load_row_current[OF assms(1-4)] by blast
  then have ld: "load_blueprint env q i s = Inr bp" by (simp add: load_blueprint_def)
  obtain x g where x: "bp_update_body env q op bp (bs_reg s) = (x, g)" by fastforce
  show ?thesis
  proof (cases x)
    case (Inl e)
    then show ?thesis using assms(5) by (auto simp: update_blueprint_def ld x)
  next
    case (Inr bp')
    have ok: "refs_known (bp_nodes bp')" "rq_lock q = Some (doc_lock env (br_body r))"
      using body_refs[OF assms(1) x[unfolded Inr]] by (simp_all add: calculate_version_lock_def bp(2))
    show ?thesis
    proof (cases "rq_write q")
      case (Some e)
      then show ?thesis using assms(5) by (auto simp: update_blueprint_def ld x Inr persist_def)
    next
      case None
      define r' where "r' = \<lparr>br_version = bp_version bp', br_body = be_body env bp', br_lock = br_lock r + 1\<rparr>"
      have commit: "commit_row env i bp' (Some r) (bs_rows s) = Some (dict_set i r' (bs_rows s))"
        by (simp add: commit_row_def assms(3) r'_def)
      then have run: "a = Inr (update_reply env op i bp')" "bs_rows s' = dict_set i r' (bs_rows s)"
        using assms(5) None by (auto simp: update_blueprint_def ld x Inr persist_def assms(3))
      have rd: "\<exists>d. read_blueprint env q' i s' = Inr (d, calculate_version_lock env bp')" if up: "rq_load q' = None" for q'
      proof -
        have "dict_get (bs_rows s') i = Some r'" by (simp add: run(2))
        moreover have "rows_ok env (bs_rows s')" using commit_rows_ok[OF assms(2) ok(1) commit] run(2) by simp
        ultimately obtain b where "load_row env q' i (bs_rows s') = Some b" "be_body env b = br_body r'"
          using load_row_current[OF assms(1), of "bs_rows s'" i r' q'] up by blast
        then show ?thesis by (simp add: read_blueprint_def load_blueprint_def calculate_version_lock_def r'_def)
      qed
      have "br_body r' = be_body env bp'" "br_lock r' = br_lock r + 1" by (simp_all add: r'_def)
      with rd run ok(2) show ?thesis by auto
    qed
  qed
qed

text \<open>Run alone, the steps of an update give what the route gives.\<close>

theorem update_alone_is_its_steps:
  "((\<lambda>(t, s). bp_task_step env t s) ^^ 5) (TLoad q i op, s) = (let (a, s') = update_blueprint env q i op s in (TDone a, s'))"
  by (simp add: eval_nat_numeral update_blueprint_def load_blueprint_def after_load_def no_blueprint_def persist_def
      split: option.split prod.split sum.split)

text \<open>(C25) Two updates that load the same document with its lock, each valid and allowed, are both accepted when
  their accesses interleave: the document of the second stays, the first is lost, and the counter of the row,
  which no one compares, has counted one update.\<close>

theorem interleaved_updates_lose_one:
  assumes "dict_get (bs_rows s) i = Some r" "load_row env q1 i (bs_rows s) = Some bp" "load_row env q2 i (bs_rows s) = Some bp"
    and "bp_update_body env q1 op1 bp (bs_reg s) = (Inr b1, bs_reg s)" "bp_update_body env q2 op2 bp (bs_reg s) = (Inr b2, bs_reg s)"
    and "rq_write q1 = None" "rq_write q2 = None" "be_body env b2 \<noteq> br_body r"
  shows "\<exists>s' r'. fold (sched_step (bp_task_step env)) [0, 1, 0, 1, 0, 1, 0, 1] ([TLoad q1 i op1, TLoad q2 i op2], s)
      = ([TDone (Inr (update_reply env op1 i b1)), TDone (Inr (update_reply env op2 i b2))], s')
    \<and> dict_get (bs_rows s') i = Some r' \<and> br_body r' = be_body env b2 \<and> br_lock r' = br_lock r + 1"
  using assms by (simp add: sched_step_def after_load_def commit_row_def)

text \<open>(C26) A deleted blueprint is gone only if Redis took the deletion. Otherwise it is read from the old copy, and an
  update with the lock of that copy stores it again, as a new row.\<close>

theorem deleted_blueprint_returns:
  assumes "delete_blueprint env q i s = (Inr (), s')" "rq_load q' = None"
  shows "load_blueprint env q' i s' =
      (if rq_save q = None then no_blueprint
       else (case load_cache env q' i (bs_cache s) of None \<Rightarrow> no_blueprint | Some bp \<Rightarrow> Inr bp))
    \<and> (\<forall>bp op bp' g. load_blueprint env q' i s' = Inr bp \<longrightarrow> bp_update_body env q' op bp (bs_reg s') = (Inr bp', g) \<longrightarrow> rq_write q' = None
      \<longrightarrow> dict_get (bs_rows (snd (update_blueprint env q' i op s'))) i = Some (new_row env bp'))"
proof -
  have s': "dict_get (bs_rows s') i = None"
    "bs_cache s' = (if rq_save q = None then snd (hset (bp_key i) [(''json'', '''')] (bs_cache s)) else bs_cache s)"
    using assms(1) by (auto simp: delete_blueprint_def split: sum.splits option.splits)
  have "load_blueprint env q' i s' = (if rq_save q = None then no_blueprint
       else (case load_cache env q' i (bs_cache s) of None \<Rightarrow> no_blueprint | Some bp \<Rightarrow> Inr bp))"
    using s' assms(2) by (simp add: load_blueprint_def load_row_def load_cache_def)
  moreover have "dict_get (bs_rows (snd (update_blueprint env q' i op s'))) i = Some (new_row env bp')"
    if "load_blueprint env q' i s' = Inr bp" "bp_update_body env q' op bp (bs_reg s') = (Inr bp', g)" "rq_write q' = None" for bp op bp' g
    using s'(1) that by (simp add: update_blueprint_def persist_def commit_row_def)
  ultimately show ?thesis by blast
qed

text \<open>A patch that leaves a dependency dangling is not answered as invalid: the error of the model's validator
  is none of Pydantic's and leaves the route.\<close>

theorem dangling_patch_escapes:
  assumes "reads_back env" "load_blueprint env q i s = Inr bp" "rq_lock q = Some (calculate_version_lock env bp)"
    and "patch_nodes env payload = Inr ps" "\<not> refs_known (merge_nodes (bp_nodes bp) ps)"
  shows "\<exists>m. patch_blueprint env q i payload s = (Inl (Escaped (Exn ValidationError m)), s)"
proof -
  let ?bp = "bp\<lparr>bp_nodes := merge_nodes (bp_nodes bp) ps\<rparr>"
  obtain m where "validate_node_dependencies (merge_nodes (bp_nodes bp) ps) = Inl (Exn ValidationError m)"
    using assms(5) by (cases "missing_refs (merge_nodes (bp_nodes bp) ps)")
      (auto simp: validate_node_dependencies_def missing_refs_nil)
  moreover have "be_nodes env (be_dump env ?bp) = Some (merge_nodes (bp_nodes bp) ps)" using assms(1) by (simp add: reads_back_def)
  ultimately have "validated env q (be_dump env ?bp) = Inl (Escaped (Exn ValidationError m))"
    by (simp add: validated_def bp_validate_def)
  then show ?thesis
    using assms(2-4) by (simp add: patch_blueprint_def update_blueprint_def bp_update_body_def assert_version_lock_def Let_def)
qed

section \<open>Instances\<close>

definition enc_node :: "node_spec \<Rightarrow> val" where
  "enc_node n = VList [VStr (ns_id n), VStr (ns_type n), VList (map VStr (ns_deps n)), VDict (ns_extra n)]"

definition enc_bp :: "blueprint \<Rightarrow> val" where
  "enc_bp bp = VDict [(''id'', VStr (bp_id bp)), (''v'', VStr (bp_version bp)), (''nodes'', VList (map enc_node (bp_nodes bp))),
     (''md'', VDict (bp_metadata bp))]"

fun dec_str :: "val \<Rightarrow> string" where
  "dec_str (VStr s) = s"
| "dec_str _ = ''''"

fun dec_node :: "val \<Rightarrow> node_spec option" where
  "dec_node (VList [VStr i, VStr t, VList ds, VDict e]) = Some \<lparr>ns_id = i, ns_type = t, ns_deps = map dec_str ds, ns_extra = e\<rparr>"
| "dec_node _ = None"

fun dec_nodes :: "val \<Rightarrow> node_spec list option" where
  "dec_nodes (VDict d) = (case dict_get d ''nodes'' of Some (VList vs) \<Rightarrow> Some (map (\<lambda>v. the (dec_node v)) vs) | _ \<Rightarrow> None)"
| "dec_nodes _ = None"

fun dec_rest :: "val \<Rightarrow> (string option \<times> string \<times> val dict) option" where
  "dec_rest (VDict d) = (case (dict_get d ''v'', dict_get d ''md'') of
      (Some (VStr v), Some (VDict md)) \<Rightarrow> Some (map_option dec_str (dict_get d ''id''), v, md) | _ \<Rightarrow> None)"
| "dec_rest _ = None"

definition plain_bp :: "string \<Rightarrow> blueprint" where
  "plain_bp v = \<lparr>bp_id = ''b'', bp_version = v, bp_nodes = [], bp_metadata = []\<rparr>"

definition plain_payload :: "string \<Rightarrow> val dict" where
  "plain_payload v = [(''id'', VStr ''b''), (''v'', VStr v), (''nodes'', VList []), (''md'', VDict [])]"

definition demo_bps :: "nat bp_env" where
  "demo_bps = \<lparr>be_nodes = dec_nodes, be_rest = dec_rest, be_node = dec_node, be_body = enc_bp, be_dump = enc_bp,
     be_json = bp_version, be_parse = (\<lambda>s. Some (enc_bp (plain_bp s))),
     be_text = (\<lambda>v. case v of VDict d \<Rightarrow> dec_str (dict_get_or d ''v'' VNone) | _ \<Rightarrow> ''''), be_sha = (\<lambda>s. s),
     be_plugins = (\<lambda>_ r. r), be_manifests = '''', be_tools = ([], []), be_agents = ([], [])\<rparr>"

definition asking :: "string \<Rightarrow> request" where
  "asking l = \<lparr>rq_lock = Some l, rq_uuid = ''b'', rq_load = None, rq_cache = None, rq_write = None, rq_save = None\<rparr>"

definition empty_bps :: "nat bp_state" where
  "empty_bps = \<lparr>bs_rows = [], bs_cache = redis_new, bs_reg = registry_new\<rparr>"

definition one_bp :: "nat bp_state" where
  "one_bp = snd (create_blueprint_row demo_bps (asking ''__new__'') (plain_bp ''1'') empty_bps)"

lemma asking_simps [simp]:
  "rq_lock (asking l) = Some l" "rq_uuid (asking l) = ''b''" "rq_load (asking l) = None" "rq_cache (asking l) = None"
  "rq_write (asking l) = None" "rq_save (asking l) = None"
  by (simp_all add: asking_def)

lemma dec_enc: "dec_node (enc_node n) = Some n" "dec_nodes (enc_bp bp) = Some (bp_nodes bp)"
    "dec_rest (enc_bp bp) = Some (Some (bp_id bp), bp_version bp, bp_metadata bp)"
proof -
  show one: "dec_node (enc_node n) = Some n" for n by (cases n) (simp add: enc_node_def comp_def)
  show "dec_nodes (enc_bp bp) = Some (bp_nodes bp)" by (simp add: enc_bp_def comp_def one)
  show "dec_rest (enc_bp bp) = Some (Some (bp_id bp), bp_version bp, bp_metadata bp)" by (simp add: enc_bp_def)
qed

lemma demo_bps_simps [simp]:
  "be_nodes demo_bps = dec_nodes" "be_rest demo_bps = dec_rest" "be_node demo_bps = dec_node" "be_body demo_bps = enc_bp" "be_dump demo_bps = enc_bp"
  "be_json demo_bps = bp_version" "be_parse demo_bps s = Some (enc_bp (plain_bp s))"
  by (simp_all add: demo_bps_def)

lemma demo_validates: "refs_known (bp_nodes bp) \<Longrightarrow> bp_validate demo_bps u (enc_bp bp) = Some (Inr bp)"
  by (cases bp) (simp add: bp_validate_Some dec_enc)

lemma demo_reads_back: "reads_back demo_bps"
  by (simp add: reads_back_def dec_enc demo_validates)

lemma plain_refs: "refs_known (bp_nodes (plain_bp v))"
  by (simp add: plain_bp_def refs_known_def)

lemma plain_encoded: "VDict (plain_payload v) = enc_bp (plain_bp v)"
  by (simp add: plain_payload_def enc_bp_def plain_bp_def)

lemma plain_lock: "calculate_version_lock demo_bps (plain_bp v) = v" "doc_lock demo_bps (enc_bp (plain_bp v)) = v"
  by (simp_all add: calculate_version_lock_def doc_lock_def enc_bp_def plain_bp_def demo_bps_def dict_get_or_def)

lemma plain_update:
  "bp_update_body demo_bps (asking l) (OpReplace (plain_payload v)) (plain_bp l) g = (Inr (plain_bp v), g)"
  by (simp add: bp_update_body_def assert_version_lock_def plain_lock validated_def plain_encoded
      demo_validates plain_refs) (simp add: plain_bp_def)

lemma one_bp_simps:
  "bs_rows one_bp = [(''b'', new_row demo_bps (plain_bp ''1''))]" "bs_reg one_bp = registry_new"
  "hget (bp_key ''b'') ''json'' (bs_cache one_bp) = Some ''1''"
  by (simp_all add: one_bp_def create_blueprint_row_def assert_version_lock_def empty_bps_def plain_bp_def
      save_blueprint_def)

lemma one_bp_load: "load_row demo_bps (asking l) ''b'' (bs_rows one_bp) = Some (plain_bp ''1'')"
  by (simp add: load_row_def one_bp_simps new_row_def demo_validates plain_refs)

lemma one_bp_ok: "rows_ok demo_bps (bs_rows one_bp)"
  unfolding rows_ok_def one_bp_simps using plain_refs by (auto simp: new_row_def)

theorem stored_blueprints_load_witness:
  "\<exists>bp. load_blueprint demo_bps (asking '''') ''b'' one_bp = Inr bp
    \<and> calculate_version_lock demo_bps bp = doc_lock demo_bps (enc_bp (plain_bp ''1''))"
proof -
  have "(bp_step demo_bps)\<^sup>*\<^sup>* ([], empty_bps) ([], one_bp)"
    unfolding one_bp_def by (rule r_into_rtranclp, rule bp_step.create, rule plain_refs)
  from stored_blueprints_load [OF this[unfolded empty_bps_def] demo_reads_back, of "''b''" _ "asking ''''"] show ?thesis
    by (simp add: one_bp_simps new_row_def)
qed

theorem update_is_compare_and_swap_witness:
  "\<exists>s' r'. replace_blueprint demo_bps (asking ''1'') ''b'' (plain_payload ''2'') one_bp = (Inr (Replaced ''b'' ''2''), s')
    \<and> bs_rows s' = [(''b'', r')] \<and> br_lock r' = 2"
proof -
  obtain a s' where run: "update_blueprint demo_bps (asking ''1'') ''b'' (OpReplace (plain_payload ''2'')) one_bp = (a, s')" by fastforce
  have a: "a = Inr (Replaced ''b'' ''2'')"
    using run by (simp add: update_blueprint_def load_blueprint_def one_bp_load plain_update persist_def plain_lock)
      (auto simp: commit_row_def one_bp_simps plain_lock)
  show ?thesis
    using update_is_compare_and_swap [OF demo_reads_back one_bp_ok _ _ run] run a
    by (auto simp: replace_blueprint_def one_bp_simps new_row_def)
qed

theorem interleaved_updates_lose_one_witness:
  "\<exists>s' r'. fold (sched_step (bp_task_step demo_bps)) [0, 1, 0, 1, 0, 1, 0, 1]
        ([TLoad (asking ''1'') ''b'' (OpReplace (plain_payload ''2'')), TLoad (asking ''1'') ''b'' (OpReplace (plain_payload ''3''))], one_bp)
      = ([TDone (Inr (Replaced ''b'' ''2'')), TDone (Inr (Replaced ''b'' ''3''))], s')
    \<and> dict_get (bs_rows s') ''b'' = Some r' \<and> br_body r' = enc_bp (plain_bp ''3'') \<and> br_lock r' = 2"
proof -
  have "dict_get (bs_rows one_bp) ''b'' = Some (new_row demo_bps (plain_bp ''1''))" by (simp add: one_bp_simps)
  moreover have "enc_bp (plain_bp ''3'') \<noteq> enc_bp (plain_bp ''1'')" by (simp add: enc_bp_def plain_bp_def)
  ultimately show ?thesis
    using interleaved_updates_lose_one [OF _ one_bp_load one_bp_load plain_update plain_update, of "new_row demo_bps (plain_bp ''1'')" "''3''" "''2''"]
    by (simp add: new_row_def plain_lock)
qed

theorem deleted_blueprint_returns_witness:
  "\<exists>s'. delete_blueprint demo_bps ((asking ''1'')\<lparr>rq_save := Some stale_data\<rparr>) ''b'' one_bp = (Inr (), s')
    \<and> load_blueprint demo_bps (asking ''1'') ''b'' s' = Inr (plain_bp ''1'')
    \<and> dict_get (bs_rows (snd (replace_blueprint demo_bps (asking ''1'') ''b'' (plain_payload ''2'') s'))) ''b''
        = Some (new_row demo_bps (plain_bp ''2''))"
proof -
  let ?q = "(asking ''1'')\<lparr>rq_save := Some stale_data\<rparr>"
  have "load_row demo_bps ?q ''b'' (bs_rows one_bp) = Some (plain_bp ''1'')"
    using one_bp_load[of "''1''"] by (simp add: load_row_def)
  then have del: "delete_blueprint demo_bps ?q ''b'' one_bp = (Inr (), one_bp\<lparr>bs_rows := dict_pop ''b'' (bs_rows one_bp)\<rparr>)"
    by (simp add: delete_blueprint_def load_blueprint_def assert_version_lock_def plain_lock)
  have "load_cache demo_bps (asking ''1'') ''b'' (bs_cache one_bp) = Some (plain_bp ''1'')"
    by (simp add: load_cache_def one_bp_simps demo_validates plain_refs)
  then show ?thesis
    using deleted_blueprint_returns [OF del, of "asking ''1''"] del plain_update unfolding replace_blueprint_def by fastforce
qed

definition pair_payload :: "val dict" where
  "pair_payload = [(''nodes'', VList [enc_node \<lparr>ns_id = ''x'', ns_type = ''tool'', ns_deps = [''y''], ns_extra = []\<rparr>])]"

theorem dangling_patch_escapes_witness:
  "\<exists>m. patch_blueprint demo_bps (asking ''1'') ''b'' pair_payload one_bp = (Inl (Escaped (Exn ValidationError m)), one_bp)"
proof -
  have "load_blueprint demo_bps (asking ''1'') ''b'' one_bp = Inr (plain_bp ''1'')" by (simp add: load_blueprint_def one_bp_load)
  moreover have "patch_nodes demo_bps pair_payload = Inr [\<lparr>ns_id = ''x'', ns_type = ''tool'', ns_deps = [''y''], ns_extra = []\<rparr>]"
    by (simp add: patch_nodes_def pair_payload_def dict_get_or_def dec_enc)
  moreover have "\<not> refs_known (merge_nodes (bp_nodes (plain_bp ''1'')) [\<lparr>ns_id = ''x'', ns_type = ''tool'', ns_deps = [''y''], ns_extra = []\<rparr>])"
    by (simp add: merge_nodes_def plain_bp_def merge_step_def refs_known_def)
  moreover have "rq_lock (asking ''1'') = Some (calculate_version_lock demo_bps (plain_bp ''1''))" by (simp add: plain_lock)
  ultimately show ?thesis by (intro dangling_patch_escapes [OF demo_reads_back])
qed

end
