(* ===== verification/Execs.thy ===== *)
theory Execs
  imports Service BpStore
begin

text \<open>
  Executions (\<open>src/ice_api/api/executions.py\<close>): a request starts a run of a stored blueprint as a background
  task; its state is kept in the process, in the table \<open>executions\<close> and in Redis. The runner is cut at its
  awaits (\<open>exec_step\<close>), so that runs, cancellations and reads interleave; the run of the workflow itself is one
  step, since nothing else reads what it changes. A run need not come back: one that hangs on the semaphore of a
  level (\<open>GatedRuns\<close>) is a sequence of steps (\<open>executions_step\<close>) in which the step after \<open>XRun\<close> never comes, and
  the invariants cover those sequences. What is stated of the six turns of a task (\<open>exec_turn\<close>) is stated of runs
  that do come back.

  Parameters: those of stored blueprints and of the execution service, the dump of a result, its JSON text and
  the value that the JSON column can hold of it (\<open>xe_cost\<close>, none when the serialiser raises), and the settings.
  A request, and a run (\<open>faults\<close>), says which of its accesses raise; the runner ignores all of them.
\<close>

section \<open>State\<close>

record execution =
  xr_status :: string
  xr_bp :: string
  xr_result :: "val option"
  xr_error :: "string option"
  xr_notified :: bool

record execution_row =
  er_bp :: string
  er_status :: string
  er_cost :: "val option"
  er_started :: bool
  er_finished :: bool

record ('o, 'x) executions_env =
  xe_bp :: "'o bp_env"
  xe_sv :: "('o, 'x) service_env"
  xe_available :: bool
  xe_sync :: bool
  xe_dump :: "node_result \<Rightarrow> val"
  xe_json :: "node_result \<Rightarrow> string"
  xe_cost :: "node_result \<Rightarrow> val option"
  xe_provider :: "llm_fields \<Rightarrow> string option"
  xe_budget :: "rat option"

record ('o, 'x) executions =
  xs_local :: "blueprint dict"
  xs_kv :: "string list dict"
  xs_mem :: "execution dict"
  xs_rows :: "execution_row dict"
  xs_bps :: "bp_row dict"
  xs_cache :: redis
  xs_service :: "('o, 'x) service"

record faults =
  rf_running :: bool
  rf_running_cache :: bool
  rf_done :: bool
  rf_done_cache :: bool

definition exec_key :: "string \<Rightarrow> string" where
  "exec_key i = ''exec:'' @ i"

text \<open>An update of the entry, if there is one.\<close>

definition on_entry :: "('v \<Rightarrow> 'v) \<Rightarrow> string \<Rightarrow> 'v dict \<Rightarrow> 'v dict" where
  "on_entry f i d = (case dict_get d i of None \<Rightarrow> d | Some v \<Rightarrow> dict_set i (f v) d)"

definition cache_exec :: "bool \<Rightarrow> string \<Rightarrow> string dict \<Rightarrow> redis \<Rightarrow> redis" where
  "cache_exec fails i m c = (if fails then c else snd (hset (exec_key i) m c))"

section \<open>Start\<close>

record start_request =
  sr_blueprint :: string
  sr_inputs :: "val dict option"
  sr_project :: "string option"
  sr_id :: string
  sr_access :: request
  sr_project_fails :: bool
  sr_insert_fails :: bool
  sr_cache_fails :: bool

definition project_key :: "string \<Rightarrow> string" where
  "project_key p = ''pr:'' @ p @ '':blueprints''"

definition project_ids :: "start_request \<Rightarrow> string \<Rightarrow> ('o, 'x) executions \<Rightarrow> string list" where
  "project_ids q p s = (let ids = (if sr_project_fails q then [] else lrange (project_key p) 0 (-1) (xs_cache s))
     in if ids = [] then dict_get_or (xs_kv s) (project_key p) [] else ids)"

definition project_allows :: "start_request \<Rightarrow> ('o, 'x) executions \<Rightarrow> bool" where
  "project_allows q s \<longleftrightarrow> (case present (sr_project q) of None \<Rightarrow> True
     | Some p \<Rightarrow> project_ids q p s = [] \<or> sr_blueprint q \<in> set (project_ids q p s))"

definition find_blueprint :: "('o, 'x) executions_env \<Rightarrow> request \<Rightarrow> string \<Rightarrow> ('o, 'x) executions \<Rightarrow> blueprint api" where
  "find_blueprint env q i s = (case dict_get (xs_local s) i of
       Some bp \<Rightarrow> Inr bp
     | None \<Rightarrow> load_blueprint (xe_bp env) q i \<lparr>bs_rows = xs_bps s, bs_cache = xs_cache s, bs_reg = se_registry (xs_service s)\<rparr>)"

text \<open>The estimate of the cost; a blueprint that does not convert passes.\<close>

definition preflight :: "('o, 'x) executions_env \<Rightarrow> blueprint \<Rightarrow> 'o registry \<Rightarrow> bool \<times> 'o registry" where
  "preflight env bp reg = (case convert_with (xe_sv env) (bp_nodes bp) reg of
       (Inl e, r) \<Rightarrow> (True, r)
     | (Inr ns, r) \<Rightarrow> (case xe_budget env of None \<Rightarrow> True
         | Some b \<Rightarrow> we_avg (estimate_workflow_cost (xe_provider env) ns 1000) \<le> b, r))"

datatype exec_task =
    XStart faults string blueprint "val dict option"
  | XRow faults string blueprint "val dict option"
  | XCache faults string blueprint "val dict option"
  | XRun faults string blueprint "val dict option"
  | XDone faults string "node_result res"
  | XSave faults string "node_result res"
  | XEnd

text \<open>The row is inserted if the table of blueprints has the blueprint it refers to.\<close>

definition register_execution :: "start_request \<Rightarrow> ('o, 'x) executions \<Rightarrow> ('o, 'x) executions" where
  "register_execution q s =
     (let i = sr_id q; b = sr_blueprint q
      in s\<lparr>xs_mem := dict_set i \<lparr>xr_status = ''pending'', xr_bp = b, xr_result = None, xr_error = None, xr_notified = False\<rparr> (xs_mem s),
        xs_rows := (if sr_insert_fails q \<or> dict_get (xs_bps s) b = None \<or> dict_get (xs_rows s) i \<noteq> None then xs_rows s
          else dict_set i \<lparr>er_bp = b, er_status = ''pending'', er_cost = None, er_started = False, er_finished = False\<rparr> (xs_rows s)),
        xs_cache := cache_exec (sr_cache_fails q) i [(''status'', ''pending''), (''blueprint_id'', b)] (xs_cache s)\<rparr>)"

text \<open>The answer with the background task, if one was created.\<close>

definition start_execution ::
  "('o, 'x) executions_env \<Rightarrow> faults \<Rightarrow> start_request \<Rightarrow> ('o, 'x) executions \<Rightarrow> string api \<times> exec_task list \<times> ('o, 'x) executions" where
  "start_execution env f q s =
     (if \<not> project_allows q s then (Inl (Http 403 ''blueprint not associated with project''), [], s)
      else (case find_blueprint env (sr_access q) (sr_blueprint q) s of
          Inl e \<Rightarrow> (Inl e, [], s)
        | Inr bp \<Rightarrow> (let (ok, r) = preflight env bp (se_registry (xs_service s));
                s1 = s\<lparr>xs_service := (xs_service s)\<lparr>se_registry := r\<rparr>\<rparr>
            in if \<not> ok then (over_budget_error, [], s1)
               else (Inr (sr_id q), [XStart f (sr_id q) bp (sr_inputs q)], register_execution q s1))))"

section \<open>The runner\<close>

definition fallback_run ::
  "('o, 'x) service_env \<Rightarrow> node_spec list \<Rightarrow> val dict option \<Rightarrow> string \<Rightarrow> ('o, 'x) service \<Rightarrow> node_result res \<times> ('o, 'x) service" where
  "fallback_run env specs inputs name s = (case convert_with env specs (se_registry s) of
       (Inl e, r) \<Rightarrow> (Inl e, s\<lparr>se_registry := r\<rparr>)
     | (Inr nodes, r) \<Rightarrow> (case new_workflow env nodes (sv_session env [] (se_outside s)) r of
           (Inl e, r1) \<Rightarrow> (Inl e, s\<lparr>se_registry := r1\<rparr>)
         | (Inr w, r1) \<Rightarrow> execute_workflow env w inputs name (s\<lparr>se_registry := r1\<rparr>)))"

definition run_service ::
  "('o, 'x) service_env \<Rightarrow> node_spec list \<Rightarrow> val dict option \<Rightarrow> string \<Rightarrow> ('o, 'x) service \<Rightarrow> node_result res \<times> ('o, 'x) service" where
  "run_service env specs inputs name s = (case execute_blueprint env specs inputs name s of
       (Inr r, s1) \<Rightarrow> (Inr r, s1) | (Inl e, s1) \<Rightarrow> fallback_run env specs inputs name s1)"

fun outcome_record :: "('o, 'x) executions_env \<Rightarrow> node_result res \<Rightarrow> execution \<Rightarrow> execution" where
  "outcome_record env (Inr r) x = x\<lparr>xr_status := ''completed'', xr_result := Some (xe_dump env r), xr_notified := True\<rparr>"
| "outcome_record env (Inl e) x = x\<lparr>xr_status := ''failed'', xr_error := Some (exn_msg e), xr_notified := True\<rparr>"

fun outcome_row :: "('o, 'x) executions_env \<Rightarrow> node_result res \<Rightarrow> execution_row \<Rightarrow> execution_row" where
  "outcome_row env (Inr r) x = (case xe_cost env r of None \<Rightarrow> x
     | Some c \<Rightarrow> x\<lparr>er_status := ''completed'', er_cost := Some c, er_finished := True\<rparr>)"
| "outcome_row env (Inl e) x = x\<lparr>er_status := ''failed'', er_finished := True\<rparr>"

fun outcome_fields :: "('o, 'x) executions_env \<Rightarrow> node_result res \<Rightarrow> string dict" where
  "outcome_fields env (Inr r) = [(''status'', ''completed''), (''result'', xe_json env r)]"
| "outcome_fields env (Inl e) = [(''status'', ''failed''), (''error'', exn_msg e)]"

definition bp_of :: "string \<Rightarrow> execution dict \<Rightarrow> string" where
  "bp_of i m = (case dict_get m i of None \<Rightarrow> '''' | Some x \<Rightarrow> xr_bp x)"

fun exec_step :: "('o, 'x) executions_env \<Rightarrow> exec_task \<Rightarrow> ('o, 'x) executions \<Rightarrow> exec_task \<times> ('o, 'x) executions" where
  "exec_step env (XStart f i bp inp) s = (if \<not> xe_available env then (XEnd, s)
     else (XRow f i bp inp, s\<lparr>xs_mem := on_entry (\<lambda>x. x\<lparr>xr_status := ''running'', xr_notified := True\<rparr>) i (xs_mem s)\<rparr>))"
| "exec_step env (XRow f i bp inp) s = (XCache f i bp inp, s\<lparr>xs_rows := (if rf_running f then xs_rows s
     else on_entry (\<lambda>r. r\<lparr>er_status := ''running'', er_started := True\<rparr>) i (xs_rows s))\<rparr>)"
| "exec_step env (XCache f i bp inp) s = (XRun f i bp inp,
     s\<lparr>xs_cache := cache_exec (rf_running_cache f) i [(''status'', ''running''), (''blueprint_id'', bp_of i (xs_mem s))] (xs_cache s)\<rparr>)"
| "exec_step env (XRun f i bp inp) s = (case run_service (xe_sv env) (bp_nodes bp) inp (''run_'' @ i) (xs_service s) of
     (a, sv) \<Rightarrow> (XDone f i a, s\<lparr>xs_mem := on_entry (outcome_record env a) i (xs_mem s), xs_service := sv\<rparr>))"
| "exec_step env (XDone f i a) s = (XSave f i a,
     s\<lparr>xs_rows := (if rf_done f then xs_rows s else on_entry (outcome_row env a) i (xs_rows s))\<rparr>)"
| "exec_step env (XSave f i a) s = (XEnd, s\<lparr>xs_cache := cache_exec (rf_done_cache f) i (outcome_fields env a) (xs_cache s)\<rparr>)"
| "exec_step env XEnd s = (XEnd, s)"

fun exec_rank :: "exec_task \<Rightarrow> nat" where
  "exec_rank (XStart _ _ _ _) = 6"
| "exec_rank (XRow _ _ _ _) = 5"
| "exec_rank (XCache _ _ _ _) = 4"
| "exec_rank (XRun _ _ _ _) = 3"
| "exec_rank (XDone _ _ _) = 2"
| "exec_rank (XSave _ _ _) = 1"
| "exec_rank XEnd = 0"

interpretation exec_tasks: finite_task "exec_step env" exec_rank for env
proof
  fix t and s :: "('a, 'b) executions"
  show "exec_rank (fst (exec_step env t s)) \<le> exec_rank t - 1"
    by (cases t) (simp_all split: prod.split)
qed

section \<open>The other routes\<close>

record status_answer =
  sa_status :: string
  sa_bp :: "string option"
  sa_result :: "val option"
  sa_error :: "string option"

definition only_dict :: "val option \<Rightarrow> val option" where
  "only_dict v = (case v of Some (VDict d) \<Rightarrow> Some (VDict d) | _ \<Rightarrow> None)"

text \<open>Under test the state of the process answers; otherwise the table alone.\<close>

definition execution_status :: "('o, 'x) executions_env \<Rightarrow> exn option \<Rightarrow> string \<Rightarrow> ('o, 'x) executions \<Rightarrow> status_answer api" where
  "execution_status env down i s = (case (if xe_sync env then dict_get (xs_mem s) i else None) of
       Some x \<Rightarrow> Inr \<lparr>sa_status = xr_status x, sa_bp = present (Some (xr_bp x)), sa_result = only_dict (xr_result x),
         sa_error = present (xr_error x)\<rparr>
     | None \<Rightarrow> (case down of
           Some e \<Rightarrow> Inl (Escaped e)
         | None \<Rightarrow> (case dict_get (xs_rows s) i of
               None \<Rightarrow> Inl (Http 404 ''Execution not found'')
             | Some r \<Rightarrow> Inr \<lparr>sa_status = er_status r, sa_bp = Some (er_bp r), sa_result = only_dict (er_cost r), sa_error = None\<rparr>)))"

definition list_executions :: "exn option \<Rightarrow> ('o, 'x) executions \<Rightarrow> (string \<times> string \<times> string) list api" where
  "list_executions down s = (case down of Some e \<Rightarrow> Inl (Escaped e)
     | None \<Rightarrow> Inr (map (\<lambda>(i, r). (i, er_status r, er_bp r)) (xs_rows s)))"

definition cancel_execution :: "exn option \<Rightarrow> bool \<Rightarrow> string \<Rightarrow> ('o, 'x) executions \<Rightarrow> unit api \<times> ('o, 'x) executions" where
  "cancel_execution down cache_fails i s =
     (let c = cache_exec cache_fails i [(''status'', ''failed''), (''error'', ''canceled'')] (xs_cache s)
      in case dict_get (xs_mem s) i of
          Some x \<Rightarrow> (Inr (), s\<lparr>xs_mem := dict_set i (x\<lparr>xr_status := ''failed'', xr_error := Some ''canceled'', xr_notified := True\<rparr>) (xs_mem s),
            xs_cache := c\<rparr>)
        | None \<Rightarrow> (case down of
              Some e \<Rightarrow> (Inl (Escaped e), s)
            | None \<Rightarrow> (case dict_get (xs_rows s) i of
                  None \<Rightarrow> (Inl (Http 404 ''Execution not found''), s)
                | Some r \<Rightarrow> (Inr (), s\<lparr>xs_rows := dict_set i (r\<lparr>er_status := ''failed'', er_finished := True\<rparr>) (xs_rows s), xs_cache := c\<rparr>))))"

text \<open>Waiting for the answer: what a poll of the state of the process gives, if it ends the waiting, and the
  answer after the time is up.\<close>

definition poll_answer :: "string \<Rightarrow> ('o, 'x) executions \<Rightarrow> (string \<times> val option) option" where
  "poll_answer i s = (case dict_get (xs_mem s) i of
       None \<Rightarrow> None
     | Some x \<Rightarrow> if xr_status x \<in> {''completed'', ''failed''} then Some (xr_status x, only_dict (xr_result x)) else None)"

definition late_answer :: "string \<Rightarrow> ('o, 'x) executions \<Rightarrow> string" where
  "late_answer i s = (case dict_get (xs_mem s) i of None \<Rightarrow> ''pending'' | Some x \<Rightarrow> xr_status x)"

section \<open>Lemmas\<close>

lemma on_entry_get [simp]: "dict_get (on_entry f i d) j = (if j = i then map_option f (dict_get d i) else dict_get d j)"
  by (simp add: on_entry_def split: option.split)

lemma cache_exec_status [simp]:
  "hget (exec_key i) ''status'' (cache_exec b i [(''status'', v), (g, w)] c) =
     (if b then hget (exec_key i) ''status'' c else if g = ''status'' then hget (exec_key i) ''status'' (cache_exec b i [(''status'', v), (g, w)] c) else Some v)"
  by (simp add: cache_exec_def stub.get_put)

definition exec_turn :: "('o, 'x) executions_env \<Rightarrow> exec_task \<times> ('o, 'x) executions \<Rightarrow> exec_task \<times> ('o, 'x) executions" where
  "exec_turn env = (\<lambda>(t, s). exec_step env t s)"

lemma exec_turn_simp [simp]: "exec_turn env (t, s) = exec_step env t s"
  by (simp add: exec_turn_def)

lemma no_row_created:
  "dict_get (xs_rows s) i = None \<Longrightarrow> dict_get (xs_rows (snd (exec_step env t s))) i = None"
  by (cases t) (auto split: prod.split)

section \<open>States that requests and runs reach\<close>

inductive executions_step ::
  "('o, 'x) executions_env \<Rightarrow> exec_task list \<times> ('o, 'x) executions \<Rightarrow> exec_task list \<times> ('o, 'x) executions \<Rightarrow> bool" for env where
  start: "dict_get (xs_mem s) (sr_id q) = None \<Longrightarrow> start_execution env f q s = (a, new, s') \<Longrightarrow>
    executions_step env (ts, s) (ts @ new, s')"
| turn: "executions_step env (ts, s) (sched_step (exec_step env) j (ts, s))"
| cancel: "executions_step env (ts, s) (ts, snd (cancel_execution down cf i s))"

definition execution_ok :: "execution \<Rightarrow> bool" where
  "execution_ok x \<longleftrightarrow> xr_status x \<in> {''pending'', ''running'', ''completed'', ''failed''} \<and> (xr_status x = ''pending'' \<longleftrightarrow> \<not> xr_notified x)
     \<and> (xr_status x = ''completed'' \<longrightarrow> xr_result x \<noteq> None) \<and> (xr_status x = ''failed'' \<longrightarrow> xr_error x \<noteq> None)"

definition execution_row_ok :: "bp_row dict \<Rightarrow> execution_row \<Rightarrow> bool" where
  "execution_row_ok bps r \<longleftrightarrow> er_status r \<in> {''pending'', ''running'', ''completed'', ''failed''} \<and> dict_get bps (er_bp r) \<noteq> None
     \<and> (er_status r = ''completed'' \<longrightarrow> er_cost r \<noteq> None) \<and> (er_status r \<in> {''completed'', ''failed''} \<longrightarrow> er_finished r)"

definition executions_ok :: "('o, 'x) executions \<Rightarrow> bool" where
  "executions_ok s \<longleftrightarrow> (\<forall>i x. dict_get (xs_mem s) i = Some x \<longrightarrow> execution_ok x)
     \<and> (\<forall>i r. dict_get (xs_rows s) i = Some r \<longrightarrow> execution_row_ok (xs_bps s) r)"

lemma outcome_ok:
  "execution_ok x \<Longrightarrow> execution_ok (outcome_record env a x)"
  "execution_row_ok bps r \<Longrightarrow> execution_row_ok bps (outcome_row env a r)"
  by (cases a; auto simp: execution_ok_def execution_row_ok_def split: option.split)+

lemma exec_step_ok:
  assumes "executions_ok s"
  shows "executions_ok (snd (exec_step env t s))"
proof (cases t)
  case (XRun f i bp inp)
  then show ?thesis using assms by (fastforce simp: executions_ok_def split: prod.split intro: outcome_ok)
next
  case (XDone f i a)
  then show ?thesis using assms by (fastforce simp: executions_ok_def intro: outcome_ok)
qed (use assms in \<open>auto simp: executions_ok_def execution_ok_def execution_row_ok_def\<close>)

lemma start_ok: "executions_ok s \<Longrightarrow> executions_ok (snd (snd (start_execution env f q s)))"
  by (auto simp: start_execution_def register_execution_def Let_def executions_ok_def execution_ok_def execution_row_ok_def
      split: sum.split prod.split)

lemma cancel_ok: "executions_ok s \<Longrightarrow> executions_ok (snd (cancel_execution down cf i s))"
  by (auto simp: cancel_execution_def Let_def executions_ok_def execution_ok_def execution_row_ok_def split: option.split)

interpretation executions: transition_system "executions_step env" "\<lambda>x. executions_ok (snd x)" for env
proof
  fix x y :: "exec_task list \<times> ('a, 'b) executions"
  assume "executions_step env x y" "executions_ok (snd x)"
  then show "executions_ok (snd y)"
  proof (induction rule: executions_step.induct)
    case (start s q f a new s' ts)
    then show ?case using start_ok[of s env f q] by simp
  next
    case (turn ts s j)
    then show ?case using exec_step_ok[of s env "ts ! j"] by (auto simp: sched_step_def split: prod.splits)
  next
    case (cancel ts s down cf i)
    then show ?case using cancel_ok by simp
  qed
qed

section \<open>Properties\<close>

text \<open>(C14) However starts, runs and cancellations interleave, the state of an execution has one of four values; a
  completed one has its result, a failed one its error, and only a pending one has not been announced; a row
  refers to a stored blueprint and has a time of its end if it is completed or failed.\<close>

theorem executions_consistent:
  assumes "(executions_step env)\<^sup>*\<^sup>* ([], s0) (ts, s)" "xs_mem s0 = []" "xs_rows s0 = []"
  shows "(dict_get (xs_mem s) i = Some x \<longrightarrow> execution_ok x)
    \<and> (dict_get (xs_rows s) i = Some r \<longrightarrow> execution_row_ok (xs_bps s) r)"
proof -
  have "executions_ok s0" using assms(2,3) by (simp add: executions_ok_def)
  then show ?thesis using executions.reach_inv[OF assms(1)] by (simp add: executions_ok_def)
qed

text \<open>(C15) A result that JSON cannot hold, and the dump of a result holds times, makes the commit fail: the process and Redis
  say that the execution is completed, while the status route, which reads the table, says running, forever.\<close>

theorem completed_execution_stays_running:
  assumes "xe_available env" "\<not> xe_sync env" "dict_get (xs_mem s) i = Some x" "dict_get (xs_rows s) i = Some r"
    and "run_service (xe_sv env) (bp_nodes bp) inp (''run_'' @ i) (xs_service s) = (Inr y, sv)" "xe_cost env y = None"
    and "\<not> rf_running f" "\<not> rf_done_cache f"
  shows "\<exists>s'. (exec_turn env ^^ 6) (XStart f i bp inp, s) = (XEnd, s')
    \<and> map_option xr_status (dict_get (xs_mem s') i) = Some ''completed''
    \<and> hget (exec_key i) ''status'' (xs_cache s') = Some ''completed''
    \<and> execution_status env None i s' =
        Inr \<lparr>sa_status = ''running'', sa_bp = Some (er_bp r), sa_result = only_dict (er_cost r), sa_error = None\<rparr>"
  using assms by (simp add: eval_nat_numeral execution_status_def)

text \<open>(C16) A cancellation does not stop the run and does not reach the table: the status route answers as before, and
  when the run ends the execution is completed, with \<open>canceled\<close> as its error.\<close>

theorem canceled_execution_completes:
  assumes "xe_available env" "\<not> xe_sync env" "dict_get (xs_mem s) i = Some x" "(exec_turn env ^^ 3) (XStart f i bp inp, s) = (t, s3)"
    and "cancel_execution down cf i s3 = (c, s4)"
    and "run_service (xe_sv env) (bp_nodes bp) inp (''run_'' @ i) (xs_service s) = (Inr y, sv)"
  shows "c = Inr () \<and> execution_status env None i s4 = execution_status env None i s3
    \<and> dict_get (xs_mem (snd ((exec_turn env ^^ 3) (t, s4)))) i
        = Some (x\<lparr>xr_status := ''completed'', xr_result := Some (xe_dump env y), xr_error := Some ''canceled'', xr_notified := True\<rparr>)"
  using assms by (auto simp: eval_nat_numeral execution_status_def cancel_execution_def Let_def)

text \<open>(C17) A run that raises is run again from the start: whatever its nodes did happens twice.\<close>

theorem failed_run_is_repeated:
  assumes "execute_blueprint env specs inputs name s = (Inl e, s1)" "se_started s1 = se_started s + 1"
    and "convert_with env specs (se_registry s1) = (Inr nodes, g)"
    and "new_workflow env nodes (sv_session env [] (se_outside s1)) g = (Inr w, g1)"
  shows "\<exists>a s2. run_service env specs inputs name s = (a, s2) \<and> se_started s2 = se_started s + 2"
proof -
  obtain a s2 where "execute_workflow env w inputs name (s1\<lparr>se_registry := g1\<rparr>) = (a, s2)" by fastforce
  moreover from this have "se_started s2 = se_started s1 + 1"
    by (auto simp: execute_workflow_def counted_run_def Let_def split: prod.splits)
  ultimately show ?thesis using assms by (simp add: run_service_def fallback_run_def)
qed

text \<open>An execution of a blueprint that only the process or Redis knows is accepted, but its row is refused, and
  the status route never finds it.\<close>

theorem accepted_execution_is_unknown:
  assumes "start_execution env f q s = (Inr i, [t], s')" "\<not> xe_sync env"
    and "dict_get (xs_bps s) (sr_blueprint q) = None" "dict_get (xs_rows s) (sr_id q) = None"
  shows "i = sr_id q \<and> execution_status env None i (snd ((exec_turn env ^^ n) (t, s'))) = Inl (Http 404 ''Execution not found'')"
proof -
  have i: "i = sr_id q" "dict_get (xs_rows s') (sr_id q) = None"
    using assms by (auto simp: start_execution_def register_execution_def Let_def split: sum.splits prod.splits if_splits)
  have "dict_get (xs_rows (snd ((exec_turn env ^^ n) (t, s')))) (sr_id q) = None"
    by (induction n) (simp_all add: i(2) exec_turn_def case_prod_beta no_row_created)
  then show ?thesis using assms(2) i(1) by (simp add: execution_status_def)
qed

section \<open>Instances\<close>

text \<open>A deployment that validates every node as a monitor, with a blueprint of one node and one of none; the
  workflow of the second is built, but its run raises, because it has no leaf.\<close>

definition one_nx :: nx where
  "one_nx = \<lparr>simple_cycles = (\<lambda>_. []), has_path = (\<lambda>_ u v. u = v), topological_sort = (\<lambda>g. (gnodes g, False)),
     betweenness = (\<lambda>_. Inr []), longest_path = (\<lambda>g _. Inr (gnodes g))\<rparr>"

definition demo_sv :: "(nat, unit) service_env" where
  "demo_sv = \<lparr>sv_py = demo_py, sv_schemas = \<lparr>tool_input = (\<lambda>_. None), tool_output = (\<lambda>_. None)\<rparr>, sv_reload = (\<lambda>r. (r, None)),
     sv_validate = (\<lambda>t n. Inr (Node (default_base (ns_id n) (ns_deps n)) (KMonitor ''x > 0'' ''alert'' []))), sv_nx = one_nx,
     sv_show = val_text, sv_settings = run_env [], sv_frame = frame_of, sv_session = (\<lambda>_ x. x)\<rparr>"

definition idle_service :: "(nat, unit) service" where
  "idle_service = \<lparr>se_registry = registry_new, se_outside = (), se_started = 0, se_completed = 0\<rparr>"

definition demo_execs :: "bool \<Rightarrow> (nat, unit) executions_env" where
  "demo_execs json = \<lparr>xe_bp = demo_bps, xe_sv = demo_sv, xe_available = True, xe_sync = False, xe_dump = (\<lambda>_. VDict []),
     xe_json = (\<lambda>_. ''{}''), xe_cost = (\<lambda>_. if json then Some (VDict []) else None), xe_provider = (\<lambda>_. None), xe_budget = None\<rparr>"

definition one_node_bp :: blueprint where
  "one_node_bp = \<lparr>bp_id = ''b'', bp_version = ''1'', bp_nodes = [draft_node ''a''], bp_metadata = []\<rparr>"

definition knowing :: "bp_row dict \<Rightarrow> (nat, unit) executions" where
  "knowing bps = \<lparr>xs_local = [(''b'', one_node_bp)], xs_kv = [], xs_mem = [], xs_rows = [], xs_bps = bps, xs_cache = redis_new,
     xs_service = idle_service\<rparr>"

definition demo_start :: start_request where
  "demo_start = \<lparr>sr_blueprint = ''b'', sr_inputs = None, sr_project = None, sr_id = ''e'', sr_access = asking '''', sr_project_fails = False,
     sr_insert_fails = False, sr_cache_fails = False\<rparr>"

definition begun :: "(nat, unit) executions" where
  "begun = register_execution demo_start (knowing [(''b'', new_row demo_bps (plain_bp ''1''))])"

definition no_faults :: faults where
  "no_faults = \<lparr>rf_running = False, rf_running_cache = False, rf_done = False, rf_done_cache = False\<rparr>"

lemma demo_run_succeeds:
  obtains y sv where "run_service demo_sv [draft_node ''a''] None ''run_e'' idle_service = (Inr y, sv)"
proof -
  obtain a sv where a: "run_service demo_sv [draft_node ''a''] None ''run_e'' idle_service = (a, sv)" by fastforce
  have "\<not> isl (fst (run_service demo_sv [draft_node ''a''] None ''run_e'' idle_service))" by code_simp
  then show ?thesis using that a by (cases a) auto
qed

lemma begun_simps:
  "dict_get (xs_mem begun) ''e'' = Some \<lparr>xr_status = ''pending'', xr_bp = ''b'', xr_result = None, xr_error = None, xr_notified = False\<rparr>"
  "dict_get (xs_rows begun) ''e'' = Some \<lparr>er_bp = ''b'', er_status = ''pending'', er_cost = None, er_started = False, er_finished = False\<rparr>"
  "xs_service begun = idle_service"
  by (simp_all add: begun_def register_execution_def demo_start_def knowing_def Let_def)

lemma demo_execs_simps [simp]:
  "xe_sv (demo_execs j) = demo_sv" "xe_available (demo_execs j)" "\<not> xe_sync (demo_execs j)" "xe_cost (demo_execs j) r = (if j then Some (VDict []) else None)"
  "xe_budget (demo_execs j) = None"
  "bp_nodes one_node_bp = [draft_node ''a'']" "\<not> rf_running no_faults" "\<not> rf_running_cache no_faults" "\<not> rf_done no_faults" "\<not> rf_done_cache no_faults"
  by (simp_all add: demo_execs_def one_node_bp_def no_faults_def)

lemma demo_accepts:
  obtains s' where "start_execution (demo_execs j) no_faults demo_start (knowing bps) = (Inr ''e'', [XStart no_faults ''e'' one_node_bp None], s')"
proof (cases "preflight (demo_execs j) one_node_bp (se_registry idle_service)")
  case (Pair ok r)
  then have ok by (auto simp: preflight_def split: prod.splits sum.splits)
  then show ?thesis using that Pair
    by (simp add: start_execution_def project_allows_def demo_start_def find_blueprint_def knowing_def)
qed

theorem executions_consistent_witness:
  "\<exists>s x. dict_get (xs_mem s) ''e'' = Some x \<and> execution_ok x \<and> xr_status x = ''running''
    \<and> (executions_step (demo_execs True))\<^sup>*\<^sup>* ([], knowing []) ([XRow no_faults ''e'' one_node_bp None], s)"
proof -
  obtain s1 where s1: "start_execution (demo_execs True) no_faults demo_start (knowing []) = (Inr ''e'', [XStart no_faults ''e'' one_node_bp None], s1)"
    by (rule demo_accepts)
  let ?t = "XStart no_faults ''e'' one_node_bp None"
  let ?s = "snd (exec_step (demo_execs True) ?t s1)"
  have "executions_step (demo_execs True) ([], knowing []) ([] @ [?t], s1)"
    using s1 by (intro executions_step.start) (simp_all add: knowing_def)
  moreover have "executions_step (demo_execs True) ([?t], s1) (sched_step (exec_step (demo_execs True)) 0 ([?t], s1))"
    by (rule executions_step.turn)
  ultimately have run: "(executions_step (demo_execs True))\<^sup>*\<^sup>* ([], knowing []) ([XRow no_faults ''e'' one_node_bp None], ?s)"
    by (simp add: sched_step_def)
  obtain x where "dict_get (xs_mem s1) ''e'' = Some x"
    using s1 by (auto simp: start_execution_def register_execution_def demo_start_def Let_def split: sum.splits prod.splits if_splits)
  then have "dict_get (xs_mem ?s) ''e'' = Some (x\<lparr>xr_status := ''running'', xr_notified := True\<rparr>)" by simp
  moreover from this have "execution_ok (x\<lparr>xr_status := ''running'', xr_notified := True\<rparr>)"
    using executions_consistent [OF run, of "''e''" "x\<lparr>xr_status := ''running'', xr_notified := True\<rparr>"
      "\<lparr>er_bp = ''b'', er_status = ''pending'', er_cost = None, er_started = False, er_finished = False\<rparr>"]
    unfolding knowing_def by simp
  ultimately show ?thesis using run by fastforce
qed

theorem completed_execution_stays_running_witness:
  "\<exists>s'. (exec_turn (demo_execs False) ^^ 6) (XStart no_faults ''e'' one_node_bp None, begun) = (XEnd, s')
    \<and> map_option xr_status (dict_get (xs_mem s') ''e'') = Some ''completed''
    \<and> execution_status (demo_execs False) None ''e'' s' = Inr \<lparr>sa_status = ''running'', sa_bp = Some ''b'', sa_result = None, sa_error = None\<rparr>"
proof -
  obtain y sv where y: "run_service demo_sv [draft_node ''a''] None ''run_e'' idle_service = (Inr y, sv)" by (rule demo_run_succeeds)
  show ?thesis
    using completed_execution_stays_running [OF _ _ begun_simps(1,2), of "demo_execs False" one_node_bp None y sv no_faults] y
    by (auto simp: begun_simps(3) only_dict_def)
qed

theorem canceled_execution_completes_witness:
  "\<exists>t s3 s4. (exec_turn (demo_execs True) ^^ 3) (XStart no_faults ''e'' one_node_bp None, begun) = (t, s3)
    \<and> cancel_execution None False ''e'' s3 = (Inr (), s4)
    \<and> map_option (\<lambda>x. (xr_status x, xr_error x)) (dict_get (xs_mem (snd ((exec_turn (demo_execs True) ^^ 3) (t, s4)))) ''e'')
        = Some (''completed'', Some ''canceled'')"
proof -
  obtain y sv where y: "run_service demo_sv [draft_node ''a''] None ''run_e'' idle_service = (Inr y, sv)" by (rule demo_run_succeeds)
  obtain t s3 where t: "(exec_turn (demo_execs True) ^^ 3) (XStart no_faults ''e'' one_node_bp None, begun) = (t, s3)" by fastforce
  obtain c s4 where c: "cancel_execution None False ''e'' s3 = (c, s4)" by fastforce
  show ?thesis using canceled_execution_completes [OF _ _ begun_simps(1) t c] y t c by (auto simp: begun_simps(3))
qed

theorem failed_run_is_repeated_witness:
  "se_started (snd (run_service demo_sv [] None ''run_e'' idle_service)) = 2"
proof -
  let ?b = "execute_blueprint demo_sv [] None ''run_e'' idle_service"
  obtain a s1 where b: "?b = (a, s1)" by fastforce
  have "isl (fst ?b) \<and> se_started (snd ?b) = 1" by code_simp
  then obtain e where a: "?b = (Inl e, s1)" "se_started s1 = se_started idle_service + 1"
    using b by (cases a) (auto simp: idle_service_def)
  have c: "convert_with demo_sv [] g = (Inr [], g)" for g by (simp add: convert_with_def convert_node_specs_def)
  have "\<not> isl (build_workflow one_nx [] ())" by code_simp
  then obtain w where "build_workflow one_nx [] () = Inr w" by (cases "build_workflow one_nx [] ()") auto
  then have w: "new_workflow demo_sv [] (sv_session demo_sv [] (se_outside s1)) g = (Inr w, g)" for g
    by (simp add: new_workflow_def workflow_new_def demo_sv_def)
  from failed_run_is_repeated [OF a c w] show ?thesis by (auto simp: idle_service_def)
qed

theorem accepted_execution_is_unknown_witness:
  "\<exists>t s'. start_execution (demo_execs True) no_faults demo_start (knowing []) = (Inr ''e'', [t], s')
    \<and> execution_status (demo_execs True) None ''e'' (snd ((exec_turn (demo_execs True) ^^ 6) (t, s'))) = Inl (Http 404 ''Execution not found'')"
proof -
  obtain s1 where s1: "start_execution (demo_execs True) no_faults demo_start (knowing []) = (Inr ''e'', [XStart no_faults ''e'' one_node_bp None], s1)"
    by (rule demo_accepts)
  have id: "sr_id demo_start = ''e''" by (simp add: demo_start_def)
  have "dict_get (xs_bps (knowing [])) (sr_blueprint demo_start) = None" "dict_get (xs_rows (knowing [])) (sr_id demo_start) = None"
    by (simp_all add: knowing_def)
  from accepted_execution_is_unknown [OF s1 _ this, of 6] s1 show ?thesis unfolding id by (intro exI conjI) simp_all
qed

end
