(* ===== verification/McpRuns.thy ===== *)
theory McpRuns
  imports Analyzer Execs
begin

text \<open>
  Runs over the MCP interface: \<open>WorkflowService\<close> (\<open>src/ice_orchestrator/services/workflow_service.py\<close>) and the
  routes of \<open>src/ice_api/api/mcp.py\<close> that start a run, give its result and its events, and analyse the graph
  of a workflow.

  Parameters: those of the drafts and of the execution service, the dump of a result and the JSON text of the
  last event. A route takes the state of the process with Redis and returns its answer and the state after it.
\<close>

section \<open>The workflow service\<close>

text \<open>A payload is refused since \<open>NodeConfig\<close> is an annotated alias, which cannot be called.\<close>

datatype ws_node = NPayload "val dict" | NConfig node

type_synonym 'x workflow = "'x engine \<times> (int \<times> string list) list"

record ws_answer =
  wa_success :: bool
  wa_output :: "node_result option"
  wa_error :: "string option"
  wa_total :: nat
  wa_max :: int
  wa_actual :: int
  wa_run :: "string option"

record ('o, 'x) ws_world =
  ww_cache :: "'x workflow dict"
  ww_registry :: "'o registry"
  ww_outside :: 'x

definition to_config :: "string \<Rightarrow> ws_node \<Rightarrow> node res" where
  "to_config alias n = (case n of NPayload d \<Rightarrow> Inl (Exn TypeError alias) | NConfig c \<Rightarrow> Inr c)"

text \<open>\<open>Workflow.validate\<close>: alignment of the mappings, tools, and the chain validator, whose findings are dropped.\<close>

definition validate_workflow :: "'x engine \<Rightarrow> unit res" where
  "validate_workflow w = (let ns = map snd (en_nodes w) in
     res_bind (validate_schema_alignment ns (graph (en_graph w))) (\<lambda>_. validate_node_tool_access (\<lambda>_. None) ns))"

definition ws_failure :: "nat \<Rightarrow> int \<Rightarrow> string option \<Rightarrow> exn \<Rightarrow> ws_answer" where
  "ws_failure n mp rid e = \<lparr>wa_success = False, wa_output = None, wa_error = Some (exn_msg e), wa_total = n, wa_max = mp,
     wa_actual = 0, wa_run = rid\<rparr>"

definition ws_success :: "nat \<Rightarrow> int \<Rightarrow> string option \<Rightarrow> node_result \<Rightarrow> ws_answer" where
  "ws_success n mp rid r = \<lparr>wa_success = True, wa_output = Some r, wa_error = None, wa_total = n, wa_max = mp,
     wa_actual = min (int n) mp, wa_run = rid\<rparr>"

definition ws_run :: "('o, 'x) service_env \<Rightarrow> string \<Rightarrow> 'x workflow \<Rightarrow> node_result res \<times> 'x engine" where
  "ws_run env name w = (let (a, rn) = execute ((sv_settings env)\<lparr>we_name := name, we_levels := snd w\<rparr>) (fresh_run (sv_frame env (fst w)))
     in (a, ex_world (rn_state rn)))"

definition ws_execute ::
  "('o, 'x) service_env \<Rightarrow> string \<Rightarrow> ws_node list \<Rightarrow> string \<Rightarrow> int \<Rightarrow> string option \<Rightarrow> ('o, 'x) ws_world \<Rightarrow> ws_answer \<times> ('o, 'x) ws_world" where
  "ws_execute env alias nodes name mp rid s =
     (let n = length nodes in case res_map (to_config alias) nodes of
        Inl e \<Rightarrow> (ws_failure n mp rid e, s)
      | Inr cs \<Rightarrow> (case new_workflow env cs (ww_outside s) (ww_registry s) of
            (Inl e, r) \<Rightarrow> (ws_failure n mp rid e, s\<lparr>ww_registry := r\<rparr>)
          | (Inr w, r) \<Rightarrow> (case validate_workflow (fst w) of
                Inl e \<Rightarrow> (ws_failure n mp rid e, s\<lparr>ww_registry := r\<rparr>)
              | Inr _ \<Rightarrow> (case ws_run env name w of
                    (Inl e, w') \<Rightarrow> (ws_failure n mp rid e, s\<lparr>ww_registry := r, ww_outside := en_outside w'\<rparr>)
                  | (Inr a, w') \<Rightarrow> (ws_success n mp rid a, s\<lparr>ww_registry := r, ww_outside := en_outside w',
                      ww_cache := (case rid of None \<Rightarrow> ww_cache s | Some i \<Rightarrow> dict_set i (w', snd w) (ww_cache s))\<rparr>)))))"

definition ws_get :: "('o, 'x) ws_world \<Rightarrow> string \<Rightarrow> 'x workflow res" where
  "ws_get s i = (case dict_get (ww_cache s) i of
       None \<Rightarrow> Inl (Exn KeyError (sq (''workflow_id '' @ i @ '' not found''))) | Some w \<Rightarrow> Inr w)"

section \<open>Runs\<close>

record mcp_result =
  mx_success :: bool
  mx_output :: "val dict"
  mx_error :: "string option"

record ('o, 'x) mcp_env =
  mv_draft :: "'o draft_env"
  mv_service :: "('o, 'x) service_env"
  mv_alias :: string
  mv_dump :: "node_result \<Rightarrow> val dict"
  mv_payload :: "string \<Rightarrow> bool \<Rightarrow> string"

record ('o, 'x) mcp_state =
  mr_registry :: "'o registry"
  mr_outside :: 'x
  mr_redis :: redis
  mr_runs :: "mcp_result dict"

text \<open>\<open>_get_workflow_service\<close> makes a new service for every call; its cache is empty.\<close>

definition get_workflow_service :: "('o, 'x) mcp_state \<Rightarrow> ('o, 'x) ws_world" where
  "get_workflow_service s = \<lparr>ww_cache = [], ww_registry = mr_registry s, ww_outside = mr_outside s\<rparr>"

definition requested_blueprint :: "('o, 'x) mcp_env \<Rightarrow> run_request \<Rightarrow> ('o, 'x) mcp_state \<Rightarrow> blueprint api" where
  "requested_blueprint env q s = (case rr_blueprint q of
       Some bp \<Rightarrow> Inr bp
     | None \<Rightarrow> (case rr_blueprint_id q of
           None \<Rightarrow> Inl (Http 400 (sq ''blueprint'' @ '' or '' @ sq ''blueprint_id'' @ '' required''))
         | Some i \<Rightarrow> (case present (hget (bp_key i) ''json'' (mr_redis s)) of
               None \<Rightarrow> Inl (Http 404 ''blueprint_id not found'')
             | Some d \<Rightarrow> escaping (de_bp_load (mv_draft env) d))))"

definition run_outcome :: "('o, 'x) mcp_env \<Rightarrow> ws_answer \<Rightarrow> mcp_result" where
  "run_outcome env a = \<lparr>mx_success = wa_success a, mx_output = (case wa_output a of None \<Rightarrow> [] | Some r \<Rightarrow> mv_dump env r),
     mx_error = wa_error a\<rparr>"

definition finished_event :: "('o, 'x) mcp_env \<Rightarrow> string \<Rightarrow> bool \<Rightarrow> string dict" where
  "finished_event env i ok = [(''event'', ''workflow.finished''), (''payload'', mv_payload env i ok)]"

text \<open>\<open>i\<close> is the fresh id of the run. The emitter that is handed to the service is never called there.\<close>

definition start_run :: "('o, 'x) mcp_env \<Rightarrow> run_request \<Rightarrow> string \<Rightarrow> ('o, 'x) mcp_state \<Rightarrow> string api \<times> ('o, 'x) mcp_state" where
  "start_run env q i s = (case requested_blueprint env q s of
       Inl e \<Rightarrow> (Inl e, s)
     | Inr bp \<Rightarrow> (case check_blueprint (mv_draft env) bp (mr_registry s) of
           (Inl e, r) \<Rightarrow> (Inl (Http 400 (''Invalid blueprint: '' @ exn_msg e)), s\<lparr>mr_registry := r\<rparr>)
         | (Inr ns, r) \<Rightarrow>
             if estimate_over_budget (mv_draft env) ns then (over_budget_error, s\<lparr>mr_registry := r\<rparr>)
             else (let (a, w) = ws_execute (mv_service env) (mv_alias env) (map NConfig ns) (bp_id bp) (rr_max_parallel q) (Some i)
                          (get_workflow_service (s\<lparr>mr_registry := r\<rparr>))
               in (Inr i, s\<lparr>mr_registry := ww_registry w, mr_outside := ww_outside w,
                    mr_runs := dict_set i (run_outcome env a) (mr_runs s),
                    mr_redis := snd (xadd (stream_key i) (finished_event env i (wa_success a)) (mr_redis s))\<rparr>))))"

definition get_result :: "string \<Rightarrow> ('o, 'x) mcp_state \<Rightarrow> mcp_result api" where
  "get_result i s = (case dict_get (mr_runs s) i of
       None \<Rightarrow> Inl (Http 202 ''Run is still executing or not found'') | Some r \<Rightarrow> Inr r)"

text \<open>The stream of events, as far as \<open>n\<close> polls give it; \<open>True\<close> says that it ended.\<close>

definition event_stream :: "nat \<Rightarrow> string \<Rightarrow> ('o, 'x) mcp_state \<Rightarrow> ((string \<times> string) list list \<times> bool) api" where
  "event_stream n i s = (if \<not> rd_exists (stream_key i) (mr_redis s) then Inl (Http 404 ''run_id not found'')
     else Inr (sse_follow n (stream_key i) ''0-0'' (mr_redis s)))"

section \<open>Graph analysis\<close>

definition graph_route :: "string \<Rightarrow> ('o, 'x) mcp_state \<Rightarrow> string \<Rightarrow> (dep_graph \<Rightarrow> 'a res) \<Rightarrow> 'a api" where
  "graph_route what s i f = (case res_bind (ws_get (get_workflow_service s) i) (\<lambda>w. f (en_graph (fst w))) of
       Inl e \<Rightarrow> Inl (Http 404 (what @ exn_msg e)) | Inr x \<Rightarrow> Inr x)"

definition workflow_graph_metrics :: "nx \<Rightarrow> algos \<Rightarrow> ('o, 'x) mcp_state \<Rightarrow> string \<Rightarrow> graph_metrics api" where
  "workflow_graph_metrics nx ax s i = graph_route ''Workflow not found: '' s i (get_graph_metrics nx ax)"

definition workflow_layout_hints :: "nx \<Rightarrow> algos \<Rightarrow> ('o, 'x) mcp_state \<Rightarrow> string \<Rightarrow> layout_hint dict api" where
  "workflow_layout_hints nx ax s i = graph_route ''Workflow not found: '' s i (get_visual_layout_hints nx ax)"

definition workflow_graph_analysis ::
  "nx \<Rightarrow> algos \<Rightarrow> ('o, 'x) mcp_state \<Rightarrow> string \<Rightarrow> (graph_metrics \<times> path_analysis \<times> val list \<times> layout_hint dict) api" where
  "workflow_graph_analysis nx ax s i = graph_route ''Workflow not found: '' s i (\<lambda>g.
     res_bind (get_graph_metrics nx ax g) (\<lambda>m. res_bind (get_path_analysis ax g) (\<lambda>p.
     res_bind (get_optimization_suggestions nx ax g) (\<lambda>o'. res_bind (get_visual_layout_hints nx ax g) (\<lambda>h. Inr (m, p, o', h))))))"

definition workflow_node_impact :: "nx \<Rightarrow> algos \<Rightarrow> ('o, 'x) mcp_state \<Rightarrow> string \<Rightarrow> string \<Rightarrow> impact api" where
  "workflow_node_impact nx ax s i n = graph_route ''Analysis failed: '' s i (\<lambda>g. analyze_node_impact nx ax g n)"

definition workflow_patterns :: "algos \<Rightarrow> ('o, 'x) mcp_state \<Rightarrow> string \<Rightarrow> string list \<Rightarrow> string list list api" where
  "workflow_patterns ax s i ps = graph_route ''Pattern analysis failed: '' s i (\<lambda>g. find_workflow_patterns ax g ps)"

section \<open>What a run leaves behind\<close>

lemma start_run_cases:
  assumes "start_run env q i s = (Inr j, s')"
  obtains bp ns r a w where "requested_blueprint env q s = Inr bp" "check_blueprint (mv_draft env) bp (mr_registry s) = (Inr ns, r)"
    "\<not> estimate_over_budget (mv_draft env) ns"
    "ws_execute (mv_service env) (mv_alias env) (map NConfig ns) (bp_id bp) (rr_max_parallel q) (Some i) (get_workflow_service (s\<lparr>mr_registry := r\<rparr>)) = (a, w)"
    "j = i" "mr_runs s' = dict_set i (run_outcome env a) (mr_runs s)"
    "mr_redis s' = snd (xadd (stream_key i) (finished_event env i (wa_success a)) (mr_redis s))"
proof -
  obtain bp where bp: "requested_blueprint env q s = Inr bp"
    using assms by (cases "requested_blueprint env q s") (simp_all add: start_run_def)
  obtain x r where c: "check_blueprint (mv_draft env) bp (mr_registry s) = (x, r)" by fastforce
  obtain ns where x: "x = Inr ns" using assms bp c by (cases x) (simp_all add: start_run_def)
  have nb: "\<not> estimate_over_budget (mv_draft env) ns"
    using assms bp c x by (auto simp: start_run_def over_budget_error_def)
  obtain a w where ws: "ws_execute (mv_service env) (mv_alias env) (map NConfig ns) (bp_id bp) (rr_max_parallel q) (Some i)
      (get_workflow_service (s\<lparr>mr_registry := r\<rparr>)) = (a, w)" by fastforce
  have e: "start_run env q i s = (Inr i, s\<lparr>mr_registry := ww_registry w, mr_outside := ww_outside w,
      mr_runs := dict_set i (run_outcome env a) (mr_runs s),
      mr_redis := snd (xadd (stream_key i) (finished_event env i (wa_success a)) (mr_redis s))\<rparr>)"
    using bp c x nb ws by (simp add: start_run_def Let_def)
  show thesis by (rule that[OF bp c[unfolded x] nb ws]) (use assms e in auto)
qed

lemma map_configs: "res_map (to_config alias) (map NConfig ns) = Inr ns"
  by (induction ns) (simp_all add: to_config_def)

lemma no_workflow:
  "graph_route what s i f = Inl (Http 404 (what @ sq (''workflow_id '' @ i @ '' not found'')))"
  by (simp add: graph_route_def ws_get_def get_workflow_service_def)

text \<open>(C21) A failed workflow is a successful run: the service calls every run that returns a success, so the result of
  the run says that it succeeded and has no error, although the result of the workflow says that it failed.\<close>

theorem failed_workflow_is_a_success:
  assumes "requested_blueprint env q s = Inr bp" "check_blueprint (mv_draft env) bp (mr_registry s) = (Inr ns, r)"
    and "\<not> estimate_over_budget (mv_draft env) ns"
    and "new_workflow (mv_service env) ns (mr_outside s) r = (Inr w, r')" "validate_workflow (fst w) = Inr ()"
    and "ws_run (mv_service env) (bp_id bp) w = (Inr y, w')" "\<not> nr_success y"
  shows "\<exists>s'. start_run env q i s = (Inr i, s') \<and> get_result i s' = Inr \<lparr>mx_success = True, mx_output = mv_dump env y, mx_error = None\<rparr>"
  using assms by (simp add: start_run_def ws_execute_def map_configs get_workflow_service_def Let_def get_result_def run_outcome_def ws_success_def)

text \<open>(C23) A run is recorded but out of reach: an accepted run has a result, but with the stand-in for Redis its stream of events
  never ends, since its only event is the one that no reader gets, and none of the routes that analyse the graph of
  a workflow finds it, since each asks a new service.\<close>

theorem accepted_run_is_out_of_reach:
  assumes "start_run env q i s = (Inr j, s')" "dict_get (rd_streams (mr_redis s)) (stream_key i) = None"
  shows "(\<exists>x. get_result i s' = Inr x \<and> (mx_success x \<longleftrightarrow> mx_error x = None)) \<and> (\<forall>n. event_stream n i s' = Inr ([], False))
    \<and> (\<forall>nx ax. isl (workflow_graph_metrics nx ax s' i) \<and> isl (workflow_layout_hints nx ax s' i) \<and> isl (workflow_graph_analysis nx ax s' i)
        \<and> (\<forall>n. isl (workflow_node_impact nx ax s' i n)) \<and> (\<forall>ps. isl (workflow_patterns ax s' i ps)))"
proof -
  obtain bp ns r a w where "requested_blueprint env q s = Inr bp" "check_blueprint (mv_draft env) bp (mr_registry s) = (Inr ns, r)"
    "\<not> estimate_over_budget (mv_draft env) ns" and a: "ws_execute (mv_service env) (mv_alias env) (map NConfig ns) (bp_id bp) (rr_max_parallel q) (Some i)
      (get_workflow_service (s\<lparr>mr_registry := r\<rparr>)) = (a, w)" and j: "j = i"
    and s': "mr_runs s' = dict_set i (run_outcome env a) (mr_runs s)"
    "mr_redis s' = snd (xadd (stream_key i) (finished_event env i (wa_success a)) (mr_redis s))"
    by (rule start_run_cases[OF assms(1)])
  have "wa_success a \<longleftrightarrow> wa_error a = None"
    using a by (auto simp: ws_execute_def Let_def ws_failure_def ws_success_def split: sum.splits prod.splits)
  then have "\<exists>x. get_result i s' = Inr x \<and> (mx_success x \<longleftrightarrow> mx_error x = None)" using s'(1) by (simp add: get_result_def run_outcome_def)
  moreover have "event_stream n i s' = Inr ([], False)" for n
  proof -
    have l: "dict_get_or (rd_streams (mr_redis s')) (stream_key i) [] = stamped [finished_event env i (wa_success a)]"
      using assms(2) s'(2) by (simp add: xadd_def Let_def dict_get_or_def stamped_def)
    have "rd_exists (stream_key i) (mr_redis s')" using s'(2) by (simp add: rd_exists_def xadd_def Let_def)
    moreover have "sse_follow n (stream_key i) ''0-0'' (mr_redis s') = ([], False)"
    proof -
      have "\<not> str_less ''0-0'' (entry_id 0)" by (simp add: entry_id_def nat_str_small digit_char_def)
      then have "xread_stream (stream_key i) ''0-0'' 10 (mr_redis s') = []"
        using l by (simp add: xread_stream_def stamped_def del: str_less.simps)
      then show ?thesis by (rule follow_nothing)
    qed
    ultimately show ?thesis by (simp add: event_stream_def)
  qed
  ultimately show ?thesis
    by (simp add: workflow_graph_metrics_def workflow_layout_hints_def workflow_graph_analysis_def workflow_node_impact_def workflow_patterns_def no_workflow)
qed

section \<open>Instances\<close>

text \<open>A service whose executor raises: the only node of the workflow fails.\<close>

definition failing_sv :: "(nat, unit) service_env" where
  "failing_sv = demo_sv\<lparr>sv_settings := (run_env [])\<lparr>we_engine := demo_engine_env\<lparr>ee_exec := (ee_exec demo_engine_env)
     \<lparr>ev_dispatch := (\<lambda>n inp w. (Inl (Exn RuntimeError ''down''), w))\<rparr>\<rparr>\<rparr>\<rparr>"

definition demo_mcp :: "(nat, unit) mcp_env" where
  "demo_mcp = \<lparr>mv_draft = draft_demo,
     mv_service = failing_sv, mv_alias = ''not callable'', mv_dump = (\<lambda>r. [(''success'', VBool (nr_success r))]),
     mv_payload = (\<lambda>i ok. i)\<rparr>"

definition demo_mcp_state :: "(nat, unit) mcp_state" where
  "demo_mcp_state = \<lparr>mr_registry = registry_new, mr_outside = (), mr_redis = redis_new, mr_runs = []\<rparr>"

definition demo_mcp_run :: run_request where
  "demo_mcp_run = \<lparr>rr_blueprint_id = None, rr_blueprint = Some \<lparr>bp_id = ''b'', bp_version = ''1.2.0'', bp_nodes = [draft_node ''a''], bp_metadata = []\<rparr>,
     rr_max_parallel = 5\<rparr>"

theorem failed_workflow_is_a_success_witness:
  "\<exists>s' x. start_run demo_mcp demo_mcp_run ''run_1'' demo_mcp_state = (Inr ''run_1'', s') \<and> get_result ''run_1'' s' = Inr x
    \<and> mx_success x \<and> mx_output x = [(''success'', VBool False)]"
proof -
  let ?bp = "the (rr_blueprint demo_mcp_run)"
  have run: "case check_blueprint (mv_draft demo_mcp) ?bp (mr_registry demo_mcp_state) of (Inl e, r) \<Rightarrow> False
      | (Inr ns, r) \<Rightarrow> \<not> estimate_over_budget (mv_draft demo_mcp) ns \<and> (case new_workflow failing_sv ns () r of (Inl e, r') \<Rightarrow> False
        | (Inr w, r') \<Rightarrow> validate_workflow (fst w) = Inr () \<and> (case ws_run failing_sv (bp_id ?bp) w of (Inl e, w') \<Rightarrow> False
          | (Inr y, w') \<Rightarrow> \<not> nr_success y))"
    by code_simp
  obtain a r where a: "check_blueprint (mv_draft demo_mcp) ?bp (mr_registry demo_mcp_state) = (a, r)" by fastforce
  then obtain ns where ns: "check_blueprint (mv_draft demo_mcp) ?bp (mr_registry demo_mcp_state) = (Inr ns, r)"
    "\<not> estimate_over_budget (mv_draft demo_mcp) ns" using run by (cases a) simp_all
  obtain b r' where b: "new_workflow failing_sv ns () r = (b, r')" by fastforce
  then obtain w where w: "new_workflow failing_sv ns () r = (Inr w, r')" "validate_workflow (fst w) = Inr ()"
    using run ns by (cases b) simp_all
  obtain c w' where c: "ws_run failing_sv (bp_id ?bp) w = (c, w')" by fastforce
  then obtain y where y: "ws_run failing_sv (bp_id ?bp) w = (Inr y, w')" "\<not> nr_success y"
    using run ns w by (cases c) simp_all
  have bp: "requested_blueprint demo_mcp demo_mcp_run demo_mcp_state = Inr ?bp" by (simp add: requested_blueprint_def demo_mcp_run_def)
  have sv: "mv_service demo_mcp = failing_sv" "mr_outside demo_mcp_state = ()" by (simp_all add: demo_mcp_def)
  from failed_workflow_is_a_success [OF bp ns, unfolded sv, OF w y(1) y(2), of "''run_1''"] y(2)
  show ?thesis by (auto simp: demo_mcp_def)
qed

theorem accepted_run_is_out_of_reach_witness:
  "\<exists>s'. start_run demo_mcp demo_mcp_run ''run_1'' demo_mcp_state = (Inr ''run_1'', s') \<and> (\<forall>n. event_stream n ''run_1'' s' = Inr ([], False))"
proof -
  have "fst (start_run demo_mcp demo_mcp_run ''run_1'' demo_mcp_state) = Inr ''run_1''" by code_simp
  then obtain s' where s': "start_run demo_mcp demo_mcp_run ''run_1'' demo_mcp_state = (Inr ''run_1'', s')" by (metis prod.collapse)
  have "dict_get (rd_streams (mr_redis demo_mcp_state)) (stream_key ''run_1'') = None" by (simp add: demo_mcp_state_def redis_new_def)
  from accepted_run_is_out_of_reach [OF s' this] s' show ?thesis by blast
qed

end

