(* ===== verification/Inspect.thy ===== *)
theory Inspect
  imports McpRuns
begin

text \<open>
  What a workflow tells about itself (\<open>src/ice_orchestrator/workflow.py\<close>): suggestions for the next node, debug
  information, diagnosis of a node, execution statistics, wrapping a workflow as a node and adding a node to a
  built workflow. \<open>str()\<close> of a schema and of a value are parameters.
\<close>

section \<open>Suggestions for the next node\<close>

definition suggestion_of :: "string \<Rightarrow> string \<Rightarrow> string \<Rightarrow> val dict \<Rightarrow> val" where
  "suggestion_of t reason prio rest = VDict ([(''type'', VStr t), (''reason'', VStr reason), (''priority'', VStr prio)] @ rest)"

definition config_of :: "val dict \<Rightarrow> val dict" where
  "config_of d = [(''suggested_config'', VDict d)]"

definition tools_of :: "string list \<Rightarrow> val dict" where
  "tools_of ts = [(''suggested_tools'', strs ts)]"

definition llm_config_of :: "string \<Rightarrow> val dict" where
  "llm_config_of prompt = config_of [(''type'', VStr ''llm''), (''model'', VStr ''gpt-3.5-turbo''), (''prompt'', VStr prompt)]"

definition schema_mentions :: "(schema \<Rightarrow> string) \<Rightarrow> string \<Rightarrow> string \<Rightarrow> schema \<Rightarrow> bool" where
  "schema_mentions show key word sc \<longleftrightarrow> (case sc of SDict d \<Rightarrow> dict_get d key \<noteq> None | _ \<Rightarrow> False) \<or> str_contains word (show sc)"

definition parallel_config :: val where
  "parallel_config = VDict [(''type'', VStr ''parallel''), (''branches'', VList
     [VDict [(''type'', VStr ''llm''), (''model'', VStr ''gpt-3.5-turbo''), (''prompt'', VStr ''Analyze: {data}'')],
      VDict [(''type'', VStr ''tool''), (''tool_name'', VStr ''data_validator''), (''validate'', VStr ''{data}'')]])]"

definition schema_suggestions :: "(schema \<Rightarrow> string) \<Rightarrow> schema \<Rightarrow> nat \<Rightarrow> graph_metrics \<Rightarrow> val list" where
  "schema_suggestions show sc out m = (if schema_missing sc then [] else
     (if schema_mentions show ''data'' ''array'' sc then
        [if out < 2 \<and> of_nat (gm_parallel m) < of_nat (gm_nodes m) * (2 / 5 :: rat)
         then suggestion_of ''parallel'' ''Parallel processing opportunity - could split data processing'' ''high''
                [(''suggested_config'', parallel_config)]
         else suggestion_of ''llm'' ''Process or analyze the data output'' ''medium'' (llm_config_of ''Analyze the following data: {data}'')]
      else [])
     @ (if schema_mentions show ''text'' ''string'' sc then
        [suggestion_of ''tool'' ''Take action based on the text output'' ''medium'' (tools_of [''email_sender'', ''slack_notifier'', ''file_writer''])]
      else []))"

definition condition_config :: "val dict" where
  "condition_config = config_of [(''type'', VStr ''condition''), (''condition'', VStr ''result.confidence > 0.8'')]"

definition type_suggestions :: "algos \<Rightarrow> dep_graph \<Rightarrow> node \<Rightarrow> graph_metrics \<Rightarrow> val list res" where
  "type_suggestions ax g n m =
     (if node_type_of n = TLlm then Inr
        (if node_id n \<in> set (gm_bottlenecks m)
         then [suggestion_of ''condition'' ''Add branching to reduce bottleneck at this LLM node'' ''high'' condition_config]
         else [suggestion_of ''condition'' ''Make decision based on LLM output'' ''medium'' condition_config,
               suggestion_of ''tool'' ''Execute action based on analysis'' ''medium'' (tools_of [''database_writer'', ''api_caller''])])
      else if node_type_of n = TTool then res_bind (get_path_analysis ax g) (\<lambda>pa. Inr
        [if node_id n \<in> set (pa_branches pa)
         then suggestion_of ''parallel'' ''Leverage branching opportunity from this tool output'' ''high'' []
         else suggestion_of ''llm'' ''Process tool output with AI'' ''medium'' (llm_config_of ''Summarize this result: {output}'')])
      else Inr [])"

definition complexity_suggestions :: "graph_metrics \<Rightarrow> val list" where
  "complexity_suggestions m = (if 8 < gm_complexity m then
     [suggestion_of ''workflow'' ''Consider breaking complex logic into sub-workflow'' ''low''
        (config_of [(''type'', VStr ''workflow''), (''chain_reference'', VStr ''sub_workflow_template'')])] else [])"

definition entry_or :: "val \<Rightarrow> string \<Rightarrow> val" where
  "entry_or v k = (case v of VDict d \<Rightarrow> dict_get_or d k VNone | _ \<Rightarrow> VNone)"

definition optimization_suggestions :: "string \<Rightarrow> val list \<Rightarrow> val list" where
  "optimization_suggestions i opts = map (\<lambda>opt. VDict [(''type'', VStr ''optimization''), (''reason'', entry_or opt ''description''),
       (''priority'', entry_or opt ''priority''), (''optimization_type'', entry_or opt ''type'')])
     (filter (\<lambda>opt. case entry_or opt ''affected_nodes'' of VList vs \<Rightarrow> VStr i \<in> set vs | _ \<Rightarrow> False) opts)"

definition suggest_next_nodes :: "nx \<Rightarrow> algos \<Rightarrow> (schema \<Rightarrow> string) \<Rightarrow> 'x engine \<Rightarrow> string \<Rightarrow> val list res" where
  "suggest_next_nodes nx ax show w i = (let g = en_graph w in case dict_get (en_nodes w) i of
       None \<Rightarrow> Inr []
     | Some n \<Rightarrow> res_bind (analyze_node_impact nx ax g i) (\<lambda>im.
         res_bind (get_graph_metrics nx ax g) (\<lambda>m.
         res_bind (type_suggestions ax g n m) (\<lambda>ts.
         res_bind (get_optimization_suggestions nx ax g) (\<lambda>opts.
           Inr (schema_suggestions show (output_schema (base n)) (length (im_direct im)) m @ ts @ complexity_suggestions m
             @ optimization_suggestions i opts))))))"

text \<open>The route over it.\<close>

definition node_suggestions :: "nx \<Rightarrow> algos \<Rightarrow> (schema \<Rightarrow> string) \<Rightarrow> ('o, 'x) mcp_state \<Rightarrow> string \<Rightarrow> string \<Rightarrow> val list api" where
  "node_suggestions nx ax show s i n = (case res_bind (ws_get (get_workflow_service s) i) (\<lambda>w. suggest_next_nodes nx ax show (fst w) n) of
       Inl e \<Rightarrow> Inl (Http 404 (''Suggestions failed: '' @ exn_msg e)) | Inr x \<Rightarrow> Inr x)"

section \<open>Debug information\<close>

definition safe_preview :: "(val \<Rightarrow> string) \<Rightarrow> val \<Rightarrow> val" where
  "safe_preview show v = (if v = VNone then VNone else if 200 < length (show v) then VStr (take 200 (show v) @ ''...'') else v)"

definition schemas_compatible :: "schema \<Rightarrow> schema \<Rightarrow> bool" where
  "schemas_compatible out inp = (case (out, inp) of
       (SDict o', SDict i) \<Rightarrow> set (dict_keys i) \<subseteq> set (dict_keys o') | _ \<Rightarrow> True)"

definition model_issue :: "node \<Rightarrow> string list" where
  "model_issue n = (case kind n of
       KLlm l \<Rightarrow> if str_contains ''gpt-4'' (lm_model l) \<and> (\<exists>k \<in> set_option (lm_max_tokens l). 8000 < k) then [''max_tokens exceeds GPT-4 limit''] else []
     | _ \<Rightarrow> [])"

definition diagnose_node_issues :: "node dict \<Rightarrow> node \<Rightarrow> string list" where
  "diagnose_node_issues nodes n =
     map (\<lambda>d. ''Missing dependency: '' @ d) (filter (\<lambda>d. dict_get nodes d = None) (node_deps n))
     @ (if schema_missing (input_schema (base n)) then [] else
          map (\<lambda>d. ''Schema mismatch with dependency '' @ d) (filter (\<lambda>d. case dict_get nodes d of None \<Rightarrow> False
            | Some m \<Rightarrow> \<not> schemas_compatible (output_schema (base m)) (input_schema (base n))) (node_deps n)))
     @ model_issue n"

record execution_info =
  xi_executed :: bool
  xi_success :: bool
  xi_error :: "string option"
  xi_output :: val

definition execution_part :: "(val \<Rightarrow> string) \<Rightarrow> run_state option \<Rightarrow> string \<Rightarrow> execution_info option" where
  "execution_part show rs i = (case rs of None \<Rightarrow> None | Some s \<Rightarrow> map_option (\<lambda>r.
     \<lparr>xi_executed = i \<in> set (rs_completed s), xi_success = nr_success r, xi_error = nr_error r, xi_output = safe_preview show (nr_output r)\<rparr>)
     (lookup_node_result (rs_results s) i))"

record node_debug =
  nd_config :: node
  nd_upstream :: "string list"
  nd_downstream :: "string list"
  nd_level :: int
  nd_execution :: "execution_info option"
  nd_diagnostics :: "string list"

text \<open>An unknown node gives a text instead of an exception.\<close>

definition node_debug_info :: "(val \<Rightarrow> string) \<Rightarrow> 'x engine \<Rightarrow> string \<Rightarrow> (string + node_debug) res" where
  "node_debug_info show w i = (case dict_get (en_nodes w) i of
       None \<Rightarrow> Inr (Inl (''Node '' @ i @ '' not found''))
     | Some n \<Rightarrow> res_bind (get_node_level (en_graph w) i) (\<lambda>l.
         Inr (Inr \<lparr>nd_config = n, nd_upstream = node_deps n, nd_downstream = successors (graph (en_graph w)) i, nd_level = l,
           nd_execution = execution_part show (en_run w) i, nd_diagnostics = diagnose_node_issues (en_nodes w) n\<rparr>)))"

record workflow_debug =
  wd_name :: string
  wd_nodes :: nat
  wd_levels :: nat
  wd_breakdown :: "nat dict"
  wd_order :: "(int \<times> string \<times> string) list"
  wd_issues :: "string list"
  wd_summary :: "run_summary option"

definition node_breakdown :: "node list \<Rightarrow> nat dict" where
  "node_breakdown ns = foldl (\<lambda>d n. dict_set (node_type_str n) (dict_get_or d (node_type_str n) 0 + 1) d) [] ns"

definition execution_order :: "node dict \<Rightarrow> (int \<times> string list) list \<Rightarrow> (int \<times> string \<times> string) list res" where
  "execution_order nodes levels = res_map (\<lambda>(l, i). case dict_get nodes i of
       None \<Rightarrow> Inl (Exn KeyError (sq i)) | Some n \<Rightarrow> Inr (l, i, node_type_str n))
     (concat (map (\<lambda>(l, is). map (Pair l) is) (sort_key fst levels)))"

definition workflow_debug_info :: "(node \<Rightarrow> string option) \<Rightarrow> string \<Rightarrow> 'x workflow \<Rightarrow> workflow_debug res" where
  "workflow_debug_info version name w = (let ns = map snd (en_nodes (fst w)) in
     res_bind (execution_order (en_nodes (fst w)) (snd w)) (\<lambda>order.
       Inr \<lparr>wd_name = name, wd_nodes = length ns, wd_levels = length (snd w), wd_breakdown = node_breakdown ns, wd_order = order,
         wd_issues = validate_chain version ns, wd_summary = map_option get_execution_summary (en_run (fst w))\<rparr>))"

definition get_debug_info ::
  "(val \<Rightarrow> string) \<Rightarrow> (node \<Rightarrow> string option) \<Rightarrow> string \<Rightarrow> 'x workflow \<Rightarrow> string option \<Rightarrow> ((string + node_debug) + workflow_debug) res" where
  "get_debug_info show version name w i = (case present i of
       Some n \<Rightarrow> res_bind (node_debug_info show (fst w) n) (\<lambda>d. Inr (Inl d))
     | None \<Rightarrow> res_bind (workflow_debug_info version name w) (\<lambda>d. Inr (Inr d)))"

record exec_stats =
  xt_executed :: bool
  xt_success :: bool
  xt_tokens :: "int option"

definition node_execution_stats :: "run_state option \<Rightarrow> string \<Rightarrow> exec_stats option" where
  "node_execution_stats rs i = (case rs of None \<Rightarrow> None | Some s \<Rightarrow> map_option (\<lambda>r.
     \<lparr>xt_executed = i \<in> set (rs_completed s), xt_success = nr_success r, xt_tokens = map_option us_total (nr_usage r)\<rparr>)
     (lookup_node_result (rs_results s) i))"

section \<open>Composition\<close>

definition or_default :: "string option \<Rightarrow> string \<Rightarrow> string" where
  "or_default x d = (case present x of None \<Rightarrow> d | Some s \<Rightarrow> s)"

definition as_workflow_node :: "string \<Rightarrow> string \<Rightarrow> string option \<Rightarrow> string option \<Rightarrow> string option \<Rightarrow> val dict option \<Rightarrow> string dict option \<Rightarrow> node" where
  "as_workflow_node chain name i nm ref over outs =
     Node ((default_base (or_default i chain) [])\<lparr>cname := Some (or_default nm name)\<rparr>)
       (KWorkflow (or_default ref chain) (case outs of None \<Rightarrow> [] | Some d \<Rightarrow> d) (case over of None \<Rightarrow> [] | Some d \<Rightarrow> d))"

text \<open>The new id is the number of nodes; the graph gets the node but neither edges nor a level.\<close>

definition workflow_add_node :: "node \<Rightarrow> string list option \<Rightarrow> 'x engine \<Rightarrow> string \<times> 'x engine" where
  "workflow_add_node c deps w = (let i = ''node_'' @ nat_str (length (en_nodes w));
       c' = Node ((base c)\<lparr>cid := i, dependencies := (case deps of None \<Rightarrow> [] | Some ds \<Rightarrow> ds)\<rparr>) (kind c)
     in (i, w\<lparr>en_nodes := dict_set i c' (en_nodes w), en_graph := (en_graph w)\<lparr>graph := add_node i (graph (en_graph w))\<rparr>\<rparr>))"

section \<open>Properties\<close>

text \<open>Suggestions need a single root: after a node of a workflow without cycles they are given exactly when the workflow has
  at most one root, and then there is one after every language model and every tool.\<close>

theorem suggestions_need_one_root:
  assumes "dep_graph_new nx nodes = Inr g" "distinct (map node_id nodes)" "acyclic (dep_edges nodes)"
    and "paths_ok nx" "cycles_ok nx (graph g)" "topo_ok nx (cut_graph nx nodes (graph g))" "topo_ok nx (graph g)" "longest_ok nx (graph g)"
    and "\<forall>r l. \<not> isl (simple_paths ax (graph g) r l)" "en_nodes w = node_map nodes" "en_graph w = g" "n \<in> set nodes"
  shows "if 1 < length (root_nodes (graph g)) then \<exists>m. suggest_next_nodes nx ax show w (node_id n) = Inl (Exn TypeError m)
    else \<exists>xs. suggest_next_nodes nx ax show w (node_id n) = Inr xs \<and> (node_type_of n \<in> {TLlm, TTool} \<longrightarrow> xs \<noteq> [])"
proof -
  note bg = base_graph_facts[OF conjunct1[OF dep_graph_new_cases[OF assms(1)]]]
  have node: "dict_get (en_nodes w) (node_id n) = Some n" using node_map_get[OF assms(2,12)] assms(10) by simp
  obtain lv where lv: "compute_levels nx ax (graph g) = Inr lv" using compute_levels_dag[OF assms(7)] assms(3) bg(3) by metis
  then obtain im where im: "analyze_node_impact nx ax g (node_id n) = Inr im"
    using bg(2) assms(12) by (simp add: analyze_node_impact_def analyze_dependency_impact_def workflow_analyzer_def Let_def)
  note metrics = metrics_outcome[OF assms(1-8), of ax]
  show ?thesis
  proof (cases "1 < length (root_nodes (graph g))")
    case True
    then show ?thesis using metrics node im assms(11) by (auto simp: suggest_next_nodes_def)
  next
    case False
    then obtain m where m: "get_graph_metrics nx ax g = Inr m" using metrics by auto
    have "\<exists>pss. res_map (\<lambda>(r, l). case simple_paths ax (graph g) r l of Inr ps \<Rightarrow> Inr ps | Inl e \<Rightarrow> if no_path e then Inr [] else Inl e) rls = Inr pss" for rls
      using assms(9) by (induction rls) (auto simp: res_bind_Inr_iff isl_def split: sum.splits)
    from this[of "List.product (root_nodes (graph g)) (leaf_nodes (graph g))"]
    obtain pa where pa: "get_path_analysis ax g = Inr pa"
      by (auto simp: get_path_analysis_def execution_path_analysis_def all_paths_def workflow_analyzer_def Let_def)
    obtain ts where ts: "type_suggestions ax g n m = Inr ts" "node_type_of n \<in> {TLlm, TTool} \<longrightarrow> ts \<noteq> []"
      using pa by (cases "node_type_of n = TLlm"; cases "node_type_of n = TTool") (simp_all add: type_suggestions_def)
    obtain opts where "get_optimization_suggestions nx ax g = Inr opts"
      using m by (simp add: get_optimization_suggestions_def suggest_optimizations_def get_graph_metrics_def)
    then show ?thesis using False node im m ts assms(11) by (auto simp: suggest_next_nodes_def)
  qed
qed

lemma node_map_list: "distinct (map node_id ns) \<Longrightarrow> node_map ns = map (\<lambda>n. (node_id n, n)) ns"
proof (induction ns rule: rev_induct)
  case (snoc n ns)
  then show ?case unfolding node_map_def by (auto intro!: dict_set_new simp: image_image)
qed (simp add: node_map_def)

lemma breakdown_count: "dict_wf (node_breakdown ns) \<and> dict_get_or (node_breakdown ns) t 0 = length (filter (\<lambda>n. node_type_str n = t) ns)"
proof (induction ns rule: rev_induct)
  case (snoc n ns)
  have "node_breakdown (ns @ [n]) = dict_set (node_type_str n) (dict_get_or (node_breakdown ns) (node_type_str n) 0 + 1) (node_breakdown ns)"
    by (simp add: node_breakdown_def)
  then show ?case using snoc by (auto simp: dict_get_or_def)
qed (simp add: node_breakdown_def dict_get_or_def)

text \<open>The debug view of a workflow is right: for a built workflow it exists, its order lists every node exactly once and each after
  the nodes it depends on, and it counts the nodes of every type.\<close>

theorem debug_order_is_a_run:
  assumes "build_workflow nx nodes x = Inr (w, levels)" "distinct (map node_id nodes)" "library_ok nx nodes (en_graph w)" "recursive_ids nodes = {}"
  shows "\<exists>d. workflow_debug_info version name (w, levels) = Inr d \<and> dag_run (dep_edges nodes) (map (fst \<circ> snd) (wd_order d))
    \<and> set (map (fst \<circ> snd) (wd_order d)) = node_id ` set nodes
    \<and> (\<forall>t. dict_get_or (wd_breakdown d) t 0 = length (filter (\<lambda>n. node_type_str n = t) nodes))"
proof -
  have w: "dep_graph_new nx nodes = Inr (en_graph w)" "levels = get_level_nodes (en_graph w)" "en_nodes w = node_map nodes"
    using assms(1) by (auto simp: build_workflow_def res_bind_Inr_iff)
  note order = built_order[OF w(1) assms(2,3,4), folded w(2)]
  let ?ps = "concat (map (\<lambda>(l, is). map (Pair l) is) (sort_key fst levels))"
  have ids: "map snd ?ps = concat (map snd (sort_key fst levels))" by (simp add: map_concat comp_def case_prod_beta)
  have "\<exists>os. res_map (\<lambda>(l, i). case dict_get (en_nodes w) i of None \<Rightarrow> Inl (Exn KeyError (sq i)) | Some n \<Rightarrow> Inr (l, i, node_type_str n)) ps = Inr os
      \<and> map (fst \<circ> snd) os = map snd ps" if "set (map snd ps) \<subseteq> node_id ` set nodes" for ps
    using that
  proof (induction ps)
    case (Cons p ps)
    then obtain n where "dict_get (en_nodes w) (snd p) = Some n" using node_map_dom[of nodes "snd p"] w(3) by force
    then show ?case using Cons by (cases p) auto
  qed simp
  note all = this
  have sub: "set (map snd ?ps) \<subseteq> node_id ` set nodes" unfolding ids order(2) by (rule order_refl)
  obtain os where os0: "res_map (\<lambda>(l, i). case dict_get (en_nodes w) i of None \<Rightarrow> Inl (Exn KeyError (sq i)) | Some n \<Rightarrow> Inr (l, i, node_type_str n)) ?ps = Inr os
      \<and> map (fst \<circ> snd) os = map snd ?ps" using all[OF sub] by (rule exE)
  have os: "execution_order (en_nodes w) levels = Inr os" "map (fst \<circ> snd) os = concat (map snd (sort_key fst levels))"
    unfolding execution_order_def using conjunct1[OF os0] conjunct2[OF os0, unfolded ids] by - assumption+
  have "map snd (node_map nodes) = nodes" using assms(2) by (simp add: node_map_list comp_def)
  moreover have "dag_run (dep_edges nodes) (map (fst \<circ> snd) os)" "set (map (fst \<circ> snd) os) = node_id ` set nodes"
    unfolding os(2) using order(2,3) by (simp_all del: set_concat set_map)
  ultimately show ?thesis using os(1) breakdown_count[of nodes] w(3) by (simp add: workflow_debug_info_def del: list.set_map)
qed

text \<open>A node added to a built workflow replaces a node or cannot run: its id is the number of nodes, so that it takes the place of
  a node that already has this name; otherwise it has no level, and starting it is a \<open>KeyError\<close>. In either case the graph
  gets none of its dependencies.\<close>

theorem added_node_replaces_or_fails:
  assumes "workflow_add_node c deps w = (i, w')" "ex_world s = w'"
  shows "gedges (graph (en_graph w')) = gedges (graph (en_graph w)) \<and> (case dict_get (en_nodes w) i of
      Some old \<Rightarrow> length (en_nodes w') = length (en_nodes w) \<and> map_option kind (dict_get (en_nodes w') i) = Some (kind c)
    | None \<Rightarrow> dict_get (node_levels (en_graph w)) i = None \<longrightarrow> fst (start_node i s) = Inl (Exn KeyError (sq i)))"
proof -
  have w': "en_nodes w' = dict_set i (Node ((base c)\<lparr>cid := i, dependencies := (case deps of None \<Rightarrow> [] | Some ds \<Rightarrow> ds)\<rparr>) (kind c)) (en_nodes w)"
    "en_graph w' = (en_graph w)\<lparr>graph := add_node i (graph (en_graph w))\<rparr>"
    using assms(1) by (auto simp: workflow_add_node_def Let_def)
  have len: "length (dict_set i v d) = length d" if "dict_get d i \<noteq> None" for v :: node and d
    using that by (induction d) (auto split: if_splits)
  have "fst (start_node i s) = Inl (Exn KeyError (sq i))" if "dict_get (node_levels (en_graph w)) i = None"
    using that assms(2) w' by (simp add: start_node_def Let_def update_run_def update_world_def get_node_level_def)
  then show ?thesis using w' len by (auto split: option.split)
qed

section \<open>Instances\<close>

theorem suggestions_need_one_root_witness:
  "\<exists>w xs. suggest_next_nodes chain_nx plain_algos (\<lambda>_. '''') (w :: unit engine) ''a'' = Inr xs \<and> xs \<noteq> []"
proof (rule chain_graph_built)
  fix g assume g: "dep_graph_new chain_nx demo_chain = Inr g" "graph g = \<lparr>gnodes = [''a'', ''b''], gedges = [(''a'', ''b'')]\<rparr>"
    "cycles_ok chain_nx (graph g)" "topo_ok chain_nx (cut_graph chain_nx demo_chain (graph g))" "topo_ok chain_nx (graph g)"
    "acyclic (dep_edges demo_chain)" "paths_ok chain_nx" "distinct (map node_id demo_chain)"
  let ?w = "\<lparr>en_nodes = node_map demo_chain, en_graph = g, en_run = None, en_outside = ()\<rparr>"
  have paths: "\<forall>r l. \<not> isl (simple_paths plain_algos (graph g) r l)" by (simp add: plain_algos_def)
  have a: "demo_chain ! 0 \<in> set demo_chain" "node_id (demo_chain ! 0) = ''a''" "node_type_of (demo_chain ! 0) = TTool"
    by (simp_all add: demo_chain_def node_id_def default_base_def node_type_of_def)
  have "root_nodes (graph g) = [''a'']" by (simp add: root_nodes_def in_degree_def predecessors_def g(2))
  then show ?thesis
    using suggestions_need_one_root [OF g(1,8,6,7,3,4,5) chain_longest[OF g(2)] paths, of ?w "demo_chain ! 0" "\<lambda>_. ''''"] a by auto
qed

theorem debug_order_is_a_run_witness:
  "\<exists>(w :: unit workflow) d. workflow_debug_info (\<lambda>_. None) ''chain'' w = Inr d \<and> dag_run (dep_edges demo_chain) (map (fst \<circ> snd) (wd_order d))
    \<and> dict_get_or (wd_breakdown d) ''tool'' 0 = 2"
proof -
  obtain s ls where b: "built_run chain_nx demo_chain (run_env ls) s" by (rule chain_built)
  obtain x where "build_workflow chain_nx demo_chain x = Inr (ex_world s, ls)" using b by (auto simp: built_run_def run_env_fields)
  moreover have "distinct (map node_id demo_chain)" "library_ok chain_nx demo_chain (en_graph (ex_world s))" "recursive_ids demo_chain = {}"
    using b by (simp_all add: built_run_def)
  moreover have "length (filter (\<lambda>n. node_type_str n = ''tool'') demo_chain) = 2"
    by (simp add: demo_chain_def node_type_str_def node_type_of_def)
  ultimately show ?thesis using debug_order_is_a_run [of chain_nx demo_chain x "ex_world s" ls "\<lambda>_. None" "''chain''"] by metis
qed

theorem added_node_replaces_or_fails_witness:
  "\<exists>w'. workflow_add_node (Node (default_base ''x'' []) (KTool ''t'' [])) (Some [''node_1'']) (demo_engine (Node (default_base ''node_1'' []) (KCode None)))
      = (''node_1'', w') \<and> length (en_nodes w') = 1 \<and> map_option kind (dict_get (en_nodes w') ''node_1'') = Some (KTool ''t'' [])
    \<and> gedges (graph (en_graph w')) = []"
proof -
  let ?w = "demo_engine (Node (default_base ''node_1'' []) (KCode None))" and ?c = "Node (default_base ''x'' []) (KTool ''t'' [])"
  have old: "dict_get (en_nodes ?w) ''node_1'' = Some (Node (default_base ''node_1'' []) (KCode None))" "length (en_nodes ?w) = 1"
    "gedges (graph (en_graph ?w)) = []" by (simp_all add: demo_engine_def node_id_def default_base_def)
  have "fst (workflow_add_node ?c (Some [''node_1'']) ?w) = ''node_1''"
    by (simp add: workflow_add_node_def Let_def old(2) nat_str_small digit_char_def)
  then obtain w' where w': "workflow_add_node ?c (Some [''node_1'']) ?w = (''node_1'', w')" by (metis prod.collapse)
  have "ex_world (frame_of w') = w'" by (simp add: frame_of_def)
  from added_node_replaces_or_fails [OF w' this] w' old show ?thesis by auto
qed

end
