(* ===== verification/Network.thy ===== *)
theory Network
  imports McpRuns
begin

text \<open>
  Networks of workflows: manifests and their coordinator (\<open>src/ice_orchestrator/services/network_coordinator.py\<close>), the
  manager of network tasks (\<open>services/task_manager.py\<close>), the facade (\<open>src/ice_core/services/network_service.py\<close>)
  and the builder of manifests (\<open>src/ice_builder/dsl/network.py\<close>).

  Parameters (\<open>network_env\<close>): the importer of modules, \<open>copy.deepcopy\<close> of a workflow, the recursion limit, cron
  expressions and the clock, the text of a validation error, and whether instances of a Pydantic model can be hashed.
  Pydantic's documentation says that they can only if the model is frozen, which \<open>WorkflowEntry\<close> is not.
\<close>

section \<open>Manifests\<close>

record wf_entry =
  nw_ref :: string
  nw_id :: "string option"
  nw_after :: "string option"
  nw_extra :: "val dict"

record manifest =
  mf_api :: string
  mf_name :: string
  mf_global :: "val dict"
  mf_workflows :: "wf_entry list"

fun optional_str :: "val option \<Rightarrow> string option option" where
  "optional_str None = Some None"
| "optional_str (Some VNone) = Some None"
| "optional_str (Some (VStr s)) = Some (Some s)"
| "optional_str (Some v) = None"

fun entry_of :: "val \<Rightarrow> wf_entry option" where
  "entry_of (VDict d) = (case (dict_get d ''ref'', optional_str (dict_get d ''id''), optional_str (dict_get d ''after'')) of
       (Some (VStr r), Some i, Some a) \<Rightarrow>
         Some \<lparr>nw_ref = r, nw_id = i, nw_after = a, nw_extra = filter (\<lambda>p. fst p \<notin> {''ref'', ''id'', ''after''}) d\<rparr>
     | _ \<Rightarrow> None)"
| "entry_of v = None"

fun all_some :: "'a option list \<Rightarrow> 'a list option" where
  "all_some [] = Some []"
| "all_some (None # xs) = None"
| "all_some (Some x # xs) = map_option ((#) x) (all_some xs)"

definition api_of :: "val dict \<Rightarrow> string option" where
  "api_of d = (case dict_get d ''api_version'' of None \<Rightarrow> Some ''network.v0'' | Some (VStr s) \<Rightarrow> Some s | Some _ \<Rightarrow> None)"

text \<open>\<open>global\<close> is the alias; the field name is accepted where the alias is missing.\<close>

definition global_of :: "val dict \<Rightarrow> val dict option" where
  "global_of d = (case (case dict_get d ''global'' of None \<Rightarrow> dict_get d ''global_config'' | Some v \<Rightarrow> Some v) of
       None \<Rightarrow> Some [] | Some (VDict g) \<Rightarrow> Some g | Some _ \<Rightarrow> None)"

fun manifest_of :: "val \<Rightarrow> manifest option" where
  "manifest_of (VDict d) = (case (api_of d, dict_get d ''name'', global_of d, dict_get d ''workflows'') of
       (Some a, Some (VStr n), Some g, Some (VList ws)) \<Rightarrow>
         map_option (\<lambda>es. \<lparr>mf_api = a, mf_name = n, mf_global = g, mf_workflows = es\<rparr>) (all_some (map entry_of ws))
     | _ \<Rightarrow> None)"
| "manifest_of v = None"

section \<open>Loading a workflow\<close>

text \<open>What an attribute of a module is: a workflow with its name, what it runs, and its attribute
  \<open>initial_context\<close> if it has one; a function or class with what its call gives; anything else by its type.\<close>

record 'x loaded =
  lw_name :: string
  lw_workflow :: "'x workflow"
  lw_context :: "val option"

datatype 'x pyobj = PyWorkflow "'x loaded" | PyCallable string "exn + 'x pyobj" | PyOther string

record ('o, 'x) network_env =
  nv_service :: "('o, 'x) service_env"
  nv_module :: "string \<Rightarrow> (string \<Rightarrow> 'x pyobj option) res"
  nv_copy :: "'x loaded \<Rightarrow> 'x loaded res"
  nv_hashable :: bool
  nv_limit :: nat
  nv_croniter :: bool
  nv_cron :: "val \<Rightarrow> int \<Rightarrow> int res"
  nv_clock :: "nat \<Rightarrow> int"
  nv_file :: "string \<Rightarrow> val res option"
  nv_invalid :: "val \<Rightarrow> string"

definition from_file :: "('o, 'x) network_env \<Rightarrow> string \<Rightarrow> manifest res" where
  "from_file env p = (case nv_file env p of
       None \<Rightarrow> Inl (Exn (OtherError ''FileNotFoundError'') p)
     | Some (Inl e) \<Rightarrow> Inl e
     | Some (Inr v) \<Rightarrow> (case manifest_of v of
           None \<Rightarrow> Inl (Exn ValueError (''Invalid network manifest '' @ p @ '': '' @ nv_invalid env v))
         | Some m \<Rightarrow> Inr m))"

definition module_path :: "string \<Rightarrow> string" where
  "module_path ref = takeWhile (\<lambda>c. c \<noteq> CHR '':'') ref"

definition attr_name :: "string \<Rightarrow> string" where
  "attr_name ref = drop 1 (dropWhile (\<lambda>c. c \<noteq> CHR '':'') ref)"

definition import_of :: "('o, 'x) network_env \<Rightarrow> string \<Rightarrow> (string \<Rightarrow> 'x pyobj option) res" where
  "import_of env ref = (case nv_module env (module_path ref) of
       Inr m \<Rightarrow> Inr m
     | Inl e \<Rightarrow> if exn_kind e = OtherError ''ModuleNotFoundError''
         then Inl (Exn ValueError (''Module '' @ sq (module_path ref) @ '' in workflow ref '' @ sq ref
           @ '' not found. Ensure the module is installed and PYTHONPATH is correct.''))
         else Inl e)"

fun call_wf_factory :: "string \<Rightarrow> 'x pyobj \<Rightarrow> 'x pyobj res" where
  "call_wf_factory ref (PyCallable k (Inl e)) = (if exn_kind e = TypeError
     then Inl (Exn ValueError (''Factory '' @ sq (attr_name ref) @ '' in module '' @ sq (module_path ref)
       @ '' requires arguments. Provide a zero-argument factory or wrap in lambda.'')) else Inl e)"
| "call_wf_factory ref (PyCallable k (Inr x)) = Inr x"
| "call_wf_factory ref x = Inr x"

definition resolve_ref :: "('o, 'x) network_env \<Rightarrow> string \<Rightarrow> 'x pyobj res" where
  "resolve_ref env ref = res_bind (import_of env ref) (\<lambda>m.
     if attr_name ref = [] then Inr (PyOther ''module'')
     else (case m (attr_name ref) of
         None \<Rightarrow> Inl (Exn ValueError (''Attribute '' @ sq (attr_name ref) @ '' not found in module ''
           @ sq (module_path ref) @ '' for ref '' @ sq ref @ ''.''))
       | Some x \<Rightarrow> call_wf_factory ref x))"

fun as_loaded :: "string \<Rightarrow> 'x pyobj \<Rightarrow> 'x loaded res" where
  "as_loaded ref (PyWorkflow w) = Inr w"
| "as_loaded ref (PyCallable k r) =
     Inl (Exn TypeError (''Resolved object for '' @ sq ref @ '' is not a Workflow instance (got '' @ k @ '').''))"
| "as_loaded ref (PyOther k) =
     Inl (Exn TypeError (''Resolved object for '' @ sq ref @ '' is not a Workflow instance (got '' @ k @ '').''))"

definition load_workflow :: "('o, 'x) network_env \<Rightarrow> string \<Rightarrow> 'x loaded res" where
  "load_workflow env ref = (case res_bind (resolve_ref env ref) (as_loaded ref) of
       Inr w \<Rightarrow> Inr w
     | Inl e \<Rightarrow> Inl (Exn RuntimeError (''Failed to load workflow '' @ sq ref @ '': '' @ exn_msg e)))"

text \<open>A context that is no dictionary is left as it is: the exception is logged.\<close>

definition inject_global :: "val dict \<Rightarrow> 'x loaded \<Rightarrow> 'x loaded" where
  "inject_global g w = (case lw_context w of
       None \<Rightarrow> w
     | Some (VDict d) \<Rightarrow> w\<lparr>lw_context := Some (VDict (dict_union d g))\<rparr>
     | Some v \<Rightarrow> if truth v then w else w\<lparr>lw_context := Some (VDict g)\<rparr>)"

definition prepare_workflow :: "('o, 'x) network_env \<Rightarrow> manifest \<Rightarrow> wf_entry \<Rightarrow> 'x loaded res" where
  "prepare_workflow env m e = res_bind (load_workflow env (nw_ref e)) (\<lambda>w.
     res_bind (nv_copy env w) (\<lambda>c. Inr (inject_global (mf_global m) c)))"

section \<open>The order of the workflows\<close>

definition or_str :: "string option \<Rightarrow> string \<Rightarrow> string" where
  "or_str o1 s = (case o1 of None \<Rightarrow> s | Some t \<Rightarrow> if t = [] then s else t)"

definition entry_key :: "wf_entry \<Rightarrow> string" where
  "entry_key w = or_str (nw_id w) (nw_ref w)"

text \<open>\<open>w.after\<close> where it is true.\<close>

definition dep_of :: "wf_entry \<Rightarrow> string option" where
  "dep_of w = (case nw_after w of None \<Rightarrow> None | Some a \<Rightarrow> if a = [] then None else Some a)"

definition given :: "wf_entry list \<Rightarrow> wf_entry dict" where
  "given ws = fold (\<lambda>(i, w). dict_set (or_str (nw_id w) (''idx_'' @ nat_str i)) w) (enumerate 0 ws) []"

fun visit_entry :: "nat \<Rightarrow> wf_entry dict \<Rightarrow> wf_entry \<Rightarrow> wf_entry list \<times> string list \<Rightarrow> (wf_entry list \<times> string list) res" where
  "visit_entry 0 g w s = Inl recursion_error"
| "visit_entry (Suc n) g w s =
     (if entry_key w \<in> set (snd s) then Inr s
      else res_bind
        (case dep_of w of
           None \<Rightarrow> Inr s
         | Some a \<Rightarrow> (case dict_get g a of
               None \<Rightarrow> Inl (Exn ValueError (''Unknown dependency '' @ sq a @ '' in workflow '' @ sq (entry_key w)))
             | Some w' \<Rightarrow> visit_entry n g w' s))
        (\<lambda>s. Inr (fst s @ [w], snd s @ [entry_key w])))"

fun visit_all :: "nat \<Rightarrow> wf_entry dict \<Rightarrow> wf_entry list \<Rightarrow> wf_entry list \<times> string list \<Rightarrow> (wf_entry list \<times> string list) res" where
  "visit_all n g [] s = Inr s"
| "visit_all n g (w # ws) s = res_bind (visit_entry n g w s) (visit_all n g ws)"

definition resolve_order :: "nat \<Rightarrow> wf_entry list \<Rightarrow> wf_entry list res" where
  "resolve_order n ws = res_bind (visit_all n (given ws) ws ([], [])) (\<lambda>s. Inr (fst s))"

section \<open>Batches\<close>

type_synonym counts = "(wf_entry \<times> int) list"

definition dep_counts :: "wf_entry list \<Rightarrow> counts" where
  "dep_counts ord = fold (\<lambda>e c. if dep_of e = None then c else dict_set e (dict_get_or c e 0 + 1) c) ord
     (fold (\<lambda>e. dict_set e 0) ord [])"

fun release :: "string \<Rightarrow> wf_entry list \<Rightarrow> counts \<times> wf_entry list \<Rightarrow> counts \<times> wf_entry list" where
  "release k [] s = s"
| "release k (x # xs) s = release k xs
     (if nw_after x = Some k
      then (let c = dict_get_or (fst s) x 0 - 1 in (dict_set x c (fst s), if c = 0 then snd s @ [x] else snd s))
      else s)"

fun release_all :: "wf_entry list \<Rightarrow> wf_entry list \<Rightarrow> counts \<times> wf_entry list \<Rightarrow> counts \<times> wf_entry list" where
  "release_all [] ord s = s"
| "release_all (e # es) ord s = release_all es ord (release (entry_key e) ord s)"

definition positive_counts :: "counts \<Rightarrow> nat" where
  "positive_counts c = length (filter (\<lambda>p. 0 < snd p) c)"

lemma positive_dec:
  "positive_counts (dict_set x (dict_get_or c x 0 - 1) c) + (if dict_get_or c x 0 - 1 = 0 then 1 else 0) \<le> positive_counts c"
  if "dict_get c x \<noteq> None \<or> dict_get_or c x 0 - 1 \<noteq> 0"
  using that by (induction c) (auto simp: positive_counts_def dict_get_or_def)

lemma release_positive:
  "positive_counts (fst (release k xs s)) + length (snd (release k xs s)) \<le> positive_counts (fst s) + length (snd s)"
proof (induction k xs s rule: release.induct)
  case (1 k s)
  then show ?case by simp
next
  case (2 k x xs s)
  have "positive_counts (dict_set x (dict_get_or (fst s) x 0 - 1) (fst s)) + (if dict_get_or (fst s) x 0 - 1 = 0 then 1 else 0)
      \<le> positive_counts (fst s)"
    by (rule positive_dec) (auto simp: dict_get_or_def)
  then show ?case using 2 by (auto simp: Let_def split: if_splits)
qed

lemma release_all_positive:
  "positive_counts (fst (release_all es ord s)) + length (snd (release_all es ord s)) \<le> positive_counts (fst s) + length (snd s)"
  by (induction es ord s rule: release_all.induct) (auto intro: order_trans[OF _ release_positive])

text \<open>The loop ends: a batch that is not the last takes the count of an entry to zero.\<close>

function batch_loop :: "wf_entry list \<Rightarrow> counts \<Rightarrow> wf_entry list \<Rightarrow> wf_entry list list" where
  "batch_loop ord c ready =
     (if ready = [] then []
      else ready # batch_loop ord (fst (release_all ready ord (c, []))) (snd (release_all ready ord (c, []))))"
  by pat_completeness auto
termination
proof (relation "measure (\<lambda>(ord, c, ready). 2 * positive_counts c + (if ready = [] then 0 else 1))", simp)
  fix ord c and ready :: "wf_entry list"
  assume "ready \<noteq> []"
  let ?r = "release_all ready ord (c, [])"
  have "positive_counts (fst ?r) + length (snd ?r) \<le> positive_counts c" using release_all_positive[of ready ord "(c, [])"] by simp
  then show "((ord, fst ?r, snd ?r), (ord, c, ready)) \<in> measure (\<lambda>(ord, c, ready). 2 * positive_counts c + (if ready = [] then 0 else 1))"
    using \<open>ready \<noteq> []\<close> by (cases "snd ?r") auto
qed

declare batch_loop.simps [simp del]

definition batches_of :: "wf_entry list \<Rightarrow> wf_entry list list" where
  "batches_of ord = batch_loop ord (dep_counts ord) (filter (\<lambda>e. dict_get_or (dep_counts ord) e 0 = 0) (remdups ord))"

definition resolve_batches :: "('o, 'x) network_env \<Rightarrow> manifest \<Rightarrow> wf_entry list list res" where
  "resolve_batches env m = res_bind (resolve_order (nv_limit env) (mf_workflows m)) (\<lambda>ord.
     if ord \<noteq> [] \<and> \<not> nv_hashable env then Inl (Exn TypeError (''unhashable type: '' @ sq ''WorkflowEntry''))
     else Inr (batches_of ord))"

section \<open>Running a network\<close>

text \<open>The tasks of a batch wait for a slot of the semaphore, prepare their workflow and run it; time and the
  session of each run are its own, the outside world is shared.\<close>

datatype 'x net_task = NetWaiting wf_entry | NetRunning wf_entry "'x loaded" | NetDone wf_entry "node_result res"

record 'x net_state =
  nt_slots :: nat
  nt_outside :: 'x

definition run_loaded :: "('o, 'x) network_env \<Rightarrow> 'x loaded \<Rightarrow> 'x \<Rightarrow> node_result res \<times> 'x" where
  "run_loaded env w x = (let (a, w') = ws_run (nv_service env) (lw_name w)
      ((fst (lw_workflow w))\<lparr>en_outside := x\<rparr>, snd (lw_workflow w)) in (a, en_outside w'))"

fun net_step :: "('o, 'x) network_env \<Rightarrow> manifest \<Rightarrow> 'x net_task \<Rightarrow> 'x net_state \<Rightarrow> 'x net_task \<times> 'x net_state" where
  "net_step env m (NetWaiting e) s =
     (if nt_slots s = 0 then (NetWaiting e, s)
      else (case prepare_workflow env m e of
          Inl ex \<Rightarrow> (NetDone e (Inl ex), s)
        | Inr w \<Rightarrow> (NetRunning e w, s\<lparr>nt_slots := nt_slots s - 1\<rparr>)))"
| "net_step env m (NetRunning e w) s =
     (let (a, x) = run_loaded env w (nt_outside s) in (NetDone e a, s\<lparr>nt_slots := nt_slots s + 1, nt_outside := x\<rparr>))"
| "net_step env m (NetDone e a) s = (NetDone e a, s)"

definition network_result :: "wf_entry \<Rightarrow> node_result res \<Rightarrow> node_result" where
  "network_result e a = (case a of
       Inl ex \<Rightarrow> failure_result (exn_msg ex) (meta (entry_key e) ''workflow'' (Some (exn_name (exn_kind ex))) 0)
     | Inr r \<Rightarrow> r)"

fun store_result :: "'x net_task \<Rightarrow> node_result dict \<Rightarrow> node_result dict" where
  "store_result (NetDone e a) d = dict_set (entry_key e) (network_result e a) d"
| "store_result t d = d"

text \<open>Waiting for a batch: after its schedule every task gets its turns, and once more those that found no slot.\<close>

definition run_batch :: "('o, 'x) network_env \<Rightarrow> manifest \<Rightarrow> nat list \<Rightarrow> wf_entry list \<Rightarrow> 'x net_state \<Rightarrow> 'x net_task list \<times> 'x net_state" where
  "run_batch env m sched b s =
     gather (net_step env m) 2 (sched @ drain 2 (length b)) (map NetWaiting b) s"

fun run_batches ::
  "('o, 'x) network_env \<Rightarrow> manifest \<Rightarrow> (nat \<Rightarrow> nat list) \<Rightarrow> wf_entry list list \<Rightarrow> node_result dict \<Rightarrow> 'x net_state \<Rightarrow> node_result dict \<times> 'x net_state" where
  "run_batches env m sched [] d s = (d, s)"
| "run_batches env m sched (b # bs) d s = (let (ts, s') = run_batch env m (sched (length bs)) b s
     in run_batches env m sched bs (fold store_result ts d) s')"

definition execute_network ::
  "('o, 'x) network_env \<Rightarrow> manifest \<Rightarrow> (nat \<Rightarrow> nat list) \<Rightarrow> 'x net_state \<Rightarrow> node_result dict res \<times> 'x net_state" where
  "execute_network env m sched s = (case resolve_batches env m of
       Inl e \<Rightarrow> (Inl e, s)
     | Inr bs \<Rightarrow> (let (d, s') = run_batches env m sched bs [] s in (Inr d, s')))"

section \<open>Scheduled networks\<close>

text \<open>\<open>heapq\<close> on pairs of a time and an entry: at equal times the entries are compared, which raises.\<close>

type_synonym timed = "int \<times> wf_entry"

definition timed_less :: "timed \<Rightarrow> timed \<Rightarrow> bool res" where
  "timed_less a b = (if fst a \<noteq> fst b then Inr (fst a < fst b)
     else if snd a = snd b then Inr False
     else Inl (Exn TypeError (sq ''<'' @ '' not supported between instances of '' @ sq ''WorkflowEntry'' @ '' and '' @ sq ''WorkflowEntry'')))"

function sift_down :: "nat \<Rightarrow> nat \<Rightarrow> timed \<Rightarrow> timed list \<Rightarrow> timed list res" where
  "sift_down start pos x h =
     (if pos \<le> start then Inr (h[pos := x])
      else (case timed_less x (h ! ((pos - 1) div 2)) of
          Inl e \<Rightarrow> Inl e
        | Inr b \<Rightarrow> if b then sift_down start ((pos - 1) div 2) x (h[pos := h ! ((pos - 1) div 2)]) else Inr (h[pos := x])))"
  by pat_completeness auto
termination by (relation "measure (\<lambda>(start, pos, x, h). pos)") auto

function sift_up :: "nat \<Rightarrow> timed \<Rightarrow> timed list \<Rightarrow> timed list res" where
  "sift_up pos x h =
     (if 2 * pos + 1 < length h
      then res_bind (if 2 * pos + 2 < length h
             then res_bind (timed_less (h ! (2 * pos + 1)) (h ! (2 * pos + 2))) (\<lambda>b. Inr (if b then 2 * pos + 1 else 2 * pos + 2))
             else Inr (2 * pos + 1))
           (\<lambda>c. if pos < c then sift_up c x (h[pos := h ! c]) else Inr h)
      else sift_down 0 pos x h)"
  by pat_completeness auto
termination by (relation "measure (\<lambda>(pos, x, h). length h - pos)") auto

declare sift_down.simps [simp del] sift_up.simps [simp del]

definition heappush :: "timed list \<Rightarrow> timed \<Rightarrow> timed list res" where
  "heappush h x = sift_down 0 (length h) x (h @ [x])"

definition heappop :: "timed list \<Rightarrow> (timed \<times> timed list) res" where
  "heappop h = (if h = [] then Inl (Exn IndexError ''index out of range'')
     else if butlast h = [] then Inr (last h, [])
     else res_bind (sift_up 0 (last h) (butlast h)) (\<lambda>h'. Inr (hd h, h')))"

definition schedule_of :: "wf_entry \<Rightarrow> val" where
  "schedule_of e = dict_get_or (nw_extra e) ''schedule'' VNone"

fun push_all :: "('o, 'x) network_env \<Rightarrow> int \<Rightarrow> wf_entry list \<Rightarrow> timed list \<Rightarrow> timed list res" where
  "push_all env now [] h = Inr h"
| "push_all env now (e # es) h = res_bind (nv_cron env (schedule_of e) now) (\<lambda>t. res_bind (heappush h (t, e)) (push_all env now es))"

text \<open>The main loop, with the number of runs it may still start as fuel; \<open>None\<close> means that it goes on. A
  workflow that a module holds starts every run as it was loaded.\<close>

fun schedule_loop ::
  "nat \<Rightarrow> ('o, 'x) network_env \<Rightarrow> bool \<Rightarrow> nat \<Rightarrow> timed list \<Rightarrow> 'x net_state \<Rightarrow> (unit res \<times> 'x net_state) option" where
  "schedule_loop n env forever k [] s = Some (Inr (), s)"
| "schedule_loop 0 env forever k (t # h) s = None"
| "schedule_loop (Suc n) env forever k (t # h) s = (case heappop (t # h) of
       Inl ex \<Rightarrow> Some (Inl ex, s)
     | Inr ((_, e), h') \<Rightarrow> (case load_workflow env (nw_ref e) of
           Inl ex \<Rightarrow> Some (Inl ex, s)
         | Inr w \<Rightarrow> (let (a, x) = run_loaded env w (nt_outside s); s' = s\<lparr>nt_outside := x\<rparr> in
             (case a of
                Inl ex \<Rightarrow> Some (Inl ex, s')
              | Inr _ \<Rightarrow> if \<not> forever then schedule_loop n env forever k h' s'
                  else (case res_bind (nv_cron env (schedule_of e) (nv_clock env k)) (\<lambda>t. heappush h' (t, e)) of
                      Inl ex \<Rightarrow> Some (Inl ex, s')
                    | Inr h'' \<Rightarrow> schedule_loop n env forever (Suc k) h'' s')))))"

definition execute_scheduled ::
  "nat \<Rightarrow> ('o, 'x) network_env \<Rightarrow> manifest \<Rightarrow> bool \<Rightarrow> int \<Rightarrow> (nat \<Rightarrow> nat list) \<Rightarrow> 'x net_state \<Rightarrow> (unit res \<times> 'x net_state) option" where
  "execute_scheduled n env m forever now sched s =
     (if \<not> nv_croniter env
      then Some (Inl (Exn RuntimeError ''croniter is required for scheduled execution - install with pip install croniter''), s)
      else (case push_all env now (filter (\<lambda>e. truth (schedule_of e)) (mf_workflows m)) [] of
          Inl ex \<Rightarrow> Some (Inl ex, s)
        | Inr h \<Rightarrow> if \<exists>e \<in> set (mf_workflows m). \<not> truth (schedule_of e)
            then (case execute_network env m sched s of
                (Inl ex, s') \<Rightarrow> Some (Inl ex, s')
              | (Inr _, s') \<Rightarrow> schedule_loop n env forever 0 h s')
            else schedule_loop n env forever 0 h s))"

section \<open>The order of execution\<close>

text \<open>What a visit adds: entries that come after the one they wait for.\<close>

definition ordered_ok :: "wf_entry dict \<Rightarrow> wf_entry list \<times> string list \<Rightarrow> bool" where
  "ordered_ok g s \<longleftrightarrow> snd s = map entry_key (fst s) \<and>
     (\<forall>xs w ys a. fst s = xs @ w # ys \<longrightarrow> dep_of w = Some a \<longrightarrow>
        (\<exists>w'. dict_get g a = Some w' \<and> entry_key w' \<in> entry_key ` set xs))"

lemma ordered_ok_snoc:
  assumes "ordered_ok g s" "\<And>a. dep_of w = Some a \<Longrightarrow> \<exists>w'. dict_get g a = Some w' \<and> entry_key w' \<in> set (snd s)"
  shows "ordered_ok g (fst s @ [w], snd s @ [entry_key w])"
  using assms unfolding ordered_ok_def
  by (auto simp: append_eq_append_conv2 Cons_eq_append_conv append_eq_Cons_conv; fastforce)

lemma visit_ok:
  assumes "visit_entry n g w s = Inr s'" "ordered_ok g s"
  shows "ordered_ok g s' \<and> entry_key w \<in> set (snd s') \<and> set (snd s) \<subseteq> set (snd s')
    \<and> (\<forall>ws. set (fst s) \<subseteq> ws \<longrightarrow> w \<in> ws \<longrightarrow> ran (dict_get g) \<subseteq> ws \<longrightarrow> set (fst s') \<subseteq> ws)"
  using assms
proof (induction n arbitrary: w s s')
  case 0
  then show ?case by simp
next
  case (Suc n)
  show ?case
  proof (cases "entry_key w \<in> set (snd s)")
    case True
    then show ?thesis using Suc.prems by auto
  next
    case new: False
    show ?thesis
    proof (cases "dep_of w")
      case None
      then have "s' = (fst s @ [w], snd s @ [entry_key w])" using Suc.prems(1) new by simp
      then show ?thesis using ordered_ok_snoc[OF Suc.prems(2), of w] None by auto
    next
      case (Some a)
      then obtain w' t where w': "dict_get g a = Some w'" "visit_entry n g w' s = Inr t"
          "s' = (fst t @ [w], snd t @ [entry_key w])"
        using Suc.prems(1) new by (auto simp: res_bind_Inr_iff split: option.splits)
      note t = Suc.IH[OF w'(2) Suc.prems(2)]
      have "ordered_ok g s'" unfolding w'(3)
        by (rule ordered_ok_snoc) (use t w'(1) Some in auto)
      moreover have "w' \<in> ran (dict_get g)" using w'(1) by (auto simp: ran_def)
      ultimately show ?thesis using t w'(3) by auto
    qed
  qed
qed

lemma visit_all_ok:
  assumes "visit_all n g ws s = Inr s'" "ordered_ok g s"
  shows "ordered_ok g s' \<and> entry_key ` set ws \<subseteq> set (snd s') \<and> set (snd s) \<subseteq> set (snd s')
    \<and> (\<forall>vs. set (fst s) \<subseteq> vs \<longrightarrow> set ws \<subseteq> vs \<longrightarrow> ran (dict_get g) \<subseteq> vs \<longrightarrow> set (fst s') \<subseteq> vs)"
  using assms
proof (induction ws arbitrary: s)
  case Nil
  then show ?case by auto
next
  case (Cons w ws)
  then obtain t where t: "visit_entry n g w s = Inr t" "visit_all n g ws t = Inr s'" by (auto simp: res_bind_Inr_iff)
  note v = visit_ok[OF t(1) Cons.prems(2)]
  note r = Cons.IH[OF t(2)]
  from v r show ?case by auto
qed

lemma given_ran: "ran (dict_get (given ws)) \<subseteq> set ws"
proof -
  have "ran (dict_get (fold (\<lambda>(i, w). dict_set (or_str (nw_id w) (''idx_'' @ nat_str i)) w) xs d)) \<subseteq> ran (dict_get d) \<union> snd ` set xs"
    for xs and d :: "wf_entry dict"
  proof (induction xs arbitrary: d)
    case (Cons x xs)
    obtain i w where x: "x = (i, w)" by fastforce
    have "ran (dict_get (dict_set k w d)) \<subseteq> insert w (ran (dict_get d))" for k by (auto simp: ran_def)
    then show ?case using Cons.IH[of "dict_set (or_str (nw_id w) (''idx_'' @ nat_str i)) w d"] by (fastforce simp: x)
  qed auto
  note fold = this[of "enumerate 0 ws" "[]"]
  have "snd ` set (enumerate 0 ws) = set ws" by (metis list.set_map map_snd_enumerate)
  then show ?thesis using fold unfolding given_def by simp
qed

lemma resolved:
  assumes "resolve_order n ws = Inr ord"
  shows "ordered_ok (given ws) (ord, map entry_key ord)" "set ord \<subseteq> set ws" "entry_key ` set ord = entry_key ` set ws"
proof -
  obtain s where s: "visit_all n (given ws) ws ([], []) = Inr s" "ord = fst s"
    using assms by (auto simp: resolve_order_def res_bind_Inr_iff)
  have init: "ordered_ok (given ws) ([], [])" by (simp add: ordered_ok_def)
  have v: "ordered_ok (given ws) s \<and> entry_key ` set ws \<subseteq> set (snd s) \<and>
      (\<forall>vs. set ws \<subseteq> vs \<longrightarrow> ran (dict_get (given ws)) \<subseteq> vs \<longrightarrow> set (fst s) \<subseteq> vs)"
    using visit_all_ok[OF s(1) init] by simp
  have k: "snd s = map entry_key ord" using v unfolding s(2) ordered_ok_def by blast
  show "ordered_ok (given ws) (ord, map entry_key ord)" using v k s(2) by (metis prod.collapse)
  show sub: "set ord \<subseteq> set ws" using v given_ran s(2) by blast
  have "entry_key ` set ws \<subseteq> set (snd s)" using v by blast
  then show "entry_key ` set ord = entry_key ` set ws" using sub unfolding k by auto
qed

text \<open>In the order that the coordinator computes, an entry comes after an entry with the key of the one it waits for.\<close>

theorem order_respects_after:
  assumes "resolve_order n ws = Inr (xs @ w # ys)" "dep_of w = Some a"
  shows "\<exists>w'. dict_get (given ws) a = Some w' \<and> entry_key w' \<in> entry_key ` set xs"
  using resolved(1)[OF assms(1)] assms(2) by (auto simp: ordered_ok_def)

text \<open>A manifest whose entries wait for each other in a circle is never ordered, whatever the recursion limit.\<close>

theorem circular_manifest_never_ordered:
  assumes "distinct (map entry_key ws)" "C \<subseteq> set ws" "C \<noteq> {}"
    and "\<forall>w \<in> C. \<exists>a w'. dep_of w = Some a \<and> dict_get (given ws) a = Some w' \<and> w' \<in> C"
  shows "isl (resolve_order n ws)"
proof (rule ccontr)
  assume "\<not> isl (resolve_order n ws)"
  then obtain ord where o1: "resolve_order n ws = Inr ord" by (cases "resolve_order n ws") auto
  have inj: "inj_on entry_key (set ws)" using assms(1) by (simp add: distinct_map)
  have "\<exists>e \<in> set ord. e \<in> C"
  proof -
    obtain c where c: "c \<in> C" using assms(3) by auto
    then have "entry_key c \<in> entry_key ` set ord" using assms(2) resolved(3)[OF o1] by auto
    then obtain e where "e \<in> set ord" "entry_key e = entry_key c" by auto
    moreover from this have "e = c" using inj_onD[OF inj, of e c] c assms(2) resolved(2)[OF o1] by blast
    ultimately show ?thesis using c by auto
  qed
  then obtain xs w ys where w: "ord = xs @ w # ys" "w \<in> C" "\<forall>x \<in> set xs. x \<notin> C"
    using split_list_first_prop[of ord "\<lambda>e. e \<in> C"] by auto
  obtain a w' where a: "dep_of w = Some a" "dict_get (given ws) a = Some w'" "w' \<in> C" using assms(4) w(2) by blast
  have "\<forall>xs' w ys. ord = xs' @ w # ys \<longrightarrow> (\<forall>a. dep_of w = Some a \<longrightarrow> (\<exists>w'. dict_get (given ws) a = Some w' \<and> entry_key w' \<in> entry_key ` set xs'))"
    using resolved(1)[OF o1] unfolding ordered_ok_def fst_conv by blast
  then have "\<exists>w'. dict_get (given ws) a = Some w' \<and> entry_key w' \<in> entry_key ` set xs" using w(1) a(1) by simp
  then obtain x where x: "x \<in> set xs" "entry_key x = entry_key w'" using a(2) by auto
  have "x \<in> set ws" using x(1) resolved(2)[OF o1] w(1) by auto
  then have "x = w'" by (rule inj_onD[OF inj x(2) _ subsetD[OF assms(2) a(3)]])
  then show False using a(3) x(1) w(3) by simp
qed

lemma visit_returns:
  assumes "\<forall>w \<in> V. \<forall>a. dep_of w = Some a \<longrightarrow> (\<exists>w'. dict_get g a = Some w' \<and> w' \<in> V \<and> rank w' < rank w)"
  shows "w \<in> V \<Longrightarrow> rank w < n \<Longrightarrow> \<exists>s'. visit_entry n g w s = Inr s'"
proof (induction n arbitrary: w s)
  case 0
  then show ?case by simp
next
  case (Suc n)
  show ?case
  proof (cases "dep_of w")
    case None
    then show ?thesis by simp
  next
    case (Some a)
    then obtain w' where w': "dict_get g a = Some w'" "w' \<in> V" "rank w' < rank w" using assms Suc.prems by blast
    then have "rank w' < n" using Suc.prems(2) by simp
    then obtain s' where "visit_entry n g w' s = Inr s'" using Suc.IH w'(2) by blast
    then show ?thesis using Some w'(1) by simp
  qed
qed

text \<open>Without such circles, and with a recursion limit above the longest chain, there is an order.\<close>

lemma acyclic_order_exists:
  assumes "\<forall>w \<in> set ws. \<forall>a. dep_of w = Some a \<longrightarrow> (\<exists>w'. dict_get (given ws) a = Some w' \<and> rank w' < rank w)"
    and "\<forall>w \<in> set ws. rank w < n"
  shows "\<exists>ord. resolve_order n ws = Inr ord"
proof -
  have chain: "\<forall>w \<in> set ws. \<forall>a. dep_of w = Some a \<longrightarrow> (\<exists>w'. dict_get (given ws) a = Some w' \<and> w' \<in> set ws \<and> rank w' < rank w)"
    using assms(1) given_ran[of ws] by (meson ranI subsetD)
  have "set vs \<subseteq> set ws \<Longrightarrow> \<exists>s'. visit_all n (given ws) vs s = Inr s'" for vs s
  proof (induction vs arbitrary: s)
    case (Cons v vs)
    have "v \<in> set ws" "rank v < n" using Cons.prems assms(2) by auto
    then obtain t where "visit_entry n (given ws) v s = Inr t" using visit_returns[OF chain] by blast
    then show ?case using Cons by simp
  qed simp
  from this[of ws "([], [])"] show ?thesis by (auto simp: resolve_order_def)
qed

section \<open>The batches of an order\<close>

lemma release_spec:
  assumes "distinct xs" "\<forall>x \<in> set xs. nw_after x = Some k \<longrightarrow> dict_get c x = Some 1"
  shows "dict_get (fst (release k xs (c, acc))) y = (if y \<in> set xs \<and> nw_after y = Some k then Some 0 else dict_get c y)
    \<and> snd (release k xs (c, acc)) = acc @ filter (\<lambda>x. nw_after x = Some k) xs"
  using assms
proof (induction xs arbitrary: c acc)
  case (Cons x xs)
  show ?case
  proof (cases "nw_after x = Some k")
    case True
    have "dict_get_or c x 0 - 1 = 0" using Cons.prems(2) True by (simp add: dict_get_or_def)
    moreover have "\<forall>z \<in> set xs. nw_after z = Some k \<longrightarrow> dict_get (dict_set x 0 c) z = Some 1" using Cons.prems by auto
    ultimately show ?thesis using Cons.IH[of "dict_set x 0 c" "acc @ [x]"] Cons.prems(1) True by auto
  next
    case False
    then show ?thesis using Cons.IH[of c acc] Cons.prems by auto
  qed
qed simp

text \<open>The counts after the entries of \<open>P\<close> have been released.\<close>

definition counts_after :: "wf_entry list \<Rightarrow> wf_entry set \<Rightarrow> counts \<Rightarrow> bool" where
  "counts_after ord P c \<longleftrightarrow> (\<forall>x \<in> set ord. dict_get c x =
     Some (case dep_of x of None \<Rightarrow> 0 | Some a \<Rightarrow> if a \<in> entry_key ` P then 0 else 1))"

definition entry_keyed :: "wf_entry list \<Rightarrow> bool" where
  "entry_keyed ord \<longleftrightarrow> distinct (map entry_key ord) \<and> (\<forall>e \<in> set ord. entry_key e \<noteq> [])"

lemma after_dep: "k \<noteq> [] \<Longrightarrow> nw_after x = Some k \<longleftrightarrow> dep_of x = Some k"
  by (auto simp: dep_of_def split: option.splits)

lemma release_all_spec:
  assumes "entry_keyed ord" "set es \<subseteq> set ord" "distinct es" "P \<inter> set es = {}" "P \<subseteq> set ord" "counts_after ord P c"
  shows "counts_after ord (P \<union> set es) (fst (release_all es ord (c, acc)))
    \<and> snd (release_all es ord (c, acc)) = acc @ concat (map (\<lambda>e. filter (\<lambda>x. dep_of x = Some (entry_key e)) ord) es)"
  using assms
proof (induction es arbitrary: P c acc)
  case (Cons e es)
  let ?k = "entry_key e"
  have inj: "inj_on entry_key (set ord)" and k: "?k \<noteq> []" and d: "distinct ord"
    using Cons.prems(1,2) by (auto simp: entry_keyed_def distinct_map)
  have new: "?k \<notin> entry_key ` P"
    using inj_onD[OF inj] Cons.prems(2,4,5) by (metis disjoint_insert(1) imageE insert_subset list.simps(15) subsetD)
  have one: "\<forall>x \<in> set ord. nw_after x = Some ?k \<longrightarrow> dict_get c x = Some 1"
    using Cons.prems(6) new by (auto simp: counts_after_def after_dep[OF k])
  obtain c' acc' where r: "release ?k ord (c, acc) = (c', acc')" by fastforce
  have c': "dict_get c' y = (if y \<in> set ord \<and> dep_of y = Some ?k then Some 0 else dict_get c y)" for y
    using release_spec[OF d one, of acc y] by (simp add: r after_dep[OF k])
  have acc': "acc' = acc @ filter (\<lambda>x. dep_of x = Some ?k) ord"
    using release_spec[OF d one, of acc] by (simp add: r after_dep[OF k])
  have "counts_after ord (insert e P) c'"
    using Cons.prems(6) by (auto simp: counts_after_def c' split: option.splits)
  then show ?case using Cons.IH[of "insert e P" c' acc'] Cons.prems(1-5) by (auto simp: r acc')
qed simp

lemma dep_counts_counted:
  assumes "distinct ord"
  shows "counts_after ord {} (dep_counts ord)"
proof -
  have zero: "dict_get (fold (\<lambda>e. dict_set e 0) xs c) x = (if x \<in> set xs then Some 0 else dict_get c x)" for xs x and c :: counts
    by (induction xs arbitrary: c) auto
  have one: "distinct xs \<Longrightarrow> dict_get (fold (\<lambda>e c. if dep_of e = None then c else dict_set e (dict_get_or c e 0 + 1) c) xs c) x =
      (if x \<in> set xs \<and> dep_of x \<noteq> None then Some (dict_get_or c x 0 + 1) else dict_get c x)" for xs x and c :: counts
    by (induction xs arbitrary: c) (auto simp: dict_get_or_def)
  show ?thesis using assms by (auto simp: counts_after_def dep_counts_def one zero dict_get_or_def split: option.splits)
qed

definition batch_inv :: "wf_entry list \<Rightarrow> wf_entry set \<Rightarrow> counts \<Rightarrow> wf_entry list \<Rightarrow> bool" where
  "batch_inv ord P c ready \<longleftrightarrow> counts_after ord P c \<and> P \<subseteq> set ord \<and> set ready \<subseteq> set ord \<and> distinct ready \<and> P \<inter> set ready = {}
     \<and> (\<forall>x \<in> set ord. (case dep_of x of None \<Rightarrow> True | Some a \<Rightarrow> a \<in> entry_key ` P) \<longleftrightarrow> x \<in> P \<union> set ready)"

definition waits_ok :: "wf_entry list \<Rightarrow> bool" where
  "waits_ok ord \<longleftrightarrow> (\<forall>xs w ys a. ord = xs @ w # ys \<longrightarrow> dep_of w = Some a \<longrightarrow> a \<in> entry_key ` set xs)"

lemma next_distinct:
  assumes "entry_keyed ord" "distinct es" "set es \<subseteq> set ord"
  shows "distinct (concat (map (\<lambda>e. filter (\<lambda>x. dep_of x = Some (entry_key e)) ord) es))"
  using assms(2,3)
proof (induction es)
  case (Cons e es)
  have inj: "inj_on entry_key (set ord)" "distinct ord" using assms(1) by (auto simp: entry_keyed_def distinct_map)
  have "entry_key f \<noteq> entry_key e" if "f \<in> set es" for f
    using that Cons.prems inj_onD[OF inj(1), of e f] by auto
  then have "\<forall>f \<in> set es. entry_key f \<noteq> entry_key e" by blast
  then show ?case using Cons inj(2) by auto
qed simp

lemma batch_inv_next:
  assumes "entry_keyed ord" "batch_inv ord P c ready"
  defines "r \<equiv> release_all ready ord (c, [])"
  shows "batch_inv ord (P \<union> set ready) (fst r) (snd r)
    \<and> (\<forall>x \<in> set (snd r). \<exists>e \<in> set ready. dep_of x = Some (entry_key e))"
proof -
  note inv = assms(2)[unfolded batch_inv_def]
  have spec: "counts_after ord (P \<union> set ready) (fst r)"
    "snd r = concat (map (\<lambda>e. filter (\<lambda>x. dep_of x = Some (entry_key e)) ord) ready)"
    using release_all_spec[OF assms(1), of ready P c "[]"] inv by (auto simp: r_def)
  have inj: "inj_on entry_key (set ord)" using assms(1) by (auto simp: entry_keyed_def distinct_map)
  have fresh: "(P \<union> set ready) \<inter> set (snd r) = {}"
  proof (rule ccontr)
    assume "(P \<union> set ready) \<inter> set (snd r) \<noteq> {}"
    then obtain x e where x: "x \<in> P \<union> set ready" "x \<in> set ord" "e \<in> set ready" "dep_of x = Some (entry_key e)"
      by (auto simp: spec(2))
    then have "entry_key e \<in> entry_key ` P" using inv by (metis option.simps(5))
    then obtain p where "p \<in> P" "entry_key p = entry_key e" by auto
    then have "e \<in> P" using inj_onD[OF inj, of p e] inv x(3) by blast
    then show False using inv x(3) by blast
  qed
  have ready: "(case dep_of x of None \<Rightarrow> True | Some a \<Rightarrow> a \<in> entry_key ` (P \<union> set ready)) \<longleftrightarrow> x \<in> P \<union> set ready \<union> set (snd r)"
    if "x \<in> set ord" for x
  proof -
    have "(case dep_of x of None \<Rightarrow> True | Some a \<Rightarrow> a \<in> entry_key ` P) \<longleftrightarrow> x \<in> P \<union> set ready" using inv that by blast
    moreover have "x \<in> set (snd r) \<longleftrightarrow> (\<exists>a \<in> entry_key ` set ready. dep_of x = Some a)" using that by (auto simp: spec(2))
    ultimately show ?thesis by (cases "dep_of x") auto
  qed
  have "distinct (snd r)" unfolding spec(2) by (rule next_distinct[OF assms(1)]) (use inv in auto)
  then have "batch_inv ord (P \<union> set ready) (fst r) (snd r)"
    using spec(1) inv fresh ready by (auto simp: batch_inv_def spec(2))
  then show ?thesis by (auto simp: spec(2))
qed

lemma batch_inv_end:
  assumes "batch_inv ord P c []" "waits_ok ord"
  shows "P = set ord"
proof (rule ccontr)
  assume "P \<noteq> set ord"
  then have "\<exists>x \<in> set ord. x \<notin> P" using assms(1) by (auto simp: batch_inv_def)
  then obtain xs w ys where w: "ord = xs @ w # ys" "w \<notin> P" "\<forall>x \<in> set xs. x \<in> P"
    using split_list_first_prop[of ord "\<lambda>x. x \<notin> P"] by auto
  have "case dep_of w of None \<Rightarrow> True | Some a \<Rightarrow> a \<in> entry_key ` P"
    using assms(2) w unfolding waits_ok_def by (cases "dep_of w") fastforce+
  then show False using assms(1) w by (auto simp: batch_inv_def)
qed

lemma batch_loop_ok:
  assumes "entry_keyed ord" "waits_ok ord" "batch_inv ord P c ready"
  shows "set (concat (batch_loop ord c ready)) = set ord - P \<and> distinct (concat (batch_loop ord c ready))
    \<and> (\<forall>i x. Suc i < length (batch_loop ord c ready) \<longrightarrow> x \<in> set (batch_loop ord c ready ! Suc i) \<longrightarrow>
         (\<exists>e \<in> set (batch_loop ord c ready ! i). dep_of x = Some (entry_key e)))"
  using assms
proof (induction ord c ready arbitrary: P rule: batch_loop.induct)
  case (1 ord c ready)
  show ?case
  proof (cases "ready = []")
    case True
    then show ?thesis using batch_inv_end[of ord P c] 1 by (simp add: batch_loop.simps)
  next
    case False
    let ?r = "release_all ready ord (c, [])"
    let ?b = "batch_loop ord (fst ?r) (snd ?r)"
    have next': "batch_inv ord (P \<union> set ready) (fst ?r) (snd ?r)"
      "\<forall>x \<in> set (snd ?r). \<exists>e \<in> set ready. dep_of x = Some (entry_key e)"
      using batch_inv_next[OF "1.prems"(1,3)] by auto
    note IH = "1.IH"[OF False "1.prems"(1,2) next'(1)]
    have unroll: "batch_loop ord c ready = ready # ?b" using False by (simp add: batch_loop.simps[of ord c])
    have hd: "\<forall>x \<in> set (?b ! 0). \<exists>e \<in> set ready. dep_of x = Some (entry_key e)" if "0 < length ?b"
    proof -
      have "?b ! 0 = snd ?r" using that by (subst batch_loop.simps) (auto simp: batch_loop.simps[of ord "fst ?r" "snd ?r"] split: if_splits)
      then show ?thesis using next'(2) by simp
    qed
    show ?thesis
      unfolding unroll using IH hd "1.prems"(3)
      by (auto simp: batch_inv_def nth_Cons split: nat.splits)
  qed
qed

lemma visit_distinct:
  assumes "\<forall>w \<in> V. \<forall>a. dep_of w = Some a \<longrightarrow> (\<exists>w'. dict_get g a = Some w' \<and> w' \<in> V \<and> rank w' < rank w)"
    and "inj_on entry_key V"
  shows "visit_entry n g w s = Inr t \<Longrightarrow> w \<in> V \<Longrightarrow> distinct (snd s) \<Longrightarrow>
    distinct (snd t) \<and> (\<forall>k \<in> set (snd t) - set (snd s). \<exists>x \<in> V. k = entry_key x \<and> rank x \<le> (rank w :: nat))"
proof (induction n arbitrary: w s t)
  case 0
  then show ?case by simp
next
  case (Suc n)
  show ?case
  proof (cases "dep_of w")
    case None
    then show ?thesis using Suc.prems by (auto split: if_splits)
  next
    case (Some a)
    obtain w' where w': "dict_get g a = Some w'" "w' \<in> V" "rank w' < rank w" using assms(1) Suc.prems(2) Some by blast
    show ?thesis
    proof (cases "entry_key w \<in> set (snd s)")
      case True
      then show ?thesis using Suc.prems by simp
    next
      case False
      then obtain u where u: "visit_entry n g w' s = Inr u" "t = (fst u @ [w], snd u @ [entry_key w])"
        using Suc.prems(1) Some w'(1) by (auto simp: res_bind_Inr_iff)
      note IH = Suc.IH[OF u(1) w'(2) Suc.prems(3)]
      have "entry_key w \<notin> set (snd u)"
      proof
        assume "entry_key w \<in> set (snd u)"
        then obtain x where x: "x \<in> V" "entry_key x = entry_key w" "rank x \<le> rank w'" using IH False by (metis DiffI)
        then have "x = w" using inj_onD[OF assms(2), of x w] Suc.prems(2) by blast
        then show False using x(3) w'(3) by simp
      qed
      moreover have "\<forall>k \<in> set (snd u) - set (snd s). \<exists>x \<in> V. k = entry_key x \<and> rank x \<le> rank w"
        using IH w'(3) by (meson le_trans less_imp_le)
      ultimately show ?thesis using IH Suc.prems(2) by (auto simp: u(2))
    qed
  qed
qed

lemma visit_all_distinct:
  assumes "\<forall>w \<in> V. \<forall>a. dep_of w = Some a \<longrightarrow> (\<exists>w'. dict_get g a = Some w' \<and> w' \<in> V \<and> rank w' < (rank w :: nat))"
    and "inj_on entry_key V"
  shows "visit_all n g ws s = Inr t \<Longrightarrow> set ws \<subseteq> V \<Longrightarrow> distinct (snd s) \<Longrightarrow> distinct (snd t)"
proof (induction ws arbitrary: s)
  case (Cons w ws)
  then obtain u where u: "visit_entry n g w s = Inr u" "visit_all n g ws u = Inr t" by (auto simp: res_bind_Inr_iff)
  show ?case using Cons.IH[OF u(2)] visit_distinct[OF assms u(1)] Cons.prems(2,3) by simp
qed simp

definition has_ids :: "wf_entry list \<Rightarrow> bool" where
  "has_ids ws \<longleftrightarrow> (\<forall>w \<in> set ws. \<exists>i. nw_id w = Some i \<and> i \<noteq> []) \<and> distinct (map nw_id ws)"

definition ranked_entries :: "(wf_entry \<Rightarrow> nat) \<Rightarrow> wf_entry list \<Rightarrow> bool" where
  "ranked_entries rank ws \<longleftrightarrow> (\<forall>w \<in> set ws. \<forall>a. dep_of w = Some a \<longrightarrow> (\<exists>w' \<in> set ws. nw_id w' = Some a \<and> rank w' < rank w))"

lemma ids_keys: "has_ids ws \<Longrightarrow> w \<in> set ws \<Longrightarrow> nw_id w = Some (entry_key w) \<and> entry_key w \<noteq> []"
  by (force simp: has_ids_def entry_key_def or_str_def)

lemma ids_inj: "has_ids ws \<Longrightarrow> inj_on entry_key (set ws)"
  by (rule inj_onI) (metis distinct_map has_ids_def ids_keys inj_onD)

lemma ids_given:
  assumes "has_ids ws"
  shows "dict_get (given ws) a = (if \<exists>w \<in> set ws. nw_id w = Some a then Some (SOME w. w \<in> set ws \<and> nw_id w = Some a) else None)"
proof -
  let ?f = "\<lambda>(i, w). dict_set (or_str (nw_id w) (''idx_'' @ nat_str i)) w"
  have fold: "dict_get (fold ?f xs d) a = (if \<exists>w \<in> snd ` set xs. nw_id w = Some a
      then Some (SOME w. w \<in> snd ` set xs \<and> nw_id w = Some a) else dict_get d a)"
    if "\<forall>w \<in> snd ` set xs. \<exists>i. nw_id w = Some i \<and> i \<noteq> []" "distinct (map (nw_id \<circ> snd) xs)" for xs and d :: "wf_entry dict"
    using that
  proof (induction xs arbitrary: d)
    case (Cons x xs)
    obtain i w where x: "x = (i, w)" by fastforce
    obtain j where j: "nw_id w = Some j" "j \<noteq> []" using Cons.prems(1) by (auto simp: x)
    have rest: "\<forall>v \<in> snd ` set xs. nw_id v \<noteq> Some j" using Cons.prems(2) j by (force simp: x)
    have "dict_get (fold ?f xs (dict_set j w d)) a = (if \<exists>w \<in> snd ` set xs. nw_id w = Some a
      then Some (SOME w. w \<in> snd ` set xs \<and> nw_id w = Some a) else dict_get (dict_set j w d) a)"
      using Cons.IH[of "dict_set j w d"] Cons.prems by auto
    moreover have "(SOME v. v \<in> snd ` set (x # xs) \<and> nw_id v = Some j) = w"
      by (rule some_equality) (use rest j in \<open>auto simp: x\<close>)
    moreover have "(\<lambda>v. v \<in> snd ` set (x # xs) \<and> nw_id v = Some a) = (\<lambda>v. v \<in> snd ` set xs \<and> nw_id v = Some a)" if "a \<noteq> j"
      using that j by (auto simp: x)
    ultimately show ?case using rest j by (cases "a = j") (auto simp: x or_str_def)
  qed simp
  have "snd ` set (enumerate 0 ws) = set ws" by (metis list.set_map map_snd_enumerate)
  moreover have "map (nw_id \<circ> snd) (enumerate 0 ws) = map nw_id ws" by (metis list.map_comp map_snd_enumerate)
  ultimately show ?thesis using fold[of "enumerate 0 ws" "[]"] assms by (auto simp: given_def has_ids_def)
qed

lemma ids_given_some:
  assumes "has_ids ws" "w \<in> set ws" "nw_id w = Some a"
  shows "dict_get (given ws) a = Some w"
proof -
  have "(SOME v. v \<in> set ws \<and> nw_id v = Some a) = w"
    by (rule some_equality) (use assms in \<open>auto simp: has_ids_def distinct_map inj_on_def\<close>)
  then show ?thesis using ids_given[OF assms(1), of a] assms(2,3) by auto
qed

lemma ids_given_id: "has_ids ws \<Longrightarrow> dict_get (given ws) a = Some w \<Longrightarrow> w \<in> set ws \<and> nw_id w = Some a"
  using ids_given[of ws a] ids_given_some[of ws _ a] by (auto split: if_splits)

lemma ranked_order:
  assumes "has_ids ws" "ranked_entries rank ws" "\<forall>w \<in> set ws. rank w < n"
  shows "\<exists>ord. resolve_order n ws = Inr ord \<and> set ord = set ws \<and> entry_keyed ord \<and> waits_ok ord"
proof -
  have chain: "\<forall>w \<in> set ws. \<forall>a. dep_of w = Some a \<longrightarrow>
      (\<exists>w'. dict_get (given ws) a = Some w' \<and> w' \<in> set ws \<and> rank w' < rank w)"
    using assms(2) ids_given_some[OF assms(1)] unfolding ranked_entries_def by blast
  then obtain ord where o1: "resolve_order n ws = Inr ord"
    using acyclic_order_exists[of ws rank n] assms(3) by blast
  note r = resolved[OF o1]
  obtain s where s: "visit_all n (given ws) ws ([], []) = Inr s" "ord = fst s"
    using o1 by (auto simp: resolve_order_def res_bind_Inr_iff)
  have "snd s = map entry_key ord"
    using visit_all_ok[OF s(1)] s(2) by (auto simp: ordered_ok_def)
  then have d: "distinct (map entry_key ord)"
    using visit_all_distinct[OF chain ids_inj[OF assms(1)] s(1)] by simp
  have "set ord = set ws"
  proof
    show "set ws \<subseteq> set ord"
    proof
      fix w assume w: "w \<in> set ws"
      then obtain v where "v \<in> set ord" "entry_key v = entry_key w" using r(3) by (metis imageE imageI)
      then show "w \<in> set ord" using inj_onD[OF ids_inj[OF assms(1)], of v w] r(2) w by auto
    qed
  qed (rule r(2))
  moreover have "waits_ok ord" unfolding waits_ok_def
  proof (intro allI impI)
    fix xs w ys a assume w: "ord = xs @ w # ys" "dep_of w = Some a"
    then have "\<exists>w'. dict_get (given ws) a = Some w' \<and> entry_key w' \<in> entry_key ` set xs"
      using r(1) unfolding ordered_ok_def fst_conv by blast
    then show "a \<in> entry_key ` set xs" using ids_given_id[OF assms(1)] ids_keys[OF assms(1)] by fastforce
  qed
  ultimately show ?thesis using o1 d ids_keys[OF assms(1)] by (auto simp: entry_keyed_def)
qed

text \<open>Could entries be hashed, then a manifest whose entries have distinct ids and wait for each other without a
  circle would run in batches that hold every workflow once, each in the batch after the one of the workflow it
  waits for.\<close>

theorem batches_partition_manifest:
  assumes "nv_hashable env" "has_ids (mf_workflows m)" "ranked_entries rank (mf_workflows m)"
    and "\<forall>w \<in> set (mf_workflows m). rank w < nv_limit env"
  shows "\<exists>bs. resolve_batches env m = Inr bs \<and> set (concat bs) = set (mf_workflows m) \<and> distinct (concat bs)
    \<and> (\<forall>i < length bs. \<forall>w \<in> set (bs ! i). case dep_of w of None \<Rightarrow> i = 0
         | Some a \<Rightarrow> \<exists>j. i = Suc j \<and> (\<exists>v \<in> set (bs ! j). nw_id v = Some a))"
proof -
  let ?ws = "mf_workflows m"
  obtain ord where o1: "resolve_order (nv_limit env) ?ws = Inr ord" "set ord = set ?ws" "entry_keyed ord" "waits_ok ord"
    using ranked_order[OF assms(2-4)] by blast
  have d: "distinct ord" using o1(3) by (auto simp: entry_keyed_def distinct_map)
  let ?c = "dep_counts ord"
  let ?ready = "filter (\<lambda>e. dict_get_or ?c e 0 = 0) ord"
  have cnt: "counts_after ord {} ?c" by (rule dep_counts_counted[OF d])
  then have none: "set ?ready = {e \<in> set ord. dep_of e = None}"
    by (auto simp: counts_after_def dict_get_or_def split: option.splits)
  then have inv: "batch_inv ord {} ?c ?ready" using cnt d by (auto simp: batch_inv_def split: option.splits)
  let ?b = "batch_loop ord ?c ?ready"
  have bs: "batches_of ord = ?b" using d by (simp add: batches_of_def distinct_remdups_id)
  note ok = batch_loop_ok[OF o1(3,4) inv]
  have "case dep_of w of None \<Rightarrow> i = 0 | Some a \<Rightarrow> \<exists>j. i = Suc j \<and> (\<exists>v \<in> set (?b ! j). nw_id v = Some a)"
    if i: "i < length ?b" "w \<in> set (?b ! i)" for i w
  proof (cases i)
    case 0
    have "?b ! 0 = ?ready" using i(1) 0 by (subst batch_loop.simps) (auto simp: batch_loop.simps[of ord ?c ?ready] split: if_splits)
    then show ?thesis using none i(2) 0 by auto
  next
    case (Suc j)
    then obtain v where v: "v \<in> set (?b ! j)" "dep_of w = Some (entry_key v)" using ok i by blast
    have "v \<in> set ?ws" using v(1) ok i(1) Suc o1(2) by (metis Diff_empty Suc_lessD UN_I nth_mem set_concat)
    then show ?thesis using v Suc ids_keys[OF assms(2)] by auto
  qed
  then show ?thesis using ok o1(1,2) bs assms(1) by (simp add: resolve_batches_def)
qed

text \<open>No network runs: entries cannot be hashed, so for any manifest with a workflow an exception leaves the
  coordinator before the first workflow is loaded.\<close>

theorem network_never_runs:
  assumes "\<not> nv_hashable env" "mf_workflows m \<noteq> []"
  shows "\<exists>e. execute_network env m sched s = (Inl e, s)"
proof (cases "resolve_order (nv_limit env) (mf_workflows m)")
  case (Inl e)
  then show ?thesis by (simp add: execute_network_def resolve_batches_def)
next
  case (Inr ord)
  have "ord \<noteq> []" using resolved(3)[OF Inr] assms(2) by auto
  then show ?thesis using Inr assms(1) by (simp add: execute_network_def resolve_batches_def)
qed

text \<open>A scheduled network whose first two workflows have the same schedule ends in a TypeError before anything runs, since
  the heap compares entries that are due at the same time.\<close>

theorem equal_schedules_crash:
  assumes "nv_croniter env" "mf_workflows m = a # b # ws" "a \<noteq> b"
    and "truth (schedule_of a)" "schedule_of b = schedule_of a" "nv_cron env (schedule_of a) now = Inr t"
  shows "\<exists>e. execute_scheduled n env m forever now sched s = Some (Inl e, s) \<and> exn_kind e = TypeError"
proof -
  have h: "sift_down 0 0 (t, a) [(t, a)] = Inr [(t, a)]" by (simp add: sift_down.simps)
  have p: "heappush [(t, a)] (t, b) = Inl (Exn TypeError (sq ''<'' @ '' not supported between instances of ''
      @ sq ''WorkflowEntry'' @ '' and '' @ sq ''WorkflowEntry''))"
    using assms(3) by (auto simp: heappush_def sift_down.simps timed_less_def)
  show ?thesis using assms h p by (simp add: execute_scheduled_def heappush_def)
qed

section \<open>The manager of network tasks\<close>

text \<open>A task is created, runs, ends or is cancelled. A coroutine that has started may absorb its cancellation: it
  returns or raises something else. Awaiting a task that was cancelled raises \<open>CancelledError\<close>, which is no
  \<open>Exception\<close>.\<close>

datatype job_status = JobNew | JobLive | JobDone | JobCancelled

record job =
  jb_status :: job_status
  jb_absorbs :: bool

record task_manager =
  tm_tasks :: "nat dict"
  tm_jobs :: "job list"

definition pending :: "job \<Rightarrow> bool" where
  "pending j \<longleftrightarrow> jb_status j = JobNew \<or> jb_status j = JobLive"

definition cancel_job :: "job \<Rightarrow> job" where
  "cancel_job j = (if \<not> pending j then j
     else if jb_status j = JobLive \<and> jb_absorbs j then j\<lparr>jb_status := JobDone\<rparr> else j\<lparr>jb_status := JobCancelled\<rparr>)"

definition cancelled_error :: exn where
  "cancelled_error = Exn (OtherError ''CancelledError'') []"

definition cancel_unlocked :: "string \<Rightarrow> task_manager \<Rightarrow> bool res \<times> task_manager" where
  "cancel_unlocked i tm = (case dict_get (tm_tasks tm) i of
       None \<Rightarrow> (Inr False, tm)
     | Some j \<Rightarrow> (let job = cancel_job (tm_jobs tm ! j);
           tm' = tm\<lparr>tm_tasks := dict_pop i (tm_tasks tm), tm_jobs := (tm_jobs tm)[j := job]\<rparr>
         in (if jb_status job = JobCancelled then Inl cancelled_error else Inr True, tm')))"

definition start_task :: "string \<Rightarrow> bool \<Rightarrow> task_manager \<Rightarrow> unit res \<times> task_manager" where
  "start_task i absorbs tm = (case cancel_unlocked i tm of
       (Inl e, tm') \<Rightarrow> (Inl e, tm')
     | (Inr _, tm') \<Rightarrow> (Inr (), tm'\<lparr>tm_tasks := dict_set i (length (tm_jobs tm')) (tm_tasks tm'),
           tm_jobs := tm_jobs tm' @ [\<lparr>jb_status = JobNew, jb_absorbs = absorbs\<rparr>]\<rparr>))"

fun cancel_each :: "string list \<Rightarrow> task_manager \<Rightarrow> unit res \<times> task_manager" where
  "cancel_each [] tm = (Inr (), tm)"
| "cancel_each (i # is) tm = (case cancel_unlocked i tm of
       (Inl e, tm') \<Rightarrow> (Inl e, tm')
     | (Inr _, tm') \<Rightarrow> cancel_each is tm')"

definition shutdown_tasks :: "task_manager \<Rightarrow> unit res \<times> task_manager" where
  "shutdown_tasks tm = cancel_each (dict_keys (tm_tasks tm)) tm"

text \<open>The manager with the event loop, which starts and ends tasks between its operations.\<close>

inductive manager_step :: "task_manager \<Rightarrow> task_manager \<Rightarrow> bool" where
  start: "manager_step tm (snd (start_task i b tm))"
| cancel: "manager_step tm (snd (cancel_unlocked i tm))"
| shutdown: "manager_step tm (snd (shutdown_tasks tm))"
| runs: "j < length (tm_jobs tm) \<Longrightarrow> jb_status (tm_jobs tm ! j) = JobNew \<Longrightarrow>
    manager_step tm (tm\<lparr>tm_jobs := (tm_jobs tm)[j := (tm_jobs tm ! j)\<lparr>jb_status := JobLive\<rparr>]\<rparr>)"
| ends: "j < length (tm_jobs tm) \<Longrightarrow> jb_status (tm_jobs tm ! j) = JobLive \<Longrightarrow>
    manager_step tm (tm\<lparr>tm_jobs := (tm_jobs tm)[j := (tm_jobs tm ! j)\<lparr>jb_status := JobDone\<rparr>]\<rparr>)"

definition no_tasks :: task_manager where
  "no_tasks = \<lparr>tm_tasks = [], tm_jobs = []\<rparr>"

definition manager_ok :: "task_manager \<Rightarrow> bool" where
  "manager_ok tm \<longleftrightarrow> dict_wf (tm_tasks tm) \<and> distinct (map snd (tm_tasks tm)) \<and> (\<forall>j \<in> snd ` set (tm_tasks tm). j < length (tm_jobs tm))
     \<and> (\<forall>j < length (tm_jobs tm). pending (tm_jobs tm ! j) \<longrightarrow> j \<in> snd ` set (tm_tasks tm))"

lemma cancel_job_done [simp]: "\<not> pending (cancel_job j)"
  by (auto simp: cancel_job_def pending_def)

lemma pop_snd: "dict_wf d \<Longrightarrow> distinct (map snd d) \<Longrightarrow> dict_get d i = Some j \<Longrightarrow> snd ` set (dict_pop i d) = snd ` set d - {j}"
proof (induction d)
  case (Cons p d)
  show ?case
  proof (cases "fst p = i")
    case True
    then have "\<forall>q \<in> set d. fst q \<noteq> i" using Cons.prems(1) by (metis distinct.simps(2) imageI list.set_map list.simps(9))
    then have "dict_pop i d = d" by (simp add: dict_pop_def)
    then show ?thesis using True Cons.prems by (auto simp: dict_pop_def)
  next
    case False
    then have "j \<in> snd ` set d" using Cons.prems(3) by (cases p) (force dest: map_of_SomeD)
    moreover have "snd ` set (dict_pop i d) = snd ` set d - {j}" using Cons False by (cases p) simp
    ultimately show ?thesis using False Cons.prems(2) by (auto simp: dict_pop_def)
  qed
qed (simp add: dict_pop_def)

lemma cancel_keeps:
  assumes "manager_ok tm"
  shows "manager_ok (snd (cancel_unlocked i tm))"
proof (cases "dict_get (tm_tasks tm) i")
  case None
  then show ?thesis using assms by (simp add: cancel_unlocked_def)
next
  case (Some j)
  note ok = assms[unfolded manager_ok_def]
  note s = pop_snd[OF conjunct1[OF ok] conjunct1[OF conjunct2[OF ok]] Some]
  let ?t = "tm\<lparr>tm_tasks := dict_pop i (tm_tasks tm), tm_jobs := (tm_jobs tm)[j := cancel_job (tm_jobs tm ! j)]\<rparr>"
  have d: "dict_wf (tm_tasks ?t)" "distinct (map snd (tm_tasks ?t))" using ok by (simp_all add: dict_pop_def distinct_map_filter)
  have l: "\<forall>k \<in> snd ` set (tm_tasks ?t). k < length (tm_jobs ?t)"
    using conjunct1[OF conjunct2[OF conjunct2[OF ok]]] s by auto
  have "k \<in> snd ` set (tm_tasks ?t)" if "k < length (tm_jobs ?t)" "pending (tm_jobs ?t ! k)" for k
    using conjunct2[OF conjunct2[OF conjunct2[OF ok]]] that s by (cases "k = j") (simp_all del: set_map)
  then have "manager_ok ?t" using d l unfolding manager_ok_def by blast
  then show ?thesis by (simp add: cancel_unlocked_def Some Let_def)
qed

lemma start_keeps:
  assumes "manager_ok tm"
  shows "manager_ok (snd (start_task i b tm))"
proof -
  obtain a t where c: "cancel_unlocked i tm = (a, t)" by fastforce
  have ok: "manager_ok t" using cancel_keeps[OF assms, of i] c by simp
  show ?thesis
  proof (cases a)
    case (Inl e)
    then show ?thesis using c ok by (simp add: start_task_def)
  next
    case (Inr x)
    have "dict_get (tm_tasks t) i = None"
      using c by (auto simp: cancel_unlocked_def Let_def split: option.splits)
    then have "dict_set i (length (tm_jobs t)) (tm_tasks t) = tm_tasks t @ [(i, length (tm_jobs t))]"
      by (simp add: dict_set_new dict_get_eq_None)
    then show ?thesis using ok \<open>dict_get (tm_tasks t) i = None\<close>
      by (auto simp: start_task_def c Inr manager_ok_def nth_append dict_get_eq_None less_Suc_eq pending_def)
  qed
qed

lemma cancel_each_keeps: "manager_ok tm \<Longrightarrow> manager_ok (snd (cancel_each is tm))"
proof (induction "is" arbitrary: tm)
  case (Cons i "is")
  obtain a t where c: "cancel_unlocked i tm = (a, t)" by fastforce
  have "manager_ok t" using cancel_keeps[OF Cons.prems, of i] by (simp only: c snd_conv)
  then show ?case using Cons.IH[of t] by (cases a) (simp_all add: c)
qed simp

text \<open>Whatever the manager and the loop do, and whatever exceptions leave its operations, every network that
  still has to run is registered, under one id only: none is orphaned.\<close>

theorem no_orphan_networks:
  assumes "manager_step\<^sup>*\<^sup>* no_tasks tm"
  shows "manager_ok tm"
  using assms
proof (induction rule: rtranclp_induct)
  case base
  then show ?case by (simp add: manager_ok_def no_tasks_def)
next
  case (step t u)
  from step(2) show ?case
  proof cases
    case (runs j)
    then show ?thesis using step(3) by (auto simp: manager_ok_def nth_list_update pending_def split: if_splits)
  next
    case (ends j)
    then show ?thesis using step(3) by (auto simp: manager_ok_def nth_list_update pending_def split: if_splits)
  qed (simp_all add: step(3) start_keeps cancel_keeps cancel_each_keeps shutdown_tasks_def)
qed

text \<open>Starting a network that still runs does not restart it: the old task is cancelled, its cancellation leaves the
  manager as an exception, and no new task is made.\<close>

theorem restart_only_stops:
  assumes "dict_get (tm_tasks tm) i = Some j" "j < length (tm_jobs tm)" "pending (tm_jobs tm ! j)"
    and "\<not> (jb_status (tm_jobs tm ! j) = JobLive \<and> jb_absorbs (tm_jobs tm ! j))"
  shows "\<exists>tm'. start_task i b tm = (Inl cancelled_error, tm') \<and> length (tm_jobs tm') = length (tm_jobs tm)
    \<and> dict_get (tm_tasks tm') i = None \<and> jb_status (tm_jobs tm' ! j) = JobCancelled"
  using assms by (auto simp: start_task_def cancel_unlocked_def Let_def cancel_job_def)

lemma cancel_other:
  assumes "manager_ok tm" "dict_get (tm_tasks tm) i = Some j" "dict_get (tm_tasks tm) k = Some l" "i \<noteq> k"
  shows "dict_get (tm_tasks (snd (cancel_unlocked i tm))) k = Some l \<and> tm_jobs (snd (cancel_unlocked i tm)) ! l = tm_jobs tm ! l"
proof -
  have "j \<noteq> l" using assms by (force simp: manager_ok_def distinct_map inj_on_def dest: map_of_SomeD)
  then show ?thesis using assms by (simp add: cancel_unlocked_def Let_def)
qed


lemma pop_head: "dict_wf ((i, j) # d) \<Longrightarrow> dict_pop i ((i, j) # d) = d"
  by (induction d) (auto simp: dict_pop_def)

lemma cancel_head:
  assumes "manager_ok tm" "tm_tasks tm = (i, j) # d"
  shows "cancel_unlocked i tm = (if jb_status (cancel_job (tm_jobs tm ! j)) = JobCancelled then Inl cancelled_error else Inr True,
      tm\<lparr>tm_tasks := d, tm_jobs := (tm_jobs tm)[j := cancel_job (tm_jobs tm ! j)]\<rparr>)"
    and "l \<in> snd ` set d \<Longrightarrow> (tm_jobs tm)[j := cancel_job (tm_jobs tm ! j)] ! l = tm_jobs tm ! l"
proof -
  have "dict_pop i ((i, j) # d) = d" using pop_head assms by (metis manager_ok_def)
  then show "cancel_unlocked i tm = (if jb_status (cancel_job (tm_jobs tm ! j)) = JobCancelled then Inl cancelled_error else Inr True,
      tm\<lparr>tm_tasks := d, tm_jobs := (tm_jobs tm)[j := cancel_job (tm_jobs tm ! j)]\<rparr>)"
    by (simp add: cancel_unlocked_def assms(2) Let_def)
  show "(tm_jobs tm)[j := cancel_job (tm_jobs tm ! j)] ! l = tm_jobs tm ! l" if "l \<in> snd ` set d"
  proof -
    have "j \<notin> snd ` set d" using assms by (simp add: manager_ok_def)
    then show ?thesis using that by (metis nth_list_update_neq)
  qed
qed

text \<open>A shutdown ends at the first network that is cancelled: the networks registered after it keep running.\<close>

theorem shutdown_stops_at_first:
  assumes "manager_ok tm" "tm_tasks tm = xs @ (i, j) # ys"
    and "\<forall>p \<in> set xs. jb_status (cancel_job (tm_jobs tm ! snd p)) \<noteq> JobCancelled"
    and "jb_status (cancel_job (tm_jobs tm ! j)) = JobCancelled"
  shows "\<exists>tm'. shutdown_tasks tm = (Inl cancelled_error, tm') \<and> tm_tasks tm' = ys
    \<and> (\<forall>p \<in> set ys. tm_jobs tm' ! snd p = tm_jobs tm ! snd p)"
proof -
  have "\<exists>tm'. cancel_each (dict_keys (tm_tasks t)) t = (Inl cancelled_error, tm') \<and> tm_tasks tm' = ys
      \<and> (\<forall>p \<in> set ys. tm_jobs tm' ! snd p = tm_jobs t ! snd p)"
    if "manager_ok t" "tm_tasks t = xs @ (i, j) # ys"
      "\<forall>p \<in> set xs. jb_status (cancel_job (tm_jobs t ! snd p)) \<noteq> JobCancelled"
      "jb_status (cancel_job (tm_jobs t ! j)) = JobCancelled" for t xs
    using that
  proof (induction xs arbitrary: t)
    case Nil
    have h: "tm_tasks t = (i, j) # ys" using Nil.prems(2) by simp
    have "\<forall>p \<in> set ys. (tm_jobs t)[j := cancel_job (tm_jobs t ! j)] ! snd p = tm_jobs t ! snd p"
      using cancel_head(2)[OF Nil.prems(1) h] by (metis imageI)
    then show ?case using cancel_head(1)[OF Nil.prems(1) h] Nil.prems(4) by (simp add: h)
  next
    case (Cons x xs)
    obtain k l where x: "x = (k, l)" by fastforce
    have h: "tm_tasks t = (k, l) # xs @ (i, j) # ys" using Cons.prems(2) x by simp
    let ?t = "t\<lparr>tm_tasks := xs @ (i, j) # ys, tm_jobs := (tm_jobs t)[l := cancel_job (tm_jobs t ! l)]\<rparr>"
    have c: "cancel_unlocked k t = (Inr True, ?t)"
      using cancel_head(1)[OF Cons.prems(1) h] Cons.prems(3) by (simp add: x)
    have same: "\<forall>p \<in> set (xs @ (i, j) # ys). tm_jobs ?t ! snd p = tm_jobs t ! snd p"
      using cancel_head(2)[OF Cons.prems(1) h] by auto
    have "manager_ok ?t" using cancel_keeps[OF Cons.prems(1), of k] c by simp
    then have "\<exists>tm'. cancel_each (dict_keys (tm_tasks ?t)) ?t = (Inl cancelled_error, tm') \<and> tm_tasks tm' = ys
      \<and> (\<forall>p \<in> set ys. tm_jobs tm' ! snd p = tm_jobs ?t ! snd p)"
      by (rule Cons.IH) (use same Cons.prems(3,4) in auto)
    then show ?case using c same by (auto simp: h)
  qed
  then show ?thesis using assms unfolding shutdown_tasks_def by blast
qed

section \<open>The facade\<close>

text \<open>Whether the module saw a registered coordinator when it was imported is fixed then.\<close>

datatype network_outcome = OutcomeResults "node_result dict" | OutcomeNone

definition network_service_execute ::
  "nat \<Rightarrow> ('o, 'x) network_env \<Rightarrow> bool \<Rightarrow> string \<Rightarrow> bool \<Rightarrow> bool \<Rightarrow> int \<Rightarrow> (nat \<Rightarrow> nat list) \<Rightarrow> 'x net_state
    \<Rightarrow> (network_outcome res \<times> 'x net_state) option" where
  "network_service_execute n env bound path scheduled forever now sched s =
     (if \<not> bound then Some (Inl (Exn RuntimeError (''`network_coordinator_factory` not set. The orchestrator layer must assign ice_core.runtime.network_coordinator_factory at start-up.'')), s)
      else (case from_file env path of
          Inl e \<Rightarrow> Some (Inl e, s)
        | Inr m \<Rightarrow> if scheduled
            then map_option (\<lambda>(a, s'). (res_bind a (\<lambda>_. Inr OutcomeNone), s')) (execute_scheduled n env m forever now sched s)
            else (let (a, s') = execute_network env m sched s in Some (res_bind a (\<lambda>d. Inr (OutcomeResults d)), s'))))"

section \<open>The builder of manifests\<close>

definition network_builder :: "string \<Rightarrow> string \<Rightarrow> val dict" where
  "network_builder name api = [(''api_version'', VStr api), (''name'', VStr name), (''workflows'', VList [])]"

fun dict_or_empty :: "val option \<Rightarrow> val dict" where
  "dict_or_empty (Some (VDict d)) = d"
| "dict_or_empty v = []"

fun list_or_empty :: "val option \<Rightarrow> val list" where
  "list_or_empty (Some (VList vs)) = vs"
| "list_or_empty v = []"

definition set_global :: "val dict \<Rightarrow> val dict \<Rightarrow> val dict" where
  "set_global config b = dict_set ''global'' (VDict (dict_union (dict_or_empty (dict_get b ''global'')) config)) b"

definition opt_field :: "string \<Rightarrow> string option \<Rightarrow> val dict" where
  "opt_field k v = (case v of None \<Rightarrow> [] | Some s \<Rightarrow> if s = [] then [] else [(k, VStr s)])"

definition builder_entry :: "string \<Rightarrow> string option \<Rightarrow> string option \<Rightarrow> string option \<Rightarrow> val dict \<Rightarrow> val" where
  "builder_entry ref i after schedule extra = VDict (dict_union
     ([(''ref'', VStr ref)] @ opt_field ''id'' i @ opt_field ''after'' after @ opt_field ''schedule'' schedule) extra)"

definition nb_add_workflow :: "string \<Rightarrow> string option \<Rightarrow> string option \<Rightarrow> string option \<Rightarrow> val dict \<Rightarrow> val dict \<Rightarrow> val dict" where
  "nb_add_workflow ref i after schedule extra b =
     dict_set ''workflows'' (VList (list_or_empty (dict_get b ''workflows'') @ [builder_entry ref i after schedule extra])) b"

datatype manifest_format = FormatYaml | FormatJson

text \<open>\<open>write\<close> takes the format as given, or else the suffix of the path in lower case.\<close>

definition write_format :: "string option \<Rightarrow> string \<Rightarrow> manifest_format res" where
  "write_format fmt sfx = (let h = (case fmt of Some f \<Rightarrow> if f = [] then str_lower (dropWhile (\<lambda>c. c = CHR ''.'') sfx) else f
       | None \<Rightarrow> str_lower (dropWhile (\<lambda>c. c = CHR ''.'') sfx))
     in if h \<in> {''yaml'', ''yml''} then Inr FormatYaml else if h = ''json'' then Inr FormatJson
     else Inl (Exn ValueError ''Unsupported format - use yaml|yml|json or specify fmt param''))"

datatype builder_op = SetGlobal "val dict" | AddWorkflow string "string option" "string option" "string option" "val dict"

fun builder_step :: "builder_op \<Rightarrow> val dict \<Rightarrow> val dict" where
  "builder_step (SetGlobal c) b = set_global c b"
| "builder_step (AddWorkflow r i a s x) b = nb_add_workflow r i a s x b"

text \<open>What a sequence of calls means.\<close>

fun op_manifest :: "builder_op \<Rightarrow> manifest \<Rightarrow> manifest" where
  "op_manifest (SetGlobal c) m = m\<lparr>mf_global := dict_union (mf_global m) c\<rparr>"
| "op_manifest (AddWorkflow r i a s x) m = m\<lparr>mf_workflows := mf_workflows m @
     [\<lparr>nw_ref = r, nw_id = (if i = Some [] then None else i), nw_after = (if a = Some [] then None else a),
       nw_extra = dict_union (opt_field ''schedule'' s) x\<rparr>]\<rparr>"

fun op_ok :: "builder_op \<Rightarrow> bool" where
  "op_ok (SetGlobal c) = True"
| "op_ok (AddWorkflow r i a s x) = (set (dict_keys x) \<inter> {''ref'', ''id'', ''after'', ''schedule''} = {})"

lemma union_keep: "k \<notin> set (dict_keys x) \<Longrightarrow> dict_get (dict_union d x) k = dict_get d k"
  unfolding dict_union_def by (induction x arbitrary: d) auto

lemma set_prefix: "k \<notin> fst ` set d \<Longrightarrow> dict_set k v (d @ e) = d @ dict_set k v e"
  by (induction d) auto

lemma union_prefix: "set (dict_keys x) \<inter> set (dict_keys d) = {} \<Longrightarrow> dict_union (d @ e) x = d @ dict_union e x"
  unfolding dict_union_def by (induction x arbitrary: e) (auto simp: set_prefix)

lemma builder_entry_of:
  assumes "set (dict_keys x) \<inter> {''ref'', ''id'', ''after'', ''schedule''} = {}"
  shows "entry_of (builder_entry r i a s x) = Some \<lparr>nw_ref = r, nw_id = (if i = Some [] then None else i),
    nw_after = (if a = Some [] then None else a), nw_extra = dict_union (opt_field ''schedule'' s) x\<rparr>"
proof -
  let ?p = "[(''ref'', VStr r)] @ opt_field ''id'' i @ opt_field ''after'' a"
  have u: "dict_union (?p @ opt_field ''schedule'' s) x = ?p @ dict_union (opt_field ''schedule'' s) x"
  proof (rule union_prefix)
    have "set (dict_keys ?p) \<subseteq> {''ref'', ''id'', ''after''}" by (auto simp: opt_field_def split: option.splits)
    then show "set (dict_keys x) \<inter> set (dict_keys ?p) = {}" using assms by blast
  qed
  have k: "set (dict_keys (dict_union (opt_field ''schedule'' s) x)) \<inter> {''ref'', ''id'', ''after''} = {}"
    unfolding dict_keys_union using assms by (auto simp: opt_field_def split: option.splits)
  then have g: "dict_get (dict_union (opt_field ''schedule'' s) x) ''id'' = None"
      "dict_get (dict_union (opt_field ''schedule'' s) x) ''after'' = None"
    by (auto simp: dict_get_eq_None)
  have f: "filter (\<lambda>p. fst p \<notin> {''ref'', ''id'', ''after''}) (dict_union (opt_field ''schedule'' s) x) = dict_union (opt_field ''schedule'' s) x"
    using k by (force simp: filter_id_conv)
  define x' where "x' = dict_union (opt_field ''schedule'' s) x"
  have o: "opt_field k v = (if v = None \<or> v = Some [] then [] else [(k, VStr (the v))])" for k v
    by (auto simp: opt_field_def split: option.splits)
  have "builder_entry r i a s x = VDict (?p @ x')" unfolding builder_entry_def x'_def using u by simp
  then show ?thesis using g f unfolding x'_def[symmetric]
    by (cases "i = None \<or> i = Some []"; cases "a = None \<or> a = Some []"; simp add: o map_add_def; auto)
qed

lemma all_some_snoc: "all_some xs = Some ys \<Longrightarrow> all_some (xs @ [Some y]) = Some (ys @ [y])"
proof (induction xs arbitrary: ys)
  case (Cons x xs)
  then show ?case by (cases x) auto
qed simp

definition builder_for :: "val dict \<Rightarrow> manifest \<Rightarrow> bool" where
  "builder_for b m \<longleftrightarrow> dict_get b ''api_version'' = Some (VStr (mf_api m)) \<and> dict_get b ''name'' = Some (VStr (mf_name m))
     \<and> (dict_get b ''global'' = None \<and> mf_global m = [] \<or> dict_get b ''global'' = Some (VDict (mf_global m)))
     \<and> dict_get b ''global_config'' = None
     \<and> (\<exists>vs. dict_get b ''workflows'' = Some (VList vs) \<and> all_some (map entry_of vs) = Some (mf_workflows m))"

lemma builder_step_for: "builder_for b m \<Longrightarrow> op_ok p \<Longrightarrow> builder_for (builder_step p b) (op_manifest p m)"
proof (cases p)
  case (SetGlobal c)
  assume "builder_for b m"
  then show ?thesis by (auto simp: SetGlobal builder_for_def set_global_def)
next
  case (AddWorkflow r i a s x)
  assume b: "builder_for b m" "op_ok p"
  then obtain vs where vs: "dict_get b ''workflows'' = Some (VList vs)" "all_some (map entry_of vs) = Some (mf_workflows m)"
    by (auto simp: builder_for_def)
  have e: "entry_of (builder_entry r i a s x) = Some \<lparr>nw_ref = r, nw_id = (if i = Some [] then None else i),
    nw_after = (if a = Some [] then None else a), nw_extra = dict_union (opt_field ''schedule'' s) x\<rparr>"
    by (rule builder_entry_of) (use b(2) in \<open>simp add: AddWorkflow\<close>)
  show ?thesis using b(1) vs all_some_snoc[OF vs(2)] by (simp add: AddWorkflow builder_for_def nb_add_workflow_def e)
qed

text \<open>What the builder makes is read back as the manifest its calls mean.\<close>

theorem built_manifest_reads_back:
  assumes "\<forall>p \<in> set ops. op_ok p"
  shows "manifest_of (VDict (fold builder_step ops (network_builder name api)))
    = Some (fold op_manifest ops \<lparr>mf_api = api, mf_name = name, mf_global = [], mf_workflows = []\<rparr>)"
proof -
  have "builder_for b m \<Longrightarrow> \<forall>p \<in> set ops. op_ok p \<Longrightarrow> builder_for (fold builder_step ops b) (fold op_manifest ops m)" for b m
    by (induction ops arbitrary: b m) (auto simp: builder_step_for)
  moreover have "builder_for (network_builder name api) \<lparr>mf_api = api, mf_name = name, mf_global = [], mf_workflows = []\<rparr>"
    by (simp add: builder_for_def network_builder_def)
  ultimately have "builder_for (fold builder_step ops (network_builder name api)) (fold op_manifest ops \<lparr>mf_api = api, mf_name = name, mf_global = [], mf_workflows = []\<rparr>)"
    using assms by blast
  then show ?thesis by (auto simp: builder_for_def api_of_def global_of_def)
qed

section \<open>Instances\<close>

definition entry_named :: "string \<Rightarrow> string option \<Rightarrow> val dict \<Rightarrow> wf_entry" where
  "entry_named i a x = \<lparr>nw_ref = ''jobs:'' @ i, nw_id = Some i, nw_after = a, nw_extra = x\<rparr>"

definition net_demo :: "wf_entry list \<Rightarrow> manifest" where
  "net_demo ws = \<lparr>mf_api = ''network.v0'', mf_name = ''net'', mf_global = [], mf_workflows = ws\<rparr>"

definition demo_network :: "bool \<Rightarrow> (nat, unit) network_env" where
  "demo_network hashable = \<lparr>nv_service = failing_sv, nv_module = (\<lambda>m. Inr (\<lambda>a. Some (PyOther ''dict''))), nv_copy = Inr,
     nv_hashable = hashable, nv_limit = 1000, nv_croniter = True, nv_cron = (\<lambda>v now. Inr (now + 60)), nv_clock = int,
     nv_file = (\<lambda>p. None), nv_invalid = (\<lambda>v. ''invalid'')\<rparr>"

theorem order_respects_after_witness:
  "let b = entry_named ''b'' (Some ''a'') []; a = entry_named ''a'' None [] in
     \<exists>w'. dict_get (given [b, a]) ''a'' = Some w' \<and> entry_key w' \<in> entry_key ` set [a]"
proof -
  have "resolve_order 5 [entry_named ''b'' (Some ''a'') [], entry_named ''a'' None []]
      = Inr ([entry_named ''a'' None []] @ entry_named ''b'' (Some ''a'') [] # [])" by code_simp
  from order_respects_after[OF this, of "''a''"] show ?thesis by (simp add: Let_def dep_of_def entry_named_def)
qed

theorem circular_manifest_never_ordered_witness:
  "isl (resolve_order 1000 [entry_named ''a'' (Some ''b'') [], entry_named ''b'' (Some ''a'') []])"
proof (rule circular_manifest_never_ordered[where C = "{entry_named ''a'' (Some ''b'') [], entry_named ''b'' (Some ''a'') []}"])
  let ?ws = "[entry_named ''a'' (Some ''b'') [], entry_named ''b'' (Some ''a'') []]"
  show "distinct (map entry_key ?ws)" by code_simp
  have "dict_get (given ?ws) ''a'' = Some (entry_named ''a'' (Some ''b'') [])"
    "dict_get (given ?ws) ''b'' = Some (entry_named ''b'' (Some ''a'') [])"
    "dep_of (entry_named ''a'' (Some ''b'') []) = Some ''b''" "dep_of (entry_named ''b'' (Some ''a'') []) = Some ''a''" by code_simp+
  then show "\<forall>w \<in> {entry_named ''a'' (Some ''b'') [], entry_named ''b'' (Some ''a'') []}. \<exists>a w'. dep_of w = Some a
      \<and> dict_get (given ?ws) a = Some w' \<and> w' \<in> {entry_named ''a'' (Some ''b'') [], entry_named ''b'' (Some ''a'') []}"
    by blast
qed simp_all

theorem batches_partition_manifest_witness:
  "\<exists>bs. resolve_batches (demo_network True) (net_demo [entry_named ''b'' (Some ''a'') [], entry_named ''a'' None []]) = Inr bs
    \<and> set (concat bs) = {entry_named ''b'' (Some ''a'') [], entry_named ''a'' None []}"
proof -
  let ?ws = "[entry_named ''b'' (Some ''a'') [], entry_named ''a'' None []]"
  let ?m = "net_demo ?ws"
  have ws: "mf_workflows ?m = ?ws" by (simp add: net_demo_def)
  have h: "nv_hashable (demo_network True)" "nv_limit (demo_network True) = 1000" by (simp_all add: demo_network_def)
  have i: "has_ids (mf_workflows ?m)" unfolding ws by (simp add: has_ids_def entry_named_def)
  have r: "ranked_entries (\<lambda>w. if nw_id w = Some ''b'' then 1 else 0) (mf_workflows ?m)"
    unfolding ws by (simp add: ranked_entries_def entry_named_def dep_of_def)
  have "\<forall>w \<in> set (mf_workflows ?m). (if nw_id w = Some ''b'' then 1 else 0) < nv_limit (demo_network True)" by (simp add: ws h)
  from batches_partition_manifest[OF h(1) i r this] show ?thesis by (auto simp: ws)
qed

theorem network_never_runs_witness:
  "\<exists>e. execute_network (demo_network False) (net_demo [entry_named ''a'' None []]) (\<lambda>_. []) \<lparr>nt_slots = 5, nt_outside = ()\<rparr>
    = (Inl e, \<lparr>nt_slots = 5, nt_outside = ()\<rparr>)"
  by (rule network_never_runs) (simp_all add: demo_network_def net_demo_def)

theorem equal_schedules_crash_witness:
  "\<exists>e. execute_scheduled 9 (demo_network True) (net_demo [entry_named ''a'' None [(''schedule'', VStr ''0 2 * * *'')],
      entry_named ''b'' None [(''schedule'', VStr ''0 2 * * *'')]]) True 0 (\<lambda>_. []) \<lparr>nt_slots = 5, nt_outside = ()\<rparr>
    = Some (Inl e, \<lparr>nt_slots = 5, nt_outside = ()\<rparr>) \<and> exn_kind e = TypeError"
  by (rule equal_schedules_crash[where a = "entry_named ''a'' None [(''schedule'', VStr ''0 2 * * *'')]"
      and b = "entry_named ''b'' None [(''schedule'', VStr ''0 2 * * *'')]" and ws = "[]" and t = 60])
    (simp_all add: demo_network_def net_demo_def entry_named_def schedule_of_def dict_get_or_def)

definition two_networks :: task_manager where
  "two_networks = snd (start_task ''b'' False (snd (start_task ''a'' False no_tasks)))"

lemma two_networks_reached: "manager_step\<^sup>*\<^sup>* no_tasks two_networks"
  unfolding two_networks_def by (meson manager_step.start rtranclp.rtrancl_into_rtrancl rtranclp.rtrancl_refl)

theorem no_orphan_networks_witness: "manager_ok two_networks"
  by (rule no_orphan_networks[OF two_networks_reached])

theorem restart_only_stops_witness:
  "\<exists>tm'. start_task ''a'' False two_networks = (Inl cancelled_error, tm') \<and> length (tm_jobs tm') = 2
    \<and> dict_get (tm_tasks tm') ''a'' = None \<and> jb_status (tm_jobs tm' ! 0) = JobCancelled"
proof -
  have t: "dict_get (tm_tasks two_networks) ''a'' = Some 0" "length (tm_jobs two_networks) = 2" "pending (tm_jobs two_networks ! 0)"
    "jb_status (tm_jobs two_networks ! 0) = JobNew" by code_simp+
  show ?thesis using restart_only_stops[OF t(1), of False] t by simp
qed

theorem shutdown_stops_at_first_witness:
  "\<exists>tm'. shutdown_tasks two_networks = (Inl cancelled_error, tm') \<and> tm_tasks tm' = [(''b'', 1)]
    \<and> (\<forall>p \<in> set [(''b'', 1)]. tm_jobs tm' ! snd p = tm_jobs two_networks ! snd p)"
proof (rule shutdown_stops_at_first[where xs = "[]" and i = "''a''" and j = 0])
  show "manager_ok two_networks" by code_simp
  show "tm_tasks two_networks = [] @ (''a'', 0) # [(''b'', 1)]" by code_simp
  show "jb_status (cancel_job (tm_jobs two_networks ! 0)) = JobCancelled" by code_simp
qed simp

theorem built_manifest_reads_back_witness:
  "manifest_of (VDict (fold builder_step [SetGlobal [(''budget_usd'', VInt 5)], AddWorkflow ''m:f'' (Some ''a'') None None []] (network_builder ''n'' ''network.v0'')))
    = Some \<lparr>mf_api = ''network.v0'', mf_name = ''n'', mf_global = [(''budget_usd'', VInt 5)],
        mf_workflows = [\<lparr>nw_ref = ''m:f'', nw_id = Some ''a'', nw_after = None, nw_extra = []\<rparr>]\<rparr>"
proof -
  have "\<forall>p \<in> set [SetGlobal [(''budget_usd'', VInt 5)], AddWorkflow ''m:f'' (Some ''a'') None None []]. op_ok p" by simp
  from built_manifest_reads_back[OF this, of "''n''" "''network.v0''"] show ?thesis by (simp add: opt_field_def dict_union_def)
qed

end
