(* ===== verification/Models.thy ===== *)
theory Models
  imports Registry Estimates "HOL-Library.Multiset"
begin

text \<open>
  Language models: versions, configurations and message templates (\<open>src/ice_core/models/llm.py\<close>), the list of allowed
  models (\<open>models/model_registry.py\<close>) and the registry of prompt templates (\<open>registry/prompt_template.py\<close>).

  Parameters: the comparison of versions (\<open>packaging\<close>), Pydantic's checks of the fields that have no validator
  here and the text of its errors, \<open>str()\<close> of a value and the replacement fields of \<open>str.format\<close> other than names.
  The package's own \<open>ValidationError\<close> is a \<open>RuntimeError\<close>: Pydantic does not collect it and \<open>except ValueError\<close>
  does not catch it.
\<close>

section \<open>Versions of models\<close>

fun provider_name :: "provider \<Rightarrow> string" where
  "provider_name OPENAI = ''openai''"
| "provider_name ANTHROPIC = ''anthropic''"
| "provider_name GOOGLE = ''google''"
| "provider_name DEEPSEEK = ''deepseek''"
| "provider_name CUSTOM = ''custom''"

definition core_validation_error :: "string \<Rightarrow> exn" where
  "core_validation_error m = Exn (OtherError ''ValidationError'') m"

definition openai_versions :: "string dict" where
  "openai_versions = [(''gpt-4'', ''4.0.0''), (''gpt-4-turbo'', ''4.1.0''), (''gpt-4-turbo-2024-04-09'', ''4.1.1''),
     (''gpt-4-32k'', ''4.0.1''), (''gpt-3.5-turbo'', ''3.5.0''), (''gpt-4o'', ''4.2.0''), (''gpt-4.1'', ''4.1.0''),
     (''gpt-4-1106-preview'', ''4.1.0'')]"

definition anthropic_versions :: "string dict" where
  "anthropic_versions = [(''claude-opus-4-20250514'', ''4.0.0''), (''claude-sonnet-4-20250514'', ''4.0.0''),
     (''claude-3-7-sonnet-20250219'', ''3.7.0''), (''claude-3-5-sonnet-20241022'', ''3.5.1''),
     (''claude-3-5-sonnet-20240620'', ''3.5.0''), (''claude-3-5-haiku-20241022'', ''3.5.0''),
     (''claude-3-opus-20240229'', ''3.0.0''), (''claude-3-sonnet-20240229'', ''3.0.0''),
     (''claude-3-haiku-20240307'', ''3.0.0''), (''claude-2'', ''2.0.0''), (''claude-2.1'', ''2.1.0'')]"

definition google_versions :: "string dict" where
  "google_versions = [(''gemini-1.0-pro-latest'', ''1.0.0''), (''gemini-ultra'', ''1.0.0''), (''gemini-1.5-flash-latest'', ''1.5.0'')]"

definition version_in :: "string dict \<Rightarrow> string \<Rightarrow> string option \<Rightarrow> string res" where
  "version_in tab brand m = (case (case m of None \<Rightarrow> None | Some s \<Rightarrow> dict_get tab s) of
       Some v \<Rightarrow> Inr v
     | None \<Rightarrow> Inl (core_validation_error (''Unsupported '' @ brand @ '' model: '' @ (case m of None \<Rightarrow> ''None'' | Some s \<Rightarrow> s))))"

text \<open>The name of the model may be \<open>None\<close>, which no table has.\<close>

fun parse_model_version :: "string option \<Rightarrow> provider \<Rightarrow> string res" where
  "parse_model_version m OPENAI = version_in openai_versions ''OpenAI'' m"
| "parse_model_version m ANTHROPIC = version_in anthropic_versions ''Anthropic'' m"
| "parse_model_version m GOOGLE = version_in google_versions ''Google'' m"
| "parse_model_version m DEEPSEEK = Inr ''1.0.0''"
| "parse_model_version m CUSTOM = Inr ''1.0.0''"

section \<open>Allowed models\<close>

record model_info =
  mo_id :: string
  mo_provider :: provider
  mo_label :: string
  mo_best_for :: string
  mo_max_tokens :: "int option"

definition model_table :: "model_info list" where
  "model_table =
     [\<lparr>mo_id = ''gpt-4'', mo_provider = OPENAI, mo_label = ''GPT-4 (OpenAI)'',
        mo_best_for = ''High-quality reasoning and code generation'', mo_max_tokens = Some 8192\<rparr>,
      \<lparr>mo_id = ''gpt-4.1'', mo_provider = OPENAI, mo_label = ''GPT-4.1 (OpenAI)'',
        mo_best_for = ''General reasoning & code generation with high quality'', mo_max_tokens = Some 128000\<rparr>,
      \<lparr>mo_id = ''gpt-4-turbo'', mo_provider = OPENAI, mo_label = ''GPT-4 Turbo (OpenAI)'',
        mo_best_for = ''Fast GPT-4 performance with reduced cost'', mo_max_tokens = Some 128000\<rparr>,
      \<lparr>mo_id = ''gpt-4o'', mo_provider = OPENAI, mo_label = ''GPT-4o (OpenAI)'',
        mo_best_for = ''Fastest GPT-4 tier - balanced quality & latency'', mo_max_tokens = Some 128000\<rparr>,
      \<lparr>mo_id = ''gpt-4-turbo-2024-04-09'', mo_provider = OPENAI, mo_label = ''GPT-4 Turbo 04/2024 (OpenAI)'',
        mo_best_for = ''Cost-optimised GPT-4 for prod workloads'', mo_max_tokens = Some 128000\<rparr>,
      \<lparr>mo_id = ''gpt-4.5-preview'', mo_provider = OPENAI, mo_label = ''GPT-4.5 Preview (OpenAI)'',
        mo_best_for = ''Early access to upcoming GPT-4.5 capabilities'', mo_max_tokens = None\<rparr>,
      \<lparr>mo_id = ''claude-4-sonnet'', mo_provider = ANTHROPIC, mo_label = ''Claude-4 Sonnet (Anthropic)'',
        mo_best_for = ''Creative writing, analytical reasoning'', mo_max_tokens = Some 200000\<rparr>,
      \<lparr>mo_id = ''claude-4-opus'', mo_provider = ANTHROPIC, mo_label = ''Claude-4 Opus (Anthropic)'',
        mo_best_for = ''State-of-the-art reasoning & long-context'', mo_max_tokens = Some 200000\<rparr>,
      \<lparr>mo_id = ''gemini-2.5-pro'', mo_provider = GOOGLE, mo_label = ''Gemini 2.5 Pro (Google)'',
        mo_best_for = ''Multimodal tasks & long-context summarisation'', mo_max_tokens = Some 100000\<rparr>,
      \<lparr>mo_id = ''deepseek-v3.1'', mo_provider = DEEPSEEK, mo_label = ''DeepSeek V3.1'',
        mo_best_for = ''Large-scale code understanding & generation'', mo_max_tokens = None\<rparr>]"

definition model_infos :: "model_info dict" where
  "model_infos = map (\<lambda>m. (mo_id m, m)) model_table"

definition default_model_id :: string where
  "default_model_id = ''gpt-4-turbo-2024-04-09''"

definition list_models :: "model_info list" where
  "list_models = sort_key (\<lambda>m. (provider_name (mo_provider m), mo_id m)) (map snd model_infos)"

definition get_model_info :: "string \<Rightarrow> model_info option" where
  "get_model_info i = dict_get model_infos i"

lemma model_infos_allowed: "map (\<lambda>m. (mo_id m, mo_provider m)) model_table = allowed_models"
  by (simp add: model_table_def allowed_models_def)

section \<open>Configurations\<close>

text \<open>What a caller gives: \<open>None\<close> for a field that is left out. The outer option of the model and of the key is
  that, the inner one is an explicit \<open>None\<close>.\<close>

record llm_args =
  la_provider :: "string option"
  la_model :: "string option option"
  la_api_key :: "string option option"
  la_timeout :: "int option"
  la_max_retries :: "int option"
  la_rest :: "val dict"

record llm_settings =
  lg_provider :: provider
  lg_model :: "string option"
  lg_api_key :: "string option"
  lg_timeout :: int
  lg_max_retries :: int
  lg_rest :: "val dict"

record pydantic =
  pd_fields_ok :: "val dict \<Rightarrow> bool"
  pd_message :: "llm_args \<Rightarrow> string"

definition validate_model :: "string option \<Rightarrow> provider \<Rightarrow> unit res" where
  "validate_model m p = res_bind (parse_model_version m p) (\<lambda>_.
     if m \<noteq> None \<and> is_allowed_model (the m) then Inr ()
     else Inl (core_validation_error (''Model '' @ sq (case m of None \<Rightarrow> ''None'' | Some s \<Rightarrow> s)
       @ '' is not allowed. Banned models: '' @ ''gpt-3.5, gpt-3.5-turbo, gpt-3.5-turbo-0613'')))"

definition api_key_ok :: "string option option \<Rightarrow> bool" where
  "api_key_ok k \<longleftrightarrow> k \<noteq> Some (Some [])"

text \<open>A provider that is none leaves the validator of the model with the default one; that validator runs before
  Pydantic reports anything.\<close>

definition llm_config_new :: "pydantic \<Rightarrow> llm_args \<Rightarrow> llm_settings res" where
  "llm_config_new pd a =
     (let given = (case la_provider a of None \<Rightarrow> Some OPENAI | Some s \<Rightarrow> provider_of s);
          p = (case given of None \<Rightarrow> OPENAI | Some q \<Rightarrow> q)
      in res_bind (case la_model a of None \<Rightarrow> Inr () | Some m \<Rightarrow> validate_model m p) (\<lambda>_.
        if given = None \<or> \<not> api_key_ok (la_api_key a) \<or> \<not> pd_fields_ok pd (la_rest a)
        then Inl (Exn ValidationError (pd_message pd a))
        else Inr \<lparr>lg_provider = p, lg_model = (case la_model a of None \<Rightarrow> None | Some m \<Rightarrow> m),
          lg_api_key = (case la_api_key a of None \<Rightarrow> None | Some k \<Rightarrow> k),
          lg_timeout = (case la_timeout a of None \<Rightarrow> 30 | Some t \<Rightarrow> t),
          lg_max_retries = (case la_max_retries a of None \<Rightarrow> 3 | Some r \<Rightarrow> r), lg_rest = la_rest a\<rparr>))"

section \<open>Message templates\<close>

record template =
  te_role :: string
  te_content :: string
  te_version :: string
  te_min_model :: string
  te_provider :: provider

fun digit_parts :: "nat \<Rightarrow> string list \<Rightarrow> bool" where
  "digit_parts 0 ps = (ps = [])"
| "digit_parts (Suc n) [] = False"
| "digit_parts (Suc n) (p # ps) = (p \<noteq> [] \<and> list_all is_digit p \<and> digit_parts n ps)"

definition version_format :: "string \<Rightarrow> bool" where
  "version_format s = digit_parts 3 (str_split ''.'' s)"

text \<open>The fields in their order: role, content, version, minimal model, provider; an exception of the package's own
  leaves at once, Pydantic's (a version of the wrong form, a provider that is none) at the end. The validator of the
  minimal model asks for the provider, which is declared after it: it always gets the default.\<close>

definition template_new ::
  "string \<Rightarrow> string \<Rightarrow> string \<Rightarrow> string option \<Rightarrow> string option \<Rightarrow> string \<Rightarrow> template res" where
  "template_new role content version min_model prov msg =
     (if role \<notin> {''system'', ''user'', ''assistant''}
      then Inl (core_validation_error ''Invalid role. Valid roles: assistant, system, user'')
      else res_bind (case min_model of None \<Rightarrow> Inr [] | Some m \<Rightarrow> parse_model_version (Some m) OPENAI) (\<lambda>_.
        (case (case prov of None \<Rightarrow> Some OPENAI | Some s \<Rightarrow> provider_of s) of
           None \<Rightarrow> Inl (Exn ValidationError msg)
         | Some p \<Rightarrow> if \<not> version_format version then Inl (Exn ValidationError msg)
             else Inr \<lparr>te_role = role, te_content = content, te_version = version,
               te_min_model = (case min_model of None \<Rightarrow> ''gpt-4'' | Some m \<Rightarrow> m), te_provider = p\<rparr>)))"

text \<open>\<open>except ValueError\<close>: Pydantic's error is one, the package's own is not.\<close>

definition is_value_error :: "exn \<Rightarrow> bool" where
  "is_value_error e \<longleftrightarrow> exn_kind e = ValueError \<or> exn_kind e = ValidationError"

definition is_compatible :: "(string \<Rightarrow> string \<Rightarrow> bool) \<Rightarrow> template \<Rightarrow> string \<Rightarrow> provider \<Rightarrow> bool res" where
  "is_compatible geq t m p = (case res_bind (parse_model_version (Some m) p) (\<lambda>v.
       res_bind (parse_model_version (Some (te_min_model t)) (te_provider t)) (\<lambda>w. Inr (geq v w))) of
     Inr b \<Rightarrow> Inr b | Inl e \<Rightarrow> if is_value_error e then Inr False else Inl e)"

text \<open>\<open>str.format\<close> with keyword arguments: doubled braces, names, and the other replacement fields as a parameter.\<close>

definition plain_name :: "string \<Rightarrow> bool" where
  "plain_name s \<longleftrightarrow> s \<noteq> [] \<and> \<not> is_digit (hd s)
     \<and> list_all (\<lambda>c. CHR ''a'' \<le> c \<and> c \<le> CHR ''z'' \<or> CHR ''A'' \<le> c \<and> c \<le> CHR ''Z'' \<or> is_digit c \<or> c = CHR ''_'') s"

definition format_field :: "(val \<Rightarrow> string) \<Rightarrow> (val dict \<Rightarrow> string \<Rightarrow> string res) \<Rightarrow> val dict \<Rightarrow> string \<Rightarrow> string res" where
  "format_field show_val special kw f = (if \<not> plain_name f then special kw f
     else (case dict_get kw f of None \<Rightarrow> Inl (Exn KeyError (sq f)) | Some v \<Rightarrow> Inr (show_val v)))"

fun format_scan :: "(string \<Rightarrow> string res) \<Rightarrow> nat \<Rightarrow> string \<Rightarrow> string \<Rightarrow> string res" where
  "format_scan f 0 b [] = Inr []"
| "format_scan f (Suc d) b [] = Inl (Exn ValueError (if d = 0 \<and> b = [] then ''Single '' @ sq ''{'' @ '' encountered in format string''
     else ''expected '' @ sq ''}'' @ '' before end of string''))"
| "format_scan f 0 b (c # s) =
     (if (c = CHR ''{'' \<or> c = CHR ''}'') \<and> s \<noteq> [] \<and> hd s = c
      then res_bind (format_scan f 0 [] (tl s)) (\<lambda>r. Inr (c # r))
      else if c = CHR ''{'' then format_scan f 1 [] s
      else if c = CHR ''}'' then Inl (Exn ValueError (''Single '' @ sq ''}'' @ '' encountered in format string''))
      else res_bind (format_scan f 0 [] s) (\<lambda>r. Inr (c # r)))"
| "format_scan f (Suc d) b (c # s) =
     (if c = CHR ''}'' then (if d = 0
        then res_bind (f (rev b)) (\<lambda>x. res_bind (format_scan f 0 [] s) (\<lambda>r. Inr (x @ r)))
        else format_scan f d (c # b) s)
      else format_scan f (if c = CHR ''{'' then Suc (Suc d) else Suc d) (c # b) s)"

definition template_format :: "(val \<Rightarrow> string) \<Rightarrow> (val dict \<Rightarrow> string \<Rightarrow> string res) \<Rightarrow> template \<Rightarrow> val dict \<Rightarrow> string res" where
  "template_format show_val special t kw = (case format_scan (format_field show_val special kw) 0 [] (te_content t) of
       Inr s \<Rightarrow> Inr s | Inl e \<Rightarrow> if exn_kind e = KeyError then Inr (te_content t) else Inl e)"

section \<open>The registry of prompt templates\<close>

type_synonym templates = "template dict"

definition register_template :: "string \<Rightarrow> template \<Rightarrow> templates \<Rightarrow> unit res \<times> templates" where
  "register_template n t r = (if dict_get r n \<noteq> None then (Inl (registry_error (''Template '' @ sq n @ '' already registered'')), r)
     else (Inr (), dict_set n t r))"

definition get_template :: "string \<Rightarrow> templates \<Rightarrow> template res" where
  "get_template n r = (case dict_get r n of None \<Rightarrow> Inl (registry_error (''Template '' @ sq n @ '' not found'')) | Some t \<Rightarrow> Inr t)"

definition get_optional_template :: "string \<Rightarrow> templates \<Rightarrow> template option" where
  "get_optional_template n r = dict_get r n"

definition list_templates :: "templates \<Rightarrow> string list" where
  "list_templates r = dict_keys r"

definition has_template :: "string \<Rightarrow> templates \<Rightarrow> bool" where
  "has_template n r \<longleftrightarrow> dict_get r n \<noteq> None"

definition unregister_template :: "string \<Rightarrow> templates \<Rightarrow> template option \<times> templates" where
  "unregister_template n r = (dict_get r n, dict_pop n r)"

definition clear_templates :: "templates \<Rightarrow> templates" where
  "clear_templates r = []"

definition count_templates :: "templates \<Rightarrow> nat" where
  "count_templates r = length r"

fun passes :: "string option \<Rightarrow> string \<Rightarrow> bool" where
  "passes None s = True"
| "passes (Some c) s = (c = [] \<or> c = s)"

fun by_criteria :: "string option \<Rightarrow> string option \<Rightarrow> string option \<Rightarrow> templates \<Rightarrow> templates \<Rightarrow> templates" where
  "by_criteria p v ro [] acc = acc"
| "by_criteria p v ro ((n, t) # r) acc =
     (if \<not> passes p (provider_name (te_provider t)) then by_criteria p v ro r acc
      else if \<not> passes v (te_min_model t) then by_criteria p v ro r acc
      else if \<not> passes ro (te_role t) then by_criteria p v ro r acc
      else by_criteria p v ro r (dict_set n t acc))"

definition get_by_criteria :: "string option \<Rightarrow> string option \<Rightarrow> string option \<Rightarrow> templates \<Rightarrow> templates" where
  "get_by_criteria p v ro r = by_criteria p v ro r []"

definition gpt4_template :: "string \<Rightarrow> string \<Rightarrow> template res" where
  "gpt4_template role content = template_new role content ''1.0.0'' (Some ''gpt-4'') (Some ''openai'') []"

definition default_templates :: "(string \<times> template res) list" where
  "default_templates =
     [(''default_system'', gpt4_template ''system'' ''You are a helpful AI assistant.''),
      (''chain_of_thought'', gpt4_template ''user'' (''Let'' @ [CHR 0x27] @ ''s think step by step about this: {query}'')),
      (''json_response'', gpt4_template ''system'' ''Always respond with valid JSON. {format_instructions}'')]"

fun register_each :: "(string \<times> template res) list \<Rightarrow> templates \<Rightarrow> unit res \<times> templates" where
  "register_each [] r = (Inr (), r)"
| "register_each ((n, Inl e) # ts) r = (Inl e, r)"
| "register_each ((n, Inr t) # ts) r = (case register_template n t r of
       (Inl e, r') \<Rightarrow> (Inl e, r') | (Inr _, r') \<Rightarrow> register_each ts r')"

definition register_default_templates :: "templates \<Rightarrow> unit res \<times> templates" where
  "register_default_templates r = (case register_each default_templates r of
       (Inl e, r') \<Rightarrow> ((if is_value_error e then Inr () else Inl e), r')
     | (Inr _, r') \<Rightarrow> (Inr (), r'))"

section \<open>Properties\<close>

lemma core_error_escapes [simp]: "is_value_error (core_validation_error m) = False"
  by (simp add: is_value_error_def core_validation_error_def)

lemma version_in_cases: "version_in tab b m = Inr v \<longleftrightarrow> (\<exists>s. m = Some s \<and> dict_get tab s = Some v)"
  by (auto simp: version_in_def split: option.splits)

lemma version_in_isl: "isl (version_in tab b (Some s)) \<longleftrightarrow> s \<notin> set (dict_keys tab)"
  using dict_get_eq_None[of tab s] by (auto simp: version_in_def split: option.splits)

lemma parse_core_error: "parse_model_version m p = Inl e \<Longrightarrow> exn_kind e = OtherError ''ValidationError''"
  by (cases p) (auto simp: version_in_def core_validation_error_def split: option.splits)

definition usable :: "provider \<Rightarrow> string \<Rightarrow> bool" where
  "usable p m \<longleftrightarrow> p = OPENAI \<and> m \<in> {''gpt-4'', ''gpt-4.1'', ''gpt-4-turbo'', ''gpt-4o'', ''gpt-4-turbo-2024-04-09''}
     \<or> (p = DEEPSEEK \<or> p = CUSTOM) \<and> dict_get model_infos m \<noteq> None"

lemma allowed_infos: "is_allowed_model m \<longleftrightarrow> dict_get model_infos m \<noteq> None"
  by (auto simp: is_allowed_model_def dict_get_eq_None model_infos_def model_table_def allowed_models_def banned_models_def)

lemma validate_model_usable: "validate_model (Some m) p = Inr () \<longleftrightarrow> usable p m"
proof -
  have a: "is_allowed_model m \<longleftrightarrow> m \<in> set (dict_keys model_infos)"
    by (simp add: allowed_infos dict_get_eq_None)
  have v: "validate_model (Some m) p = Inr () \<longleftrightarrow> \<not> isl (parse_model_version (Some m) p) \<and> m \<in> set (dict_keys model_infos)"
    by (cases "parse_model_version (Some m) p") (auto simp: validate_model_def a)
  have k: "m \<in> set (dict_keys model_infos) \<longleftrightarrow> m \<in> {''gpt-4'', ''gpt-4.1'', ''gpt-4-turbo'', ''gpt-4o'', ''gpt-4-turbo-2024-04-09'',
      ''gpt-4.5-preview'', ''claude-4-sonnet'', ''claude-4-opus'', ''gemini-2.5-pro'', ''deepseek-v3.1''}"
    by (simp add: model_infos_def model_table_def)
  have d: "dict_get model_infos m \<noteq> None \<longleftrightarrow> m \<in> set (dict_keys model_infos)" by (simp add: dict_get_eq_None)
  show ?thesis unfolding v usable_def d unfolding k
    by (cases p) (auto simp: version_in_isl openai_versions_def anthropic_versions_def google_versions_def)
qed

text \<open>The models a configuration can name: of OpenAI five of the six that are listed, of DeepSeek and custom providers
  the listed ones, of Anthropic and Google none, since none of their listed models has a version.\<close>

theorem usable_models:
  assumes "la_model a = Some (Some m)" "api_key_ok (la_api_key a)" "pd_fields_ok pd (la_rest a)"
    and "(case la_provider a of None \<Rightarrow> Some OPENAI | Some s \<Rightarrow> provider_of s) = Some p"
  shows "isl (llm_config_new pd a) \<longleftrightarrow> \<not> usable p m"
  using validate_model_usable[of m p] assms
  by (cases "validate_model (Some m) p") (auto simp: llm_config_new_def)

text \<open>A model that is explicitly \<open>None\<close> is refused for every provider, although the field is optional.\<close>

theorem explicit_none_model_raises:
  assumes "la_model a = Some None"
  shows "\<exists>m. llm_config_new pd a = Inl (core_validation_error m)"
proof -
  have "\<exists>m. validate_model None p = Inl (core_validation_error m)" for p
    by (cases p) (auto simp: validate_model_def version_in_def)
  then show ?thesis unfolding llm_config_new_def Let_def assms option.case by (metis res_bind_simps(1))
qed

lemma template_fields:
  assumes "template_new ro c v mm pr msg = Inr t"
  shows "te_min_model t \<in> set (dict_keys openai_versions)" "te_role t \<in> {''system'', ''user'', ''assistant''}"
proof -
  have "''gpt-4'' \<in> set (dict_keys openai_versions)" by (simp add: openai_versions_def)
  then show "te_min_model t \<in> set (dict_keys openai_versions)" using assms
    by (auto simp: template_new_def res_bind_Inr_iff version_in_cases simp del: set_map dest!: dict_get_keys
        split: if_splits option.splits)
  show "te_role t \<in> {''system'', ''user'', ''assistant''}" using assms
    by (auto simp: template_new_def res_bind_Inr_iff split: if_splits option.splits)
qed

text \<open>What a template says of a model: it never answers that a model it does not know is incompatible, but raises an
  exception that its handler does not catch, and a template for Anthropic or Google raises for every model, since
  the minimal model it was made with is one of OpenAI.\<close>

theorem compatibility_raises:
  assumes "template_new ro c v mm pr msg = Inr t"
  shows "isl (is_compatible geq t m p) \<longleftrightarrow> isl (parse_model_version (Some m) p) \<or> te_provider t \<in> {ANTHROPIC, GOOGLE}"
proof -
  have own: "isl (parse_model_version (Some (te_min_model t)) (te_provider t)) \<longleftrightarrow> te_provider t \<in> {ANTHROPIC, GOOGLE}"
    using template_fields(1)[OF assms]
    by (cases "te_provider t")
      (auto simp: version_in_isl openai_versions_def anthropic_versions_def google_versions_def simp del: set_map)
  have esc: "parse_model_version (Some m') q = Inl e \<Longrightarrow> \<not> is_value_error e" for m' q e
    by (drule parse_core_error) (simp add: is_value_error_def)
  show ?thesis
  proof (cases "parse_model_version (Some m) p")
    case (Inl e)
    then show ?thesis using esc[OF Inl] by (simp add: is_compatible_def)
  next
    case v: (Inr x)
    show ?thesis
    proof (cases "parse_model_version (Some (te_min_model t)) (te_provider t)")
      case (Inl e)
      then show ?thesis using own v esc[OF Inl] by (simp add: is_compatible_def)
    next
      case (Inr y)
      then show ?thesis using own v by (auto simp: is_compatible_def)
    qed
  qed
qed

lemma format_scan_text: "CHR ''{'' \<notin> set s \<Longrightarrow> CHR ''}'' \<notin> set s \<Longrightarrow> format_scan f 0 b s = Inr s"
  by (induction s arbitrary: b) auto

text \<open>Missing keys: formatting never raises a KeyError, it gives the content as it is; a content without braces is
  always given as it is.\<close>

theorem format_keeps_content:
  "(\<forall>e. template_format sh sp t kw = Inl e \<longrightarrow> exn_kind e \<noteq> KeyError)
    \<and> (CHR ''{'' \<notin> set (te_content t) \<longrightarrow> CHR ''}'' \<notin> set (te_content t) \<longrightarrow> template_format sh sp t kw = Inr (te_content t))"
  by (auto simp: template_format_def format_scan_text split: sum.splits)

lemma default_ok:
  "default_templates = map (\<lambda>(n, c). (n, Inr \<lparr>te_role = fst c, te_content = snd c, te_version = ''1.0.0'', te_min_model = ''gpt-4'', te_provider = OPENAI\<rparr>))
     [(''default_system'', ''system'', ''You are a helpful AI assistant.''),
      (''chain_of_thought'', ''user'', ''Let'' @ [CHR 0x27] @ ''s think step by step about this: {query}''),
      (''json_response'', ''system'', ''Always respond with valid JSON. {format_instructions}'')]"
  by code_simp

text \<open>The default templates can only be registered where none of their names is taken: a template that was
  registered first is not kept in their place, but the exception of the registry, which is no \<open>ValueError\<close>,
  leaves the registration.\<close>

theorem defaults_need_free_names:
  "isl (fst (register_default_templates r)) \<longleftrightarrow>
     (\<exists>n \<in> {''default_system'', ''chain_of_thought'', ''json_response''}. has_template n r)"
proof -
  have e: "\<not> is_value_error (registry_error m)" for m by (simp add: is_value_error_def registry_error_def)
  show ?thesis
    by (auto simp: register_default_templates_def default_ok register_template_def has_template_def e split: if_splits)
qed

text \<open>The listed models are sorted by provider and name, each once, and found under their id.\<close>

theorem listed_models_exact:
  "sorted (map (\<lambda>m. (provider_name (mo_provider m), mo_id m)) list_models) \<and> distinct (map mo_id list_models)
    \<and> (\<forall>m. m \<in> set list_models \<longleftrightarrow> get_model_info (mo_id m) = Some m)"
proof (intro conjI allI)
  show "sorted (map (\<lambda>m. (provider_name (mo_provider m), mo_id m)) list_models)" by (simp add: list_models_def)
  have k: "dict_wf model_infos" "map mo_id (map snd model_infos) = dict_keys model_infos" by (simp_all add: model_infos_def model_table_def)
  have "mset (map mo_id list_models) = mset (map mo_id (map snd model_infos))" unfolding list_models_def mset_map mset_sort ..
  then show "distinct (map mo_id list_models)" using k by (metis mset_eq_imp_distinct_iff)
  fix m
  have "m \<in> set list_models \<longleftrightarrow> m \<in> snd ` set model_infos" by (simp add: list_models_def)
  also have "\<dots> \<longleftrightarrow> (mo_id m, m) \<in> set model_infos" unfolding model_infos_def by (auto simp: image_iff)
  also have "\<dots> \<longleftrightarrow> get_model_info (mo_id m) = Some m" using k(1) by (simp add: get_model_info_def)
  finally show "m \<in> set list_models \<longleftrightarrow> get_model_info (mo_id m) = Some m" .
qed

section \<open>Instances\<close>

definition demo_pydantic :: pydantic where
  "demo_pydantic = \<lparr>pd_fields_ok = (\<lambda>d. True), pd_message = (\<lambda>a. ''validation error'')\<rparr>"

definition model_args :: "string option \<Rightarrow> string option \<Rightarrow> llm_args" where
  "model_args p m = \<lparr>la_provider = p, la_model = Some m, la_api_key = None, la_timeout = None, la_max_retries = None, la_rest = []\<rparr>"

theorem usable_models_witness:
  "isl (llm_config_new demo_pydantic (model_args (Some ''anthropic'') (Some ''claude-4-opus'')))"
  using usable_models[of "model_args (Some ''anthropic'') (Some ''claude-4-opus'')" "''claude-4-opus''" demo_pydantic ANTHROPIC]
  by (simp add: model_args_def demo_pydantic_def api_key_ok_def provider_of_def usable_def)

theorem explicit_none_model_raises_witness:
  "\<exists>m. llm_config_new demo_pydantic (model_args (Some ''deepseek'') None) = Inl (core_validation_error m)"
  by (rule explicit_none_model_raises) (simp add: model_args_def)

theorem compatibility_raises_witness:
  "\<exists>t. template_new ''user'' ''hi'' ''1.0.0'' None (Some ''anthropic'') [] = Inr t
    \<and> isl (is_compatible (\<lambda>a b. True) t ''claude-2'' ANTHROPIC)"
proof -
  have "template_new ''user'' ''hi'' ''1.0.0'' None (Some ''anthropic'') []
      = Inr \<lparr>te_role = ''user'', te_content = ''hi'', te_version = ''1.0.0'', te_min_model = ''gpt-4'', te_provider = ANTHROPIC\<rparr>"
    by code_simp
  from this compatibility_raises[OF this, of "\<lambda>a b. True" "''claude-2''" ANTHROPIC] show ?thesis by simp
qed

theorem format_keeps_content_witness:
  "template_format (\<lambda>v. ''v'') (\<lambda>kw f. Inr f)
     \<lparr>te_role = ''user'', te_content = ''plain'', te_version = ''1.0.0'', te_min_model = ''gpt-4'', te_provider = OPENAI\<rparr> [] = Inr ''plain''"
proof -
  let ?t = "\<lparr>te_role = ''user'', te_content = ''plain'', te_version = ''1.0.0'', te_min_model = ''gpt-4'', te_provider = OPENAI\<rparr>"
  have "CHR ''{'' \<notin> set (te_content ?t)" "CHR ''}'' \<notin> set (te_content ?t)" by simp_all
  with format_keeps_content[of "\<lambda>v. ''v''" "\<lambda>kw f. Inr f" ?t "[]"] show ?thesis by (metis template.select_convs(2))
qed

end
