(* ===== verification/Builder.thy ===== *)
theory Builder
  imports BpStore
begin

text \<open>
  The fluent builders (\<open>src/ice_builder/dsl/\<close>): \<open>WorkflowBuilder\<close> (\<open>workflow.py\<close>), \<open>AgentBuilder\<close> (\<open>agent.py\<close>) and the
  decorator of tools (\<open>decorators.py\<close>). A node of the builder is a configuration whose class has validated it; the
  caller's further keyword arguments are the base record and the fields of its kind.

  Parameters: Pydantic's dump of the fields a node type has besides those named here, the checks of schemas and
  the switch for inline code. Nodes that a caller also nests in another one, and changes later, are not modelled.
\<close>

section \<open>The state\<close>

record builder_env =
  wv_inline :: bool
  wv_check :: "val dict \<Rightarrow> string option"
  wv_rest :: "node \<Rightarrow> val dict"

record wf_builder =
  wb_name :: string
  wb_nodes :: "node list"
  wb_edges :: "(string \<times> string) list"

definition builder_new :: "string \<Rightarrow> wf_builder" where
  "builder_new name = \<lparr>wb_name = name, wb_nodes = [], wb_edges = []\<rparr>"

section \<open>Construction of a configuration\<close>

definition range_error :: "'a res" where
  "range_error = Inl (Exn ValueError ''Input is out of range'')"

definition checked_base :: "base_config \<Rightarrow> base_config res" where
  "checked_base b =
     (if (case timeout_seconds b of None \<Rightarrow> False | Some t \<Rightarrow> t < 1) \<or> retries b < 0 \<or> backoff_seconds b < 0
        \<or> (case retry_policy_of b of None \<Rightarrow> False | Some p \<Rightarrow> \<not> retry_policy_valid p)
      then range_error else no_self_dependency b)"

text \<open>The union of the nested node types does not have the three types that were added later.\<close>

definition may_nest :: "node \<Rightarrow> bool" where
  "may_nest n \<longleftrightarrow> node_type_of n \<notin> {THuman, TMonitor, TSwarm}"

definition nested_in :: "node list \<Rightarrow> kind \<Rightarrow> kind res" where
  "nested_in ns k = (if list_all may_nest ns then Inr k
     else Inl (Exn ValueError ''Input tag does not match any of the expected tags''))"

fun checked_kind :: "builder_env \<Rightarrow> base_config \<Rightarrow> kind \<Rightarrow> kind res" where
  "checked_kind env b (KLlm l) =
     (if lm_temperature l < 0 \<or> 2 < lm_temperature l \<or> (case lm_max_tokens l of None \<Rightarrow> False | Some m \<Rightarrow> m < 1)
      then range_error else Inr (KLlm (sync_llm l)))"
| "checked_kind env b (KAgent a) = res_bind (sync_agent (validate_agent_attr a)) (\<lambda>a. Inr (KAgent a))"
| "checked_kind env b (KCondition e t f) = nested_in (t @ (case f of None \<Rightarrow> [] | Some ns \<Rightarrow> ns)) (KCondition e t f)"
| "checked_kind env b (KLoop src var body mx) = nested_in body (KLoop src var body mx)"
| "checked_kind env b (KParallel bs m) = nested_in (concat bs) (KParallel bs m)"
| "checked_kind env b (KRecursive r) = res_bind (validate_recursive r) (\<lambda>r. Inr (KRecursive r))"
| "checked_kind env b (KCode c) = res_bind (validate_code_source (wv_inline env) b c) (\<lambda>_.
     res_bind (require_code_schemas (wv_check env) b) (\<lambda>_. Inr (KCode c)))"
| "checked_kind env b (KHuman h) =
     (if hu_prompt h = [] \<or> (case hu_timeout h of None \<Rightarrow> False | Some t \<Rightarrow> t < 1)
        \<or> (case hu_auto_approve h of None \<Rightarrow> False | Some t \<Rightarrow> t < 1) then range_error else Inr (KHuman h))"
| "checked_kind env b (KMonitor e action cs) =
     (if e \<noteq> [] \<and> action \<in> {''alert_only'', ''pause'', ''abort''} then Inr (KMonitor e action cs) else range_error)"
| "checked_kind env b (KSwarm as) = (if length as < 2 then range_error else Inr (KSwarm as))"
| "checked_kind env b k = Inr k"

text \<open>Whatever a validator raises as a \<open>ValueError\<close>, the constructor raises as Pydantic's error,
  whose text is cut down to what the validator said.\<close>

definition construct :: "builder_env \<Rightarrow> node \<Rightarrow> node res" where
  "construct env n = (case res_bind (checked_base (base n)) (\<lambda>b. checked_kind env b (kind n)) of
       Inl e \<Rightarrow> Inl (Exn ValidationError (exn_msg e))
     | Inr k \<Rightarrow> Inr (Node (base n) k))"

definition append_node :: "builder_env \<Rightarrow> node \<Rightarrow> wf_builder \<Rightarrow> unit res \<times> wf_builder" where
  "append_node env n b = (case construct env n of
       Inl e \<Rightarrow> (Inl e, b) | Inr m \<Rightarrow> (Inr (), b\<lparr>wb_nodes := wb_nodes b @ [m]\<rparr>))"

section \<open>Adding nodes\<close>

definition named_base :: "string \<Rightarrow> base_config \<Rightarrow> base_config" where
  "named_base i c = c\<lparr>cid := i, cname := Some i, input_selection := None\<rparr>"

definition add_tool :: "builder_env \<Rightarrow> string \<Rightarrow> string \<Rightarrow> val dict \<Rightarrow> wf_builder \<Rightarrow> unit res \<times> wf_builder" where
  "add_tool env i tool args = append_node env (Node ((default_base i [])\<lparr>cname := Some tool\<rparr>) (KTool tool args))"

definition add_llm :: "builder_env \<Rightarrow> string \<Rightarrow> string \<Rightarrow> string \<Rightarrow> llm_config option \<Rightarrow> rat \<Rightarrow> int option \<Rightarrow> base_config
    \<Rightarrow> wf_builder \<Rightarrow> unit res \<times> wf_builder" where
  "add_llm env i model prompt cfg temp mx c = append_node env (Node (named_base i c)
     (KLlm \<lparr>lm_model = model, lm_prompt = prompt, lm_config = (case cfg of None \<Rightarrow> empty_llm_config | Some x \<Rightarrow> x),
        lm_temperature = temp, lm_max_tokens = mx\<rparr>))"

definition add_workflow :: "builder_env \<Rightarrow> string \<Rightarrow> string \<Rightarrow> string dict option \<Rightarrow> val dict \<Rightarrow> wf_builder \<Rightarrow> unit res \<times> wf_builder" where
  "add_workflow env i ref outs overrides = append_node env (Node (named_base i (default_base i []))
     (KWorkflow ref (case outs of None \<Rightarrow> [] | Some d \<Rightarrow> d) overrides))"

text \<open>The tools and the memory of an agent are no part of the model of a node.\<close>

definition add_agent :: "builder_env \<Rightarrow> string \<Rightarrow> string \<Rightarrow> agent_fields \<Rightarrow> base_config \<Rightarrow> wf_builder \<Rightarrow> unit res \<times> wf_builder" where
  "add_agent env i package a c = append_node env (Node (named_base i c) (KAgent (a\<lparr>ag_package := package\<rparr>)))"

definition no_agent_fields :: agent_fields where
  "no_agent_fields = \<lparr>ag_package = [], ag_attr = None, ag_model = None, ag_config = None, ag_max_iterations = 10\<rparr>"

definition add_condition :: "builder_env \<Rightarrow> string \<Rightarrow> string \<Rightarrow> node list \<Rightarrow> node list option \<Rightarrow> base_config \<Rightarrow> wf_builder \<Rightarrow> unit res \<times> wf_builder" where
  "add_condition env i e t f c = append_node env (Node (named_base i c) (KCondition e t f))"

definition add_loop :: "builder_env \<Rightarrow> string \<Rightarrow> string \<Rightarrow> node list \<Rightarrow> string \<Rightarrow> int option \<Rightarrow> base_config \<Rightarrow> wf_builder \<Rightarrow> unit res \<times> wf_builder" where
  "add_loop env i src body var mx c = append_node env (Node (named_base i c) (KLoop src var body mx))"

definition add_parallel :: "builder_env \<Rightarrow> string \<Rightarrow> node list list \<Rightarrow> bool \<Rightarrow> base_config \<Rightarrow> wf_builder \<Rightarrow> unit res \<times> wf_builder" where
  "add_parallel env i bs merge c = append_node env (Node (named_base i c) (KParallel bs merge))"

definition add_code :: "builder_env \<Rightarrow> string \<Rightarrow> string \<Rightarrow> base_config \<Rightarrow> wf_builder \<Rightarrow> unit res \<times> wf_builder" where
  "add_code env i code c = append_node env (Node (named_base i c) (KCode (Some code)))"

definition add_human :: "builder_env \<Rightarrow> string \<Rightarrow> human_fields \<Rightarrow> base_config \<Rightarrow> wf_builder \<Rightarrow> unit res \<times> wf_builder" where
  "add_human env i h c = append_node env (Node (named_base i c) (KHuman h))"

definition add_monitor :: "builder_env \<Rightarrow> string \<Rightarrow> string \<Rightarrow> string \<Rightarrow> string list \<Rightarrow> base_config \<Rightarrow> wf_builder \<Rightarrow> unit res \<times> wf_builder" where
  "add_monitor env i e action cs c = append_node env (Node (named_base i c) (KMonitor e action cs))"

definition add_swarm :: "builder_env \<Rightarrow> string \<Rightarrow> agent_spec list \<Rightarrow> base_config \<Rightarrow> wf_builder \<Rightarrow> unit res \<times> wf_builder" where
  "add_swarm env i as c = append_node env (Node (named_base i c) (KSwarm as))"

definition add_recursive :: "builder_env \<Rightarrow> string \<Rightarrow> recursive_fields \<Rightarrow> base_config \<Rightarrow> wf_builder \<Rightarrow> unit res \<times> wf_builder" where
  "add_recursive env i r c = append_node env (Node (named_base i c) (KRecursive r))"

section \<open>Connections\<close>

definition add_dependency :: "string \<Rightarrow> node \<Rightarrow> node" where
  "add_dependency f n = (if f \<in> set (node_deps n) then n
     else Node ((base n)\<lparr>dependencies := node_deps n @ [f]\<rparr>) (kind n))"

definition apply_edge :: "string \<times> string \<Rightarrow> node list \<Rightarrow> node list" where
  "apply_edge e = map (\<lambda>n. if node_id n = snd e then add_dependency (fst e) n else n)"

definition connect :: "string \<Rightarrow> string \<Rightarrow> wf_builder \<Rightarrow> wf_builder" where
  "connect f t b = b\<lparr>wb_edges := wb_edges b @ [(f, t)], wb_nodes := apply_edge (f, t) (wb_nodes b)\<rparr>"

definition forget_dependencies :: "node \<Rightarrow> node" where
  "forget_dependencies n = Node ((base n)\<lparr>dependencies := []\<rparr>) (kind n)"

definition apply_connections :: "wf_builder \<Rightarrow> wf_builder" where
  "apply_connections b = b\<lparr>wb_nodes := fold apply_edge (wb_edges b) (map forget_dependencies (wb_nodes b))\<rparr>"

section \<open>What a builder gives\<close>

fun kind_fields :: "kind \<Rightarrow> val dict" where
  "kind_fields (KTool t args) = [(''tool_name'', VStr t), (''tool_args'', VDict args)]"
| "kind_fields (KAgent a) = [(''package'', VStr (ag_package a))]"
| "kind_fields k = []"

definition spec_of :: "builder_env \<Rightarrow> node \<Rightarrow> node_spec" where
  "spec_of env n = \<lparr>ns_id = node_id n, ns_type = node_type_str n, ns_deps = node_deps n,
     ns_extra = kind_fields (kind n) @ wv_rest env n\<rparr>"

definition builder_build :: "builder_env \<Rightarrow> string \<Rightarrow> wf_builder \<Rightarrow> blueprint res \<times> wf_builder" where
  "builder_build env i b = (let b' = apply_connections b in
     (blueprint_new i ''1.1.0'' (map (spec_of env) (wb_nodes b')) [(''draft_name'', VStr (wb_name b))], b'))"

text \<open>The arguments of the workflow class; \<open>has_class\<close> says whether one is given or registered.\<close>

definition to_workflow :: "bool \<Rightarrow> wf_builder \<Rightarrow> (string \<times> node list) res" where
  "to_workflow has_class b = (if has_class then Inr (wb_name b, wb_nodes b)
     else Inl (Exn TypeError ''workflow_cls argument missing and runtime.workflow_factory not set''))"

text \<open>The proxy is imported for type checkers only.\<close>

definition builder_map :: "string \<Rightarrow> wf_builder \<Rightarrow> unit res" where
  "builder_map src b = Inl (Exn (OtherError ''NameError'') (''name '' @ sq ''_MapBuilderProxy'' @ '' is not defined''))"

definition dq :: "string \<Rightarrow> string" where
  "dq s = CHR 0x22 # s @ [CHR 0x22]"

definition preview :: "wf_builder \<Rightarrow> string \<times> wf_builder" where
  "preview b = (let b' = apply_connections b in
     (str_join [CHR 0x0A] ([''graph TD;'']
        @ map (\<lambda>n. ''    '' @ node_id n @ ''['' @ dq (node_id n @ '' ('' @ node_type_str n @ '')'') @ ''];'') (wb_nodes b')
        @ map (\<lambda>(f, t). ''    '' @ f @ '' --> '' @ t @ '';'') (wb_edges b')), b'))"

record policy =
  po_tools :: "string list \<times> string list"
  po_agents :: "string list \<times> string list"

definition denied :: "string \<Rightarrow> string \<Rightarrow> string list \<times> string list \<Rightarrow> string list" where
  "denied what name p =
     (if fst p \<noteq> [] \<and> name \<notin> set (fst p) then [what @ '' '' @ sq name @ '' denied by allow-list policy''] else [])
     @ (if name \<in> set (snd p) then [what @ '' '' @ sq name @ '' explicitly denied by policy''] else [])"

fun node_issues :: "policy \<Rightarrow> 'o registry \<Rightarrow> kind \<Rightarrow> string list" where
  "node_issues p reg (KTool t args) = (if t = [] then [] else denied ''tool'' t (po_tools p)
     @ (if has_tool t reg then [] else [''tool '' @ sq t @ '' not registered in unified registry'']))"
| "node_issues p reg (KAgent a) = (if ag_package a = [] then [] else denied ''agent'' (ag_package a) (po_agents p)
     @ (if ag_package a \<in> set (list_agents reg) then [] else [''agent '' @ sq (ag_package a) @ '' not registered in unified registry'']))"
| "node_issues p reg k = []"

definition validate_resolvable :: "policy \<Rightarrow> 'o registry \<Rightarrow> wf_builder \<Rightarrow> string list" where
  "validate_resolvable p reg b = concat (map (\<lambda>n. node_issues p reg (kind n)) (wb_nodes b))"

definition env_policy :: "string \<Rightarrow> string \<Rightarrow> string \<Rightarrow> string \<Rightarrow> policy" where
  "env_policy wt dt aa da = \<lparr>po_tools = (csv_env wt, csv_env dt), po_agents = (csv_env aa, csv_env da)\<rparr>"

section \<open>Builders of agents\<close>

definition agent_builder :: "string \<Rightarrow> val dict \<times> val dict" where
  "agent_builder name = ([(''type'', VStr ''agent''), (''id'', VStr name)], [(''tools'', VList []), (''max_retries'', VInt 3)])"

definition agent_put :: "string \<Rightarrow> val \<Rightarrow> val dict \<times> val dict \<Rightarrow> val dict \<times> val dict" where
  "agent_put k v b = (fst b, dict_set k v (snd b))"

definition with_llm :: "string \<Rightarrow> provider \<Rightarrow> val dict \<times> val dict \<Rightarrow> val dict \<times> val dict" where
  "with_llm model p = agent_put ''llm_config'' (VDict [(''provider'', VStr (case p of OPENAI \<Rightarrow> ''openai'' | ANTHROPIC \<Rightarrow> ''anthropic''
       | GOOGLE \<Rightarrow> ''google'' | DEEPSEEK \<Rightarrow> ''deepseek'' | CUSTOM \<Rightarrow> ''custom'')), (''model'', VStr model),
     (''temperature'', VFloat (7 / 10)), (''max_tokens'', VInt 1000)])"

definition with_system_prompt :: "string \<Rightarrow> val dict \<times> val dict \<Rightarrow> val dict \<times> val dict" where
  "with_system_prompt p = agent_put ''system_prompt'' (VStr p)"

definition with_tools :: "string list \<Rightarrow> val dict \<times> val dict \<Rightarrow> val dict \<times> val dict" where
  "with_tools ts = agent_put ''tools'' (VList (map VStr ts))"

definition with_agent_memory :: "val dict \<Rightarrow> val dict \<times> val dict \<Rightarrow> val dict \<times> val dict" where
  "with_agent_memory m b = (let b' = agent_put ''enable_memory'' (VBool True) b
     in if m = [] then b' else agent_put ''memory_config'' (VDict m) b')"

definition with_max_retries :: "int \<Rightarrow> val dict \<times> val dict \<Rightarrow> val dict \<times> val dict" where
  "with_max_retries n = agent_put ''max_retries'' (VInt n)"

definition agent_build :: "val dict \<times> val dict \<Rightarrow> val dict res" where
  "agent_build b =
     (if dict_get (snd b) ''llm_config'' = None then Inl (Exn ValueError ''Agent requires LLM configuration. Call with_llm() first.'')
      else if dict_get (snd b) ''system_prompt'' = None
      then Inl (Exn ValueError ''Agent requires system prompt. Call with_system_prompt() first.'')
      else Inr (fst b @ [(''config'', VDict (snd b))]))"

section \<open>The decorator of tools\<close>

definition is_upper :: "char \<Rightarrow> bool" where
  "is_upper c \<longleftrightarrow> CHR ''A'' \<le> c \<and> c \<le> CHR ''Z''"

definition snake_name :: "string \<Rightarrow> string" where
  "snake_name cls = dropWhile (\<lambda>c. c = CHR ''_'') (concat (map (\<lambda>(i, c).
     if is_upper c \<and> 0 < i then CHR ''_'' # [lower_char c] else [lower_char c]) (enumerate 0 (remove_all ''Tool'' cls))))"

definition tool_decorator ::
  "'o pyenv \<Rightarrow> string option \<Rightarrow> bool \<Rightarrow> string \<Rightarrow> string \<Rightarrow> bool \<Rightarrow> 'o registry \<Rightarrow> 'o registry effect" where
  "tool_decorator py name auto modname cls is_tool_base reg =
     (if \<not> is_tool_base then (reg, Some (Exn TypeError (cls @ '' must inherit from ToolBase'')))
      else (let tool = (case name of None \<Rightarrow> snake_name cls | Some n \<Rightarrow> if n = [] then snake_name cls else n)
        in if auto then register_tool_factory py tool (modname @ '':create_'' @ tool) reg else (reg, None)))"

section \<open>Dependencies\<close>

text \<open>The sources of the edges into a node, each at its first occurrence.\<close>

definition incoming :: "(string \<times> string) list \<Rightarrow> string \<Rightarrow> string list" where
  "incoming es i = rev (remdups (rev (map fst (filter (\<lambda>e. snd e = i) es))))"

definition with_deps :: "string list \<Rightarrow> node \<Rightarrow> node" where
  "with_deps ds n = Node ((base n)\<lparr>dependencies := ds\<rparr>) (kind n)"

lemma with_deps_simps [simp]:
  "node_id (with_deps ds n) = node_id n" "node_deps (with_deps ds n) = ds" "with_deps ds (with_deps ds' n) = with_deps ds n"
  "kind (with_deps ds n) = kind n" "node_type_str (with_deps ds n) = node_type_str n"
  by (simp_all add: with_deps_def node_id_def node_deps_def node_type_str_def node_type_of_def)

lemma with_own_deps: "with_deps ds n = n \<longleftrightarrow> node_deps n = ds"
proof
  assume "with_deps ds n = n"
  then show "node_deps n = ds" by (metis with_deps_simps(2))
next
  assume "node_deps n = ds"
  then show "with_deps ds n = n" by (cases n) (simp add: with_deps_def node_deps_def)
qed

lemma incoming_snoc: "incoming (es @ [(f, t)]) i =
    (if t = i \<and> f \<notin> set (incoming es i) then incoming es i @ [f] else incoming es i)"
  by (auto simp: incoming_def)

lemma incoming_ok [simp]: "distinct (incoming es i)" "set (incoming es i) = {f. (f, i) \<in> set es}"
  by (auto simp: incoming_def image_iff)

lemma edges_applied: "fold apply_edge es (map forget_dependencies ns) = map (\<lambda>n. with_deps (incoming es (node_id n)) n) ns"
proof (induction es rule: rev_induct)
  case Nil
  then show ?case by (simp add: forget_dependencies_def with_deps_def incoming_def)
next
  case (snoc e es)
  obtain f t where e: "e = (f, t)" by fastforce
  have "fold apply_edge (es @ [e]) (map forget_dependencies ns) = apply_edge e (map (\<lambda>n. with_deps (incoming es (node_id n)) n) ns)"
    using snoc by simp
  also have "\<dots> = map (\<lambda>n. with_deps (incoming (es @ [e]) (node_id n)) n) ns"
    unfolding apply_edge_def map_map
  proof (rule map_cong[OF refl])
    fix n
    have "add_dependency f (with_deps ds n) = with_deps (if f \<in> set ds then ds else ds @ [f]) n" for ds
      by (simp add: add_dependency_def) (simp add: with_deps_def)
    then show "((\<lambda>n. if node_id n = snd e then add_dependency (fst e) n else n) \<circ> (\<lambda>n. with_deps (incoming es (node_id n)) n)) n
        = with_deps (incoming (es @ [e]) (node_id n)) n"
      by (simp add: e incoming_snoc del: incoming_ok(2))
  qed
  finally show ?case .
qed

lemma connections_applied: "wb_nodes (apply_connections b) = map (\<lambda>n. with_deps (incoming (wb_edges b) (node_id n)) n) (wb_nodes b)"
  by (simp add: apply_connections_def edges_applied)

text \<open>A preview, which is to show the state, changes the workflow that the builder makes, unless the dependencies of
  every node are just the sources of its edges: those a caller gave explicitly are lost.\<close>

theorem preview_forgets_dependencies:
  "to_workflow True (snd (preview b)) = to_workflow True b \<longleftrightarrow>
     (\<forall>n \<in> set (wb_nodes b). node_deps n = incoming (wb_edges b) (node_id n))"
proof -
  have "map (\<lambda>n. with_deps (incoming (wb_edges b) (node_id n)) n) ns = ns \<longleftrightarrow>
      (\<forall>n \<in> set ns. node_deps n = incoming (wb_edges b) (node_id n))" for ns
    by (induction ns) (simp_all add: with_own_deps del: incoming_ok)
  moreover have "wb_name (apply_connections b) = wb_name b" by (simp add: apply_connections_def)
  ultimately show ?thesis by (simp add: preview_def to_workflow_def connections_applied Let_def)
qed

section \<open>Built blueprints\<close>

definition inner_edges :: "wf_builder \<Rightarrow> (string \<times> string) set" where
  "inner_edges b = {(f, t). (f, t) \<in> set (wb_edges b) \<and> t \<in> node_id ` set (wb_nodes b)}"

lemma built_specs:
  "map ns_id (map (spec_of env) (wb_nodes (apply_connections b))) = map node_id (wb_nodes b)"
  "set (bp_edges (map (spec_of env) (wb_nodes (apply_connections b)))) = inner_edges b"
  by (auto simp: connections_applied spec_of_def bp_edges_def inner_edges_def)

lemma refs_missing: "missing_refs ns = [] \<longleftrightarrow> (\<forall>(d, t) \<in> set (bp_edges ns). d \<in> ns_id ` set ns)"
  by (auto simp: missing_refs_def bp_edges_def filter_empty_conv)

lemma build_defined:
  "(\<exists>bp. fst (builder_build env i b) = Inr bp) \<longleftrightarrow> fst ` inner_edges b \<subseteq> node_id ` set (wb_nodes b)"
proof -
  have "(\<exists>bp. fst (builder_build env i b) = Inr bp) \<longleftrightarrow> missing_refs (map (spec_of env) (wb_nodes (apply_connections b))) = []"
    by (auto simp: builder_build_def Let_def blueprint_new_def validate_node_dependencies_def split: list.splits)
  moreover have "ns_id ` set (map (spec_of env) (wb_nodes (apply_connections b))) = node_id ` set (wb_nodes b)"
    using built_specs(1)[of env b] by (metis list.set_map)
  ultimately have "(\<exists>bp. fst (builder_build env i b) = Inr bp) \<longleftrightarrow> (\<forall>(f, t) \<in> inner_edges b. f \<in> node_id ` set (wb_nodes b))"
    by (simp only: refs_missing built_specs(2))
  then show ?thesis by (simp add: image_subset_iff case_prod_beta)
qed

text \<open>(C36) What the builder makes is accepted by the validation of blueprints exactly when the ids of its nodes are
  distinct, every edge into a node comes from one, and these edges have no cycle. An edge to an unknown node is
  left out silently. \<open>inner_edges\<close> are the edges that were drawn with \<open>connect\<close> and end in a node.\<close>

theorem built_blueprint_accepted:
  "(\<exists>bp. fst (builder_build env i b) = Inr bp \<and> validate_blueprint bp = Inr ()) \<longleftrightarrow>
     distinct (map node_id (wb_nodes b)) \<and> fst ` inner_edges b \<subseteq> node_id ` set (wb_nodes b) \<and> acyclic (inner_edges b)"
proof (cases "\<exists>bp. fst (builder_build env i b) = Inr bp")
  case True
  then obtain bp where bp: "fst (builder_build env i b) = Inr bp" by blast
  then have f: "bp_version bp = ''1.1.0''" "bp_nodes bp = map (spec_of env) (wb_nodes (apply_connections b))"
      "missing_refs (bp_nodes bp) = []"
    by (auto simp: builder_build_def Let_def blueprint_new_def validate_node_dependencies_def split: list.splits)
  have "refs_known (bp_nodes bp)" using f(3) by (simp only: missing_refs_nil)
  then have "validate_blueprint bp = Inr () \<longleftrightarrow> distinct (map node_id (wb_nodes b)) \<and> acyclic (inner_edges b)"
    unfolding validate_blueprint_ok using f built_specs[of env b] by simp
  then show ?thesis using bp True build_defined[of env i b] by auto
next
  case False
  then show ?thesis using build_defined[of env i b] by auto
qed

section \<open>Authoring checks and the server\<close>

lemma denied_none: "denied w n p = [] \<longleftrightarrow> is_component_allowed (fst p) (snd p) n"
  by (auto simp: denied_def is_component_allowed_def)

lemma spec_field:
  "kind n = KTool t args \<Longrightarrow> text_field (spec_of env n) ''tool_name'' = (if t = [] then None else Some t)"
  "kind n = KAgent a \<Longrightarrow> text_field (spec_of env n) ''package'' = (if ag_package a = [] then None else Some (ag_package a))"
  by (auto simp: text_field_def spec_of_def)

text \<open>A workflow for which the builder finds no issues passes the server's check of tools and agents under the same
  policy, and the check leaves the registry as it is.\<close>

theorem resolvable_is_allowed:
  assumes "validate_resolvable p reg b = []" "be_tools senv = po_tools p" "be_agents senv = po_agents p"
  shows "validate_allowed senv (map (spec_of env) (wb_nodes (snd (builder_build env i b)))) reg = (Inr (), reg)"
proof -
  have "validate_allowed senv (map (spec_of env) (map (\<lambda>n. with_deps (ds n) n) ns)) reg = (Inr (), reg)"
    if "\<forall>n \<in> set ns. node_issues p reg (kind n) = []" for ns ds
    using that
  proof (induction ns)
    case (Cons n ns)
    have issue: "node_issues p reg (kind n) = []" using Cons.prems by simp
    have IH: "validate_allowed senv (map (spec_of env) (map (\<lambda>n. with_deps (ds n) n) ns)) reg = (Inr (), reg)"
      using Cons by simp
    have t: "ns_type (spec_of env (with_deps (ds n) n)) = type_value (kind_type (kind n))"
      by (simp add: spec_of_def node_type_str_def node_type_of_def)
    show ?case
    proof (cases "kind n")
      case (KTool tn args)
      then have f: "text_field (spec_of env (with_deps (ds n) n)) ''tool_name'' = (if tn = [] then None else Some tn)"
        by (intro spec_field(1)) simp
      show ?thesis using issue KTool IH t f assms(2) by (auto simp: denied_none split: if_splits)
    next
      case (KAgent a)
      then have f: "text_field (spec_of env (with_deps (ds n) n)) ''package'' = (if ag_package a = [] then None else Some (ag_package a))"
        by (intro spec_field(2)) simp
      show ?thesis using issue KAgent IH t f assms(3) by (auto simp: denied_none split: if_splits)
    qed (use IH t in simp_all)
  qed simp
  moreover have "\<forall>n \<in> set (wb_nodes b). node_issues p reg (kind n) = []" using assms(1) by (auto simp: validate_resolvable_def)
  ultimately show ?thesis by (simp only: builder_build_def Let_def snd_conv connections_applied)
qed

section \<open>Calls that cannot succeed\<close>

text \<open>With its own defaults an agent, a recursive node and a code node cannot be added, and a loop over a collection
  cannot be written as \<open>map\<close>: each of these calls raises and adds nothing.\<close>

theorem default_calls_raise:
  "(\<exists>e. add_agent env i package no_agent_fields (default_base i ds) b = (Inl e, b))
    \<and> (\<exists>e. add_recursive env i \<lparr>rc_sources = [], rc_condition = cond, rc_max_iterations = 50, rc_agent_package = ap, rc_workflow_ref = wr,
          rc_preserve = True, rc_context_key = ''recursive_context''\<rparr> (default_base i ds) b = (Inl e, b))
    \<and> (\<exists>e. add_code env i code (default_base i ds) b = (Inl e, b)) \<and> isl (builder_map src b)"
proof (intro conjI)
  have e: "append_node env n b = (Inl (Exn ValidationError (exn_msg x)), b)"
    if "res_bind (checked_base (base n)) (\<lambda>c. checked_kind env c (kind n)) = Inl x" for n x
    by (simp add: append_node_def construct_def that)
  have err: "\<exists>x. res_bind (checked_base c) (\<lambda>c. checked_kind env c k) = Inl x" if "\<And>c'. cid c' = cid c \<Longrightarrow> input_schema c' = input_schema c \<Longrightarrow> \<exists>x. checked_kind env c' k = Inl x" for c k
    using that by (cases "checked_base c") (auto simp: checked_base_def no_self_dependency_def range_error_def split: if_splits)
  have "\<exists>x. checked_kind env c (KAgent (no_agent_fields\<lparr>ag_package := package\<rparr>)) = Inl x" for c
    by (auto simp: no_agent_fields_def validate_agent_attr_def sync_agent_def empty_llm_config_def nonempty_opt_def Let_def)
  then show "\<exists>e. add_agent env i package no_agent_fields (default_base i ds) b = (Inl e, b)"
    using err e unfolding add_agent_def by (metis node.sel)
  have "\<exists>x. checked_kind env c (KRecursive \<lparr>rc_sources = [], rc_condition = cond, rc_max_iterations = 50, rc_agent_package = ap,
      rc_workflow_ref = wr, rc_preserve = True, rc_context_key = ''recursive_context''\<rparr>) = Inl x" for c
    by (auto simp: validate_recursive_def)
  then show "\<exists>e. add_recursive env i \<lparr>rc_sources = [], rc_condition = cond, rc_max_iterations = 50, rc_agent_package = ap, rc_workflow_ref = wr,
          rc_preserve = True, rc_context_key = ''recursive_context''\<rparr> (default_base i ds) b = (Inl e, b)"
    using err e unfolding add_recursive_def by (metis node.sel)
  have "\<exists>x. checked_kind env c (KCode (Some code)) = Inl x" if "input_schema c = SDict []" for c
    using that by (cases "validate_code_source (wv_inline env) c (Some code)") (auto simp: require_code_schemas_def)
  moreover have "input_schema (named_base i (default_base i ds)) = SDict []" by (simp add: named_base_def default_base_def)
  ultimately show "\<exists>e. add_code env i code (default_base i ds) b = (Inl e, b)"
    using err e unfolding add_code_def by (metis node.sel)
qed (simp add: builder_map_def)

text \<open>The documentation promises \<open>csv_reader\<close>.\<close>

lemma snake_name_of_acronym: "snake_name ''CSVReaderTool'' = ''c_s_v_reader''"
  by code_simp

section \<open>Instances\<close>

definition demo_builder_env :: builder_env where
  "demo_builder_env = \<lparr>wv_inline = False, wv_check = (\<lambda>d. None), wv_rest = (\<lambda>n. [])\<rparr>"

definition two_tools :: wf_builder where
  "two_tools = connect ''a'' ''b'' (snd (add_tool demo_builder_env ''b'' ''t'' []
     (snd (add_tool demo_builder_env ''a'' ''t'' [] (builder_new ''demo'')))))"

definition open_bp_env :: "nat bp_env" where
  "open_bp_env = demo_bps\<lparr>be_tools := ([], []), be_agents := ([], [])\<rparr>"

definition one_tool :: "nat registry" where
  "one_tool = put_factory FTool ''t'' ''tools:create_t'' registry_new"

theorem resolvable_is_allowed_witness:
  "validate_allowed open_bp_env (map (spec_of demo_builder_env) (wb_nodes (snd (builder_build demo_builder_env ''bp_1'' two_tools)))) one_tool
    = (Inr (), one_tool)"
proof (rule resolvable_is_allowed[of "\<lparr>po_tools = ([], []), po_agents = ([], [])\<rparr>"])
  have one_tool_has: "has_tool ''t'' one_tool" by code_simp
  have "map kind (wb_nodes two_tools) = [KTool ''t'' [], KTool ''t'' []]" by code_simp
  then have "map (\<lambda>n. node_issues \<lparr>po_tools = ([], []), po_agents = ([], [])\<rparr> one_tool (kind n)) (wb_nodes two_tools) = [[], []]"
    using one_tool_has by (auto simp: denied_def)
  then show "validate_resolvable \<lparr>po_tools = ([], []), po_agents = ([], [])\<rparr> one_tool two_tools = []"
    by (simp add: validate_resolvable_def)
qed (simp_all add: open_bp_env_def)

end
