(* ===== verification/Working.thy ===== *)
theory Working
  imports MemBase LruCache
begin

text \<open>
  Working memory (\<open>src/ice_core/memory/working_memory_store.py\<close>): an \<open>OrderedDict\<close> whose first
  entry goes when there are too many, with entries that expire. Prometheus counters and the timer of
  the clean-up task are left out; what the task does each time is \<open>work_cleanup\<close>.
\<close>

record work_mem =
  wm_config :: mem_config
  wm_store :: "mem_entry dict"
  wm_tokens :: int
  wm_cost :: rat

definition work_new :: "mem_config option \<Rightarrow> work_mem" where
  "work_new c = \<lparr>wm_config = (case c of None \<Rightarrow> mem_config_default\<lparr>mc_backend := ''memory'', mc_ttl := Some 300\<rparr> | Some c \<Rightarrow> c),
     wm_store = [], wm_tokens = 0, wm_cost = 0\<rparr>"

text \<open>A time to live of 0 is none.\<close>

definition expired :: "mem_config \<Rightarrow> rat \<Rightarrow> mem_entry \<Rightarrow> bool" where
  "expired cfg now e \<longleftrightarrow> (case mc_ttl cfg of None \<Rightarrow> False | Some t \<Rightarrow> t \<noteq> 0 \<and> of_int t < now - me_time e)"

definition work_cleanup :: "rat \<Rightarrow> work_mem \<Rightarrow> work_mem" where
  "work_cleanup now w = w\<lparr>wm_store := filter (\<lambda>(k, e). \<not> expired (wm_config w) now e) (wm_store w)\<rparr>"

text \<open>\<open>popitem(last=False)\<close> until the length fits; below a negative limit the dictionary runs empty.\<close>

fun trim_oldest :: "int \<Rightarrow> mem_entry dict \<Rightarrow> mem_entry dict effect" where
  "trim_oldest m [] = ([], if m < 0 then Some (Exn KeyError ''dictionary is empty'') else None)"
| "trim_oldest m (p # d) = (if m < int (length (p # d)) then trim_oldest m d else (p # d, None))"

definition enforce_size :: "int option \<Rightarrow> mem_entry dict \<Rightarrow> mem_entry dict effect" where
  "enforce_size m d = (case m of None \<Rightarrow> (d, None) | Some m \<Rightarrow> if m = 0 then (d, None) else trim_oldest m d)"

definition work_store :: "rat \<Rightarrow> string \<Rightarrow> val \<Rightarrow> val dict option \<Rightarrow> (work_mem, unit) act" where
  "work_store now k c md w =
     (let e = entry_new k c (meta_or_empty md) now (content_tokens c) (content_cost c);
          (d, x) = enforce_size (mc_max (wm_config w)) (dict_pop k (wm_store w) @ [(k, e)])
      in (case x of None \<Rightarrow> Inr () | Some e \<Rightarrow> Inl e,
          w\<lparr>wm_store := d, wm_tokens := wm_tokens w + content_tokens c, wm_cost := wm_cost w + content_cost c\<rparr>))"

definition work_retrieve :: "rat \<Rightarrow> string \<Rightarrow> (work_mem, mem_entry option) act" where
  "work_retrieve now k w = (case dict_get (wm_store w) k of
       None \<Rightarrow> (Inr None, w)
     | Some e \<Rightarrow> if expired (wm_config w) now e then (Inr None, w\<lparr>wm_store := dict_pop k (wm_store w)\<rparr>)
         else (let e' = e\<lparr>me_access := me_access e + 1\<rparr> in (Inr (Some e'), w\<lparr>wm_store := dict_pop k (wm_store w) @ [(k, e')]\<rparr>)))"

definition work_matches :: "mem_env \<Rightarrow> string \<Rightarrow> val dict option \<Rightarrow> mem_entry \<Rightarrow> bool" where
  "work_matches env query filters e \<longleftrightarrow> str_contains (str_lower query) (str_lower (mv_text env (me_content e)))
     \<and> list_all (\<lambda>(k, v). py_eq (meta_get (me_meta e) k) v) (meta_or_empty filters)"

text \<open>A loop that collects: the limit is looked at after an entry was added.\<close>

fun collect_up_to :: "('a \<Rightarrow> bool) \<Rightarrow> int \<Rightarrow> 'a list \<Rightarrow> 'a list \<Rightarrow> 'a list" where
  "collect_up_to ok mx out [] = out"
| "collect_up_to ok mx out (x # xs) =
     (if \<not> ok x then collect_up_to ok mx out xs
      else if mx \<le> int (length (out @ [x])) then out @ [x] else collect_up_to ok mx (out @ [x]) xs)"

definition work_search :: "mem_env \<Rightarrow> rat \<Rightarrow> string \<Rightarrow> int \<Rightarrow> val dict option \<Rightarrow> work_mem \<Rightarrow> mem_entry list" where
  "work_search env now query mx filters w =
     collect_up_to (\<lambda>e. \<not> expired (wm_config w) now e \<and> work_matches env query filters e) mx [] (map snd (wm_store w))"

definition work_delete :: "string \<Rightarrow> (work_mem, bool) act" where
  "work_delete k w = (if dict_get (wm_store w) k \<noteq> None then (Inr True, w\<lparr>wm_store := dict_pop k (wm_store w)\<rparr>) else (Inr False, w))"

definition work_clear :: "string option \<Rightarrow> work_mem \<Rightarrow> nat \<times> work_mem" where
  "work_clear pattern w = (length (filter (\<lambda>p. selected pattern (fst p)) (wm_store w)),
     w\<lparr>wm_store := filter (\<lambda>p. \<not> selected pattern (fst p)) (wm_store w)\<rparr>)"

definition work_list_keys :: "string option \<Rightarrow> int \<Rightarrow> work_mem \<Rightarrow> string list" where
  "work_list_keys pattern mx w = collect_up_to (selected pattern) mx [] (dict_keys (wm_store w))"

definition work_stats :: "work_mem \<Rightarrow> int \<times> rat" where
  "work_stats w = (wm_tokens w, wm_cost w)"

section \<open>Contract\<close>

definition fits :: "mem_config \<Rightarrow> nat \<Rightarrow> bool" where
  "fits cfg n \<longleftrightarrow> (case mc_max cfg of None \<Rightarrow> True | Some m \<Rightarrow> m \<le> 0 \<or> int n \<le> m)"

definition work_inv :: "work_mem \<Rightarrow> bool" where
  "work_inv w \<longleftrightarrow> dict_wf (wm_store w) \<and> fits (wm_config w) (length (wm_store w))
     \<and> (\<forall>t. mc_ttl (wm_config w) = Some t \<longrightarrow> 0 \<le> t) \<and> (\<forall>(k, e) \<in> set (wm_store w). me_key e = k)"

lemma trim_positive: "0 \<le> m \<Longrightarrow> trim_oldest m d = (drop (length d - nat m) d, None)"
proof (induction d)
  case (Cons p d)
  then show ?case by (cases "m < int (length (p # d))") (auto simp: Suc_diff_le nat_le_iff zle_int)
qed simp

lemma trim_negative: "m < 0 \<Longrightarrow> trim_oldest m d = ([], Some (Exn KeyError ''dictionary is empty''))"
  by (induction d) auto

lemma enforce_size_ok:
  "enforce_size m d = (d', None) \<Longrightarrow> \<exists>n. d' = drop n d \<and> (n = 0 \<or> n < length d) \<and> (\<forall>x. m = Some x \<longrightarrow> 0 < x \<longrightarrow> int (length d') \<le> x)"
proof -
  assume e: "enforce_size m d = (d', None)"
  consider "m = None \<or> m = Some 0" | x where "m = Some x" "x < 0" | x where "m = Some x" "0 < x" by (metis not_less_iff_gr_or_eq option.exhaust)
  then show ?thesis
  proof cases
    case 1
    then show ?thesis using e by (intro exI[of _ 0]) (auto simp: enforce_size_def)
  next
    case 2
    then show ?thesis using e by (simp add: enforce_size_def trim_negative)
  next
    case (3 x)
    then show ?thesis using e by (intro exI[of _ "length d - nat x"]) (auto simp: enforce_size_def trim_positive)
  qed
qed

lemma collect_up_to_take:
  "int (length out) < mx \<Longrightarrow> collect_up_to ok mx out xs = out @ take (nat mx - length out) (filter ok xs)"
proof (induction xs arbitrary: out)
  case (Cons x xs)
  show ?case
  proof (cases "ok x")
    case True
    have n: "nat mx - length out = Suc (nat mx - Suc (length out))" using Cons.prems by auto
    show ?thesis
    proof (cases "mx \<le> int (length (out @ [x]))")
      case True
      then have "nat mx - Suc (length out) = 0" by simp
      then show ?thesis using \<open>ok x\<close> True unfolding n by simp
    next
      case False
      then have "collect_up_to ok mx (out @ [x]) xs = (out @ [x]) @ take (nat mx - length (out @ [x])) (filter ok xs)"
        by (intro Cons.IH) auto
      then show ?thesis using False \<open>ok x\<close> unfolding n by simp
    qed
  qed (use Cons in auto)
qed simp

lemma work_list: "0 < mx \<Longrightarrow> work_list_keys p mx w = take (nat mx) (filter (selected p) (dict_keys (wm_store w)))"
  by (simp add: work_list_keys_def collect_up_to_take)

lemma work_store_ok:
  assumes "work_inv w" "work_store now k c md w = (Inr (), w')"
  defines "e \<equiv> entry_new k c (meta_or_empty md) now (content_tokens c) (content_cost c)"
  shows "\<exists>n. wm_store w' = drop n (dict_pop k (wm_store w)) @ [(k, e)]" "wm_config w' = wm_config w" "work_inv w'"
proof -
  let ?d = "dict_pop k (wm_store w) @ [(k, e)]"
  obtain n where n: "enforce_size (mc_max (wm_config w)) ?d = (wm_store w', None)" and cfg: "wm_config w' = wm_config w"
    using assms by (auto simp: work_store_def Let_def split: prod.splits option.splits)
  obtain n where d: "wm_store w' = drop n ?d" "n = 0 \<or> n < length ?d"
    and m: "\<And>x. mc_max (wm_config w) = Some x \<Longrightarrow> 0 < x \<Longrightarrow> int (length (wm_store w')) \<le> x"
    using enforce_size_ok[OF n] by blast
  then have w': "wm_store w' = drop n (dict_pop k (wm_store w)) @ [(k, e)]" by auto
  then show "\<exists>n. wm_store w' = drop n (dict_pop k (wm_store w)) @ [(k, e)]" by blast
  show "wm_config w' = wm_config w" by (rule cfg)
  have wf: "dict_wf (dict_pop k (wm_store w))" "k \<notin> set (dict_keys (dict_pop k (wm_store w)))"
    using assms(1) by (auto simp: work_inv_def dict_pop_def distinct_map_filter)
  have "dict_wf (drop n (dict_pop k (wm_store w)) @ [(k, e)])"
    using wf by (auto simp: drop_map[symmetric] dest: in_set_dropD)
  moreover have "fits (wm_config w) (length (wm_store w'))" using m by (simp add: fits_def split: option.split) (metis not_le)
  moreover have "me_key e = k" by (simp add: e_def entry_new_def)
  ultimately show "work_inv w'" using assms(1) unfolding work_inv_def cfg w'
    by (auto simp: dict_pop_def dest!: in_set_dropD)
qed

lemma work_drop_inv: "work_inv w \<Longrightarrow> work_inv (w\<lparr>wm_store := filter P (wm_store w)\<rparr>)"
proof -
  assume inv: "work_inv w"
  have "fits (wm_config w) (length (filter P (wm_store w)))"
    using inv length_filter_le[of P "wm_store w"] by (simp add: work_inv_def fits_def split: option.splits del: length_filter_le) linarith
  then show ?thesis using inv by (auto simp: work_inv_def distinct_map_filter)
qed

interpretation working: agent_memory work_inv "\<lambda>w. dict_keys (wm_store w)" work_store work_retrieve work_delete "work_list_keys None 100"
proof
  fix w now k c md w'
  assume inv: "work_inv w" and put: "work_store now k c md w = (Inr (), w')"
  obtain n where w': "wm_store w' = drop n (dict_pop k (wm_store w)) @ [(k, entry_new k c (meta_or_empty md) now (content_tokens c) (content_cost c))]"
    using work_store_ok(1)[OF inv put] by blast
  have "k \<notin> set (dict_keys (drop n (dict_pop k (wm_store w))))" by (auto simp: dict_pop_def dest: in_set_dropD)
  then have "dict_get (wm_store w') k = Some (entry_new k c (meta_or_empty md) now (content_tokens c) (content_cost c))"
    unfolding w' by (rule dict_get_snoc)
  moreover have "\<not> expired (wm_config w') now (entry_new k c (meta_or_empty md) now (content_tokens c) (content_cost c))"
    using work_store_ok(3)[OF inv put] by (auto simp: work_inv_def expired_def entry_new_def split: option.splits)
  ultimately show "\<exists>e s''. work_retrieve now k w' = (Inr (Some e), s'') \<and> me_key e = k \<and> me_content e = c"
    by (simp add: work_retrieve_def entry_new_def Let_def)
next
  fix w k
  assume inv: "work_inv w"
  show "\<exists>s'. work_delete k w = (Inr (k \<in> set (dict_keys (wm_store w))), s') \<and> work_inv s'
      \<and> dict_keys (wm_store s') = filter (\<lambda>x. x \<noteq> k) (dict_keys (wm_store w))"
  proof (cases "dict_get (wm_store w) k")
    case None
    then have k: "k \<notin> set (dict_keys (wm_store w))" by (rule iffD1[OF dict_get_eq_None])
    then have "filter (\<lambda>x. x \<noteq> k) (dict_keys (wm_store w)) = dict_keys (wm_store w)" by (metis (mono_tags, lifting) filter_True)
    moreover have "work_delete k w = (Inr False, w)" using None by (simp add: work_delete_def)
    ultimately show ?thesis using inv k by metis
  next
    case (Some e)
    then have "k \<in> set (dict_keys (wm_store w))" by (rule dict_get_keys)
    then show ?thesis using Some work_drop_inv[OF inv, of "\<lambda>p. fst p \<noteq> k"]
      by (simp add: work_delete_def dict_keys_pop) (simp add: dict_pop_def)
  qed
next
  show "work_list_keys None 100 w = take 100 (dict_keys (wm_store w))" for w by (simp add: work_list)
  show "work_inv w \<Longrightarrow> dict_wf (wm_store w)" for w by (simp add: work_inv_def)
qed

section \<open>Sequences of operations\<close>

datatype work_op = WStore rat string val "val dict option" | WRetrieve rat string | WDelete string
  | WClear "string option" | WCleanup rat

fun work_step :: "work_mem \<Rightarrow> work_op \<Rightarrow> work_mem" where
  "work_step w (WStore now k c md) = snd (work_store now k c md w)"
| "work_step w (WRetrieve now k) = snd (work_retrieve now k w)"
| "work_step w (WDelete k) = snd (work_delete k w)"
| "work_step w (WClear p) = snd (work_clear p w)"
| "work_step w (WCleanup now) = work_cleanup now w"

text \<open>What holds of the entries whatever the order of the operations: one per key, and no more than the limit.\<close>

definition work_ok :: "int \<Rightarrow> work_mem \<Rightarrow> bool" where
  "work_ok m w \<longleftrightarrow> mc_max (wm_config w) = Some m \<and> work_inv w"

lemma retrieve_inv: "work_inv w \<Longrightarrow> work_inv (snd (work_retrieve now k w))"
proof (cases "dict_get (wm_store w) k")
  case (Some e)
  assume inv: "work_inv w"
  let ?d = "dict_pop k (wm_store w)"
  have d: "dict_wf ?d" "k \<notin> set (dict_keys ?d)" "length ?d < length (wm_store w)" "me_key e = k"
    "\<forall>(k, e) \<in> set ?d. me_key e = k"
    using inv Some by (auto simp: work_inv_def dict_pop_def distinct_map_filter dest!: map_of_SomeD intro!: length_filter_less)
  have "fits (wm_config w) (length ?d)" "fits (wm_config w) (Suc (length ?d))"
    using inv d(3) by (auto simp: work_inv_def fits_def split: option.splits)
  then show ?thesis using inv d Some by (auto simp: work_retrieve_def work_inv_def Let_def)
qed (simp add: work_retrieve_def)

lemma work_step_ok: "0 < m \<Longrightarrow> work_ok m w \<Longrightarrow> work_ok m (work_step w a)"
proof (cases a)
  case (WStore now k c md)
  assume m: "0 < m" and ok: "work_ok m w"
  obtain d where "enforce_size (mc_max (wm_config w)) (dict_pop k (wm_store w) @ [(k, entry_new k c (meta_or_empty md) now (content_tokens c) (content_cost c))]) = (d, None)"
    using m ok by (simp add: work_ok_def enforce_size_def trim_positive)
  then have "fst (work_store now k c md w) = Inr ()" by (simp add: work_store_def Let_def)
  then show ?thesis using ok work_store_ok(2,3)[of w now k c md "snd (work_store now k c md w)"] WStore
    by (simp add: work_ok_def prod_eq_iff)
next
  case (WRetrieve now k)
  moreover have "wm_config (snd (work_retrieve now k w)) = wm_config w" by (simp add: work_retrieve_def Let_def split: option.split)
  ultimately show "work_ok m w \<Longrightarrow> work_ok m (work_step w a)" by (simp add: work_ok_def retrieve_inv)
qed (auto simp: work_ok_def work_delete_def work_clear_def work_cleanup_def dict_pop_def
    work_drop_inv Let_def split: option.splits)

interpretation work_run: machine work_step "\<lambda>w. 0 < m \<and> work_ok m w"
  by unfold_locales (blast intro: work_step_ok)

section \<open>A least-recently-used cache\<close>

text \<open>The contents, in order, are the entries of a cache whose capacity is the limit.\<close>

definition work_abs :: "int \<Rightarrow> work_mem \<Rightarrow> val lru" where
  "work_abs m w = \<lparr>capacity = m, store = map (\<lambda>(k, e). (k, me_content e)) (wm_store w)\<rparr>"

fun cache_ops :: "work_op \<Rightarrow> val cache_op list" where
  "cache_ops (WStore now k c md) = [CSet k c]"
| "cache_ops (WRetrieve now k) = [CGet k]"
| "cache_ops (WClear None) = [CClear]"
| "cache_ops _ = []"

definition cache_like :: "work_op \<Rightarrow> bool" where
  "cache_like a \<longleftrightarrow> (case a of WDelete k \<Rightarrow> False | WClear p \<Rightarrow> p = None | _ \<Rightarrow> True)"

definition never_expires :: "mem_config \<Rightarrow> bool" where
  "never_expires c \<longleftrightarrow> mc_ttl c = None \<or> mc_ttl c = Some 0"

lemma not_expired [simp]: "never_expires c \<Longrightarrow> \<not> expired c now e"
  by (auto simp: never_expires_def expired_def)

lemma dict_map_simps:
  "dict_get (map (\<lambda>(k, e). (k, f e)) d) k = map_option f (dict_get d k)"
  "dict_pop k (map (\<lambda>(k, e). (k, f e)) d) = map (\<lambda>(k, e). (k, f e)) (dict_pop k d)"
  by (induction d) (auto simp: dict_pop_def)

lemma trim_one: "0 < m \<Longrightarrow> int (length d) \<le> m + 1 \<Longrightarrow> trim_oldest m d = (if m < int (length d) then tl d else d, None)"
  by (cases d) (auto simp: trim_positive Suc_diff_le nat_le_iff)

lemma length_pop: "length (dict_pop k d) \<le> length d"
  by (simp add: dict_pop_def)

lemma store_refines:
  assumes "0 < m" "work_ok m w"
  shows "work_abs m (snd (work_store now k c md w)) = lru_set (work_abs m w) k c"
proof -
  let ?e = "entry_new k c (meta_or_empty md) now (content_tokens c) (content_cost c)"
  let ?d = "dict_pop k (wm_store w) @ [(k, ?e)]"
  have "int (length (wm_store w)) \<le> m" using assms by (auto simp: work_ok_def work_inv_def fits_def)
  then have "int (length ?d) \<le> m + 1" using length_pop[of k "wm_store w"] by simp
  then have "enforce_size (mc_max (wm_config w)) ?d = (if m < int (length ?d) then tl ?d else ?d, None)"
    using assms trim_one[OF assms(1), of ?d] by (simp add: work_ok_def enforce_size_def)
  then show ?thesis by (simp add: work_store_def work_abs_def lru_set_def dict_map_simps entry_new_def Let_def map_tl)
qed

lemma retrieve_refines:
  assumes "never_expires (wm_config w)"
  shows "map_option me_content (projr (fst (work_retrieve now k w))) = fst (lru_get (work_abs m w) k)
    \<and> work_abs m (snd (work_retrieve now k w)) = snd (lru_get (work_abs m w) k)"
  using assms by (simp add: work_retrieve_def lru_get_def work_abs_def dict_map_simps Let_def split: option.split)

lemma config_kept: "wm_config (work_step w a) = wm_config w"
  by (cases a) (auto simp: work_store_def work_retrieve_def work_delete_def work_clear_def work_cleanup_def Let_def split: prod.splits option.splits)

lemma cleanup_idle: "never_expires (wm_config w) \<Longrightarrow> work_cleanup now w = w"
  by (cases w) (simp add: work_cleanup_def case_prod_beta)

lemma step_refines:
  assumes "0 < m" "work_ok m w" "never_expires (wm_config w)" "cache_like a"
  shows "work_abs m (work_step w a) = foldl lru_step (work_abs m w) (cache_ops a)"
proof (cases a)
  case (WStore now k c md)
  then show ?thesis using store_refines[OF assms(1,2)] by simp
next
  case (WRetrieve now k)
  then show ?thesis using retrieve_refines[OF assms(3)] by simp
next
  case (WClear p)
  then show ?thesis using assms(4) by (simp add: cache_like_def work_clear_def work_abs_def lru_clear_def)
qed (use assms in \<open>simp_all add: cache_like_def cleanup_idle\<close>)

text \<open>(C38) Whatever is stored, retrieved, deleted and cleared: there are never more entries than a positive limit.
  Without a time to live, stores, retrievals and whole clearings do to the contents exactly what they do to
  a least-recently-used cache of that capacity, and a key reads what it reads there.\<close>

theorem working_memory_refines_lru:
  fixes as :: "work_op list"
  assumes "0 < m" "mc_max cfg = Some m" "\<forall>t. mc_ttl cfg = Some t \<longrightarrow> 0 \<le> t"
  defines "w \<equiv> foldl work_step (work_new (Some cfg)) as"
  shows "int (length (wm_store w)) \<le> m
    \<and> (never_expires cfg \<and> list_all cache_like as \<longrightarrow>
        (let c = foldl lru_step \<lparr>capacity = m, store = []\<rparr> (concat (map cache_ops as))
         in work_abs m w = c \<and> (\<forall>now k. map_option me_content (projr (fst (work_retrieve now k w))) = fst (lru_get c k))))"
proof
  have new: "work_ok m (work_new (Some cfg))" "wm_config (work_new (Some cfg)) = cfg"
    "work_abs m (work_new (Some cfg)) = \<lparr>capacity = m, store = []\<rparr>"
    using assms(1-3) by (simp_all add: work_ok_def work_new_def work_inv_def fits_def work_abs_def)
  have ok: "work_ok m (foldl work_step (work_new (Some cfg)) as)" for as
    using work_run.run_inv[of m "work_new (Some cfg)" as] assms(1) new(1) by blast
  have cfg: "wm_config (foldl work_step (work_new (Some cfg)) as) = cfg" for as
    by (induction as rule: rev_induct) (simp_all add: new(2) config_kept)
  show "int (length (wm_store w)) \<le> m"
    using ok[of as] assms(1) unfolding w_def by (auto simp: work_ok_def work_inv_def fits_def)
  have run: "work_abs m (foldl work_step (work_new (Some cfg)) as) = foldl lru_step \<lparr>capacity = m, store = []\<rparr> (concat (map cache_ops as))"
    if "never_expires cfg" "list_all cache_like as" for as
    using that(2)
  proof (induction as rule: rev_induct)
    case (snoc a as)
    then show ?case using step_refines[OF assms(1) ok[of as], of a] cfg[of as] that(1) by simp
  qed (simp add: new(3))
  show "never_expires cfg \<and> list_all cache_like as \<longrightarrow>
      (let c = foldl lru_step \<lparr>capacity = m, store = []\<rparr> (concat (map cache_ops as))
       in work_abs m w = c \<and> (\<forall>now k. map_option me_content (projr (fst (work_retrieve now k w))) = fst (lru_get c k)))"
    using run[of as] retrieve_refines[of w _ _ m] cfg[of as] unfolding w_def Let_def by auto
qed

theorem working_memory_refines_lru_witness:
  "let w = foldl work_step (work_new (Some \<lparr>mc_backend = ''memory'', mc_ttl = None, mc_max = Some 2, mc_vectors = False, mc_dim = 384\<rparr>))
       [WStore 0 ''a'' (VInt 1) None, WStore 1 ''b'' (VInt 2) None, WRetrieve 2 ''a'', WStore 3 ''c'' (VInt 3) None]
   in work_abs 2 w = \<lparr>capacity = 2, store = [(''a'', VInt 1), (''c'', VInt 3)]\<rparr>"
  using working_memory_refines_lru [of 2 "\<lparr>mc_backend = ''memory'', mc_ttl = None, mc_max = Some 2, mc_vectors = False, mc_dim = 384\<rparr>"
      "[WStore 0 ''a'' (VInt 1) None, WStore 1 ''b'' (VInt 2) None, WRetrieve 2 ''a'', WStore 3 ''c'' (VInt 3) None]"]
  by (simp add: never_expires_def cache_like_def Let_def lru_set_def lru_get_def dict_pop_def)


end
