(* ===== verification/Episodic.thy ===== *)
theory Episodic
  imports MemBase "HOL-Library.Multiset"
begin

text \<open>
  Episodic memory (\<open>src/ice_core/memory/episodic_memory_store.py\<close>). \<open>initialize\<close> awaits the answer
  of a synchronous Redis client, which is an exception, so the store is always the dictionary of the
  process: the lemma \<open>episodes_in_process\<close>. The operations are modelled on that store; their branches for a
  client are never reached.

  Parameters: the order in which Python walks through a set of keys, the hour of a time.
\<close>

record epi_mem =
  em_config :: mem_config
  em_initialized :: bool
  em_redis :: bool
  em_store :: "mem_entry dict"
  em_tokens :: int
  em_cost :: rat

definition epi_new :: "mem_config \<Rightarrow> epi_mem" where
  "epi_new c = \<lparr>em_config = c, em_initialized = False, em_redis = False, em_store = [], em_tokens = 0, em_cost = 0\<rparr>"

text \<open>\<open>ping\<close> of the client: a truth value, or an exception. The first argument says whether the library is there.\<close>

definition await_bool :: "bool \<Rightarrow> unit res" where
  "await_bool b = Inl (Exn TypeError (''object bool can'' @ [CHR 39] @ ''t be used in '' @ sq ''await'' @ '' expression''))"

definition epi_initialize :: "bool \<Rightarrow> bool res \<Rightarrow> epi_mem \<Rightarrow> epi_mem" where
  "epi_initialize lib ping m =
     (if em_initialized m then m
      else case (if lib then res_bind ping await_bool else Inl (Exn (OtherError ''ImportError'') ''Redis library not installed'')) of
             Inr u \<Rightarrow> m\<lparr>em_redis := True, em_initialized := True\<rparr>
           | Inl e \<Rightarrow> m\<lparr>em_redis := False, em_store := [], em_initialized := True\<rparr>)"

lemma episodes_in_process: "\<not> em_redis m \<Longrightarrow> \<not> em_redis (epi_initialize lib ping m)"
  by (cases ping) (simp_all add: epi_initialize_def await_bool_def)

definition episode_meta :: "val dict \<Rightarrow> val dict" where
  "episode_meta md = dict_union md
     [(''episode_type'', dict_get_or md ''type'' (VStr ''conversation'')),
      (''participants'', dict_get_or md ''participants'' (VList [])),
      (''outcome'', dict_get_or md ''outcome'' (VStr ''ongoing'')),
      (''sentiment'', dict_get_or md ''sentiment'' (VStr ''neutral'')),
      (''tags'', dict_get_or md ''tags'' (VList []))]"

definition epi_store :: "rat \<Rightarrow> string \<Rightarrow> val \<Rightarrow> val dict option \<Rightarrow> (epi_mem, unit) act" where
  "epi_store now k c md m = (Inr (), m\<lparr>
     em_store := dict_set k (entry_new k c (episode_meta (meta_or_empty md)) now (content_tokens c) (content_cost c)) (em_store m),
     em_tokens := em_tokens m + content_tokens c, em_cost := em_cost m + content_cost c\<rparr>)"

definition epi_retrieve :: "rat \<Rightarrow> string \<Rightarrow> (epi_mem, mem_entry option) act" where
  "epi_retrieve now k m = (Inr (dict_get (em_store m) k), m)"

definition epi_delete :: "string \<Rightarrow> (epi_mem, bool) act" where
  "epi_delete k m = (Inr (dict_get (em_store m) k \<noteq> None), m\<lparr>em_store := dict_pop k (em_store m)\<rparr>)"

definition epi_clear :: "string option \<Rightarrow> epi_mem \<Rightarrow> nat \<times> epi_mem" where
  "epi_clear pattern m = (length (filter (\<lambda>p. selected pattern (fst p)) (em_store m)),
     m\<lparr>em_store := filter (\<lambda>p. \<not> selected pattern (fst p)) (em_store m)\<rparr>)"

definition epi_list_keys :: "string option \<Rightarrow> int \<Rightarrow> epi_mem \<Rightarrow> string list" where
  "epi_list_keys pattern mx m = slice_to mx (filter (selected pattern) (dict_keys (em_store m)))"

section \<open>Search\<close>

text \<open>\<open>all(tag in set(tags) for tag in wanted)\<close>\<close>

fun all_in :: "val list \<Rightarrow> val list \<Rightarrow> bool res" where
  "all_in [] s = Inr True"
| "all_in (t # ts) s = res_bind (hash_key t) (\<lambda>k. if k \<in> set s then all_in ts s else Inr False)"

definition epi_matches :: "mem_env \<Rightarrow> string \<Rightarrow> val dict \<Rightarrow> mem_entry \<Rightarrow> bool res" where
  "epi_matches env query filters e =
     (if query \<noteq> '''' \<and> \<not> str_contains (str_lower query) (str_lower (mv_text env (me_content e))) then Inr False
      else wants filters ''type'' (\<lambda>v. Inr (py_eq (meta_get (me_meta e) ''episode_type'') v))
          (wants filters ''participant'' (\<lambda>v. py_in v (dict_get_or (me_meta e) ''participants'' (VList [])))
          (wants filters ''tags'' (\<lambda>v. res_bind (res_bind (py_iter (dict_get_or (me_meta e) ''tags'' (VList []))) (res_map hash_key)) (\<lambda>s.
               res_bind (py_iter v) (\<lambda>ts. all_in ts s)))
          (wants filters ''outcome'' (\<lambda>v. Inr (py_eq (meta_get (me_meta e) ''outcome'') v)) (Inr True)))))"

definition epi_search ::
  "mem_env \<Rightarrow> (string list \<Rightarrow> string list) \<Rightarrow> string \<Rightarrow> int \<Rightarrow> val dict option \<Rightarrow> epi_mem \<Rightarrow> mem_entry list res" where
  "epi_search env order query mx filters m =
     res_bind (res_filter (\<lambda>(k, e). epi_matches env query (meta_or_empty filters) e) (em_store m)) (\<lambda>found.
     Inr (slice_to mx (sort_desc me_time (map (\<lambda>k. the (dict_get (em_store m) k)) (slice_to mx (order (dict_keys found)))))))"

definition conversation_history :: "mem_env \<Rightarrow> (string list \<Rightarrow> string list) \<Rightarrow> string \<Rightarrow> int \<Rightarrow> epi_mem \<Rightarrow> mem_entry list res" where
  "conversation_history env order participant mx m = epi_search env order '''' mx (Some [(''participant'', VStr participant)]) m"

definition type_filter :: "string option \<Rightarrow> val dict" where
  "type_filter t = (case t of None \<Rightarrow> [] | Some s \<Rightarrow> if s = '''' then [] else [(''type'', VStr s)])"

definition recent_episodes ::
  "mem_env \<Rightarrow> (string list \<Rightarrow> string list) \<Rightarrow> rat \<Rightarrow> int \<Rightarrow> string option \<Rightarrow> epi_mem \<Rightarrow> mem_entry list res" where
  "recent_episodes env order now hours t m =
     res_bind (epi_search env order '''' 100 (Some (type_filter t)) m) (\<lambda>es.
     Inr (filter (\<lambda>e. now - of_int hours * 3600 \<le> me_time e) es))"

section \<open>Patterns\<close>

definition count_key :: "val \<Rightarrow> (val \<times> int) list \<Rightarrow> (val \<times> int) list res" where
  "count_key v d = res_bind (hash_key v) (\<lambda>k. Inr (dict_set k (dict_get_or d k 0 + 1) d))"

fun count_keys :: "val list \<Rightarrow> (val \<times> int) list \<Rightarrow> (val \<times> int) list res" where
  "count_keys [] d = Inr d"
| "count_keys (v # vs) d = res_bind (count_key v d) (count_keys vs)"

datatype insight = SuccessRate rat | HighPositive | PeakHour nat

record tallies =
  tl_outcomes :: "(val \<times> int) list"
  tl_sentiments :: "(val \<times> int) list"
  tl_tags :: "(val \<times> int) list"
  tl_hours :: "int list"

definition tally :: "(rat \<Rightarrow> nat) \<Rightarrow> tallies \<Rightarrow> mem_entry \<Rightarrow> tallies res" where
  "tally hour t e =
     res_bind (count_key (dict_get_or (me_meta e) ''outcome'' (VStr ''unknown'')) (tl_outcomes t)) (\<lambda>os.
     res_bind (count_key (dict_get_or (me_meta e) ''sentiment'' (VStr ''neutral'')) (tl_sentiments t)) (\<lambda>ss.
     res_bind (py_iter (dict_get_or (me_meta e) ''tags'' (VList []))) (\<lambda>tags.
     res_bind (count_keys tags (tl_tags t)) (\<lambda>ts.
     Inr \<lparr>tl_outcomes = os, tl_sentiments = ss, tl_tags = ts,
       tl_hours = (tl_hours t)[hour (me_time e) := tl_hours t ! hour (me_time e) + 1]\<rparr>))))"

fun tally_all :: "(rat \<Rightarrow> nat) \<Rightarrow> mem_entry list \<Rightarrow> tallies \<Rightarrow> tallies res" where
  "tally_all hour [] t = Inr t"
| "tally_all hour (e # es) t = res_bind (tally hour t e) (tally_all hour es)"

definition no_tallies :: tallies where
  "no_tallies = \<lparr>tl_outcomes = [], tl_sentiments = [], tl_tags = [], tl_hours = replicate 24 0\<rparr>"

fun first_index :: "'a \<Rightarrow> 'a list \<Rightarrow> nat" where
  "first_index x [] = 0"
| "first_index x (y # ys) = (if x = y then 0 else Suc (first_index x ys))"

definition insights_of :: "int \<Rightarrow> tallies \<Rightarrow> insight list" where
  "insights_of n t =
     (let good = dict_get_or (tl_outcomes t) (VStr ''success'') 0 + dict_get_or (tl_outcomes t) (VStr ''sale'') 0;
          positive = dict_get_or (tl_sentiments t) (VStr ''positive'') 0; peak = Max (set (tl_hours t))
      in (if 0 < n then [SuccessRate (of_int good / of_int n * 100)] else [])
         @ (if 0 < n \<and> 7/10 < (of_int positive :: rat) / of_int n then [HighPositive] else [])
         @ (if (of_int n :: rat) * (1/10) < of_int peak then [PeakHour (first_index peak (tl_hours t))] else []))"

record pattern_report =
  pr_total :: nat
  pr_outcomes :: "(val \<times> int) list"
  pr_sentiments :: "(val \<times> int) list"
  pr_tags :: "(val \<times> int) list"
  pr_hours :: "int list"
  pr_insights :: "insight list"

definition analyze_patterns ::
  "mem_env \<Rightarrow> (string list \<Rightarrow> string list) \<Rightarrow> (rat \<Rightarrow> nat) \<Rightarrow> string option \<Rightarrow> string option \<Rightarrow> epi_mem \<Rightarrow> pattern_report option res" where
  "analyze_patterns env order hour participant t m =
     res_bind (epi_search env order '''' 100
       (Some ((case participant of None \<Rightarrow> [] | Some p \<Rightarrow> if p = '''' then [] else [(''participant'', VStr p)]) @ type_filter t)) m) (\<lambda>es.
     if es = [] then Inr None
     else res_bind (tally_all hour es no_tallies) (\<lambda>r. Inr (Some \<lparr>pr_total = length es, pr_outcomes = tl_outcomes r,
       pr_sentiments = tl_sentiments r, pr_tags = take 5 (sort_desc snd (tl_tags r)), pr_hours = tl_hours r,
       pr_insights = insights_of (int (length es)) r\<rparr>)))"

section \<open>Contract\<close>

definition epi_inv :: "epi_mem \<Rightarrow> bool" where
  "epi_inv m \<longleftrightarrow> dict_wf (em_store m)"

lemma filter_absent: "k \<notin> set xs \<Longrightarrow> filter (\<lambda>x. x \<noteq> k) xs = xs"
  by (metis (mono_tags, lifting) filter_True)

interpretation episodic: agent_memory epi_inv "\<lambda>m. dict_keys (em_store m)" epi_store epi_retrieve epi_delete "epi_list_keys None 100"
proof
  fix m now k c md m'
  show "epi_store now k c md m = (Inr (), m') \<Longrightarrow> \<exists>e s''. epi_retrieve now k m' = (Inr (Some e), s'') \<and> me_key e = k \<and> me_content e = c"
    by (auto simp: epi_store_def epi_retrieve_def entry_new_def)
  have "dict_get (em_store m) k \<noteq> None \<longleftrightarrow> k \<in> set (dict_keys (em_store m))" by (simp add: dict_get_eq_None)
  then show "epi_inv m \<Longrightarrow> \<exists>s'. epi_delete k m = (Inr (k \<in> set (dict_keys (em_store m))), s') \<and> epi_inv s'
      \<and> dict_keys (em_store s') = filter (\<lambda>x. x \<noteq> k) (dict_keys (em_store m))"
    by (simp add: epi_delete_def epi_inv_def dict_keys_pop)
qed (simp_all add: epi_list_keys_def slice_to_def epi_inv_def)

section \<open>Properties\<close>

definition found_keys :: "mem_env \<Rightarrow> string \<Rightarrow> val dict option \<Rightarrow> epi_mem \<Rightarrow> string list res" where
  "found_keys env query filters m = res_bind (res_filter (\<lambda>(k, e). epi_matches env query (meta_or_empty filters) e) (em_store m)) (\<lambda>d. Inr (dict_keys d))"

definition shuffles :: "(string list \<Rightarrow> string list) \<Rightarrow> bool" where
  "shuffles order \<longleftrightarrow> (\<forall>ks. mset (order ks) = mset ks)"

lemma epi_search_eq:
  assumes "epi_search env order query mx filters m = Inr es" "0 \<le> mx"
  obtains ks where "found_keys env query filters m = Inr ks"
    "es = sort_desc me_time (map (\<lambda>k. the (dict_get (em_store m) k)) (take (nat mx) (order ks)))"
    "ks = map fst (filter (\<lambda>(k, e). epi_matches env query (meta_or_empty filters) e = Inr True) (em_store m))"
proof -
  obtain found where f: "res_filter (\<lambda>(k, e). epi_matches env query (meta_or_empty filters) e) (em_store m) = Inr found"
    and es: "es = slice_to mx (sort_desc me_time (map (\<lambda>k. the (dict_get (em_store m) k)) (slice_to mx (order (dict_keys found)))))"
    using assms(1) by (auto simp: epi_search_def res_bind_Inr_iff)
  have "found = filter (\<lambda>(k, e). epi_matches env query (meta_or_empty filters) e = Inr True) (em_store m)"
    using res_filter_Inr[OF f] by (simp add: case_prod_unfold)
  moreover have "es = sort_desc me_time (map (\<lambda>k. the (dict_get (em_store m) k)) (take (nat mx) (order (dict_keys found))))"
    using assms(2) unfolding es by (simp add: slice_to_take)
  ultimately show ?thesis using that f by (simp add: found_keys_def)
qed

lemma length_without: "distinct xs \<Longrightarrow> x \<in> set xs \<Longrightarrow> length (filter (\<lambda>y. y \<noteq> x) xs) = length xs - 1"
  by (induction xs) (auto simp: filter_absent, metis Suc_pred length_pos_if_in_set One_nat_def)

text \<open>A search returns stored episodes that match, as many as match up to the limit, the newest first.\<close>

theorem episodic_search_sound:
  assumes "epi_search env order query mx filters m = Inr es" "0 \<le> mx" "shuffles order" "epi_inv m"
  shows "(\<forall>e \<in> set es. e \<in> snd ` set (em_store m) \<and> epi_matches env query (meta_or_empty filters) e = Inr True)
    \<and> length es = min (nat mx) (length (filter (\<lambda>p. epi_matches env query (meta_or_empty filters) (snd p) = Inr True) (em_store m)))
    \<and> sorted (rev (map me_time es))"
proof -
  obtain ks where es: "es = sort_desc me_time (map (\<lambda>k. the (dict_get (em_store m) k)) (take (nat mx) (order ks)))"
    and ks: "ks = map fst (filter (\<lambda>(k, e). epi_matches env query (meta_or_empty filters) e = Inr True) (em_store m))"
    by (rule epi_search_eq[OF assms(1,2)])
  have perm: "set (order ks) = set ks" "length (order ks) = length ks"
    using assms(3) by (metis shuffles_def set_mset_mset, metis shuffles_def size_mset)
  have "e \<in> snd ` set (em_store m) \<and> epi_matches env query (meta_or_empty filters) e = Inr True" if "e \<in> set es" for e
  proof -
    obtain k where k: "k \<in> set ks" "e = the (dict_get (em_store m) k)"
      using \<open>e \<in> set es\<close> perm(1) by (auto simp: es dest: in_set_takeD)
    then obtain e' where e': "(k, e') \<in> set (em_store m)" "epi_matches env query (meta_or_empty filters) e' = Inr True" by (auto simp: ks)
    then have "dict_get (em_store m) k = Some e'" using assms(4) by (simp add: epi_inv_def)
    then show ?thesis using k(2) e' by force
  qed
  moreover have "length es = min (nat mx) (length ks)" by (simp add: es perm(2) min.commute)
  moreover have "sorted (rev (map me_time es))" unfolding es by (rule sorted_sort_desc)
  ultimately show ?thesis by (simp add: ks case_prod_unfold)
qed

text \<open>The limit cuts off the keys before their episodes are put in order: of more than a hundred episodes, any one can be
  missing from the recent ones, however recent it is; which one is up to the order in which Python walks through a set.\<close>

theorem recent_episode_may_be_missed:
  assumes "found_keys env '''' (Some (type_filter t)) m = Inr ks" "100 < length ks" "k \<in> set ks" "epi_inv m"
    and "\<forall>(k, e) \<in> set (em_store m). me_key e = k"
  shows "\<exists>order. shuffles order \<and> (\<exists>es. recent_episodes env order now hours t m = Inr es \<and> k \<notin> me_key ` set es)"
proof (intro exI conjI)
  let ?order = "\<lambda>ks. filter (\<lambda>x. x \<noteq> k) ks @ filter (\<lambda>x. x = k) ks"
  show "shuffles ?order" by (auto simp: shuffles_def)
  obtain found where f: "res_filter (\<lambda>(k, e). epi_matches env '''' (type_filter t) e) (em_store m) = Inr found" "ks = dict_keys found"
    using assms(1) by (auto simp: found_keys_def res_bind_Inr_iff meta_or_empty_def)
  let ?es = "sort_desc me_time (map (\<lambda>k. the (dict_get (em_store m) k)) (take 100 (?order ks)))"
  have es: "epi_search env ?order '''' 100 (Some (type_filter t)) m = Inr ?es"
    using f by (simp add: epi_search_def meta_or_empty_def slice_to_def)
  then show "recent_episodes env ?order now hours t m = Inr (filter (\<lambda>e. now - of_int hours * 3600 \<le> me_time e) ?es)"
    by (simp add: recent_episodes_def)
  have found: "found = filter (\<lambda>(k, e). epi_matches env '''' (type_filter t) e = Inr True) (em_store m)"
    using res_filter_Inr[OF f(1)] by (simp add: case_prod_unfold)
  have "distinct ks" using assms(4) by (simp add: f(2) found epi_inv_def distinct_map_filter)
  then have "length (filter (\<lambda>x. x \<noteq> k) ks) = length ks - 1"
    using assms(3) by (rule length_without)
  then have out: "k \<notin> set (take 100 (?order ks))" using assms(2) by (auto dest: in_set_takeD)
  have key: "me_key (the (dict_get (em_store m) x)) = x" if x: "x \<in> set ks" for x
  proof -
    obtain e where "(x, e) \<in> set (em_store m)" using x unfolding f(2) found by auto
    then show ?thesis using assms(4,5) by (force simp: epi_inv_def)
  qed
  have sub: "set (take 100 (?order ks)) \<subseteq> set ks" using set_take_subset[of 100 "?order ks"] by auto
  have "me_key (the (dict_get (em_store m) x)) \<noteq> k" if x: "x \<in> set (take 100 (?order ks))" for x
    unfolding key[OF subsetD[OF sub x]] using out x by metis
  then show "k \<notin> me_key ` set (filter (\<lambda>e. now - of_int hours * 3600 \<le> me_time e) ?es)"
    by (simp only: set_filter set_sort_desc set_map image_iff mem_Collect_eq bex_simps) metis
qed


text \<open>What the analysis counts.\<close>

definition counted :: "(val \<times> int) list \<Rightarrow> int" where
  "counted d = sum_list (map snd d)"

lemma counted_set: "counted (dict_set k (dict_get_or d k 0 + 1) d) = counted d + 1"
  by (induction d) (auto simp: counted_def dict_get_or_def)

lemma count_key_counted: "count_key v d = Inr d' \<Longrightarrow> counted d' = counted d + 1"
  by (auto simp: count_key_def res_bind_Inr_iff counted_set)

definition counts_ok :: "(val \<times> int) list \<Rightarrow> bool" where
  "counts_ok d \<longleftrightarrow> dict_wf d \<and> list_all (\<lambda>p. 0 \<le> snd p) d"

lemma counts_get: "list_all (\<lambda>p. 0 \<le> snd p) d \<Longrightarrow> 0 \<le> dict_get_or d k (0::int)"
  by (induction d) (auto simp: dict_get_or_def)

lemma counts_set: "list_all (\<lambda>p. 0 \<le> snd p) d \<Longrightarrow> 0 \<le> (x::int) \<Longrightarrow> list_all (\<lambda>p. 0 \<le> snd p) (dict_set k x d)"
  by (induction d) auto

lemma count_key_ok: "count_key v d = Inr d' \<Longrightarrow> counts_ok d \<Longrightarrow> counts_ok d'"
  by (auto simp: count_key_def res_bind_Inr_iff counts_ok_def intro!: counts_set add_nonneg_nonneg counts_get)

definition tallies_ok :: "int \<Rightarrow> tallies \<Rightarrow> bool" where
  "tallies_ok n t \<longleftrightarrow> counted (tl_outcomes t) = n \<and> counted (tl_sentiments t) = n \<and> length (tl_hours t) = 24 \<and> sum_list (tl_hours t) = n
     \<and> counts_ok (tl_outcomes t)"

lemma sum_list_inc: "i < length xs \<Longrightarrow> sum_list (xs[i := xs ! i + 1]) = sum_list xs + (1::int)"
  by (induction xs arbitrary: i) (auto simp: less_Suc_eq_0_disj)

lemma tally_ok:
  assumes "tally hour t e = Inr t'" "\<And>x. hour x < 24" "tallies_ok n t"
  shows "tallies_ok (n + 1) t'"
proof -
  obtain os ss ts where t': "count_key (dict_get_or (me_meta e) ''outcome'' (VStr ''unknown'')) (tl_outcomes t) = Inr os"
    "count_key (dict_get_or (me_meta e) ''sentiment'' (VStr ''neutral'')) (tl_sentiments t) = Inr ss"
    "t' = \<lparr>tl_outcomes = os, tl_sentiments = ss, tl_tags = ts, tl_hours = (tl_hours t)[hour (me_time e) := tl_hours t ! hour (me_time e) + 1]\<rparr>"
    using assms(1) by (auto simp: tally_def res_bind_Inr_iff)
  then show ?thesis using assms(2,3) count_key_counted[OF t'(1)] count_key_counted[OF t'(2)] count_key_ok[OF t'(1)]
    by (simp add: tallies_ok_def sum_list_inc)
qed

lemma tally_all_ok: "tally_all hour es t = Inr t' \<Longrightarrow> (\<And>x. hour x < 24) \<Longrightarrow> tallies_ok n t \<Longrightarrow> tallies_ok (n + int (length es)) t'"
proof (induction es arbitrary: t n)
  case (Cons e es)
  then obtain t1 where t1: "tally hour t e = Inr t1" "tally_all hour es t1 = Inr t'" by (auto simp: res_bind_Inr_iff)
  have "tallies_ok (n + 1 + int (length es)) t'" by (rule Cons.IH[OF t1(2) Cons.prems(2) tally_ok[OF t1(1) Cons.prems(2,3)]])
  then show ?case by (simp add: algebra_simps)
qed simp

lemma counted_nonneg: "list_all (\<lambda>p. 0 \<le> snd p) d \<Longrightarrow> 0 \<le> counted d"
  by (induction d) (auto simp: counted_def)

lemma one_count: "counts_ok d \<Longrightarrow> dict_get_or d k 0 \<le> counted d"
proof (induction d)
  case (Cons p d)
  obtain k' n where p: "p = (k', n)" by force
  show ?case using Cons counted_nonneg[of d] by (auto simp: p counts_ok_def dict_get_or_def counted_def)
qed (simp add: dict_get_or_def counted_def)

lemma two_counts: "counts_ok d \<Longrightarrow> a \<noteq> b \<Longrightarrow> dict_get_or d a 0 + dict_get_or d b 0 \<le> counted d"
proof (induction d)
  case (Cons p d)
  obtain k n where p: "p = (k, n)" by force
  have ok: "counts_ok d" using Cons.prems by (simp add: counts_ok_def)
  show ?case using Cons.IH[OF ok Cons.prems(2)] Cons.prems one_count[OF ok, of a] one_count[OF ok, of b]
    by (auto simp: p dict_get_or_def counted_def counts_ok_def)
qed (simp add: dict_get_or_def counted_def)

text \<open>An analysis counts every episode once among the outcomes, the sentiments and the hours, and what it reports as the
  success rate is a percentage.\<close>

theorem analysis_counts_every_episode:
  assumes "analyze_patterns env order hour participant t m = Inr (Some r)" "\<And>x. hour x < 24"
  shows "counted (pr_outcomes r) = int (pr_total r) \<and> counted (pr_sentiments r) = int (pr_total r) \<and> sum_list (pr_hours r) = int (pr_total r)
    \<and> (\<exists>x. SuccessRate x \<in> set (pr_insights r) \<and> 0 \<le> x \<and> x \<le> 100)"
proof -
  obtain es tl where es: "es \<noteq> []" "tally_all hour es no_tallies = Inr tl" and r: "pr_total r = length es" "pr_outcomes r = tl_outcomes tl"
    "pr_sentiments r = tl_sentiments tl" "pr_hours r = tl_hours tl" "pr_insights r = insights_of (int (length es)) tl"
    using assms(1) by (auto simp: analyze_patterns_def res_bind_Inr_iff split: if_splits)
  have "tallies_ok 0 no_tallies" by (simp add: tallies_ok_def no_tallies_def counted_def sum_list_replicate counts_ok_def)
  then have ok: "tallies_ok (int (length es)) tl" using tally_all_ok[OF es(2) assms(2)] by fastforce
  let ?good = "dict_get_or (tl_outcomes tl) (VStr ''success'') 0 + dict_get_or (tl_outcomes tl) (VStr ''sale'') 0"
  have good: "0 \<le> ?good" "?good \<le> int (length es)"
    using ok two_counts[of "tl_outcomes tl" "VStr ''success''" "VStr ''sale''"] counts_get[of "tl_outcomes tl"]
    by (simp_all add: tallies_ok_def counts_ok_def)
  have n: "0 < int (length es)" using es(1) by simp
  let ?x = "of_int ?good / of_int (int (length es)) * 100 :: rat"
  have "SuccessRate ?x \<in> set (pr_insights r)" using n by (simp add: r insights_of_def Let_def)
  moreover have "(0::rat) \<le> of_int ?good" "(of_int ?good :: rat) \<le> of_int (int (length es))"
    using good by (simp only: of_int_0_le_iff, simp only: of_int_le_iff)
  then have "0 \<le> ?x" "?x \<le> 100" using n by (simp_all add: divide_le_eq del: of_int_add)
  ultimately show ?thesis using ok unfolding r tallies_ok_def by blast
qed

section \<open>Instances\<close>

definition plain_env :: mem_env where
  "plain_env = \<lparr>mv_text = (\<lambda>v. case v of VStr s \<Rightarrow> s | _ \<Rightarrow> ''''), mv_json = (\<lambda>v. ''''), mv_iso = (\<lambda>t. ''now''), mv_sha384 = (\<lambda>s. replicate 48 1)\<rparr>"

definition two_episodes :: epi_mem where
  "two_episodes = snd (epi_store 2 ''b'' (VStr ''hello'') (Some [(''outcome'', VStr ''sale'')]) (snd (epi_store 1 ''a'' (VStr ''hi'') None
     (epi_initialize True (Inr True) (epi_new mem_config_default)))))"

lemma two_episodes_store: "em_store two_episodes =
    [(''a'', entry_new ''a'' (VStr ''hi'') (episode_meta []) 1 (content_tokens (VStr ''hi'')) (content_cost (VStr ''hi''))),
     (''b'', entry_new ''b'' (VStr ''hello'') (episode_meta [(''outcome'', VStr ''sale'')]) 2 (content_tokens (VStr ''hello'')) (content_cost (VStr ''hello'')))]"
  by (simp add: two_episodes_def epi_store_def epi_initialize_def await_bool_def epi_new_def meta_or_empty_def)

lemma two_episodes_inv: "epi_inv two_episodes"
  by (simp add: epi_inv_def two_episodes_store)

theorem episodic_search_sound_witness:
  "\<exists>e. epi_search plain_env (\<lambda>ks. ks) ''he'' 10 None two_episodes = Inr [e] \<and> me_key e = ''b''
    \<and> epi_matches plain_env ''he'' [] e = Inr True"
proof -
  have run: "epi_search plain_env (\<lambda>ks. ks) ''he'' 10 None two_episodes = Inr [snd (em_store two_episodes ! 1)]"
    by (simp add: epi_search_def two_episodes_store epi_matches_def wants_def plain_env_def str_lower_def lower_char_def
        entry_new_def meta_or_empty_def slice_to_def sort_desc_def)
  have "shuffles (\<lambda>ks. ks)" by (simp add: shuffles_def)
  from episodic_search_sound [OF run _ this two_episodes_inv, THEN conjunct1]
  have "epi_matches plain_env ''he'' [] (snd (em_store two_episodes ! 1)) = Inr True" by (simp add: meta_or_empty_def)
  moreover have "me_key (snd (em_store two_episodes ! 1)) = ''b''" by (simp add: two_episodes_store entry_new_def)
  ultimately show ?thesis using run by blast
qed

definition many_episodes :: epi_mem where
  "many_episodes = \<lparr>em_config = mem_config_default, em_initialized = True, em_redis = False,
     em_store = map (\<lambda>i. (replicate i CHR ''a'', entry_new (replicate i CHR ''a'') (VStr ''x'') [] (of_nat i) 0 0)) [0..<101],
     em_tokens = 0, em_cost = 0\<rparr>"

theorem recent_episode_may_be_missed_witness:
  "\<exists>order es. recent_episodes plain_env order 100 1 None many_episodes = Inr es \<and> replicate 100 CHR ''a'' \<notin> me_key ` set es"
proof -
  let ?ks = "map (\<lambda>i. replicate i CHR ''a'') [0..<101]"
  have all: "res_filter (\<lambda>(k, e). epi_matches plain_env '''' [] e) d = Inr d" for d
    by (induction d) (auto simp: epi_matches_def wants_def)
  have found: "found_keys plain_env '''' (Some (type_filter None)) many_episodes = Inr ?ks"
    by (simp add: found_keys_def type_filter_def meta_or_empty_def all) (simp add: many_episodes_def)
  have "inj_on (\<lambda>i. replicate i CHR ''a'') {0..<101}" by (rule inj_onI) (metis length_replicate)
  then have inv: "epi_inv many_episodes" by (simp add: epi_inv_def many_episodes_def comp_def distinct_map)
  have keys: "\<forall>(k, e) \<in> set (em_store many_episodes). me_key e = k" by (auto simp: many_episodes_def entry_new_def)
  have "replicate 100 CHR ''a'' \<in> set ?ks" by simp
  from recent_episode_may_be_missed [OF found _ this inv keys, of 100 1] show ?thesis by fastforce
qed

theorem analysis_counts_every_episode_witness:
  "\<exists>r. analyze_patterns plain_env (\<lambda>ks. ks) (\<lambda>t. 9) None None two_episodes = Inr (Some r)
    \<and> counted (pr_outcomes r) = 2 \<and> SuccessRate 50 \<in> set (pr_insights r)"
proof -
  have search: "epi_search plain_env (\<lambda>ks. ks) '''' 100 (Some []) two_episodes
      = Inr [snd (em_store two_episodes ! 1), snd (em_store two_episodes ! 0)]"
    by (simp add: epi_search_def two_episodes_store epi_matches_def wants_def entry_new_def meta_or_empty_def slice_to_def sort_desc_def)
  obtain r where run: "analyze_patterns plain_env (\<lambda>ks. ks) (\<lambda>t. 9) None None two_episodes = Inr (Some r)"
    and r: "pr_total r = 2" "SuccessRate 50 \<in> set (pr_insights r)"
    by (simp add: analyze_patterns_def type_filter_def search two_episodes_store entry_new_def episode_meta_def dict_union_def tally_def
        no_tallies_def count_key_def dict_get_or_def insights_of_def Let_def)
  from analysis_counts_every_episode [OF run] show ?thesis using run r by auto
qed


end
