(* ===== verification/NestedIndex.thy ===== *)
theory NestedIndex
  imports MemBase "HOL-Library.Multiset"
begin

text \<open>
  The two-level indexes of semantic and procedural memory: a \<open>defaultdict\<close> of \<open>defaultdict\<close>s of lists,
  which stores append to and deletions remove from.
\<close>

type_synonym 'x nested = "(val \<times> (val \<times> 'x list) list) list"

text \<open>\<open>index[d][e].append(x)\<close>: the outer entry is there before \<open>e\<close> is hashed.\<close>

definition nested_append :: "val \<Rightarrow> val \<Rightarrow> 'x \<Rightarrow> 'x nested \<Rightarrow> 'x nested effect" where
  "nested_append d e x ix = (case hash_key d of
       Inl err \<Rightarrow> (ix, Some err)
     | Inr d \<Rightarrow> (let inner = dict_get_or ix d [] in case hash_key e of
           Inl err \<Rightarrow> (dict_set d inner ix, Some err)
         | Inr e \<Rightarrow> (dict_set d (dict_set e (dict_get_or inner e [] @ [x]) inner) ix, None)))"

text \<open>\<open>index[d][e].remove(x)\<close> when the lists are there, which go when they are empty; \<open>strict\<close> when it is not
  looked up first whether \<open>x\<close> is in the list.\<close>

definition nested_remove :: "bool \<Rightarrow> val \<Rightarrow> val \<Rightarrow> 'x \<Rightarrow> 'x nested \<Rightarrow> 'x nested effect" where
  "nested_remove strict d e x ix = (case hash_key d of
       Inl err \<Rightarrow> (ix, Some err)
     | Inr d \<Rightarrow> (case dict_get ix d of
           None \<Rightarrow> (ix, None)
         | Some inner \<Rightarrow> (case hash_key e of
               Inl err \<Rightarrow> (ix, Some err)
             | Inr e \<Rightarrow> (case dict_get inner e of
                   None \<Rightarrow> (ix, None)
                 | Some xs \<Rightarrow>
                     (if x \<notin> set xs then (ix, if strict then Some (Exn ValueError ''list.remove(x): x not in list'') else None)
                      else let xs' = remove1 x xs
                        in if xs' \<noteq> [] then (dict_set d (dict_set e xs' inner) ix, None)
                           else let inner' = dict_pop e inner
                             in (if inner' = [] then dict_pop d ix else dict_set d inner' ix, None))))))"

definition cell :: "'x nested \<Rightarrow> val \<Rightarrow> val \<Rightarrow> 'x list" where
  "cell ix d e = dict_get_or (dict_get_or ix d []) e []"

text \<open>A loop of such steps, up to the first exception.\<close>

fun effect_fold :: "('a \<Rightarrow> 's \<Rightarrow> 's effect) \<Rightarrow> 'a list \<Rightarrow> 's \<Rightarrow> 's effect" where
  "effect_fold f [] s = (s, None)"
| "effect_fold f (x # xs) s = (case f x s of (s', None) \<Rightarrow> effect_fold f xs s' | (s', Some e) \<Rightarrow> (s', Some e))"

definition hashes :: "val \<Rightarrow> bool" where
  "hashes v \<longleftrightarrow> (\<exists>k. hash_key v = Inr k)"

definition key_of :: "val \<Rightarrow> val" where
  "key_of v = projr (hash_key v)"

lemma hashes_key: "hashes v \<Longrightarrow> hash_key v = Inr (key_of v)"
  by (auto simp: hashes_def key_of_def)

lemma hashes_VStr [simp]: "hashes (VStr s)" "key_of (VStr s) = VStr s"
  by (simp_all add: hashes_def key_of_def)

lemma cell_simps [simp]: "cell [] d e = []"
  by (simp add: cell_def dict_get_or_def)

lemma append_ok:
  assumes "hashes d" "hashes e"
  shows "\<exists>ix'. nested_append d e x ix = (ix', None)
    \<and> (\<forall>a b. cell ix' a b = cell ix a b @ (if a = key_of d \<and> b = key_of e then [x] else []))"
  using assms by (simp add: nested_append_def hashes_key cell_def dict_get_or_def Let_def split: option.split)

lemma remove_ok:
  assumes "hashes d" "hashes e" "strict \<Longrightarrow> x \<in> set (cell ix (key_of d) (key_of e))"
  shows "\<exists>ix'. nested_remove strict d e x ix = (ix', None)
    \<and> (\<forall>a b. cell ix' a b = (if a = key_of d \<and> b = key_of e then remove1 x (cell ix a b) else cell ix a b))"
proof (cases "dict_get ix (key_of d)")
  case None
  then show ?thesis using assms by (auto simp: nested_remove_def hashes_key cell_def dict_get_or_def)
next
  case (Some inner)
  note outer = this
  show ?thesis
  proof (cases "dict_get inner (key_of e)")
    case None
    then show ?thesis using assms outer by (auto simp: nested_remove_def hashes_key cell_def dict_get_or_def)
  next
    case (Some xs)
    have c: "cell ix (key_of d) (key_of e) = xs" by (simp add: cell_def dict_get_or_def outer Some)
    show ?thesis
    proof (cases "x \<in> set xs")
      case False
      then have "\<not> strict" using assms(3) c by blast
      then show ?thesis using assms(1,2) outer Some False
        by (simp add: nested_remove_def hashes_key c remove1_idem)
    next
      case True
      have pop: "dict_pop (key_of e) inner = [] \<Longrightarrow> b \<noteq> key_of e \<Longrightarrow> dict_get inner b = None" for b
        using dict_get_pop[of "key_of e" inner b] by simp
      show ?thesis using assms(1,2) outer Some True pop
        by (auto simp: nested_remove_def hashes_key cell_def dict_get_or_def Let_def split: option.split)
    qed
  qed
qed

text \<open>Appending for a list of keys, and taking as many out again.\<close>

lemma append_all_ok:
  assumes "hashes d" "\<forall>e \<in> set es. hashes e"
  shows "\<exists>ix'. effect_fold (\<lambda>e. nested_append d e x) es ix = (ix', None)
    \<and> (\<forall>a b. mset (cell ix' a b) = mset (cell ix a b) + (if a = key_of d then replicate_mset (count (mset (map key_of es)) b) x else {#}))"
  using assms(2)
proof (induction es arbitrary: ix)
  case (Cons e es)
  obtain ix1 where ix1: "nested_append d e x ix = (ix1, None)"
    "\<forall>a b. cell ix1 a b = cell ix a b @ (if a = key_of d \<and> b = key_of e then [x] else [])"
    using append_ok[of d e x ix] assms(1) Cons.prems by auto
  obtain ix2 where "effect_fold (\<lambda>e. nested_append d e x) es ix1 = (ix2, None)"
    "\<forall>a b. mset (cell ix2 a b) = mset (cell ix1 a b) + (if a = key_of d then replicate_mset (count (mset (map key_of es)) b) x else {#})"
    using Cons.IH[of ix1] Cons.prems by auto
  then show ?case using ix1 by auto
qed simp

lemma remove_all_ok:
  assumes "hashes d" "\<forall>e \<in> set es. hashes e"
    and "\<And>b. strict \<Longrightarrow> count (mset (map key_of es)) b \<le> count (mset (cell ix (key_of d) b)) x"
  shows "\<exists>ix'. effect_fold (\<lambda>e. nested_remove strict d e x) es ix = (ix', None)
    \<and> (\<forall>a b. mset (cell ix' a b) = mset (cell ix a b) - (if a = key_of d then replicate_mset (count (mset (map key_of es)) b) x else {#}))"
  using assms(2,3)
proof (induction es arbitrary: ix)
  case (Cons e es)
  have "x \<in> set (cell ix (key_of d) (key_of e))" if strict
  proof -
    have "Suc (count (mset (map key_of es)) (key_of e)) \<le> count (mset (cell ix (key_of d) (key_of e))) x"
      using Cons.prems(2)[OF that, of "key_of e"] by simp
    then have "count (mset (cell ix (key_of d) (key_of e))) x \<noteq> 0" by linarith
    then show ?thesis by (simp only: count_eq_zero_iff set_mset_mset not_not)
  qed
  then obtain ix1 where ix1: "nested_remove strict d e x ix = (ix1, None)"
    "\<forall>a b. cell ix1 a b = (if a = key_of d \<and> b = key_of e then remove1 x (cell ix a b) else cell ix a b)"
    using remove_ok[of d e strict x ix] assms(1) Cons.prems by auto
  have le: "count (mset (map key_of es)) b \<le> count (mset (cell ix1 (key_of d) b)) x" if strict for b
    using Cons.prems(2)[OF that, of b] ix1(2) by (auto split: if_splits)
  obtain ix2 where ix2: "effect_fold (\<lambda>e. nested_remove strict d e x) es ix1 = (ix2, None)"
    "\<forall>a b. mset (cell ix2 a b) = mset (cell ix1 a b) - (if a = key_of d then replicate_mset (count (mset (map key_of es)) b) x else {#})"
    using Cons.IH[OF _ le] Cons.prems(1) by auto
  then show ?case using ix1 by (auto simp: diff_add_mset_swap)
qed simp

end
