(* ===== verification/SemanticMem.thy ===== *)
theory SemanticMem
  imports NestedIndex
begin

text \<open>
  Semantic memory (\<open>src/ice_core/memory/semantic_memory_store.py\<close>): facts with an index by domain and
  entity, relationships by type, and, when vector search is on, an embedding of each fact.

  The bytes of \<open>sha384\<close>, texts of values and times are parameters; \<open>**0.5\<close> is the real square start.
\<close>

record fact_mem =
  fm_config :: mem_config
  fm_store :: "mem_entry dict"
  fm_embeddings :: "real list dict"
  fm_relations :: "(val \<times> val) nested"
  fm_index :: "string nested"
  fm_tokens :: int
  fm_cost :: rat

definition fact_new :: "mem_config \<Rightarrow> fact_mem" where
  "fact_new c = \<lparr>fm_config = c, fm_store = [], fm_embeddings = [], fm_relations = [], fm_index = [], fm_tokens = 0, fm_cost = 0\<rparr>"

definition entities_by_domain :: "string \<Rightarrow> fact_mem \<Rightarrow> val list" where
  "entities_by_domain d m = dict_keys (dict_get_or (fm_index m) (VStr d) [])"

definition facts_for_entity :: "string \<Rightarrow> string \<Rightarrow> fact_mem \<Rightarrow> string list" where
  "facts_for_entity e d m = dict_get_or (dict_get_or (fm_index m) (VStr d) []) (VStr e) []"

section \<open>Embeddings\<close>

definition content_text :: "mem_env \<Rightarrow> val \<Rightarrow> string" where
  "content_text env c = (case c of VStr s \<Rightarrow> s | _ \<Rightarrow> mv_json env c)"

definition norm_of :: "real list \<Rightarrow> real" where
  "norm_of v = (let n = sqrt (sum_list (map (\<lambda>x. x * x) v)) in if n = 0 then 1 else n)"

definition embed :: "mem_env \<Rightarrow> int \<Rightarrow> val \<Rightarrow> real list" where
  "embed env dims c =
     (let v = map (\<lambda>b. real b / 255) (slice_to dims (mv_sha384 env (content_text env c))) in map (\<lambda>x. x / norm_of v) v)"

definition validate_embedding :: "int \<Rightarrow> real list \<Rightarrow> unit res" where
  "validate_embedding dims v =
     (if int (length v) \<noteq> dims then Inl (Exn (OtherError ''DimensionMismatchError'') ''Vector embedding dimension mismatch'') else Inr ())"

definition similarity :: "real list \<Rightarrow> real list \<Rightarrow> real" where
  "similarity q e = sum_list (map (\<lambda>(x, y). x * y) (zip q e))"

section \<open>Storing\<close>

definition fact_meta :: "val dict \<Rightarrow> val dict" where
  "fact_meta md = dict_union md
     [(''fact_type'', dict_get_or md ''type'' (VStr ''general'')), (''entities'', dict_get_or md ''entities'' (VList [])),
      (''domain'', dict_get_or md ''domain'' (VStr ''general'')), (''confidence'', dict_get_or md ''confidence'' (VFloat 1)),
      (''source'', dict_get_or md ''source'' (VStr ''system'')), (''relationships'', dict_get_or md ''relationships'' (VList []))]"

text \<open>An action on one field: what it wrote before an exception stays.\<close>

definition on_index :: "(string nested \<Rightarrow> string nested effect) \<Rightarrow> (fact_mem, unit) act" where
  "on_index f m = (let (ix, x) = f (fm_index m) in (case x of None \<Rightarrow> Inr () | Some e \<Rightarrow> Inl e, m\<lparr>fm_index := ix\<rparr>))"

definition on_relations :: "((val \<times> val) nested \<Rightarrow> (val \<times> val) nested effect) \<Rightarrow> (fact_mem, unit) act" where
  "on_relations f m = (let (r, x) = f (fm_relations m) in (case x of None \<Rightarrow> Inr () | Some e \<Rightarrow> Inl e, m\<lparr>fm_relations := r\<rparr>))"

text \<open>Only a dictionary with a target and a type is a relationship.\<close>

definition add_relation :: "string \<Rightarrow> val \<Rightarrow> (val \<times> val) nested \<Rightarrow> (val \<times> val) nested effect" where
  "add_relation k rel rs = (case rel of
       VDict d \<Rightarrow> (case (dict_get d ''target'', dict_get d ''type'') of
           (Some target, Some t) \<Rightarrow> nested_append t (VStr k) (target, dict_get_or d ''strength'' (VFloat 1)) rs
         | _ \<Rightarrow> (rs, None))
     | _ \<Rightarrow> (rs, None))"

definition index_fact :: "string \<Rightarrow> val dict \<Rightarrow> (fact_mem, unit) act" where
  "index_fact k meta = act_bind (act_res (py_iter (meta_get meta ''entities''))) (\<lambda>es.
     on_index (effect_fold (\<lambda>e. nested_append (meta_get meta ''domain'') e k) es))"

definition relate_fact :: "string \<Rightarrow> val dict \<Rightarrow> (fact_mem, unit) act" where
  "relate_fact k meta = act_bind (act_res (py_iter (meta_get meta ''relationships''))) (\<lambda>rs. on_relations (effect_fold (add_relation k) rs))"

definition embed_fact :: "mem_env \<Rightarrow> string \<Rightarrow> val \<Rightarrow> (fact_mem, unit) act" where
  "embed_fact env k c m =
     (if \<not> mc_vectors (fm_config m) then (Inr (), m)
      else let v = embed env (mc_dim (fm_config m)) c in case validate_embedding (mc_dim (fm_config m)) v of
          Inl e \<Rightarrow> (Inl e, m)
        | Inr u \<Rightarrow> (Inr (), m\<lparr>fm_embeddings := dict_set k v (fm_embeddings m)\<rparr>))"

definition fact_entry :: "rat \<Rightarrow> string \<Rightarrow> val \<Rightarrow> val dict option \<Rightarrow> mem_entry" where
  "fact_entry now k c md = entry_new k c (fact_meta (meta_or_empty md)) now (content_tokens c) (content_cost c)"

definition fact_store :: "mem_env \<Rightarrow> rat \<Rightarrow> string \<Rightarrow> val \<Rightarrow> val dict option \<Rightarrow> (fact_mem, unit) act" where
  "fact_store env now k c md m =
     (let meta = fact_meta (meta_or_empty md)
      in act_bind (index_fact k meta) (\<lambda>_. act_bind (relate_fact k meta) (\<lambda>_. embed_fact env k c))
         (m\<lparr>fm_store := dict_set k (fact_entry now k c md) (fm_store m),
            fm_tokens := fm_tokens m + content_tokens c, fm_cost := fm_cost m + content_cost c\<rparr>))"

definition fact_retrieve :: "rat \<Rightarrow> string \<Rightarrow> (fact_mem, mem_entry option) act" where
  "fact_retrieve now k m = (Inr (dict_get (fm_store m) k), m)"

section \<open>Search\<close>

fun meets :: "val list \<Rightarrow> val list \<Rightarrow> bool" where
  "meets xs ys = list_ex (\<lambda>x. x \<in> set ys) xs"

definition hash_set :: "val \<Rightarrow> val list res" where
  "hash_set v = res_bind (py_iter v) (res_map hash_key)"

definition fact_matches :: "val dict \<Rightarrow> mem_entry \<Rightarrow> bool res" where
  "fact_matches filters e =
     wants filters ''type'' (\<lambda>v. Inr (py_eq (meta_get (me_meta e) ''fact_type'') v))
     (wants filters ''domain'' (\<lambda>v. Inr (py_eq (meta_get (me_meta e) ''domain'') v))
     (wants filters ''entities'' (\<lambda>v. res_bind (hash_set (dict_get_or (me_meta e) ''entities'' (VList []))) (\<lambda>own.
        res_bind (hash_set v) (\<lambda>ws. Inr (meets ws own))))
     (wants filters ''min_confidence'' (\<lambda>v. res_bind (py_ord Lt (dict_get_or (me_meta e) ''confidence'' (VInt 0)) v) (\<lambda>b. Inr (\<not> b)))
     (Inr True))))"

definition vector_search :: "real list \<Rightarrow> int \<Rightarrow> val dict \<Rightarrow> fact_mem \<Rightarrow> mem_entry list res" where
  "vector_search q mx filters m =
     res_bind (res_filter (\<lambda>(k, v). case dict_get (fm_store m) k of None \<Rightarrow> Inr False | Some e \<Rightarrow> fact_matches filters e) (fm_embeddings m)) (\<lambda>found.
     Inr (map snd (slice_to mx (sort_desc fst (map (\<lambda>(k, v). (similarity q v, the (dict_get (fm_store m) k))) found)))))"

definition fact_search :: "mem_env \<Rightarrow> string \<Rightarrow> int \<Rightarrow> val dict option \<Rightarrow> fact_mem \<Rightarrow> mem_entry list res" where
  "fact_search env query mx filters m =
     res_bind (if mc_vectors (fm_config m) \<and> query \<noteq> ''''
       then vector_search (embed env (mc_dim (fm_config m)) (VStr query)) (mx * 2) (meta_or_empty filters) m
       else res_filter (\<lambda>e. res_bind (fact_matches (meta_or_empty filters) e) (\<lambda>b.
              Inr (b \<and> str_contains (str_lower query) (str_lower (mv_text env (me_content e)))))) (map snd (fm_store m)))
     (\<lambda>es. Inr (slice_to mx (sort_desc me_time es)))"

definition domain_knowledge :: "mem_env \<Rightarrow> string \<Rightarrow> string option \<Rightarrow> fact_mem \<Rightarrow> mem_entry list res" where
  "domain_knowledge env d t m = fact_search env '''' 100
     (Some ((''domain'', VStr d) # (case t of None \<Rightarrow> [] | Some s \<Rightarrow> if s = '''' then [] else [(''type'', VStr s)]))) m"

section \<open>Deletion\<close>

definition drop_relation :: "string \<Rightarrow> val \<Rightarrow> (val \<times> val) nested \<Rightarrow> (val \<times> val) nested effect" where
  "drop_relation k rel rs = (case rel of
       VDict d \<Rightarrow> (case dict_get d ''type'' of
           None \<Rightarrow> (rs, None)
         | Some t \<Rightarrow> (case hash_key t of
               Inl err \<Rightarrow> (rs, Some err)
             | Inr t \<Rightarrow> (case dict_get rs t of
                   None \<Rightarrow> (rs, None)
                 | Some inner \<Rightarrow> (if dict_get inner (VStr k) = None then (rs, None)
                     else let inner' = dict_pop (VStr k) inner in (if inner' = [] then dict_pop t rs else dict_set t inner' rs, None)))))
     | _ \<Rightarrow> (rs, None))"

definition fact_delete :: "string \<Rightarrow> (fact_mem, bool) act" where
  "fact_delete k m = (case dict_get (fm_store m) k of
       None \<Rightarrow> (Inr False, m)
     | Some e \<Rightarrow> (let meta = me_meta e; domain = dict_get_or meta ''domain'' (VStr ''general'')
         in act_bind (act_res (py_iter (dict_get_or meta ''entities'' (VList [])))) (\<lambda>es.
            act_bind (on_index (effect_fold (\<lambda>x. nested_remove True domain x k) es)) (\<lambda>_.
            act_bind (act_res (py_iter (dict_get_or meta ''relationships'' (VList [])))) (\<lambda>rs.
            act_bind (on_relations (effect_fold (drop_relation k) rs)) (\<lambda>_ m.
              (Inr True, m\<lparr>fm_embeddings := dict_pop k (fm_embeddings m), fm_store := dict_pop k (fm_store m)\<rparr>))))) m))"

definition fact_clear :: "string option \<Rightarrow> (fact_mem, nat) act" where
  "fact_clear pattern m = count_deleted fact_delete (filter (selected pattern) (dict_keys (fm_store m))) 0 m"

definition fact_list_keys :: "string option \<Rightarrow> int \<Rightarrow> fact_mem \<Rightarrow> string list" where
  "fact_list_keys pattern mx m = slice_to mx (filter (selected pattern) (dict_keys (fm_store m)))"

section \<open>Relations\<close>

text \<open>\<open>self._relationships.get(key, [])\<close> is a list only when there is no such key: the keys are the types
  of relationships, and what they lead to are dictionaries. Both readers take only lists.\<close>

definition relationships_of :: "fact_mem \<Rightarrow> string \<Rightarrow> (val \<times> val) list" where
  "relationships_of m k = (case dict_get (fm_relations m) (VStr k) of None \<Rightarrow> [] | Some inner \<Rightarrow> [])"

text \<open>The index is asked for the entity where it has the domains.\<close>

definition find_related :: "string \<Rightarrow> string option \<Rightarrow> int \<Rightarrow> fact_mem \<Rightarrow> mem_entry list" where
  "find_related entity t mx m =
     (let ks = concat (map snd (dict_get_or (fm_index m) (VStr entity) []));
          es = concat (map (\<lambda>k. case dict_get (fm_store m) k of None \<Rightarrow> [] | Some e \<Rightarrow> [(k, e)]) ks)
      in slice_to mx (map snd (case t of
           None \<Rightarrow> es
         | Some t \<Rightarrow> if t = '''' then es else filter (\<lambda>(k, e). list_ex (\<lambda>(r, x). r = VStr t) (relationships_of m k)) es)))"

record kg_node =
  kn_depth :: int
  kn_facts :: "(string \<times> string \<times> val) list"

record kg =
  kg_nodes :: "kg_node dict"
  kg_edges :: "(string \<times> string \<times> val) list"

definition facts_about :: "mem_env \<Rightarrow> fact_mem \<Rightarrow> string \<Rightarrow> (string \<times> mem_entry) list" where
  "facts_about env m entity = concat (map (\<lambda>k. case dict_get (fm_store m) k of None \<Rightarrow> [] | Some e \<Rightarrow> [(k, e)])
     (take 5 (concat (map (\<lambda>(d, inner). dict_get_or inner (VStr entity) []) (fm_index m)))))"

definition fact_edges :: "mem_env \<Rightarrow> fact_mem \<Rightarrow> string \<Rightarrow> (string \<times> string \<times> val) list" where
  "fact_edges env m entity = concat (map (\<lambda>(k, e). map (\<lambda>(t, x). (entity, mv_text env x, t)) (relationships_of m k)) (facts_about env m entity))"

definition kg_visit :: "mem_env \<Rightarrow> fact_mem \<Rightarrow> string \<Rightarrow> int \<Rightarrow> kg \<Rightarrow> kg" where
  "kg_visit env m entity depth g = \<lparr>
     kg_nodes = dict_set entity \<lparr>kn_depth = depth,
       kn_facts = map (\<lambda>(k, e). (k, take 100 (mv_text env (me_content e)), dict_get_or (me_meta e) ''fact_type'' (VStr ''general''))) (facts_about env m entity)\<rparr> (kg_nodes g),
     kg_edges = kg_edges g @ fact_edges env m entity\<rparr>"

lemma no_relationships [simp]: "relationships_of m k = []"
  by (simp add: relationships_of_def split: option.split)

lemma no_fact_edges [simp]: "fact_edges env m entity = []"
  by (simp add: fact_edges_def case_prod_unfold)

function kg_loop :: "mem_env \<Rightarrow> fact_mem \<Rightarrow> int \<Rightarrow> string list \<Rightarrow> (string \<times> int) list \<Rightarrow> kg \<Rightarrow> kg" where
  "kg_loop env m max_depth visited [] g = g"
| "kg_loop env m max_depth visited ((entity, depth) # queue) g =
     (if entity \<in> set visited \<or> max_depth < depth then kg_loop env m max_depth visited queue g
      else kg_loop env m max_depth (entity # visited)
        (queue @ (if depth < max_depth then map (\<lambda>(s, t, r). (t, depth + 1)) (fact_edges env m entity) else []))
        (kg_visit env m entity depth g))"
  by pat_completeness auto
termination
  by (relation "measure (\<lambda>(env, m, d, v, q, g). length q)") simp_all

definition knowledge_graph :: "mem_env \<Rightarrow> string \<Rightarrow> int \<Rightarrow> fact_mem \<Rightarrow> kg" where
  "knowledge_graph env start max_depth m = kg_loop env m max_depth [] [(start, 0)] \<lparr>kg_nodes = [], kg_edges = []\<rparr>"

section \<open>Learning and merging\<close>

definition item :: "val dict \<Rightarrow> string \<Rightarrow> val res" where
  "item d k = (case dict_get d k of None \<Rightarrow> Inl (Exn KeyError (sq k)) | Some v \<Rightarrow> Inr v)"

definition learn_price :: "mem_env \<Rightarrow> rat \<Rightarrow> val dict \<Rightarrow> (fact_mem, string list) act" where
  "learn_price env now d =
     (if dict_get d ''sale_price'' = None \<or> dict_get d ''item_condition'' = None then act_ret []
      else act_bind (act_res (item d ''item_type'')) (\<lambda>t.
           let c = the (dict_get d ''item_condition''); k = ''pricing_pattern_'' @ mv_text env t @ ''_'' @ mv_text env c
           in act_bind (fact_store env now k
                (VDict [(''pattern'', VStr ''typical_price''), (''item_type'', t), (''condition'', c), (''price_range'', the (dict_get d ''sale_price''))])
                (Some [(''type'', VStr ''pricing_pattern''), (''entities'', VList [t, c]), (''domain'', VStr ''marketplace''),
                       (''confidence'', VFloat (8/10)), (''source'', VStr ''learned'')])) (\<lambda>_. act_ret [k])))"

definition learn_preferences :: "mem_env \<Rightarrow> rat \<Rightarrow> val dict \<Rightarrow> (fact_mem, string list) act" where
  "learn_preferences env now d = (case (dict_get d ''customer_id'', dict_get d ''preferences'') of
       (Some c, Some p) \<Rightarrow> (let k = ''customer_pref_'' @ mv_text env c
         in act_bind (fact_store env now k p (Some [(''type'', VStr ''customer_preference''), (''entities'', VList [c]),
              (''domain'', VStr ''customers''), (''confidence'', VFloat (9/10))])) (\<lambda>_. act_ret [k]))
     | _ \<Rightarrow> act_ret [])"

definition learn_from_interaction :: "mem_env \<Rightarrow> rat \<Rightarrow> val dict \<Rightarrow> (fact_mem, string list) act" where
  "learn_from_interaction env now d =
     act_bind (learn_price env now d) (\<lambda>a. act_bind (learn_preferences env now d) (\<lambda>b. act_ret (a @ b)))"

text \<open>\<open>order\<close> is the order in which Python walks through the set of entities.\<close>

fun merge_parts :: "mem_entry list \<Rightarrow> (val list \<times> val list) res" where
  "merge_parts [] = Inr ([], [])"
| "merge_parts (e # es) =
     res_bind (hash_set (dict_get_or (me_meta e) ''entities'' (VList []))) (\<lambda>xs.
     res_bind (py_iter (dict_get_or (me_meta e) ''relationships'' (VList []))) (\<lambda>rs.
     res_bind (merge_parts es) (\<lambda>(ys, ss). Inr (xs @ ys, rs @ ss))))"

definition merge_facts ::
  "mem_env \<Rightarrow> (val list \<Rightarrow> val list) \<Rightarrow> rat \<Rightarrow> string list \<Rightarrow> string \<Rightarrow> (fact_mem, bool) act" where
  "merge_facts env order now ks merged m =
     (let es = concat (map (\<lambda>k. case dict_get (fm_store m) k of None \<Rightarrow> [] | Some e \<Rightarrow> [e]) ks)
      in act_bind (act_res (merge_parts es)) (\<lambda>(xs, rs).
         if es = [] then act_ret False
         else act_bind (fact_store env now merged
                (VDict [(''merged_from'', VList (map VStr ks)), (''facts'', VList (map me_content es)), (''merged_at'', VStr (mv_iso env now))])
                (Some [(''type'', VStr ''merged_fact''), (''entities'', VList (order (remdups xs))), (''relationships'', VList rs),
                       (''source'', VStr ''merge_operation'')])) (\<lambda>_.
              act_bind (delete_each fact_delete ks) (\<lambda>_. act_ret True))) m)"

section \<open>The index\<close>

definition entry_domain :: "mem_entry \<Rightarrow> val" where
  "entry_domain e = dict_get_or (me_meta e) ''domain'' (VStr ''general'')"

definition entry_entities :: "mem_entry \<Rightarrow> val list" where
  "entry_entities e = projr (py_iter (dict_get_or (me_meta e) ''entities'' (VList [])))"

definition entry_relations :: "mem_entry \<Rightarrow> val list" where
  "entry_relations e = projr (py_iter (dict_get_or (me_meta e) ''relationships'' (VList [])))"

fun typed_relation :: "val \<Rightarrow> bool" where
  "typed_relation (VDict d) = (case dict_get d ''type'' of None \<Rightarrow> True | Some t \<Rightarrow> hashes t)"
| "typed_relation _ = True"

text \<open>Metadata that Python can index: a domain and entities that hash, relationships with types that hash.\<close>

definition well_typed :: "mem_entry \<Rightarrow> bool" where
  "well_typed e \<longleftrightarrow> hashes (entry_domain e)
     \<and> py_iter (dict_get_or (me_meta e) ''entities'' (VList [])) = Inr (entry_entities e) \<and> (\<forall>x \<in> set (entry_entities e). hashes x)
     \<and> py_iter (dict_get_or (me_meta e) ''relationships'' (VList [])) = Inr (entry_relations e) \<and> (\<forall>r \<in> set (entry_relations e). typed_relation r)"

lemma fact_meta_get:
  "dict_get (fact_meta md) ''entities'' = Some (dict_get_or md ''entities'' (VList []))"
  "dict_get (fact_meta md) ''domain'' = Some (dict_get_or md ''domain'' (VStr ''general''))"
  "dict_get (fact_meta md) ''relationships'' = Some (dict_get_or md ''relationships'' (VList []))"
  by (simp_all add: fact_meta_def dict_union_def)

lemma fact_entry_meta:
  "meta_get (fact_meta (meta_or_empty md)) ''domain'' = entry_domain (fact_entry now k c md)"
  "well_typed (fact_entry now k c md) \<Longrightarrow> py_iter (meta_get (fact_meta (meta_or_empty md)) ''entities'') = Inr (entry_entities (fact_entry now k c md))"
  "well_typed (fact_entry now k c md) \<Longrightarrow> py_iter (meta_get (fact_meta (meta_or_empty md)) ''relationships'') = Inr (entry_relations (fact_entry now k c md))"
  by (simp_all add: well_typed_def entry_domain_def fact_entry_def entry_new_def meta_get_def dict_get_or_def fact_meta_get)

lemma add_relations_ok: "\<forall>r \<in> set rs. typed_relation r \<Longrightarrow> \<exists>s'. effect_fold (add_relation k) rs s = (s', None)"
proof (induction rs arbitrary: s)
  case (Cons r rs)
  have "\<exists>s'. add_relation k r s = (s', None)"
  proof (cases r)
    case (VDict d)
    show ?thesis
    proof (cases "dict_get d ''type''")
      case (Some t)
      then have t: "hashes t" using Cons.prems VDict by simp
      show ?thesis using append_ok[OF t hashes_VStr(1)[of k]] Some VDict
        by (fastforce simp: add_relation_def split: option.split)
    qed (simp add: add_relation_def VDict split: option.split)
  qed (simp_all add: add_relation_def)
  then show ?case using Cons by auto
qed simp

lemma drop_relations_ok: "\<forall>r \<in> set rs. typed_relation r \<Longrightarrow> \<exists>s'. effect_fold (drop_relation k) rs s = (s', None)"
proof (induction rs arbitrary: s)
  case (Cons r rs)
  have "\<exists>s'. drop_relation k r s = (s', None)"
    using Cons.prems by (cases r) (auto simp: drop_relation_def hashes_key Let_def split: option.split)
  then show ?case using Cons by auto
qed simp

lemma bind_frame:
  "fm_store (snd (a m)) = v \<Longrightarrow> (\<And>x m. fm_store m = v \<Longrightarrow> fm_store (snd (f x m)) = v) \<Longrightarrow> fm_store (snd (act_bind a f m)) = v"
  by (auto simp: act_bind_def split: prod.split sum.split)

lemma store_frames:
  "fm_store (snd (index_fact k meta m)) = fm_store m" "fm_store (snd (relate_fact k meta m)) = fm_store m"
  "fm_store (snd (embed_fact env k c m)) = fm_store m"
  by (simp_all add: index_fact_def relate_fact_def embed_fact_def on_index_def on_relations_def act_bind_def Let_def split: prod.split sum.split)

text \<open>The fact is there however the indexing ends.\<close>

lemma fact_store_stored: "fm_store (snd (fact_store env now k c md m)) = dict_set k (fact_entry now k c md) (fm_store m)"
  unfolding fact_store_def Let_def by (intro bind_frame) (simp_all add: store_frames)

definition embeds :: "mem_env \<Rightarrow> val \<Rightarrow> mem_config \<Rightarrow> bool" where
  "embeds env c cfg \<longleftrightarrow> \<not> mc_vectors cfg \<or> int (length (embed env (mc_dim cfg) c)) = mc_dim cfg"

lemma fact_store_spec:
  assumes "well_typed (fact_entry now k c md)"
  defines "e \<equiv> fact_entry now k c md"
  obtains m' where "fact_store env now k c md m =
      (if embeds env c (fm_config m) then Inr () else Inl (Exn (OtherError ''DimensionMismatchError'') ''Vector embedding dimension mismatch''), m')"
    "fm_config m' = fm_config m" "fm_store m' = dict_set k e (fm_store m)"
    "\<And>a b. mset (cell (fm_index m') a b) = mset (cell (fm_index m) a b)
       + (if a = key_of (entry_domain e) then replicate_mset (count (mset (map key_of (entry_entities e))) b) k else {#})"
    "\<not> embeds env c (fm_config m) \<Longrightarrow> fm_embeddings m' = fm_embeddings m"
proof -
  have t: "hashes (entry_domain e)" "\<forall>x \<in> set (entry_entities e). hashes x" "\<forall>r \<in> set (entry_relations e). typed_relation r"
    using assms(1) by (simp_all add: well_typed_def e_def)
  obtain ix where ix: "effect_fold (\<lambda>x. nested_append (entry_domain e) x k) (entry_entities e) (fm_index m) = (ix, None)"
    "\<forall>a b. mset (cell ix a b) = mset (cell (fm_index m) a b)
       + (if a = key_of (entry_domain e) then replicate_mset (count (mset (map key_of (entry_entities e))) b) k else {#})"
    using append_all_ok[OF t(1,2), of k "fm_index m"] by blast
  obtain rs where rs: "effect_fold (add_relation k) (entry_relations e) (fm_relations m) = (rs, None)"
    using add_relations_ok[OF t(3)] by blast
  let ?m = "m\<lparr>fm_store := dict_set k e (fm_store m), fm_tokens := fm_tokens m + content_tokens c, fm_cost := fm_cost m + content_cost c,
    fm_index := ix, fm_relations := rs\<rparr>"
  let ?meta = "fact_meta (meta_or_empty md)"
  have "index_fact k ?meta m1 = (Inr (), m1\<lparr>fm_index := ix\<rparr>)" if "fm_index m1 = fm_index m" for m1
    using fact_entry_meta(2)[OF assms(1)] ix(1) that
    by (simp add: index_fact_def fact_entry_meta(1)[of md now k c] e_def[symmetric] on_index_def)
  moreover have "relate_fact k ?meta m1 = (Inr (), m1\<lparr>fm_relations := rs\<rparr>)" if "fm_relations m1 = fm_relations m" for m1
    using fact_entry_meta(3)[OF assms(1)] rs that by (simp add: relate_fact_def e_def[symmetric] on_relations_def)
  ultimately have run: "fact_store env now k c md m = embed_fact env k c ?m"
    by (simp add: fact_store_def Let_def act_bind_def e_def)
  show ?thesis
  proof (rule that[of "snd (embed_fact env k c ?m)"])
    show "fact_store env now k c md m = (if embeds env c (fm_config m) then Inr ()
        else Inl (Exn (OtherError ''DimensionMismatchError'') ''Vector embedding dimension mismatch''), snd (embed_fact env k c ?m))"
      by (simp add: run embed_fact_def embeds_def validate_embedding_def Let_def)
  qed (use ix(2) in \<open>simp_all add: embed_fact_def embeds_def validate_embedding_def Let_def\<close>)
qed

definition index_covers :: "fact_mem \<Rightarrow> bool" where
  "index_covers m \<longleftrightarrow> (\<forall>k e b. dict_get (fm_store m) k = Some e \<longrightarrow>
     count (mset (map key_of (entry_entities e))) b \<le> count (mset (cell (fm_index m) (key_of (entry_domain e)) b)) k)"

definition fact_inv :: "fact_mem \<Rightarrow> bool" where
  "fact_inv m \<longleftrightarrow> dict_wf (fm_store m) \<and> (\<forall>k e. dict_get (fm_store m) k = Some e \<longrightarrow> me_key e = k \<and> well_typed e) \<and> index_covers m"

lemma fact_delete_spec:
  assumes "fact_inv m" "dict_get (fm_store m) k = Some e"
  obtains m' where "fact_delete k m = (Inr True, m')" "fm_config m' = fm_config m" "fm_store m' = dict_pop k (fm_store m)"
    "fm_embeddings m' = dict_pop k (fm_embeddings m)"
    "\<And>a b. mset (cell (fm_index m') a b) = mset (cell (fm_index m) a b)
       - (if a = key_of (entry_domain e) then replicate_mset (count (mset (map key_of (entry_entities e))) b) k else {#})"
proof -
  have t: "well_typed e" "hashes (entry_domain e)" "\<forall>x \<in> set (entry_entities e). hashes x" "\<forall>r \<in> set (entry_relations e). typed_relation r"
    using assms by (auto simp: fact_inv_def well_typed_def)
  have le: "count (mset (map key_of (entry_entities e))) b \<le> count (mset (cell (fm_index m) (key_of (entry_domain e)) b)) k" for b
    using assms unfolding fact_inv_def index_covers_def by blast
  obtain ix where ix: "effect_fold (\<lambda>x. nested_remove True (entry_domain e) x k) (entry_entities e) (fm_index m) = (ix, None)"
    "\<forall>a b. mset (cell ix a b) = mset (cell (fm_index m) a b)
       - (if a = key_of (entry_domain e) then replicate_mset (count (mset (map key_of (entry_entities e))) b) k else {#})"
    using remove_all_ok[OF t(2,3) le] by blast
  obtain rs where rs: "effect_fold (drop_relation k) (entry_relations e) (fm_relations m) = (rs, None)"
    using drop_relations_ok[OF t(4)] by blast
  have "fact_delete k m = (Inr True, m\<lparr>fm_index := ix, fm_relations := rs, fm_embeddings := dict_pop k (fm_embeddings m), fm_store := dict_pop k (fm_store m)\<rparr>)"
    using t(1) by (simp add: fact_delete_def assms(2) well_typed_def entry_domain_def[symmetric] act_bind_def act_res_def on_index_def on_relations_def ix(1) rs Let_def)
  then show ?thesis using that ix(2) by simp
qed

lemma count_if_mset: "count (if P then replicate_mset n x else {#}) y = (if P \<and> x = y then n else 0)"
  by simp

lemma store_inv:
  assumes "fact_inv m" "well_typed (fact_entry now k c md)"
  shows "fact_inv (snd (fact_store env now k c md m))"
proof -
  let ?e = "fact_entry now k c md"
  obtain m' where m': "snd (fact_store env now k c md m) = m'" "fm_store m' = dict_set k ?e (fm_store m)"
    "\<And>a b. mset (cell (fm_index m') a b) = mset (cell (fm_index m) a b)
       + (if a = key_of (entry_domain ?e) then replicate_mset (count (mset (map key_of (entry_entities ?e))) b) k else {#})"
    by (rule fact_store_spec[OF assms(2), of env m]) auto
  have covers: "index_covers m" using assms(1) by (simp add: fact_inv_def)
  have "index_covers m'" unfolding index_covers_def m'(2,3)
  proof (intro allI impI)
    fix k' e b
    assume e: "dict_get (dict_set k ?e (fm_store m)) k' = Some e"
    show "count (mset (map key_of (entry_entities e))) b \<le> count (mset (cell (fm_index m) (key_of (entry_domain e)) b)
        + (if key_of (entry_domain e) = key_of (entry_domain ?e) then replicate_mset (count (mset (map key_of (entry_entities ?e))) b) k else {#})) k'"
    proof (cases "k' = k")
      case True
      then have "e = ?e" using e by simp
      then show ?thesis using True by simp
    next
      case False
      then have "dict_get (fm_store m) k' = Some e" using e by simp
      then have "count (mset (map key_of (entry_entities e))) b \<le> count (mset (cell (fm_index m) (key_of (entry_domain e)) b)) k'"
        using covers unfolding index_covers_def by blast
      then show ?thesis unfolding count_union by linarith
    qed
  qed
  moreover have "me_key ?e = k" by (simp add: fact_entry_def entry_new_def)
  ultimately show ?thesis using assms unfolding m'(1) fact_inv_def m'(2) by (auto split: if_splits)
qed

lemma delete_inv:
  assumes "fact_inv m" "dict_get (fm_store m) k = Some e" "fact_delete k m = (Inr True, m')"
    and "fm_store m' = dict_pop k (fm_store m)"
    and "\<And>a b. mset (cell (fm_index m') a b) = mset (cell (fm_index m) a b)
       - (if a = key_of (entry_domain e) then replicate_mset (count (mset (map key_of (entry_entities e))) b) k else {#})"
  shows "fact_inv m'"
proof -
  have "index_covers m'" unfolding index_covers_def assms(4,5)
  proof (intro allI impI)
    fix k' e' b
    assume e': "dict_get (dict_pop k (fm_store m)) k' = Some e'"
    then have k': "k' \<noteq> k" "dict_get (fm_store m) k' = Some e'" by (auto split: if_splits)
    then have "count (mset (map key_of (entry_entities e'))) b \<le> count (mset (cell (fm_index m) (key_of (entry_domain e')) b)) k'"
      using assms(1) unfolding fact_inv_def index_covers_def by blast
    then show "count (mset (map key_of (entry_entities e'))) b \<le> count (mset (cell (fm_index m) (key_of (entry_domain e')) b)
        - (if key_of (entry_domain e') = key_of (entry_domain e) then replicate_mset (count (mset (map key_of (entry_entities e))) b) k else {#})) k'"
      using k'(1) unfolding count_diff count_if_mset by simp
  qed
  then show ?thesis using assms(1) unfolding fact_inv_def assms(4) by (auto split: if_splits)
qed

interpretation semantic: agent_memory fact_inv "\<lambda>m. dict_keys (fm_store m)" "fact_store env" fact_retrieve fact_delete "fact_list_keys None 100"
proof
  fix m now k c md m'
  assume "fact_store env now k c md m = (Inr (), m')"
  then have "fm_store m' = dict_set k (fact_entry now k c md) (fm_store m)" using fact_store_stored[of env now k c md m] by simp
  then show "\<exists>e s''. fact_retrieve now k m' = (Inr (Some e), s'') \<and> me_key e = k \<and> me_content e = c"
    by (simp add: fact_retrieve_def fact_entry_def entry_new_def)
next
  fix m k
  assume inv: "fact_inv m"
  show "\<exists>s'. fact_delete k m = (Inr (k \<in> set (dict_keys (fm_store m))), s') \<and> fact_inv s'
      \<and> dict_keys (fm_store s') = filter (\<lambda>x. x \<noteq> k) (dict_keys (fm_store m))"
  proof (cases "dict_get (fm_store m) k")
    case None
    then have k: "k \<notin> set (dict_keys (fm_store m))" by (rule iffD1[OF dict_get_eq_None])
    then have "filter (\<lambda>x. x \<noteq> k) (dict_keys (fm_store m)) = dict_keys (fm_store m)" by (metis (mono_tags, lifting) filter_True)
    moreover have "fact_delete k m = (Inr False, m)" using None by (simp add: fact_delete_def)
    ultimately show ?thesis using inv k by metis
  next
    case (Some e)
    then have k: "k \<in> set (dict_keys (fm_store m))" by (rule dict_get_keys)
    obtain m' where d: "fact_delete k m = (Inr True, m')" "fm_config m' = fm_config m" "fm_store m' = dict_pop k (fm_store m)"
      "fm_embeddings m' = dict_pop k (fm_embeddings m)" "\<And>a b. mset (cell (fm_index m') a b) = mset (cell (fm_index m) a b)
         - (if a = key_of (entry_domain e) then replicate_mset (count (mset (map key_of (entry_entities e))) b) k else {#})"
      by (rule fact_delete_spec[OF inv Some]) (rule that)
    have "fact_inv m'" by (rule delete_inv[OF inv Some d(1,3,5)])
    moreover have "dict_keys (fm_store m') = filter (\<lambda>x. x \<noteq> k) (dict_keys (fm_store m))" by (simp only: d(3) dict_keys_pop)
    moreover have "fact_delete k m = (Inr (k \<in> set (dict_keys (fm_store m))), m')" using k d(1) by metis
    ultimately show ?thesis by blast
  qed
qed (simp_all add: fact_list_keys_def slice_to_def fact_inv_def)


section \<open>Properties\<close>

datatype fact_op = FStore rat string val "val dict option" | FDelete string

fun fact_step :: "mem_env \<Rightarrow> fact_mem \<Rightarrow> fact_op \<Rightarrow> fact_mem" where
  "fact_step env m (FStore now k c md) = snd (fact_store env now k c md m)"
| "fact_step env m (FDelete k) = snd (fact_delete k m)"

text \<open>Stores with metadata that can be indexed, of keys that are not stored yet.\<close>

fun fresh_stores :: "mem_env \<Rightarrow> fact_mem \<Rightarrow> fact_op list \<Rightarrow> bool" where
  "fresh_stores env m [] = True"
| "fresh_stores env m (a # as) = ((case a of FStore now k c md \<Rightarrow> well_typed (fact_entry now k c md) \<and> dict_get (fm_store m) k = None
     | FDelete k \<Rightarrow> True) \<and> fresh_stores env (fact_step env m a) as)"

definition about :: "mem_entry \<Rightarrow> val \<Rightarrow> val \<Rightarrow> nat" where
  "about e a b = (if a = key_of (entry_domain e) then count (mset (map key_of (entry_entities e))) b else 0)"

definition index_exact :: "fact_mem \<Rightarrow> bool" where
  "index_exact m \<longleftrightarrow> (\<forall>a b k. count (mset (cell (fm_index m) a b)) k = (case dict_get (fm_store m) k of None \<Rightarrow> 0 | Some e \<Rightarrow> about e a b))"

lemma about_mset: "(if a = key_of (entry_domain e) then replicate_mset (count (mset (map key_of (entry_entities e))) b) k else {#}) = replicate_mset (about e a b) k"
  by (simp add: about_def)

lemma store_exact:
  assumes "index_exact m" "well_typed (fact_entry now k c md)" "dict_get (fm_store m) k = None"
  shows "index_exact (snd (fact_store env now k c md m))"
proof -
  obtain m' where m': "snd (fact_store env now k c md m) = m'" "fm_store m' = dict_set k (fact_entry now k c md) (fm_store m)"
    "\<And>a b. mset (cell (fm_index m') a b) = mset (cell (fm_index m) a b) + replicate_mset (about (fact_entry now k c md) a b) k"
    by (rule fact_store_spec[OF assms(2), of env m]) (auto simp: about_mset)
  have "count (mset (cell (fm_index m) a b)) k = 0" for a b using assms(1,3) by (simp add: index_exact_def)
  then show ?thesis using assms(1) unfolding m'(1) index_exact_def m'(2,3) by simp
qed

lemma delete_exact:
  assumes "index_exact m" "fact_inv m"
  shows "index_exact (snd (fact_delete k m))"
proof (cases "dict_get (fm_store m) k")
  case None
  then show ?thesis using assms(1) by (simp add: fact_delete_def)
next
  case (Some e)
  obtain m' where m': "snd (fact_delete k m) = m'" "fm_store m' = dict_pop k (fm_store m)"
    "\<And>a b. mset (cell (fm_index m') a b) = mset (cell (fm_index m) a b) - replicate_mset (about e a b) k"
    by (rule fact_delete_spec[OF assms(2) Some]) (auto simp: about_mset)
  have "count (mset (cell (fm_index m) a b)) k = about e a b" for a b using assms(1) Some by (simp add: index_exact_def)
  then show ?thesis using assms(1) unfolding m'(1) index_exact_def m'(2,3) by simp
qed

lemma delete_keeps_inv: "fact_inv m \<Longrightarrow> fact_inv (snd (fact_delete k m))"
  using semantic.del_total[of m k] by auto

lemma fresh_run:
  "fact_inv m \<Longrightarrow> index_exact m \<Longrightarrow> fresh_stores env m as \<Longrightarrow> fact_inv (foldl (fact_step env) m as) \<and> index_exact (foldl (fact_step env) m as)"
proof (induction as arbitrary: m)
  case (Cons a as)
  have "fact_inv (fact_step env m a) \<and> index_exact (fact_step env m a)"
  proof (cases a)
    case (FStore now k c md)
    then show ?thesis using Cons.prems by (simp add: store_inv store_exact)
  next
    case (FDelete k)
    then show ?thesis using Cons.prems by (simp add: delete_keeps_inv delete_exact)
  qed
  then show ?case using Cons.IH[of "fact_step env m a"] Cons.prems(3) by simp
qed simp

lemma new_inv: "fact_inv (fact_new cfg)" "index_exact (fact_new cfg)"
  by (simp_all add: fact_new_def fact_inv_def index_covers_def index_exact_def)

text \<open>(C39) The index of facts by domain and entity: as long as no key is stored twice, it lists exactly the facts that are stored
  for an entity in a domain, whatever is deleted in between and even when storing an embedding fails; and no deletion raises.\<close>

theorem fact_index_is_exact:
  fixes as :: "fact_op list"
  assumes "fresh_stores env (fact_new cfg) as"
  defines "m \<equiv> foldl (fact_step env) (fact_new cfg) as"
  shows "set (facts_for_entity x d m)
      = {k. \<exists>e. dict_get (fm_store m) k = Some e \<and> key_of (entry_domain e) = VStr d \<and> VStr x \<in> key_of ` set (entry_entities e)}
    \<and> (\<forall>k. fst (fact_delete k m) = Inr (dict_get (fm_store m) k \<noteq> None))"
proof -
  have inv: "fact_inv m" "index_exact m" using fresh_run[OF new_inv assms(1)] by (simp_all add: m_def)
  have "k \<in> set (facts_for_entity x d m) \<longleftrightarrow> count (mset (cell (fm_index m) (VStr d) (VStr x))) k \<noteq> 0" for k
    by (simp add: facts_for_entity_def cell_def)
  moreover have "fst (fact_delete k m) = Inr (dict_get (fm_store m) k \<noteq> None)" for k
    using semantic.del_total[OF inv(1), of k] by (auto simp: dict_get_eq_None simp del: set_map)
  ultimately show ?thesis using inv(2) unfolding index_exact_def about_def by (auto split: option.splits if_splits)
qed

text \<open>Storing a key again adds to the index and takes nothing out: after the fact is deleted, its entities still list it.\<close>

theorem overwritten_fact_stays_indexed:
  fixes env :: mem_env
  assumes "fact_inv m" "dict_get (fm_store m) k = Some e" "x \<in> set (entry_entities e)" "well_typed (fact_entry now k c md)"
  defines "m' \<equiv> snd (fact_delete k (snd (fact_store env now k c md m)))"
  shows "fst (fact_retrieve t k m') = Inr None \<and> k \<in> set (cell (fm_index m') (key_of (entry_domain e)) (key_of x))"
proof -
  let ?e = "fact_entry now k c md" let ?a = "key_of (entry_domain e)" let ?b = "key_of x"
  obtain m1 where m1: "snd (fact_store env now k c md m) = m1" "fm_store m1 = dict_set k ?e (fm_store m)"
    "\<And>a b. mset (cell (fm_index m1) a b) = mset (cell (fm_index m) a b) + replicate_mset (about ?e a b) k"
    by (rule fact_store_spec[OF assms(4), of env m]) (auto simp: about_mset)
  have inv: "fact_inv m1" using store_inv[OF assms(1,4), of env] m1(1) by simp
  have "dict_get (fm_store m1) k = Some ?e" by (simp add: m1(2))
  then obtain m2 where m2: "snd (fact_delete k m1) = m2" "fm_store m2 = dict_pop k (fm_store m1)"
    "\<And>a b. mset (cell (fm_index m2) a b) = mset (cell (fm_index m1) a b) - replicate_mset (about ?e a b) k"
    by (rule fact_delete_spec[OF inv]) (auto simp: about_mset)
  have "0 < count (mset (map key_of (entry_entities e))) ?b" using assms(3) by (simp add: count_greater_zero_iff)
  also have "\<dots> \<le> count (mset (cell (fm_index m) ?a ?b)) k" using assms(1,2) unfolding fact_inv_def index_covers_def by blast
  also have "\<dots> = count (mset (cell (fm_index m2) ?a ?b)) k" by (simp add: m2(3) m1(3))
  finally have "k \<in> set (cell (fm_index m2) ?a ?b)" by (simp add: count_greater_zero_iff)
  then show ?thesis by (simp add: m'_def m1(1) m2(1) fact_retrieve_def m2(2))
qed

text \<open>(C40) With vector search and an embedding that is not as long as configured, every store of a fact ends with an exception,
  and keeps the fact: it can be read by its key, has no embedding, and no search with a query finds anything.\<close>

theorem vector_store_always_raises:
  assumes "mc_vectors (fm_config m)" "int (length (mv_sha384 env (content_text env c))) < mc_dim (fm_config m)" "0 < mc_dim (fm_config m)"
    and "well_typed (fact_entry now k c md)" "fm_embeddings m = []"
  shows "\<exists>m'. fact_store env now k c md m = (Inl (Exn (OtherError ''DimensionMismatchError'') ''Vector embedding dimension mismatch''), m')
    \<and> fst (fact_retrieve t k m') = Inr (Some (fact_entry now k c md)) \<and> fm_config m' = fm_config m \<and> fm_embeddings m' = []
    \<and> (\<forall>query mx filters. query \<noteq> '''' \<longrightarrow> fact_search env query mx filters m' = Inr [])"
proof -
  have "length (embed env (mc_dim (fm_config m)) c) \<le> length (mv_sha384 env (content_text env c))"
    by (simp add: embed_def Let_def slice_to_def)
  then have "\<not> embeds env c (fm_config m)" using assms(1,2) by (simp add: embeds_def)
  then obtain m' where m': "fact_store env now k c md m = (Inl (Exn (OtherError ''DimensionMismatchError'') ''Vector embedding dimension mismatch''), m')"
    "fm_config m' = fm_config m" "fm_store m' = dict_set k (fact_entry now k c md) (fm_store m)" "fm_embeddings m' = []"
    by (rule_tac fact_store_spec[OF assms(4), of env m]) (auto simp: assms(5))
  have "fact_search env query mx filters m' = Inr []" if "query \<noteq> ''''" for query mx filters
    using that assms(1) by (simp add: fact_search_def m'(2,4) vector_search_def slice_to_def sort_desc_def)
  then show ?thesis using m' by (auto simp: fact_retrieve_def)
qed

text \<open>The relationships of facts are stored and never read: a knowledge graph is its root alone, however deep it may go,
  and no fact is related to an entity by a type of relationship.\<close>

theorem relationships_are_never_read:
  assumes "0 \<le> max_depth"
  shows "dict_keys (kg_nodes (knowledge_graph env start max_depth m)) = [start] \<and> kg_edges (knowledge_graph env start max_depth m) = []
    \<and> (t \<noteq> '''' \<longrightarrow> find_related x (Some t) mx m = [])"
  using assms by (simp add: knowledge_graph_def kg_visit_def find_related_def slice_to_def Let_def case_prod_unfold)

lemma fact_frame: "on_index f m = (r, m') \<Longrightarrow> fm_store m' = fm_store m" "on_relations g m = (r, m') \<Longrightarrow> fm_store m' = fm_store m"
  by (auto simp: on_index_def on_relations_def Let_def split: prod.splits)

lemma delete_store: "fact_delete k m = (Inr b, m') \<Longrightarrow> fm_store m' = dict_pop k (fm_store m)"
proof (cases "dict_get (fm_store m) k")
  case None
  assume "fact_delete k m = (Inr b, m')"
  moreover have "dict_pop k (fm_store m) = fm_store m"
    using None unfolding dict_pop_def by (intro filter_True) (metis dict_get_eq_None imageI set_map)
  ultimately show ?thesis using None by (simp add: fact_delete_def)
next
  case (Some e)
  assume "fact_delete k m = (Inr b, m')"
  then show ?thesis by (auto simp: fact_delete_def Some Let_def act_bind_Inr dest!: fact_frame)
qed

lemma deletes_store:
  "delete_each fact_delete ks m = (Inr u, m') \<Longrightarrow>
   dict_get (fm_store m') k = (if k \<in> set ks then None else dict_get (fm_store m) k)"
proof (induction ks arbitrary: m)
  case (Cons k1 ks)
  then obtain b m1 where "fact_delete k1 m = (Inr b, m1)"
    "delete_each fact_delete ks m1 = (Inr u, m')" by (auto simp: act_bind_Inr)
  then show ?case using Cons.IH[of m1] delete_store[of k1 m b m1] by auto
qed simp

definition merged_content :: "mem_env \<Rightarrow> rat \<Rightarrow> string list \<Rightarrow> fact_mem \<Rightarrow> val" where
  "merged_content env now ks m = VDict [(''merged_from'', VList (map VStr ks)),
     (''facts'', VList (map me_content (concat (map (\<lambda>k. case dict_get (fm_store m) k of None \<Rightarrow> [] | Some e \<Rightarrow> [e]) ks)))),
     (''merged_at'', VStr (mv_iso env now))]"

text \<open>A merge stores the merged fact and deletes the facts it was made from. When its key is one of theirs, that deletes the
  merged fact as well, and all of them are gone.\<close>

theorem merge_facts_outcome:
  assumes "merge_facts env order now ks merged m = (Inr True, m')"
  shows "(\<exists>md. \<forall>k. dict_get (fm_store m') k = (if k \<in> set ks then None
      else if k = merged then Some (fact_entry now merged (merged_content env now ks m) (Some md)) else dict_get (fm_store m) k))
    \<and> (merged \<in> set ks \<longrightarrow> fst (fact_retrieve t merged m') = Inr None)"
proof -
  let ?es = "concat (map (\<lambda>k. case dict_get (fm_store m) k of None \<Rightarrow> [] | Some e \<Rightarrow> [e]) ks)"
  obtain md m1 u1 u2 where m1: "fact_store env now merged (merged_content env now ks m) (Some md) m = (Inr u1, m1)"
    and m': "delete_each fact_delete ks m1 = (Inr u2, m')"
    using assms by (cases "merge_parts ?es") (auto simp: merge_facts_def Let_def act_bind_Inr merged_content_def split: if_splits prod.splits)
  have "fm_store m1 = dict_set merged (fact_entry now merged (merged_content env now ks m) (Some md)) (fm_store m)"
    using fact_store_stored[of env now merged "merged_content env now ks m" "Some md" m] m1 by simp
  then have "dict_get (fm_store m') k = (if k \<in> set ks then None
      else if k = merged then Some (fact_entry now merged (merged_content env now ks m) (Some md)) else dict_get (fm_store m) k)" for k
    using deletes_store[OF m', of k] by simp
  then show ?thesis by (auto simp: fact_retrieve_def)
qed

section \<open>Instances\<close>

definition demo_facts :: mem_env where
  "demo_facts = \<lparr>mv_text = (\<lambda>v. case v of VStr s \<Rightarrow> s | _ \<Rightarrow> ''''), mv_json = (\<lambda>v. ''''), mv_iso = (\<lambda>t. ''now''), mv_sha384 = (\<lambda>s. replicate 48 1)\<rparr>"

definition demo_meta :: "val dict option" where
  "demo_meta = Some [(''entities'', VList [VStr ''ada'']), (''domain'', VStr ''people'')]"

lemma demo_entry: "entry_domain (fact_entry now k c demo_meta) = VStr ''people''" "entry_entities (fact_entry now k c demo_meta) = [VStr ''ada'']"
  "entry_relations (fact_entry now k c demo_meta) = []" "well_typed (fact_entry now k c demo_meta)"
  by (simp_all add: entry_domain_def entry_entities_def entry_relations_def well_typed_def fact_entry_def entry_new_def demo_meta_def
      meta_or_empty_def fact_meta_def dict_union_def dict_get_or_def)

theorem fact_index_is_exact_witness:
  "let m = foldl (fact_step demo_facts) (fact_new mem_config_default)
       [FStore 0 ''a'' (VStr ''x'') demo_meta, FStore 1 ''b'' (VStr ''y'') demo_meta, FDelete ''a'']
   in set (facts_for_entity ''ada'' ''people'' m) = {''b''} \<and> fst (fact_delete ''b'' m) = Inr True"
proof -
  let ?as = "[FStore 0 ''a'' (VStr ''x'') demo_meta, FStore 1 ''b'' (VStr ''y'') demo_meta, FDelete ''a'']"
  let ?m0 = "fact_new mem_config_default"
  have stored: "fm_store (snd (fact_store env now k c md m)) = dict_set k (fact_entry now k c md) (fm_store m)" for env now k c md m
    by (rule fact_store_stored)
  have fresh: "fresh_stores demo_facts ?m0 ?as" by (simp add: demo_entry stored) (simp add: fact_new_def)
  have inv: "fact_inv (foldl (fact_step demo_facts) ?m0 (take 2 ?as))"
    using fresh_run[OF new_inv, of demo_facts mem_config_default "take 2 ?as"] by (simp add: demo_entry stored) (simp add: fact_new_def)
  have "dict_get (fm_store (foldl (fact_step demo_facts) ?m0 ?as)) k = (if k = ''b'' then Some (fact_entry 1 ''b'' (VStr ''y'') demo_meta) else None)" for k
    using semantic.del_total[OF inv, of "''a''"] delete_store[of "''a''" "foldl (fact_step demo_facts) ?m0 (take 2 ?as)"]
    by (auto simp: stored fact_new_def)
  from this fact_index_is_exact [OF fresh, of "''ada''" "''people''"] show ?thesis
    by (simp add: Let_def demo_entry)
qed

theorem overwritten_fact_stays_indexed_witness:
  "\<exists>m. k \<in> set (cell (fm_index m) (VStr ''people'') (VStr ''ada'')) \<and> fst (fact_retrieve 0 k m) = Inr None"
proof -
  let ?m = "snd (fact_store demo_facts 0 k (VStr ''x'') demo_meta (fact_new mem_config_default))"
  have "fact_inv ?m" by (rule store_inv[OF new_inv(1) demo_entry(4)])
  moreover have "dict_get (fm_store ?m) k = Some (fact_entry 0 k (VStr ''x'') demo_meta)" by (simp add: fact_store_stored)
  ultimately show ?thesis
    using overwritten_fact_stays_indexed [of ?m k "fact_entry 0 k (VStr ''x'') demo_meta" "VStr ''ada''" 1 "VStr ''y''" demo_meta 0 demo_facts]
    by (simp add: demo_entry) blast
qed

theorem vector_store_always_raises_witness:
  "\<exists>e m'. fact_store demo_facts 0 ''a'' (VStr ''x'') None (fact_new (mem_config_default\<lparr>mc_vectors := True\<rparr>)) = (Inl e, m')
    \<and> fact_search demo_facts ''x'' 10 None m' = Inr []"
proof -
  have "well_typed (fact_entry 0 ''a'' (VStr ''x'') None)"
    by (simp add: well_typed_def entry_domain_def entry_entities_def entry_relations_def fact_entry_def entry_new_def
        meta_or_empty_def fact_meta_def dict_union_def dict_get_or_def)
  from vector_store_always_raises [OF _ _ _ this, of "fact_new (mem_config_default\<lparr>mc_vectors := True\<rparr>)" demo_facts]
  show ?thesis by (fastforce simp: fact_new_def mem_config_default_def demo_facts_def)
qed

theorem relationships_are_never_read_witness:
  "dict_keys (kg_nodes (knowledge_graph demo_facts ''ada'' 2 (fact_new mem_config_default))) = [''ada'']"
  using relationships_are_never_read [of 2 demo_facts "''ada''" "fact_new mem_config_default"] by simp

theorem merge_facts_outcome_witness:
  "\<exists>m m'. merge_facts demo_facts (\<lambda>xs. xs) 1 [''a''] ''a'' m = (Inr True, m') \<and> dict_get (fm_store m) ''a'' \<noteq> None
    \<and> fst (fact_retrieve 2 ''a'' m') = Inr None"
proof -
  let ?m = "\<lparr>fm_config = mem_config_default, fm_store = [(''a'', entry_new ''a'' (VStr ''x'') [] 0 0 0)], fm_embeddings = [], fm_relations = [],
    fm_index = [], fm_tokens = 0, fm_cost = 0\<rparr>"
  obtain m' where run: "merge_facts demo_facts (\<lambda>xs. xs) 1 [''a''] ''a'' ?m = (Inr True, m')"
    by (simp add: merge_facts_def entry_new_def hash_set_def dict_get_or_def fact_store_def index_fact_def relate_fact_def embed_fact_def
        mem_config_default_def meta_or_empty_def fact_meta_def dict_union_def meta_get_def on_index_def on_relations_def act_bind_def
        fact_delete_def fact_entry_def Let_def)
  from merge_facts_outcome [OF run, of 2] show ?thesis using run by fastforce
qed


end
