(* ===== verification/ProceduralMem.thy ===== *)
theory ProceduralMem
  imports NestedIndex
begin

text \<open>
  Procedural memory (\<open>src/ice_core/memory/procedural_memory_store.py\<close>): procedures with their success
  rates, indexed by category and type and by domain and context.

  Success rates and usage counts are numbers, as the class writes them, and arguments have the types they are
  annotated with. The default procedures, which
  nothing loads, are left out.
\<close>

record proc_mem =
  pm_store :: "mem_entry dict"
  pm_metrics :: "(val \<times> val list dict) list"
  pm_usage :: "(val \<times> int dict) list"
  pm_categories :: "string nested"
  pm_contexts :: "string nested"

definition proc_new :: proc_mem where
  "proc_new = \<lparr>pm_store = [], pm_metrics = [], pm_usage = [], pm_categories = [], pm_contexts = []\<rparr>"

section \<open>Views of the indexes\<close>

definition nested_list :: "string \<Rightarrow> string option \<Rightarrow> string nested \<Rightarrow> string list" where
  "nested_list a b ix = (let inner = dict_get_or ix (VStr a) [] in
     (case b of None \<Rightarrow> concat (map snd inner) | Some s \<Rightarrow> if s = '''' then concat (map snd inner) else dict_get_or inner (VStr s) []))"

definition procedures_by_category :: "string \<Rightarrow> string option \<Rightarrow> proc_mem \<Rightarrow> string list" where
  "procedures_by_category category t m = nested_list category t (pm_categories m)"

definition procedures_by_context :: "string \<Rightarrow> string option \<Rightarrow> proc_mem \<Rightarrow> string list" where
  "procedures_by_context domain c m = nested_list domain c (pm_contexts m)"

definition success_metrics_for :: "string \<Rightarrow> proc_mem \<Rightarrow> val list dict" where
  "success_metrics_for domain m = dict_get_or (pm_metrics m) (VStr domain) []"

definition usage_stats_for :: "string \<Rightarrow> proc_mem \<Rightarrow> int dict" where
  "usage_stats_for domain m = dict_get_or (pm_usage m) (VStr domain) []"

section \<open>Storing and deleting\<close>

definition proc_meta :: "val dict \<Rightarrow> val dict" where
  "proc_meta md = dict_union md
     [(''category'', dict_get_or md ''category'' (VStr ''general'')), (''success_rate'', dict_get_or md ''success_rate'' (VFloat (1/2))),
      (''usage_count'', VInt 0), (''last_used'', VNone), (''contexts'', dict_get_or md ''contexts'' (VList [])),
      (''prerequisites'', dict_get_or md ''prerequisites'' (VList [])), (''outcomes'', dict_get_or md ''outcomes'' (VList []))]"

definition proc_entry :: "rat \<Rightarrow> string \<Rightarrow> val \<Rightarrow> val dict option \<Rightarrow> mem_entry" where
  "proc_entry now k c md = entry_new k c (proc_meta (meta_or_empty md)) now 0 0"

definition on_categories :: "(string nested \<Rightarrow> string nested effect) \<Rightarrow> (proc_mem, unit) act" where
  "on_categories f m = (let (ix, x) = f (pm_categories m) in (case x of None \<Rightarrow> Inr () | Some e \<Rightarrow> Inl e, m\<lparr>pm_categories := ix\<rparr>))"

definition on_contexts :: "(string nested \<Rightarrow> string nested effect) \<Rightarrow> (proc_mem, unit) act" where
  "on_contexts f m = (let (ix, x) = f (pm_contexts m) in (case x of None \<Rightarrow> Inr () | Some e \<Rightarrow> Inl e, m\<lparr>pm_contexts := ix\<rparr>))"

definition p_category :: "val dict \<Rightarrow> val" where
  "p_category meta = dict_get_or meta ''category'' (VStr ''general'')"

definition p_type :: "val dict \<Rightarrow> val" where
  "p_type meta = dict_get_or meta ''type'' (VStr ''generic'')"

definition p_domain :: "val dict \<Rightarrow> val" where
  "p_domain meta = dict_get_or meta ''domain'' (VStr ''general'')"

definition p_contexts :: "val dict \<Rightarrow> val list res" where
  "p_contexts meta = py_iter (dict_get_or meta ''contexts'' (VList []))"

definition proc_store :: "rat \<Rightarrow> string \<Rightarrow> val \<Rightarrow> val dict option \<Rightarrow> (proc_mem, unit) act" where
  "proc_store now k c md m = (case c of
       VDict d \<Rightarrow>
         if dict_get d ''name'' = None then (Inl (Exn ValueError ''Procedure must have a name''), m)
         else let meta = proc_meta (meta_or_empty md)
           in act_bind (on_categories (nested_append (p_category meta) (p_type meta) k)) (\<lambda>_.
              act_bind (act_res (p_contexts meta)) (\<lambda>cs. on_contexts (effect_fold (\<lambda>c. nested_append (p_domain meta) c k) cs)))
              (m\<lparr>pm_store := dict_set k (proc_entry now k c md) (pm_store m)\<rparr>)
     | _ \<Rightarrow> (Inl (Exn ValueError ''Procedure content must be a dictionary''), m))"

definition proc_retrieve :: "rat \<Rightarrow> string \<Rightarrow> (proc_mem, mem_entry option) act" where
  "proc_retrieve now k m = (Inr (dict_get (pm_store m) k), m)"

text \<open>The scores of the procedure go from every domain; the usage counts, which are by domain too, are looked up by the key.\<close>

definition forget_procedure :: "string \<Rightarrow> proc_mem \<Rightarrow> proc_mem" where
  "forget_procedure k m = m\<lparr>pm_store := dict_pop k (pm_store m), pm_metrics := map (\<lambda>(d, ms). (d, dict_pop k ms)) (pm_metrics m),
     pm_usage := dict_pop (VStr k) (pm_usage m)\<rparr>"

definition proc_delete :: "string \<Rightarrow> (proc_mem, bool) act" where
  "proc_delete k m = (case dict_get (pm_store m) k of
       None \<Rightarrow> (Inr False, m)
     | Some e \<Rightarrow> (let meta = me_meta e
         in act_bind (on_categories (nested_remove False (p_category meta) (p_type meta) k)) (\<lambda>_.
            act_bind (act_res (p_contexts meta)) (\<lambda>cs.
            act_bind (on_contexts (effect_fold (\<lambda>c. nested_remove False (p_domain meta) c k) cs)) (\<lambda>_ m.
              (Inr True, forget_procedure k m)))) m))"

definition proc_clear :: "string option \<Rightarrow> (proc_mem, nat) act" where
  "proc_clear pattern m = count_deleted proc_delete (filter (selected pattern) (dict_keys (pm_store m))) 0 m"

definition proc_list_keys :: "string option \<Rightarrow> int \<Rightarrow> proc_mem \<Rightarrow> string list" where
  "proc_list_keys pattern mx m = slice_to mx (filter (selected pattern) (dict_keys (pm_store m)))"

section \<open>Search\<close>

definition number :: "val \<Rightarrow> rat res" where
  "number v = (case as_num v of None \<Rightarrow> type_error | Some n \<Rightarrow> Inr (num_rat n))"

definition rate_of :: "mem_entry \<Rightarrow> rat res" where
  "rate_of e = number (dict_get_or (me_meta e) ''success_rate'' (VInt 0))"

definition uses_of :: "mem_entry \<Rightarrow> rat res" where
  "uses_of e = number (dict_get_or (me_meta e) ''usage_count'' (VInt 0))"

definition proc_matches :: "val dict \<Rightarrow> mem_entry \<Rightarrow> bool res" where
  "proc_matches filters e =
     wants filters ''category'' (\<lambda>v. Inr (py_eq (meta_get (me_meta e) ''category'') v))
     (wants filters ''min_success_rate'' (\<lambda>v. res_bind (py_ord Lt (dict_get_or (me_meta e) ''success_rate'' (VInt 0)) v) (\<lambda>b. Inr (\<not> b)))
     (wants filters ''context'' (\<lambda>v. py_in v (dict_get_or (me_meta e) ''contexts'' (VList [])))
     (wants filters ''has_prerequisites'' (\<lambda>v. Inr (py_eq (VBool (truth (meta_get (me_meta e) ''prerequisites''))) v))
     (Inr True))))"

definition rank_of :: "mem_entry \<Rightarrow> rat res" where
  "rank_of e = res_bind (rate_of e) (\<lambda>r. res_bind (uses_of e) (\<lambda>u. Inr (r * (7/10) + min (u / 100) (3/10))))"

definition ranked :: "(mem_entry \<Rightarrow> rat res) \<Rightarrow> mem_entry list \<Rightarrow> mem_entry list res" where
  "ranked f es = res_bind (res_map f es) (\<lambda>rs. Inr (map snd (sort_desc fst (zip rs es))))"

definition proc_search :: "mem_env \<Rightarrow> string \<Rightarrow> int \<Rightarrow> val dict option \<Rightarrow> proc_mem \<Rightarrow> mem_entry list res" where
  "proc_search env query mx filters m =
     res_bind (res_filter (\<lambda>e. res_bind (proc_matches (meta_or_empty filters) e) (\<lambda>b.
       Inr (b \<and> str_contains (str_lower query) (str_lower (mv_json env (me_content e)))))) (map snd (pm_store m))) (\<lambda>es.
     res_bind (ranked rank_of es) (\<lambda>es. Inr (slice_to mx es)))"

definition best_procedures :: "mem_env \<Rightarrow> string \<Rightarrow> rat \<Rightarrow> proc_mem \<Rightarrow> mem_entry list res" where
  "best_procedures env category min_rate m =
     res_bind (proc_search env '''' 10 (Some [(''category'', VStr category), (''min_success_rate'', VFloat min_rate)]) m) (\<lambda>es.
     res_bind (res_filter (\<lambda>e. res_bind (uses_of e) (\<lambda>u. Inr (5 \<le> u))) es) (\<lambda>old. Inr (if old \<noteq> [] then old else take 3 es)))"

section \<open>Applicable procedures\<close>

definition ctx_get :: "val dict \<Rightarrow> val \<Rightarrow> val res" where
  "ctx_get d v = res_bind (hash_key v) (\<lambda>k. Inr (case k of VStr s \<Rightarrow> meta_get d s | _ \<Rightarrow> VNone))"

fun all_given :: "val dict \<Rightarrow> val list \<Rightarrow> bool res" where
  "all_given d [] = Inr True"
| "all_given d (p # ps) = res_bind (ctx_get d p) (\<lambda>v. if truth v then all_given d ps else Inr False)"

definition condition_holds :: "val dict \<Rightarrow> string \<Rightarrow> val \<Rightarrow> bool res" where
  "condition_holds d field r = (let v = meta_get d field in case r of
       VList [lo, hi] \<Rightarrow> if v = VNone then Inr True else res_bind (py_ord LtE lo v) (\<lambda>b. if b then py_ord LtE v hi else Inr False)
     | _ \<Rightarrow> Inr (py_eq v r))"

fun conditions_hold :: "val dict \<Rightarrow> val dict \<Rightarrow> bool res" where
  "conditions_hold d [] = Inr True"
| "conditions_hold d ((f, r) # cs) = res_bind (condition_holds d f r) (\<lambda>b. if b then conditions_hold d cs else Inr False)"

definition content_item :: "val \<Rightarrow> string \<Rightarrow> val option" where
  "content_item c k = (case c of VDict d \<Rightarrow> dict_get d k | _ \<Rightarrow> None)"

definition is_applicable :: "val dict \<Rightarrow> mem_entry \<Rightarrow> bool res" where
  "is_applicable d e =
     (let cs = dict_get_or (me_meta e) ''contexts'' (VList [])
      in res_bind (if truth cs then py_in (dict_get_or d ''type'' (VStr '''')) cs else Inr True) (\<lambda>ok.
         if \<not> ok then Inr False
         else res_bind (res_bind (py_iter (dict_get_or (me_meta e) ''prerequisites'' (VList []))) (all_given d)) (\<lambda>ok.
              if \<not> ok then Inr False
              else case content_item (me_content e) ''applicable_when'' of
                  None \<Rightarrow> Inr True
                | Some (VDict w) \<Rightarrow> conditions_hold d w
                | Some v \<Rightarrow> Inl (Exn AttributeError (sq (type_name v) @ '' object has no attribute '' @ sq ''items'')))))"

definition find_applicable :: "val dict \<Rightarrow> string option \<Rightarrow> proc_mem \<Rightarrow> mem_entry list res" where
  "find_applicable d category m =
     (let ks = (case category of None \<Rightarrow> dict_keys (pm_store m)
         | Some c \<Rightarrow> if c = '''' then dict_keys (pm_store m) else procedures_by_category c None m)
      in res_bind (res_filter (is_applicable d) (concat (map (\<lambda>k. case dict_get (pm_store m) k of None \<Rightarrow> [] | Some e \<Rightarrow> [e]) ks)))
         (ranked rate_of))"

section \<open>Executions\<close>

text \<open>The newest score has the weight 1, each older one half of the next.\<close>

definition weights :: "nat \<Rightarrow> rat list" where
  "weights n = map (\<lambda>i. (1/2) ^ i) (rev [0..<n])"

definition weighted_rate :: "rat list \<Rightarrow> rat" where
  "weighted_rate ms = sum_list (map2 (*) ms (weights (length ms))) / sum_list (weights (length ms))"

definition set_meta :: "string \<Rightarrow> val \<Rightarrow> mem_entry \<Rightarrow> mem_entry" where
  "set_meta k v e = e\<lparr>me_meta := dict_set k v (me_meta e)\<rparr>"

definition put_entry :: "string \<Rightarrow> mem_entry \<Rightarrow> proc_mem \<Rightarrow> proc_mem" where
  "put_entry k e m = m\<lparr>pm_store := dict_set k e (pm_store m)\<rparr>"

text \<open>\<open>content['steps'][i]['template'] = v\<close>, where \<open>i\<close> is below the length and may be negative.\<close>

definition set_template :: "int \<Rightarrow> val \<Rightarrow> val dict \<Rightarrow> val dict res" where
  "set_template i v c = (case dict_get c ''steps'' of
       Some (VList steps) \<Rightarrow>
         (let n = int (length steps) in
          if n \<le> i then Inr c
          else if i < - n then Inl (Exn IndexError ''list index out of range'')
          else let j = nat (if i < 0 then i + n else i) in (case steps ! j of
              VDict s \<Rightarrow> Inr (dict_set ''steps'' (VList (steps[j := VDict (dict_set ''template'' v s)])) c)
            | _ \<Rightarrow> type_error))
     | Some v \<Rightarrow> type_error
     | None \<Rightarrow> Inr c)"

fun improve_templates :: "(string \<times> val) list \<Rightarrow> val dict \<Rightarrow> val dict effect" where
  "improve_templates [] c = (c, None)"
| "improve_templates ((i, v) # is) c =
     (case (if dict_get c ''steps'' = None then Inr c else res_bind (parse_int i) (\<lambda>n. set_template n v c)) of
        Inl e \<Rightarrow> (c, Some e)
      | Inr c' \<Rightarrow> improve_templates is c')"

definition adjust_conditions :: "val dict \<Rightarrow> val dict \<Rightarrow> val dict effect" where
  "adjust_conditions adj c = (case dict_get adj ''condition_adjustments'' of
       None \<Rightarrow> (c, None)
     | Some (VDict u) \<Rightarrow> (case dict_get c ''applicable_when'' of
           None \<Rightarrow> (dict_set ''applicable_when'' (VDict (dict_union [] u)) c, None)
         | Some (VDict w) \<Rightarrow> (dict_set ''applicable_when'' (VDict (dict_union w u)) c, None)
         | Some v \<Rightarrow> (c, Some (Exn AttributeError (sq (type_name v) @ '' object has no attribute '' @ sq ''update''))))
     | Some v \<Rightarrow> (if dict_get c ''applicable_when'' = None then dict_set ''applicable_when'' (VDict []) c else c,
         Some (Exn TypeError (sq (type_name v) @ '' object is not iterable''))))"

definition adjust_content :: "val dict \<Rightarrow> val dict \<Rightarrow> val dict effect" where
  "adjust_content adj c =
     (let (c1, x) = (case dict_get adj ''template_improvements'' of
          None \<Rightarrow> (c, None)
        | Some (VDict is) \<Rightarrow> improve_templates is c
        | Some v \<Rightarrow> (c, Some (Exn AttributeError (sq (type_name v) @ '' object has no attribute '' @ sq ''items''))))
      in if x \<noteq> None then (c1, x) else adjust_conditions adj c1)"

definition content_dict :: "val \<Rightarrow> val dict" where
  "content_dict c = (case c of VDict d \<Rightarrow> d | _ \<Rightarrow> [])"

definition apply_adjustments :: "mem_env \<Rightarrow> rat \<Rightarrow> string \<Rightarrow> val dict \<Rightarrow> (proc_mem, unit) act" where
  "apply_adjustments env now k adj m = (case dict_get (pm_store m) k of
       None \<Rightarrow> (Inr (), m)
     | Some e \<Rightarrow> (let (c, x) = adjust_content adj (content_dict (me_content e)); e1 = e\<lparr>me_content := VDict c\<rparr>
         in case x of
             Some err \<Rightarrow> (Inl err, put_entry k e1 m)
           | None \<Rightarrow> (let e2 = set_meta ''last_modified'' (VStr (mv_iso env now)) e1
               in case py_add (dict_get_or (me_meta e) ''modification_count'' (VInt 0)) (VInt 1) of
                   Inl err \<Rightarrow> (Inl err, put_entry k e2 m)
                 | Inr n \<Rightarrow> (Inr (), put_entry k (set_meta ''modification_count'' n e2) m))))"

text \<open>\<open>scores\<close> are those of the procedure in its domain, the new one last.\<close>

definition new_rate :: "val list \<Rightarrow> mem_entry \<Rightarrow> mem_entry res" where
  "new_rate scores e = (if length scores \<le> 1 then Inr e
     else res_bind (res_map number scores) (\<lambda>ms. Inr (set_meta ''success_rate'' (VFloat (weighted_rate ms)) e)))"

definition record_outcome :: "mem_env \<Rightarrow> rat \<Rightarrow> string \<Rightarrow> val dict \<Rightarrow> (proc_mem, unit) act" where
  "record_outcome env now k outcome m = (case dict_get (pm_store m) k of
       None \<Rightarrow> (Inr (), m)
     | Some e \<Rightarrow> (case hash_key (p_domain (me_meta e)) of
           Inl err \<Rightarrow> (Inl err, m)
         | Inr d \<Rightarrow>
            (let us = dict_get_or (pm_usage m) d []; n = dict_get_or us k 0 + 1;
                 e1 = set_meta ''last_used'' (VStr (mv_iso env now)) (set_meta ''usage_count'' (VInt n) e);
                 ms = dict_get_or (pm_metrics m) d []; scores = dict_get_or ms k [] @ [dict_get_or outcome ''success_score'' (VFloat (1/2))];
                 m1 = m\<lparr>pm_usage := dict_set d (dict_set k n us) (pm_usage m), pm_metrics := dict_set d (dict_set k scores ms) (pm_metrics m)\<rparr>
             in case new_rate scores e1 of
                 Inl err \<Rightarrow> (Inl err, put_entry k e1 m1)
               | Inr e2 \<Rightarrow> (case dict_get outcome ''learned_adjustments'' of
                     None \<Rightarrow> (Inr (), put_entry k e2 m1)
                   | Some (VDict adj) \<Rightarrow> apply_adjustments env now k adj (put_entry k e2 m1)
                   | Some v \<Rightarrow> (type_error, put_entry k e2 m1)))))"

section \<open>Composition and export\<close>

definition component_steps :: "mem_entry \<Rightarrow> val list res" where
  "component_steps e = (case content_item (me_content e) ''steps'' of
       Some s \<Rightarrow> py_iter s
     | None \<Rightarrow> (case content_item (me_content e) ''template'' of
           None \<Rightarrow> Inr []
         | Some t \<Rightarrow> Inr [VDict [(''action'', VStr ''use_template''), (''template'', t), (''source'', VStr (me_key e))]]))"

fun composite_parts :: "mem_entry list \<Rightarrow> (val list \<times> val list \<times> val list) res" where
  "composite_parts [] = Inr ([], [], [])"
| "composite_parts (e # es) =
     res_bind (component_steps e) (\<lambda>ss.
     res_bind (res_bind (p_contexts (me_meta e)) (res_map hash_key)) (\<lambda>cs.
     res_bind (res_bind (py_iter (dict_get_or (me_meta e) ''prerequisites'' (VList []))) (res_map hash_key)) (\<lambda>ps.
     res_bind (composite_parts es) (\<lambda>(ss', cs', ps'). Inr (ss @ ss', cs @ cs', ps @ ps')))))"

definition create_composite ::
  "(val list \<Rightarrow> val list) \<Rightarrow> rat \<Rightarrow> string list \<Rightarrow> string \<Rightarrow> string \<Rightarrow> (proc_mem, bool) act" where
  "create_composite order now ks composite name m =
     (let es = concat (map (\<lambda>k. case dict_get (pm_store m) k of None \<Rightarrow> [] | Some e \<Rightarrow> [e]) ks)
      in if es = [] then (Inr False, m)
         else act_bind (act_res (composite_parts es)) (\<lambda>(ss, cs, ps).
              act_bind (proc_store now composite
                (VDict [(''name'', VStr name), (''type'', VStr ''composite''), (''components'', VList (map VStr ks)), (''steps'', VList ss)])
                (Some [(''category'', VStr ''composite''), (''contexts'', VList (order (remdups cs))), (''prerequisites'', VList (order (remdups ps))),
                       (''success_rate'', VFloat (1/2))])) (\<lambda>_. act_ret True)) m)"

definition exportable :: "rat \<Rightarrow> rat \<Rightarrow> mem_entry \<Rightarrow> bool res" where
  "exportable min_rate min_uses e = res_bind (rate_of e) (\<lambda>r. if min_rate \<le> r then res_bind (uses_of e) (\<lambda>u. Inr (min_uses \<le> u)) else Inr False)"

definition export_procedures :: "rat \<Rightarrow> rat \<Rightarrow> proc_mem \<Rightarrow> (val \<times> val dict) dict res" where
  "export_procedures min_rate min_uses m =
     res_bind (res_filter (\<lambda>(k, e). exportable min_rate min_uses e) (pm_store m)) (\<lambda>ps.
     Inr (map (\<lambda>(k, e). (k, me_content e, [(''category'', meta_get (me_meta e) ''category''), (''success_rate'', meta_get (me_meta e) ''success_rate''),
       (''usage_count'', meta_get (me_meta e) ''usage_count''), (''contexts'', dict_get_or (me_meta e) ''contexts'' (VList []))])) ps))"

section \<open>Contract\<close>

definition typed_procedure :: "val dict \<Rightarrow> bool" where
  "typed_procedure meta \<longleftrightarrow> hashes (p_category meta) \<and> hashes (p_type meta) \<and> hashes (p_domain meta)
     \<and> (\<exists>cs. p_contexts meta = Inr cs \<and> (\<forall>c \<in> set cs. hashes c))"

definition proc_inv :: "proc_mem \<Rightarrow> bool" where
  "proc_inv m \<longleftrightarrow> dict_wf (pm_store m) \<and> (\<forall>k e. dict_get (pm_store m) k = Some e \<longrightarrow> typed_procedure (me_meta e))"

lemma proc_store_spec:
  assumes "typed_procedure (proc_meta (meta_or_empty md))" "dict_get d ''name'' \<noteq> None"
  obtains m' where "proc_store now k (VDict d) md m = (Inr (), m')" "pm_store m' = dict_set k (proc_entry now k (VDict d) md) (pm_store m)"
    "pm_usage m' = pm_usage m" "pm_metrics m' = pm_metrics m"
proof -
  let ?meta = "proc_meta (meta_or_empty md)"
  obtain cs where t: "hashes (p_category ?meta)" "hashes (p_type ?meta)" "hashes (p_domain ?meta)" "p_contexts ?meta = Inr cs" "\<forall>c \<in> set cs. hashes c"
    using assms(1) by (auto simp: typed_procedure_def)
  obtain a where a: "nested_append (p_category ?meta) (p_type ?meta) k (pm_categories m) = (a, None)" using append_ok[OF t(1,2), of k "pm_categories m"] by blast
  obtain b where b: "effect_fold (\<lambda>c. nested_append (p_domain ?meta) c k) cs (pm_contexts m) = (b, None)"
    using append_all_ok[OF t(3,5), of k "pm_contexts m"] by blast
  show ?thesis
    using that[of "m\<lparr>pm_store := dict_set k (proc_entry now k (VDict d) md) (pm_store m), pm_categories := a, pm_contexts := b\<rparr>"]
      assms(2) t(4) a b by (auto simp: proc_store_def Let_def on_categories_def on_contexts_def act_bind_def)
qed

lemma proc_delete_spec:
  assumes "typed_procedure (me_meta e)" "dict_get (pm_store m) k = Some e"
  obtains m' where "proc_delete k m = (Inr True, m')" "pm_store m' = dict_pop k (pm_store m)" "pm_usage m' = dict_pop (VStr k) (pm_usage m)"
    "pm_metrics m' = map (\<lambda>(d, ms). (d, dict_pop k ms)) (pm_metrics m)"
proof -
  let ?meta = "me_meta e"
  obtain cs where t: "hashes (p_category ?meta)" "hashes (p_type ?meta)" "hashes (p_domain ?meta)" "p_contexts ?meta = Inr cs" "\<forall>c \<in> set cs. hashes c"
    using assms(1) by (auto simp: typed_procedure_def)
  obtain a where a: "nested_remove False (p_category ?meta) (p_type ?meta) k (pm_categories m) = (a, None)"
    using remove_ok[OF t(1,2), where strict = False and x = k and ix = "pm_categories m"] by blast
  obtain b where b: "effect_fold (\<lambda>c. nested_remove False (p_domain ?meta) c k) cs (pm_contexts m) = (b, None)"
    using remove_all_ok[OF t(3,5), where strict = False and x = k and ix = "pm_contexts m"] by blast
  show ?thesis using that[of "forget_procedure k (m\<lparr>pm_categories := a, pm_contexts := b\<rparr>)"] assms(2) t(4) a b
    by (simp add: proc_delete_def Let_def on_categories_def on_contexts_def act_bind_def forget_procedure_def)
qed

lemma proc_frame: "on_categories f m = (r, m') \<Longrightarrow> pm_store m' = pm_store m" "on_contexts g m = (r, m') \<Longrightarrow> pm_store m' = pm_store m"
  by (auto simp: on_categories_def on_contexts_def Let_def split: prod.splits)

interpretation procedural: agent_memory proc_inv "\<lambda>m. dict_keys (pm_store m)" proc_store proc_retrieve proc_delete "proc_list_keys None 100"
proof
  fix m now k c md m'
  assume put: "proc_store now k c md m = (Inr (), m')"
  have "pm_store m' = dict_set k (proc_entry now k c md) (pm_store m)"
  proof (cases c)
    case (VDict d)
    then show ?thesis using put
      by (auto simp: proc_store_def Let_def act_bind_Inr dest!: proc_frame split: if_splits)
  qed (use put in \<open>simp_all add: proc_store_def\<close>)
  then show "\<exists>e s''. proc_retrieve now k m' = (Inr (Some e), s'') \<and> me_key e = k \<and> me_content e = c"
    by (simp add: proc_retrieve_def proc_entry_def entry_new_def)
next
  fix m k
  assume inv: "proc_inv m"
  show "\<exists>s'. proc_delete k m = (Inr (k \<in> set (dict_keys (pm_store m))), s') \<and> proc_inv s'
      \<and> dict_keys (pm_store s') = filter (\<lambda>x. x \<noteq> k) (dict_keys (pm_store m))"
  proof (cases "dict_get (pm_store m) k")
    case None
    then have k: "k \<notin> set (dict_keys (pm_store m))" by (rule iffD1[OF dict_get_eq_None])
    then have "filter (\<lambda>x. x \<noteq> k) (dict_keys (pm_store m)) = dict_keys (pm_store m)" by (metis (mono_tags, lifting) filter_True)
    moreover have "proc_delete k m = (Inr False, m)" using None by (simp add: proc_delete_def)
    ultimately show ?thesis using inv k by metis
  next
    case (Some e)
    then have k: "k \<in> set (dict_keys (pm_store m))" by (rule dict_get_keys)
    obtain m' where d: "proc_delete k m = (Inr True, m')" "pm_store m' = dict_pop k (pm_store m)"
      using proc_delete_spec[OF _ Some] inv Some unfolding proc_inv_def by metis
    have "proc_inv m'" using inv by (auto simp: proc_inv_def d(2) split: if_splits)
    moreover have "dict_keys (pm_store m') = filter (\<lambda>x. x \<noteq> k) (dict_keys (pm_store m))" by (simp only: d(2) dict_keys_pop)
    ultimately show ?thesis using k d(1) by metis
  qed
qed (simp_all add: proc_list_keys_def slice_to_def proc_inv_def)

section \<open>Success rates\<close>

lemma weights_Suc: "weights (Suc n) = map ((*) (1/2)) (weights n) @ [1]"
proof -
  have "rev [0..<Suc n] = map Suc (rev [0..<n]) @ [0]" by (simp add: rev_map[symmetric] map_Suc_upt upt_conv_Cons del: upt_Suc)
  then show ?thesis by (simp add: weights_def comp_def del: upt_Suc)
qed

lemma length_weights [simp]: "length (weights n) = n"
  by (simp add: weights_def)

lemma half_weights: "sum_list (map ((*) (1/2)) (weights n)) = sum_list (weights n) / 2"
  by (simp add: sum_list_const_mult)

lemma sum_weights: "0 \<le> sum_list (weights n) \<and> sum_list (weights n) < 2"
proof (induction n)
  case 0
  have "weights 0 = []" by (simp add: weights_def)
  then show ?case by simp
next
  case (Suc n)
  then show ?case by (simp add: weights_Suc half_weights)
qed

definition weighted_sum :: "rat list \<Rightarrow> rat" where
  "weighted_sum ms = sum_list (map2 (*) ms (weights (length ms)))"

lemma weighted_sum_snoc: "weighted_sum (xs @ [x]) = weighted_sum xs / 2 + x"
proof -
  have half: "sum_list (map2 (*) ys (map ((*) (1/2)) ws)) = sum_list (map2 (*) ys ws) / (2::rat)" for ys ws
    by (induction ys ws rule: list_induct2') (auto simp: add_divide_distrib)
  have "map2 (*) (xs @ [x]) (weights (Suc (length xs))) = map2 (*) xs (map ((*) (1/2)) (weights (length xs))) @ [x]"
    by (simp add: weights_Suc)
  then show ?thesis by (simp add: weighted_sum_def half del: list.map)
qed

lemma weighted_sum_bounds: "\<forall>x \<in> set xs. 0 \<le> x \<and> x \<le> 1 \<Longrightarrow> 0 \<le> weighted_sum xs \<and> weighted_sum xs \<le> sum_list (weights (length xs))"
proof (induction xs rule: rev_induct)
  case Nil
  have "weights 0 = []" by (simp add: weights_def)
  then show ?case by (simp add: weighted_sum_def)
next
  case (snoc x xs)
  then show ?case by (simp add: weighted_sum_snoc weights_Suc half_weights)
qed

lemma rate_gap:
  fixes N W x y :: rat
  assumes "0 \<le> N" "N \<le> W" "W < 2" "0 \<le> y" "y \<le> W" "y = x * W"
  shows "(x - 1/2) * (W / 2 + 1) < N / 2 + x" "N / 2 + x < (x + 1/2) * (W / 2 + 1)"
proof -
  have "(x - 1/2) * (W / 2 + 1) = y / 2 + x - W / 4 - 1/2" "(x + 1/2) * (W / 2 + 1) = y / 2 + x + W / 4 + 1/2"
    by (simp_all add: assms(6) algebra_simps add_divide_distrib diff_divide_distrib)
  then show "(x - 1/2) * (W / 2 + 1) < N / 2 + x" "N / 2 + x < (x + 1/2) * (W / 2 + 1)" using assms(1-5) by linarith+
qed

lemma weighted_rate_snoc:
  assumes "\<forall>y \<in> set (xs @ [x]). 0 \<le> y \<and> y \<le> 1"
  shows "0 \<le> weighted_rate (xs @ [x]) \<and> weighted_rate (xs @ [x]) \<le> 1 \<and> \<bar>weighted_rate (xs @ [x]) - x\<bar> < 1/2"
proof -
  let ?W = "sum_list (weights (length xs))" let ?N = "weighted_sum xs"
  have W: "0 \<le> ?W" "?W < 2" using sum_weights[of "length xs"] by simp_all
  have N: "0 \<le> ?N" "?N \<le> ?W" using weighted_sum_bounds[of xs] assms by simp_all
  have x: "0 \<le> x" "x \<le> 1" using assms by simp_all
  have "sum_list (weights (length (xs @ [x]))) = ?W / 2 + 1" by (simp add: weights_Suc half_weights)
  then have r: "weighted_rate (xs @ [x]) = (?N / 2 + x) / (?W / 2 + 1)"
    unfolding weighted_rate_def weighted_sum_def[symmetric] by (simp only: weighted_sum_snoc)
  have pos: "0 < ?W / 2 + 1" using W by simp
  have "?N / 2 + x \<le> ?W / 2 + 1" using N x by simp
  then have in01: "0 \<le> weighted_rate (xs @ [x])" "weighted_rate (xs @ [x]) \<le> 1" using N x pos unfolding r by (simp_all add: divide_le_eq)
  have "x * ?W \<le> ?W" "0 \<le> x * ?W" using W x mult_left_le_one_le[of ?W x] by simp_all
  then have "(x - 1/2) * (?W / 2 + 1) < ?N / 2 + x" "?N / 2 + x < (x + 1/2) * (?W / 2 + 1)"
    using rate_gap[OF N W(2) _ _ refl] by blast+
  then have "x - 1/2 < weighted_rate (xs @ [x])" "weighted_rate (xs @ [x]) < x + 1/2"
    using pos unfolding r by (simp_all add: less_divide_eq divide_less_eq)
  then show ?thesis using in01 by (auto simp only: abs_less_iff)
qed


section \<open>Properties\<close>

definition scores_of :: "string \<Rightarrow> mem_entry \<Rightarrow> proc_mem \<Rightarrow> val list" where
  "scores_of k e m = dict_get_or (dict_get_or (pm_metrics m) (key_of (p_domain (me_meta e))) []) k []"

definition uses_in :: "val \<Rightarrow> string \<Rightarrow> proc_mem \<Rightarrow> int" where
  "uses_in d k m = dict_get_or (dict_get_or (pm_usage m) d []) k 0"

lemma numbers: "res_map number (map VFloat xs) = Inr xs"
  by (induction xs) (simp_all add: number_def)

lemma meta_set: "meta_get (me_meta (set_meta a v e)) b = (if b = a then v else meta_get (me_meta e) b)"
  by (simp add: set_meta_def meta_get_def dict_get_or_def)

lemma record_plain:
  assumes "dict_get (pm_store m) k = Some e" "hashes (p_domain (me_meta e))" "scores_of k e m = map VFloat xs"
    and "dict_get outcome ''success_score'' = Some (VFloat x)" "dict_get outcome ''learned_adjustments'' = None"
  obtains m' e' where "record_outcome env now k outcome m = (Inr (), m')" "dict_get (pm_store m') k = Some e'"
    "meta_get (me_meta e') ''success_rate'' = (if xs = [] then meta_get (me_meta e) ''success_rate'' else VFloat (weighted_rate (xs @ [x])))"
    "meta_get (me_meta e') ''usage_count'' = VInt (uses_in (key_of (p_domain (me_meta e))) k m + 1)"
proof -
  let ?d = "key_of (p_domain (me_meta e))"
  let ?e1 = "set_meta ''last_used'' (VStr (mv_iso env now)) (set_meta ''usage_count'' (VInt (uses_in ?d k m + 1)) e)"
  let ?m1 = "m\<lparr>pm_usage := dict_set ?d (dict_set k (uses_in ?d k m + 1) (dict_get_or (pm_usage m) ?d [])) (pm_usage m),
    pm_metrics := dict_set ?d (dict_set k (map VFloat (xs @ [x])) (dict_get_or (pm_metrics m) ?d [])) (pm_metrics m)\<rparr>"
  have score: "dict_get_or outcome ''success_score'' (VFloat (1/2)) = VFloat x" using assms(4) by (simp add: dict_get_or_def)
  have rate: "new_rate (map VFloat (xs @ [x])) e = Inr (if xs = [] then e else set_meta ''success_rate'' (VFloat (weighted_rate (xs @ [x]))) e)" for e
    using numbers[of "xs @ [x]"] by (simp add: new_rate_def)
  have "record_outcome env now k outcome m
      = (Inr (), put_entry k (if xs = [] then ?e1 else set_meta ''success_rate'' (VFloat (weighted_rate (xs @ [x]))) ?e1) ?m1)"
    using rate[of ?e1] assms(5)
    by (simp add: record_outcome_def assms(1) hashes_key[OF assms(2)] score assms(3)[unfolded scores_of_def] uses_in_def Let_def)
  note run = this
  show ?thesis
  proof (cases "xs = []")
    case True
    then show ?thesis using that[OF run] by (simp add: put_entry_def meta_set)
  next
    case False
    then show ?thesis using that[OF run] by (simp add: put_entry_def meta_set)
  qed
qed

text \<open>The first recorded outcome of a procedure leaves its success rate as it was. After every later one, with scores
  between 0 and 1, the rate is between 0 and 1 as well and closer than one half to the newest score: it weighs more than all the
  others together.\<close>

theorem newest_score_weighs_most:
  assumes "dict_get (pm_store m) k = Some e" "hashes (p_domain (me_meta e))" "scores_of k e m = map VFloat xs"
    and "dict_get outcome ''success_score'' = Some (VFloat x)" "dict_get outcome ''learned_adjustments'' = None"
    and "\<forall>y \<in> set (xs @ [x]). 0 \<le> y \<and> y \<le> 1"
  shows "\<exists>m' e'. record_outcome env now k outcome m = (Inr (), m') \<and> dict_get (pm_store m') k = Some e'
    \<and> (if xs = [] then meta_get (me_meta e') ''success_rate'' = meta_get (me_meta e) ''success_rate''
       else \<exists>r. meta_get (me_meta e') ''success_rate'' = VFloat r \<and> 0 \<le> r \<and> r \<le> 1 \<and> \<bar>r - x\<bar> < 1/2)"
  using record_plain[OF assms(1-5), of env now] weighted_rate_snoc[OF assms(6)] by metis

text \<open>Deleting a procedure keeps the number of times it was used: the counts are kept by domain, and deletion looks them up by the
  key. A new procedure of that key, stored with a count of 0, goes on counting where the deleted one ended.\<close>

theorem deleted_procedure_keeps_its_uses:
  assumes "dict_get (pm_store m) k = Some e" "typed_procedure (me_meta e)"
    and "typed_procedure (proc_meta (meta_or_empty md))" "dict_get d ''name'' \<noteq> None"
    and "key_of (p_domain (proc_meta (meta_or_empty md))) \<noteq> VStr k"
    and "dict_get outcome ''success_score'' = Some (VFloat x)" "dict_get outcome ''learned_adjustments'' = None"
  shows "\<exists>m1 m2 m3 e'. proc_delete k m = (Inr True, m1) \<and> proc_store now k (VDict d) md m1 = (Inr (), m2)
    \<and> record_outcome env t k outcome m2 = (Inr (), m3) \<and> dict_get (pm_store m3) k = Some e'
    \<and> meta_get (me_meta e') ''usage_count'' = VInt (uses_in (key_of (p_domain (proc_meta (meta_or_empty md)))) k m + 1)"
proof -
  let ?e = "proc_entry now k (VDict d) md" let ?d = "key_of (p_domain (proc_meta (meta_or_empty md)))"
  obtain m1 where m1: "proc_delete k m = (Inr True, m1)" "pm_usage m1 = dict_pop (VStr k) (pm_usage m)"
    "pm_metrics m1 = map (\<lambda>(d, ms). (d, dict_pop k ms)) (pm_metrics m)"
    by (rule proc_delete_spec[OF assms(2,1)]) (rule that)
  obtain m2 where m2: "proc_store now k (VDict d) md m1 = (Inr (), m2)" "pm_store m2 = dict_set k ?e (pm_store m1)" "pm_usage m2 = pm_usage m1"
    "pm_metrics m2 = pm_metrics m1" by (rule proc_store_spec[OF assms(3,4), of now k m1]) (rule that)
  have meta: "me_meta ?e = proc_meta (meta_or_empty md)" by (simp add: proc_entry_def entry_new_def)
  have kept: "uses_in ?d k m2 = uses_in ?d k m" using assms(5) by (simp add: uses_in_def m2(3) m1(2) dict_get_or_def)
  have "dict_get (map (\<lambda>(d, ms). (d, dict_pop k ms)) xs) a = map_option (dict_pop k) (dict_get xs a)" for xs :: "(val \<times> val list dict) list" and a
    by (induction xs) auto
  then have "scores_of k ?e m2 = map VFloat []"
    by (simp add: scores_of_def m2(4) m1(3) dict_get_or_def split: option.split)
  moreover have "hashes (p_domain (me_meta ?e))" using assms(3) by (simp add: meta typed_procedure_def)
  moreover have "dict_get (pm_store m2) k = Some ?e" by (simp add: m2(2))
  ultimately show ?thesis using record_plain[of m2 k ?e "[]" outcome x env t] assms(6,7) kept meta m1(1) m2(1) by metis
qed

section \<open>Instances\<close>

definition greet :: "val dict" where
  "greet = [(''name'', VStr ''greet'')]"

lemma typed_default: "typed_procedure (proc_meta (meta_or_empty None))" "p_domain (proc_meta (meta_or_empty None)) = VStr ''general''"
  by (simp_all add: typed_procedure_def p_category_def p_type_def p_domain_def p_contexts_def proc_meta_def meta_or_empty_def dict_union_def dict_get_or_def)

definition scored :: "rat \<Rightarrow> val dict" where
  "scored x = [(''success_score'', VFloat x)]"

definition greeting :: proc_mem where
  "greeting = \<lparr>pm_store = [(''g'', proc_entry 0 ''g'' (VDict greet) None)], pm_metrics = [(VStr ''general'', [(''g'', [VFloat 1])])],
     pm_usage = [(VStr ''general'', [(''g'', 1)])], pm_categories = [], pm_contexts = []\<rparr>"

lemma greeting_entry: "dict_get (pm_store greeting) ''g'' = Some (proc_entry 0 ''g'' (VDict greet) None)"
  "me_meta (proc_entry 0 ''g'' (VDict greet) None) = proc_meta (meta_or_empty None)"
  by (simp_all add: greeting_def proc_entry_def entry_new_def)

theorem newest_score_weighs_most_witness:
  "\<forall>env. \<exists>m' e' r. record_outcome env 1 ''g'' (scored 0) greeting = (Inr (), m') \<and> dict_get (pm_store m') ''g'' = Some e'
    \<and> meta_get (me_meta e') ''success_rate'' = VFloat r \<and> r < 1/2"
proof
  fix env :: mem_env
  have "scores_of ''g'' (proc_entry 0 ''g'' (VDict greet) None) greeting = map VFloat [1]"
    by (simp add: scores_of_def greeting_entry(2) typed_default(2)) (simp add: greeting_def dict_get_or_def)
  from newest_score_weighs_most [OF greeting_entry(1) _ this, of "scored 0" 0 env 1]
  show "\<exists>m' e' r. record_outcome env 1 ''g'' (scored 0) greeting = (Inr (), m') \<and> dict_get (pm_store m') ''g'' = Some e'
    \<and> meta_get (me_meta e') ''success_rate'' = VFloat r \<and> r < 1/2"
    by (simp add: greeting_entry(2) typed_default(2) scored_def) fastforce
qed

theorem deleted_procedure_keeps_its_uses_witness:
  "\<forall>env. \<exists>m1 m2 m3 e'. proc_delete ''g'' greeting = (Inr True, m1) \<and> proc_store 2 ''g'' (VDict greet) None m1 = (Inr (), m2)
    \<and> record_outcome env 3 ''g'' (scored 1) m2 = (Inr (), m3) \<and> dict_get (pm_store m3) ''g'' = Some e'
    \<and> meta_get (me_meta e') ''usage_count'' = VInt 2"
proof
  fix env :: mem_env
  have "uses_in (VStr ''general'') ''g'' greeting = 1" by (simp add: uses_in_def greeting_def dict_get_or_def)
  moreover have "typed_procedure (me_meta (proc_entry 0 ''g'' (VDict greet) None))" by (simp add: greeting_entry(2) typed_default(1))
  moreover have "dict_get greet ''name'' \<noteq> None" "dict_get (scored 1) ''success_score'' = Some (VFloat 1)" "dict_get (scored 1) ''learned_adjustments'' = None"
    by (simp_all add: greet_def scored_def)
  ultimately show "\<exists>m1 m2 m3 e'. proc_delete ''g'' greeting = (Inr True, m1) \<and> proc_store 2 ''g'' (VDict greet) None m1 = (Inr (), m2)
    \<and> record_outcome env 3 ''g'' (scored 1) m2 = (Inr (), m3) \<and> dict_get (pm_store m3) ''g'' = Some e'
    \<and> meta_get (me_meta e') ''usage_count'' = VInt 2"
    using deleted_procedure_keeps_its_uses [OF greeting_entry(1), of None greet "scored 1" 1 2 env 3] by (simp add: typed_default)
qed

end
