(* ===== verification/Pools.thy ===== *)
theory Pools
  imports Working Episodic SemanticMem ProceduralMem
begin

text \<open>
  The memory of an agent as a whole (\<open>src/ice_core/memory/unified_memory_facade.py\<close>), which routes keys to
  the four memories, and the pools of memory that workflows share (\<open>src/ice_core/services/shared_memory.py\<close>).
  Log output and the idle clean-up task of the service are left out.

  Parameters: the order in which Python walks through a set, its \<open>hash\<close> of a text, and whether the Redis library
  is there and what its \<open>ping\<close> answers.
\<close>

section \<open>Any memory\<close>

datatype memory = MWork work_mem | MEpi epi_mem | MFact fact_mem | MProc proc_mem

definition lifted :: "('s \<Rightarrow> memory) \<Rightarrow> ('s, 'a) act \<Rightarrow> 's \<Rightarrow> 'a res \<times> memory" where
  "lifted mk a s = (let (r, s') = a s in (r, mk s'))"

fun mem_put :: "mem_env \<Rightarrow> rat \<Rightarrow> string \<Rightarrow> val \<Rightarrow> val dict option \<Rightarrow> (memory, unit) act" where
  "mem_put env now k c md (MWork w) = lifted MWork (work_store now k c md) w"
| "mem_put env now k c md (MEpi w) = lifted MEpi (epi_store now k c md) w"
| "mem_put env now k c md (MFact w) = lifted MFact (fact_store env now k c md) w"
| "mem_put env now k c md (MProc w) = lifted MProc (proc_store now k c md) w"

fun mem_get :: "rat \<Rightarrow> string \<Rightarrow> (memory, mem_entry option) act" where
  "mem_get now k (MWork w) = lifted MWork (work_retrieve now k) w"
| "mem_get now k (MEpi w) = lifted MEpi (epi_retrieve now k) w"
| "mem_get now k (MFact w) = lifted MFact (fact_retrieve now k) w"
| "mem_get now k (MProc w) = lifted MProc (proc_retrieve now k) w"

fun mem_del :: "string \<Rightarrow> (memory, bool) act" where
  "mem_del k (MWork w) = lifted MWork (work_delete k) w"
| "mem_del k (MEpi w) = lifted MEpi (epi_delete k) w"
| "mem_del k (MFact w) = lifted MFact (fact_delete k) w"
| "mem_del k (MProc w) = lifted MProc (proc_delete k) w"

fun mem_search :: "mem_env \<Rightarrow> (string list \<Rightarrow> string list) \<Rightarrow> rat \<Rightarrow> string \<Rightarrow> int \<Rightarrow> val dict option \<Rightarrow> memory \<Rightarrow> mem_entry list res" where
  "mem_search env order now q mx f (MWork w) = Inr (work_search env now q mx f w)"
| "mem_search env order now q mx f (MEpi w) = epi_search env order q mx f w"
| "mem_search env order now q mx f (MFact w) = fact_search env q mx f w"
| "mem_search env order now q mx f (MProc w) = proc_search env q mx f w"

fun mem_clear :: "string option \<Rightarrow> (memory, nat) act" where
  "mem_clear p (MWork w) = (let (n, w') = work_clear p w in (Inr n, MWork w'))"
| "mem_clear p (MEpi w) = (let (n, w') = epi_clear p w in (Inr n, MEpi w'))"
| "mem_clear p (MFact w) = lifted MFact (fact_clear p) w"
| "mem_clear p (MProc w) = lifted MProc (proc_clear p) w"

fun mem_list :: "string option \<Rightarrow> int \<Rightarrow> memory \<Rightarrow> string list" where
  "mem_list p mx (MWork w) = work_list_keys p mx w"
| "mem_list p mx (MEpi w) = epi_list_keys p mx w"
| "mem_list p mx (MFact w) = fact_list_keys p mx w"
| "mem_list p mx (MProc w) = proc_list_keys p mx w"

section \<open>The facade\<close>

record um_config =
  uc_backend :: string
  uc_vectors :: bool
  uc_working :: "mem_config option option"
  uc_episodic :: "mem_config option option"
  uc_semantic :: "mem_config option option"
  uc_procedural :: "mem_config option option"
  uc_domains :: "string list"

text \<open>A memory is on when its field is \<open>Some\<close>, and has a configuration of its own or the default one.\<close>

definition um_config_default :: um_config where
  "um_config_default = \<lparr>uc_backend = ''redis'', uc_vectors = True, uc_working = Some None, uc_episodic = Some None,
     uc_semantic = Some None, uc_procedural = Some None, uc_domains = [''general'', ''marketplace'', ''pricing'', ''inventory'']\<rparr>"

record unified =
  um_memories :: "memory dict"
  um_domains :: "string list"

definition sub_config :: "string \<Rightarrow> bool \<Rightarrow> mem_config option \<Rightarrow> mem_config" where
  "sub_config backend vectors c = (case c of Some c \<Rightarrow> c | None \<Rightarrow> mem_config_default\<lparr>mc_backend := backend, mc_vectors := vectors\<rparr>)"

definition um_new :: "um_config \<Rightarrow> unified" where
  "um_new c = \<lparr>um_memories =
       (case uc_working c of None \<Rightarrow> [] | Some s \<Rightarrow> [(''working'', MWork (work_new (Some (sub_config ''memory'' (uc_vectors c) s))))])
     @ (case uc_episodic c of None \<Rightarrow> [] | Some s \<Rightarrow> [(''episodic'', MEpi (epi_new (sub_config (uc_backend c) (uc_vectors c) s)))])
     @ (case uc_semantic c of None \<Rightarrow> [] | Some s \<Rightarrow> [(''semantic'', MFact (fact_new (sub_config (uc_backend c) (uc_vectors c) s)))])
     @ (case uc_procedural c of None \<Rightarrow> [] | Some s \<Rightarrow> [(''procedural'', MProc proc_new)]),
     um_domains = uc_domains c\<rparr>"

fun mem_initialize :: "bool \<Rightarrow> bool res \<Rightarrow> memory \<Rightarrow> memory" where
  "mem_initialize lib ping (MEpi m) = MEpi (epi_initialize lib ping m)"
| "mem_initialize lib ping m = m"

definition um_initialize :: "bool \<Rightarrow> bool res \<Rightarrow> unified \<Rightarrow> unified" where
  "um_initialize lib ping u = u\<lparr>um_memories := map (\<lambda>(t, m). (t, mem_initialize lib ping m)) (um_memories u)\<rparr>"

definition memory_type :: "string \<Rightarrow> string" where
  "memory_type k = (if prefix ''work:'' k then ''working'' else if prefix ''episode:'' k then ''episodic''
     else if prefix ''fact:'' k then ''semantic'' else if prefix ''procedure:'' k then ''procedural'' else ''working'')"

definition type_or :: "string option \<Rightarrow> string \<Rightarrow> string" where
  "type_or t k = (case t of None \<Rightarrow> memory_type k | Some t \<Rightarrow> t)"

text \<open>An action on the memory of a type, if it is on.\<close>

definition on_memory :: "string \<Rightarrow> 'a res \<Rightarrow> (memory, 'a) act \<Rightarrow> (unified, 'a) act" where
  "on_memory t absent a u = (case dict_get (um_memories u) t of
       None \<Rightarrow> (absent, u)
     | Some m \<Rightarrow> (let (r, m') = a m in (r, u\<lparr>um_memories := dict_set t m' (um_memories u)\<rparr>)))"

definition um_store :: "mem_env \<Rightarrow> rat \<Rightarrow> string \<Rightarrow> val \<Rightarrow> val dict option \<Rightarrow> string option \<Rightarrow> (unified, unit) act" where
  "um_store env now k c md t = on_memory (type_or t k) (Inl (Exn ValueError (''Memory type '' @ sq (type_or t k) @ '' not enabled''))) (mem_put env now k c md)"

definition um_retrieve :: "rat \<Rightarrow> string \<Rightarrow> string option \<Rightarrow> (unified, mem_entry option) act" where
  "um_retrieve now k t = on_memory (type_or t k) (Inr None) (mem_get now k)"

definition um_delete :: "string \<Rightarrow> string option \<Rightarrow> (unified, bool) act" where
  "um_delete k t = on_memory (type_or t k) (Inr False) (mem_del k)"

definition um_search ::
  "mem_env \<Rightarrow> (string list \<Rightarrow> string list) \<Rightarrow> rat \<Rightarrow> string \<Rightarrow> string list option \<Rightarrow> int \<Rightarrow> val dict option \<Rightarrow> unified \<Rightarrow> mem_entry list res" where
  "um_search env order now q ts mx f u =
     res_bind (res_map (\<lambda>t. case dict_get (um_memories u) t of None \<Rightarrow> Inr [] | Some m \<Rightarrow> mem_search env order now q mx f m)
       (case ts of None \<Rightarrow> dict_keys (um_memories u) | Some ts \<Rightarrow> ts)) (\<lambda>rs. Inr (slice_to mx (concat rs)))"

fun um_clear_types :: "string list \<Rightarrow> nat dict \<Rightarrow> (unified, nat dict) act" where
  "um_clear_types [] counts = act_ret counts"
| "um_clear_types (t # ts) counts = act_bind (on_memory t (Inr 0) (mem_clear None)) (\<lambda>n. um_clear_types ts (dict_set t n counts))"

definition um_clear_all :: "(unified, nat dict) act" where
  "um_clear_all u = um_clear_types (dict_keys (um_memories u)) [] u"

definition remember_fact :: "mem_env \<Rightarrow> (string \<Rightarrow> int) \<Rightarrow> rat \<Rightarrow> string \<Rightarrow> val dict option \<Rightarrow> (unified, unit) act" where
  "remember_fact env hash now f md = um_store env now (''fact:'' @ int_str (hash f)) (VStr f) md (Some ''semantic'')"

definition remember_episode :: "mem_env \<Rightarrow> rat \<Rightarrow> val dict \<Rightarrow> (unified, unit) act" where
  "remember_episode env now e = um_store env now (''episode:'' @ mv_text env (dict_get_or e ''timestamp'' (VStr ''unknown''))) (VDict e)
     (case dict_get e ''metadata'' of Some (VDict md) \<Rightarrow> Some md | _ \<Rightarrow> None) (Some ''episodic'')"

definition remember_procedure :: "mem_env \<Rightarrow> rat \<Rightarrow> string \<Rightarrow> val list \<Rightarrow> (unified, unit) act" where
  "remember_procedure env now name steps =
     um_store env now (''procedure:'' @ name) (VDict [(''name'', VStr name), (''steps'', VList steps)]) None (Some ''procedural'')"

fun context_loop :: "rat \<Rightarrow> string list \<Rightarrow> val dict \<Rightarrow> (memory, val dict) act" where
  "context_loop now [] c = act_ret c"
| "context_loop now (k # ks) c = act_bind (mem_get now k) (\<lambda>e. context_loop now ks (case e of None \<Rightarrow> c | Some e \<Rightarrow> dict_set k (me_content e) c))"

definition working_context :: "rat \<Rightarrow> (unified, val dict) act" where
  "working_context now = on_memory ''working'' (Inr []) (\<lambda>m. context_loop now (mem_list None 100 m) [] m)"

definition um_entry_counts :: "unified \<Rightarrow> nat dict" where
  "um_entry_counts u = map (\<lambda>(t, m). (t, length (mem_list None 100 m))) (um_memories u)"

definition domain_analytics :: "mem_env \<Rightarrow> (string list \<Rightarrow> string list) \<Rightarrow> rat \<Rightarrow> unified \<Rightarrow> nat res dict dict" where
  "domain_analytics env order now u = map (\<lambda>d. (d, map (\<lambda>(t, m).
     (t, res_bind (mem_search env order now d 100 None m) (\<lambda>es. Inr (length es)))) (um_memories u))) (um_domains u)"

text \<open>The probe of a memory by \<open>get_performance_metrics\<close>, less the clock readings: it stores an entry of its own.\<close>

definition probe :: "mem_env \<Rightarrow> (string list \<Rightarrow> string list) \<Rightarrow> rat \<Rightarrow> string \<Rightarrow> (memory, unit) act" where
  "probe env order now k =
     act_bind (mem_put env now k (VStr ''test_data'') None) (\<lambda>_.
     act_bind (mem_get now k) (\<lambda>_.
     act_bind (\<lambda>m. (mem_search env order now ''test'' 5 None m, m)) (\<lambda>_.
     act_bind (mem_del k) (\<lambda>_. act_ret ()))))"

fun probe_types :: "mem_env \<Rightarrow> (string list \<Rightarrow> string list) \<Rightarrow> rat \<Rightarrow> string list \<Rightarrow> unit res dict \<Rightarrow> (unified, unit res dict) act" where
  "probe_types env order now [] out = act_ret out"
| "probe_types env order now (t # ts) out = act_bind
     (act_catch (act_bind (on_memory t (Inr ()) (probe env order now (''perf_test_'' @ t @ ''_'' @ int_str \<lfloor>now\<rfloor>))) (\<lambda>u. act_ret (Inr u))) (on_any Inl))
     (\<lambda>r. probe_types env order now ts (dict_set t r out))"

definition performance_metrics :: "mem_env \<Rightarrow> (string list \<Rightarrow> string list) \<Rightarrow> rat \<Rightarrow> (unified, unit res dict) act" where
  "performance_metrics env order now u = probe_types env order now (dict_keys (um_memories u)) [] u"

section \<open>Pools\<close>

record pool =
  po_name :: string
  po_ttl :: int
  po_memory :: "unified option"

definition pool_new :: "string \<Rightarrow> int \<Rightarrow> pool" where
  "pool_new name ttl = \<lparr>po_name = name, po_ttl = ttl, po_memory = None\<rparr>"

definition pool_config :: "int \<Rightarrow> um_config" where
  "pool_config ttl = um_config_default\<lparr>
     uc_working := Some (Some (mem_config_default\<lparr>mc_backend := ''memory'', mc_ttl := Some ttl, mc_max := Some 10000\<rparr>)),
     uc_episodic := Some (Some (mem_config_default\<lparr>mc_backend := ''redis'', mc_ttl := Some (ttl * 24), mc_max := Some 50000\<rparr>)),
     uc_semantic := Some (Some (mem_config_default\<lparr>mc_backend := ''sqlite'', mc_ttl := Some (ttl * 7), mc_max := Some 100000\<rparr>)),
     uc_procedural := None\<rparr>"

definition pool_memory :: "bool \<Rightarrow> bool res \<Rightarrow> pool \<Rightarrow> unified" where
  "pool_memory lib ping p = (case po_memory p of Some u \<Rightarrow> u | None \<Rightarrow> um_initialize lib ping (um_new (pool_config (po_ttl p))))"

definition pool_initialize :: "bool \<Rightarrow> bool res \<Rightarrow> pool \<Rightarrow> pool" where
  "pool_initialize lib ping p = p\<lparr>po_memory := Some (pool_memory lib ping p)\<rparr>"

definition pool_prefix :: "pool \<Rightarrow> string" where
  "pool_prefix p = ''pool:'' @ po_name p @ '':''"

text \<open>Every operation first makes sure that the pool is initialised.\<close>

definition in_pool :: "bool \<Rightarrow> bool res \<Rightarrow> (unified, 'a) act \<Rightarrow> (pool, 'a) act" where
  "in_pool lib ping a p = (let (r, u) = a (pool_memory lib ping p) in (r, p\<lparr>po_memory := Some u\<rparr>))"

definition pool_store ::
  "mem_env \<Rightarrow> bool \<Rightarrow> bool res \<Rightarrow> rat \<Rightarrow> string \<Rightarrow> val \<Rightarrow> string \<Rightarrow> val dict option \<Rightarrow> (pool, unit) act" where
  "pool_store env lib ping now k v t md p = in_pool lib ping (um_store env now (pool_prefix p @ k) v
     (Some (dict_union (meta_or_empty md) [(''pool_name'', VStr (po_name p)), (''stored_at'', VStr (mv_iso env now)), (''memory_type'', VStr t)])) (Some t)) p"

definition pool_retrieve :: "bool \<Rightarrow> bool res \<Rightarrow> rat \<Rightarrow> string \<Rightarrow> string \<Rightarrow> (pool, val option) act" where
  "pool_retrieve lib ping now k t p =
     in_pool lib ping (act_bind (um_retrieve now (pool_prefix p @ k) (Some t)) (\<lambda>e. act_ret (map_option me_content e))) p"

text \<open>Only the three memories of a pool are listed, and each gives at most a hundred keys.\<close>

definition pool_keys :: "string \<Rightarrow> pool \<Rightarrow> unified \<Rightarrow> string list" where
  "pool_keys t p u = (if t \<notin> {''working'', ''episodic'', ''semantic''} then []
     else case dict_get (um_memories u) t of
         None \<Rightarrow> []
       | Some m \<Rightarrow> map (drop (length (pool_prefix p))) (filter (prefix (pool_prefix p)) (mem_list None 100 m)))"

definition pool_list_keys :: "bool \<Rightarrow> bool res \<Rightarrow> string \<Rightarrow> (pool, string list) act" where
  "pool_list_keys lib ping t p = in_pool lib ping (\<lambda>u. (Inr (pool_keys t p u), u)) p"

definition pool_delete :: "bool \<Rightarrow> bool res \<Rightarrow> string \<Rightarrow> string \<Rightarrow> (pool, bool) act" where
  "pool_delete lib ping k t p = in_pool lib ping (um_delete (pool_prefix p @ k) (Some t)) p"

fun pool_clear_types :: "pool \<Rightarrow> string list \<Rightarrow> (unified, unit) act" where
  "pool_clear_types p [] = act_ret ()"
| "pool_clear_types p (t # ts) = act_bind (\<lambda>u. delete_each (\<lambda>k. um_delete (pool_prefix p @ k) (Some t)) (pool_keys t p u) u)
     (\<lambda>_. pool_clear_types p ts)"

definition pool_clear :: "bool \<Rightarrow> bool res \<Rightarrow> string option \<Rightarrow> (pool, unit) act" where
  "pool_clear lib ping t p = in_pool lib ping (pool_clear_types p (case t of
       None \<Rightarrow> [''working'', ''episodic'', ''semantic'']
     | Some t \<Rightarrow> if t = '''' then [''working'', ''episodic'', ''semantic''] else [t])) p"

record pool_stats =
  ps_working :: nat
  ps_episodic :: nat
  ps_semantic :: nat
  ps_total :: nat

definition pool_get_stats :: "bool \<Rightarrow> bool res \<Rightarrow> (pool, pool_stats) act" where
  "pool_get_stats lib ping p = in_pool lib ping (\<lambda>u.
     (let w = length (pool_keys ''working'' p u); e = length (pool_keys ''episodic'' p u); s = length (pool_keys ''semantic'' p u)
      in (Inr \<lparr>ps_working = w, ps_episodic = e, ps_semantic = s, ps_total = w + e + s\<rparr>, u))) p"

section \<open>The service\<close>

definition get_pool :: "bool \<Rightarrow> bool res \<Rightarrow> string \<Rightarrow> int \<Rightarrow> bool \<Rightarrow> (pool dict, pool) act" where
  "get_pool lib ping name ttl auto ps = (case dict_get ps name of
       Some p \<Rightarrow> (Inr p, ps)
     | None \<Rightarrow> if \<not> auto then (Inl (Exn ValueError (''Pool '' @ sq name @ '' does not exist'')), ps)
         else (let p = pool_initialize lib ping (pool_new name ttl) in (Inr p, dict_set name p ps)))"

definition delete_pool :: "bool \<Rightarrow> bool res \<Rightarrow> string \<Rightarrow> (pool dict, bool) act" where
  "delete_pool lib ping name ps = (case dict_get ps name of
       None \<Rightarrow> (Inr False, ps)
     | Some p \<Rightarrow> (case pool_clear lib ping None p of
           (Inl e, p') \<Rightarrow> (Inl e, dict_set name p' ps)
         | (Inr u, p') \<Rightarrow> (Inr True, dict_pop name ps)))"

definition list_pools :: "pool dict \<Rightarrow> string list" where
  "list_pools ps = dict_keys ps"

definition shutdown_pools :: "bool \<Rightarrow> bool res \<Rightarrow> (pool dict, unit) act" where
  "shutdown_pools lib ping ps = delete_each (delete_pool lib ping) (dict_keys ps) ps"

section \<open>The contract of any memory\<close>

fun mem_ok :: "memory \<Rightarrow> bool" where
  "mem_ok (MWork w) = work_inv w"
| "mem_ok (MEpi w) = epi_inv w"
| "mem_ok (MFact w) = fact_inv w"
| "mem_ok (MProc w) = proc_inv w"

fun mem_keys :: "memory \<Rightarrow> string list" where
  "mem_keys (MWork w) = dict_keys (wm_store w)"
| "mem_keys (MEpi w) = dict_keys (em_store w)"
| "mem_keys (MFact w) = dict_keys (fm_store w)"
| "mem_keys (MProc w) = dict_keys (pm_store w)"

lemma lifted_eq: "a w = (r, w') \<Longrightarrow> lifted mk a w = (r, mk w')"
  by (simp add: lifted_def)

lemma lifted_iff: "lifted mk a w = (r, m') \<longleftrightarrow> (\<exists>w'. a w = (r, w') \<and> m' = mk w')"
  by (auto simp: lifted_def split: prod.splits)

interpretation any_memory: agent_memory mem_ok mem_keys "mem_put env" mem_get mem_del "mem_list None 100"
proof
  fix m now k c md m'
  assume "mem_ok m" "mem_put env now k c md m = (Inr (), m')"
  then show "\<exists>e s''. mem_get now k m' = (Inr (Some e), s'') \<and> me_key e = k \<and> me_content e = c"
    using working.put_get episodic.put_get semantic.put_get procedural.put_get
    by (cases m) (fastforce simp: lifted_iff)+
next
  fix m k
  assume "mem_ok m"
  then show "\<exists>s'. mem_del k m = (Inr (k \<in> set (mem_keys m)), s') \<and> mem_ok s' \<and> mem_keys s' = filter (\<lambda>x. x \<noteq> k) (mem_keys m)"
    using working.del_total episodic.del_total semantic.del_total procedural.del_total
    by (cases m) (fastforce simp: lifted_iff simp del: set_map)+
next
  show "mem_list None 100 m = take 100 (mem_keys m)" for m
    by (cases m) (simp_all add: working.listed episodic.listed semantic.listed procedural.listed)
  show "mem_ok m \<Longrightarrow> distinct (mem_keys m)" for m
    by (cases m) (simp_all add: working.keys_distinct episodic.keys_distinct semantic.keys_distinct procedural.keys_distinct)
qed

section \<open>Properties\<close>

lemma dict_set_twice: "dict_set k b (dict_set k a d) = dict_set k b d"
  by (induction d) auto

lemma dict_set_same: "dict_get d k = Some a \<Longrightarrow> dict_set k a d = d"
  by (induction d) (auto split: if_splits)

text \<open>What the facade stores under a key it gives back for that key, when the memory that the key is routed to took it;
  and it leaves the other memories alone.\<close>

theorem unified_store_then_retrieve:
  assumes "um_store env now k c md t u = (Inr (), u')" "\<And>m. dict_get (um_memories u) (type_or t k) = Some m \<Longrightarrow> mem_ok m"
  shows "(\<exists>e u''. um_retrieve now k t u' = (Inr (Some e), u'') \<and> me_key e = k \<and> me_content e = c)
    \<and> (\<forall>t'. t' \<noteq> type_or t k \<longrightarrow> dict_get (um_memories u') t' = dict_get (um_memories u) t')"
proof -
  obtain m m' where m: "dict_get (um_memories u) (type_or t k) = Some m" "mem_put env now k c md m = (Inr (), m')"
    and u': "u' = u\<lparr>um_memories := dict_set (type_or t k) m' (um_memories u)\<rparr>"
    using assms(1) by (auto simp: um_store_def on_memory_def split: option.splits prod.splits)
  obtain e m'' where "mem_get now k m' = (Inr (Some e), m'')" "me_key e = k" "me_content e = c"
    using any_memory.put_get[OF assms(2)[OF m(1)] m(2)] by blast
  then show ?thesis by (simp add: um_retrieve_def on_memory_def u')
qed

lemma delete_each_routed:
  assumes "dict_get (um_memories u) t = Some m" "mem_ok m"
  shows "\<exists>m'. delete_each mem_del (map f ks) m = (Inr (), m') \<and> mem_ok m'
    \<and> delete_each (\<lambda>k. um_delete (f k) (Some t)) ks u = (Inr (), u\<lparr>um_memories := dict_set t m' (um_memories u)\<rparr>)"
  using assms
proof (induction ks arbitrary: u m)
  case Nil
  then show ?case by (simp add: dict_set_same)
next
  case (Cons k ks)
  obtain m1 where m1: "mem_del (f k) m = (Inr (f k \<in> set (mem_keys m)), m1)" "mem_ok m1"
    using any_memory.del_total[OF Cons.prems(2)] by blast
  let ?u = "u\<lparr>um_memories := dict_set t m1 (um_memories u)\<rparr>"
  have "um_delete (f k) (Some t) u = (Inr (f k \<in> set (mem_keys m)), ?u)"
    using Cons.prems(1) m1(1) by (simp add: um_delete_def type_or_def on_memory_def)
  moreover obtain m' where "delete_each mem_del (map f ks) m1 = (Inr (), m')" "mem_ok m'"
    "delete_each (\<lambda>k. um_delete (f k) (Some t)) ks ?u = (Inr (), ?u\<lparr>um_memories := dict_set t m' (um_memories ?u)\<rparr>)"
    using Cons.IH[of ?u m1] m1(2) by auto
  ultimately show ?case using m1(1) by (simp add: act_bind_def dict_set_twice)
qed

text \<open>Clearing a pool's memory deletes the first hundred keys and leaves the others, since the keys to delete are listed with the
  default limit; for the same reason the statistics count at most a hundred.\<close>

theorem pool_clear_leaves_entries:
  assumes "po_memory p = Some u" "t \<in> {''working'', ''episodic'', ''semantic''}" "dict_get (um_memories u) t = Some m" "mem_ok m"
    and "\<forall>k \<in> set (mem_keys m). prefix (pool_prefix p) k"
  shows "length (pool_keys t p u) = min 100 (length (mem_keys m))
    \<and> (\<exists>p' u' m'. pool_clear lib ping (Some t) p = (Inr (), p') \<and> po_memory p' = Some u' \<and> dict_get (um_memories u') t = Some m'
        \<and> mem_keys m' = drop 100 (mem_keys m) \<and> (\<forall>t'. t' \<noteq> t \<longrightarrow> dict_get (um_memories u') t' = dict_get (um_memories u) t'))"
proof -
  let ?pre = "pool_prefix p" let ?L = "mem_list None 100 m"
  have sub: "set ?L \<subseteq> set (mem_keys m)" by (simp add: any_memory.listed set_take_subset)
  then have pre: "\<forall>k \<in> set ?L. prefix ?pre k" using assms(5) by blast
  then have all: "filter (prefix ?pre) ?L = ?L" by simp
  have keys: "pool_keys t p u = map (drop (length ?pre)) ?L" using assms(2,3) all by (auto simp: pool_keys_def)
  have "map (\<lambda>k. ?pre @ k) (pool_keys t p u) = ?L"
    unfolding keys map_map comp_def using pre by (intro map_idI) (auto elim!: prefixE)
  then obtain m' where m': "delete_each mem_del ?L m = (Inr (), m')"
    and run: "delete_each (\<lambda>k. um_delete (?pre @ k) (Some t)) (pool_keys t p u) u = (Inr (), u\<lparr>um_memories := dict_set t m' (um_memories u)\<rparr>)"
    using delete_each_routed[OF assms(3,4), of "\<lambda>k. ?pre @ k" "pool_keys t p u"] by auto
  have "mem_keys m' = drop 100 (mem_keys m)" using any_memory.delete_first_hundred[OF assms(4)] m' by auto
  moreover have "pool_clear lib ping (Some t) p = (Inr (), p\<lparr>po_memory := Some (u\<lparr>um_memories := dict_set t m' (um_memories u)\<rparr>)\<rparr>)"
    using assms(2) run by (auto simp: pool_clear_def in_pool_def pool_memory_def assms(1) act_bind_def)
  ultimately show ?thesis by (simp add: keys any_memory.listed min.commute)
qed


section \<open>Instances\<close>

theorem unified_store_then_retrieve_witness:
  "\<forall>env. \<exists>u' e u''. um_store env 0 ''episode:1'' (VStr ''hi'') None None (um_new um_config_default) = (Inr (), u')
    \<and> um_retrieve 5 ''episode:1'' None u' = (Inr (Some e), u'') \<and> me_content e = VStr ''hi''"
proof
  fix env :: mem_env
  let ?u = "um_new um_config_default"
  have t: "type_or None ''episode:1'' = ''episodic''" by (simp add: type_or_def memory_type_def)
  have m: "dict_get (um_memories ?u) ''episodic'' = Some (MEpi (epi_new (sub_config ''redis'' True None)))"
    by (simp add: um_new_def um_config_default_def)
  then obtain u' where put: "um_store env 0 ''episode:1'' (VStr ''hi'') None None ?u = (Inr (), u')"
    by (simp add: um_store_def t on_memory_def lifted_def epi_store_def)
  have put5: "um_store env 5 ''episode:1'' (VStr ''hi'') None None ?u = (Inr (), snd (um_store env 5 ''episode:1'' (VStr ''hi'') None None ?u))"
    using m by (simp add: um_store_def t on_memory_def lifted_def epi_store_def)
  have ok: "dict_get (um_memories ?u) (type_or None ''episode:1'') = Some m \<Longrightarrow> mem_ok m" for m
    using m by (auto simp: t epi_inv_def epi_new_def)
  from unified_store_then_retrieve [OF put ok] obtain e u'' where "um_retrieve 0 ''episode:1'' None u' = (Inr (Some e), u'')" "me_content e = VStr ''hi''"
    by blast
  moreover have "um_retrieve 5 ''episode:1'' None u' = um_retrieve 0 ''episode:1'' None u'"
    using put m by (auto simp: um_retrieve_def um_store_def t on_memory_def lifted_def epi_store_def epi_retrieve_def)
  ultimately show "\<exists>u' e u''. um_store env 0 ''episode:1'' (VStr ''hi'') None None (um_new um_config_default) = (Inr (), u')
    \<and> um_retrieve 5 ''episode:1'' None u' = (Inr (Some e), u'') \<and> me_content e = VStr ''hi''"
    using put by metis
qed

definition full_pool :: pool where
  "full_pool = \<lparr>po_name = ''p'', po_ttl = 60, po_memory = Some \<lparr>um_memories = [(''episodic'', MEpi \<lparr>em_config = mem_config_default,
     em_initialized = True, em_redis = False,
     em_store = map (\<lambda>i. (''pool:p:'' @ replicate i CHR ''a'', entry_new '''' (VStr ''x'') [] 0 0 0)) [0..<105], em_tokens = 0, em_cost = 0\<rparr>)], um_domains = []\<rparr>\<rparr>"

theorem pool_clear_leaves_entries_witness:
  "\<exists>p' u' m'. pool_clear True (Inr True) (Some ''episodic'') full_pool = (Inr (), p') \<and> po_memory p' = Some u'
    \<and> dict_get (um_memories u') ''episodic'' = Some m' \<and> length (mem_keys m') = 5"
proof -
  obtain u m where u: "po_memory full_pool = Some u" "dict_get (um_memories u) ''episodic'' = Some m"
    and keys: "mem_keys m = map (\<lambda>i. ''pool:p:'' @ replicate i CHR ''a'') [0..<105]" and epi: "\<exists>e. m = MEpi e"
    by (simp add: full_pool_def comp_def del: upt_Suc upt_rec_numeral)
  have "inj_on (\<lambda>i. ''pool:p:'' @ replicate i CHR ''a'') {0..<105}" by (rule inj_onI) (metis append_same_eq same_append_eq length_replicate)
  then have "distinct (mem_keys m)" unfolding keys by (simp add: distinct_map del: upt_Suc upt_rec_numeral)
  then have "mem_ok m" using epi by (auto simp: epi_inv_def)
  moreover have "\<forall>k \<in> set (mem_keys m). prefix (pool_prefix full_pool) k"
    unfolding keys by (auto simp: pool_prefix_def full_pool_def simp del: upt_Suc upt_rec_numeral)
  ultimately have "\<exists>p' u' m'. pool_clear True (Inr True) (Some ''episodic'') full_pool = (Inr (), p') \<and> po_memory p' = Some u'
      \<and> dict_get (um_memories u') ''episodic'' = Some m' \<and> mem_keys m' = drop 100 (mem_keys m)"
    using pool_clear_leaves_entries [OF u(1) _ u(2), of True "Inr True"] by blast
  moreover have "length (drop 100 (mem_keys m)) = 5" unfolding keys by (simp del: upt_Suc upt_rec_numeral)
  ultimately show ?thesis by metis
qed


end
