(* ===== verification/Components.thy ===== *)
theory Components
  imports Blueprints
begin

text \<open>
  Components that users define: their validation (\<open>src/ice_core/validation/component_validator.py\<close>)
  and their registration in the running process (\<open>validate_component_definition\<close> in
  \<open>src/ice_api/api/mcp.py\<close>), which executes code, creates modules and fills the registry.

  Parameters (the record \<open>comp_env\<close>): parsing and executing Python code, the objects that result, the data
  classes built by Pydantic, SHA-256, and the settings in the environment.
\<close>

section \<open>Results and parameters\<close>

record comp_result =
  cr_valid :: bool
  cr_errors :: "string list"
  cr_warnings :: "string list"
  cr_suggestions :: "string list"
  cr_registered :: bool
  cr_registry_name :: "string option"
  cr_type :: string
  cr_id :: string
  cr_details :: "val dict"

text \<open>A class definition of a module: the bases that are plain names, and the methods of the class.\<close>

record class_info =
  ci_bases :: "string list"
  ci_methods :: "string list"

record 'o comp_env =
  ce_py :: "'o pyenv"
  ce_classes :: "string \<Rightarrow> class_info list res"
  ce_syntax :: "string \<Rightarrow> string option"
  ce_dry :: bool
  ce_strict :: bool
  ce_try :: "string \<Rightarrow> string option"
  ce_exec :: "string \<Rightarrow> (string \<times> 'o) list res"
  ce_fname :: "'o \<Rightarrow> string"
  ce_concrete :: "'o \<Rightarrow> bool"
  ce_agent :: "component_def \<Rightarrow> 'o res"
  ce_workflow :: "component_def \<Rightarrow> 'o"
  ce_sha12 :: "string \<Rightarrow> string"
  ce_str :: "val \<Rightarrow> string"
  ce_inline :: bool
  ce_autoreg :: bool

definition fresh_result :: "component_def \<Rightarrow> comp_result" where
  "fresh_result d = \<lparr>cr_valid = True, cr_errors = [], cr_warnings = [], cr_suggestions = [], cr_registered = False,
     cr_registry_name = None, cr_type = cd_type d, cr_id = cd_type d @ ''_'' @ cd_name d, cr_details = []\<rparr>"

definition comp_error :: "string \<Rightarrow> comp_result \<Rightarrow> comp_result" where
  "comp_error m r = r\<lparr>cr_valid := False, cr_errors := cr_errors r @ [m]\<rparr>"

definition add_warning :: "string \<Rightarrow> comp_result \<Rightarrow> comp_result" where
  "add_warning m r = r\<lparr>cr_warnings := cr_warnings r @ [m]\<rparr>"

definition add_suggestions :: "string list \<Rightarrow> comp_result \<Rightarrow> comp_result" where
  "add_suggestions ms r = r\<lparr>cr_suggestions := cr_suggestions r @ ms\<rparr>"

definition add_detail :: "string \<Rightarrow> comp_result \<Rightarrow> comp_result" where
  "add_detail k r = r\<lparr>cr_details := dict_set k (VBool True) (cr_details r)\<rparr>"

definition suggest_if_valid :: "string list \<Rightarrow> comp_result \<Rightarrow> comp_result" where
  "suggest_if_valid ms r = (if cr_valid r then add_suggestions ms r else r)"

section \<open>Tools and agents\<close>

definition check_classes :: "class_info list \<Rightarrow> comp_result \<Rightarrow> comp_result" where
  "check_classes cs r0 =
     (let r1 = (if cs = [] then comp_error ''No class definition found in tool code'' r0 else r0);
          r2 = (if list_ex (\<lambda>c. ''ToolBase'' \<in> set (ci_bases c)) cs then r1
                else add_suggestions [''Make sure your tool class inherits from ice_core.base_tool.ToolBase'']
                       (add_warning ''Tool class should inherit from ToolBase'' r1))
      in if list_ex (\<lambda>c. ''_execute_impl'' \<in> set (ci_methods c)) cs then r2
         else comp_error ''Tool class must implement _execute_impl method'' r2)"

definition check_tool_code :: "'o comp_env \<Rightarrow> string option \<Rightarrow> comp_result \<Rightarrow> comp_result" where
  "check_tool_code env code r =
     (if \<not> nonempty_list code then r
      else case ce_classes env (the code) of
          Inr cs \<Rightarrow> check_classes cs r
        | Inl e \<Rightarrow> comp_error ((if exn_kind e = SyntaxError then ''Python syntax error: '' else ''Error parsing tool code: '') @ exn_msg e) r)"

definition validate_tool_definition :: "'o comp_env \<Rightarrow> component_def \<Rightarrow> 'o registry \<Rightarrow> comp_result" where
  "validate_tool_definition env d reg =
     (if has_tool (cd_name d) reg
      then comp_error (''Tool '' @ sq (cd_name d) @ '' already exists in registry'') (fresh_result d)
      else let r1 = check_tool_code env (cd_tool_class d) (fresh_result d);
        r2 = (if nonempty_list (cd_tool_input_schema d) then add_detail ''input_schema_validated'' r1 else r1);
        r3 = (if nonempty_list (cd_tool_output_schema d) then add_detail ''output_schema_validated'' r2 else r2)
      in suggest_if_valid [''Consider adding comprehensive docstrings'', ''Implement proper error handling in _execute_impl'',
           ''Add type hints for better IDE support'', ''Consider adding input validation''] r3)"

definition missing_tools :: "string list option \<Rightarrow> 'o registry \<Rightarrow> string list" where
  "missing_tools ts reg = filter (\<lambda>t. \<not> has_tool t reg) (case ts of None \<Rightarrow> [] | Some l \<Rightarrow> l)"

definition missing_llm_fields :: "val dict option \<Rightarrow> string list" where
  "missing_llm_fields c = (if nonempty_list c then filter (\<lambda>f. dict_get (the c) f = None) [''provider'', ''model''] else [])"

definition validate_agent_definition :: "component_def \<Rightarrow> 'o registry \<Rightarrow> comp_result" where
  "validate_agent_definition d reg =
     (if cd_name d \<in> set (map fst (available_agents reg))
      then comp_error (''Agent '' @ sq (cd_name d) @ '' already exists in registry'') (fresh_result d)
      else let r0 = fresh_result d;
        r1 = (if nonempty_list (cd_system_prompt d)
              then add_detail ''has_system_prompt'' (if length (the (cd_system_prompt d)) < 10
                     then add_warning ''System prompt seems too short to be effective'' r0 else r0)
              else add_warning ''Agent has no system prompt defined'' r0);
        missing = missing_tools (cd_tools d) reg;
        r2 = (if missing = [] then r1
              else add_suggestions [''Use /components/validate to register missing tools first'']
                     (comp_error (''Agent references non-existent tools: '' @ str_join '', '' missing) r1));
        r3 = foldl (\<lambda>r f. comp_error (''LLM config missing required field: '' @ f) r) r2 (missing_llm_fields (cd_llm_config d))
      in suggest_if_valid [''Consider adding memory configuration for context retention'', ''Add retry strategies for resilience'',
           ''Consider limiting tool access for security'', ''Add specialized prompts for different scenarios''] r3)"

section \<open>Code and workflows\<close>

text \<open>The search for imports of \<open>os\<close>, \<open>socket\<close> and \<open>subprocess\<close>, tried at every start of a line.\<close>

fun line_starts :: "string \<Rightarrow> string list" where
  "line_starts [] = []"
| "line_starts (c # s) = (if c = CHR 0x0A then s # line_starts s else line_starts s)"

definition skip_word :: "string \<Rightarrow> string \<Rightarrow> string option" where
  "skip_word w s = (if prefix w s then Some (drop (length w) s) else None)"

definition skip_spaces :: "string \<Rightarrow> string option" where
  "skip_spaces s = (case s of [] \<Rightarrow> None | c # t \<Rightarrow> if is_space c then Some (dropWhile is_space t) else None)"

definition banned_modules :: "string list" where
  "banned_modules = [''os'', ''socket'', ''subprocess'']"

definition banned_here :: "string \<Rightarrow> bool" where
  "banned_here s =
     (let t = dropWhile is_space s
      in (case Option.bind (skip_word ''import'' t) skip_spaces of
            None \<Rightarrow> False | Some u \<Rightarrow> list_ex (\<lambda>m. prefix m u) banned_modules)
       \<or> (case Option.bind (skip_word ''from'' t) skip_spaces of
            None \<Rightarrow> False
          | Some u \<Rightarrow> list_ex (\<lambda>m. case Option.bind (skip_word m u) skip_spaces of
                None \<Rightarrow> False | Some w \<Rightarrow> prefix ''import'' w) banned_modules))"

definition dangerous_imports :: "string \<Rightarrow> bool" where
  "dangerous_imports s \<longleftrightarrow> list_ex banned_here (s # line_starts s)"

text \<open>\<open>a or b or ""\<close>\<close>

definition code_source :: "component_def \<Rightarrow> string" where
  "code_source d = (if nonempty_list (cd_code_factory d) then the (cd_code_factory d)
     else if nonempty_list (cd_code_class d) then the (cd_code_class d) else '''')"

text \<open>Resolving the name makes an instance, which may fill the cache of the registry.\<close>

definition validate_code_definition :: "'o comp_env \<Rightarrow> component_def \<Rightarrow> 'o registry \<Rightarrow> comp_result \<times> 'o registry" where
  "validate_code_definition env d reg =
     (case get_code_instance (ce_py env) (cd_name d) [] reg of
        (Inr x, reg1) \<Rightarrow> (comp_error (''Code component '' @ sq (cd_name d) @ '' already exists in registry'') (fresh_result d), reg1)
      | (Inl e, reg1) \<Rightarrow>
          (let src = code_source d; r0 = fresh_result d
           in (if 65536 < length src
               then comp_error ''Code too large (>64KB). Store modules in a package or reduce size.'' r0
               else case ce_syntax env src of
                   Some e \<Rightarrow> comp_error (''Invalid Python code: '' @ e) r0
                 | None \<Rightarrow>
                     (let r1 = (if dangerous_imports src
                            then add_warning ''Dangerous imports detected (os/socket/subprocess) - will be blocked in sandbox'' r0 else r0)
                      in if ce_dry env \<and> nonempty_list (cd_code_factory d)
                         then (case ce_try env (the (cd_code_factory d)) of
                                 None \<Rightarrow> r1
                               | Some e \<Rightarrow> (if ce_strict env then comp_error else add_warning) (''Dry-run failed: '' @ e) r1)
                         else r1), reg1)))"

definition validate_workflow_definition :: "component_def \<Rightarrow> 'o registry \<Rightarrow> comp_result" where
  "validate_workflow_definition d reg =
     (if (cd_name d, cd_name d) \<in> set (available_workflow_factories reg)
      then comp_error (''Workflow '' @ sq (cd_name d) @ '' already exists'') (fresh_result d)
      else if \<not> nonempty_list (cd_workflow_nodes d)
      then comp_error ''Workflow must have at least one node'' (fresh_result d)
      else let nodes = the (cd_workflow_nodes d);
        r1 = (case res_bind (blueprint_new (''validation_'' @ cd_name d) ''1.1.0'' nodes [(''validation_only'', VBool True)]) validate_blueprint of
                Inr _ \<Rightarrow> add_detail ''blueprint_valid'' (fresh_result d)
              | Inl e \<Rightarrow> comp_error (''Workflow validation failed: '' @ exn_msg e) (fresh_result d))
      in suggest_if_valid ((if 10 < length nodes
             then [''Consider breaking large workflows into sub-workflows for maintainability''] else [])
           @ [''Add error handling nodes for resilience'', ''Consider parallel execution where possible'',
              ''Add monitoring and logging nodes'', ''Document expected inputs and outputs'']) r1)"

section \<open>The dispatcher\<close>

definition is_letter :: "char \<Rightarrow> bool" where
  "is_letter c \<longleftrightarrow> (let n = (of_char c :: nat) in 65 \<le> n \<and> n \<le> 90 \<or> 97 \<le> n \<and> n \<le> 122)"

definition name_char :: "char \<Rightarrow> bool" where
  "name_char c \<longleftrightarrow> is_letter c \<or> is_digit c \<or> c = CHR ''_'' \<or> c = CHR ''-''"

text \<open>\<open>$\<close> also matches before a newline that ends the string.\<close>

definition name_matches :: "string \<Rightarrow> bool" where
  "name_matches s =
     (case (if s \<noteq> [] \<and> last s = CHR 0x0A then butlast s else s) of
        [] \<Rightarrow> False | c # t \<Rightarrow> is_letter c \<and> list_all name_char t)"

definition validate_component :: "'o comp_env \<Rightarrow> component_def \<Rightarrow> 'o registry \<Rightarrow> comp_result \<times> 'o registry" where
  "validate_component env d reg =
     (if length (cd_name d) < 2 then (comp_error ''Component name must be at least 2 characters'' (fresh_result d), reg)
      else if \<not> name_matches (cd_name d)
      then (comp_error ''Component name must start with letter and contain only letters, numbers, underscore, or dash'' (fresh_result d), reg)
      else if cd_type d = ''tool'' then (validate_tool_definition env d reg, reg)
      else if cd_type d = ''agent'' then (validate_agent_definition d reg, reg)
      else if cd_type d = ''workflow'' then (validate_workflow_definition d reg, reg)
      else if cd_type d = ''code'' then validate_code_definition env d reg
      else (comp_error (''Unknown component type: '' @ cd_type d) (fresh_result d), reg))"

section \<open>Registration in the running process\<close>

text \<open>The registry and \<open>sys.modules\<close>: modules made at run time shadow the import system.\<close>

record 'o runtime =
  rt_reg :: "'o registry"
  rt_modules :: "'o dict dict"

definition with_modules :: "'o dict dict \<Rightarrow> 'o pyenv \<Rightarrow> 'o pyenv" where
  "with_modules ms py = py\<lparr>imp := (\<lambda>m a. case dict_get ms m of
       None \<Rightarrow> imp py m a
     | Some ns \<Rightarrow> (case dict_get ns a of
           None \<Rightarrow> Inl (Exn AttributeError (''module '' @ sq m @ '' has no attribute '' @ sq a)) | Some x \<Rightarrow> Inr x))\<rparr>"

definition new_module :: "string \<Rightarrow> 'o dict \<Rightarrow> 'o runtime \<Rightarrow> 'o runtime" where
  "new_module m ns rt = rt\<lparr>rt_modules := dict_set m ns (rt_modules rt)\<rparr>"

definition mark_registered :: "string \<Rightarrow> comp_result \<Rightarrow> comp_result" where
  "mark_registered name r = r\<lparr>cr_registered := True, cr_registry_name := Some name\<rparr>"

type_synonym 'o registration = "comp_result effect \<times> 'o runtime"

text \<open>A registry operation at the end of a registration: its exception, or the mark.\<close>

definition conclude :: "string \<Rightarrow> comp_result \<Rightarrow> 'o runtime \<Rightarrow> 'o registry effect \<Rightarrow> 'o registration" where
  "conclude name r rt e = (case e of
       (g, None) \<Rightarrow> ((mark_registered name r, None), rt\<lparr>rt_reg := g\<rparr>)
     | (g, Some x) \<Rightarrow> ((r, Some x), rt\<lparr>rt_reg := g\<rparr>))"

definition public_callable :: "'o comp_env \<Rightarrow> string \<times> 'o \<Rightarrow> bool" where
  "public_callable env e \<longleftrightarrow> is_callable (ce_py env) (snd e) \<and> \<not> prefix ''__'' (fst e)"

definition makes_tool :: "'o comp_env \<Rightarrow> 'o \<Rightarrow> bool" where
  "makes_tool env f = (case call (ce_py env) f [] of Inl e \<Rightarrow> False | Inr t \<Rightarrow> is_tool (ce_py env) t)"

definition register_tool_code :: "'o comp_env \<Rightarrow> string \<Rightarrow> component_def \<Rightarrow> comp_result \<Rightarrow> 'o runtime \<Rightarrow> 'o registration" where
  "register_tool_code env u d r rt =
     (let name = cd_name d; m = ''dynamic_tool_factory_'' @ name @ ''_'' @ u
      in case ce_exec env (the (cd_tool_factory d)) of
           Inl e \<Rightarrow> ((r, Some e), rt)
         | Inr ns \<Rightarrow>
             (let rt1 = new_module m ns rt
              in case find (\<lambda>e. public_callable env e \<and> makes_tool env (snd e)) ns of
                   None \<Rightarrow> ((r, Some (Exn ValueError ''No valid factory function returning ToolBase found in tool_factory_code'')), rt1)
                 | Some (n, f) \<Rightarrow> conclude name r rt1 (register_tool_factory (with_modules (rt_modules rt1) (ce_py env)) name
                     (m @ '':'' @ ce_fname env f) (rt_reg rt1))))"

definition register_tool_class :: "'o comp_env \<Rightarrow> component_def \<Rightarrow> comp_result \<Rightarrow> 'o runtime \<Rightarrow> 'o registration" where
  "register_tool_class env d r rt = (case ce_exec env (the (cd_tool_class d)) of
       Inl e \<Rightarrow> ((r, Some e), rt)
     | Inr ns \<Rightarrow>
         (case find (\<lambda>e. is_class (ce_py env) (snd e) \<and> is_tool_class (ce_py env) (snd e) \<and> ce_concrete env (snd e)) ns of
            None \<Rightarrow> ((r, None), rt)
          | Some (n, c) \<Rightarrow> conclude (cd_name d) r rt (put_cache FTool (cd_name d) (Bound c) (rt_reg rt), None)))"

definition http_400 :: "string \<Rightarrow> exn" where
  "http_400 m = Exn (OtherError ''HTTPException'') (''400: '' @ m)"

definition register_code :: "'o comp_env \<Rightarrow> component_def \<Rightarrow> comp_result \<Rightarrow> 'o runtime \<Rightarrow> 'o registration" where
  "register_code env d r rt =
     (let name = cd_name d; known = has_code_factory name (rt_reg rt)
      in if nonempty_list (cd_code_factory d) then
           (if \<not> ce_inline env
            then ((r, Some (http_400 ''Inline code is disabled in this environment. Provide metadata.factory_ref import path for code factory.'')), rt)
            else if known then ((mark_registered name r, None), rt)
            else let code = the (cd_code_factory d); m = ''dynamic_code_'' @ name @ ''_'' @ ce_sha12 env code
              in case ce_exec env code of
                   Inl e \<Rightarrow> ((r, Some e), rt)
                 | Inr ns \<Rightarrow>
                     (let rt1 = new_module m ns rt
                      in case find (public_callable env) ns of
                           None \<Rightarrow> ((r, Some (Exn ValueError ''No callable factory found in code_factory_code'')), rt1)
                         | Some (n, f) \<Rightarrow> conclude name r rt1 (register_code_factory name (m @ '':'' @ ce_fname env f) (rt_reg rt1))))
         else case dict_get (cd_metadata d) ''factory_ref'' of
             None \<Rightarrow> ((r, Some (http_400 ''Code registration requires metadata.factory_ref (module:create_fn) when inline code is disabled.'')), rt)
           | Some v \<Rightarrow>
               (if \<not> truth v
                then ((r, Some (http_400 ''Code registration requires metadata.factory_ref (module:create_fn) when inline code is disabled.'')), rt)
                else if known then ((mark_registered name r, None), rt)
                else conclude name r rt (register_code_factory name (ce_str env v) (rt_reg rt))))"

definition register_agent_data :: "'o comp_env \<Rightarrow> component_def \<Rightarrow> comp_result \<Rightarrow> 'o runtime \<Rightarrow> 'o registration" where
  "register_agent_data env d r rt = (case ce_agent env d of
       Inl e \<Rightarrow> ((r\<lparr>cr_errors := cr_errors r @ [exn_msg e]\<rparr>, None), rt)
     | Inr a \<Rightarrow> conclude (cd_name d) r rt (register_agent_definition (cd_name d) a (rt_reg rt), None))"

text \<open>Every workflow goes to the one module \<open>dynamic_workflows\<close>, which is made anew each time.\<close>

definition register_workflow_nodes :: "'o comp_env \<Rightarrow> component_def \<Rightarrow> comp_result \<Rightarrow> 'o runtime \<Rightarrow> 'o registration" where
  "register_workflow_nodes env d r rt =
     (if \<not> nonempty_list (cd_workflow_nodes d) then ((r, None), rt)
      else let name = cd_name d; rt1 = new_module ''dynamic_workflows'' [(''create_'' @ name, ce_workflow env d)] rt
        in case conclude name r rt1 (register_workflow_factory name (''dynamic_workflows:create_'' @ name) (rt_reg rt1)) of
             ((r1, None), rt2) \<Rightarrow> ((r1, None), rt2)
           | ((r1, Some e), rt2) \<Rightarrow> ((add_warning ''Workflow prototype not available'' r1, None), rt2))"

definition register_runtime :: "'o comp_env \<Rightarrow> string \<Rightarrow> component_def \<Rightarrow> comp_result \<Rightarrow> 'o runtime \<Rightarrow> 'o registration" where
  "register_runtime env u d r rt =
     (if cd_type d = ''tool'' then
        (if nonempty_list (cd_tool_factory d) then register_tool_code env u d r rt
         else if nonempty_list (cd_tool_class d) then register_tool_class env d r rt
         else ((add_warning ''Tool registration without code not yet implemented'' r, None), rt))
      else if cd_type d = ''code'' then register_code env d r rt
      else if cd_type d = ''agent'' then register_agent_data env d r rt
      else if cd_type d = ''workflow'' then register_workflow_nodes env d r rt
      else ((r, None), rt))"

text \<open>The route: validate, then register when asked to; what the registration raises is a warning.\<close>

definition wants_registration :: "'o comp_env \<Rightarrow> component_def \<Rightarrow> bool" where
  "wants_registration env d \<longleftrightarrow> cd_auto_register d \<and> \<not> cd_validate_only d \<and> ce_autoreg env"

definition validate_component_route :: "'o comp_env \<Rightarrow> string \<Rightarrow> component_def \<Rightarrow> 'o runtime \<Rightarrow> comp_result \<times> 'o runtime" where
  "validate_component_route env u d rt =
     (let env' = env\<lparr>ce_py := with_modules (rt_modules rt) (ce_py env)\<rparr>;
          (r, g) = validate_component env' d (rt_reg rt); rt1 = rt\<lparr>rt_reg := g\<rparr>
      in if cr_valid r \<and> wants_registration env d
         then (case register_runtime env u d r rt1 of
                 ((r2, None), rt2) \<Rightarrow> (r2, rt2)
               | ((r2, Some e), rt2) \<Rightarrow>
                   ((add_warning (''Validation passed but registration failed: '' @ exn_msg e) r2)\<lparr>cr_registered := False\<rparr>, rt2))
         else (r, rt1))"

section \<open>What validation means\<close>

lemma result_simps [simp]:
  "cr_valid (fresh_result d)" "cr_errors (fresh_result d) = []"
  "\<not> cr_valid (comp_error m r)" "cr_errors (comp_error m r) = cr_errors r @ [m]"
  "cr_valid (add_warning m r) = cr_valid r" "cr_errors (add_warning m r) = cr_errors r"
  "cr_valid (add_suggestions ms r) = cr_valid r" "cr_errors (add_suggestions ms r) = cr_errors r"
  "cr_valid (add_detail k r) = cr_valid r" "cr_errors (add_detail k r) = cr_errors r"
  "cr_valid (suggest_if_valid ms r) = cr_valid r" "cr_errors (suggest_if_valid ms r) = cr_errors r"
  "cr_valid (mark_registered n r) = cr_valid r" "cr_registered (mark_registered n r)"
  "\<not> cr_registered (fresh_result d)" "cr_registered (comp_error m r) = cr_registered r"
  "cr_registered (add_warning m r) = cr_registered r" "cr_registered (add_suggestions ms r) = cr_registered r"
  "cr_registered (add_detail k r) = cr_registered r" "cr_registered (suggest_if_valid ms r) = cr_registered r"
  by (simp_all add: fresh_result_def comp_error_def add_warning_def add_suggestions_def add_detail_def suggest_if_valid_def
      mark_registered_def)

lemma foldl_comp_error [simp]:
  "cr_valid (foldl (\<lambda>r f. comp_error (m f) r) r fs) \<longleftrightarrow> cr_valid r \<and> fs = []"
  "cr_errors (foldl (\<lambda>r f. comp_error (m f) r) r fs) = cr_errors r @ map m fs"
  by (induction fs arbitrary: r) auto

text \<open>A result is consistent when it is valid exactly if it lists no error.\<close>

definition consistent :: "comp_result \<Rightarrow> bool" where
  "consistent r \<longleftrightarrow> (cr_valid r \<longleftrightarrow> cr_errors r = [])"

lemma consistent_intros [simp]:
  "consistent (fresh_result d)" "consistent (comp_error m r)"
  "consistent (add_warning m r) = consistent r" "consistent (add_suggestions ms r) = consistent r"
  "consistent (add_detail k r) = consistent r" "consistent (suggest_if_valid ms r) = consistent r"
  "consistent r \<Longrightarrow> consistent (foldl (\<lambda>r f. comp_error (mk f) r) r fs)"
  by (auto simp: consistent_def)

lemma check_classes_result:
  "cr_valid (check_classes cs r) \<longleftrightarrow> cr_valid r \<and> list_ex (\<lambda>c. ''_execute_impl'' \<in> set (ci_methods c)) cs"
  "consistent r \<Longrightarrow> consistent (check_classes cs r)"
  by (auto simp: check_classes_def Let_def)

lemma check_tool_code_result:
  "cr_valid (check_tool_code env code r) \<longleftrightarrow> cr_valid r \<and> (nonempty_list code \<longrightarrow>
     (\<exists>cs. ce_classes env (the code) = Inr cs \<and> list_ex (\<lambda>c. ''_execute_impl'' \<in> set (ci_methods c)) cs))"
  "consistent r \<Longrightarrow> consistent (check_tool_code env code r)"
  by (auto simp: check_tool_code_def check_classes_result split: sum.split)

lemma validate_tool_result:
  "cr_valid (validate_tool_definition env d reg) \<longleftrightarrow> \<not> has_tool (cd_name d) reg \<and> (nonempty_list (cd_tool_class d) \<longrightarrow>
     (\<exists>cs. ce_classes env (the (cd_tool_class d)) = Inr cs \<and> list_ex (\<lambda>c. ''_execute_impl'' \<in> set (ci_methods c)) cs))"
  "consistent (validate_tool_definition env d reg)"
  by (auto simp: validate_tool_definition_def Let_def check_tool_code_result)

lemma validate_tool_unregistered: "\<not> cr_registered (validate_tool_definition env d reg)"
  by (simp add: validate_tool_definition_def check_tool_code_def check_classes_def Let_def split: sum.split)

lemma validate_agent_result:
  "cr_valid (validate_agent_definition d reg) \<longleftrightarrow> dict_get (agents reg) (cd_name d) = None
     \<and> missing_tools (cd_tools d) reg = [] \<and> missing_llm_fields (cd_llm_config d) = []"
  "consistent (validate_agent_definition d reg)"
  by (auto simp: validate_agent_definition_def Let_def available_agents_def map_of_eq_None_iff)

lemma validate_code_result: "consistent (fst (validate_code_definition env d reg))"
  by (simp add: validate_code_definition_def Let_def split: prod.split sum.split option.split)

lemma validate_workflow_result:
  "cr_valid (validate_workflow_definition d reg) \<longleftrightarrow> (cd_name d, cd_name d) \<notin> set (factories reg FWorkflow)
     \<and> nonempty_list (cd_workflow_nodes d) \<and> distinct (map ns_id (the (cd_workflow_nodes d)))
     \<and> refs_known (the (cd_workflow_nodes d)) \<and> acyclic (set (bp_edges (the (cd_workflow_nodes d))))"
  "consistent (validate_workflow_definition d reg)"
proof -
  let ?ns = "the (cd_workflow_nodes d)"
  let ?check = "res_bind (blueprint_new (''validation_'' @ cd_name d) ''1.1.0'' ?ns [(''validation_only'', VBool True)]) validate_blueprint"
  have accept: "(\<exists>u. ?check = Inr u) \<longleftrightarrow> distinct (map ns_id ?ns) \<and> refs_known ?ns \<and> acyclic (set (bp_edges ?ns))"
    using missing_refs_nil[of ?ns] by (cases "missing_refs ?ns")
      (auto simp: res_bind_Inr_iff blueprint_new_def validate_node_dependencies_def validate_blueprint_ok)
  show "cr_valid (validate_workflow_definition d reg) \<longleftrightarrow> (cd_name d, cd_name d) \<notin> set (factories reg FWorkflow)
     \<and> nonempty_list (cd_workflow_nodes d) \<and> distinct (map ns_id ?ns) \<and> refs_known ?ns \<and> acyclic (set (bp_edges ?ns))"
    using accept by (cases ?check) (auto simp: validate_workflow_definition_def Let_def available_workflow_factories_def)
  show "consistent (validate_workflow_definition d reg)"
    by (cases ?check) (auto simp: validate_workflow_definition_def Let_def)
qed

definition good_name :: "component_def \<Rightarrow> bool" where
  "good_name d \<longleftrightarrow> 2 \<le> length (cd_name d) \<and> name_matches (cd_name d)"

text \<open>(C29) When a definition is valid. A name has at least two characters and the form of an identifier, in which
  dashes are allowed; beyond that, a tool needs a free name and, when it comes as a class, code that parses and a
  class with \<open>_execute_impl\<close>; an agent needs a free name, known tools and a complete LLM configuration; a
  workflow needs nodes with distinct ids, known dependencies and no cycle, and a name under which no factory with
  this very name as its import path is registered. A result is valid exactly when it lists no error. The docstrings
  of the validators promise more than validity depends on: a tool class that does not inherit from \<open>ToolBase\<close> and a
  system prompt that is too short or missing only give warnings, a schema only has to be a dict, an LLM configuration
  only has to have two keys, and whether the components that a workflow refers to exist is not tested.\<close>

theorem component_validation_exact:
  shows "(cd_type d = ''tool'' \<longrightarrow> (cr_valid (fst (validate_component env d reg)) \<longleftrightarrow> good_name d \<and> \<not> has_tool (cd_name d) reg
      \<and> (nonempty_list (cd_tool_class d) \<longrightarrow> (\<exists>cs. ce_classes env (the (cd_tool_class d)) = Inr cs
          \<and> (\<exists>c \<in> set cs. ''_execute_impl'' \<in> set (ci_methods c))))))
    \<and> (cd_type d = ''agent'' \<longrightarrow> (cr_valid (fst (validate_component env d reg)) \<longleftrightarrow> good_name d
      \<and> dict_get (agents reg) (cd_name d) = None \<and> missing_tools (cd_tools d) reg = [] \<and> missing_llm_fields (cd_llm_config d) = []))
    \<and> (cd_type d = ''workflow'' \<longrightarrow> (cr_valid (fst (validate_component env d reg)) \<longleftrightarrow> good_name d
      \<and> (cd_name d, cd_name d) \<notin> set (factories reg FWorkflow)
      \<and> nonempty_list (cd_workflow_nodes d) \<and> distinct (map ns_id (the (cd_workflow_nodes d)))
      \<and> refs_known (the (cd_workflow_nodes d)) \<and> acyclic (set (bp_edges (the (cd_workflow_nodes d))))))
    \<and> (cr_valid (fst (validate_component env d reg)) \<longleftrightarrow> cr_errors (fst (validate_component env d reg)) = [])"
proof -
  have "consistent (fst (validate_component env d reg))"
    by (simp add: validate_component_def validate_tool_result validate_agent_result validate_workflow_result validate_code_result)
  then show ?thesis
    by (auto simp: validate_component_def good_name_def validate_tool_result validate_agent_result validate_workflow_result
        consistent_def list_ex_iff not_less)
qed

definition demo_def :: component_def where
  "demo_def = \<lparr>cd_type = ''workflow'', cd_name = ''first'', cd_description = '''', cd_tool_factory = None, cd_tool_class = None,
     cd_tool_input_schema = None, cd_tool_output_schema = None, cd_system_prompt = None, cd_tools = None, cd_llm_config = None,
     cd_workflow_nodes = Some [\<lparr>ns_id = ''a'', ns_type = ''llm'', ns_deps = [], ns_extra = []\<rparr>], cd_code_factory = None, cd_code_class = None,
     cd_auto_register = True, cd_validate_only = False, cd_metadata = []\<rparr>"

definition demo_comp :: "nat comp_env" where
  "demo_comp = \<lparr>ce_py = demo_py, ce_classes = (\<lambda>_. Inr []), ce_syntax = (\<lambda>_. None), ce_dry = False, ce_strict = False,
     ce_try = (\<lambda>_. None), ce_exec = (\<lambda>_. Inr [(''make'', 1)]), ce_fname = (\<lambda>_. ''make''), ce_concrete = (\<lambda>_. True),
     ce_agent = (\<lambda>_. Inr 7), ce_workflow = (\<lambda>d. length (cd_name d)), ce_sha12 = id, ce_str = (\<lambda>_. ''m:f''),
     ce_inline = False, ce_autoreg = True\<rparr>"

theorem component_validation_exact_witness:
  "cr_valid (fst (validate_component demo_comp demo_def registry_new))
     \<and> \<not> cr_valid (fst (validate_component demo_comp (demo_def\<lparr>cd_name := ''1st''\<rparr>) registry_new))"
  using component_validation_exact [of demo_def demo_comp registry_new]
    component_validation_exact [of "demo_def\<lparr>cd_name := ''1st''\<rparr>" demo_comp registry_new]
  by (simp add: demo_def_def good_name_def name_matches_def is_letter_def name_char_def registry_new_def nonempty_list_def
      refs_known_def bp_edges_def acyclic_def)

section \<open>What registration does to earlier registrations\<close>

lemma workflow_route:
  assumes "cr_registered (fst (validate_component_route env u d rt))" "cd_type d = ''workflow''"
  defines "rt' \<equiv> snd (validate_component_route env u d rt)"
  shows "dict_get (factories (rt_reg rt') FWorkflow) (cd_name d) = Some (''dynamic_workflows:create_'' @ cd_name d)
    \<and> rt_modules rt' = dict_set ''dynamic_workflows'' [(''create_'' @ cd_name d, ce_workflow env d)] (rt_modules rt)
    \<and> (\<forall>n. n \<noteq> cd_name d \<longrightarrow> dict_get (factories (rt_reg rt') FWorkflow) n = dict_get (factories (rt_reg rt) FWorkflow) n)
    \<and> factory_cache (rt_reg rt') = factory_cache (rt_reg rt)"
proof -
  let ?env = "env\<lparr>ce_py := with_modules (rt_modules rt) (ce_py env)\<rparr>"
  have val: "\<exists>r. validate_component ?env d (rt_reg rt) = (r, rt_reg rt) \<and> \<not> cr_registered r"
    using assms(2) by (auto simp: validate_component_def validate_workflow_definition_def Let_def split: sum.split)
  then obtain r where r: "validate_component ?env d (rt_reg rt) = (r, rt_reg rt)" "\<not> cr_registered r" by blast
  show ?thesis using assms(1,2) r unfolding rt'_def
    by (auto simp: validate_component_route_def register_runtime_def register_workflow_nodes_def conclude_def new_module_def
        register_workflow_factory_def register_checked_def put_factory_def Let_def
        split: if_splits option.splits prod.splits)
qed


text \<open>Registering a workflow makes every workflow registered before it, under another name, unusable
  unless an instance was made meanwhile: both live in one module that is replaced, so the import of the earlier
  one fails with an \<open>AttributeError\<close>. Right after its own registration it resolves.\<close>

theorem later_workflow_breaks_earlier:
  fixes env :: "'o comp_env"
  defines "resolve \<equiv> \<lambda>rt n. fst (resolve_factory (with_modules (rt_modules rt) (ce_py env)) FWorkflow n (rt_reg rt))"
  assumes "cd_type d1 = ''workflow''" "cd_type d2 = ''workflow''" "cd_name d1 \<noteq> cd_name d2"
    and "validate_component_route env u1 d1 rt = (r1, rt1)" "cr_registered r1"
    and "validate_component_route env u2 d2 rt1 = (r2, rt2)" "cr_registered r2"
    and "dict_get (factory_cache (rt_reg rt) FWorkflow) (cd_name d1) = None" "is_callable (ce_py env) (ce_workflow env d1)"
  shows "resolve rt1 (cd_name d1) = Inr (Imported (ce_workflow env d1))
    \<and> (\<exists>m. resolve rt2 (cd_name d1) = Inl (Exn AttributeError m))"
proof -
  have path: "split_path (''dynamic_workflows:create_'' @ n) = Some (''dynamic_workflows'', ''create_'' @ n)" for n
    by (simp add: split_path_def)
  from workflow_route[of env u1 d1 rt] workflow_route[of env u2 d2 rt1] assms
  have rt1: "dict_get (factories (rt_reg rt1) FWorkflow) (cd_name d1) = Some (''dynamic_workflows:create_'' @ cd_name d1)"
      "dict_get (rt_modules rt1) ''dynamic_workflows'' = Some [(''create_'' @ cd_name d1, ce_workflow env d1)]"
    and rt2: "dict_get (factories (rt_reg rt2) FWorkflow) (cd_name d1) = Some (''dynamic_workflows:create_'' @ cd_name d1)"
      "dict_get (rt_modules rt2) ''dynamic_workflows'' = Some [(''create_'' @ cd_name d2, ce_workflow env d2)]"
    and cache: "dict_get (factory_cache (rt_reg rt1) FWorkflow) (cd_name d1) = None"
      "dict_get (factory_cache (rt_reg rt2) FWorkflow) (cd_name d1) = None"
    by simp_all
  show ?thesis using assms(4,10) rt1 rt2 cache
    by (simp add: resolve_def resolve_factory_def resolve_with_def load_path_def path[simplified] with_modules_def)
qed

definition demo_runtime :: "nat runtime" where
  "demo_runtime = \<lparr>rt_reg = registry_new, rt_modules = []\<rparr>"

lemma demo_def_route:
  "\<exists>r. validate_component_route demo_comp u (demo_def\<lparr>cd_name := n\<rparr>) rt = (r, new_module ''dynamic_workflows'' [(''create_'' @ n, length n)]
      (rt\<lparr>rt_reg := put_factory FWorkflow n (''dynamic_workflows:create_'' @ n) (rt_reg rt)\<rparr>)) \<and> cr_registered r"
  if "good_name (demo_def\<lparr>cd_name := n\<rparr>)" "dict_get (factories (rt_reg rt) FWorkflow) n = None"
proof -
  let ?d = "demo_def\<lparr>cd_name := n\<rparr>" let ?env = "demo_comp\<lparr>ce_py := with_modules (rt_modules rt) (ce_py demo_comp)\<rparr>"
  have fresh: "(n, n) \<notin> set (factories (rt_reg rt) FWorkflow)" using that(2) by (force simp: map_of_eq_None_iff)
  have "cr_valid (validate_workflow_definition ?d (rt_reg rt))"
    using fresh unfolding validate_workflow_result(1)
    by (simp add: demo_def_def nonempty_list_def refs_known_def bp_edges_def acyclic_def)
  moreover have "validate_component ?env ?d (rt_reg rt) = (validate_workflow_definition ?d (rt_reg rt), rt_reg rt)"
    using that(1) by (simp add: validate_component_def good_name_def demo_def_def)
  ultimately show ?thesis using that(2)
    by (simp add: validate_component_route_def wants_registration_def register_runtime_def register_workflow_nodes_def conclude_def
        new_module_def register_workflow_factory_def register_checked_def demo_def_def demo_comp_def nonempty_list_def Let_def)
qed

theorem later_workflow_breaks_earlier_witness:
  "let d1 = demo_def; d2 = demo_def\<lparr>cd_name := ''second''\<rparr>;
       (r1, rt1) = validate_component_route demo_comp ''u1'' d1 demo_runtime;
       (r2, rt2) = validate_component_route demo_comp ''u2'' d2 rt1
   in \<exists>m. fst (resolve_factory (with_modules (rt_modules rt2) demo_py) FWorkflow ''first'' (rt_reg rt2)) = Inl (Exn AttributeError m)"
proof -
  let ?d2 = "demo_def\<lparr>cd_name := ''second''\<rparr>"
  have names: "good_name (demo_def\<lparr>cd_name := n\<rparr>)" if "n \<in> {''first'', ''second''}" for n
    using that by (auto simp: good_name_def demo_def_def name_matches_def is_letter_def name_char_def)
  have d1: "demo_def\<lparr>cd_name := ''first''\<rparr> = demo_def" by (simp add: demo_def_def)
  have "dict_get (factories (rt_reg demo_runtime) FWorkflow) ''first'' = None" by (simp add: demo_runtime_def registry_new_def)
  from demo_def_route[of "''first''" demo_runtime "''u1''", OF names this] obtain r1 rt1 where
    one: "validate_component_route demo_comp ''u1'' demo_def demo_runtime = (r1, rt1)" "cr_registered r1"
    and rt1: "rt1 = new_module ''dynamic_workflows'' [(''create_'' @ ''first'', length ''first'')]
      (demo_runtime\<lparr>rt_reg := put_factory FWorkflow ''first'' (''dynamic_workflows:create_'' @ ''first'') (rt_reg demo_runtime)\<rparr>)"
    unfolding d1 by blast
  have "dict_get (factories (rt_reg rt1) FWorkflow) ''second'' = None"
    unfolding rt1 by (simp add: demo_runtime_def registry_new_def new_module_def put_factory_def)
  from demo_def_route[of "''second''" rt1 "''u2''", OF names this] obtain r2 rt2 where
    two: "validate_component_route demo_comp ''u2'' ?d2 rt1 = (r2, rt2)" "cr_registered r2" by blast
  have ty: "cd_type demo_def = ''workflow''" "cd_type ?d2 = ''workflow''" "cd_name demo_def \<noteq> cd_name ?d2" by (simp_all add: demo_def_def)
  have cache: "dict_get (factory_cache (rt_reg demo_runtime) FWorkflow) (cd_name demo_def) = None"
    by (simp add: demo_runtime_def registry_new_def)
  have "is_callable (ce_py demo_comp) (ce_workflow demo_comp demo_def)" by (simp add: demo_comp_def demo_py_def)
  from later_workflow_breaks_earlier [OF ty one two cache this]
  have "\<exists>m. fst (resolve_factory (with_modules (rt_modules rt2) demo_py) FWorkflow ''first'' (rt_reg rt2)) = Inl (Exn AttributeError m)"
    by (simp add: demo_comp_def demo_def_def)
  then show ?thesis using one(1) two(1) by simp
qed

lemma foldl_comp_error_registered [simp]: "cr_registered (foldl (\<lambda>r f. comp_error (mk f) r) r fs) = cr_registered r"
  by (induction fs arbitrary: r) auto

lemma validate_pure:
  assumes "cd_type d \<in> {''tool'', ''agent'', ''workflow''}"
  shows "\<exists>q. validate_component env d g = (q, g) \<and> \<not> cr_registered q"
proof -
  have "\<not> cr_registered (validate_agent_definition d g)"
    by (simp add: validate_agent_definition_def Let_def)
  moreover have "\<not> cr_registered (validate_workflow_definition d g)"
    by (simp add: validate_workflow_definition_def Let_def split: sum.split)
  moreover have "snd (validate_component env d g) = g" using assms by (auto simp: validate_component_def)
  ultimately have "snd (validate_component env d g) = g \<and> \<not> cr_registered (fst (validate_component env d g))"
    using assms validate_tool_unregistered[of env d g] by (auto simp: validate_component_def)
  then show ?thesis by (metis prod.collapse)
qed

lemma tool_route:
  assumes "validate_component_route env u d rt = (r, rt')" "cr_registered r" "cd_type d = ''tool''"
  shows "has_tool (cd_name d) (rt_reg rt')"
proof -
  let ?env = "env\<lparr>ce_py := with_modules (rt_modules rt) (ce_py env)\<rparr>"
  have fac: "has_tool n g'" if "register_tool_factory py n p g = (g', None)" for py n p and g g' :: "'a registry"
    using that by (auto simp: register_tool_factory_def has_tool_def put_factory_def put_cache_def Let_def
        split: option.splits sum.splits if_splits)
  have con: "has_tool n (rt_reg rt2)" if "conclude n q rt1 e = ((r2, None), rt2)" "\<And>g. e = (g, None) \<Longrightarrow> has_tool n g"
    for n q rt1 e r2 and rt2 :: "'a runtime"
    using that by (auto simp: conclude_def split: prod.splits option.splits)
  have cached: "has_tool n (put_cache FTool n f g)" for n f and g :: "'a registry"
    by (simp add: has_tool_def put_cache_def)
  have reg: "has_tool (cd_name d) (rt_reg rt2)"
    if "register_runtime env u d q rt1 = ((r2, None), rt2)" "\<not> cr_registered q" "cr_registered r2" for q rt1 r2 rt2
    using that assms(3) con fac cached
    by (auto simp: register_runtime_def register_tool_code_def register_tool_class_def Let_def
        split: if_splits sum.splits option.splits prod.splits)
  obtain q where q: "validate_component ?env d (rt_reg rt) = (q, rt_reg rt)" "\<not> cr_registered q"
    using validate_pure[of d ?env "rt_reg rt"] assms(3) by auto
  then show ?thesis using assms(1,2) reg
    by (auto simp: validate_component_route_def Let_def split: if_splits prod.splits option.splits)
qed

lemma agent_route:
  assumes "validate_component_route env u d rt = (r, rt')" "cd_type d = ''agent''"
  shows "\<exists>x. rt_reg rt' = (rt_reg rt)\<lparr>agent_definitions := x\<rparr>"
proof -
  let ?env = "env\<lparr>ce_py := with_modules (rt_modules rt) (ce_py env)\<rparr>"
  have same: "\<exists>x. g = g\<lparr>agent_definitions := x\<rparr>" for g :: "'a registry"
    by (rule exI[of _ "agent_definitions g"]) simp
  obtain q where "validate_component ?env d (rt_reg rt) = (q, rt_reg rt)"
    using validate_pure[of d ?env "rt_reg rt"] assms(2) by auto
  then show ?thesis using assms same
    by (auto simp: validate_component_route_def register_runtime_def register_agent_data_def conclude_def
        register_agent_definition_def Let_def split: if_splits prod.splits option.splits sum.splits)
qed

lemma agent_blind [simp]: "validate_agent_definition d (g\<lparr>agent_definitions := x\<rparr>) = validate_agent_definition d g"
  by (simp add: validate_agent_definition_def available_agents_def missing_tools_def has_tool_def)

lemma workflow_table:
  assumes "validate_component_route env u d rt = (r, rt')" "cd_type d = ''workflow''"
  shows "(n, n) \<in> set (factories (rt_reg rt') FWorkflow) \<longleftrightarrow> (n, n) \<in> set (factories (rt_reg rt) FWorkflow)"
proof -
  let ?env = "env\<lparr>ce_py := with_modules (rt_modules rt) (ce_py env)\<rparr>"
  obtain q where "validate_component ?env d (rt_reg rt) = (q, rt_reg rt)"
    using validate_pure[of d ?env "rt_reg rt"] assms(2) by auto
  moreover have "length m \<noteq> length (''dynamic_workflows:create_'' @ m)" for m by simp
  then have "m \<noteq> ''dynamic_workflows:create_'' @ m" for m by metis
  ultimately show ?thesis using assms
    by (auto simp: validate_component_route_def register_runtime_def register_workflow_nodes_def conclude_def new_module_def
        register_workflow_factory_def register_checked_def put_factory_def dict_set_new[OF dict_get_eq_None[THEN iffD1]] Let_def
        split: if_splits prod.splits option.splits simp del: dict_get_eq_None append_Cons)
qed

text \<open>After a definition was registered, another one of the same kind and name: a tool is refused, an agent or a
  workflow is validated as if nothing had been registered, since the look-ups of names do not see what these
  registrations store.\<close>

theorem registered_name_conflicts:
  assumes "validate_component_route env u d rt = (r, rt')" "cr_registered r"
    and "cd_type d' = cd_type d" "cd_name d' = cd_name d"
  shows "(cd_type d = ''tool'' \<longrightarrow> \<not> cr_valid (fst (validate_component env2 d' (rt_reg rt'))))
    \<and> (cd_type d = ''agent'' \<longrightarrow> cr_valid (fst (validate_component env2 d' (rt_reg rt'))) = cr_valid (fst (validate_component env2 d' (rt_reg rt))))
    \<and> (cd_type d = ''workflow'' \<longrightarrow> cr_valid (fst (validate_component env2 d' (rt_reg rt'))) = cr_valid (fst (validate_component env2 d' (rt_reg rt))))"
proof -
  show ?thesis
  proof (intro conjI impI)
    assume "cd_type d = ''tool''"
    then show "\<not> cr_valid (fst (validate_component env2 d' (rt_reg rt')))"
      using tool_route[OF assms(1,2)] assms(3,4) by (simp add: validate_component_def validate_tool_result)
  next
    assume "cd_type d = ''agent''"
    then show "cr_valid (fst (validate_component env2 d' (rt_reg rt'))) = cr_valid (fst (validate_component env2 d' (rt_reg rt)))"
      using agent_route[OF assms(1)] assms(3) by (auto simp: validate_component_def)
  next
    assume "cd_type d = ''workflow''"
    then show "cr_valid (fst (validate_component env2 d' (rt_reg rt'))) = cr_valid (fst (validate_component env2 d' (rt_reg rt)))"
      using workflow_table[OF assms(1)] assms(3) by (simp add: validate_component_def validate_workflow_result)
  qed
qed

theorem registered_name_conflicts_witness:
  "let (r, rt') = validate_component_route demo_comp ''u1'' demo_def demo_runtime
   in cr_registered r \<and> cr_valid (fst (validate_component demo_comp demo_def (rt_reg rt')))"
proof -
  have d1: "demo_def\<lparr>cd_name := ''first''\<rparr> = demo_def" by (simp add: demo_def_def)
  have name: "good_name demo_def" by (simp add: good_name_def demo_def_def name_matches_def is_letter_def name_char_def)
  have free: "dict_get (factories (rt_reg demo_runtime) FWorkflow) ''first'' = None" by (simp add: demo_runtime_def registry_new_def)
  from demo_def_route[of "''first''" demo_runtime "''u1''", unfolded d1, OF name free] obtain r rt' where
    run: "validate_component_route demo_comp ''u1'' demo_def demo_runtime = (r, rt')" "cr_registered r" by blast
  have "cr_valid (fst (validate_component demo_comp demo_def (rt_reg demo_runtime)))"
    using name by (simp add: validate_component_def good_name_def validate_workflow_result demo_def_def demo_runtime_def registry_new_def
        nonempty_list_def refs_known_def bp_edges_def acyclic_def)
  moreover have "cd_type demo_def = ''workflow''" by (simp add: demo_def_def)
  ultimately show ?thesis using registered_name_conflicts [OF run refl refl, of demo_comp] run by simp
qed

end
