(* ===== verification/CompStore.thy ===== *)
theory CompStore
  imports Components Redis Access
begin

text \<open>
  Where component definitions are kept: the repository interface with its Redis, in-memory and SQL
  implementations (\<open>src/ice_api/services/component_repo.py\<close>), the service on top of it
  (\<open>src/ice_api/services/component_service.py\<close>) and the routes (\<open>src/ice_api/api/mcp.py\<close>), two of
  which go past the service to Redis.

  Parameters: the JSON text of a record and its reading back, the hash of its text, and the clock.
\<close>

section \<open>Repositories\<close>

record comp_record =
  cp_definition :: component_def
  cp_created :: "string option"
  cp_updated :: "string option"
  cp_version :: int

record store_env =
  se_dump :: "comp_record \<Rightarrow> string"
  se_load :: "string \<Rightarrow> comp_record"
  se_lock :: "comp_record \<Rightarrow> string"
  se_route_lock :: "comp_record \<Rightarrow> string"

text \<open>The abstract class: what is stored under a type and a name with its lock; writing, at a time; the index.\<close>

record 's repo =
  rp_get :: "string \<Rightarrow> string \<Rightarrow> 's \<Rightarrow> (comp_record \<times> string option) option"
  rp_put :: "string \<Rightarrow> string \<Rightarrow> string \<Rightarrow> comp_record \<Rightarrow> string \<Rightarrow> 's \<Rightarrow> 's"
  rp_set_index :: "string \<Rightarrow> string \<Rightarrow> 's \<Rightarrow> 's"
  rp_index :: "'s \<Rightarrow> string dict"

definition component_id :: "string \<Rightarrow> string \<Rightarrow> string" where
  "component_id t n = t @ '':'' @ n"

definition component_key :: "string \<Rightarrow> string \<Rightarrow> string" where
  "component_key t n = ''component:'' @ component_id t n"

definition repo_index_key :: string where
  "repo_index_key = ''component:index''"

definition redis_repo :: "store_env \<Rightarrow> redis repo" where
  "redis_repo env =
     \<lparr>rp_get = (\<lambda>t n s. case hget (component_key t n) ''json'' s of
          None \<Rightarrow> None
        | Some d \<Rightarrow> if d = '''' then None else Some (se_load env d, hget (component_key t n) ''lock'' s)),
      rp_put = (\<lambda>now t n r l s. snd (hset (component_key t n) [(''json'', se_dump env r), (''lock'', l)] s)),
      rp_set_index = (\<lambda>k l s. snd (hset repo_index_key [(k, l)] s)),
      rp_index = hgetall repo_index_key\<rparr>"

record memory_store =
  mm_components :: "(comp_record \<times> string \<times> string) dict"
  mm_index :: "string dict"

definition memory_repo :: "memory_store repo" where
  "memory_repo =
     \<lparr>rp_get = (\<lambda>t n s. map_option (\<lambda>(r, l, u). (r, Some l)) (dict_get (mm_components s) (component_key t n))),
      rp_put = (\<lambda>now t n r l s. s\<lparr>mm_components := dict_set (component_key t n) (r, l, now) (mm_components s)\<rparr>),
      rp_set_index = (\<lambda>k l s. s\<lparr>mm_index := dict_set k l (mm_index s)\<rparr>),
      rp_index = mm_index\<rparr>"

text \<open>The table \<open>components\<close>: its times are set by the database, and the lock is computed from the row.\<close>

definition sql_put :: "string \<Rightarrow> string \<Rightarrow> string \<Rightarrow> comp_record \<Rightarrow> string \<Rightarrow> comp_record dict \<Rightarrow> comp_record dict" where
  "sql_put now t n r l s = (case dict_get s (component_id t n) of
       None \<Rightarrow> dict_set (component_id t n) (r\<lparr>cp_created := Some now, cp_updated := Some now\<rparr>) s
     | Some row \<Rightarrow> (let row' = row\<lparr>cp_definition := cp_definition r, cp_version := cp_version r\<rparr>
         in dict_set (component_id t n) (if row' = row then row else row'\<lparr>cp_updated := Some now\<rparr>) s))"

definition sql_repo :: "store_env \<Rightarrow> comp_record dict repo" where
  "sql_repo env =
     \<lparr>rp_get = (\<lambda>t n s. map_option (\<lambda>r. (r, Some (se_lock env r))) (dict_get s (component_id t n))),
      rp_put = sql_put,
      rp_set_index = (\<lambda>k l s. s),
      rp_index = map (\<lambda>(k, r). (k, se_lock env r))\<rparr>"

section \<open>The service\<close>

definition next_record :: "string \<Rightarrow> component_def \<Rightarrow> comp_record option \<Rightarrow> comp_record" where
  "next_record now d existing =
     \<lparr>cp_definition = d, cp_created = (case existing of None \<Rightarrow> Some now | Some r \<Rightarrow> cp_created r), cp_updated = Some now,
      cp_version = (case existing of None \<Rightarrow> 1 | Some r \<Rightarrow> cp_version r + 1)\<rparr>"

definition service_put :: "store_env \<Rightarrow> 's repo \<Rightarrow> string \<Rightarrow> component_def \<Rightarrow> 's \<Rightarrow> string \<times> 's" where
  "service_put env R now d s =
     (let old = rp_get R (cd_type d) (cd_name d) s; r = next_record now d (map_option fst old); l = se_lock env r;
          s1 = (if l \<noteq> '''' \<and> map_option snd old = Some (Some l) then s else rp_put R now (cd_type d) (cd_name d) r l s)
      in (l, rp_set_index R (component_id (cd_type d) (cd_name d)) l s1))"

definition service_register ::
  "'o comp_env \<Rightarrow> store_env \<Rightarrow> 's repo \<Rightarrow> string \<Rightarrow> component_def \<Rightarrow> 'o registry \<times> 's
     \<Rightarrow> (comp_result \<times> string option) \<times> 'o registry \<times> 's" where
  "service_register cenv env R now d st =
     (let (r, g) = validate_component cenv d (fst st)
      in if \<not> cr_valid r then ((r, None), g, snd st)
         else let (l, s) = service_put env R now d (snd st) in ((r, Some l), g, s))"

section \<open>Routes\<close>

definition register_component ::
  "'o comp_env \<Rightarrow> store_env \<Rightarrow> 's repo \<Rightarrow> string \<Rightarrow> string \<Rightarrow> component_def \<Rightarrow> 'o runtime \<times> 's
     \<Rightarrow> (comp_result \<times> string option) \<times> 'o runtime \<times> 's" where
  "register_component cenv env R u now d st =
     (let rt = fst st; cenv' = cenv\<lparr>ce_py := with_modules (rt_modules rt) (ce_py cenv)\<rparr>;
          ((r, l), g, s) = service_register cenv' env R now d (rt_reg rt, snd st); rt1 = rt\<lparr>rt_reg := g\<rparr>
      in if cr_valid r \<and> cd_auto_register d \<and> \<not> cd_validate_only d
         then (let (r2, rt2) = validate_component_route cenv u d rt1 in ((r2, l), rt2, s))
         else ((r, l), rt1, s))"

definition get_component :: "'s repo \<Rightarrow> string \<Rightarrow> string \<Rightarrow> 's \<Rightarrow> (comp_record \<times> string option) api" where
  "get_component R t n s = (case rp_get R t n s of None \<Rightarrow> Inl (Http 404 ''Component not found'') | Some x \<Rightarrow> Inr x)"

record listed =
  li_type :: string
  li_name :: string
  li_version :: "int option"
  li_created :: "string option"
  li_updated :: "string option"

definition list_entry :: "'s repo \<Rightarrow> 's \<Rightarrow> string \<Rightarrow> listed res" where
  "list_entry R s k = (case split_path k of
       None \<Rightarrow> Inl (Exn ValueError ''not enough values to unpack (expected 2, got 1)'')
     | Some (t, n) \<Rightarrow> (let r = map_option fst (rp_get R t n s)
         in Inr \<lparr>li_type = t, li_name = n, li_version = map_option cp_version r,
              li_created = Option.bind r cp_created, li_updated = Option.bind r cp_updated\<rparr>))"

definition list_stored :: "'s repo \<Rightarrow> 's \<Rightarrow> listed list res" where
  "list_stored R s = res_map (list_entry R s) (dict_keys (rp_index R s))"

definition list_registered :: "'o registry \<Rightarrow> (string \<times> string) list" where
  "list_registered g = map (\<lambda>e. (''tool'', fst e)) (available_tool_factories g)
     @ map (\<lambda>e. (''agent'', fst e)) (available_agents g) @ map (\<lambda>e. (''workflow'', fst e)) (available_workflow_factories g)"

text \<open>Update and deletion go to Redis, whatever repository is in use.\<close>

definition update_component :: "store_env \<Rightarrow> string \<Rightarrow> string \<Rightarrow> string \<Rightarrow> string option \<Rightarrow> component_def \<Rightarrow> redis \<Rightarrow> string api \<times> redis" where
  "update_component env now t n client d s =
     (if cd_type d \<noteq> t \<or> cd_name d \<noteq> n then (Inl (Http 400 ''Path/type/name mismatch in definition''), s)
      else case hget (component_key t n) ''lock'' s of
          None \<Rightarrow> (Inl (Http 404 ''Component not found''), s)
        | Some l \<Rightarrow>
            (if l = '''' then (Inl (Http 404 ''Component not found''), s)
             else if client = None then (Inl (Http 428 ''Missing X-Version-Lock header''), s)
             else if client \<noteq> Some l then (Inl (Http 409 ''Component version conflict''), s)
             else let r = \<lparr>cp_definition = d, cp_created = Some now, cp_updated = Some now, cp_version = 1\<rparr>; l' = se_route_lock env r
               in (Inr l', snd (hset (component_key t n) [(''json'', se_dump env r), (''lock'', l')] s))))"

definition route_index_key :: string where
  "route_index_key = ''components:index''"

definition delete_component :: "string \<Rightarrow> string \<Rightarrow> redis \<Rightarrow> redis" where
  "delete_component t n s =
     snd (hdel route_index_key [component_id t n] (snd (hdel (component_key t n) [''json'', ''lock''] s)))"

section \<open>What the service relies on\<close>

text \<open>A repository gives back the definition and the version it was given, and the index does not matter to
  it. Which records survive the store is part of the contract.\<close>

locale component_repo =
  fixes R :: "'s repo" and storable :: "comp_record \<Rightarrow> bool"
  assumes get_put: "storable r \<Longrightarrow>
      \<exists>r' l'. rp_get R t n (rp_put R now t n r l s) = Some (r', l') \<and> cp_definition r' = cp_definition r \<and> cp_version r' = cp_version r"
    and get_index: "rp_get R t n (rp_set_index R k l s) = rp_get R t n s"
begin

text \<open>The version counts the registrations.\<close>

lemma put_counts:
  assumes "storable (next_record now d (map_option fst (rp_get R (cd_type d) (cd_name d) s)))"
    and "\<And>r l. rp_get R (cd_type d) (cd_name d) s = Some (r, l) \<Longrightarrow> l \<noteq> Some (se_lock env (next_record now d (Some r)))"
  shows "\<exists>r l. rp_get R (cd_type d) (cd_name d) (snd (service_put env R now d s)) = Some (r, l) \<and> cp_definition r = d
    \<and> cp_version r = (case rp_get R (cd_type d) (cd_name d) s of None \<Rightarrow> 1 | Some (r0, l0) \<Rightarrow> cp_version r0 + 1)"
proof -
  let ?old = "rp_get R (cd_type d) (cd_name d) s" let ?r = "next_record now d (map_option fst ?old)"
  have new: "map_option snd ?old \<noteq> Some (Some (se_lock env ?r))" using assms(2) by (cases ?old) auto
  obtain r' l' where "rp_get R (cd_type d) (cd_name d) (rp_put R now (cd_type d) (cd_name d) ?r (se_lock env ?r) s) = Some (r', l')"
    "cp_definition r' = d" "cp_version r' = cp_version ?r"
    using get_put[OF assms(1)] by (fastforce simp: next_record_def)
  then show ?thesis using new get_index
    by (cases ?old) (auto simp: service_put_def Let_def next_record_def)
qed

end

text \<open>A repository that keeps the lock it was given.\<close>

locale locking_repo = component_repo +
  assumes get_put_lock: "storable r \<Longrightarrow> rp_get R t n (rp_put R now t n r l s) = Some (r, Some l)"
begin

lemma put_lock:
  assumes "storable (next_record now d (map_option fst (rp_get R (cd_type d) (cd_name d) s)))"
    and "\<And>r l. rp_get R (cd_type d) (cd_name d) s = Some (r, l) \<Longrightarrow> l \<noteq> Some (se_lock env (next_record now d (Some r)))"
  shows "map_option snd (rp_get R (cd_type d) (cd_name d) (snd (service_put env R now d s))) = Some (Some (fst (service_put env R now d s)))"
proof -
  let ?old = "rp_get R (cd_type d) (cd_name d) s"
  have "map_option snd ?old \<noteq> Some (Some (se_lock env (next_record now d (map_option fst ?old))))" using assms(2) by (cases ?old) auto
  then show ?thesis using get_put_lock[OF assms(1)] get_index by (auto simp: service_put_def Let_def)
qed

end

lemma component_key_index [simp]: "component_key t n \<noteq> repo_index_key" "component_key t n \<noteq> route_index_key"
proof -
  have "CHR '':'' \<in> set (component_id t n)" "CHR '':'' \<notin> set ''index''" by (simp_all add: component_id_def)
  then have "component_id t n \<noteq> ''index''" by metis
  then show "component_key t n \<noteq> repo_index_key" by (simp add: component_key_def repo_index_key_def)
  show "component_key t n \<noteq> route_index_key" by (simp add: component_key_def route_index_key_def)
qed

lemma hget_index: "k \<noteq> repo_index_key \<Longrightarrow> hget k f (snd (hset repo_index_key [(k', l)] s)) = hget k f s"
  by (simp add: stub.get_put)

definition redis_storable :: "store_env \<Rightarrow> comp_record \<Rightarrow> bool" where
  "redis_storable env r \<longleftrightarrow> se_load env (se_dump env r) = r \<and> se_dump env r \<noteq> ''''"

interpretation redis_store: locking_repo "redis_repo env" "redis_storable env"
proof
  fix r t n k l now s
  show "redis_storable env r \<Longrightarrow> \<exists>r' l'. rp_get (redis_repo env) t n (rp_put (redis_repo env) now t n r l s) = Some (r', l')
      \<and> cp_definition r' = cp_definition r \<and> cp_version r' = cp_version r"
    by (simp add: redis_repo_def redis_storable_def)
  show "redis_storable env r \<Longrightarrow> rp_get (redis_repo env) t n (rp_put (redis_repo env) now t n r l s) = Some (r, Some l)"
    by (simp add: redis_repo_def redis_storable_def)
  show "rp_get (redis_repo env) t n (rp_set_index (redis_repo env) k l s) = rp_get (redis_repo env) t n s"
    by (simp add: redis_repo_def hget_index split: option.split)
qed

interpretation memory_store: locking_repo memory_repo "\<lambda>_. True"
  by unfold_locales (simp_all add: memory_repo_def)

interpretation sql_store: component_repo "sql_repo env" "\<lambda>_. True"
proof
  fix r t n k l now s
  have same: "row\<lparr>cp_definition := x, cp_version := v\<rparr> = row \<longleftrightarrow> cp_definition row = x \<and> cp_version row = v"
    for row :: comp_record and x v by (cases row) auto
  show "\<exists>r' l'. rp_get (sql_repo env) t n (rp_put (sql_repo env) now t n r l s) = Some (r', l')
      \<and> cp_definition r' = cp_definition r \<and> cp_version r' = cp_version r"
    by (simp add: sql_repo_def sql_put_def Let_def same split: option.split)
  show "rp_get (sql_repo env) t n (rp_set_index (sql_repo env) k l s) = rp_get (sql_repo env) t n s"
    by (simp add: sql_repo_def)
qed

section \<open>Properties\<close>

definition next_version :: "(comp_record \<times> string option) option \<Rightarrow> int" where
  "next_version old = (case old of None \<Rightarrow> 1 | Some (r, l) \<Rightarrow> cp_version r + 1)"

definition new_lock :: "store_env \<Rightarrow> string \<Rightarrow> component_def \<Rightarrow> (comp_record \<times> string option) option \<Rightarrow> bool" where
  "new_lock env now d old \<longleftrightarrow> (case old of None \<Rightarrow> True | Some (r, l) \<Rightarrow> l \<noteq> Some (se_lock env (next_record now d (Some r))))"

text \<open>(C30) Registering a valid definition stores it with the next version number, in each of the three repositories
  (barring a collision of the hash). Redis and the in-memory store also keep the lock that the registration
  answered.\<close>

theorem registration_counts_versions:
  assumes "cr_valid (fst (validate_component cenv d g))"
    and "redis_storable env (next_record now d (map_option fst (rp_get (redis_repo env) (cd_type d) (cd_name d) s)))"
    and "new_lock env now d (rp_get (redis_repo env) (cd_type d) (cd_name d) s)"
    and "new_lock env now d (rp_get memory_repo (cd_type d) (cd_name d) m)"
    and "new_lock env now d (rp_get (sql_repo env) (cd_type d) (cd_name d) q)"
  shows "(let ((r, l), g', s') = service_register cenv env (redis_repo env) now d (g, s);
            old = rp_get (redis_repo env) (cd_type d) (cd_name d) s; new = rp_get (redis_repo env) (cd_type d) (cd_name d) s'
       in \<exists>x. new = Some (x, l) \<and> cp_definition x = d \<and> cp_version x = next_version old)
    \<and> (let ((r, l), g', m') = service_register cenv env memory_repo now d (g, m);
            old = rp_get memory_repo (cd_type d) (cd_name d) m; new = rp_get memory_repo (cd_type d) (cd_name d) m'
       in \<exists>x. new = Some (x, l) \<and> cp_definition x = d \<and> cp_version x = next_version old)
    \<and> (let ((r, l), g', q') = service_register cenv env (sql_repo env) now d (g, q);
            old = rp_get (sql_repo env) (cd_type d) (cd_name d) q; new = rp_get (sql_repo env) (cd_type d) (cd_name d) q'
       in \<exists>x l'. new = Some (x, l') \<and> cp_definition x = d \<and> cp_version x = next_version old)"
proof -
  have run: "service_register cenv env R now d (g, z) =
      ((fst (validate_component cenv d g), Some (fst (service_put env R now d z))), snd (validate_component cenv d g),
       snd (service_put env R now d z))" for R z
    using assms(1) by (cases "validate_component cenv d g") (simp add: service_register_def split: prod.splits)
  have "\<exists>x l. rp_get (redis_repo env) (cd_type d) (cd_name d) (snd (service_put env (redis_repo env) now d s)) = Some (x, l)
      \<and> cp_definition x = d \<and> cp_version x = next_version (rp_get (redis_repo env) (cd_type d) (cd_name d) s)"
    unfolding next_version_def using assms(3) by (intro redis_store.put_counts assms(2)) (simp add: new_lock_def)
  moreover have "map_option snd (rp_get (redis_repo env) (cd_type d) (cd_name d) (snd (service_put env (redis_repo env) now d s)))
      = Some (Some (fst (service_put env (redis_repo env) now d s)))"
    using assms(3) by (intro redis_store.put_lock assms(2)) (simp add: new_lock_def)
  moreover have "\<exists>x l. rp_get memory_repo (cd_type d) (cd_name d) (snd (service_put env memory_repo now d m)) = Some (x, l)
      \<and> cp_definition x = d \<and> cp_version x = next_version (rp_get memory_repo (cd_type d) (cd_name d) m)"
    unfolding next_version_def using assms(4) by (intro memory_store.put_counts) (simp_all add: new_lock_def)
  moreover have "map_option snd (rp_get memory_repo (cd_type d) (cd_name d) (snd (service_put env memory_repo now d m)))
      = Some (Some (fst (service_put env memory_repo now d m)))"
    using assms(4) by (intro memory_store.put_lock) (simp_all add: new_lock_def)
  moreover have "\<exists>x l. rp_get (sql_repo env) (cd_type d) (cd_name d) (snd (service_put env (sql_repo env) now d q)) = Some (x, l)
      \<and> cp_definition x = d \<and> cp_version x = next_version (rp_get (sql_repo env) (cd_type d) (cd_name d) q)"
    unfolding next_version_def using assms(5) by (intro sql_store.put_counts) (simp_all add: new_lock_def)
  ultimately show ?thesis unfolding run by auto
qed

definition demo_store :: store_env where
  "demo_store = \<lparr>se_dump = (\<lambda>r. ''json''), se_load = (\<lambda>_. next_record ''now'' demo_def None), se_lock = (\<lambda>_. ''hash''),
     se_route_lock = (\<lambda>_. ''route hash'')\<rparr>"

theorem registration_counts_versions_witness:
  "let ((r, l), g, s) = service_register demo_comp demo_store (redis_repo demo_store) ''now'' demo_def (registry_new, redis_new)
   in map_option (\<lambda>x. cp_version (fst x)) (rp_get (redis_repo demo_store) ''workflow'' ''first'' s) = Some 1"
proof -
  have valid: "cr_valid (fst (validate_component demo_comp demo_def registry_new))"
    by (simp add: validate_component_def validate_workflow_result demo_def_def registry_new_def name_matches_def is_letter_def
        name_char_def nonempty_list_def refs_known_def bp_edges_def acyclic_def)
  have empty: "rp_get (redis_repo demo_store) t n redis_new = None"
      "rp_get memory_repo t n \<lparr>mm_components = [], mm_index = []\<rparr> = None" "rp_get (sql_repo demo_store) t n [] = None" for t n
    by (simp_all add: redis_repo_def memory_repo_def sql_repo_def hget_def redis_new_def dict_get_or_def)
  have storable: "redis_storable demo_store (next_record ''now'' demo_def (map_option fst (rp_get (redis_repo demo_store) (cd_type demo_def) (cd_name demo_def) redis_new)))"
    by (simp add: redis_storable_def demo_store_def empty[unfolded demo_store_def])
  have new: "new_lock demo_store ''now'' demo_def None" by (simp add: new_lock_def)
  obtain r l g s where run: "service_register demo_comp demo_store (redis_repo demo_store) ''now'' demo_def (registry_new, redis_new) = ((r, l), g, s)"
    by (metis prod.collapse)
  have "cd_type demo_def = ''workflow''" "cd_name demo_def = ''first''" by (simp_all add: demo_def_def)
  then show ?thesis
    using registration_counts_versions [OF valid storable, of "\<lparr>mm_components = [], mm_index = []\<rparr>" "[]"] run
    by (auto simp: empty new next_version_def)
qed

section \<open>Routes that go past the service\<close>

lemma split_component_id: "CHR '':'' \<notin> set t \<Longrightarrow> split_path (component_id t n) = Some (t, n)"
proof -
  assume "CHR '':'' \<notin> set t"
  then have "\<forall>c \<in> set t. c \<noteq> CHR '':''" by metis
  then show ?thesis by (simp add: split_path_def component_id_def takeWhile_append2 dropWhile_append2)
qed

lemma delete_component_index [simp]: "rp_index (redis_repo env) (delete_component t n s) = rp_index (redis_repo env) s"
proof -
  have "repo_index_key \<noteq> route_index_key" by (simp add: repo_index_key_def route_index_key_def)
  then show ?thesis using component_key_index(1)[of t n] by (simp add: redis_repo_def delete_component_def hgetall_hdel del: component_key_index)
qed

lemma delete_component_gone: "rp_get (redis_repo env) t n (delete_component t n s) = None"
  by (simp add: redis_repo_def delete_component_def)

text \<open>(C31) Deleting a component removes its definition, and leaves it in the list: the route clears another index than the
  one the repository keeps. It stays there without a version, for ever.\<close>

theorem deleted_component_stays_listed:
  assumes "list_stored (redis_repo env) s = Inr xs" "component_id t n \<in> set (dict_keys (rp_index (redis_repo env) s))" "CHR '':'' \<notin> set t"
  defines "s' \<equiv> delete_component t n s"
  shows "get_component (redis_repo env) t n s' = Inl (Http 404 ''Component not found'')
    \<and> (\<exists>ys. list_stored (redis_repo env) s' = Inr ys \<and> length ys = length xs
        \<and> \<lparr>li_type = t, li_name = n, li_version = None, li_created = None, li_updated = None\<rparr> \<in> set ys)"
proof -
  let ?R = "redis_repo env" let ?ks = "dict_keys (rp_index ?R s)"
  have ok: "list_all2 (\<lambda>k y. list_entry ?R s k = Inr y) ?ks xs" using assms(1) by (simp add: list_stored_def res_map_Inr_iff)
  have "\<exists>y. list_entry ?R s' k = Inr y" if k: "k \<in> set ?ks" for k
  proof -
    obtain i where i: "i < length ?ks" "?ks ! i = k" using k unfolding in_set_conv_nth by blast
    then have "list_entry ?R s k = Inr (xs ! i)" using list_all2_nthD[OF ok i(1)] by (simp only: i(2))
    then have "split_path k \<noteq> None" by (cases "split_path k") (simp_all add: list_entry_def)
    then show ?thesis by (cases "split_path k") (auto simp: list_entry_def Let_def)
  qed
  then obtain f where f: "\<And>k. k \<in> set ?ks \<Longrightarrow> list_entry ?R s' k = Inr (f k)" by metis
  have "list_stored ?R s' = Inr (map f ?ks)"
    using f by (simp add: s'_def list_stored_def res_map_Inr_iff list_all2_conv_all_nth)
  moreover have "f (component_id t n) = \<lparr>li_type = t, li_name = n, li_version = None, li_created = None, li_updated = None\<rparr>"
    using f[OF assms(2)] delete_component_gone[of env t n s] by (simp add: s'_def list_entry_def split_component_id[OF assms(3)])
  moreover have "length (map f ?ks) = length xs" using ok list_all2_lengthD by fastforce
  moreover have "f (component_id t n) \<in> set (map f ?ks)" using imageI[OF assms(2), of f] by (simp only: set_map)
  moreover have "get_component ?R t n s' = Inl (Http 404 ''Component not found'')"
    using delete_component_gone[of env t n s] by (simp add: s'_def get_component_def)
  ultimately show ?thesis by metis
qed

theorem deleted_component_stays_listed_witness:
  "let s = snd (snd (service_register demo_comp demo_store (redis_repo demo_store) ''now'' demo_def (registry_new, redis_new)))
   in \<exists>ys. list_stored (redis_repo demo_store) (delete_component ''workflow'' ''first'' s) = Inr ys
      \<and> \<lparr>li_type = ''workflow'', li_name = ''first'', li_version = None, li_created = None, li_updated = None\<rparr> \<in> set ys"
proof -
  have valid: "cr_valid (fst (validate_component demo_comp demo_def registry_new))"
    by (simp add: validate_component_def validate_workflow_result demo_def_def registry_new_def name_matches_def is_letter_def
        name_char_def nonempty_list_def refs_known_def bp_edges_def acyclic_def)
  let ?s = "snd (snd (service_register demo_comp demo_store (redis_repo demo_store) ''now'' demo_def (registry_new, redis_new)))"
  have s: "?s = snd (service_put demo_store (redis_repo demo_store) ''now'' demo_def redis_new)"
    using valid by (cases "validate_component demo_comp demo_def registry_new") (simp add: service_register_def split: prod.splits)
  have index: "rp_index (redis_repo demo_store) ?s = [(''workflow:first'', ''hash'')]"
    unfolding s by (simp add: service_put_def redis_repo_def demo_store_def demo_def_def hset_def hget_def hgetall_def redis_new_def
        dict_get_or_def dict_union_def component_id_def component_key_def repo_index_key_def Let_def)
  have "split_path ''workflow:first'' = Some (''workflow'', ''first'')" by (simp add: split_path_def)
  then have "\<exists>xs. list_stored (redis_repo demo_store) ?s = Inr xs" by (simp add: list_stored_def index list_entry_def Let_def)
  then obtain xs where "list_stored (redis_repo demo_store) ?s = Inr xs" by blast
  from deleted_component_stays_listed [OF this, of "''workflow''" "''first''"] show ?thesis by (simp add: index component_id_def Let_def) blast
qed

text \<open>An update of a component is accepted exactly with the stored lock, for a definition of the component of the
  path. It answers the lock for the next one, and what it stores counts versions from 1 again, whatever the version was.\<close>

theorem component_update_resets_version:
  assumes "hget (component_key t n) ''lock'' s = Some l" "l \<noteq> ''''"
    and "redis_storable env \<lparr>cp_definition = d, cp_created = Some now, cp_updated = Some now, cp_version = 1\<rparr>"
    and "update_component env now t n client d s = (a, s')"
  shows "((\<exists>l'. a = Inr l') \<longleftrightarrow> client = Some l \<and> cd_type d = t \<and> cd_name d = n)
    \<and> (case a of Inl e \<Rightarrow> s' = s
        | Inr l' \<Rightarrow> \<exists>r. rp_get (redis_repo env) t n s' = Some (r, Some l') \<and> cp_definition r = d \<and> cp_version r = 1)"
proof -
  have "(\<exists>l'. a = Inr l') \<longleftrightarrow> client = Some l \<and> cd_type d = t \<and> cd_name d = n"
    using assms(1,2,4) by (auto simp: update_component_def Let_def split: if_splits)
  moreover have "\<exists>r. rp_get (redis_repo env) t n s' = Some (r, Some l') \<and> cp_definition r = d \<and> cp_version r = 1" if "a = Inr l'" for l'
    using that assms by (auto simp: update_component_def Let_def redis_repo_def redis_storable_def split: if_splits)
  moreover have "s' = s" if "a = Inl e" for e
    using that assms(1,2,4) by (auto simp: update_component_def Let_def split: if_splits)
  ultimately show ?thesis by (cases a) simp_all
qed

theorem component_update_resets_version_witness:
  "let old = demo_def; d = demo_def\<lparr>cd_description := ''better''\<rparr>;
       env = demo_store\<lparr>se_load := (\<lambda>_. \<lparr>cp_definition = d, cp_created = Some ''now'', cp_updated = Some ''now'', cp_version = 1\<rparr>)\<rparr>;
       s = snd (hset (component_key ''workflow'' ''first'') [(''json'', ''{}''), (''lock'', ''hash'')] redis_new)
   in fst (update_component env ''now'' ''workflow'' ''first'' (Some ''hash'') d s) = Inr ''route hash''"
proof -
  let ?d = "demo_def\<lparr>cd_description := ''better''\<rparr>"
  let ?r = "\<lparr>cp_definition = ?d, cp_created = Some ''now'', cp_updated = Some ''now'', cp_version = 1\<rparr>"
  let ?env = "demo_store\<lparr>se_load := (\<lambda>_. ?r)\<rparr>"
  let ?s = "snd (hset (component_key ''workflow'' ''first'') [(''json'', ''{}''), (''lock'', ''hash'')] redis_new)"
  obtain a s' where run: "update_component ?env ''now'' ''workflow'' ''first'' (Some ''hash'') ?d ?s = (a, s')" by fastforce
  have lock: "hget (component_key ''workflow'' ''first'') ''lock'' ?s = Some ''hash''" by simp
  have "redis_storable ?env ?r" by (simp add: redis_storable_def demo_store_def)
  from component_update_resets_version [OF lock _ this run]
  have "\<exists>l'. a = Inr l'" by (simp add: demo_def_def)
  then show ?thesis using run lock by (auto simp: update_component_def demo_store_def Let_def split: if_splits)
qed

end
