(* ===== verification/Semaphore.thy ===== *)
theory Semaphore
  imports Prelude
begin

text \<open>
  The weighted semaphore that bounds the parallelism of a level
  (\<open>src/ice_core/utils/perf.py\<close>, used by \<open>Workflow._execute_level\<close>).

  A task enters \<open>WeightedSemaphore\<close> by acquiring \<open>weight\<close> slots of one
  \<open>asyncio.Semaphore\<close>, one after the other, runs, and releases as many. The semaphore is
  modelled as its documentation describes it: \<open>acquire\<close> takes a slot at once when one is free
  and nobody waits, otherwise the task is suspended in a FIFO queue; \<open>release\<close> hands the slot
  to the first waiter, or back to the pool. The scheduler may run the tasks in any order, so the
  system is a step relation; tasks are numbered from 0.
\<close>

section \<open>Weights\<close>

text \<open>\<open>estimate_complexity\<close> looks at the class name of the configuration.\<close>

definition estimate_complexity :: "string \<Rightarrow> nat" where
  "estimate_complexity cls_name = (if cls_name = ''LLMNodeConfig'' then 2 else 1)"

definition node_weight :: "string \<Rightarrow> nat" where
  "node_weight cls_name = max 1 (estimate_complexity cls_name)"

section \<open>The system\<close>

text \<open>\<open>Entering k\<close>: in the loop of \<open>__aenter__\<close>, holding \<open>k\<close> slots;
  \<open>Blocked k\<close>: suspended in \<open>acquire\<close>, holding \<open>k\<close> slots.\<close>

datatype tstat = Entering nat | Blocked nat | Running | Done

record sem_sys =
  sem_value :: nat
  sem_waiters :: "nat list"
  sem_stat :: "nat \<Rightarrow> tstat"

definition sem_init :: "nat \<Rightarrow> sem_sys" where
  "sem_init cap = \<lparr>sem_value = cap, sem_waiters = [], sem_stat = (\<lambda>_. Entering 0)\<rparr>"

text \<open>\<open>await self._sem.acquire()\<close> by task \<open>i\<close>, which holds \<open>k\<close> slots.\<close>

definition sem_acquire :: "nat \<Rightarrow> nat \<Rightarrow> sem_sys \<Rightarrow> sem_sys" where
  "sem_acquire i k s =
     (if 0 < sem_value s \<and> sem_waiters s = []
      then s\<lparr>sem_value := sem_value s - 1, sem_stat := (sem_stat s)(i := Entering (Suc k))\<rparr>
      else s\<lparr>sem_waiters := sem_waiters s @ [i], sem_stat := (sem_stat s)(i := Blocked k)\<rparr>)"

text \<open>A blocked task that gets its slot continues the loop holding one more.\<close>

fun wake :: "tstat \<Rightarrow> tstat" where
  "wake (Blocked k) = Entering (Suc k)"
| "wake st = st"

definition sem_release :: "sem_sys \<Rightarrow> sem_sys" where
  "sem_release s =
     (case sem_waiters s of
        [] \<Rightarrow> s\<lparr>sem_value := Suc (sem_value s)\<rparr>
      | j # js \<Rightarrow> s\<lparr>sem_waiters := js, sem_stat := (sem_stat s)(j := wake (sem_stat s j))\<rparr>)"

text \<open>\<open>__aexit__\<close>: the task has left its body; \<open>weight\<close> releases without a
  suspension point in between.\<close>

definition sem_aexit :: "nat \<Rightarrow> nat \<Rightarrow> sem_sys \<Rightarrow> sem_sys" where
  "sem_aexit i w s = (sem_release ^^ w) (s\<lparr>sem_stat := (sem_stat s)(i := Done)\<rparr>)"

lemma sem_aexit_2:
  "sem_aexit i 2 s = sem_release (sem_release (s\<lparr>sem_stat := (sem_stat s)(i := Done)\<rparr>))"
  by (simp add: sem_aexit_def numeral_2_eq_2)

text \<open>\<open>ws\<close> lists the weights of the tasks.\<close>

inductive sem_step :: "nat list \<Rightarrow> sem_sys \<Rightarrow> sem_sys \<Rightarrow> bool" for ws where
  acquire: "i < length ws \<Longrightarrow> sem_stat s i = Entering k \<Longrightarrow> k < ws ! i \<Longrightarrow>
     sem_step ws s (sem_acquire i k s)"
| enter: "i < length ws \<Longrightarrow> sem_stat s i = Entering k \<Longrightarrow> \<not> k < ws ! i \<Longrightarrow>
     sem_step ws s (s\<lparr>sem_stat := (sem_stat s)(i := Running)\<rparr>)"
| leave: "i < length ws \<Longrightarrow> sem_stat s i = Running \<Longrightarrow>
     sem_step ws s (sem_aexit i (ws ! i) s)"

inductive_cases sem_stepE: "sem_step ws s t"

definition sem_reach :: "nat \<Rightarrow> nat list \<Rightarrow> sem_sys \<Rightarrow> bool" where
  "sem_reach cap ws s \<longleftrightarrow> (sem_step ws)\<^sup>*\<^sup>* (sem_init cap) s"

definition sem_stuck :: "nat list \<Rightarrow> sem_sys \<Rightarrow> bool" where
  "sem_stuck ws s \<longleftrightarrow> (\<forall>t. \<not> sem_step ws s t)"

definition sem_finished :: "nat list \<Rightarrow> sem_sys \<Rightarrow> bool" where
  "sem_finished ws s \<longleftrightarrow> (\<forall>i < length ws. sem_stat s i = Done)"

section \<open>The invariant\<close>

fun held :: "nat \<Rightarrow> tstat \<Rightarrow> nat" where
  "held w (Entering k) = k"
| "held w (Blocked k) = k"
| "held w Running = w"
| "held w Done = 0"

definition held_total :: "nat list \<Rightarrow> sem_sys \<Rightarrow> nat" where
  "held_total ws s = (\<Sum>i < length ws. held (ws ! i) (sem_stat s i))"

definition running_weight :: "nat list \<Rightarrow> sem_sys \<Rightarrow> nat" where
  "running_weight ws s = (\<Sum>i < length ws. if sem_stat s i = Running then ws ! i else 0)"

fun stat_ok :: "nat \<Rightarrow> tstat \<Rightarrow> bool" where
  "stat_ok w (Entering k) = (k \<le> w)"
| "stat_ok w (Blocked k) = (k < w)"
| "stat_ok w _ = True"

text \<open>Slots are neither lost nor made; the queue holds exactly the blocked tasks, once each; nobody
  waits while a slot is free.\<close>

definition sem_inv :: "nat \<Rightarrow> nat list \<Rightarrow> sem_sys \<Rightarrow> bool" where
  "sem_inv cap ws s \<longleftrightarrow>
     sem_value s + held_total ws s = cap \<and>
     distinct (sem_waiters s) \<and>
     (\<forall>i. i \<in> set (sem_waiters s) \<longleftrightarrow> i < length ws \<and> (\<exists>k. sem_stat s i = Blocked k)) \<and>
     (sem_waiters s \<noteq> [] \<longrightarrow> sem_value s = 0) \<and>
     (\<forall>i < length ws. stat_ok (ws ! i) (sem_stat s i))"

lemma sum_fun_upd:
  fixes f :: "nat \<Rightarrow> 'a \<Rightarrow> nat"
  assumes "i < n"
  shows "(\<Sum>j < n. f j ((g(i := x)) j)) + f i (g i) = (\<Sum>j < n. f j (g j)) + f i x"
proof -
  have "(\<Sum>j < n. f j ((g(i := x)) j)) = f i x + (\<Sum>j \<in> {..<n} - {i}. f j (g j))"
    using assms by (subst sum.remove[of _ i]) (auto intro!: sum.cong)
  moreover have "(\<Sum>j < n. f j (g j)) = f i (g i) + (\<Sum>j \<in> {..<n} - {i}. f j (g j))"
    using assms by (subst sum.remove[of _ i]) auto
  ultimately show ?thesis by simp
qed

lemma held_total_upd:
  "i < length ws \<Longrightarrow>
   held_total ws (s\<lparr>sem_stat := (sem_stat s)(i := x)\<rparr>) + held (ws ! i) (sem_stat s i)
     = held_total ws s + held (ws ! i) x"
  unfolding held_total_def using sum_fun_upd[of i "length ws" "\<lambda>j. held (ws ! j)" "sem_stat s" x]
  by simp

lemma held_total_irrelevant [simp]:
  "held_total ws (s\<lparr>sem_value := v\<rparr>) = held_total ws s"
  "held_total ws (s\<lparr>sem_waiters := q\<rparr>) = held_total ws s"
  by (simp_all add: held_total_def)

text \<open>While a task releases its slots the pool is short of the \<open>m\<close> slots still to come back.\<close>

lemma sem_release_inv:
  assumes "sem_inv cap ws s"
  shows "sem_inv (Suc cap) ws (sem_release s)"
proof (cases "sem_waiters s")
  case Nil
  then show ?thesis using assms by (auto simp: sem_inv_def sem_release_def)
next
  case (Cons j js)
  then obtain k where j: "j < length ws" "sem_stat s j = Blocked k"
    using assms by (auto simp: sem_inv_def)
  have "held_total ws (s\<lparr>sem_stat := (sem_stat s)(j := Entering (Suc k))\<rparr>) = Suc (held_total ws s)"
    using held_total_upd[OF j(1), of s "Entering (Suc k)"] j(2) by simp
  moreover have "stat_ok (ws ! j) (Blocked k)" using assms j by (metis sem_inv_def)
  ultimately show ?thesis using assms Cons j
    by (auto simp: sem_inv_def sem_release_def held_total_def)
qed

lemma sem_releases_inv: "sem_inv cap ws s \<Longrightarrow> sem_inv (m + cap) ws ((sem_release ^^ m) s)"
  by (induction m) (auto intro: sem_release_inv)

lemma sem_step_inv:
  assumes "sem_step ws s t" "sem_inv cap ws s"
  shows "sem_inv cap ws t"
  using assms(1)
proof cases
  case (acquire i k)
  have h: "held_total ws (s\<lparr>sem_stat := (sem_stat s)(i := Entering (Suc k))\<rparr>) = Suc (held_total ws s)"
    "held_total ws (s\<lparr>sem_stat := (sem_stat s)(i := Blocked k)\<rparr>) = held_total ws s"
    using held_total_upd[OF acquire(2), of s "Entering (Suc k)"]
      held_total_upd[OF acquire(2), of s "Blocked k"] acquire(3) by simp_all
  have "i \<notin> set (sem_waiters s)" using acquire assms(2) by (auto simp: sem_inv_def)
  then show ?thesis using assms(2) acquire h
    by (auto simp: sem_inv_def sem_acquire_def held_total_def)
next
  case (enter i k)
  have "k = ws ! i" using enter assms(2) by (force simp: sem_inv_def)
  then have "held_total ws (s\<lparr>sem_stat := (sem_stat s)(i := Running)\<rparr>) = held_total ws s"
    using held_total_upd[OF enter(2), of s Running] enter(3) by simp
  then show ?thesis using assms(2) enter by (auto simp: sem_inv_def)
next
  case (leave i)
  let ?s = "s\<lparr>sem_stat := (sem_stat s)(i := Done)\<rparr>"
  have "held_total ws ?s + ws ! i = held_total ws s"
    using held_total_upd[OF leave(2), of s Done] leave(3) by simp
  then have "sem_inv (cap - ws ! i) ws ?s" "ws ! i \<le> cap"
    using assms(2) leave by (auto simp: sem_inv_def)
  then show ?thesis using sem_releases_inv[of "cap - ws ! i" ws ?s "ws ! i"] leave(1)
    by (simp add: sem_aexit_def)
qed

lemma sem_init_inv: "sem_inv cap ws (sem_init cap)"
  by (simp add: sem_inv_def sem_init_def held_total_def)

interpretation sem: transition_system "sem_step ws" "sem_inv cap ws" for ws cap
  by unfold_locales (rule sem_step_inv)

lemma sem_reach_inv: "sem_reach cap ws s \<Longrightarrow> sem_inv cap ws s"
  unfolding sem_reach_def using sem_init_inv by (rule sem.reach_inv[rotated])

section \<open>Running to completion\<close>

text \<open>Every step brings the system closer to its end, whatever the scheduler does.\<close>

fun stat_work :: "nat \<Rightarrow> tstat \<Rightarrow> nat" where
  "stat_work w (Entering k) = 2 + 2 * (w - k)"
| "stat_work w (Blocked k) = 1 + 2 * (w - k)"
| "stat_work w Running = 1"
| "stat_work w Done = 0"

definition sem_work :: "nat list \<Rightarrow> sem_sys \<Rightarrow> nat" where
  "sem_work ws s = (\<Sum>i < length ws. stat_work (ws ! i) (sem_stat s i))"

lemma sem_work_upd:
  "i < length ws \<Longrightarrow>
   sem_work ws (s\<lparr>sem_stat := (sem_stat s)(i := x)\<rparr>) + stat_work (ws ! i) (sem_stat s i)
     = sem_work ws s + stat_work (ws ! i) x"
  unfolding sem_work_def using sum_fun_upd[of i "length ws" "\<lambda>j. stat_work (ws ! j)" "sem_stat s" x]
  by simp

lemma sem_work_irrelevant [simp]:
  "sem_work ws (s\<lparr>sem_value := v\<rparr>) = sem_work ws s"
  "sem_work ws (s\<lparr>sem_waiters := q\<rparr>) = sem_work ws s"
  by (simp_all add: sem_work_def)

lemma sem_release_work:
  assumes "sem_inv cap ws s"
  shows "sem_work ws (sem_release s) \<le> sem_work ws s"
proof (cases "sem_waiters s")
  case Nil
  then show ?thesis by (simp add: sem_release_def)
next
  case (Cons j js)
  then obtain k where j: "j < length ws" "sem_stat s j = Blocked k" "k < ws ! j"
    using assms unfolding sem_inv_def by (metis list.set_intros(1) stat_ok.simps(2))
  have "sem_work ws (sem_release s) = sem_work ws (s\<lparr>sem_stat := (sem_stat s)(j := Entering (Suc k))\<rparr>)"
    using Cons j by (simp add: sem_release_def sem_work_def)
  then show ?thesis using sem_work_upd[OF j(1), of s "Entering (Suc k)"] j(2,3) by simp
qed

lemma sem_releases_work:
  "sem_inv cap ws s \<Longrightarrow> sem_work ws ((sem_release ^^ m) s) \<le> sem_work ws s"
proof (induction m)
  case 0
  then show ?case by simp
next
  case (Suc m)
  have "sem_work ws (sem_release ((sem_release ^^ m) s)) \<le> sem_work ws ((sem_release ^^ m) s)"
    using sem_releases_inv[OF Suc.prems] by (rule sem_release_work)
  then show ?case using Suc by simp
qed

lemma sem_step_work:
  assumes "sem_step ws s t" "sem_inv cap ws s"
  shows "sem_work ws t < sem_work ws s"
  using assms(1)
proof cases
  case (acquire i k)
  then show ?thesis
    using sem_work_upd[OF acquire(2), of s "Entering (Suc k)"]
      sem_work_upd[OF acquire(2), of s "Blocked k"]
    by (auto simp: sem_acquire_def sem_work_def)
next
  case (enter i k)
  then show ?thesis using sem_work_upd[OF enter(2), of s Running] by simp
next
  case (leave i)
  let ?s = "s\<lparr>sem_stat := (sem_stat s)(i := Done)\<rparr>"
  have h: "held_total ws ?s + ws ! i = held_total ws s" "sem_work ws ?s < sem_work ws s"
    using held_total_upd[OF leave(2), of s Done] sem_work_upd[OF leave(2), of s Done] leave(3)
    by simp_all
  then have "sem_inv (cap - ws ! i) ws ?s"
    using assms(2) leave by (auto simp: sem_inv_def)
  then show ?thesis using sem_releases_work[of _ ws ?s "ws ! i"] h(2) leave(1)
    by (fastforce simp: sem_aexit_def)
qed

text \<open>A task that is not blocked and has not left can always move.\<close>

lemma sem_stuck_stat:
  assumes "sem_stuck ws s" "i < length ws"
  shows "sem_stat s i = Done \<or> (\<exists>k. sem_stat s i = Blocked k)"
proof (cases "sem_stat s i")
  case (Entering k)
  then show ?thesis
    using assms sem_step.acquire[of i ws s k] sem_step.enter[of i ws s k] by (auto simp: sem_stuck_def)
next
  case Running
  then show ?thesis using assms sem_step.leave[of i ws s] by (auto simp: sem_stuck_def)
qed auto

lemma sem_stuck_finished:
  assumes "sem_inv cap ws s" "sem_stuck ws s" "(\<Sum>w \<leftarrow> ws. w - 1) < cap"
  shows "sem_finished ws s"
proof (rule ccontr)
  assume "\<not> sem_finished ws s"
  then obtain i where "i < length ws" "sem_stat s i \<noteq> Done" by (auto simp: sem_finished_def)
  then obtain k where "i < length ws" "sem_stat s i = Blocked k"
    using sem_stuck_stat[OF assms(2)] by blast
  then have "sem_waiters s \<noteq> []" using assms(1) by (auto simp: sem_inv_def)
  then have "held_total ws s = cap" using assms(1) by (auto simp: sem_inv_def)
  moreover have "held (ws ! j) (sem_stat s j) \<le> ws ! j - 1" if "j < length ws" for j
  proof -
    have "stat_ok (ws ! j) (sem_stat s j)" using assms(1) that by (simp add: sem_inv_def)
    then show ?thesis using sem_stuck_stat[OF assms(2) that] by auto
  qed
  then have "held_total ws s \<le> (\<Sum>j < length ws. ws ! j - 1)"
    unfolding held_total_def by (intro sum_mono) auto
  ultimately show False using assms(3)
    by (simp add: sum_list_sum_nth atLeast0LessThan)
qed

lemma sem_completes:
  assumes "sem_inv cap ws s" "(\<Sum>w \<leftarrow> ws. w - 1) < cap"
  shows "\<exists>t. (sem_step ws)\<^sup>*\<^sup>* s t \<and> sem_finished ws t"
  using assms(1)
proof (induction "sem_work ws s" arbitrary: s rule: less_induct)
  case less
  show ?case
  proof (cases "sem_stuck ws s")
    case True
    then show ?thesis using sem_stuck_finished[OF less.prems _ assms(2)] by blast
  next
    case False
    then obtain u where u: "sem_step ws s u" by (auto simp: sem_stuck_def)
    obtain t where "(sem_step ws)\<^sup>*\<^sup>* u t" "sem_finished ws t"
      using less.hyps[OF sem_step_work[OF u less.prems] sem_step_inv[OF u less.prems]] by blast
    then show ?thesis using u by (meson converse_rtranclp_into_rtranclp)
  qed
qed

section \<open>An executable schedule\<close>

text \<open>One task moves; \<open>None\<close> when it cannot. Every move is a step of the relation.\<close>

definition sem_move :: "nat list \<Rightarrow> nat \<Rightarrow> sem_sys \<Rightarrow> sem_sys option" where
  "sem_move ws i s =
     (if i < length ws then
        (case sem_stat s i of
           Entering k \<Rightarrow> Some (if k < ws ! i then sem_acquire i k s
                              else s\<lparr>sem_stat := (sem_stat s)(i := Running)\<rparr>)
         | Running \<Rightarrow> Some (sem_aexit i (ws ! i) s)
         | _ \<Rightarrow> None)
      else None)"

fun sem_schedule :: "nat list \<Rightarrow> nat list \<Rightarrow> sem_sys \<Rightarrow> sem_sys option" where
  "sem_schedule ws [] s = Some s"
| "sem_schedule ws (i # is) s =
     (case sem_move ws i s of None \<Rightarrow> None | Some t \<Rightarrow> sem_schedule ws is t)"

lemma sem_move_step: "sem_move ws i s = Some t \<Longrightarrow> sem_step ws s t"
  by (auto simp: sem_move_def intro: sem_step.intros split: tstat.splits if_splits)

lemma sem_schedule_steps: "sem_schedule ws is s = Some t \<Longrightarrow> (sem_step ws)\<^sup>*\<^sup>* s t"
  by (induction "is" arbitrary: s)
     (auto split: option.splits dest: sem_move_step intro: converse_rtranclp_into_rtranclp)

lemma sem_blocked_stuck:
  "(\<forall>i < length ws. \<exists>k. sem_stat s i = Blocked k) \<or>
   (\<forall>i < length ws. sem_stat s i = Done \<or> (\<exists>k. sem_stat s i = Blocked k)) \<Longrightarrow> sem_stuck ws s"
  by (fastforce simp: sem_stuck_def elim: sem_stepE)

text \<open>A release never makes another task run or finish: it only wakes a blocked one.\<close>

lemma sem_release_live:
  "sem_stat u i \<notin> {Running, Done} \<Longrightarrow> sem_stat (sem_release u) i \<notin> {Running, Done}"
  by (cases "sem_stat u i") (auto simp: sem_release_def split: list.splits)

lemma sem_releases_live:
  "sem_stat u i \<notin> {Running, Done} \<Longrightarrow> sem_stat ((sem_release ^^ m) u) i \<notin> {Running, Done}"
proof (induction m)
  case (Suc m)
  then show ?case using sem_release_live[of "(sem_release ^^ m) u" i] by simp
qed simp

section \<open>Properties\<close>

text \<open>Mutual limit: in every reachable state the nodes that run together weigh at most
  \<open>max_parallel\<close>, and the slots of the pool and of the tasks always add up to it.\<close>

theorem semaphore_bounds_parallelism:
  assumes "sem_reach cap ws s"
  shows "running_weight ws s \<le> cap \<and> sem_value s + held_total ws s = cap"
proof -
  have inv: "sem_inv cap ws s" using assms by (rule sem_reach_inv)
  have "running_weight ws s \<le> held_total ws s"
    unfolding running_weight_def held_total_def by (intro sum_mono) auto
  then show ?thesis using inv by (simp add: sem_inv_def)
qed

theorem semaphore_bounds_parallelism_witness:
  "sem_reach 3 [2, 1] (the (sem_schedule [2, 1] [0, 0, 0, 1, 1] (sem_init 3))) \<and>
   running_weight [2, 1] (the (sem_schedule [2, 1] [0, 0, 0, 1, 1] (sem_init 3))) \<le> 3"
proof -
  have "sem_reach 3 [2, 1] (the (sem_schedule [2, 1] [0, 0, 0, 1, 1] (sem_init 3)))"
    unfolding sem_reach_def
    by (rule sem_schedule_steps [of _ "[0, 0, 0, 1, 1]"])
       (simp add: sem_move_def sem_acquire_def sem_init_def)
  then show ?thesis using semaphore_bounds_parallelism by blast
qed

text \<open>A level completes: from every reachable state the tasks can all run to their end, and no
  schedule is infinite, as long as the slots exceed the total of \<open>weight - 1\<close>, that is, while the
  level has fewer LLM nodes than \<open>max_parallel\<close>.\<close>

theorem semaphore_level_completes:
  assumes "sem_reach cap ws s" "(\<Sum>w \<leftarrow> ws. w - 1) < cap"
  shows "(\<exists>t. (sem_step ws)\<^sup>*\<^sup>* s t \<and> sem_finished ws t) \<and>
    (sem_stuck ws s \<longrightarrow> sem_finished ws s) \<and>
    (\<forall>t. sem_step ws s t \<longrightarrow> sem_work ws t < sem_work ws s)"
  using assms sem_reach_inv sem_completes sem_stuck_finished sem_step_work by blast

theorem semaphore_level_completes_witness:
  "\<exists>t. (sem_step [2, 2, 1])\<^sup>*\<^sup>* (sem_init 3) t \<and> sem_finished [2, 2, 1] t"
proof -
  have "sem_reach 3 [2, 2, 1] (sem_init 3)" by (simp add: sem_reach_def)
  then show ?thesis using semaphore_level_completes [of 3 "[2, 2, 1]" "sem_init 3"] by simp
qed

text \<open>A node heavier than the pool never runs: with \<open>max_parallel = 1\<close> an LLM node (weight 2)
  takes the only slot and waits for a second one for ever, so no execution of its level ends.\<close>

theorem heavy_node_never_runs:
  assumes "sem_reach cap ws s" "i < length ws" "cap < ws ! i"
  shows "sem_stat s i \<noteq> Running \<and> sem_stat s i \<noteq> Done"
proof -
  have "(sem_step ws)\<^sup>*\<^sup>* (sem_init cap) s" using assms(1) by (simp add: sem_reach_def)
  then show ?thesis
  proof (induction rule: rtranclp_induct)
    case base
    then show ?case by (simp add: sem_init_def)
  next
    case (step s t)
    have inv: "sem_inv cap ws t" "sem_inv cap ws s"
      using step.hyps sem_reach_inv sem_step_inv by (auto simp: sem_reach_def)
    have "sem_stat t i \<noteq> Running"
    proof
      assume r: "sem_stat t i = Running"
      have "held (ws ! i) (sem_stat t i) \<le> held_total ws t"
        unfolding held_total_def using assms(2) by (intro member_le_sum) auto
      then show False using r assms(3) inv(1) by (simp add: sem_inv_def)
    qed
    moreover have "sem_stat t i \<noteq> Done"
      using step.hyps(2)
    proof cases
      case (leave j)
      then have "j \<noteq> i" using step.IH by auto
      then show ?thesis using sem_releases_live[of "s\<lparr>sem_stat := (sem_stat s)(j := Done)\<rparr>" i "ws ! j"] step.IH leave(1)
        by (simp add: sem_aexit_def)
    qed (use step.IH in \<open>auto simp: sem_acquire_def\<close>)
    ultimately show ?case by blast
  qed
qed

theorem heavy_node_never_runs_witness:
  "let s = sem_acquire 0 1 (sem_acquire 0 0 (sem_init 1)) in
     sem_reach 1 [node_weight ''LLMNodeConfig''] s \<and> sem_stat s 0 = Blocked 1 \<and>
     sem_stat s 0 \<noteq> Running \<and> sem_stat s 0 \<noteq> Done"
proof -
  let ?ws = "[node_weight ''LLMNodeConfig'']"
  let ?s = "sem_acquire 0 1 (sem_acquire 0 0 (sem_init 1))"
  have w: "?ws = [2]" by (simp add: node_weight_def estimate_complexity_def)
  have "sem_schedule ?ws [0, 0] (sem_init 1) = Some ?s"
    unfolding w by (simp add: sem_move_def sem_acquire_def sem_init_def)
  then have r: "sem_reach 1 ?ws ?s" unfolding sem_reach_def by (rule sem_schedule_steps)
  then show ?thesis using heavy_node_never_runs [OF r, of 0] unfolding Let_def w
    by (simp add: sem_acquire_def sem_init_def)
qed

text \<open>The default \<open>max_parallel = 5\<close> deadlocks on a level of eight LLM nodes: the schedule
  that starts them in order and lets the first three finish reaches a state where five of them hold
  one slot each, all wait for their second, and no step is possible.\<close>

theorem eight_llm_nodes_deadlock:
  "\<exists>s. sem_reach 5 (replicate 8 (node_weight ''LLMNodeConfig'')) s \<and>
       sem_stuck (replicate 8 (node_weight ''LLMNodeConfig'')) s \<and>
       map (sem_stat s) [0..<8] = replicate 3 Done @ replicate 5 (Blocked 1)"
proof -
  let ?ws = "[2, 2, 2, 2, 2, 2, 2, 2] :: nat list"
  let ?run = "sem_schedule ?ws [0, 0, 0, 1, 1, 1, 2, 2, 3, 4, 5, 6, 7, 0, 2, 3, 1, 4, 5, 2, 6, 7] (sem_init 5)"
  have ws: "replicate 8 (node_weight ''LLMNodeConfig'') = ?ws"
    by (simp add: node_weight_def estimate_complexity_def eval_nat_numeral)
  have run: "?run = Some (the ?run) \<and>
    map (sem_stat (the ?run)) [0, 1, 2, 3, 4, 5, 6, 7] =
      [Done, Done, Done, Blocked 1, Blocked 1, Blocked 1, Blocked 1, Blocked 1]"
    by (simp add: sem_move_def sem_acquire_def sem_init_def sem_aexit_2 sem_release_def)
  then have "sem_reach 5 ?ws (the ?run)"
    unfolding sem_reach_def using sem_schedule_steps by blast
  moreover have stat: "\<forall>i < 8. sem_stat (the ?run) i = (if i < 3 then Done else Blocked 1)"
    using run by (auto simp: less_Suc_eq eval_nat_numeral)
  moreover have "sem_stuck ?ws (the ?run)"
    by (rule sem_blocked_stuck) (use stat in auto)
  moreover have "map (sem_stat (the ?run)) [0..<8] = replicate 3 Done @ replicate 5 (Blocked 1)"
    using run by (simp add: upt_rec eval_nat_numeral)
  ultimately show ?thesis unfolding ws by blast
qed

end
