(* ===== verification/Flows.thy ===== *)
theory Flows
  imports Workflow
begin

text \<open>
  Recursive flows of a workflow: how deep \<open>Workflow._handle_recursive_flows\<close> and
  \<open>_execute_recursive_node\<close> go. The iteration counter that a recursive node writes into its output is
  passed on in the context of the sources it has run again, so that the recursion is no deeper than
  the greatest \<open>max_iterations\<close>.
\<close>

section \<open>Where the output of a node comes from\<close>

lemma outer_loop_result:
  "outer_loop env p n inp turns e j le s = (Inr r, s') \<Longrightarrow>
     nr_output r = VNone \<or> (\<exists>le0 s0 s1. one_turn env p n inp le0 s0 = (Finished r, s1))"
proof (induction turns arbitrary: e j le s)
  case 0
  then show ?case by (auto simp: give_up_def failure_result_def split: if_splits)
next
  case (Suc turns)
  obtain t s1 where t: "one_turn env p n inp le s = (t, s1)" by fastforce
  show ?case
  proof (cases t)
    case (Finished x)
    then show ?thesis using Suc.prems t by auto
  next
    case (Failed e1 j1)
    then show ?thesis using Suc.prems t Suc.IH
      by (cases "rt_max p \<le> j1") (auto simp: give_up_def failure_result_def split: if_splits)
  qed
qed

text \<open>Without the cache, the output of a node whose executor returns ready results is the output of such a
  result, or missing.\<close>

lemma packed_output:
  assumes "execute_node env nodes i inp s = (Inr r, s')" "\<not> ev_use_cache env" "dict_get nodes i = Some n"
    and "\<And>m w x w'. kind m = kind n \<Longrightarrow> ev_dispatch env m inp w = (Inr x, w') \<Longrightarrow> \<exists>p. x = Packed p"
    and "nr_output r \<noteq> VNone"
  shows "\<exists>m w w' p. base m = base m \<and> kind m = kind n \<and> node_id m = node_id n \<and>
    ev_dispatch env m inp w = (Inr (Packed p), w') \<and> nr_output r = nr_output p"
proof -
  obtain m where m: "runtime_validate (js_check (ev_lib env)) (ev_compiles env) n = Inr m" "run_node env m inp s = (Inr r, s')"
    using assms(1,3,5) by (auto simp: execute_node_def failure_result_def split: sum.splits if_splits)
  have k: "kind m = kind n" "node_id m = node_id n"
    using m(1) by (auto simp: runtime_validate_def base_runtime_validate_def res_bind_Inr_iff set_output_schema_def
        value_error_of_def invalid_schema_error_def node_id_def Let_def split: option.splits if_splits)
  obtain le0 s0 s1 where "one_turn env (retry_of (base m)) m inp le0 s0 = (Finished r, s1)"
    using outer_loop_result[OF m(2)[unfolded run_node_def Let_def]] assms(5) by blast
  then obtain out j le1 s2 s3 where d: "dispatch_loop env (retry_of (base m)) m inp (rt_max (retry_of (base m))) 0 le0 s0
      = (Inr out, j, le1, s2)" "finish_out env m inp le1 out s2 = (Inr r, s3)"
    using assms(2) by (auto simp: one_turn_def cache_lookup_def split: sum.splits prod.splits)
  obtain w w' where w: "ev_dispatch env m inp w = (Inr out, w')" using dispatch_origin[OF d(1)] by blast
  then obtain p where p: "out = Packed p" using assms(4)[OF k(1)] by blast
  have "nr_output r = nr_output p"
    using d(2) p by (auto simp: finish_out_def finish_packed_def split: prod.splits option.splits if_splits)
  then show ?thesis using w p k by blast
qed

section \<open>The depth of recursive flows\<close>

definition iteration_of :: "val dict \<Rightarrow> int option" where
  "iteration_of d = (case dict_get d ''_recursive_iteration'' of Some (VInt i) \<Rightarrow> Some i | _ \<Rightarrow> None)"

text \<open>When a node asks for recursion, its iteration counter is one more than that of its context, and was
  below the bound.\<close>

definition iteration_bounded :: "'x wf_env \<Rightarrow> node dict \<Rightarrow> int \<Rightarrow> bool" where
  "iteration_bounded env nodes B \<longleftrightarrow> (\<forall>i inp s r s' k j rc. run_nodes s = nodes \<longrightarrow>
     execute_node_w (we_engine env) i inp s = (Inr r, s') \<longrightarrow>
     iteration_of inp = Some k \<longrightarrow> (j, rc) \<in> set (recursion_of nodes (i, r)) \<longrightarrow>
     k < B \<and> iteration_of rc = Some (k + 1) \<and> dict_wf rc)"

lemma iteration_boundedD:
  assumes "iteration_bounded env nodes B" "run_nodes s = nodes" "execute_node_w (we_engine env) i inp s = (Inr r, s')"
    and "iteration_of inp = Some k" "(j, rc) \<in> set (recursion_of nodes (i, r))"
  shows "k < B \<and> iteration_of rc = Some (k + 1) \<and> dict_wf rc"
  using assms(1)[unfolded iteration_bounded_def, rule_format, OF assms(2,3,4,5)] .

definition shallow :: "int \<Rightarrow> nat \<Rightarrow> (string \<times> val dict) list \<Rightarrow> bool" where
  "shallow B k fs \<longleftrightarrow> (\<forall>(i, rc) \<in> set fs. \<exists>it. iteration_of rc = Some it \<and> nat (B - it) < k \<and> dict_wf rc)"

lemma run_flows_depth:
  fixes s :: "'x estate"
  shows "stable env \<Longrightarrow> iteration_bounded env nodes B \<Longrightarrow> run_nodes s = nodes \<Longrightarrow> shallow B k fs \<Longrightarrow> k \<le> k' \<Longrightarrow>
    run_flows env k' fs acc s = run_flows env k fs acc s"
proof (induction env k fs acc s arbitrary: k' rule: run_flows.induct)
  case (1 env k acc s)
  then show ?case by simp
next
  case (2 env i rc rest acc s)
  then show ?case by (auto simp: shallow_def)
next
  case (3 env k i rc rest acc s)
  obtain it where it: "iteration_of rc = Some it" "nat (B - it) < Suc k" "dict_wf rc"
    using "3.prems"(4) by (auto simp: shallow_def)
  have rest: "shallow B (Suc k) rest" using "3.prems"(4) by (simp add: shallow_def)
  obtain j where j: "k' = Suc j" "k \<le> j" using "3.prems"(5) by (cases k') auto
  obtain x s1 where t: "recursive_turn env i rc acc s = (x, s1)" by fastforce
  have n1: "run_nodes s1 = nodes" using recursive_turn_skel[OF "3.prems"(1) t] "3.prems"(3) by (simp add: skeleton_def)
  show ?case
  proof (cases x)
    case (Inl e)
    then show ?thesis using "3.IH"(1)[of x s1 e k'] "3.prems"(1,2,5) rest t j n1 by simp
  next
    case (Inr r)
    obtain ctx where ex: "execute_node_w (we_engine env) i (dict_union ctx rc) s = (Inr r, s1)"
      using t Inr by (auto simp: recursive_turn_def split: option.splits sum.splits)
    have "dict_get rc ''_recursive_iteration'' = Some (VInt it)"
      using it(1) by (auto simp: iteration_of_def split: option.splits val.splits)
    then have inp: "iteration_of (dict_union ctx rc) = Some it"
      using it(3) by (simp add: iteration_of_def dict_get_union)
    have shallow: "shallow B k (recursion_of (run_nodes s1) (i, r))"
      unfolding shallow_def
    proof (intro ballI, clarify)
      fix j' rc' assume "(j', rc') \<in> set (recursion_of (run_nodes s1) (i, r))"
      then have "it < B \<and> iteration_of rc' = Some (it + 1) \<and> dict_wf rc'"
        unfolding n1 by (rule iteration_boundedD[OF "3.prems"(2,3) ex inp])
      then show "\<exists>it. iteration_of rc' = Some it \<and> nat (B - it) < k \<and> dict_wf rc'" using it(2) by auto
    qed
    have inner: "run_flows env j (recursion_of (run_nodes s1) (i, r)) (dict_set i r acc) s1 =
        run_flows env k (recursion_of (run_nodes s1) (i, r)) (dict_set i r acc) s1"
      by (rule "3.IH"(2)[OF t[symmetric] Inr "3.prems"(1,2) n1 shallow j(2)])
    obtain acc' s2 where f: "run_flows env k (recursion_of (run_nodes s1) (i, r)) (dict_set i r acc) s1 = (acc', s2)"
      by fastforce
    have n2: "run_nodes s2 = nodes"
      using run_flows_skel[OF "3.prems"(1), of k "recursion_of (run_nodes s1) (i, r)" "dict_set i r acc" s1] f n1
      by (simp add: skeleton_def)
    have "run_flows env k' rest acc' s2 = run_flows env (Suc k) rest acc' s2"
      by (rule "3.IH"(3)[OF t[symmetric] Inr f[symmetric] "3.prems"(1,2) n2 rest "3.prems"(5)])
    then show ?thesis using t Inr inner f j(1) by simp
  qed
qed

section \<open>Recursive nodes keep to the bound\<close>

text \<open>The executors of recursive nodes are the built-in ones, without the cache; outputs are dictionaries of
  Python, which have each key once. The nodes of the table have a bound of at most \<open>B\<close> and a context key
  other than the markers.\<close>

definition recursive_setup :: "'x wf_env \<Rightarrow> 'x engine node_env \<Rightarrow> node dict \<Rightarrow> int \<Rightarrow> bool" where
  "recursive_setup env nenv nodes B \<longleftrightarrow> (let E = ee_exec (we_engine env) in
     stable env \<and> \<not> ev_use_cache E \<and>
     (\<forall>n r inp w. kind n = KRecursive r \<longrightarrow>
        ev_dispatch E n inp w = (case recursive_executor nenv n r inp w of (x, w') \<Rightarrow> (res_bind x (\<lambda>p. Inr (Packed p)), w')) \<and>
        (\<exists>k. ne_impl nenv TRecursive (impl_name n) n inp = act_raise (Exn KeyError k))) \<and>
     (\<forall>n inp w p w' d. ev_dispatch E n inp w = (Inr (Packed p), w') \<longrightarrow> nr_output p = VDict d \<longrightarrow> dict_wf d) \<and>
     (\<forall>n r. n \<in> set (map snd nodes) \<longrightarrow> kind n = KRecursive r \<longrightarrow> rc_max_iterations r \<le> B \<and>
        rc_context_key r \<notin> {''_recursive_iteration'', ''_can_recurse'', ''converged''}))"

lemma setup_bounded:
  assumes "recursive_setup env nenv nodes B"
  shows "iteration_bounded env nodes B"
  unfolding iteration_bounded_def
proof (intro allI impI)
  fix i inp s r s' k j rc
  assume a: "run_nodes s = nodes" "execute_node_w (we_engine env) i inp s = (Inr r, s')"
    "iteration_of inp = Some k" "(j, rc) \<in> set (recursion_of nodes (i, r))"
  let ?E = "ee_exec (we_engine env)"
  obtain n where n: "dict_get nodes i = Some n" "node_type_of n = TRecursive" "nr_output r = VDict rc"
    "truth (dict_get_or rc ''_can_recurse'' (VBool False))"
    using a(4) by (cases "dict_get nodes i"; cases "nr_output r") (auto simp: recursion_of_def split: if_splits)
  obtain f where f: "kind n = KRecursive f" using n(2) by (cases "kind n") (simp_all add: node_type_of_def)
  obtain v where v: "dict_get rc ''_can_recurse'' = Some v" "truth v"
    using n(4) by (auto simp: dict_get_or_def split: option.splits)
  obtain s1 s2 where s1: "start_node i s = (Inr (), s1)" "executor_call (we_engine env) i inp s1 = (Inr r, s2)"
    using a(2) by (auto simp: execute_node_w_def split: prod.splits sum.splits)
  have nodes: "run_nodes s1 = nodes" using start_node_skel[OF s1(1)] a(1) by (simp add: skeleton_def)
  have disp: "ev_dispatch ?E m inp w = (case recursive_executor nenv m f inp w of (x, w') \<Rightarrow> (res_bind x (\<lambda>p. Inr (Packed p)), w'))"
    if "kind m = kind n" for m inp w
    using assms that f unfolding recursive_setup_def Let_def by metis
  have packed: "\<exists>p. x = Packed p" if "kind m = kind n" "ev_dispatch ?E m inp w = (Inr x, w')" for m w x w'
    using that(2) unfolding disp[OF that(1)] by (auto simp: res_bind_Inr_iff split: prod.splits)
  have "\<exists>m w w' p. base m = base m \<and> kind m = kind n \<and> node_id m = node_id n \<and>
      ev_dispatch ?E m inp w = (Inr (Packed p), w') \<and> nr_output r = nr_output p"
    by (rule packed_output[OF s1(2)[unfolded executor_call_def nodes] _ n(1) packed])
      (use assms n(3) in \<open>simp_all add: recursive_setup_def Let_def\<close>)
  then obtain m w w' p where p: "kind m = kind n" "ev_dispatch ?E m inp w = (Inr (Packed p), w')" "nr_output p = VDict rc"
    using n(3) by auto
  have rec: "recursive_executor nenv m f inp w = (Inr p, w')"
    using p(2) unfolding disp[OF p(1)] by (auto simp: res_bind_Inr_iff split: prod.splits)
  have "\<exists>e. ne_impl nenv TRecursive (impl_name m) m inp = act_raise (Exn KeyError e)"
    using assms p(1) f unfolding recursive_setup_def Let_def by metis
  then obtain e where impl: "ne_impl nenv (node_type_of m) (impl_name m) m inp = act_raise (Exn KeyError e)"
    using p(1) f by (auto simp: node_type_of_def)
  have mem: "n \<in> set (map snd nodes)" using n(1) by (force dest: map_of_SomeD)
  then have keys: "rc_max_iterations f \<le> B" "rc_context_key f \<notin> {''_recursive_iteration'', ''_can_recurse'', ''converged''}"
    using assms f unfolding recursive_setup_def Let_def by blast+
  have it: "dict_get_or inp ''_recursive_iteration'' (VInt 0) = VInt k"
    using a(3) by (auto simp: iteration_of_def dict_get_or_def split: option.splits val.splits)
  have "k < rc_max_iterations f \<and> dict_get rc ''_recursive_iteration'' = Some (VInt (k + 1))"
    by (rule recursive_contract[OF impl rec it keys(2) p(3) v])
  then have "k < B" "iteration_of rc = Some (k + 1)" using keys(1) by (simp_all add: iteration_of_def)
  moreover have "dict_wf rc" using assms p(2,3) unfolding recursive_setup_def Let_def by blast
  ultimately show "k < B \<and> iteration_of rc = Some (k + 1) \<and> dict_wf rc" by blast
qed

text \<open>(C10) Recursive flows are no deeper than the bound on the iterations: when the scheduled sources carry
  iteration counters of at least \<open>i\<close>, a recursion depth of \<open>B - i\<close> more calls suffices, and every greater depth
  gives the same results and the same state.\<close>

theorem recursive_flows_bounded:
  assumes "recursive_setup env nenv (run_nodes s) B" "shallow B k fs" "k \<le> k'"
  shows "run_flows env k' fs acc s = run_flows env k fs acc s"
  by (rule run_flows_depth[OF _ setup_bounded[OF assms(1)] refl assms(2,3)])
    (use assms(1) in \<open>simp add: recursive_setup_def Let_def\<close>)

section \<open>Witnesses\<close>

text \<open>A recursive node that names itself as source, with two iterations.\<close>

definition demo_rec :: recursive_fields where
  "demo_rec = \<lparr>rc_sources = [''r''], rc_condition = None, rc_max_iterations = 2, rc_agent_package = None,
     rc_workflow_ref = Some ''sub'', rc_preserve = False, rc_context_key = ''ctx''\<rparr>"

definition rec_nenv :: "unit engine node_env" where
  "rec_nenv = nested_nenv\<lparr>ne_run := \<lambda>n ctx. act_ret (Packed (ok_result (node_id n) ''workflow'' (VDict [])))\<rparr>"

definition rec_dispatch :: "node \<Rightarrow> val dict \<Rightarrow> unit engine \<Rightarrow> exec_out res \<times> unit engine" where
  "rec_dispatch n inp w = (case kind n of
       KRecursive r \<Rightarrow> (case recursive_executor rec_nenv n r inp w of (x, w') \<Rightarrow> (res_bind x (\<lambda>p. Inr (Packed p)), w'))
     | _ \<Rightarrow> (Inr (Packed (ok_result (node_id n) ''tool'' (VInt 1))), w))"

definition rec_env :: "unit wf_env" where
  "rec_env = \<lparr>we_engine = demo_engine_env\<lparr>ee_exec := (ee_exec demo_engine_env)\<lparr>ev_dispatch := rec_dispatch\<rparr>\<rparr>,
     we_name = ''flow'', we_levels = [(0, [''r''])], we_policy = CONTINUE_POSSIBLE, we_token_ceiling = None,
     we_depth_ceiling = None, we_token_guard = None, we_depth_guard = None, we_metadata = (\<lambda>_. None),
     we_repr = exn_msg, we_schedule = (\<lambda>_. []), we_limit = 10, we_depth = 10\<rparr>"

abbreviation rec_state :: "unit estate" where
  "rec_state \<equiv> frame_of (demo_engine (Node (default_base ''r'' []) (KRecursive demo_rec)))"

lemma annotate_wf:
  "annotate n r it c (Packed p) = Inr q \<Longrightarrow> nr_output p = VDict d \<Longrightarrow> dict_wf d \<Longrightarrow> nr_output q = VDict e \<Longrightarrow> dict_wf e"
  by (auto simp: annotate_def Let_def intro!: dict_wf_set split: if_splits)

lemma rec_executor_world:
  "\<exists>x. recursive_executor rec_nenv n r inp w = (x, w) \<and> (\<forall>p d. x = Inr p \<longrightarrow> nr_output p = VDict d \<longrightarrow> dict_wf d)"
proof -
  have wf: "dict_wf [(''converged'', VBool b), (''reason'', VStr t), (''iterations'', it), (''final_context'', c)]" for b t it c
    by simp
  have inner: "\<exists>x. run_inner rec_nenv n r c w = (x, w) \<and> (\<forall>y. x = Inr y \<longrightarrow> (\<exists>i. y = Packed (ok_result i ''workflow'' (VDict []))))" for c
    by (auto simp: run_inner_def rec_nenv_def act_bind_def split: option.splits list.splits sum.splits)
  have "\<exists>x. recursive_inline rec_nenv n r inp w = (x, w) \<and> (\<forall>p d. x = Inr p \<longrightarrow> nr_output p = VDict d \<longrightarrow> dict_wf d)"
  proof (cases "next_context n r inp (dict_get_or inp ''_recursive_iteration'' (VInt 0))")
    case (Inl e)
    then show ?thesis
      by (auto simp: recursive_inline_def Let_def act_bind_def ok_result_def success_result_def final_output_def split: sum.splits)
  next
    case (Inr c)
    obtain x where x: "run_inner rec_nenv n r c w = (x, w)"
      "\<And>y. x = Inr y \<Longrightarrow> \<exists>i. y = Packed (ok_result i ''workflow'' (VDict []))" using inner[of c] by blast
    have out: "dict_wf d" if y: "x = Inr y" and p: "annotate n r it c y = Inr p" "nr_output p = VDict d" for y p d it
    proof -
      obtain i where "y = Packed (ok_result i ''workflow'' (VDict []))" using x(2)[OF y] by blast
      then show ?thesis using annotate_wf[of n r it c "ok_result i ''workflow'' (VDict [])" p "[]" d] p
        by (simp add: ok_result_def success_result_def)
    qed
    show ?thesis using Inr x(1) out
      by (auto simp: recursive_inline_def Let_def act_bind_def ok_result_def success_result_def final_output_def
          split: sum.splits)
  qed
  then show ?thesis
    by (auto simp: recursive_executor_def impl_or_def act_catch_def rec_nenv_def nested_nenv_def act_bind_def on_key_error_def
        on_any_def recursive_failed_def failed_with_def split: sum.splits)
qed

theorem recursive_flows_bounded_witness:
  "run_flows rec_env 10 [(''r'', [(''_recursive_iteration'', VInt 0)])] [] rec_state =
   run_flows rec_env 3 [(''r'', [(''_recursive_iteration'', VInt 0)])] [] rec_state"
proof (rule recursive_flows_bounded [where nenv = rec_nenv and B = 2])
  show "shallow 2 3 [(''r'', [(''_recursive_iteration'', VInt 0)])]" by (simp add: shallow_def iteration_of_def)
  have rec: "\<exists>x. rec_dispatch n inp w = (x, w)" "fst (rec_dispatch n inp w) = Inr (Packed p) \<Longrightarrow> nr_output p = VDict d \<Longrightarrow> dict_wf d"
    for n inp w p d
  proof -
    have "(\<exists>x. rec_dispatch n inp w = (x, w)) \<and>
        (\<forall>p d. fst (rec_dispatch n inp w) = Inr (Packed p) \<longrightarrow> nr_output p = VDict d \<longrightarrow> dict_wf d)"
    proof (cases "\<exists>r. kind n = KRecursive r")
      case True
      then obtain r x where "kind n = KRecursive r" "recursive_executor rec_nenv n r inp w = (x, w)"
        "\<forall>p d. x = Inr p \<longrightarrow> nr_output p = VDict d \<longrightarrow> dict_wf d" using rec_executor_world by metis
      then show ?thesis by (auto simp: rec_dispatch_def res_bind_Inr_iff)
    next
      case False
      then show ?thesis by (cases "kind n") (auto simp: rec_dispatch_def ok_result_def success_result_def)
    qed
    then show "\<exists>x. rec_dispatch n inp w = (x, w)" "fst (rec_dispatch n inp w) = Inr (Packed p) \<Longrightarrow> nr_output p = VDict d \<Longrightarrow> dict_wf d"
      by blast+
  qed
  have world: "snd (rec_dispatch n inp w) = w" for n inp w using rec(1)[of n inp w] by auto
  have "stable rec_env"
    by (simp add: stable_def keeps_world_def rec_env_def demo_engine_env_def world)
  moreover have "dict_wf d" if "rec_dispatch n inp w = (Inr (Packed p), w')" "nr_output p = VDict d" for n inp w w' p d
    using rec(2)[of n inp w p d] that by simp
  ultimately show "recursive_setup rec_env rec_nenv (run_nodes rec_state) 2"
    by (auto simp: recursive_setup_def Let_def rec_env_def demo_engine_env_def rec_nenv_def nested_nenv_def frame_of_def
        demo_engine_def demo_rec_def rec_dispatch_def)
qed simp

end
