(* ===== verification/Levels.thy ===== *)
theory Levels
  imports Semaphore Runs
begin

text \<open>
  A level of a run under its semaphore (\<open>Workflow._execute_level\<close> in
  \<open>src/ice_orchestrator/workflow.py\<close>): every task first acquires the slots that its node weighs,
  then builds its context and executes its node, then releases the slots. The detailed system, in which
  tasks wait for slots, refines the interleaving of tasks that the theory on workflows works with.
\<close>

section \<open>The system\<close>

fun config_class :: "kind \<Rightarrow> string" where
  "config_class (KTool _ _) = ''ToolNodeConfig''"
| "config_class (KLlm _) = ''LLMNodeConfig''"
| "config_class (KAgent _) = ''AgentNodeConfig''"
| "config_class (KCondition _ _ _) = ''ConditionNodeConfig''"
| "config_class (KWorkflow _ _ _) = ''WorkflowNodeConfig''"
| "config_class (KLoop _ _ _ _) = ''LoopNodeConfig''"
| "config_class (KParallel _ _) = ''ParallelNodeConfig''"
| "config_class (KRecursive _) = ''RecursiveNodeConfig''"
| "config_class (KCode _) = ''CodeNodeConfig''"
| "config_class (KHuman _) = ''HumanNodeConfig''"
| "config_class (KMonitor _ _ _) = ''MonitorNodeConfig''"
| "config_class (KSwarm _) = ''SwarmNodeConfig''"

definition level_weights :: "node list \<Rightarrow> nat list" where
  "level_weights ns = map (\<lambda>n. node_weight (config_class (kind n))) ns"

record 'x gated =
  gt_sem :: sem_sys
  gt_tasks :: "task list"
  gt_state :: "'x estate"

definition gated_init :: "nat \<Rightarrow> node list \<Rightarrow> 'x estate \<Rightarrow> 'x gated" where
  "gated_init cap ns s = \<lparr>gt_sem = sem_init cap, gt_tasks = map Todo ns, gt_state = s\<rparr>"

text \<open>One move of task \<open>i\<close>: in \<open>__aenter__\<close>, in the body while it has something left to do, in
  \<open>__aexit__\<close>.\<close>

inductive gated_step :: "'x wf_env \<Rightarrow> node_result dict \<Rightarrow> nat list \<Rightarrow> 'x gated \<Rightarrow> 'x gated \<Rightarrow> bool"
  for env acc ws where
  gated_acquire: "i < length ws \<Longrightarrow> sem_stat (gt_sem g) i = Entering k \<Longrightarrow> k < ws ! i \<Longrightarrow>
     gated_step env acc ws g (g\<lparr>gt_sem := sem_acquire i k (gt_sem g)\<rparr>)"
| gated_enter: "i < length ws \<Longrightarrow> sem_stat (gt_sem g) i = Entering k \<Longrightarrow> \<not> k < ws ! i \<Longrightarrow>
     gated_step env acc ws g (g\<lparr>gt_sem := (gt_sem g)\<lparr>sem_stat := (sem_stat (gt_sem g))(i := Running)\<rparr>\<rparr>)"
| gated_work: "i < length ws \<Longrightarrow> sem_stat (gt_sem g) i = Running \<Longrightarrow> task_rank (gt_tasks g ! i) \<noteq> 0 \<Longrightarrow>
     task_step env acc (gt_tasks g ! i) (gt_state g) = (t, s) \<Longrightarrow>
     gated_step env acc ws g (g\<lparr>gt_tasks := (gt_tasks g)[i := t], gt_state := s\<rparr>)"
| gated_leave: "i < length ws \<Longrightarrow> sem_stat (gt_sem g) i = Running \<Longrightarrow> task_rank (gt_tasks g ! i) = 0 \<Longrightarrow>
     gated_step env acc ws g (g\<lparr>gt_sem := sem_aexit i (ws ! i) (gt_sem g)\<rparr>)"

inductive_cases gated_stepE: "gated_step env acc ws g h"

text \<open>What every state reachable from the start has in common: the invariant of the semaphore, one task
  per weight, and only tasks that have ended have left.\<close>

definition gated_inv :: "nat \<Rightarrow> nat list \<Rightarrow> 'x gated \<Rightarrow> bool" where
  "gated_inv cap ws g \<longleftrightarrow> sem_inv cap ws (gt_sem g) \<and> length (gt_tasks g) = length ws \<and>
     (\<forall>i < length ws. sem_stat (gt_sem g) i = Done \<longrightarrow> task_rank (gt_tasks g ! i) = 0)"

lemma gated_sem:
  "gated_step env acc ws g h \<Longrightarrow> gt_sem h = gt_sem g \<or> sem_step ws (gt_sem g) (gt_sem h)"
  by (auto elim!: gated_stepE intro: sem_step.intros)

lemma sem_acquire_Done: "sem_stat (sem_acquire i k s) j = Done \<Longrightarrow> sem_stat s j = Done"
  by (auto simp: sem_acquire_def split: if_splits)

lemma sem_release_Done: "sem_stat (sem_release s) j = Done \<Longrightarrow> sem_stat s j = Done"
  using sem_release_live[of s j] by (cases "sem_stat s j") (auto simp: sem_release_def split: list.splits if_splits)

lemma sem_aexit_Done: "sem_stat (sem_aexit i w s) j = Done \<Longrightarrow> i = j \<or> sem_stat s j = Done"
proof -
  have "sem_stat ((sem_release ^^ w) u) j = Done \<Longrightarrow> sem_stat u j = Done" for u
    by (induction w) (auto dest: sem_release_Done)
  then show "sem_stat (sem_aexit i w s) j = Done \<Longrightarrow> i = j \<or> sem_stat s j = Done"
    by (fastforce simp: sem_aexit_def split: if_splits)
qed

lemma gated_step_inv:
  assumes "gated_step env acc ws g h" "gated_inv cap ws g"
  shows "gated_inv cap ws h"
proof -
  have "sem_inv cap ws (gt_sem h)"
    using gated_sem[OF assms(1)] sem_step_inv assms(2) unfolding gated_inv_def by metis
  moreover have "length (gt_tasks h) = length ws" using assms by (auto simp: gated_inv_def elim!: gated_stepE)
  moreover have "sem_stat (gt_sem h) i = Done \<longrightarrow> task_rank (gt_tasks h ! i) = 0" if "i < length ws" for i
    using assms(1)
  proof cases
    case (gated_acquire j k)
    then show ?thesis using assms(2) that by (auto simp: gated_inv_def dest: sem_acquire_Done)
  next
    case (gated_enter j k)
    then show ?thesis using assms(2) that by (auto simp: gated_inv_def)
  next
    case (gated_work j t s)
    then show ?thesis using assms(2) that by (cases "i = j") (auto simp: gated_inv_def)
  next
    case (gated_leave j)
    then show ?thesis using assms(2) that by (auto simp: gated_inv_def dest!: sem_aexit_Done)
  qed
  ultimately show ?thesis by (simp add: gated_inv_def)
qed

interpretation gated: transition_system "gated_step env acc ws" "gated_inv cap ws" for env acc ws cap
  by unfold_locales (rule gated_step_inv)

lemma gated_init_inv: "gated_inv cap (level_weights ns) (gated_init cap ns s)"
  by (simp add: gated_inv_def gated_init_def sem_init_inv level_weights_def) (simp add: sem_init_def)

section \<open>Refinement\<close>

text \<open>The body steps alone are an interleaving.\<close>

lemma gated_schedule:
  "(gated_step env acc ws)\<^sup>*\<^sup>* (gated_init cap ns s) g \<Longrightarrow> length ns = length ws \<Longrightarrow>
     \<exists>sched. fold (sched_step (task_step env acc)) sched (map Todo ns, s) = (gt_tasks g, gt_state g)"
proof (induction rule: rtranclp_induct)
  case base
  show ?case by (rule exI[of _ "[]"]) (simp add: gated_init_def)
next
  case (step g h)
  then obtain sched where sched: "fold (sched_step (task_step env acc)) sched (map Todo ns, s) = (gt_tasks g, gt_state g)"
    by blast
  then have len: "length (gt_tasks g) = length ws"
    using fold_sched_length[of "task_step env acc" sched "(map Todo ns, s)"] step.prems by simp
  from step.hyps(2) show ?case
  proof cases
    case (gated_work i t s')
    then have "fold (sched_step (task_step env acc)) (sched @ [i]) (map Todo ns, s) = (gt_tasks h, gt_state h)"
      using sched len by (simp add: sched_step_def)
    then show ?thesis by blast
  qed (use sched in auto)
qed

lemma ended_drain:
  assumes "\<forall>t \<in> set ts. task_rank t = 0"
  shows "fold (sched_step (task_step env acc)) is (ts, s) = (ts, s)"
proof -
  have "sched_step (task_step env acc) i (ts, s) = (ts, s)" for i
  proof (cases "i < length ts")
    case True
    then have "task_rank (ts ! i) = 0" using assms nth_mem by blast
    then obtain x where "ts ! i = Ended x" by (cases "ts ! i") simp_all
    then show ?thesis using True list_update_id[of ts i] by (auto simp: sched_step_def)
  qed (simp add: sched_step_def)
  then show ?thesis by (induction "is") simp_all
qed

text \<open>(C6) The semaphore only restricts the interleaving: when all tasks of a level have left, the level has
  done what some schedule of the tasks does.\<close>

theorem gated_level_refines:
  assumes "(gated_step env acc (level_weights ns))\<^sup>*\<^sup>* (gated_init cap ns s) g"
    and "sem_finished (level_weights ns) (gt_sem g)"
  shows "\<exists>sched. run_tasks env sched ns acc s = (gt_tasks g, gt_state g)"
proof -
  obtain sched where sched: "fold (sched_step (task_step env acc)) sched (map Todo ns, s) = (gt_tasks g, gt_state g)"
    using gated_schedule[OF assms(1)] by (auto simp: level_weights_def)
  have "gated_inv cap (level_weights ns) g" by (rule gated.reach_inv[OF assms(1) gated_init_inv])
  then have "\<forall>t \<in> set (gt_tasks g). task_rank t = 0"
    using assms(2) by (auto simp: gated_inv_def sem_finished_def in_set_conv_nth)
  then have "run_tasks env sched ns acc s = (gt_tasks g, gt_state g)"
    using sched ended_drain by (simp add: run_tasks_def gather_def)
  then show ?thesis by blast
qed

section \<open>Termination\<close>

definition gated_work_left :: "nat list \<Rightarrow> 'x gated \<Rightarrow> nat" where
  "gated_work_left ws g = sem_work ws (gt_sem g) + (\<Sum>t \<leftarrow> gt_tasks g. task_rank t)"

lemma gated_step_work:
  assumes "gated_step env acc ws g h" "gated_inv cap ws g"
  shows "gated_work_left ws h < gated_work_left ws g"
  using assms(1)
proof cases
  case (gated_work i t s)
  let ?f = "map task_rank (gt_tasks g)"
  have i: "i < length ?f" using gated_work(2) assms(2) by (simp add: gated_inv_def)
  have "task_rank t < task_rank (gt_tasks g ! i)"
    using tasks.rank_step[of env acc "gt_tasks g ! i" "gt_state g"] gated_work(4,5) by simp
  then have "sum_list (?f[i := task_rank t]) < sum_list ?f"
    using sum_list_update[OF i, of "task_rank t"] elem_le_sum_list[OF i] i by simp
  then show ?thesis using gated_work(1) by (simp add: gated_work_left_def map_update)
next
  case (gated_acquire i k)
  then have "sem_step ws (gt_sem g) (gt_sem h)" by (simp add: sem_step.acquire)
  then show ?thesis using sem_step_work assms(2) gated_acquire(1) by (fastforce simp: gated_work_left_def gated_inv_def)
next
  case (gated_enter i k)
  then have "sem_step ws (gt_sem g) (gt_sem h)" by (simp add: sem_step.enter)
  then show ?thesis using sem_step_work assms(2) gated_enter(1) by (fastforce simp: gated_work_left_def gated_inv_def)
next
  case (gated_leave i)
  then have "sem_step ws (gt_sem g) (gt_sem h)" by (simp add: sem_step.leave)
  then show ?thesis using sem_step_work assms(2) gated_leave(1) by (fastforce simp: gated_work_left_def gated_inv_def)
qed

text \<open>While the slots suffice, some task can always move until all have left.\<close>

lemma gated_progress:
  fixes g :: "'x gated"
  assumes "gated_inv cap ws g" "(\<Sum>w \<leftarrow> ws. w - 1) < cap" "\<not> sem_finished ws (gt_sem g)"
  shows "\<exists>h. gated_step env acc ws g h"
proof -
  obtain t where "sem_step ws (gt_sem g) t"
    using sem_stuck_finished[OF _ _ assms(2), of "gt_sem g"] assms(1,3) by (auto simp: gated_inv_def sem_stuck_def)
  then show ?thesis
  proof cases
    case (acquire i k)
    then show ?thesis using gated_step.gated_acquire[of i ws g k] by blast
  next
    case (enter i k)
    then show ?thesis using gated_step.gated_enter[of i ws g k] by blast
  next
    case (leave i)
    obtain u s where "task_step env acc (gt_tasks g ! i) (gt_state g) = (u, s)" by fastforce
    then show ?thesis
      using leave gated_step.gated_work[of i ws g env acc u s] gated_step.gated_leave[of i ws g env acc]
      by (cases "task_rank (gt_tasks g ! i) = 0") auto
  qed
qed

lemma gated_completes:
  fixes g :: "'x gated"
  assumes "gated_inv cap ws g" "(\<Sum>w \<leftarrow> ws. w - 1) < cap"
  shows "\<exists>h. (gated_step env acc ws)\<^sup>*\<^sup>* g h \<and> sem_finished ws (gt_sem h)"
  using assms(1)
proof (induction "gated_work_left ws g" arbitrary: g rule: less_induct)
  case less
  show ?case
  proof (cases "sem_finished ws (gt_sem g)")
    case True
    then show ?thesis by blast
  next
    case False
    then obtain u where u: "gated_step env acc ws g u" using gated_progress[OF less.prems assms(2)] by blast
    obtain h where "(gated_step env acc ws)\<^sup>*\<^sup>* u h" "sem_finished ws (gt_sem h)"
      using less.hyps[OF gated_step_work[OF u less.prems] gated_step_inv[OF u less.prems]] by blast
    then show ?thesis using u by (meson converse_rtranclp_into_rtranclp)
  qed
qed

text \<open>(C7) A level with fewer LLM nodes than \<open>max_parallel\<close> always ends: no execution of its tasks is
  infinite, one that cannot go on has every task finished, and from every state the end can be reached.\<close>

theorem gated_level_ends:
  fixes g :: "'x gated"
  assumes "(gated_step env acc (level_weights ns))\<^sup>*\<^sup>* (gated_init cap ns s) g"
    and "length (filter (\<lambda>n. node_type_of n = TLlm) ns) < cap"
  shows "(\<exists>h. (gated_step env acc (level_weights ns))\<^sup>*\<^sup>* g h \<and> sem_finished (level_weights ns) (gt_sem h)) \<and>
    ((\<nexists>h. gated_step env acc (level_weights ns) g h) \<longrightarrow> sem_finished (level_weights ns) (gt_sem g)) \<and>
    (\<forall>h. gated_step env acc (level_weights ns) g h \<longrightarrow> gated_work_left (level_weights ns) h < gated_work_left (level_weights ns) g)"
proof -
  have inv: "gated_inv cap (level_weights ns) g" by (rule gated.reach_inv[OF assms(1) gated_init_inv])
  have w: "node_weight (config_class (kind n)) - 1 = (if node_type_of n = TLlm then 1 else 0)" for n
    by (cases "kind n") (simp_all add: node_weight_def estimate_complexity_def node_type_of_def)
  have "(\<Sum>w \<leftarrow> level_weights ns. w - 1) = length (filter (\<lambda>n. node_type_of n = TLlm) ns)"
    by (induction ns) (simp_all add: level_weights_def w[simplified])
  then show ?thesis using gated_progress[OF inv, of env acc] gated_completes[OF inv, of env acc] gated_step_work[OF _ inv] assms(2)
    by auto
qed

section \<open>Witnesses\<close>

text \<open>A level of two tool nodes and two slots.\<close>

abbreviation demo_level :: "node list" where
  "demo_level \<equiv> [plain_node ''p'', plain_node ''q'']"

abbreviation demo_start :: "unit gated" where
  "demo_start \<equiv> gated_init 2 demo_level (frame_of (demo_engine (plain_node ''p'')))"

lemma demo_level_weights: "level_weights demo_level = [1, 1]"
  by (simp add: level_weights_def node_weight_def estimate_complexity_def plain_node_def)

theorem gated_level_refines_witness:
  "\<exists>g sched. (gated_step (run_env []) [] (level_weights demo_level))\<^sup>*\<^sup>* demo_start g \<and>
     run_tasks (run_env []) sched demo_level [] (frame_of (demo_engine (plain_node ''p''))) = (gt_tasks g, gt_state g)"
proof -
  have "(\<Sum>w \<leftarrow> level_weights demo_level. w - 1) < 2" unfolding demo_level_weights by simp
  then obtain g where g: "(gated_step (run_env []) [] (level_weights demo_level))\<^sup>*\<^sup>* demo_start g"
    "sem_finished (level_weights demo_level) (gt_sem g)"
    using gated_completes[OF gated_init_inv] by blast
  from gated_level_refines [OF g] g(1) show ?thesis by blast
qed

theorem gated_level_ends_witness:
  "\<exists>h. (gated_step (run_env []) [] (level_weights demo_level))\<^sup>*\<^sup>* demo_start h \<and>
     sem_finished (level_weights demo_level) (gt_sem h)"
proof -
  have "length (filter (\<lambda>n. node_type_of n = TLlm) demo_level) < 2" by (simp add: plain_node_def node_type_of_def)
  from gated_level_ends [OF rtranclp.rtrancl_refl this] show ?thesis by blast
qed

end
