(* ===== verification/GatedRuns.thy ===== *)
theory GatedRuns
  imports Levels
begin

text \<open>
  A whole run under the semaphores of its levels (\<open>Workflow.execute\<close> and \<open>Workflow._execute_level\<close> in
  \<open>src/ice_orchestrator/workflow.py\<close>, \<open>WeightedSemaphore\<close> in \<open>src/ice_core/utils/perf.py\<close>). A state
  of the run is a level whose tasks wait for slots, build their contexts, execute their nodes and release
  the slots, or the end. Unlike the function \<open>execute\<close>, which gives every task its turn, this machine can
  get stuck: the first theorems say under which bound on the LLM nodes of a level it does not, and that
  without the bound it does.

  A single step of a task is the call of its executor, which is an argument of the model: that each such
  call comes back is assumed here, everything else about waiting is modelled.
\<close>

section \<open>The machine\<close>

datatype 'x grun =
    GLevel nat "(int \<times> string list) list" "node list" "'x run" "'x gated"
  | GEnd "unit res \<times> 'x run"

text \<open>From the head of the loop over the levels to the first task of the level: ceiling and guard on the
  depth, gating, the fresh semaphore of \<open>_execute_level\<close> with \<open>max_parallel\<close> slots.\<close>

definition start_levels :: "'x wf_env \<Rightarrow> nat \<Rightarrow> nat \<Rightarrow> (int \<times> string list) list \<Rightarrow> 'x run \<Rightarrow> 'x grun" where
  "start_levels env cap idx ls st = (case ls of
       [] \<Rightarrow> GEnd (Inr (), st)
     | (l, ids) # rest \<Rightarrow> (case depth_stop env idx of
           Some e \<Rightarrow> GEnd (Inr (), add_error e st)
         | None \<Rightarrow>
             (case active_ids (we_limit env) (graph (en_graph (ex_world (rn_state st)))) ids (rn_resolver st) of
                Inl e \<Rightarrow> GEnd (Inl e, st)
              | Inr (active, rs) \<Rightarrow>
                  (case res_map (lookup_node (run_nodes (rn_state st))) active of
                     Inl e \<Rightarrow> GEnd (Inl e, st\<lparr>rn_resolver := rs\<rparr>)
                   | Inr ns \<Rightarrow> GLevel idx rest ns (st\<lparr>rn_resolver := rs\<rparr>) (gated_init cap ns (rn_state st))))))"

text \<open>After \<open>gather\<close>: the results of the tasks, recursive flows, the bookkeeping of the level.\<close>

definition close_level :: "'x wf_env \<Rightarrow> node list \<Rightarrow> 'x run \<Rightarrow> 'x gated \<Rightarrow> unit res \<times> 'x run" where
  "close_level env ns st g =
     (let lr = collect (map2 (level_entry env) ns (gt_tasks g))
      in (case handle_recursive_flows env lr (rn_results st) (gt_state g) of
            (acc, s) \<Rightarrow> record_level env lr (st\<lparr>rn_results := acc, rn_state := s\<rparr>)))"

definition next_level :: "'x wf_env \<Rightarrow> nat \<Rightarrow> nat \<Rightarrow> (int \<times> string list) list \<Rightarrow> unit res \<times> 'x run \<Rightarrow> 'x grun" where
  "next_level env cap idx rest x = (case x of
       (Inl e, st1) \<Rightarrow> GEnd (Inl e, st1)
     | (Inr _, st1) \<Rightarrow>
         (case should_continue (we_policy env) (we_levels env) (run_nodes (rn_state st1)) (rn_errors st1) of
            Inl e \<Rightarrow> GEnd (Inl e, st1)
          | Inr go \<Rightarrow> if go then start_levels env cap (Suc idx) rest st1 else GEnd (Inr (), st1)))"

inductive grun_step :: "'x wf_env \<Rightarrow> nat \<Rightarrow> 'x grun \<Rightarrow> 'x grun \<Rightarrow> bool" for env cap where
  grun_task: "gated_step env (rn_results st) (level_weights ns) g h \<Longrightarrow>
     grun_step env cap (GLevel idx rest ns st g) (GLevel idx rest ns st h)"
| grun_close: "sem_finished (level_weights ns) (gt_sem g) \<Longrightarrow>
     grun_step env cap (GLevel idx rest ns st g) (next_level env cap idx rest (close_level env ns st g))"

inductive_cases grun_stepE: "grun_step env cap (GLevel idx rest ns st g) d"
inductive_cases grun_endE: "grun_step env cap (GEnd x) d"

text \<open>\<open>execute\<close>: it resets results and errors, goes through the levels, and names the result after the
  first leaf.\<close>

definition grun_start :: "'x wf_env \<Rightarrow> nat \<Rightarrow> 'x run \<Rightarrow> 'x grun" where
  "grun_start env cap st =
     start_levels env cap 1 (sort_key fst (we_levels env)) (st\<lparr>rn_results := [], rn_errors := []\<rparr>)"

definition run_result :: "unit res \<times> 'x run \<Rightarrow> node_result res \<times> 'x run" where
  "run_result x = (case x of
       (Inl e, st1) \<Rightarrow> (Inl e, st1)
     | (Inr _, st1) \<Rightarrow>
         (case get_leaf_nodes (en_graph (ex_world (rn_state st1))) of
            [] \<Rightarrow> (Inl (Exn IndexError ''list index out of range''), st1)
          | leaf # _ \<Rightarrow> (Inr (chain_result st1 leaf), st1)))"

lemma execute_run_result:
  "execute env st = run_result (run_levels env 1 (sort_key fst (we_levels env)) (st\<lparr>rn_results := [], rn_errors := []\<rparr>))"
  by (simp add: execute_def run_result_def)

section \<open>Levels one after the other\<close>

text \<open>A run that started in a level is still in it, or has closed it.\<close>

lemma grun_level_cases:
  assumes "(grun_step env cap)\<^sup>*\<^sup>* (GLevel idx rest ns st g) c"
  shows "\<exists>h. (gated_step env (rn_results st) (level_weights ns))\<^sup>*\<^sup>* g h \<and>
    (c = GLevel idx rest ns st h \<or> sem_finished (level_weights ns) (gt_sem h) \<and>
      (grun_step env cap)\<^sup>*\<^sup>* (next_level env cap idx rest (close_level env ns st h)) c)"
  using assms
proof (induction rule: rtranclp_induct)
  case base
  then show ?case by blast
next
  case (step c d)
  from step.IH obtain h where h: "(gated_step env (rn_results st) (level_weights ns))\<^sup>*\<^sup>* g h"
    and c: "c = GLevel idx rest ns st h \<or> sem_finished (level_weights ns) (gt_sem h) \<and>
      (grun_step env cap)\<^sup>*\<^sup>* (next_level env cap idx rest (close_level env ns st h)) c" by blast
  from c show ?case
  proof
    assume "c = GLevel idx rest ns st h"
    with step.hyps(2) h show ?thesis by (auto elim!: grun_stepE dest: rtranclp.rtrancl_into_rtrancl)
  next
    assume "sem_finished (level_weights ns) (gt_sem h) \<and>
      (grun_step env cap)\<^sup>*\<^sup>* (next_level env cap idx rest (close_level env ns st h)) c"
    with step.hyps(2) h show ?thesis by (meson rtranclp.rtrancl_into_rtrancl)
  qed
qed

lemma grun_end_stays: "(grun_step env cap)\<^sup>*\<^sup>* (GEnd x) c \<Longrightarrow> c = GEnd x"
  by (induction rule: rtranclp_induct) (auto elim: grun_endE)

lemma gated_grun:
  "(gated_step env (rn_results st) (level_weights ns))\<^sup>*\<^sup>* g h \<Longrightarrow>
     (grun_step env cap)\<^sup>*\<^sup>* (GLevel idx rest ns st g) (GLevel idx rest ns st h)"
  by (induction rule: rtranclp_induct) (auto intro: grun_task rtranclp.rtrancl_into_rtrancl)

section \<open>The machine refines the schedules\<close>

text \<open>The schedule is only read by \<open>run_level\<close>.\<close>

abbreviation resched :: "'x wf_env \<Rightarrow> (nat \<Rightarrow> nat list) \<Rightarrow> 'x wf_env" where
  "resched env sched \<equiv> env\<lparr>we_schedule := sched\<rparr>"

lemma node_context_resched [simp]: "node_context (resched env sched) = node_context env"
  by (intro ext) (simp add: node_context_def)

lemma task_step_resched [simp]: "task_step (resched env sched) = task_step env"
proof (intro ext)
  fix acc t s
  show "task_step (resched env sched) acc t s = task_step env acc t s" by (cases t) simp_all
qed

lemma run_tasks_resched [simp]: "run_tasks (resched env sched) = run_tasks env"
  by (intro ext) (simp add: run_tasks_def)

lemma level_entry_resched [simp]: "level_entry (resched env sched) = level_entry env"
  by (intro ext) (simp add: level_entry_def payload_failure_def split: task.splits sum.splits)

lemma recursive_turn_resched [simp]: "recursive_turn (resched env sched) = recursive_turn env"
  by (intro ext) (simp add: recursive_turn_def cong: option.case_cong sum.case_cong)

lemma run_flows_resched [simp]: "run_flows (resched env sched) k fs acc s = run_flows env k fs acc s"
  by (induction env k fs acc s rule: run_flows.induct) (auto split: sum.splits prod.splits)

lemma handle_recursive_flows_resched [simp]:
  "handle_recursive_flows (resched env sched) lr acc s = handle_recursive_flows env lr acc s"
  by (simp add: handle_recursive_flows_def)

lemma execute_level_resched [simp]: "execute_level (resched env sched) = execute_level env"
  by (intro ext) (simp add: execute_level_def)

lemma over_tokens_resched [simp]: "over_tokens (resched env sched) m = over_tokens env m"
  by (simp add: over_tokens_def cong: option.case_cong)

lemma record_level_resched [simp]: "record_level (resched env sched) lr st = record_level env lr st"
proof (induction lr arbitrary: st)
  case (Cons p lr)
  obtain i r where "p = (i, r)" by fastforce
  then show ?case using Cons by (cases "nr_success r \<and> nr_usage r \<noteq> None") (auto simp: Let_def split: option.splits)
qed simp

lemma run_level_resched:
  "run_level (resched env f) idx ids st = run_level (resched env g) idx ids st" if "f idx = g idx"
  using that by (simp add: run_level_def split: sum.splits prod.splits)

lemma depth_stop_resched [simp]: "depth_stop (resched env sched) idx = depth_stop env idx"
  by (simp add: depth_stop_def cong: option.case_cong)

lemma run_levels_resched:
  "(\<And>j. idx \<le> j \<Longrightarrow> f j = g j) \<Longrightarrow> run_levels (resched env f) idx ls st = run_levels (resched env g) idx ls st"
proof (induction ls arbitrary: idx st)
  case (Cons p ls)
  obtain l ids where p: "p = (l, ids)" by fastforce
  have "run_level (resched env f) idx ids st = run_level (resched env g) idx ids st"
    by (rule run_level_resched) (simp add: Cons.prems)
  moreover have "run_levels (resched env f) (Suc idx) ls st1 = run_levels (resched env g) (Suc idx) ls st1" for st1
    by (rule Cons.IH) (simp add: Cons.prems)
  ultimately show ?case using p by (auto split: option.splits sum.splits prod.splits)
qed simp

lemma start_levels_resched: "start_levels (resched env sched) cap idx ls st = start_levels env cap idx ls st"
  by (simp add: start_levels_def cong: option.case_cong list.case_cong sum.case_cong)

text \<open>A level that all tasks have left is one that \<open>run_level\<close> makes under some schedule.\<close>

lemma close_level_schedule:
  assumes "start_levels env cap idx ((l, ids) # rest) st = GLevel idx' rest' ns st' (gated_init cap ns (rn_state st'))"
    and "(gated_step env (rn_results st') (level_weights ns))\<^sup>*\<^sup>* (gated_init cap ns (rn_state st')) g"
    and "sem_finished (level_weights ns) (gt_sem g)"
  shows "\<exists>is. run_level (resched env (\<lambda>_. is)) idx ids st = close_level env ns st' g"
proof -
  obtain sched where sched: "fold (sched_step (task_step env (rn_results st'))) sched (map Todo ns, rn_state st') = (gt_tasks g, gt_state g)"
    using gated_schedule[OF assms(2)] by (auto simp: level_weights_def)
  have "gated_inv cap (level_weights ns) g" by (rule gated.reach_inv[OF assms(2) gated_init_inv])
  then have "\<forall>t \<in> set (gt_tasks g). task_rank t = 0"
    using assms(3) by (auto simp: gated_inv_def sem_finished_def in_set_conv_nth)
  then have "run_tasks env sched ns (rn_results st') (rn_state st') = (gt_tasks g, gt_state g)"
    using sched ended_drain by (simp add: run_tasks_def gather_def)
  moreover obtain active rs where
    "active_ids (we_limit env) (graph (en_graph (ex_world (rn_state st)))) ids (rn_resolver st) = Inr (active, rs)"
    "res_map (lookup_node (run_nodes (rn_state st))) active = Inr ns" "st' = st\<lparr>rn_resolver := rs\<rparr>"
    using assms(1) by (auto simp: start_levels_def split: option.splits sum.splits prod.splits)
  ultimately have "run_level (resched env (\<lambda>_. sched)) idx ids st = close_level env ns st' g"
    by (simp add: run_level_def execute_level_def close_level_def Let_def split: prod.splits)
  then show ?thesis by blast
qed

lemma start_levels_GLevel:
  "start_levels env cap idx ls st = GLevel i rest ns st' g \<Longrightarrow>
     \<exists>l ids. ls = (l, ids) # rest \<and> i = idx \<and> g = gated_init cap ns (rn_state st') \<and> depth_stop env idx = None"
  by (auto simp: start_levels_def split: list.splits option.splits sum.splits prod.splits)

lemma start_levels_GEnd:
  assumes "start_levels env cap idx ls st = GEnd x"
  shows "run_levels env idx ls st = x"
proof (cases ls)
  case (Cons p rest)
  obtain l ids where "p = (l, ids)" by fastforce
  then show ?thesis using Cons assms
    by (auto simp: start_levels_def run_level_def split: option.splits sum.splits prod.splits)
qed (use assms in \<open>simp add: start_levels_def\<close>)

lemma grun_schedule:
  "(grun_step env cap)\<^sup>*\<^sup>* (start_levels env cap idx ls st) (GEnd x) \<Longrightarrow>
     \<exists>sched. run_levels (resched env sched) idx ls st = x"
proof (induction ls arbitrary: idx st)
  case Nil
  then show ?case using grun_end_stays by (fastforce simp: start_levels_def)
next
  case (Cons p rest)
  show ?case
  proof (cases "start_levels env cap idx (p # rest) st")
    case (GEnd y)
    then have "y = x" using grun_end_stays Cons.prems by fastforce
    then have "start_levels (resched env sched) cap idx (p # rest) st = GEnd x" for sched
      using GEnd by (simp add: start_levels_resched)
    then show ?thesis using start_levels_GEnd by blast
  next
    case (GLevel i rest' ns st' g0)
    obtain l ids where "p # rest = (l, ids) # rest'" "i = idx" "g0 = gated_init cap ns (rn_state st')" "depth_stop env idx = None"
      using start_levels_GLevel[OF GLevel] by blast
    then have p: "p = (l, ids)" "rest' = rest" "i = idx" "g0 = gated_init cap ns (rn_state st')" "depth_stop env idx = None"
      by simp_all
    obtain g where g: "(gated_step env (rn_results st') (level_weights ns))\<^sup>*\<^sup>* (gated_init cap ns (rn_state st')) g"
      "sem_finished (level_weights ns) (gt_sem g)"
      "(grun_step env cap)\<^sup>*\<^sup>* (next_level env cap idx rest (close_level env ns st' g)) (GEnd x)"
      using grun_level_cases[of env cap i rest' ns st' g0 "GEnd x"] Cons.prems GLevel p by auto
    obtain "is" where lev: "run_level (resched env (\<lambda>_. is)) idx ids st = close_level env ns st' g"
      using close_level_schedule GLevel p g(1,2) by metis
    obtain r st1 where cl: "close_level env ns st' g = (r, st1)" by fastforce
    have one: "run_level (resched env (sched(idx := is))) idx ids st = (r, st1)" for sched
      using run_level_resched[of "sched(idx := is)" idx "\<lambda>_. is" env ids st] lev cl by simp
    let ?go = "should_continue (we_policy env) (we_levels env) (run_nodes (rn_state st1)) (rn_errors st1)"
    show ?thesis
    proof (cases "r = Inr () \<and> ?go = Inr True")
      case True
      then have "(grun_step env cap)\<^sup>*\<^sup>* (start_levels env cap (Suc idx) rest st1) (GEnd x)"
        using g(3) cl by (simp add: next_level_def)
      then obtain sched where "run_levels (resched env sched) (Suc idx) rest st1 = x" using Cons.IH by blast
      then have "run_levels (resched env (sched(idx := is))) (Suc idx) rest st1 = x"
        using run_levels_resched[of "Suc idx" "sched(idx := is)" sched env rest st1] by simp
      then have "run_levels (resched env (sched(idx := is))) idx (p # rest) st = x"
        using one True p by simp
      then show ?thesis by blast
    next
      case False
      let ?y = "(case r of Inl e \<Rightarrow> Inl e | Inr _ \<Rightarrow> (case ?go of Inl e \<Rightarrow> Inl e | Inr _ \<Rightarrow> Inr ()), st1)"
      have "next_level env cap idx rest (r, st1) = GEnd ?y"
        using False by (cases r; cases ?go) (auto simp: next_level_def)
      then have "?y = x" using g(3) cl grun_end_stays by fastforce
      moreover have "run_levels (resched env (\<lambda>_. is)) idx (p # rest) st = ?y"
        using False p(1,5) by (cases r; cases ?go) (simp_all add: lev[unfolded cl])
      ultimately have "run_levels (resched env (\<lambda>_. is)) idx (p # rest) st = x" by simp
      then show ?thesis by blast
    qed
  qed
qed

section \<open>Termination\<close>

text \<open>No execution of the machine is infinite: inside a level the work that is left decreases, and every
  closed level is one less.\<close>

lemma grun_level_accp:
  assumes "\<And>h. gated_inv cap (level_weights ns) h \<Longrightarrow>
      Wellfounded.accp (\<lambda>d c. grun_step env cap c d) (next_level env cap idx rest (close_level env ns st h))"
  shows "gated_inv cap (level_weights ns) g \<Longrightarrow>
      Wellfounded.accp (\<lambda>d c. grun_step env cap c d) (GLevel idx rest ns st g)"
proof (induction "gated_work_left (level_weights ns) g" arbitrary: g rule: less_induct)
  case less
  show ?case
  proof (rule accp.accI)
    fix d assume "grun_step env cap (GLevel idx rest ns st g) d"
    then show "Wellfounded.accp (\<lambda>d c. grun_step env cap c d) d"
      using less assms by (auto elim!: grun_stepE dest: gated_step_work gated_step_inv)
  qed
qed

lemma grun_accp: "Wellfounded.accp (\<lambda>d c. grun_step env cap c d) (start_levels env cap idx ls st)"
proof (induction ls arbitrary: idx st)
  case Nil
  then show ?case by (auto simp: start_levels_def intro: accp.accI elim: grun_endE)
next
  case (Cons p rest)
  have stop: "Wellfounded.accp (\<lambda>d c. grun_step env cap c d) (GEnd x)" for x
    by (auto intro: accp.accI elim: grun_endE)
  have nxt: "Wellfounded.accp (\<lambda>d c. grun_step env cap c d) (next_level env cap idx rest x)" for x
    using Cons.IH stop by (auto simp: next_level_def split: sum.splits prod.splits)
  show ?case
  proof (cases "start_levels env cap idx (p # rest) st")
    case (GLevel i rest' ns st' g)
    then have eq: "i = idx" "rest' = rest" "g = gated_init cap ns (rn_state st')"
      using start_levels_GLevel[OF GLevel] by auto
    show ?thesis unfolding GLevel eq by (rule grun_level_accp[OF nxt gated_init_inv])
  qed (simp add: stop)
qed


section \<open>Progress\<close>

text \<open>The number of LLM nodes among the nodes of a level.\<close>

definition llm_width :: "node dict \<Rightarrow> string list \<Rightarrow> nat" where
  "llm_width nodes ids =
     length (filter (\<lambda>i. case dict_get nodes i of None \<Rightarrow> False | Some n \<Rightarrow> node_type_of n = TLlm) ids)"

lemma active_ids_fewer:
  "active_ids k g is rs = Inr (active, rs') \<Longrightarrow> length (filter P active) \<le> length (filter P is)"
  by (induction "is" arbitrary: rs active)
     (auto simp: res_bind_Inr_iff split: option.splits prod.splits if_splits intro: le_SucI)

lemma lookup_width:
  "res_map (lookup_node nodes) is = Inr ns \<Longrightarrow>
     length (filter (\<lambda>n. node_type_of n = TLlm) ns) = llm_width nodes is"
  by (induction "is" arbitrary: ns)
     (auto simp: llm_width_def lookup_node_def res_bind_Inr_iff split: option.splits)

lemma weights_excess: "(\<Sum>w \<leftarrow> level_weights ns. w - 1) = length (filter (\<lambda>n. node_type_of n = TLlm) ns)"
proof -
  have w: "node_weight (config_class (kind n)) - 1 = (if node_type_of n = TLlm then 1 else 0)" for n
    by (cases "kind n") (simp_all add: node_weight_def estimate_complexity_def node_type_of_def)
  show ?thesis by (induction ns) (simp_all add: level_weights_def w[simplified])
qed

lemma start_levels_width:
  assumes "start_levels env cap idx ((l, ids) # rest) st = GLevel i rest' ns st' g"
  shows "(\<Sum>w \<leftarrow> level_weights ns. w - 1) \<le> llm_width (run_nodes (rn_state st)) ids" "rn_state st' = rn_state st"
proof -
  obtain active rs where
    a: "active_ids (we_limit env) (graph (en_graph (ex_world (rn_state st)))) ids (rn_resolver st) = Inr (active, rs)"
    "res_map (lookup_node (run_nodes (rn_state st))) active = Inr ns" "st' = st\<lparr>rn_resolver := rs\<rparr>"
    using assms by (auto simp: start_levels_def split: option.splits sum.splits prod.splits)
  show "(\<Sum>w \<leftarrow> level_weights ns. w - 1) \<le> llm_width (run_nodes (rn_state st)) ids"
    unfolding weights_excess lookup_width[OF a(2)] llm_width_def by (rule active_ids_fewer[OF a(1)])
  show "rn_state st' = rn_state st" using a(3) by simp
qed

lemma record_level_state: "rn_state (snd (record_level env lr st)) = rn_state st"
proof (induction lr arbitrary: st)
  case (Cons p lr)
  obtain i r where "p = (i, r)" by fastforce
  then show ?case using Cons
    by (cases "nr_success r \<and> nr_usage r \<noteq> None") (auto simp: Let_def add_error_def split: option.splits)
qed simp

lemma gated_skel:
  assumes "stable env" "(gated_step env acc ws)\<^sup>*\<^sup>* g h"
  shows "skel (gt_state h) = skel (gt_state g)"
  using assms(2)
proof (induction rule: rtranclp_induct)
  case (step h k)
  have "skel s = skel (gt_state h)" if "task_step env acc t (gt_state h) = (u, s)" for t u s
    using task_step_skel[OF assms(1), of acc t "gt_state h"] that by simp
  then show ?case using step by (auto elim!: gated_stepE)
qed simp

lemma close_level_skel:
  assumes "stable env"
  shows "skel (rn_state (snd (close_level env ns st g))) = skel (gt_state g)"
  using run_flows_skel[OF assms]
  by (simp add: close_level_def handle_recursive_flows_def record_level_state Let_def case_prod_beta)

lemma gated_init_state: "gt_state (gated_init cap ns s) = s"
  by (simp add: gated_init_def)

text \<open>While no level has \<open>max_parallel\<close> LLM nodes or more, the machine only stops at its end.\<close>

lemma grun_progress:
  assumes "stable env"
  shows "(grun_step env cap)\<^sup>*\<^sup>* (start_levels env cap idx ls st) c \<Longrightarrow>
    \<forall>(l, ids) \<in> set ls. llm_width (run_nodes (rn_state st)) ids < cap \<Longrightarrow>
    (\<exists>x. c = GEnd x) \<or> (\<exists>d. grun_step env cap c d)"
proof (induction ls arbitrary: idx st)
  case Nil
  then show ?case using grun_end_stays by (fastforce simp: start_levels_def)
next
  case (Cons p rest)
  show ?case
  proof (cases "start_levels env cap idx (p # rest) st")
    case (GEnd x)
    then show ?thesis using grun_end_stays Cons.prems(1) by fastforce
  next
    case (GLevel i rest' ns st' g0)
    obtain l ids where "p # rest = (l, ids) # rest'" "i = idx" "g0 = gated_init cap ns (rn_state st')"
      using start_levels_GLevel[OF GLevel] by blast
    then have p: "p = (l, ids)" "rest' = rest" "i = idx" "g0 = gated_init cap ns (rn_state st')" by simp_all
    note w = start_levels_width[OF GLevel[unfolded p(1)]]
    have slots: "(\<Sum>w \<leftarrow> level_weights ns. w - 1) < cap" using w(1) Cons.prems(2) p(1) by auto
    obtain h where h: "(gated_step env (rn_results st') (level_weights ns))\<^sup>*\<^sup>* g0 h"
      and c: "c = GLevel idx rest ns st' h \<or> sem_finished (level_weights ns) (gt_sem h) \<and>
        (grun_step env cap)\<^sup>*\<^sup>* (next_level env cap idx rest (close_level env ns st' h)) c"
      using grun_level_cases[of env cap i rest' ns st' g0 c] Cons.prems(1) GLevel p by auto
    have inv: "gated_inv cap (level_weights ns) h" using gated.reach_inv[OF h] gated_init_inv p(4) by blast
    from c show ?thesis
    proof
      assume "c = GLevel idx rest ns st' h"
      then show ?thesis
        using gated_progress[OF inv slots, of env "rn_results st'"] grun_step.intros by blast
    next
      assume nx: "sem_finished (level_weights ns) (gt_sem h) \<and>
        (grun_step env cap)\<^sup>*\<^sup>* (next_level env cap idx rest (close_level env ns st' h)) c"
      obtain r st1 where cl: "close_level env ns st' h = (r, st1)" by fastforce
      have "skel (rn_state st1) = skel (rn_state st)"
        using close_level_skel[OF assms, of ns st' h] gated_skel[OF assms h] p(4) w(2) cl by (simp add: gated_init_state)
      then have "\<forall>(l, ids) \<in> set rest. llm_width (run_nodes (rn_state st1)) ids < cap"
        using Cons.prems(2) by (auto simp: skeleton_def)
      then show ?thesis
        using nx cl Cons.IH[of "Suc idx" st1] grun_end_stays
        by (fastforce simp: next_level_def split: sum.splits if_splits)
    qed
  qed
qed

lemma grun_ends:
  assumes "Wellfounded.accp (\<lambda>d c. grun_step env cap c d) c"
    and "\<And>d. (grun_step env cap)\<^sup>*\<^sup>* c d \<Longrightarrow> (\<exists>x. d = GEnd x) \<or> (\<exists>e. grun_step env cap d e)"
  shows "\<exists>x. (grun_step env cap)\<^sup>*\<^sup>* c (GEnd x)"
  using assms
proof (induction rule: accp.induct)
  case (accI c)
  from accI.prems[OF rtranclp.rtrancl_refl] show ?case
  proof
    assume "\<exists>d. grun_step env cap c d"
    then obtain d where d: "grun_step env cap c d" by blast
    have "\<exists>x. (grun_step env cap)\<^sup>*\<^sup>* d (GEnd x)"
      by (rule accI.IH[OF d]) (use d accI.prems in \<open>meson converse_rtranclp_into_rtranclp\<close>)
    then show ?thesis using d by (meson converse_rtranclp_into_rtranclp)
  qed auto
qed

section \<open>Runs come to an end\<close>

text \<open>(C3) The run under the semaphores refines the run that gives every task its turn: whenever it reaches its
  end, its result and its final state are those of \<open>execute\<close> for some interleaving of the tasks of
  each level. The theorems about \<open>execute\<close>, which hold for every interleaving, are theorems about the run
  under the semaphores.\<close>

theorem gated_run_refines:
  assumes "(grun_step env cap)\<^sup>*\<^sup>* (grun_start env cap st) (GEnd x)"
  shows "\<exists>sched. run_result x = execute (env\<lparr>we_schedule := sched\<rparr>) st"
proof -
  obtain sched where "run_levels (resched env sched) 1 (sort_key fst (we_levels env)) (st\<lparr>rn_results := [], rn_errors := []\<rparr>) = x"
    using grun_schedule assms unfolding grun_start_def by blast
  then have "run_result x = execute (resched env sched) st" by (simp add: execute_run_result)
  then show ?thesis by blast
qed




section \<open>A run that hangs\<close>

text \<open>What the semaphore does alone, the level does: its tasks only have to run before they leave.\<close>

lemma gated_drain:
  "gated_inv cap ws g \<Longrightarrow> i < length ws \<Longrightarrow> sem_stat (gt_sem g) i = Running \<Longrightarrow>
     \<exists>h. (gated_step env acc ws)\<^sup>*\<^sup>* g h \<and> gt_sem h = gt_sem g \<and> task_rank (gt_tasks h ! i) = 0"
proof (induction "task_rank (gt_tasks g ! i)" arbitrary: g rule: less_induct)
  case less
  show ?case
  proof (cases "task_rank (gt_tasks g ! i) = 0")
    case False
    obtain t s where t: "task_step env acc (gt_tasks g ! i) (gt_state g) = (t, s)" by fastforce
    let ?h = "g\<lparr>gt_tasks := (gt_tasks g)[i := t], gt_state := s\<rparr>"
    have s: "gated_step env acc ws g ?h" using gated_step.gated_work less.prems(2,3) False t by blast
    have "task_rank (gt_tasks ?h ! i) < task_rank (gt_tasks g ! i)"
      using tasks.rank_step[of env acc "gt_tasks g ! i" "gt_state g"] t False less.prems(1,2)
      by (simp add: gated_inv_def)
    then obtain h where "(gated_step env acc ws)\<^sup>*\<^sup>* ?h h" "gt_sem h = gt_sem g" "task_rank (gt_tasks h ! i) = 0"
      using less.hyps[of ?h] gated_step_inv[OF s less.prems(1)] less.prems(2,3) by auto
    then show ?thesis using s by (meson converse_rtranclp_into_rtranclp)
  qed blast
qed

lemma gated_follows:
  assumes "(sem_step ws)\<^sup>*\<^sup>* (gt_sem g) t" "gated_inv cap ws g"
  shows "\<exists>h. (gated_step env acc ws)\<^sup>*\<^sup>* g h \<and> gt_sem h = t"
  using assms
proof (induction rule: rtranclp_induct)
  case base
  then show ?case by blast
next
  case (step t u)
  then obtain h where h: "(gated_step env acc ws)\<^sup>*\<^sup>* g h" "gt_sem h = t" by blast
  have inv: "gated_inv cap ws h" by (rule gated.reach_inv[OF h(1) step.prems])
  have "\<exists>k. (gated_step env acc ws)\<^sup>*\<^sup>* h k \<and> gt_sem k = u"
    using step.hyps(2)
  proof cases
    case (acquire i n)
    then show ?thesis using gated_step.gated_acquire[of i ws h n env acc] h(2) by (intro exI[of _ "h\<lparr>gt_sem := u\<rparr>"]) auto
  next
    case (enter i n)
    then show ?thesis using gated_step.gated_enter[of i ws h n env acc] h(2) by (intro exI[of _ "h\<lparr>gt_sem := u\<rparr>"]) auto
  next
    case (leave i)
    obtain k where k: "(gated_step env acc ws)\<^sup>*\<^sup>* h k" "gt_sem k = t" "task_rank (gt_tasks k ! i) = 0"
      using gated_drain[OF inv leave(2)] leave h(2) by metis
    have "gated_step env acc ws k (k\<lparr>gt_sem := u\<rparr>)"
      using gated_step.gated_leave[of i ws k env acc] leave k by simp
    then show ?thesis using k(1) by (intro exI[of _ "k\<lparr>gt_sem := u\<rparr>"]) auto
  qed
  then show ?case using rtranclp_trans[OF h(1)] by blast
qed

text \<open>(C4) The bound on LLM nodes is needed. With the default of five slots, a run that starts a level of eight
  LLM nodes can hang: it reaches a state of that level in which nothing can move and which is no end,
  whatever the executors do.\<close>

theorem wide_level_hangs:
  assumes "start_levels env 5 idx ls st = GLevel i rest ns st' g" "map node_type_of ns = replicate 8 TLlm"
  shows "\<exists>h. (grun_step env 5)\<^sup>*\<^sup>* (start_levels env 5 idx ls st) (GLevel i rest ns st' h) \<and>
    (\<nexists>d. grun_step env 5 (GLevel i rest ns st' h) d) \<and>
    map (sem_stat (gt_sem h)) [0..<8] = replicate 3 Done @ replicate 5 (Blocked 1)"
proof -
  have "config_class (kind n) = ''LLMNodeConfig''" if "node_type_of n = TLlm" for n
    using that by (cases "kind n") (simp_all add: node_type_of_def)
  moreover have "length ns = 8" using arg_cong[OF assms(2), of length] by simp
  moreover have "\<forall>n \<in> set ns. node_type_of n = TLlm"
    using arg_cong[OF assms(2), of set] by (auto split: if_splits)
  ultimately have ws: "level_weights ns = replicate 8 (node_weight ''LLMNodeConfig'')"
    unfolding level_weights_def by (intro replicate_eqI) auto
  have g: "g = gated_init 5 ns (rn_state st')" using start_levels_GLevel[OF assms(1)] by blast
  obtain t where t: "(sem_step (level_weights ns))\<^sup>*\<^sup>* (sem_init 5) t" "sem_stuck (level_weights ns) t"
    "map (sem_stat t) [0..<8] = replicate 3 Done @ replicate 5 (Blocked 1)"
    using eight_llm_nodes_deadlock unfolding ws sem_reach_def by blast
  have "gt_sem g = sem_init 5" by (simp add: g gated_init_def)
  then obtain h where h: "(gated_step env (rn_results st') (level_weights ns))\<^sup>*\<^sup>* g h" "gt_sem h = t"
    using gated_follows[of "level_weights ns" g t 5 env "rn_results st'"] t(1) gated_init_inv[of 5 ns] g by auto
  have "sem_stat t 7 = Blocked 1"
    using arg_cong[OF t(3), of "\<lambda>xs. xs ! 7"] by (simp add: nth_append numeral_eq_Suc)
  then have live: "\<not> sem_finished (level_weights ns) t" by (auto simp: sem_finished_def ws intro!: exI[of _ 7])
  have stuck: "\<not> gated_step env (rn_results st') (level_weights ns) h k" for k
    using t(2) h(2) by (auto simp: sem_stuck_def elim!: gated_stepE) (metis sem_step.intros)+
  have "\<nexists>d. grun_step env 5 (GLevel i rest ns st' h) d"
    using stuck live h(2) by (auto elim!: grun_stepE)
  then show ?thesis using gated_grun[OF h(1)] t(3) h(2) unfolding assms(1) by (intro exI[of _ h]) blast
qed

section \<open>Witnesses\<close>

text \<open>The chain of two nodes, built and run with five slots a level.\<close>

lemma chain_width:
  assumes "built_run chain_nx demo_chain (run_env ls) s"
  shows "llm_width (run_nodes s) ids < 5"
proof -
  have "run_nodes s = node_map demo_chain" by (rule built_run_facts(2)[OF assms])
  then have "llm_width (run_nodes s) ids = 0"
    by (auto simp: llm_width_def filter_empty_conv node_map_def demo_chain_def node_id_def default_base_def node_type_of_def
        split: option.splits if_splits)
  then show ?thesis by simp
qed

lemma chain_ends:
  obtains ls s x where "built_run chain_nx demo_chain (run_env ls) s"
    "(grun_step (run_env ls) 5)\<^sup>*\<^sup>* (grun_start (run_env ls) 5 (fresh_run s)) (GEnd x)"
proof -
  obtain s ls where b: "built_run chain_nx demo_chain (run_env ls) s" by (rule chain_built)
  have "grun_start (run_env ls) 5 (fresh_run s) = start_levels (run_env ls) 5 1 (sort_key fst (we_levels (run_env ls))) (fresh_run s)"
    by (simp add: grun_start_def fresh_run_def)
  moreover have "\<forall>(l, ids) \<in> set (sort_key fst (we_levels (run_env ls))). llm_width (run_nodes (rn_state (fresh_run s))) ids < 5"
    using chain_width[OF b] by (auto simp: fresh_run_def)
  ultimately have "\<exists>x. (grun_step (run_env ls) 5)\<^sup>*\<^sup>* (grun_start (run_env ls) 5 (fresh_run s)) (GEnd x)"
    using grun_ends grun_accp grun_progress run_env_stable by metis
  then show ?thesis using that b by blast
qed

theorem gated_run_refines_witness:
  "\<exists>ls s x sched. (grun_step (run_env ls) 5)\<^sup>*\<^sup>* (grun_start (run_env ls) 5 (fresh_run s)) (GEnd x) \<and>
     run_result x = execute ((run_env ls)\<lparr>we_schedule := sched\<rparr>) (fresh_run s)"
proof -
  obtain ls s x where e: "(grun_step (run_env ls) 5)\<^sup>*\<^sup>* (grun_start (run_env ls) 5 (fresh_run s)) (GEnd x)"
    by (rule chain_ends)
  from gated_run_refines [OF e] e show ?thesis by blast
qed


text \<open>A level of eight LLM nodes.\<close>

definition llm_node :: "string \<Rightarrow> node" where
  "llm_node i = Node (default_base i [])
     (KLlm \<lparr>lm_model = ''gpt-4o'', lm_prompt = '''', lm_config = \<lparr>lc_model = None, lc_temperature = None, lc_max_tokens = None\<rparr>,
            lm_temperature = 0, lm_max_tokens = None\<rparr>)"

abbreviation eight_ids :: "string list" where
  "eight_ids \<equiv> [''a'', ''b'', ''c'', ''d'', ''e'', ''f'', ''g'', ''h'']"

definition eight_run :: "unit run" where
  "eight_run = fresh_run (frame_of ((demo_engine (llm_node ''a''))\<lparr>en_nodes := map (\<lambda>i. (i, llm_node i)) eight_ids\<rparr>))"

theorem wide_level_hangs_witness:
  "\<exists>h st. (grun_step (run_env []) 5)\<^sup>*\<^sup>* (start_levels (run_env []) 5 1 [(0, eight_ids)] eight_run)
       (GLevel 1 [] (map llm_node eight_ids) st h) \<and>
     (\<nexists>d. grun_step (run_env []) 5 (GLevel 1 [] (map llm_node eight_ids) st h) d)"
proof -
  have "\<exists>st g. start_levels (run_env []) 5 1 [(0, eight_ids)] eight_run = GLevel 1 [] (map llm_node eight_ids) st g"
    by (simp add: start_levels_def run_env_fields eight_run_def fresh_run_def demo_engine_def is_node_active_def
        predecessors_def numeral_2_eq_2 lookup_node_def frame_of_def)
  then obtain st g where
    g: "start_levels (run_env []) 5 1 [(0, eight_ids)] eight_run = GLevel 1 [] (map llm_node eight_ids) st g" by blast
  have "map node_type_of (map llm_node eight_ids) = replicate 8 TLlm"
    by (simp add: llm_node_def node_type_of_def eval_nat_numeral)
  from wide_level_hangs [OF g this] show ?thesis by blast
qed

end
